(* ===== verification/Prelude.thy ===== *)
theory Prelude
  imports Complex_Main "HOL-Library.AList" "HOL-Library.Product_Lexorder"
begin

text \<open>
  Shared vocabulary of the development.  Python dictionaries are association lists: iteration order
  is insertion order, assigning an existing key keeps its position and assigning a new key appends,
  which is exactly \<^const>\<open>AList.update\<close>; \<open>pop\<close> and \<open>del\<close> are \<^const>\<open>AList.delete\<close>.  Mutating the
  object stored under a key in place is \<open>dict_upd\<close>.  \<open>dsum\<close> is a sum over \<open>values()\<close>.
  Python floats that carry bytes, seconds or probabilities are rationals.
  The locale \<open>machine\<close> packages the induction every component's invariant proof uses.
\<close>

section \<open>Collections of facts\<close>

named_theorems dict_simps "lookup, domain and sum of updated dictionaries"
named_theorems sections "preservation lemmas of critical sections"

section \<open>Dictionaries\<close>

text \<open>Lookups are stated with \<^const>\<open>map_of\<close> throughout, never turned into membership.\<close>

declare map_of_eq_Some_iff [simp del] Some_eq_map_of_iff [simp del]

type_synonym ('k, 'v) dict = "('k \<times> 'v) list"

abbreviation dkeys :: "('k, 'v) dict \<Rightarrow> 'k list" where
  "dkeys d \<equiv> map fst d"

abbreviation dvals :: "('k, 'v) dict \<Rightarrow> 'v list" where
  "dvals d \<equiv> map snd d"

definition dict_upd :: "'k \<Rightarrow> ('v \<Rightarrow> 'v) \<Rightarrow> ('k, 'v) dict \<Rightarrow> ('k, 'v) dict" where
  "dict_upd k f d = map (\<lambda>(k', v). (k', if k' = k then f v else v)) d"

definition dsum :: "('v \<Rightarrow> rat) \<Rightarrow> ('k, 'v) dict \<Rightarrow> rat" where
  "dsum f d = sum_list (map f (dvals d))"

lemma dsum_Nil [simp]: "dsum f [] = 0"
  by (simp add: dsum_def)

lemma dsum_Cons [simp]: "dsum f ((k, v) # d) = f v + dsum f d"
  by (simp add: dsum_def)

lemma dsum_append [simp]: "dsum f (d @ e) = dsum f d + dsum f e"
  by (simp add: dsum_def)

lemma dkeys_dict_upd [simp]: "dkeys (dict_upd k f d) = dkeys d"
  by (induction d) (auto simp: dict_upd_def)

lemma map_of_dict_upd [dict_simps]:
  "map_of (dict_upd k f d) k' = (if k' = k then map_option f (map_of d k') else map_of d k')"
  by (induction d) (auto simp: dict_upd_def)

lemma dict_upd_notin: "k \<notin> set (dkeys d) \<Longrightarrow> dict_upd k f d = d"
  by (induction d) (auto simp: dict_upd_def)

lemma dict_upd_id:
  "distinct (dkeys d) \<Longrightarrow> (\<And>v. map_of d k = Some v \<Longrightarrow> f v = v) \<Longrightarrow> dict_upd k f d = d"
proof (induction d)
  case (Cons r d)
  obtain k' v where r: "r = (k', v)" by force
  show ?case
  proof (cases "k' = k")
    case True
    then have "dict_upd k f d = d" using Cons.prems(1) r by (intro dict_upd_notin) auto
    then show ?thesis using Cons.prems(2)[of v] r True by (simp add: dict_upd_def)
  qed (use Cons r in \<open>simp add: dict_upd_def\<close>)
qed (simp add: dict_upd_def)

lemma map_of_update_dict [dict_simps]:
  "map_of (AList.update k v d) k' = (if k' = k then Some v else map_of d k')"
  by (simp add: update_conv)

lemma map_of_delete_dict [dict_simps]:
  "map_of (AList.delete k d) k' = (if k' = k then None else map_of d k')"
  by (simp add: delete_conv)

lemma dkeys_update_set [dict_simps]: "fst ` set (AList.update k v d) = insert k (fst ` set d)"
  by (induction d) auto

lemma dkeys_delete_set [dict_simps]: "fst ` set (AList.delete k d) = fst ` set d - {k}"
  by (induction d) auto

lemma distinct_update_dict [simp]: "distinct (dkeys d) \<Longrightarrow> distinct (dkeys (AList.update k v d))"
  by (rule distinct_update)

lemma distinct_delete_dict [simp]: "distinct (dkeys d) \<Longrightarrow> distinct (dkeys (AList.delete k d))"
  by (rule distinct_delete)

lemma set_update_dict: "set (AList.update k v d) \<subseteq> insert (k, v) (set d)"
  by (induction d) auto

lemma set_delete_dict: "set (AList.delete k d) \<subseteq> set d"
  by (induction d) auto

lemma fst_set_dict_upd [simp]: "fst ` set (dict_upd k f d) = fst ` set d"
  by (metis dkeys_dict_upd list.set_map)

lemma dkeys_iff_map_of: "k \<in> set (dkeys d) \<longleftrightarrow> map_of d k \<noteq> None"
  by (metis map_of_eq_None_iff set_map)

lemma map_of_set_iff:
  "distinct (dkeys d) \<Longrightarrow> (k, v) \<in> set d \<longleftrightarrow> map_of d k = Some v"
  by (metis map_of_SomeD map_of_is_SomeI)

lemma dict_ballI:
  "distinct (dkeys d) \<Longrightarrow> (\<And>k v. map_of d k = Some v \<Longrightarrow> P k v) \<Longrightarrow> \<forall>(k, v) \<in> set d. P k v"
  by (auto dest: map_of_is_SomeI)

lemma find_SomeD: "find P xs = Some x \<Longrightarrow> x \<in> set xs \<and> P x"
  by (auto simp: find_Some_iff)

lemma delete_notin_dict [simp]: "k \<notin> set (dkeys d) \<Longrightarrow> AList.delete k d = d"
  by (induction d) auto

lemma update_notin_dict: "k \<notin> set (dkeys d) \<Longrightarrow> AList.update k v d = d @ [(k, v)]"
  by (induction d) auto

lemma dsum_dict_upd_notin: "k \<notin> set (dkeys d) \<Longrightarrow> dsum f (dict_upd k g d) = dsum f d"
  by (induction d) (auto simp: dict_upd_def)

lemma dsum_delete [dict_simps]:
  "distinct (dkeys d) \<Longrightarrow>
   dsum f (AList.delete k d) = dsum f d - (case map_of d k of None \<Rightarrow> 0 | Some v \<Rightarrow> f v)"
proof (induction d)
  case (Cons kv d)
  then show ?case
    by (cases kv) (auto simp: map_of_eq_None_iff[THEN iffD2])
qed simp

lemma dsum_update [dict_simps]:
  "distinct (dkeys d) \<Longrightarrow>
   dsum f (AList.update k v d) = dsum f d + f v - (case map_of d k of None \<Rightarrow> 0 | Some w \<Rightarrow> f w)"
proof (induction d)
  case (Cons kv d)
  then show ?case
    by (cases kv) (auto simp: map_of_eq_None_iff[THEN iffD2])
qed simp

lemma dsum_dict_upd [dict_simps]:
  "distinct (dkeys d) \<Longrightarrow>
   dsum f (dict_upd k g d) =
     dsum f d + (case map_of d k of None \<Rightarrow> 0 | Some v \<Rightarrow> f (g v) - f v)"
proof (induction d)
  case Nil
  then show ?case by (simp add: dict_upd_def)
next
  case (Cons kv d)
  obtain k' v where kv: "kv = (k', v)" by force
  show ?case
  proof (cases "k' = k")
    case True
    then have "dsum f (dict_upd k g d) = dsum f d"
      using Cons.prems kv by (intro dsum_dict_upd_notin) auto
    moreover have "dict_upd k g ((k', v) # d) = (k, g v) # dict_upd k g d"
      using True by (simp add: dict_upd_def)
    ultimately show ?thesis using True kv by simp
  next
    case False
    then have "dict_upd k g ((k', v) # d) = (k', v) # dict_upd k g d"
      by (simp add: dict_upd_def)
    then show ?thesis using False kv Cons by (auto split: option.splits)
  qed
qed

lemma dsum_nonneg: "(\<And>k v. (k, v) \<in> set d \<Longrightarrow> 0 \<le> f v) \<Longrightarrow> 0 \<le> dsum f d"
proof (induction d)
  case (Cons kv d)
  then show ?case by (cases kv) (force intro!: add_nonneg_nonneg)
qed simp

lemma dsum_mono: "(\<And>k v. (k, v) \<in> set d \<Longrightarrow> f v \<le> g v) \<Longrightarrow> dsum f d \<le> dsum g d"
proof (induction d)
  case (Cons kv d)
  then show ?case by (cases kv) (force intro!: add_mono)
qed simp

lemma dsum_nonneg_lookup:
  "distinct (dkeys d) \<Longrightarrow> (\<And>k v. map_of d k = Some v \<Longrightarrow> 0 \<le> f v) \<Longrightarrow> 0 \<le> dsum f d"
  by (rule dsum_nonneg) (metis map_of_is_SomeI)

lemma dsum_mono_lookup:
  "distinct (dkeys d) \<Longrightarrow> (\<And>k v. map_of d k = Some v \<Longrightarrow> f v \<le> g v) \<Longrightarrow> dsum f d \<le> dsum g d"
  by (rule dsum_mono) (metis map_of_is_SomeI)

lemma dsum_filter_le:
  "(\<And>k v. (k, v) \<in> set d \<Longrightarrow> 0 \<le> f v) \<Longrightarrow> dsum f (filter P d) \<le> dsum f d"
proof (induction d)
  case (Cons a d)
  then show ?case by (cases a) (force intro: add_increasing)
qed simp

text \<open>The dictionary with every value replaced by a view of it.\<close>

definition dict_map :: "('v \<Rightarrow> 'w) \<Rightarrow> ('k, 'v) dict \<Rightarrow> ('k, 'w) dict" where
  "dict_map f d = map (\<lambda>(k, v). (k, f v)) d"

lemma dict_map_Nil [simp]: "dict_map f [] = []"
  by (simp add: dict_map_def)

lemma dict_map_Cons [simp]: "dict_map f ((k, v) # d) = (k, f v) # dict_map f d"
  by (simp add: dict_map_def)

lemma dict_map_eq_Nil [simp]: "dict_map f d = [] \<longleftrightarrow> d = []"
  by (simp add: dict_map_def)

lemma dkeys_dict_map [simp]: "dkeys (dict_map f d) = dkeys d"
  by (induction d) auto

lemma fst_set_dict_map [simp]: "fst ` set (dict_map f d) = fst ` set d"
  by (metis dkeys_dict_map list.set_map)

lemma map_of_dict_map [simp]: "map_of (dict_map f d) k = map_option f (map_of d k)"
  by (induction d) auto

lemma dsum_dict_map [simp]: "dsum g (dict_map f d) = dsum (\<lambda>v. g (f v)) d"
  by (induction d) auto

lemma dict_map_update [simp]: "dict_map f (AList.update k v d) = AList.update k (f v) (dict_map f d)"
  by (induction d) auto

lemma dict_map_delete [simp]: "dict_map f (AList.delete k d) = AList.delete k (dict_map f d)"
  by (induction d) auto

lemma dict_map_upd_same: "(\<And>v. f (h v) = f v) \<Longrightarrow> dict_map f (dict_upd k h d) = dict_map f d"
  by (induction d) (auto simp: dict_upd_def)

lemma dict_map_upd: "(\<And>v. f (h v) = g (f v)) \<Longrightarrow> dict_map f (dict_upd k h d) = dict_upd k g (dict_map f d)"
  by (induction d) (auto simp: dict_upd_def)

lemma dict_map_map_same:
  "(\<And>k v. f (h k v) = f v) \<Longrightarrow> dict_map f (map (\<lambda>(k, v). (k, h k v)) d) = dict_map f d"
  by (induction d) auto

lemma dkeys_map_vals [simp]: "dkeys (map (\<lambda>(k, v). (k, h k v)) d) = dkeys d"
  by (induction d) auto

lemma map_of_map_vals [dict_simps]:
  "map_of (map (\<lambda>(k, v). (k, h k v)) d) k = map_option (h k) (map_of d k)"
  by (induction d) auto

lemma filter_neq_delete: "filter (\<lambda>(k', v). k' \<noteq> k) d = AList.delete k d"
  by (induction d) auto

section \<open>Rounding\<close>

text \<open>Python's \<open>round(x, n)\<close>: to the nearest multiple of \<open>10 ** -n\<close>, ties to the even one.\<close>

definition round_half_even :: "rat \<Rightarrow> int" where
  "round_half_even x =
     (let f = floor x; d = x - of_int f
      in if d < 1 / 2 then f else if d > 1 / 2 then f + 1 else if even f then f else f + 1)"

definition py_round :: "nat \<Rightarrow> rat \<Rightarrow> rat" where
  "py_round n x = of_int (round_half_even (x * 10 ^ n)) / 10 ^ n"

lemma round_half_even_of_int [simp]: "round_half_even (of_int i) = i"
  by (simp add: round_half_even_def)

lemma round_half_even_mono: "x \<le> y \<Longrightarrow> round_half_even x \<le> round_half_even y"
proof -
  assume le: "x \<le> y"
  have fl: "floor x \<le> floor y" using le by (rule floor_mono)
  show ?thesis
  proof (cases "floor x = floor y")
    case True
    then show ?thesis using le by (auto simp: round_half_even_def Let_def)
  next
    case False
    then have "floor x + 1 \<le> floor y" using fl by simp
    then show ?thesis by (auto simp: round_half_even_def Let_def)
  qed
qed

lemma py_round_nonneg: "0 \<le> x \<Longrightarrow> 0 \<le> py_round n x"
  using round_half_even_mono[of 0 "x * 10 ^ n"] round_half_even_of_int[of 0]
  by (simp add: py_round_def)

section \<open>Strings\<close>

text \<open>\<open>str\<close> of a number, \<open>startswith\<close>, \<open>endswith\<close> and \<open>in\<close>.\<close>

fun str_nat :: "nat \<Rightarrow> string" where
  "str_nat n = (if n < 10 then [char_of (48 + n)] else str_nat (n div 10) @ [char_of (48 + n mod 10)])"

declare str_nat.simps [simp del]

definition starts_with :: "string \<Rightarrow> string \<Rightarrow> bool" where
  "starts_with p s = (take (length p) s = p)"

definition ends_with :: "string \<Rightarrow> string \<Rightarrow> bool" where
  "ends_with p s = starts_with (rev p) (rev s)"

fun occurs_in :: "string \<Rightarrow> string \<Rightarrow> bool" where
  "occurs_in p [] = (p = [])"
| "occurs_in p (c # cs) = (starts_with p (c # cs) \<or> occurs_in p cs)"

lemma starts_with_iff: "starts_with p s \<longleftrightarrow> (\<exists>t. s = p @ t)"
  unfolding starts_with_def by (metis append_eq_conv_conj append_take_drop_id)

lemma ends_with_iff: "ends_with p s \<longleftrightarrow> (\<exists>t. s = t @ p)"
  unfolding ends_with_def starts_with_iff by (metis rev_append rev_rev_ident)

lemma occurs_in_iff: "occurs_in p s \<longleftrightarrow> (\<exists>t u. s = t @ p @ u)"
proof (induction s)
  case (Cons c cs)
  show ?case
    unfolding occurs_in.simps Cons.IH starts_with_iff
    by (metis append_Cons append_Nil append_eq_Cons_conv)
qed auto

section \<open>Machines: invariants over runs\<close>

text \<open>
  A component with a step function \<open>step\<close> (which may refuse an event: \<open>None\<close>), a predicate \<open>ok\<close>
  restricting the events considered, and an invariant every accepted step keeps.
\<close>

fun run_events :: "('e \<Rightarrow> 's \<Rightarrow> 's option) \<Rightarrow> 'e list \<Rightarrow> 's \<Rightarrow> 's option" where
  "run_events f [] s = Some s"
| "run_events f (e # es) s = (case f e s of None \<Rightarrow> None | Some s' \<Rightarrow> run_events f es s')"

text \<open>Every event of a run is admitted where it happens.\<close>

fun guarded :: "('e \<Rightarrow> 's \<Rightarrow> bool) \<Rightarrow> ('e \<Rightarrow> 's \<Rightarrow> 's option) \<Rightarrow> 'e list \<Rightarrow> 's \<Rightarrow> bool" where
  "guarded ok f [] s = True"
| "guarded ok f (e # es) s = (ok e s \<and> (case f e s of None \<Rightarrow> True | Some s' \<Rightarrow> guarded ok f es s'))"

lemma guarded_True: "(\<And>e s. e \<in> set es \<Longrightarrow> ok e s) \<Longrightarrow> guarded ok f es s"
  by (induction es arbitrary: s) (auto split: option.splits)

lemma is_some: "\<not> Option.is_none x \<Longrightarrow> x = Some (the x)"
  by (simp add: Option.is_none_def)

text \<open>Decimal digits and the number they spell.\<close>

definition is_digit :: "char \<Rightarrow> bool" where
  "is_digit c = (48 \<le> (of_char c :: nat) \<and> of_char c \<le> (57 :: nat))"

definition digits :: "string \<Rightarrow> nat" where
  "digits s = foldl (\<lambda>n c. 10 * n + (of_char c - 48)) 0 s"

lemma digits_snoc: "digits (s @ [c]) = 10 * digits s + (of_char c - 48)"
  by (simp add: digits_def)

lemma of_char_digit: "k < 10 \<Longrightarrow> (of_char (char_of (48 + k :: nat) :: char) :: nat) = 48 + k"
  by (simp add: of_char_of)

lemma digits_str_nat [simp]: "digits (str_nat n) = n"
proof (induction n rule: str_nat.induct)
  case (1 n)
  show ?case
  proof (cases "n < 10")
    case True
    then show ?thesis by (subst str_nat.simps) (simp add: digits_def of_char_digit)
  next
    case False
    then have "digits (str_nat n) = 10 * digits (str_nat (n div 10)) + n mod 10"
      by (subst str_nat.simps) (simp add: digits_snoc of_char_digit)
    then show ?thesis using 1 False by simp
  qed
qed

lemma digits_zeros [simp]: "digits (replicate k (CHR ''0'') @ s) = digits s"
  by (induction k) (simp_all add: digits_def)

lemma str_nat_digits: "c \<in> set (str_nat n) \<Longrightarrow> is_digit c"
proof (induction n rule: str_nat.induct)
  case (1 n)
  have "is_digit (char_of (48 + k :: nat))" if "k < 10" for k using that by (simp add: is_digit_def of_char_digit)
  then show ?case using 1 str_nat.simps[of n] by (auto split: if_splits)
qed

text \<open>\<open>str.strip\<close>, \<open>str.split\<close> and \<open>str.lower\<close> on ASCII text.\<close>

definition is_space :: "char \<Rightarrow> bool" where
  "is_space c = (c \<in> set [CHR '' '', CHR 0x09, CHR 0x0A, CHR 0x0B, CHR 0x0C, CHR 0x0D, CHR 0x1C, CHR 0x1D, CHR 0x1E, CHR 0x1F])"

definition strip :: "string \<Rightarrow> string" where
  "strip s = rev (dropWhile is_space (rev (dropWhile is_space s)))"

definition lower_char :: "char \<Rightarrow> char" where
  "lower_char c = (let n = of_char c :: nat in if 65 \<le> n \<and> n \<le> 90 then char_of (n + 32) else c)"

fun split_words :: "string \<Rightarrow> string \<Rightarrow> string list" where
  "split_words [] w = (if w = [] then [] else [w])"
| "split_words (c # cs) w = (if is_space c then (if w = [] then split_words cs [] else w # split_words cs [])
     else split_words cs (w @ [c]))"

locale machine =
  fixes step :: "'e \<Rightarrow> 's \<Rightarrow> 's option"
    and ok :: "'e \<Rightarrow> 's \<Rightarrow> bool"
    and inv :: "'s \<Rightarrow> bool"
  assumes inv_step: "inv s \<Longrightarrow> ok e s \<Longrightarrow> step e s = Some s' \<Longrightarrow> inv s'"
begin

inductive reach_from :: "'s \<Rightarrow> 's \<Rightarrow> bool" for s0 where
  reach_refl: "reach_from s0 s0"
| reach_step: "reach_from s0 s \<Longrightarrow> ok e s \<Longrightarrow> step e s = Some s' \<Longrightarrow> reach_from s0 s'"

lemma reach_inv: "reach_from s0 s \<Longrightarrow> inv s0 \<Longrightarrow> inv s"
  by (induction rule: reach_from.induct) (auto intro: inv_step)

lemma run_inv:
  assumes "run_events step es s = Some s'" and "inv s" and "\<And>e t. e \<in> set es \<Longrightarrow> ok e t"
  shows "inv s'"
  using assms
proof (induction es arbitrary: s)
  case (Cons e es)
  obtain t where t: "step e s = Some t" "run_events step es t = Some s'"
    using Cons.prems by (auto split: option.splits)
  have "inv t" using inv_step Cons.prems t by (metis list.set_intros(1))
  then show ?case using Cons.IH[OF t(2)] Cons.prems by simp
qed simp

lemma guarded_inv:
  "run_events step es s = Some s' \<Longrightarrow> guarded ok step es s \<Longrightarrow> inv s \<Longrightarrow> inv s'"
  by (induction es arbitrary: s) (auto split: option.splits intro: inv_step)

end

end
