(* ===== verification/GpuConfig.thy ===== *)
theory GpuConfig
  imports Prelude
begin

text \<open>
  \<open>hostagent/gpuconfig.py\<close>: the coordinator's tunables, their resolution from the environment and the
  two computations on them.  Quantities in bytes and seconds are rationals; the environment is a
  function from names to the raw string's parse result (\<open>Unset\<close> for a missing or blank variable,
  \<open>Bad\<close> for a string \<open>float()\<close> rejects).  \<open>float()\<close> itself is the standard library's, so a variable is
  given by what it parses to.
\<close>

definition GIB :: rat where
  "GIB = 1024 ^ 3"

datatype envval = Unset | Bad | Num rat

type_synonym environ = "string \<Rightarrow> envval"

record coord_config =
  safety_reserve_bytes :: rat
  safety_headroom_bytes :: rat
  max_admission_attempts :: int
  drain_timeout_s :: rat
  job_drain_timeout_s :: rat
  admission_backoff_base_s :: rat
  admission_backoff_cap_s :: rat
  configured_budget_bytes :: "rat option"

definition env_float :: "environ \<Rightarrow> string \<Rightarrow> rat \<Rightarrow> rat" where
  "env_float env name d = (case env name of Unset \<Rightarrow> d | Bad \<Rightarrow> d | Num x \<Rightarrow> x)"

text \<open>\<open>int()\<close> of a float truncates toward zero.\<close>

definition py_int :: "rat \<Rightarrow> int" where
  "py_int x = (if x < 0 then - floor (- x) else floor x)"

definition env_int :: "environ \<Rightarrow> string \<Rightarrow> int \<Rightarrow> int" where
  "env_int env name d = py_int (env_float env name (of_int d))"

definition default_config :: coord_config where
  "default_config = \<lparr> safety_reserve_bytes = GIB, safety_headroom_bytes = GIB / 2,
     max_admission_attempts = 3, drain_timeout_s = 30, job_drain_timeout_s = 120,
     admission_backoff_base_s = 1 / 4, admission_backoff_cap_s = 5,
     configured_budget_bytes = None \<rparr>"

text \<open>\<open>backoff_for(attempt, jitter)\<close>; the jitter is drawn by the caller.\<close>

definition backoff_for :: "coord_config \<Rightarrow> int \<Rightarrow> rat \<Rightarrow> rat" where
  "backoff_for cfg attempt jitter =
     (let raw = admission_backoff_base_s cfg * 2 ^ nat (max 0 (attempt - 1));
          capped = min raw (admission_backoff_cap_s cfg)
      in capped * jitter)"

definition usable_capacity :: "coord_config \<Rightarrow> rat \<Rightarrow> rat" where
  "usable_capacity cfg device_total =
     (let from_device = device_total - safety_reserve_bytes cfg;
          bounded = (case configured_budget_bytes cfg of
                       None \<Rightarrow> from_device | Some b \<Rightarrow> min from_device b)
      in max 0 bounded)"

text \<open>\<open>load()\<close>: a malformed \<open>GPU_VRAM_BUDGET_GB\<close> raises \<open>ValueError\<close> (\<open>None\<close>); every other variable
  falls back to its default.\<close>

definition load_config :: "environ \<Rightarrow> coord_config option" where
  "load_config env =
     (case (case env ''GPU_VRAM_BUDGET_GB'' of
              Unset \<Rightarrow> Some None | Bad \<Rightarrow> None | Num b \<Rightarrow> Some (Some (b * GIB))) of
        None \<Rightarrow> None
      | Some configured \<Rightarrow> Some \<lparr>
          safety_reserve_bytes =
            env_float env ''GPU_SAFETY_RESERVE_GB'' (safety_reserve_bytes default_config / GIB) * GIB,
          safety_headroom_bytes =
            env_float env ''GPU_SAFETY_HEADROOM_GB'' (safety_headroom_bytes default_config / GIB) * GIB,
          max_admission_attempts =
            env_int env ''GPU_MAX_ADMISSION_ATTEMPTS'' (max_admission_attempts default_config),
          drain_timeout_s = env_float env ''GPU_DRAIN_TIMEOUT_S'' (drain_timeout_s default_config),
          job_drain_timeout_s =
            env_float env ''GPU_JOB_DRAIN_TIMEOUT_S'' (job_drain_timeout_s default_config),
          admission_backoff_base_s =
            env_float env ''GPU_ADMISSION_BACKOFF_BASE_S'' (admission_backoff_base_s default_config),
          admission_backoff_cap_s =
            env_float env ''GPU_ADMISSION_BACKOFF_CAP_S'' (admission_backoff_cap_s default_config),
          configured_budget_bytes = configured \<rparr>)"

section \<open>Properties of the two computations\<close>

lemma usable_capacity_nonneg: "0 \<le> usable_capacity cfg t"
  by (simp add: usable_capacity_def Let_def)

lemma usable_capacity_le_budget:
  "configured_budget_bytes cfg = Some b \<Longrightarrow> 0 \<le> b \<Longrightarrow> usable_capacity cfg t \<le> b"
  by (simp add: usable_capacity_def Let_def)

lemma usable_capacity_le_device:
  "safety_reserve_bytes cfg \<le> t \<Longrightarrow> usable_capacity cfg t \<le> t - safety_reserve_bytes cfg"
  by (auto simp: usable_capacity_def Let_def split: option.splits)

lemma backoff_for_bounds:
  assumes "0 \<le> admission_backoff_base_s cfg" "0 \<le> admission_backoff_cap_s cfg"
    and "1 / 2 \<le> j" "j \<le> 1"
  shows "0 \<le> backoff_for cfg a j" and "backoff_for cfg a j \<le> admission_backoff_cap_s cfg"
proof -
  let ?c = "min (admission_backoff_base_s cfg * 2 ^ nat (max 0 (a - 1))) (admission_backoff_cap_s cfg)"
  have c0: "0 \<le> ?c" using assms by simp
  show "0 \<le> backoff_for cfg a j" using c0 assms by (simp add: backoff_for_def Let_def)
  have "?c * j \<le> ?c" using mult_left_le[OF _ c0, of j] assms by blast
  also have "?c \<le> admission_backoff_cap_s cfg" by simp
  finally show "backoff_for cfg a j \<le> admission_backoff_cap_s cfg"
    by (simp add: backoff_for_def Let_def)
qed

lemma py_int_of_int [simp]: "py_int (of_int i) = i"
  by (simp add: py_int_def)

lemma load_config_default: "load_config (\<lambda>_. Unset) = Some default_config"
proof -
  have "env_int (\<lambda>_. Unset) n 3 = 3" for n
    using py_int_of_int[of 3] by (simp add: env_int_def env_float_def)
  then show ?thesis
    by (simp add: load_config_def default_config_def env_float_def GIB_def)
qed

end
