(* ===== verification/Coordinator.thy ===== *)
theory Coordinator
  imports GpuConfig
begin

text \<open>
  \<open>hostagent/coordinator.py\<close>, the data and the critical sections.  Every block the source runs under
  \<open>with self._locked()\<close> is one function on the record \<open>coord\<close>; what happens between two blocks
  (lifecycle calls, waits, the load gate) is the business of theory \<open>CoordMachine\<close>.  Readings of the
  device (\<open>gpu.free_bytes()\<close>) and of the clock are arguments.  The wall clock is a field giving the
  reading taken with each recency ticket, since \<open>_touch\<close> takes exactly one of each.  A claim's
  \<open>_released\<close> flag, a waiter's event and disposition live in the state as well, because they are
  mutable objects shared between threads.  Message texts are not modelled.
\<close>

section \<open>Outcomes and dispositions\<close>

type_synonym model_key = string
type_synonym op_id = string

record claim =
  cl_key :: model_key
  cl_op :: op_id
  cl_id :: nat

datatype refuse_code = GPU_BUSY | MODEL_TOO_LARGE | LOAD_FAILED

datatype outcome = Share claim | Grant claim | Refuse refuse_code "rat option"

fun outcome_ok :: "outcome \<Rightarrow> bool" where
  "outcome_ok (Share _) = True"
| "outcome_ok (Grant _) = True"
| "outcome_ok (Refuse _ _) = False"

fun refuse_transient :: "outcome \<Rightarrow> bool" where
  "refuse_transient (Refuse c _) = (c = GPU_BUSY)"
| "refuse_transient _ = False"

datatype disposition = DOutcome outcome | RETRY

section \<open>State\<close>

datatype rstate = LOADING | RESIDENT | DRAINING | EVICTING | ROLLING_BACK

definition transient_state :: "rstate \<Rightarrow> bool" where
  "transient_state s = (s = DRAINING \<or> s = EVICTING \<or> s = ROLLING_BACK)"

text \<open>A lifecycle's child object: only its \<open>pid\<close> is used, \<open>None\<close> for a deferred child.\<close>

datatype child = Child (child_pid: "int option")

record resident =
  rm_key :: model_key
  rm_state :: rstate
  rm_accounted :: rat
  rm_active :: nat
  rm_last_used :: rat
  rm_seq :: nat
  rm_child :: "child option"
  rm_mat :: bool

definition new_resident :: "model_key \<Rightarrow> rat \<Rightarrow> nat \<Rightarrow> resident" where
  "new_resident k now n = \<lparr> rm_key = k, rm_state = LOADING, rm_accounted = 0, rm_active = 0,
     rm_last_used = now, rm_seq = n, rm_child = None, rm_mat = True \<rparr>"

record reservation =
  rv_op :: op_id
  rv_key :: model_key
  rv_est :: rat
  rv_gen :: nat
  rv_mat :: bool
  rv_waiters :: "nat list"

definition new_reservation :: "op_id \<Rightarrow> model_key \<Rightarrow> rat \<Rightarrow> nat \<Rightarrow> reservation" where
  "new_reservation op k est g = \<lparr> rv_op = op, rv_key = k, rv_est = est, rv_gen = g,
     rv_mat = False, rv_waiters = [] \<rparr>"

record waiter =
  w_op :: op_id
  w_event :: bool
  w_disp :: "disposition option"

text \<open>Both checks' terms as \<open>_bounds_snapshot\<close> reports them, in GiB.\<close>

record resident_row =
  row_key :: model_key
  row_vram_gb :: rat
  row_state :: rstate
  row_active :: nat

record bounds =
  b_usable :: rat
  b_accounted :: rat
  b_reserved :: rat
  b_unmaterialized :: rat
  b_live_free :: rat
  b_residents :: "resident_row list"

datatype reason = JobExclusive | CannotFitAlone | BudgetBound | LiveVramBound | LoadFailedReason

datatype decision_kind = Refused | EvictedRetry | Admitted

record decision =
  d_kind :: decision_kind
  d_op :: op_id
  d_key :: model_key
  d_requested_gb :: "rat option"
  d_reason :: "reason option"
  d_attempt :: "nat option"
  d_evicted :: "(model_key \<times> rat) list"
  d_blocking :: "string option"
  d_bounds :: "bounds option"
  d_headroom_gb :: rat

text \<open>The metric \<open>_observe\<close> bumps: outcome and deciding condition.\<close>

datatype observation =
    ORefuse string
  | OShare
  | OEvict
  | OGrant
  | ORollback string

record coord =
  c_residents :: "(model_key, resident) dict"
  c_reservations :: "(op_id, reservation) dict"
  c_exclusive :: "(string \<times> rat) option"
  c_barrier :: bool
  c_generation :: "(model_key, nat) dict"
  c_claims :: "(model_key, nat set) dict"
  c_claim_next :: nat
  c_released :: "nat set"
  c_recency_next :: nat
  c_wall :: "nat \<Rightarrow> rat"
  c_heap :: "nat \<Rightarrow> waiter option"
  c_heap_next :: nat
  c_disposed :: "(op_id, disposition) dict"
  c_live :: "(op_id, nat) dict"
  c_pending :: "(op_id, nat list) dict"
  c_intent :: "(op_id, model_key list) dict"
  c_observed :: "observation list"
  c_decisions :: "decision list"

definition init_coord :: "(nat \<Rightarrow> rat) \<Rightarrow> coord" where
  "init_coord wall = \<lparr> c_residents = [], c_reservations = [], c_exclusive = None,
     c_barrier = False, c_generation = [], c_claims = [], c_claim_next = 1,
     c_released = {}, c_recency_next = 1, c_wall = wall, c_heap = Map.empty, c_heap_next = 0,
     c_disposed = [], c_live = [], c_pending = [], c_intent = [],
     c_observed = [], c_decisions = [] \<rparr>"

definition observe :: "observation \<Rightarrow> coord \<Rightarrow> coord" where
  "observe ob c = c\<lparr> c_observed := c_observed c @ [ob] \<rparr>"

section \<open>Derived quantities\<close>

definition accounted :: "coord \<Rightarrow> rat" where
  "accounted c = dsum rm_accounted (c_residents c) + dsum rv_est (c_reservations c)"

definition unmat_res :: "reservation \<Rightarrow> rat" where
  "unmat_res r = (if rv_mat r then 0 else rv_est r)"

definition unmat_resident :: "resident \<Rightarrow> rat" where
  "unmat_resident r = (if rm_mat r then 0 else rm_accounted r)"

definition unmaterialized :: "coord \<Rightarrow> rat" where
  "unmaterialized c = dsum unmat_res (c_reservations c) + dsum unmat_resident (c_residents c)"

definition generation_of :: "coord \<Rightarrow> model_key \<Rightarrow> nat" where
  "generation_of c k = (case map_of (c_generation c) k of None \<Rightarrow> 0 | Some g \<Rightarrow> g)"

definition bump_generation :: "model_key \<Rightarrow> coord \<Rightarrow> coord" where
  "bump_generation k c = c\<lparr> c_generation := AList.update k (generation_of c k + 1) (c_generation c) \<rparr>"

definition reservation_for :: "coord \<Rightarrow> model_key \<Rightarrow> reservation option" where
  "reservation_for c k = find (\<lambda>r. rv_key r = k) (dvals (c_reservations c))"

definition set_resident :: "model_key \<Rightarrow> (resident \<Rightarrow> resident) \<Rightarrow> coord \<Rightarrow> coord" where
  "set_resident k f c = c\<lparr> c_residents := dict_upd k f (c_residents c) \<rparr>"

definition touch :: "model_key \<Rightarrow> coord \<Rightarrow> coord" where
  "touch k c = (set_resident k
      (\<lambda>r. r\<lparr> rm_last_used := c_wall c (c_recency_next c), rm_seq := c_recency_next c \<rparr>) c)
      \<lparr> c_recency_next := c_recency_next c + 1 \<rparr>"

section \<open>Claims\<close>

text \<open>\<open>_grant_claim\<close>; \<open>None\<close> is the \<open>KeyError\<close> of \<open>self.residents[model_key]\<close>.\<close>

definition grant_claim :: "model_key \<Rightarrow> op_id \<Rightarrow> coord \<Rightarrow> (claim \<times> coord) option" where
  "grant_claim k op c = (case map_of (c_residents c) k of
      None \<Rightarrow> None
    | Some _ \<Rightarrow>
        (let c1 = touch k (set_resident k (\<lambda>r. r\<lparr> rm_active := rm_active r + 1 \<rparr>) c);
             cid = c_claim_next c1;
             ids = (case map_of (c_claims c1) k of None \<Rightarrow> {} | Some S \<Rightarrow> S)
         in Some (\<lparr> cl_key = k, cl_op = op, cl_id = cid \<rparr>,
                  c1\<lparr> c_claim_next := cid + 1, c_claims := AList.update k (insert cid ids) (c_claims c1) \<rparr>)))"

text \<open>\<open>Claim.release\<close> with \<open>_release_claim\<close>: the second call of the same claim does nothing.\<close>

definition release_claim :: "claim \<Rightarrow> coord \<Rightarrow> coord" where
  "release_claim cl c =
     (if cl_id cl \<in> c_released c then c
      else
        let c0 = c\<lparr> c_released := insert (cl_id cl) (c_released c) \<rparr>;
            c1 = (case map_of (c_residents c0) (cl_key cl) of
                    None \<Rightarrow> c0
                  | Some _ \<Rightarrow> touch (cl_key cl)
                      (set_resident (cl_key cl) (\<lambda>r. r\<lparr> rm_active := rm_active r - 1 \<rparr>) c0))
        in (case map_of (c_claims c1) (cl_key cl) of
              None \<Rightarrow> c1
            | Some S \<Rightarrow> c1\<lparr> c_claims := AList.update (cl_key cl) (S - {cl_id cl}) (c_claims c1) \<rparr>))"

section \<open>Waiters\<close>

definition set_waiter :: "nat \<Rightarrow> (waiter \<Rightarrow> waiter) \<Rightarrow> coord \<Rightarrow> coord" where
  "set_waiter w f c = c\<lparr> c_heap := (c_heap c)(w := map_option f (c_heap c w)) \<rparr>"

definition waiter_op :: "coord \<Rightarrow> nat \<Rightarrow> op_id" where
  "waiter_op c w = (case c_heap c w of None \<Rightarrow> [] | Some x \<Rightarrow> w_op x)"

definition waiter_disp :: "coord \<Rightarrow> nat \<Rightarrow> disposition option" where
  "waiter_disp c w = (case c_heap c w of None \<Rightarrow> None | Some x \<Rightarrow> w_disp x)"

definition assign_disposition :: "disposition \<Rightarrow> nat \<Rightarrow> coord \<Rightarrow> coord" where
  "assign_disposition d w c =
     (set_waiter w (\<lambda>x. x\<lparr> w_disp := Some d \<rparr>) c)
       \<lparr> c_disposed := AList.update (waiter_op c w) d (c_disposed c) \<rparr>"

definition dispose_one :: "disposition \<Rightarrow> coord \<Rightarrow> nat \<Rightarrow> coord" where
  "dispose_one d c w =
     (let c1 = (if waiter_disp c w = None then assign_disposition d w c else c)
      in c1\<lparr> c_live := AList.delete (waiter_op c1 w) (c_live c1) \<rparr>)"

text \<open>\<open>_dispose(waiters, disposition, owner_op_id)\<close>, the \<open>event.set()\<close> loop included.\<close>

definition dispose :: "nat list \<Rightarrow> disposition \<Rightarrow> op_id \<Rightarrow> coord \<Rightarrow> coord" where
  "dispose ws d owner c =
     (let c1 = foldl (dispose_one d) c ws;
          c2 = c1\<lparr> c_pending := AList.delete owner (c_pending c1) \<rparr>
      in foldl (\<lambda>c w. set_waiter w (\<lambda>x. x\<lparr> w_event := True \<rparr>) c) c2 ws)"

text \<open>\<open>_waiter_outcome\<close>: contention makes the waiter retry, every other disposition is adopted.\<close>

fun waiter_outcome :: "disposition \<Rightarrow> disposition" where
  "waiter_outcome (DOutcome (Refuse code ra)) =
     (if code = GPU_BUSY then RETRY else DOutcome (Refuse code ra))"
| "waiter_outcome d = d"

section \<open>Victim selection\<close>

definition eligible_victims :: "model_key \<Rightarrow> coord \<Rightarrow> resident list" where
  "eligible_victims k c =
     sort_key (\<lambda>r. (rm_active r > 0, rm_seq r))
       (map snd (filter (\<lambda>(k', r). k' \<noteq> k \<and> rm_state r = RESIDENT \<and> rm_mat r) (c_residents c)))"

text \<open>The accumulation loop: extend until the freed bytes satisfy the test; \<open>None\<close> when all of the
  eligible are not enough.\<close>

fun pick_victims :: "(rat \<Rightarrow> bool) \<Rightarrow> rat \<Rightarrow> resident list \<Rightarrow> resident list option" where
  "pick_victims enough freed [] = None"
| "pick_victims enough freed (v # vs) =
     (let freed' = freed + rm_accounted v
      in if enough freed' then Some [v]
         else map_option ((#) v) (pick_victims enough freed' vs))"

definition victims_suffice :: "coord_config \<Rightarrow> rat \<Rightarrow> coord \<Rightarrow> rat \<Rightarrow> rat \<Rightarrow> rat \<Rightarrow> bool" where
  "victims_suffice cfg dev c est free freed =
     (accounted c - freed + est \<le> usable_capacity cfg dev \<and>
      est \<le> (free + freed) - unmaterialized c - safety_headroom_bytes cfg)"

definition select_victims ::
  "coord_config \<Rightarrow> rat \<Rightarrow> model_key \<Rightarrow> rat \<Rightarrow> rat \<Rightarrow> coord \<Rightarrow> resident list" where
  "select_victims cfg dev k est free c =
     (case pick_victims (victims_suffice cfg dev c est free) 0 (eligible_victims k c) of
        None \<Rightarrow> [] | Some vs \<Rightarrow> vs)"

section \<open>Stage 1\<close>

definition retry_after :: "coord_config \<Rightarrow> rat" where
  "retry_after cfg = py_round 3 (min (admission_backoff_cap_s cfg) 2)"

definition busy :: "coord_config \<Rightarrow> outcome" where
  "busy cfg = Refuse GPU_BUSY (Some (retry_after cfg))"

definition bounds_snapshot :: "coord_config \<Rightarrow> rat \<Rightarrow> rat \<Rightarrow> coord \<Rightarrow> bounds" where
  "bounds_snapshot cfg dev free c = \<lparr>
     b_usable = usable_capacity cfg dev / GIB,
     b_accounted = dsum rm_accounted (c_residents c) / GIB,
     b_reserved = dsum rv_est (c_reservations c) / GIB,
     b_unmaterialized = unmaterialized c / GIB,
     b_live_free = free / GIB,
     b_residents = map (\<lambda>(k, r). \<lparr> row_key = k, row_vram_gb = py_round 2 (rm_accounted r / GIB),
                          row_state = rm_state r, row_active = rm_active r \<rparr>) (c_residents c) \<rparr>"

record refusal_context =
  rc_reason :: reason
  rc_blocking :: "string option"
  rc_bounds :: bounds

datatype plan =
    Answer outcome "refusal_context option"
  | Load
  | AwaitLoad nat
  | AwaitTransient
  | EvictThenRetry "(model_key \<times> rat) list"
  | AssertionFailed
  | KeyFailed

definition blocking_name :: "coord \<Rightarrow> string" where
  "blocking_name c = (case c_exclusive c of
      None \<Rightarrow> ''a starting job''
    | Some (j, _) \<Rightarrow> if j = [] then ''a starting job'' else j)"

definition join_load :: "op_id \<Rightarrow> reservation \<Rightarrow> coord \<Rightarrow> nat \<times> coord" where
  "join_load op r c =
     (let w = c_heap_next c
      in (w, c\<lparr> c_heap := (c_heap c)(w \<mapsto> \<lparr> w_op = op, w_event = False, w_disp = None \<rparr>),
               c_heap_next := w + 1,
               c_reservations :=
                 dict_upd (rv_op r) (\<lambda>r. r\<lparr> rv_waiters := rv_waiters r @ [w] \<rparr>) (c_reservations c),
               c_live := AList.update op w (c_live c) \<rparr>))"

definition reserve :: "model_key \<Rightarrow> rat \<Rightarrow> op_id \<Rightarrow> coord \<Rightarrow> coord" where
  "reserve k est op c =
     (let n = c_recency_next c
      in c\<lparr> c_reservations :=
             AList.update op (new_reservation op k est (generation_of c k)) (c_reservations c),
           c_residents := AList.update k (new_resident k (c_wall c n) n) (c_residents c),
           c_recency_next := n + 1 \<rparr>)"

definition mark_draining :: "model_key list \<Rightarrow> coord \<Rightarrow> coord" where
  "mark_draining ks c = c\<lparr> c_residents :=
     map (\<lambda>(k, r). (k, if k \<in> set ks then r\<lparr> rm_state := DRAINING \<rparr> else r)) (c_residents c) \<rparr>"

text \<open>The fit test and, when it fails, the eviction plan or the refusal: the part of \<open>_stage1\<close> after
  the residency cases.  \<open>free1\<close>, \<open>free2\<close> and \<open>free3\<close> are the readings of live-free the section
  takes: for the physical bound, for victim selection and for the refusal's record.\<close>

definition decide_fit ::
  "coord_config \<Rightarrow> rat \<Rightarrow> model_key \<Rightarrow> rat \<Rightarrow> op_id \<Rightarrow> rat \<Rightarrow> rat \<Rightarrow> rat \<Rightarrow> coord \<Rightarrow> plan \<times> coord" where
  "decide_fit cfg dev k est op free1 free2 free3 c =
     (let capacity = usable_capacity cfg dev;
          headroom = safety_headroom_bytes cfg;
          fits_budget = (accounted c + est \<le> capacity);
          fits_live = (est \<le> (free1 - unmaterialized c) - headroom)
      in if fits_budget \<and> fits_live then
           (if map_of (c_intent c) op \<noteq> None then (AssertionFailed, c) else (Load, reserve k est op c))
         else
           (let victims = select_victims cfg dev k est free2 c
            in if victims = [] then
                 (if est > capacity - headroom then
                    (Answer (Refuse MODEL_TOO_LARGE None)
                       (Some \<lparr> rc_reason = CannotFitAlone, rc_blocking = None,
                               rc_bounds = bounds_snapshot cfg dev free3 c \<rparr>),
                     observe (ORefuse ''model_too_large'') c)
                  else
                    (Answer (busy cfg)
                       (Some \<lparr> rc_reason = (if \<not> fits_budget then BudgetBound else LiveVramBound),
                               rc_blocking = None,
                               rc_bounds = bounds_snapshot cfg dev free3 c \<rparr>),
                     observe (ORefuse (if \<not> fits_budget then ''budget_bound''
                                       else ''live_free_bound'')) c))
               else
                 (EvictThenRetry (map (\<lambda>v. (rm_key v, rm_accounted v)) victims),
                  observe OEvict
                    ((mark_draining (map rm_key victims) c)
                       \<lparr> c_intent := AList.update op (map rm_key victims) (c_intent c) \<rparr>))))"

definition stage1 ::
  "coord_config \<Rightarrow> rat \<Rightarrow> model_key \<Rightarrow> rat \<Rightarrow> op_id \<Rightarrow> rat \<Rightarrow> rat \<Rightarrow> rat \<Rightarrow> coord \<Rightarrow> plan \<times> coord" where
  "stage1 cfg dev k est op free1 free2 free3 c =
     (if c_exclusive c \<noteq> None \<or> c_barrier c then
        (Answer (busy cfg)
           (Some \<lparr> rc_reason = JobExclusive, rc_blocking = Some (blocking_name c),
                   rc_bounds = bounds_snapshot cfg dev free3 c \<rparr>),
         observe (ORefuse (if c_exclusive c \<noteq> None then ''exclusive_job'' else ''job_barrier'')) c)
      else case map_of (c_residents c) k of
        None \<Rightarrow> decide_fit cfg dev k est op free1 free2 free3 c
      | Some entry \<Rightarrow>
          (case rm_state entry of
             RESIDENT \<Rightarrow>
               (case grant_claim k op (observe OShare c) of
                  None \<Rightarrow> (KeyFailed, c)
                | Some (cl, c') \<Rightarrow> (Answer (Share cl) None, c'))
           | LOADING \<Rightarrow>
               (case reservation_for c k of
                  Some r \<Rightarrow> (let (w, c') = join_load op r c in (AwaitLoad w, c'))
                | None \<Rightarrow> (AwaitTransient, c))
           | _ \<Rightarrow> (AwaitTransient, c)))"

section \<open>Waiting\<close>

text \<open>The locked half of \<open>_await_load\<close>: take the assigned disposition, or deregister.  The result is
  the outcome to return, or \<open>None\<close> to re-enter stage 1.\<close>

definition drop_waiter :: "nat \<Rightarrow> coord \<Rightarrow> coord" where
  "drop_waiter w c = c\<lparr> c_reservations :=
     map (\<lambda>(o', r). (o', r\<lparr> rv_waiters := remove1 w (rv_waiters r) \<rparr>)) (c_reservations c) \<rparr>"

definition await_load :: "coord_config \<Rightarrow> nat \<Rightarrow> coord \<Rightarrow> outcome option \<times> coord" where
  "await_load cfg w c =
     (case waiter_disp c w of
        None \<Rightarrow>
          (let c1 = assign_disposition (DOutcome (busy cfg)) w (drop_waiter w c)
           in (Some (busy cfg), c1\<lparr> c_live := AList.delete (waiter_op c1 w) (c_live c1) \<rparr>))
      | Some d \<Rightarrow>
          (case waiter_outcome d of DOutcome oc \<Rightarrow> Some oc | RETRY \<Rightarrow> None,
           c\<lparr> c_live := AList.delete (waiter_op c w) (c_live c) \<rparr>))"

text \<open>One pass of the \<open>_await_transient\<close> loop: whether it returns.\<close>

definition await_transient_done :: "model_key \<Rightarrow> bool \<Rightarrow> coord \<Rightarrow> bool" where
  "await_transient_done k late c = (case map_of (c_residents c) k of
      None \<Rightarrow> True
    | Some entry \<Rightarrow> \<not> transient_state (rm_state entry) \<or> late)"

section \<open>Stage 3\<close>

text \<open>The reconciliation after a load, under the gate.\<close>

definition reconcile :: "op_id \<Rightarrow> rat \<Rightarrow> bool \<Rightarrow> coord \<Rightarrow> coord" where
  "reconcile op real_b deferred c =
     (if map_of (c_reservations c) op \<noteq> None \<and> \<not> deferred
      then c\<lparr> c_reservations :=
               dict_upd op (\<lambda>r. r\<lparr> rv_est := real_b, rv_mat := True \<rparr>) (c_reservations c) \<rparr>
      else c)"

datatype commit_result =
    Committed claim bounds "nat list"
  | RollBack disposition "nat list"
  | CommitKeyError

text \<open>Claims for every joiner, atomic with the commit.\<close>

fun grant_waiters :: "model_key \<Rightarrow> nat list \<Rightarrow> coord \<Rightarrow> coord option" where
  "grant_waiters k [] c = Some c"
| "grant_waiters k (w # ws) c = (case grant_claim k (waiter_op c w) c of
      None \<Rightarrow> None
    | Some (cl, c') \<Rightarrow> grant_waiters k ws (assign_disposition (DOutcome (Share cl)) w c'))"

definition commit_total :: "op_id \<Rightarrow> model_key \<Rightarrow> rat \<Rightarrow> coord \<Rightarrow> rat" where
  "commit_total op k real_b c =
     dsum rm_accounted (filter (\<lambda>(k', r). k' \<noteq> k) (c_residents c)) + real_b +
     dsum rv_est (filter (\<lambda>(o', r). rv_op r \<noteq> op) (c_reservations c))"

definition rollback_section ::
  "op_id \<Rightarrow> model_key \<Rightarrow> nat list \<Rightarrow> string \<Rightarrow> coord \<Rightarrow> coord" where
  "rollback_section op k ws why c =
     observe (ORollback why)
       ((set_resident k (\<lambda>r. r\<lparr> rm_state := ROLLING_BACK \<rparr>) c)
          \<lparr> c_reservations := AList.delete op (c_reservations c),
            c_pending := AList.update op ws (c_pending c) \<rparr>)"

definition commit ::
  "coord_config \<Rightarrow> rat \<Rightarrow> model_key \<Rightarrow> op_id \<Rightarrow> child \<Rightarrow> rat \<Rightarrow> bool \<Rightarrow> rat \<Rightarrow> coord
     \<Rightarrow> commit_result \<times> coord" where
  "commit cfg dev k op ch real_b deferred free3 c =
     (case map_of (c_reservations c) op of
        None \<Rightarrow> (RollBack (DOutcome (busy cfg)) [], c)
      | Some r \<Rightarrow>
         (let ws = rv_waiters r;
              barred = (c_barrier c \<or> c_exclusive c \<noteq> None);
              stale = (generation_of c k \<noteq> rv_gen r);
              drift = (commit_total op k real_b c > usable_capacity cfg dev)
          in if barred then
               (RollBack (DOutcome (busy cfg)) ws, rollback_section op k ws ''job_barrier'' c)
             else if stale then
               (RollBack RETRY ws, rollback_section op k ws ''stale'' c)
             else if drift then
               (RollBack (DOutcome
                  (if real_b > usable_capacity cfg dev - safety_headroom_bytes cfg
                   then Refuse MODEL_TOO_LARGE None else busy cfg)) ws,
                rollback_section op k ws ''drift'' c)
             else
               (case map_of (c_residents c) k of
                  None \<Rightarrow> (CommitKeyError, c)
                | Some _ \<Rightarrow>
                   (let c1 = touch k (set_resident k
                          (\<lambda>e. e\<lparr> rm_state := RESIDENT, rm_accounted := real_b,
                                  rm_child := Some ch \<rparr>) c);
                        c2 = set_resident k (\<lambda>e. e\<lparr> rm_mat := (\<not> deferred) \<rparr>) c1
                    in (case grant_claim k op c2 of
                          None \<Rightarrow> (CommitKeyError, c)
                        | Some (cl, c3) \<Rightarrow>
                            (case grant_waiters k ws c3 of
                               None \<Rightarrow> (CommitKeyError, c)
                             | Some c4 \<Rightarrow>
                                 (let c5 = observe OGrant
                                       (c4\<lparr> c_reservations :=
                                              AList.delete op (c_reservations c4) \<rparr>)
                                  in (Committed cl (bounds_snapshot cfg dev free3 c5) ws, c5))))))))"

text \<open>What the operation returns after its rollback: a stale load is a retryable refusal.\<close>

definition rollback_answer :: "coord_config \<Rightarrow> disposition \<Rightarrow> outcome" where
  "rollback_answer cfg d = (case d of DOutcome oc \<Rightarrow> oc | RETRY \<Rightarrow> busy cfg)"

text \<open>The first section of \<open>_load_failed\<close>: the joiners it takes into custody, and the new state.\<close>

definition load_failed :: "model_key \<Rightarrow> op_id \<Rightarrow> coord \<Rightarrow> nat list \<times> coord" where
  "load_failed k op c =
     (case map_of (c_reservations c) op of
        None \<Rightarrow> ([], c\<lparr> c_pending := AList.update op [] (c_pending c) \<rparr>)
      | Some r \<Rightarrow>
         (let c1 = c\<lparr> c_reservations := AList.delete op (c_reservations c),
                      c_pending := AList.update op (rv_waiters r) (c_pending c) \<rparr>
          in (rv_waiters r,
              if map_of (c_residents c1) k \<noteq> None \<and> generation_of c1 k = rv_gen r
              then bump_generation k
                     (c1\<lparr> c_residents := AList.delete k (c_residents c1) \<rparr>)
              else c1)))"

text \<open>The last section of \<open>_rollback\<close>, and equally of \<open>evict\<close>.\<close>

definition drop_resident :: "model_key \<Rightarrow> coord \<Rightarrow> coord" where
  "drop_resident k c =
     bump_generation k (c\<lparr> c_residents := AList.delete k (c_residents c) \<rparr>)"

section \<open>Eviction\<close>

text \<open>The first section of \<open>evict\<close>; \<open>None\<close> when the entry is already gone.\<close>

definition evict_begin :: "model_key \<Rightarrow> coord \<Rightarrow> coord option" where
  "evict_begin k c = (case map_of (c_residents c) k of
      None \<Rightarrow> None
    | Some e \<Rightarrow> Some (if rm_state e = RESIDENT
                      then set_resident k (\<lambda>e. e\<lparr> rm_state := DRAINING \<rparr>) c else c))"

datatype evict_step = EvGone | EvWaiting | EvFailed | EvUnload "child option"

text \<open>One pass of the drain loop of \<open>evict\<close>; \<open>late\<close> is \<open>remaining <= 0\<close>.\<close>

definition evict_check :: "model_key \<Rightarrow> bool \<Rightarrow> coord \<Rightarrow> evict_step \<times> coord" where
  "evict_check k late c = (case map_of (c_residents c) k of
      None \<Rightarrow> (EvGone, c)
    | Some e \<Rightarrow>
        if rm_active e = 0 then
          (EvUnload (rm_child e), set_resident k (\<lambda>e. e\<lparr> rm_state := EVICTING \<rparr>) c)
        else if late then
          (EvFailed, if c_barrier c \<or> c_exclusive c \<noteq> None then c
                     else set_resident k (\<lambda>e. e\<lparr> rm_state := RESIDENT \<rparr>) c)
        else (EvWaiting, c))"

definition forget :: "model_key \<Rightarrow> coord \<Rightarrow> bool \<times> coord" where
  "forget k c = (if map_of (c_residents c) k \<noteq> None then (True, drop_resident k c) else (False, c))"

definition clear_intent :: "op_id \<Rightarrow> coord \<Rightarrow> coord" where
  "clear_intent op c = c\<lparr> c_intent := AList.delete op (c_intent c) \<rparr>"

text \<open>The lock-protected half of \<open>CoordinatorAdmission.set_child\<close> (\<open>hostagent/coordadmission.py\<close>).
  \<open>measured\<close> is the probe's reading, \<open>None\<close> when it raised.\<close>

definition set_child :: "model_key \<Rightarrow> int \<Rightarrow> rat option \<Rightarrow> coord \<Rightarrow> coord" where
  "set_child k pid measured c = set_resident k
     (\<lambda>e. let e1 = e\<lparr> rm_child := Some (Child (Some pid)) \<rparr>
          in case measured of
               None \<Rightarrow> e1
             | Some m \<Rightarrow> if m \<noteq> 0 then e1\<lparr> rm_accounted := m, rm_mat := True \<rparr> else e1) c"

section \<open>Exclusive jobs\<close>

text \<open>The marking section of \<open>admit_job\<close>; \<open>None\<close> when another owner holds the GPU.\<close>

definition job_mark :: "coord \<Rightarrow> coord option" where
  "job_mark c =
     (if c_exclusive c \<noteq> None \<or> c_barrier c then None
      else Some (c\<lparr> c_barrier := True,
                    c_residents := map (\<lambda>(k, r). (k, if rm_state r = RESIDENT
                      then r\<lparr> rm_state := DRAINING \<rparr> else r)) (c_residents c) \<rparr>))"

text \<open>One reading of the serving set by \<open>_drain_serving_set\<close>: the pending and the in-flight keys.\<close>

definition drain_pending :: "coord \<Rightarrow> model_key list" where
  "drain_pending c = map rm_key
     (filter (\<lambda>r. rm_state r = DRAINING \<or> rm_state r = RESIDENT) (dvals (c_residents c)))"

definition drain_in_flight :: "coord \<Rightarrow> model_key list" where
  "drain_in_flight c = map rm_key
     (filter (\<lambda>r. rm_state r = EVICTING \<or> rm_state r = ROLLING_BACK \<or> rm_state r = LOADING)
        (dvals (c_residents c)))"

text \<open>The closing section of \<open>admit_job\<close>.  Its two assertions follow the test on the same two
  dictionaries in the same section.\<close>

definition job_finish :: "string \<Rightarrow> rat \<Rightarrow> bool \<Rightarrow> coord \<Rightarrow> bool \<times> coord" where
  "job_finish job now drained c =
     (if \<not> drained \<or> c_residents c \<noteq> [] \<or> c_reservations c \<noteq> [] then
        (False, c\<lparr> c_residents := map (\<lambda>(k, r). (k, if rm_state r = DRAINING
                     then r\<lparr> rm_state := RESIDENT \<rparr> else r)) (c_residents c),
                   c_barrier := False \<rparr>)
      else (True, c\<lparr> c_exclusive := Some (job, now), c_barrier := False \<rparr>))"

definition end_job :: "string option \<Rightarrow> coord \<Rightarrow> coord" where
  "end_job job c =
     (case job of
        None \<Rightarrow> c\<lparr> c_exclusive := None \<rparr>
      | Some j \<Rightarrow> if map_option fst (c_exclusive c) = Some j then c\<lparr> c_exclusive := None \<rparr> else c)"

section \<open>The code's own invariant check\<close>

datatype violation =
    Inv1
  | Inv3 op_id
  | Inv4 model_key
  | Inv5 op_id

definition registered_ops :: "coord \<Rightarrow> op_id list" where
  "registered_ops c =
     concat (map (\<lambda>r. map (waiter_op c) (rv_waiters r)) (dvals (c_reservations c)))"

definition in_custody_ops :: "coord \<Rightarrow> op_id list" where
  "in_custody_ops c = concat (map (map (waiter_op c)) (dvals (c_pending c)))"

definition live_claims :: "coord \<Rightarrow> model_key \<Rightarrow> nat" where
  "live_claims c k = (case map_of (c_claims c) k of None \<Rightarrow> 0 | Some S \<Rightarrow> card S)"

text \<open>\<open>check_invariants\<close>.  A reference count is a natural number here (\<open>max(0, \<dots>)\<close> guards the only
  decrement), so the test for a negative one has no counterpart.\<close>

definition violations :: "coord_config \<Rightarrow> rat \<Rightarrow> coord \<Rightarrow> violation list" where
  "violations cfg dev c =
     (if accounted c > usable_capacity cfg dev + 1 / 10 ^ 6 then [Inv1] else []) @
     map Inv3 (filter (\<lambda>op. op \<in> set (dkeys (c_reservations c))) (dkeys (c_intent c))) @
     map (\<lambda>(k, e). Inv4 k) (filter (\<lambda>(k, e). rm_active e \<noteq> live_claims c k) (c_residents c)) @
     map (\<lambda>(op, w). Inv5 op)
       (filter (\<lambda>(op, w). waiter_disp c w = None \<and> op \<notin> set (registered_ops c) \<and>
                         op \<notin> set (in_custody_ops c)) (c_live c))"

end
