(* ===== verification/Ledger.thy ===== *)
theory Ledger
  imports Coordinator
begin

text \<open>
  The coordinator's accounting contract, abstracted from threads, claims and states: a ledger of
  committed bytes per resident key, reservations per operation, and a generation per key.  Its
  steps say what a critical section may do to the books, and its invariant says what the books
  promise: every reservation of a key's current generation has its resident entry, at most one
  operation holds the current generation of a key, and the committed bytes stay within capacity.
  Theory \<open>CoordInvariants\<close> shows that every critical section of the code is a sequence of these steps.
\<close>

section \<open>The ledger and its steps\<close>

record booking =
  bk_key :: model_key
  bk_est :: rat
  bk_gen :: nat
  bk_mat :: bool

record ledger =
  l_acct :: "(model_key, rat) dict"
  l_books :: "(op_id, booking) dict"
  l_gen :: "model_key \<Rightarrow> nat"

definition unmat_booking :: "booking \<Rightarrow> rat" where
  "unmat_booking b = (if bk_mat b then 0 else bk_est b)"

definition l_total :: "ledger \<Rightarrow> rat" where
  "l_total L = dsum id (l_acct L) + dsum bk_est (l_books L)"

definition l_committed :: "ledger \<Rightarrow> rat" where
  "l_committed L = dsum id (l_acct L) + dsum unmat_booking (l_books L)"

definition lg_reserve :: "op_id \<Rightarrow> model_key \<Rightarrow> rat \<Rightarrow> ledger \<Rightarrow> ledger" where
  "lg_reserve op k est L = L\<lparr> l_acct := AList.update k 0 (l_acct L),
     l_books := AList.update op \<lparr> bk_key = k, bk_est = est, bk_gen = l_gen L k, bk_mat = False \<rparr>
                  (l_books L) \<rparr>"

definition lg_reconcile :: "op_id \<Rightarrow> rat \<Rightarrow> ledger \<Rightarrow> ledger" where
  "lg_reconcile op m L =
     L\<lparr> l_books := dict_upd op (\<lambda>b. b\<lparr> bk_est := m, bk_mat := True \<rparr>) (l_books L) \<rparr>"

definition lg_post :: "model_key \<Rightarrow> rat \<Rightarrow> ledger \<Rightarrow> ledger" where
  "lg_post k m L = L\<lparr> l_acct := dict_upd k (\<lambda>_. m) (l_acct L) \<rparr>"

definition lg_unbook :: "op_id \<Rightarrow> ledger \<Rightarrow> ledger" where
  "lg_unbook op L = L\<lparr> l_books := AList.delete op (l_books L) \<rparr>"

definition lg_drop :: "model_key \<Rightarrow> ledger \<Rightarrow> ledger" where
  "lg_drop k L = L\<lparr> l_acct := AList.delete k (l_acct L), l_gen := (l_gen L)(k := l_gen L k + 1) \<rparr>"

inductive ledger_step :: "rat \<Rightarrow> bool \<Rightarrow> ledger \<Rightarrow> ledger \<Rightarrow> bool" for cap strict where
  ls_skip: "ledger_step cap strict L L"
| ls_reserve: "k \<notin> set (dkeys (l_acct L)) \<Longrightarrow> op \<notin> set (dkeys (l_books L)) \<Longrightarrow> 0 \<le> est \<Longrightarrow>
    l_total L + est \<le> cap \<Longrightarrow> ledger_step cap strict L (lg_reserve op k est L)"
| ls_reconcile: "0 \<le> m \<Longrightarrow> ledger_step cap strict L (lg_reconcile op m L)"
| ls_commit: "0 \<le> m \<Longrightarrow> k \<in> set (dkeys (l_acct L)) \<Longrightarrow>
    dsum id (l_acct (lg_post k m L)) + dsum bk_est (l_books (lg_unbook op L)) \<le> cap \<Longrightarrow>
    ledger_step cap strict L (lg_unbook op (lg_post k m L))"
| ls_unbook: "ledger_step cap strict L (lg_unbook op L)"
| ls_unbook_drop: "ledger_step cap strict L (lg_drop k (lg_unbook op L))"
| ls_drop: "ledger_step cap strict L (lg_drop k L)"
| ls_remeasure: "0 \<le> m \<Longrightarrow> (strict \<Longrightarrow> \<forall>a. map_of (l_acct L) k = Some a \<longrightarrow> m \<le> a) \<Longrightarrow>
    ledger_step cap strict L (lg_post k m L)"

inductive_cases ledger_stepE: "ledger_step cap strict L L'"

section \<open>The ledger's invariant\<close>

definition ledger_wf :: "ledger \<Rightarrow> bool" where
  "ledger_wf L =
     (distinct (dkeys (l_acct L)) \<and> distinct (dkeys (l_books L)) \<and>
      (\<forall>k a. map_of (l_acct L) k = Some a \<longrightarrow> 0 \<le> a) \<and>
      (\<forall>op b. map_of (l_books L) op = Some b \<longrightarrow> 0 \<le> bk_est b \<and> bk_gen b \<le> l_gen L (bk_key b) \<and>
         (bk_gen b = l_gen L (bk_key b) \<longrightarrow> bk_key b \<in> set (dkeys (l_acct L)))) \<and>
      (\<forall>op1 op2 b1 b2. map_of (l_books L) op1 = Some b1 \<and> map_of (l_books L) op2 = Some b2 \<and>
         bk_key b1 = bk_key b2 \<and> bk_gen b1 = bk_gen b2 \<longrightarrow> op1 = op2))"

lemma ledger_wfI:
  assumes "distinct (dkeys (l_acct L))" "distinct (dkeys (l_books L))"
    and "\<And>k a. map_of (l_acct L) k = Some a \<Longrightarrow> 0 \<le> a"
    and "\<And>op b. map_of (l_books L) op = Some b \<Longrightarrow> 0 \<le> bk_est b \<and> bk_gen b \<le> l_gen L (bk_key b) \<and>
         (bk_gen b = l_gen L (bk_key b) \<longrightarrow> bk_key b \<in> set (dkeys (l_acct L)))"
    and "\<And>op1 op2 b1 b2. map_of (l_books L) op1 = Some b1 \<Longrightarrow> map_of (l_books L) op2 = Some b2 \<Longrightarrow>
         bk_key b1 = bk_key b2 \<Longrightarrow> bk_gen b1 = bk_gen b2 \<Longrightarrow> op1 = op2"
  shows "ledger_wf L"
  using assms unfolding ledger_wf_def by blast

lemma ledger_wfD:
  assumes "ledger_wf L"
  shows wf_acct_distinct: "distinct (dkeys (l_acct L))"
    and wf_books_distinct: "distinct (dkeys (l_books L))"
    and wf_acct_nonneg: "\<And>k a. map_of (l_acct L) k = Some a \<Longrightarrow> 0 \<le> a"
    and wf_est_nonneg: "\<And>op b. map_of (l_books L) op = Some b \<Longrightarrow> 0 \<le> bk_est b"
    and wf_gen_le: "\<And>op b. map_of (l_books L) op = Some b \<Longrightarrow> bk_gen b \<le> l_gen L (bk_key b)"
    and wf_gen_current: "\<And>op b. map_of (l_books L) op = Some b \<Longrightarrow>
         bk_gen b = l_gen L (bk_key b) \<Longrightarrow> bk_key b \<in> set (dkeys (l_acct L))"
    and wf_single_flight: "\<And>op1 op2 b1 b2. map_of (l_books L) op1 = Some b1 \<Longrightarrow>
         map_of (l_books L) op2 = Some b2 \<Longrightarrow> bk_key b1 = bk_key b2 \<Longrightarrow>
         bk_gen b1 = bk_gen b2 \<Longrightarrow> op1 = op2"
  using assms unfolding ledger_wf_def by (blast, blast, blast, blast, blast, blast, blast)

lemma wf_sums:
  assumes "ledger_wf L"
  shows "0 \<le> dsum id (l_acct L)" and "0 \<le> dsum bk_est (l_books L)"
    and "0 \<le> dsum unmat_booking (l_books L)"
    and "dsum unmat_booking (l_books L) \<le> dsum bk_est (l_books L)"
proof -
  note d = wf_acct_distinct[OF assms] wf_books_distinct[OF assms]
    and n = wf_acct_nonneg[OF assms] wf_est_nonneg[OF assms]
  show "0 \<le> dsum id (l_acct L)" by (rule dsum_nonneg_lookup[OF d(1)]) (simp add: n)
  show "0 \<le> dsum bk_est (l_books L)" by (rule dsum_nonneg_lookup[OF d(2)]) (simp add: n)
  show "0 \<le> dsum unmat_booking (l_books L)"
    by (rule dsum_nonneg_lookup[OF d(2)]) (simp add: n unmat_booking_def)
  show "dsum unmat_booking (l_books L) \<le> dsum bk_est (l_books L)"
    by (rule dsum_mono_lookup[OF d(2)]) (simp add: n unmat_booking_def)
qed

lemma committed_le_total: "ledger_wf L \<Longrightarrow> l_committed L \<le> l_total L"
  using wf_sums(4) by (simp add: l_committed_def l_total_def)

section \<open>Each step keeps the books well-formed\<close>

lemma wf_reserve:
  assumes wf: "ledger_wf L" and k: "k \<notin> set (dkeys (l_acct L))"
    and op: "op \<notin> set (dkeys (l_books L))" and est: "0 \<le> est"
  shows "ledger_wf (lg_reserve op k est L)"
proof (rule ledger_wfI)
  let ?L = "lg_reserve op k est L"
  note d = ledger_wfD[OF wf]
  have fresh: False if "map_of (l_books L) o' = Some b" "bk_key b = k" "bk_gen b = l_gen L k" for o' b
    using d(6)[OF that(1)] that k by simp
  show "distinct (dkeys (l_acct ?L))" "distinct (dkeys (l_books ?L))"
    using d(1,2) by (simp_all add: lg_reserve_def)
  show "0 \<le> a" if "map_of (l_acct ?L) k' = Some a" for k' a
    using that d(3) by (auto simp: lg_reserve_def dict_simps split: if_splits)
  show "0 \<le> bk_est b \<and> bk_gen b \<le> l_gen ?L (bk_key b) \<and>
      (bk_gen b = l_gen ?L (bk_key b) \<longrightarrow> bk_key b \<in> set (dkeys (l_acct ?L)))"
    if "map_of (l_books ?L) o' = Some b" for o' b
  proof (cases "o' = op")
    case True
    then show ?thesis
      using that est by (auto simp: lg_reserve_def map_of_update_dict dkeys_update_set)
  next
    case False
    then have old: "map_of (l_books L) o' = Some b"
      using that by (simp add: lg_reserve_def map_of_update_dict)
    show ?thesis
      using d(4)[OF old] d(5)[OF old] d(6)[OF old] by (simp add: lg_reserve_def dkeys_update_set)
  qed
  show "o1 = o2" if b1: "map_of (l_books ?L) o1 = Some b1" and b2: "map_of (l_books ?L) o2 = Some b2"
    and kk: "bk_key b1 = bk_key b2" and gg: "bk_gen b1 = bk_gen b2" for o1 o2 b1 b2
  proof -
    have split: "b = \<lparr> bk_key = k, bk_est = est, bk_gen = l_gen L k, bk_mat = False \<rparr> \<and> o' = op \<or>
        o' \<noteq> op \<and> map_of (l_books L) o' = Some b" if "map_of (l_books ?L) o' = Some b" for o' b
      using that by (cases "o' = op") (simp_all add: lg_reserve_def map_of_update_dict)
    show ?thesis
      using split[OF b1] split[OF b2]
    proof (elim disjE conjE)
      assume "b1 = \<lparr> bk_key = k, bk_est = est, bk_gen = l_gen L k, bk_mat = False \<rparr>"
        and old: "map_of (l_books L) o2 = Some b2"
      then have "bk_key b2 = k" "bk_gen b2 = l_gen L k" using kk gg by simp_all
      then show ?thesis using fresh[OF old] by blast
    next
      assume "b2 = \<lparr> bk_key = k, bk_est = est, bk_gen = l_gen L k, bk_mat = False \<rparr>"
        and old: "map_of (l_books L) o1 = Some b1"
      then have "bk_key b1 = k" "bk_gen b1 = l_gen L k" using kk gg by simp_all
      then show ?thesis using fresh[OF old] by blast
    next
      assume "map_of (l_books L) o1 = Some b1" "map_of (l_books L) o2 = Some b2"
      then show ?thesis using d(7) kk gg by blast
    qed simp
  qed
qed

lemma wf_reconcile: "ledger_wf L \<Longrightarrow> 0 \<le> m \<Longrightarrow> ledger_wf (lg_reconcile op m L)"
proof (rule ledger_wfI)
  let ?L = "lg_reconcile op m L"
  assume wf: "ledger_wf L" and m: "0 \<le> m"
  note d = ledger_wfD[OF wf]
  have old: "\<exists>b0. map_of (l_books L) o' = Some b0 \<and> bk_key b = bk_key b0 \<and> bk_gen b = bk_gen b0 \<and>
      (bk_est b = bk_est b0 \<or> bk_est b = m)" if "map_of (l_books ?L) o' = Some b" for o' b
    using that by (cases "map_of (l_books L) o'")
      (auto simp: lg_reconcile_def dict_simps split: if_splits)
  show "distinct (dkeys (l_acct ?L))" "distinct (dkeys (l_books ?L))"
    using d(1,2) by (simp_all add: lg_reconcile_def)
  show "0 \<le> a" if "map_of (l_acct ?L) k' = Some a" for k' a
    using that d(3) by (simp add: lg_reconcile_def)
  show "0 \<le> bk_est b \<and> bk_gen b \<le> l_gen ?L (bk_key b) \<and>
      (bk_gen b = l_gen ?L (bk_key b) \<longrightarrow> bk_key b \<in> set (dkeys (l_acct ?L)))"
    if "map_of (l_books ?L) o' = Some b" for o' b
    using old[OF that] d(4,5,6) m by (force simp: lg_reconcile_def)
  show "o1 = o2" if "map_of (l_books ?L) o1 = Some b1" "map_of (l_books ?L) o2 = Some b2"
    "bk_key b1 = bk_key b2" "bk_gen b1 = bk_gen b2" for o1 o2 b1 b2
    using old[OF that(1)] old[OF that(2)] that(3,4) d(7) by metis
qed

lemma wf_post: "ledger_wf L \<Longrightarrow> 0 \<le> m \<Longrightarrow> ledger_wf (lg_post k m L)"
proof (rule ledger_wfI)
  let ?L = "lg_post k m L"
  assume wf: "ledger_wf L" and m: "0 \<le> m"
  note d = ledger_wfD[OF wf]
  show "distinct (dkeys (l_acct ?L))" "distinct (dkeys (l_books ?L))"
    using d(1,2) by (simp_all add: lg_post_def)
  show "0 \<le> a" if "map_of (l_acct ?L) k' = Some a" for k' a
    using that d(3)[of k'] m by (auto simp: lg_post_def dict_simps split: if_splits)
  show "0 \<le> bk_est b \<and> bk_gen b \<le> l_gen ?L (bk_key b) \<and>
      (bk_gen b = l_gen ?L (bk_key b) \<longrightarrow> bk_key b \<in> set (dkeys (l_acct ?L)))"
    if "map_of (l_books ?L) o' = Some b" for o' b
    using that d(4,5,6) by (simp add: lg_post_def)
  show "o1 = o2" if "map_of (l_books ?L) o1 = Some b1" "map_of (l_books ?L) o2 = Some b2"
    "bk_key b1 = bk_key b2" "bk_gen b1 = bk_gen b2" for o1 o2 b1 b2
    using that d(7)[of o1 b1 o2 b2] by (simp add: lg_post_def)
qed

lemma wf_unbook: "ledger_wf L \<Longrightarrow> ledger_wf (lg_unbook op L)"
proof (rule ledger_wfI)
  let ?L = "lg_unbook op L"
  assume wf: "ledger_wf L"
  note d = ledger_wfD[OF wf]
  have old: "map_of (l_books L) o' = Some b" if "map_of (l_books ?L) o' = Some b" for o' b
    using that by (simp add: lg_unbook_def dict_simps split: if_splits)
  show "distinct (dkeys (l_acct ?L))" "distinct (dkeys (l_books ?L))"
    using d(1,2) by (simp_all add: lg_unbook_def)
  show "0 \<le> a" if "map_of (l_acct ?L) k' = Some a" for k' a
    using that d(3)[of k'] by (simp add: lg_unbook_def)
  show "0 \<le> bk_est b \<and> bk_gen b \<le> l_gen ?L (bk_key b) \<and>
      (bk_gen b = l_gen ?L (bk_key b) \<longrightarrow> bk_key b \<in> set (dkeys (l_acct ?L)))"
    if "map_of (l_books ?L) o' = Some b" for o' b
    using old[OF that] d(4,5,6) by (simp add: lg_unbook_def)
  show "o1 = o2" if "map_of (l_books ?L) o1 = Some b1" "map_of (l_books ?L) o2 = Some b2"
    "bk_key b1 = bk_key b2" "bk_gen b1 = bk_gen b2" for o1 o2 b1 b2
    using old[OF that(1)] old[OF that(2)] d(7) that(3,4) by blast
qed

lemma wf_drop: "ledger_wf L \<Longrightarrow> ledger_wf (lg_drop k L)"
proof (rule ledger_wfI)
  let ?L = "lg_drop k L"
  assume wf: "ledger_wf L"
  note d = ledger_wfD[OF wf]
  show "distinct (dkeys (l_acct ?L))" "distinct (dkeys (l_books ?L))"
    using d(1,2) by (simp_all add: lg_drop_def)
  show "0 \<le> a" if "map_of (l_acct ?L) k' = Some a" for k' a
    using that d(3)[of k'] by (simp add: lg_drop_def dict_simps split: if_splits)
  show "0 \<le> bk_est b \<and> bk_gen b \<le> l_gen ?L (bk_key b) \<and>
      (bk_gen b = l_gen ?L (bk_key b) \<longrightarrow> bk_key b \<in> set (dkeys (l_acct ?L)))"
    if "map_of (l_books ?L) o' = Some b" for o' b
    using that d(4)[of o' b] d(5)[of o' b] d(6)[of o' b]
    by (auto simp: lg_drop_def dkeys_delete_set)
  show "o1 = o2" if "map_of (l_books ?L) o1 = Some b1" "map_of (l_books ?L) o2 = Some b2"
    "bk_key b1 = bk_key b2" "bk_gen b1 = bk_gen b2" for o1 o2 b1 b2
    using that d(7)[of o1 b1 o2 b2] by (simp add: lg_drop_def)
qed

lemmas wf_steps = wf_reserve wf_reconcile wf_post wf_unbook wf_drop

lemma ledger_step_wf: "ledger_step cap strict L L' \<Longrightarrow> ledger_wf L \<Longrightarrow> ledger_wf L'"
  by (induction rule: ledger_step.induct) (auto intro: wf_steps)

section \<open>Each step keeps the committed bytes within capacity\<close>

lemma committed_unbook: "ledger_wf L \<Longrightarrow> l_committed (lg_unbook op L) \<le> l_committed L"
  using wf_est_nonneg[of L op] wf_books_distinct[of L]
  by (auto simp: l_committed_def lg_unbook_def dsum_delete unmat_booking_def split: option.splits)

lemma committed_drop: "ledger_wf L \<Longrightarrow> l_committed (lg_drop k L) \<le> l_committed L"
  using wf_acct_nonneg[of L k] wf_acct_distinct[of L]
  by (auto simp: l_committed_def lg_drop_def dsum_delete split: option.splits)

lemma committed_reconcile: "ledger_wf L \<Longrightarrow> l_committed (lg_reconcile op m L) \<le> l_committed L"
  using wf_est_nonneg[of L op] wf_books_distinct[of L]
  by (auto simp: l_committed_def lg_reconcile_def dsum_dict_upd unmat_booking_def split: option.splits)

lemma committed_reserve:
  assumes wf: "ledger_wf L" and "k \<notin> set (dkeys (l_acct L))" "op \<notin> set (dkeys (l_books L))"
    and est: "0 \<le> est" and fit: "l_total L + est \<le> cap"
  shows "l_committed (lg_reserve op k est L) \<le> cap"
proof -
  have "map_of (l_acct L) k = None" "map_of (l_books L) op = None"
    using assms(2,3) by (simp_all add: map_of_eq_None_iff)
  then have "l_committed (lg_reserve op k est L) = l_committed L + est"
    using wf_acct_distinct[OF wf] wf_books_distinct[OF wf]
    by (simp add: l_committed_def lg_reserve_def dsum_update unmat_booking_def)
  then show ?thesis using committed_le_total[OF wf] fit by simp
qed

lemma committed_commit:
  assumes wf: "ledger_wf L" and m: "0 \<le> m"
    and fit: "dsum id (l_acct (lg_post k m L)) + dsum bk_est (l_books (lg_unbook op L)) \<le> cap"
  shows "l_committed (lg_unbook op (lg_post k m L)) \<le> cap"
proof -
  have "l_committed (lg_unbook op (lg_post k m L)) \<le> l_total (lg_unbook op (lg_post k m L))"
    using wf m by (intro committed_le_total wf_unbook wf_post)
  also have "\<dots> = dsum id (l_acct (lg_post k m L)) + dsum bk_est (l_books (lg_unbook op L))"
    by (simp add: l_total_def lg_unbook_def lg_post_def)
  finally show ?thesis using fit by simp
qed

lemma committed_remeasure:
  "ledger_wf L \<Longrightarrow> \<forall>a. map_of (l_acct L) k = Some a \<longrightarrow> m \<le> a \<Longrightarrow>
   l_committed (lg_post k m L) \<le> l_committed L"
  using wf_acct_distinct[of L]
  by (auto simp: l_committed_def lg_post_def dsum_dict_upd split: option.splits)

lemma ledger_step_capacity:
  assumes "ledger_step cap True L L'" "ledger_wf L" "l_committed L \<le> cap"
  shows "l_committed L' \<le> cap"
  using assms
proof (cases rule: ledger_step.cases)
  case (ls_unbook_drop k op)
  then show ?thesis
    using committed_drop[OF wf_unbook[OF assms(2)], of k op] committed_unbook[OF assms(2), of op]
      assms(3) by simp
next
  case (ls_reserve k op est)
  then show ?thesis using committed_reserve[OF assms(2)] by blast
next
  case (ls_commit m k op)
  then show ?thesis using committed_commit[OF assms(2)] by blast
next
  case (ls_unbook op)
  then show ?thesis using committed_unbook[OF assms(2), of op] assms(3) by simp
next
  case (ls_drop k)
  then show ?thesis using committed_drop[OF assms(2), of k] assms(3) by simp
next
  case (ls_reconcile m op)
  then show ?thesis using committed_reconcile[OF assms(2), of op m] assms(3) by simp
next
  case (ls_remeasure m k)
  then show ?thesis using committed_remeasure[OF assms(2), of k m] assms(3) by simp
qed simp

end
