(* ===== verification/CoordLedger.thy ===== *)
theory CoordLedger
  imports Ledger
begin

text \<open>
  The critical sections of the coordinator refine the accounting ledger: \<open>ledger_of\<close> reads the books
  off a coordinator state, and each section changes them by one ledger step.  The relation
  \<open>section_step\<close> collects the sections with what their callers guarantee (a non-negative estimate, no
  second reservation of one operation, a claim released by its holder).
\<close>

section \<open>Abstraction\<close>

definition book_of :: "reservation \<Rightarrow> booking" where
  "book_of r = \<lparr> bk_key = rv_key r, bk_est = rv_est r, bk_gen = rv_gen r, bk_mat = rv_mat r \<rparr>"

definition ledger_of :: "coord \<Rightarrow> ledger" where
  "ledger_of c = \<lparr> l_acct = dict_map rm_accounted (c_residents c),
     l_books = dict_map book_of (c_reservations c), l_gen = generation_of c \<rparr>"

lemma ledger_of_sel [simp]:
  "l_acct (ledger_of c) = dict_map rm_accounted (c_residents c)"
  "l_books (ledger_of c) = dict_map book_of (c_reservations c)"
  "l_gen (ledger_of c) = generation_of c"
  by (simp_all add: ledger_of_def)

lemma ledger_eqI:
  "l_acct L = l_acct L' \<Longrightarrow> l_books L = l_books L' \<Longrightarrow> l_gen L = l_gen L' \<Longrightarrow> L = (L' :: ledger)"
  by (cases L; cases L') simp

lemma l_total_ledger_of: "l_total (ledger_of c) = accounted c"
  by (simp add: l_total_def accounted_def book_of_def)

lemma unmat_booking_book_of [simp]: "unmat_booking (book_of r) = unmat_res r"
  by (simp add: unmat_booking_def unmat_res_def book_of_def)

definition committed :: "coord \<Rightarrow> rat" where
  "committed c = dsum rm_accounted (c_residents c) + dsum unmat_res (c_reservations c)"

lemma l_committed_ledger_of: "l_committed (ledger_of c) = committed c"
  by (simp add: l_committed_def committed_def)

section \<open>Sections that leave the books alone\<close>

lemma ledger_of_cong:
  "dict_map rm_accounted (c_residents c') = dict_map rm_accounted (c_residents c) \<Longrightarrow>
   dict_map book_of (c_reservations c') = dict_map book_of (c_reservations c) \<Longrightarrow>
   c_generation c' = c_generation c \<Longrightarrow> ledger_of c' = ledger_of c"
  by (rule ledger_eqI) (simp_all add: generation_of_def fun_eq_iff)

lemma ledger_of_observe [simp]: "ledger_of (observe ob c) = ledger_of c"
  by (rule ledger_of_cong) (simp_all add: observe_def)

lemma ledger_of_set_resident:
  "(\<And>r. rm_accounted (f r) = rm_accounted r) \<Longrightarrow> ledger_of (set_resident k f c) = ledger_of c"
  by (rule ledger_of_cong) (simp_all add: set_resident_def dict_map_upd_same)

lemma ledger_of_touch [simp]: "ledger_of (touch k c) = ledger_of c"
  by (rule ledger_of_cong) (simp_all add: touch_def set_resident_def dict_map_upd_same)

lemma ledger_of_grant: "grant_claim k op c = Some (cl, c') \<Longrightarrow> ledger_of c' = ledger_of c"
  by (rule ledger_of_cong)
    (auto simp: grant_claim_def touch_def set_resident_def dict_map_upd_same Let_def split: option.splits)

lemma ledger_of_release [simp]: "ledger_of (release_claim cl c) = ledger_of c"
  by (rule ledger_of_cong)
    (auto simp: release_claim_def touch_def set_resident_def dict_map_upd_same Let_def split: option.splits)

lemma ledger_of_set_waiter [simp]: "ledger_of (set_waiter w f c) = ledger_of c"
  by (rule ledger_of_cong) (simp_all add: set_waiter_def)

lemma ledger_of_assign [simp]: "ledger_of (assign_disposition d w c) = ledger_of c"
  by (rule ledger_of_cong) (simp_all add: assign_disposition_def set_waiter_def)

lemma ledger_of_dispose_one [simp]: "ledger_of (dispose_one d c w) = ledger_of c"
  by (rule ledger_of_cong) (simp_all add: dispose_one_def assign_disposition_def set_waiter_def Let_def)

lemma ledger_of_foldl: "(\<And>c w. ledger_of (f c w) = ledger_of c) \<Longrightarrow> ledger_of (foldl f c ws) = ledger_of c"
  by (induction ws arbitrary: c) simp_all

lemma ledger_of_dispose [simp]: "ledger_of (dispose ws d op c) = ledger_of c"
proof -
  have "ledger_of (c1\<lparr> c_pending := p \<rparr>) = ledger_of c1" for c1 p
    by (rule ledger_of_cong) simp_all
  then show ?thesis by (simp add: dispose_def Let_def ledger_of_foldl)
qed

lemma ledger_of_mark_draining [simp]: "ledger_of (mark_draining ks c) = ledger_of c"
  by (rule ledger_of_cong) (simp_all add: mark_draining_def dict_map_map_same)

lemma ledger_of_join_load: "join_load op r c = (w, c') \<Longrightarrow> ledger_of c' = ledger_of c"
  by (rule ledger_of_cong) (auto simp: join_load_def Let_def dict_map_upd_same book_of_def)

lemma ledger_of_await_load: "await_load cfg w c = (oc, c') \<Longrightarrow> ledger_of c' = ledger_of c"
  by (rule ledger_of_cong)
    (auto simp: await_load_def Let_def drop_waiter_def assign_disposition_def set_waiter_def book_of_def
      split: option.splits intro!: dict_map_map_same)

lemma ledger_of_grant_waiters: "grant_waiters k ws c = Some c' \<Longrightarrow> ledger_of c' = ledger_of c"
  by (induction k ws c rule: grant_waiters.induct) (auto split: option.splits dest: ledger_of_grant)

section \<open>Sections that are one ledger step\<close>

lemma ledger_of_reserve:
  "ledger_of (reserve k est op c) = lg_reserve op k est (ledger_of c)"
  by (rule ledger_eqI)
    (simp_all add: reserve_def lg_reserve_def Let_def new_resident_def new_reservation_def book_of_def
      generation_of_def fun_eq_iff)

lemma ledger_of_reconcile:
  "map_of (c_reservations c) op \<noteq> None \<Longrightarrow> \<not> deferred \<Longrightarrow>
   ledger_of (reconcile op m deferred c) = lg_reconcile op m (ledger_of c)"
  by (rule ledger_eqI)
    (auto simp: reconcile_def lg_reconcile_def book_of_def generation_of_def fun_eq_iff intro!: dict_map_upd)

lemma ledger_of_drop_resident: "ledger_of (drop_resident k c) = lg_drop k (ledger_of c)"
  by (rule ledger_eqI)
    (auto simp: drop_resident_def lg_drop_def bump_generation_def generation_of_def fun_eq_iff dict_simps)

lemma ledger_of_unbook:
  "dict_map rm_accounted (c_residents c') = dict_map rm_accounted (c_residents c) \<Longrightarrow>
   c_reservations c' = AList.delete op (c_reservations c) \<Longrightarrow>
   c_generation c' = c_generation c \<Longrightarrow> ledger_of c' = lg_unbook op (ledger_of c)"
  by (rule ledger_eqI) (simp_all add: lg_unbook_def generation_of_def fun_eq_iff)

lemma ledger_of_rollback_section:
  "ledger_of (rollback_section op k ws why c) = lg_unbook op (ledger_of c)"
  by (rule ledger_of_unbook)
    (simp_all add: rollback_section_def observe_def set_resident_def dict_map_upd_same)

lemma ledger_of_post:
  "(\<And>r. rm_accounted (f r) = m) \<Longrightarrow> ledger_of (set_resident k f c) = lg_post k m (ledger_of c)"
  by (rule ledger_eqI) (simp_all add: set_resident_def lg_post_def generation_of_def fun_eq_iff dict_map_upd)

lemma commit_total_ledger:
  assumes "\<And>o' r. (o', r) \<in> set (c_reservations c) \<Longrightarrow> rv_op r = o'" "distinct (dkeys (c_residents c))"
    and "map_of (c_residents c) k = Some e"
  shows "commit_total op k m c =
    dsum id (l_acct (lg_post k m (ledger_of c))) + dsum bk_est (l_books (lg_unbook op (ledger_of c)))"
proof -
  have "filter (\<lambda>(o', r). rv_op r \<noteq> op) (c_reservations c) = AList.delete op (c_reservations c)"
    using assms(1) by (subst filter_neq_delete[symmetric]) (auto intro: filter_cong)
  moreover have "dsum id (dict_upd k (\<lambda>_. m) (dict_map rm_accounted (c_residents c))) =
      dsum rm_accounted (AList.delete k (c_residents c)) + m"
    using assms(2,3) by (simp add: dsum_dict_upd dsum_delete)
  moreover have "dsum bk_est (AList.delete op (dict_map book_of (c_reservations c))) =
      dsum rv_est (AList.delete op (c_reservations c))"
    by (simp flip: dict_map_delete add: book_of_def)
  ultimately show ?thesis
    by (simp add: commit_total_def filter_neq_delete lg_post_def lg_unbook_def)
qed

end
