(* ===== verification/CoordInvariants.thy ===== *)
theory CoordInvariants
  imports CoordLedger
begin

text \<open>
  The relation \<open>section_step\<close>: one critical section of the coordinator, with what its caller
  guarantees as premises, and the invariants every section keeps.  \<open>strict\<close> selects the runs in which
  \<open>set_child\<close> never raises a resident above the bytes admitted for it; the capacity bound needs it.
\<close>

inductive section_step :: "coord_config \<Rightarrow> rat \<Rightarrow> bool \<Rightarrow> coord \<Rightarrow> coord \<Rightarrow> bool" for cfg dev strict where
  sec_skip: "section_step cfg dev strict c c"
| sec_observe: "section_step cfg dev strict c (c\<lparr> c_observed := obs, c_decisions := ds \<rparr>)"
| sec_stage1: "stage1 cfg dev k est op f1 f2 f3 c = (p, c') \<Longrightarrow> 0 \<le> est \<Longrightarrow>
    map_of (c_reservations c) op = None \<Longrightarrow> section_step cfg dev strict c c'"
| sec_await: "await_load cfg w c = (r, c') \<Longrightarrow> section_step cfg dev strict c c'"
| sec_reconcile: "0 \<le> m \<Longrightarrow> section_step cfg dev strict c (reconcile op m deferred c)"
| sec_commit: "commit cfg dev k op ch m deferred f3 c = (r, c') \<Longrightarrow> 0 \<le> m \<Longrightarrow>
    section_step cfg dev strict c c'"
| sec_load_failed: "load_failed k op c = (ws, c') \<Longrightarrow> section_step cfg dev strict c c'"
| sec_drop: "section_step cfg dev strict c (drop_resident k c)"
| sec_dispose: "section_step cfg dev strict c (dispose ws d op c)"
| sec_evict_begin: "evict_begin k c = Some c' \<Longrightarrow> section_step cfg dev strict c c'"
| sec_evict_check: "evict_check k late c = (r, c') \<Longrightarrow> section_step cfg dev strict c c'"
| sec_forget: "forget k c = (b, c') \<Longrightarrow> section_step cfg dev strict c c'"
| sec_clear: "section_step cfg dev strict c (clear_intent op c)"
| sec_release: "cl_id cl \<in> c_released c \<or>
      (\<exists>S. map_of (c_claims c) (cl_key cl) = Some S \<and> cl_id cl \<in> S) \<Longrightarrow>
    section_step cfg dev strict c (release_claim cl c)"
| sec_set_child: "(\<And>m. measured = Some m \<Longrightarrow> 0 \<le> m) \<Longrightarrow>
    (\<And>m e. strict \<Longrightarrow> measured = Some m \<Longrightarrow> map_of (c_residents c) k = Some e \<Longrightarrow> m \<le> rm_accounted e) \<Longrightarrow>
    section_step cfg dev strict c (set_child k pid measured c)"
| sec_job_mark: "job_mark c = Some c' \<Longrightarrow> section_step cfg dev strict c c'"
| sec_job_finish: "job_finish j now drained c = (b, c') \<Longrightarrow> section_step cfg dev strict c c'"
| sec_end_job: "section_step cfg dev strict c (end_job j c)"

section \<open>Invariants\<close>

definition resident_ok :: "coord \<Rightarrow> model_key \<Rightarrow> resident \<Rightarrow> bool" where
  "resident_ok c k r = (rm_key r = k \<and> rm_seq r < c_recency_next c \<and> rm_active r \<le> live_claims c k)"

definition claims_ok :: "coord \<Rightarrow> bool" where
  "claims_ok c = (\<forall>k S. map_of (c_claims c) k = Some S \<longrightarrow> finite S \<and> (\<forall>i \<in> S. i < c_claim_next c))"

definition seqs_ok :: "coord \<Rightarrow> bool" where
  "seqs_ok c = (\<forall>k1 k2 r1 r2. map_of (c_residents c) k1 = Some r1 \<longrightarrow> map_of (c_residents c) k2 = Some r2 \<longrightarrow>
     rm_seq r1 = rm_seq r2 \<longrightarrow> k1 = k2)"

definition entries_ok :: "coord \<Rightarrow> bool" where
  "entries_ok c = ((\<forall>k r. map_of (c_residents c) k = Some r \<longrightarrow> resident_ok c k r) \<and>
     seqs_ok c \<and> claims_ok c)"

definition owners_ok :: "coord \<Rightarrow> bool" where
  "owners_ok c = (\<forall>op r. map_of (c_reservations c) op = Some r \<longrightarrow> rv_op r = op)"

definition exclusive_ok :: "coord \<Rightarrow> bool" where
  "exclusive_ok c = (c_exclusive c \<noteq> None \<longrightarrow> c_residents c = [] \<and> c_reservations c = [])"

definition coord_inv :: "coord \<Rightarrow> bool" where
  "coord_inv c = (ledger_wf (ledger_of c) \<and> entries_ok c \<and> owners_ok c \<and> exclusive_ok c)"

section \<open>Sections that only take away from the resident set\<close>

text \<open>\<open>shrinks c c'\<close>: no entry is added, no reference count grows, no recency ticket or claim is taken.\<close>

definition shrinks :: "coord \<Rightarrow> coord \<Rightarrow> bool" where
  "shrinks c c' = ((\<forall>k r'. map_of (c_residents c') k = Some r' \<longrightarrow>
       (\<exists>r. map_of (c_residents c) k = Some r \<and> rm_key r' = rm_key r \<and> rm_seq r' = rm_seq r \<and>
            rm_active r' \<le> rm_active r)) \<and>
     c_claims c' = c_claims c \<and> c_claim_next c' = c_claim_next c \<and> c_recency_next c' = c_recency_next c \<and>
     c_released c' = c_released c)"

lemma shrinks_refl [simp]: "shrinks c c"
  by (simp add: shrinks_def)

lemma shrinks_trans: "shrinks a b \<Longrightarrow> shrinks b c \<Longrightarrow> shrinks a c"
  unfolding shrinks_def by (elim conjE, intro conjI allI impI) (fastforce intro: order_trans, simp_all)

lemma shrinksD:
  assumes "shrinks c c'" "map_of (c_residents c') k = Some r'"
  obtains r where "map_of (c_residents c) k = Some r" "rm_key r' = rm_key r" "rm_seq r' = rm_seq r"
    "rm_active r' \<le> rm_active r"
  using assms unfolding shrinks_def by blast

lemma shrinks_frame:
  "shrinks c c' \<Longrightarrow> c_claims c' = c_claims c"
  "shrinks c c' \<Longrightarrow> c_claim_next c' = c_claim_next c"
  "shrinks c c' \<Longrightarrow> c_recency_next c' = c_recency_next c"
  "shrinks c c' \<Longrightarrow> c_released c' = c_released c"
  unfolding shrinks_def by blast+

lemma shrinksI:
  "(\<And>k r'. map_of (c_residents c') k = Some r' \<Longrightarrow>
      \<exists>r. map_of (c_residents c) k = Some r \<and> rm_key r' = rm_key r \<and> rm_seq r' = rm_seq r \<and>
            rm_active r' \<le> rm_active r) \<Longrightarrow>
   c_claims c' = c_claims c \<Longrightarrow> c_claim_next c' = c_claim_next c \<Longrightarrow>
   c_recency_next c' = c_recency_next c \<Longrightarrow> c_released c' = c_released c \<Longrightarrow> shrinks c c'"
  by (simp add: shrinks_def)

lemma shrinks_same:
  "c_residents c' = c_residents c \<Longrightarrow> c_claims c' = c_claims c \<Longrightarrow> c_claim_next c' = c_claim_next c \<Longrightarrow>
   c_recency_next c' = c_recency_next c \<Longrightarrow> c_released c' = c_released c \<Longrightarrow> shrinks c c'"
  by (simp add: shrinks_def)

lemma shrinks_set_resident:
  "(\<And>r. rm_key (f r) = rm_key r \<and> rm_seq (f r) = rm_seq r \<and> rm_active (f r) \<le> rm_active r) \<Longrightarrow>
   shrinks c (set_resident k f c)"
  by (rule shrinksI) (auto simp: set_resident_def map_of_dict_upd split: if_splits)

lemma shrinks_entries_ok: "shrinks c c' \<Longrightarrow> entries_ok c \<Longrightarrow> entries_ok c'"
  unfolding entries_ok_def
proof (elim conjE, intro conjI allI impI)
  assume s: "shrinks c c'" and r: "\<forall>k r. map_of (c_residents c) k = Some r \<longrightarrow> resident_ok c k r"
    and q: "seqs_ok c" and cl: "claims_ok c"
  show "resident_ok c' k r'" if lk: "map_of (c_residents c') k = Some r'" for k r'
  proof -
    obtain r0 where "map_of (c_residents c) k = Some r0" "rm_key r' = rm_key r0"
      "rm_seq r' = rm_seq r0" "rm_active r' \<le> rm_active r0" by (rule shrinksD[OF s lk])
    moreover from this(1) r have "resident_ok c k r0" by blast
    moreover have "live_claims c' k = live_claims c k" by (simp add: live_claims_def shrinks_frame[OF s])
    ultimately show ?thesis by (simp add: resident_ok_def shrinks_frame[OF s])
  qed
  show "seqs_ok c'"
    unfolding seqs_ok_def
  proof (intro allI impI)
    fix k1 k2 r1 r2
    assume 1: "map_of (c_residents c') k1 = Some r1" and 2: "map_of (c_residents c') k2 = Some r2"
      and eq: "rm_seq r1 = rm_seq r2"
    obtain q1 where "map_of (c_residents c) k1 = Some q1" "rm_seq r1 = rm_seq q1" by (rule shrinksD[OF s 1])
    moreover obtain q2 where "map_of (c_residents c) k2 = Some q2" "rm_seq r2 = rm_seq q2"
      by (rule shrinksD[OF s 2])
    ultimately show "k1 = k2" using q eq unfolding seqs_ok_def by metis
  qed
  show "claims_ok c'" using cl by (simp add: claims_ok_def shrinks_frame[OF s])
qed

lemma set_waiter_residents [simp]:
  "c_residents (set_waiter w f c) = c_residents c" "c_claims (set_waiter w f c) = c_claims c"
  "c_claim_next (set_waiter w f c) = c_claim_next c"
  "c_recency_next (set_waiter w f c) = c_recency_next c"
  "c_reservations (set_waiter w f c) = c_reservations c"
  "c_exclusive (set_waiter w f c) = c_exclusive c" "c_barrier (set_waiter w f c) = c_barrier c"
  "c_generation (set_waiter w f c) = c_generation c" "c_intent (set_waiter w f c) = c_intent c"
  "c_live (set_waiter w f c) = c_live c" "c_pending (set_waiter w f c) = c_pending c"
  "c_released (set_waiter w f c) = c_released c"
  by (simp_all add: set_waiter_def)

lemma assign_disposition_residents [simp]:
  "c_residents (assign_disposition d w c) = c_residents c"
  "c_claims (assign_disposition d w c) = c_claims c"
  "c_claim_next (assign_disposition d w c) = c_claim_next c"
  "c_recency_next (assign_disposition d w c) = c_recency_next c"
  "c_reservations (assign_disposition d w c) = c_reservations c"
  "c_exclusive (assign_disposition d w c) = c_exclusive c"
  "c_barrier (assign_disposition d w c) = c_barrier c"
  "c_generation (assign_disposition d w c) = c_generation c"
  "c_intent (assign_disposition d w c) = c_intent c"
  "c_live (assign_disposition d w c) = c_live c"
  "c_pending (assign_disposition d w c) = c_pending c"
  "c_released (assign_disposition d w c) = c_released c"
  by (simp_all add: assign_disposition_def)

lemma dispose_one_residents [simp]:
  "c_residents (dispose_one d c w) = c_residents c" "c_claims (dispose_one d c w) = c_claims c"
  "c_claim_next (dispose_one d c w) = c_claim_next c"
  "c_recency_next (dispose_one d c w) = c_recency_next c"
  "c_reservations (dispose_one d c w) = c_reservations c"
  "c_exclusive (dispose_one d c w) = c_exclusive c" "c_barrier (dispose_one d c w) = c_barrier c"
  "c_generation (dispose_one d c w) = c_generation c" "c_intent (dispose_one d c w) = c_intent c"
  "c_pending (dispose_one d c w) = c_pending c" "c_released (dispose_one d c w) = c_released c"
  by (simp_all add: dispose_one_def Let_def)

lemma foldl_frame: "(\<And>c w. g (f c w) = g c) \<Longrightarrow> g (foldl f c ws) = g c"
  by (induction ws arbitrary: c) simp_all

lemma dispose_residents [simp]:
  "c_residents (dispose ws d op c) = c_residents c" "c_claims (dispose ws d op c) = c_claims c"
  "c_claim_next (dispose ws d op c) = c_claim_next c"
  "c_recency_next (dispose ws d op c) = c_recency_next c"
  "c_reservations (dispose ws d op c) = c_reservations c"
  "c_exclusive (dispose ws d op c) = c_exclusive c" "c_barrier (dispose ws d op c) = c_barrier c"
  "c_generation (dispose ws d op c) = c_generation c" "c_intent (dispose ws d op c) = c_intent c"
  "c_pending (dispose ws d op c) = AList.delete op (c_pending c)"
  "c_released (dispose ws d op c) = c_released c"
  by (simp_all add: dispose_def Let_def foldl_frame)

section \<open>Which sections shrink\<close>

lemma shrinks_observe [simp]: "shrinks c (observe ob c)"
  by (rule shrinks_same) (simp_all add: observe_def)

lemma shrinks_drop [sections]: "shrinks c (drop_resident k c)"
  by (rule shrinksI)
    (auto simp: drop_resident_def bump_generation_def map_of_delete_dict split: if_splits)

lemma shrinks_mark [sections]: "shrinks c (mark_draining ks c)"
  by (rule shrinksI) (auto simp: mark_draining_def map_of_map_vals)

lemma shrinks_evict_begin [sections]: "evict_begin k c = Some c' \<Longrightarrow> shrinks c c'"
  by (auto simp: evict_begin_def split: option.splits if_splits intro!: shrinks_set_resident)

lemma shrinks_evict_check [sections]: "evict_check k late c = (r, c') \<Longrightarrow> shrinks c c'"
  by (auto simp: evict_check_def split: option.splits if_splits intro!: shrinks_set_resident)

lemma shrinks_forget [sections]: "forget k c = (b, c') \<Longrightarrow> shrinks c c'"
  by (auto simp: forget_def intro: shrinks_drop split: if_splits)

lemma shrinks_clear [sections]: "shrinks c (clear_intent op c)"
  by (rule shrinks_same) (simp_all add: clear_intent_def)

lemma shrinks_set_child [sections]: "shrinks c (set_child k pid m c)"
  unfolding set_child_def by (rule shrinks_set_resident) (auto simp: Let_def split: option.splits)

lemma shrinks_job_mark [sections]: "job_mark c = Some c' \<Longrightarrow> shrinks c c'"
  by (rule shrinksI) (auto simp: job_mark_def map_of_map_vals split: if_splits)

lemma shrinks_job_finish [sections]: "job_finish j now drained c = (b, c') \<Longrightarrow> shrinks c c'"
  by (rule shrinksI) (auto simp: job_finish_def map_of_map_vals split: if_splits)

lemma shrinks_end_job [sections]: "shrinks c (end_job j c)"
  by (rule shrinks_same) (auto simp: end_job_def split: option.splits)

lemma shrinks_reconcile [sections]: "shrinks c (reconcile op m d c)"
  by (rule shrinks_same) (simp_all add: reconcile_def)

lemma shrinks_rollback [sections]: "shrinks c (rollback_section op k ws why c)"
proof -
  have "shrinks c (set_resident k (\<lambda>r. r\<lparr> rm_state := ROLLING_BACK \<rparr>) c)"
    by (rule shrinks_set_resident) simp
  moreover have "shrinks c1 (observe ob (c1\<lparr> c_reservations := x, c_pending := y \<rparr>))" for c1 ob x y
    by (rule shrinks_same) (simp_all add: observe_def)
  ultimately show ?thesis unfolding rollback_section_def by (blast intro: shrinks_trans)
qed

lemma shrinks_load_failed [sections]: "load_failed k op c = (ws, c') \<Longrightarrow> shrinks c c'"
  by (rule shrinksI) (auto simp: load_failed_def Let_def bump_generation_def map_of_delete_dict
      split: option.splits if_splits)

lemma shrinks_join_load [sections]: "join_load op r c = (w, c') \<Longrightarrow> shrinks c c'"
  by (rule shrinks_same) (auto simp: join_load_def Let_def)

lemma shrinks_await_load [sections]: "await_load cfg w c = (r, c') \<Longrightarrow> shrinks c c'"
  by (rule shrinks_same) (auto simp: await_load_def drop_waiter_def Let_def split: option.splits)

lemma shrinks_dispose [sections]: "shrinks c (dispose ws d op c)"
  by (rule shrinks_same) simp_all

section \<open>Sections that touch, claim or add an entry\<close>

text \<open>An entry written with a fresh recency ticket, every other entry untouched.\<close>

lemma entries_ok_fresh:
  assumes ok: "entries_ok c"
    and new: "\<And>r'. map_of (c_residents c') k = Some r' \<Longrightarrow> rm_key r' = k \<and>
      rm_seq r' = c_recency_next c \<and> c_recency_next c < c_recency_next c' \<and> rm_active r' \<le> live_claims c' k"
    and old: "\<And>k'. k' \<noteq> k \<Longrightarrow> map_of (c_residents c') k' = map_of (c_residents c) k'"
    and live: "\<And>k'. k' \<noteq> k \<Longrightarrow> live_claims c' k' = live_claims c k'"
    and mono: "c_recency_next c \<le> c_recency_next c'"
    and cl: "claims_ok c'"
  shows "entries_ok c'"
proof -
  have lt: "rm_seq r < c_recency_next c" if "map_of (c_residents c) k' = Some r" for k' r
    using ok that by (simp add: entries_ok_def resident_ok_def)
  have "resident_ok c' k' r'" if lk: "map_of (c_residents c') k' = Some r'" for k' r'
  proof (cases "k' = k")
    case True
    then show ?thesis using new lk by (simp add: resident_ok_def)
  next
    case False
    then have "resident_ok c k' r'" using old[OF False] lk ok by (simp add: entries_ok_def)
    then show ?thesis using live[OF False] mono by (simp add: resident_ok_def)
  qed
  moreover have "seqs_ok c'"
    unfolding seqs_ok_def
  proof (intro allI impI)
    fix k1 k2 r1 r2
    assume 1: "map_of (c_residents c') k1 = Some r1" and 2: "map_of (c_residents c') k2 = Some r2"
      and eq: "rm_seq r1 = rm_seq r2"
    consider "k1 = k2" | "k1 = k" "k2 \<noteq> k" | "k1 \<noteq> k" "k2 = k" | "k1 \<noteq> k" "k2 \<noteq> k" by blast
    then show "k1 = k2"
    proof cases
      case 2
      then show ?thesis using new 1 lt[of k2 r2] old[of k2] \<open>map_of (c_residents c') k2 = Some r2\<close> eq by simp
    next
      case 3
      then show ?thesis using new 2 lt[of k1 r1] old[of k1] 1 eq by simp
    next
      case 4
      then show ?thesis using 1 2 eq ok old[of k1] old[of k2] unfolding entries_ok_def seqs_ok_def by metis
    qed
  qed
  ultimately show ?thesis using cl by (simp add: entries_ok_def)
qed

lemma entries_okD:
  "entries_ok c \<Longrightarrow> map_of (c_residents c) k = Some r \<Longrightarrow> resident_ok c k r"
  "entries_ok c \<Longrightarrow> claims_ok c"
  "entries_ok c \<Longrightarrow> seqs_ok c"
  by (simp_all add: entries_ok_def)

lemma touch_fields [simp]:
  "c_residents (touch k c) = dict_upd k (\<lambda>r. r\<lparr> rm_last_used := c_wall c (c_recency_next c),
     rm_seq := c_recency_next c \<rparr>) (c_residents c)"
  "c_recency_next (touch k c) = c_recency_next c + 1"
  "c_claims (touch k c) = c_claims c" "c_claim_next (touch k c) = c_claim_next c"
  "c_reservations (touch k c) = c_reservations c" "c_exclusive (touch k c) = c_exclusive c"
  "c_barrier (touch k c) = c_barrier c" "c_generation (touch k c) = c_generation c"
  "c_intent (touch k c) = c_intent c" "c_live (touch k c) = c_live c"
  "c_pending (touch k c) = c_pending c" "c_heap (touch k c) = c_heap c"
  "c_heap_next (touch k c) = c_heap_next c" "c_released (touch k c) = c_released c"
  by (simp_all add: touch_def set_resident_def)

lemma set_resident_fields [simp]:
  "c_residents (set_resident k f c) = dict_upd k f (c_residents c)"
  "c_recency_next (set_resident k f c) = c_recency_next c"
  "c_claims (set_resident k f c) = c_claims c" "c_claim_next (set_resident k f c) = c_claim_next c"
  "c_reservations (set_resident k f c) = c_reservations c"
  "c_exclusive (set_resident k f c) = c_exclusive c"
  "c_barrier (set_resident k f c) = c_barrier c" "c_generation (set_resident k f c) = c_generation c"
  "c_intent (set_resident k f c) = c_intent c" "c_live (set_resident k f c) = c_live c"
  "c_pending (set_resident k f c) = c_pending c" "c_heap (set_resident k f c) = c_heap c"
  "c_heap_next (set_resident k f c) = c_heap_next c" "c_released (set_resident k f c) = c_released c"
  "c_wall (set_resident k f c) = c_wall c"
  by (simp_all add: set_resident_def)

lemma live_claims_upd:
  "live_claims (c\<lparr> c_claims := AList.update k S cl \<rparr>) k' =
     (if k' = k then card S else case map_of cl k' of None \<Rightarrow> 0 | Some T \<Rightarrow> card T)"
  by (simp add: live_claims_def map_of_update_dict)

lemma claims_ok_ids: "claims_ok c \<Longrightarrow> map_of (c_claims c) k = Some S \<Longrightarrow> finite S \<and> (\<forall>i\<in>S. i < c_claim_next c)"
  by (simp add: claims_ok_def)

lemma entries_ok_grant:
  assumes ok: "entries_ok c" and g: "grant_claim k op c = Some (cl, c')"
  shows "entries_ok c'"
proof -
  let ?ids = "case map_of (c_claims c) k of None \<Rightarrow> {} | Some S \<Rightarrow> S"
  obtain e where e: "map_of (c_residents c) k = Some e"
    using g by (auto simp: grant_claim_def split: option.splits)
  have res: "c_residents c' = dict_upd k (\<lambda>r. r\<lparr> rm_last_used := c_wall c (c_recency_next c),
      rm_seq := c_recency_next c \<rparr>) (dict_upd k (\<lambda>r. r\<lparr> rm_active := rm_active r + 1 \<rparr>) (c_residents c))"
    and cl': "c_claims c' = AList.update k (insert (c_claim_next c) ?ids) (c_claims c)"
    and nx: "c_recency_next c' = c_recency_next c + 1" "c_claim_next c' = c_claim_next c + 1"
    using g e by (auto simp: grant_claim_def Let_def)
  have ids: "finite ?ids" "\<forall>i \<in> ?ids. i < c_claim_next c"
    using claims_ok_ids[OF entries_okD(2)[OF ok], of k] by (auto split: option.splits)
  have fresh: "c_claim_next c \<notin> ?ids" using ids(2) by auto
  have live: "live_claims c' k' = (if k' = k then live_claims c k + 1 else live_claims c k')" for k'
    using ids(1) fresh by (auto simp: live_claims_def cl' map_of_update_dict split: option.splits)
  have "claims_ok c'"
    unfolding claims_ok_def cl' nx
    using ids claims_ok_ids[OF entries_okD(2)[OF ok]]
    by (auto simp: map_of_update_dict less_Suc_eq split: if_splits) 
  then show ?thesis
    using entries_okD(1)[OF ok e] e
    by (intro entries_ok_fresh[OF ok, of _ k])
      (auto simp: res nx live map_of_dict_upd resident_ok_def)
qed

lemma entries_ok_release:
  assumes ok: "entries_ok c"
    and held: "cl_id cl \<in> c_released c \<or>
      (\<exists>S. map_of (c_claims c) (cl_key cl) = Some S \<and> cl_id cl \<in> S)"
  shows "entries_ok (release_claim cl c)"
proof (cases "cl_id cl \<in> c_released c")
  case True
  then show ?thesis using ok by (simp add: release_claim_def)
next
  case False
  let ?k = "cl_key cl" and ?c' = "release_claim cl c"
  obtain S where S: "map_of (c_claims c) ?k = Some S" "cl_id cl \<in> S" using held False by blast
  have fin: "finite S" using claims_ok_ids[OF entries_okD(2)[OF ok] S(1)] by simp
  have cl': "c_claims ?c' = AList.update ?k (S - {cl_id cl}) (c_claims c)"
    and nx: "c_claim_next ?c' = c_claim_next c" "c_recency_next c \<le> c_recency_next ?c'"
    and oth: "\<And>k'. k' \<noteq> ?k \<Longrightarrow> map_of (c_residents ?c') k' = map_of (c_residents c) k'"
    using False S(1) by (auto simp: release_claim_def Let_def map_of_dict_upd split: option.splits)
  have new: "rm_key r' = ?k \<and> rm_seq r' = c_recency_next c \<and> c_recency_next c < c_recency_next ?c' \<and>
      rm_active r' \<le> card S - 1" if lk: "map_of (c_residents ?c') ?k = Some r'" for r'
  proof -
    obtain e where e: "map_of (c_residents c) ?k = Some e"
      using lk False S(1)
      by (cases "map_of (c_residents c) ?k") (simp_all add: release_claim_def Let_def)
    have "rm_key e = ?k" "rm_active e \<le> card S"
      using entries_okD(1)[OF ok e] S(1) by (simp_all add: resident_ok_def live_claims_def)
    then show ?thesis using lk False S(1) e by (auto simp: release_claim_def Let_def map_of_dict_upd)
  qed
  have live: "live_claims ?c' k' = (if k' = ?k then card S - 1 else live_claims c k')" for k'
    using S fin by (simp add: live_claims_def cl' map_of_update_dict)
  have "claims_ok ?c'"
    unfolding claims_ok_def cl' nx
    using fin claims_ok_ids[OF entries_okD(2)[OF ok]] S(1)
    by (auto simp: map_of_update_dict split: if_splits)
  then show ?thesis
    using new oth live nx by (intro entries_ok_fresh[OF ok, of _ ?k]) simp_all
qed

lemma entries_ok_reserve: "entries_ok c \<Longrightarrow> entries_ok (reserve k est op c)"
  by (rule entries_ok_fresh[of c _ k])
    (auto simp: reserve_def Let_def map_of_update_dict new_resident_def live_claims_def
      dest: entries_okD(2) simp: claims_ok_def)

section \<open>Every section refines the ledger\<close>

definition cap_of :: "coord_config \<Rightarrow> rat \<Rightarrow> rat" where
  "cap_of cfg dev = usable_capacity cfg dev"

lemma grant_claim_present:
  assumes "map_of (c_residents c) k \<noteq> None"
  obtains cl c' where "grant_claim k op c = Some (cl, c')" "map_of (c_residents c') k \<noteq> None"
proof -
  obtain e where "map_of (c_residents c) k = Some e" using assms by blast
  then show thesis by (intro that) (auto simp: grant_claim_def Let_def map_of_dict_upd)
qed

lemma grant_waiters_present:
  "map_of (c_residents c) k \<noteq> None \<Longrightarrow> \<exists>c'. grant_waiters k ws c = Some c'"
proof (induction ws arbitrary: c)
  case (Cons w ws)
  obtain cl c' where "grant_claim k (waiter_op c w) c = Some (cl, c')" "map_of (c_residents c') k \<noteq> None"
    using Cons.prems by (rule grant_claim_present)
  then show ?case using Cons.IH by simp
qed simp

lemma stage1_cases:
  assumes "stage1 cfg dev k est op f1 f2 f3 c = (p, c')"
  obtains (stay) "c' = c \<or> (\<exists>ob. c' = observe ob c)"
      "p = AwaitTransient \<or> (\<exists>code ra ctx. p = Answer (Refuse code ra) ctx) \<or>
       p = AssertionFailed \<and> map_of (c_intent c) op \<noteq> None"
  | (share) cl where "grant_claim k op (observe OShare c) = Some (cl, c')" "p = Answer (Share cl) None"
      "c_exclusive c = None" "\<not> c_barrier c" "map_option rm_state (map_of (c_residents c) k) = Some RESIDENT"
  | (join) r w where "join_load op r c = (w, c')" "p = AwaitLoad w" "reservation_for c k = Some r"
      "c_exclusive c = None" "\<not> c_barrier c"
  | (load) "c' = reserve k est op c" "p = Load" "map_of (c_residents c) k = None"
      "c_exclusive c = None" "\<not> c_barrier c" "map_of (c_intent c) op = None"
      "accounted c + est \<le> usable_capacity cfg dev"
      "est \<le> (f1 - unmaterialized c) - safety_headroom_bytes cfg"
  | (evict) vs where "vs = select_victims cfg dev k est f2 c" "vs \<noteq> []"
      "c' = observe OEvict ((mark_draining (map rm_key vs) c)
             \<lparr> c_intent := AList.update op (map rm_key vs) (c_intent c) \<rparr>)"
      "p = EvictThenRetry (map (\<lambda>v. (rm_key v, rm_accounted v)) vs)"
      "c_exclusive c = None" "\<not> c_barrier c"
proof (cases "c_exclusive c \<noteq> None \<or> c_barrier c")
  case True
  then show ?thesis using assms by (intro stay) (auto simp: stage1_def busy_def)
next
  case False
  then have open_door: "c_exclusive c = None" "\<not> c_barrier c" by blast+
  show ?thesis
  proof (cases "map_of (c_residents c) k")
    case None
    then have d: "decide_fit cfg dev k est op f1 f2 f3 c = (p, c')"
      using assms open_door by (simp add: stage1_def)
    show ?thesis
    proof (cases "accounted c + est \<le> usable_capacity cfg dev \<and>
        est \<le> (f1 - unmaterialized c) - safety_headroom_bytes cfg")
      case True
      show ?thesis
      proof (cases "map_of (c_intent c) op = None")
        case False
        then have "p = AssertionFailed" "c' = c" using True d by (auto simp: decide_fit_def Let_def)
        then show ?thesis using False by (intro stay) auto
      next
        case no_intent: True
        then have "p = Load" "c' = reserve k est op c" using True d by (auto simp: decide_fit_def Let_def)
        then show ?thesis using load no_intent True None open_door by blast
      qed
    next
      case False
      show ?thesis
      proof (cases "select_victims cfg dev k est f2 c = []")
        case True
        then show ?thesis
          using d False by (intro stay) (auto simp: decide_fit_def Let_def busy_def split: if_splits)
      next
        case vs: False
        then show ?thesis
          using d False open_door evict[OF refl] by (auto simp: decide_fit_def Let_def split: if_splits)
      qed
    qed
  next
    case (Some e)
    show ?thesis
    proof (cases "rm_state e")
      case RESIDENT
      have "map_of (c_residents (observe OShare c)) k \<noteq> None" using Some by (simp add: observe_def)
      then obtain cl c1 where g: "grant_claim k op (observe OShare c) = Some (cl, c1)"
        by (rule grant_claim_present)
      then have "p = Answer (Share cl) None" "c' = c1"
        using assms Some RESIDENT open_door by (simp_all add: stage1_def)
      then show ?thesis using share[of cl] g Some RESIDENT open_door by simp
    next
      case LOADING
      then show ?thesis
        using assms Some open_door join stay by (auto simp: stage1_def split: option.splits prod.splits)
    qed (use assms Some open_door in \<open>auto simp: stage1_def intro!: stay\<close>)
  qed
qed

lemma grant_waiters_frame:
  "grant_waiters k ws c = Some c' \<Longrightarrow> c_reservations c' = c_reservations c \<and> c_exclusive c' = c_exclusive c \<and>
     c_barrier c' = c_barrier c \<and> c_generation c' = c_generation c \<and> c_intent c' = c_intent c \<and>
     c_live c' = c_live c \<and> c_pending c' = c_pending c"
  by (induction k ws c rule: grant_waiters.induct)
    (auto simp: grant_claim_def Let_def split: option.splits)

lemma commit_cases:
  assumes "commit cfg dev k op ch m deferred f3 c = (res, c')"
  obtains (lost) "map_of (c_reservations c) op = None" "res = RollBack (DOutcome (busy cfg)) []" "c' = c"
  | (roll) r d why where "map_of (c_reservations c) op = Some r" "res = RollBack d (rv_waiters r)"
      "c' = rollback_section op k (rv_waiters r) why c"
      "d = RETRY \<or> (\<exists>code ra. d = DOutcome (Refuse code ra))"
  | (key_error) r where "map_of (c_reservations c) op = Some r" "res = CommitKeyError" "c' = c"
      "generation_of c k = rv_gen r" "map_of (c_residents c) k = None"
  | (commit) r e cl b c1 c2 c4 where "map_of (c_reservations c) op = Some r"
      "c_exclusive c = None" "\<not> c_barrier c" "generation_of c k = rv_gen r"
      "commit_total op k m c \<le> usable_capacity cfg dev" "map_of (c_residents c) k = Some e"
      "c1 = set_resident k (\<lambda>e. e\<lparr> rm_mat := (\<not> deferred) \<rparr>) (touch k (set_resident k
         (\<lambda>e. e\<lparr> rm_state := RESIDENT, rm_accounted := m, rm_child := Some ch \<rparr>) c))"
      "grant_claim k op c1 = Some (cl, c2)" "grant_waiters k (rv_waiters r) c2 = Some c4"
      "c' = observe OGrant (c4\<lparr> c_reservations := AList.delete op (c_reservations c4) \<rparr>)"
      "res = Committed cl b (rv_waiters r)"
proof (cases "map_of (c_reservations c) op")
  case None
  then have "res = RollBack (DOutcome (busy cfg)) []" "c' = c" using assms by (simp_all add: commit_def)
  then show ?thesis by (rule lost[OF None])
next
  case (Some r)
  note res = this
  show ?thesis
  proof (cases "(c_barrier c \<or> c_exclusive c \<noteq> None) \<or> generation_of c k \<noteq> rv_gen r \<or>
      commit_total op k m c > usable_capacity cfg dev")
    case True
    then have "\<exists>d why. res = RollBack d (rv_waiters r) \<and>
        c' = rollback_section op k (rv_waiters r) why c \<and>
        (d = RETRY \<or> (\<exists>code ra. d = DOutcome (Refuse code ra)))"
      using assms res by (auto simp: commit_def Let_def busy_def split: if_splits)
    then show ?thesis using roll[OF res] by blast
  next
    case False
    then have g: "c_exclusive c = None" "\<not> c_barrier c" "generation_of c k = rv_gen r"
      "commit_total op k m c \<le> usable_capacity cfg dev"
      by (blast, blast, blast, simp add: not_less)
    show ?thesis
    proof (cases "map_of (c_residents c) k")
      case None
      then have "res = CommitKeyError" "c' = c" using assms res g by (simp_all add: commit_def Let_def)
      then show ?thesis using g None by (intro key_error[OF res])
    next
      case (Some e)
      define c1 where "c1 = set_resident k (\<lambda>e. e\<lparr> rm_mat := (\<not> deferred) \<rparr>) (touch k (set_resident k
         (\<lambda>e. e\<lparr> rm_state := RESIDENT, rm_accounted := m, rm_child := Some ch \<rparr>) c))"
      have "map_of (c_residents c1) k \<noteq> None" using Some by (simp add: c1_def map_of_dict_upd)
      then obtain cl c2 where g2: "grant_claim k op c1 = Some (cl, c2)" "map_of (c_residents c2) k \<noteq> None"
        by (rule grant_claim_present)
      obtain c4 where g4: "grant_waiters k (rv_waiters r) c2 = Some c4"
        using grant_waiters_present[OF g2(2)] by blast
      have "c' = observe OGrant (c4\<lparr> c_reservations := AList.delete op (c_reservations c4) \<rparr>) \<and>
          (\<exists>b. res = Committed cl b (rv_waiters r))"
        using assms res g Some g2(1) g4 by (auto simp: commit_def Let_def c1_def)
      then show ?thesis using commit[OF res g Some c1_def g2(1) g4] by blast
    qed
  qed
qed

lemma owners_setD: "owners_ok c \<Longrightarrow> distinct (dkeys (c_reservations c)) \<Longrightarrow>
    (op, r) \<in> set (c_reservations c) \<Longrightarrow> rv_op r = op"
  unfolding owners_ok_def by (metis map_of_is_SomeI)

text \<open>The refinement: on a well-formed state a critical section is one step of the ledger.\<close>

lemma section_refines_ledger:
  assumes st: "section_step cfg dev strict c c'" and inv: "coord_inv c"
  shows "ledger_step (usable_capacity cfg dev) strict (ledger_of c) (ledger_of c')"
  using st
proof cases
  case sec_observe
  then have "ledger_of c' = ledger_of c" by (intro ledger_of_cong) simp_all
  then show ?thesis by (simp add: ls_skip)
next
  case (sec_stage1 k est op f1 f2 f3 p)
  from sec_stage1(1) show ?thesis
  proof (cases rule: stage1_cases)
    case load
    then have "k \<notin> set (dkeys (l_acct (ledger_of c)))" "op \<notin> set (dkeys (l_books (ledger_of c)))"
      using sec_stage1(3) by (simp_all add: map_of_eq_None_iff)
    then show ?thesis
      unfolding load(1) ledger_of_reserve
      using sec_stage1(2) load(7) by (intro ledger_step.ls_reserve) (auto simp: l_total_ledger_of)
  next
    case (share cl)
    then show ?thesis using ledger_of_grant by (simp add: ls_skip)
  next
    case (join r w)
    then show ?thesis using ledger_of_join_load by (simp add: ls_skip)
  next
    case (evict vs)
    have "ledger_of (x\<lparr> c_intent := i \<rparr>) = ledger_of x" for x i by (rule ledger_of_cong) simp_all
    then show ?thesis using evict(3) by (simp add: ls_skip)
  qed (auto intro: ls_skip)
next
  case (sec_await w r)
  then show ?thesis using ledger_of_await_load by (simp add: ls_skip)
next
  case (sec_reconcile m op deferred)
  then show ?thesis
  proof (cases "map_of (c_reservations c) op \<noteq> None \<and> \<not> deferred")
    case True
    then show ?thesis using sec_reconcile ledger_of_reconcile[of c op deferred m] by (simp add: ls_reconcile)
  next
    case False
    then have "c' = c" using sec_reconcile(1) by (auto simp: reconcile_def)
    then show ?thesis by (simp add: ls_skip)
  qed
next
  case (sec_commit k op ch m deferred f3 res)
  from sec_commit(1) show ?thesis
  proof (cases rule: commit_cases)
    case (roll r d why)
    then show ?thesis by (simp add: ledger_of_rollback_section ls_unbook)
  next
    case (commit r e cl b c1 c2 c4)
    have d: "distinct (dkeys (c_residents c))" "distinct (dkeys (c_reservations c))"
      using inv wf_acct_distinct[of "ledger_of c"] wf_books_distinct[of "ledger_of c"]
      by (simp_all add: coord_inv_def)
    have "ledger_of c4 = ledger_of c1"
      using ledger_of_grant[OF commit(8)] ledger_of_grant_waiters[OF commit(9)] by simp
    also have "\<dots> = lg_post k m (ledger_of c)"
      unfolding commit(7)
      by (simp add: ledger_of_set_resident ledger_of_post)
    finally have L: "ledger_of c' = lg_unbook op (lg_post k m (ledger_of c))"
      unfolding commit(10) ledger_of_observe
      by (subst ledger_of_unbook[of _ c4 op]) simp_all
    have "commit_total op k m c = dsum id (l_acct (lg_post k m (ledger_of c))) +
        dsum bk_est (l_books (lg_unbook op (ledger_of c)))"
      using inv owners_setD[OF _ d(2)] by (intro commit_total_ledger[OF _ d(1) commit(6)])
        (simp add: coord_inv_def)
    then show ?thesis
      unfolding L using sec_commit(2) commit(5,6)
      by (intro ls_commit) (simp_all add: dkeys_iff_map_of del: set_map)
  qed (auto intro: ls_skip)
next
  case (sec_load_failed k op ws)
  show ?thesis
  proof (cases "map_of (c_reservations c) op")
    case None
    then have "ledger_of c' = ledger_of c"
      using sec_load_failed by (intro ledger_of_cong) (auto simp: load_failed_def)
    then show ?thesis by (simp add: ls_skip)
  next
    case (Some r)
    let ?c1 = "c\<lparr> c_reservations := AList.delete op (c_reservations c),
                 c_pending := AList.update op (rv_waiters r) (c_pending c) \<rparr>"
    have L1: "ledger_of ?c1 = lg_unbook op (ledger_of c)" by (rule ledger_of_unbook) simp_all
    have "c' = ?c1 \<or> c' = drop_resident k ?c1"
      using sec_load_failed Some by (auto simp: load_failed_def drop_resident_def Let_def)
    then show ?thesis using L1 by (auto simp: ledger_of_drop_resident intro: ls_unbook ls_unbook_drop)
  qed
next
  case (sec_evict_begin k)
  then have "ledger_of c' = ledger_of c"
    by (auto simp: evict_begin_def ledger_of_set_resident split: option.splits if_splits)
  then show ?thesis by (simp add: ls_skip)
next
  case (sec_evict_check k late r)
  then have "ledger_of c' = ledger_of c"
    by (auto simp: evict_check_def ledger_of_set_resident split: option.splits if_splits)
  then show ?thesis by (simp add: ls_skip)
next
  case (sec_forget k b)
  then show ?thesis by (auto simp: forget_def ledger_of_drop_resident intro: ls_skip ls_drop split: if_splits)
next
  case (sec_clear op)
  then have "ledger_of c' = ledger_of c" by (intro ledger_of_cong) (simp_all add: clear_intent_def)
  then show ?thesis by (simp add: ls_skip)
next
  case (sec_set_child measured k pid)
  show ?thesis
  proof (cases "\<exists>m. measured = Some m \<and> m \<noteq> 0")
    case True
    then obtain m where m: "measured = Some m" "m \<noteq> 0" by blast
    then have "ledger_of c' = lg_post k m (ledger_of c)"
      using sec_set_child(1) by (simp add: set_child_def ledger_of_post Let_def)
    then show ?thesis using sec_set_child(2,3) m by (auto intro!: ls_remeasure)
  next
    case False
    then have "ledger_of c' = ledger_of c"
      using sec_set_child(1) by (auto simp: set_child_def Let_def intro!: ledger_of_set_resident split: option.splits)
    then show ?thesis by (simp add: ls_skip)
  qed
next
  case sec_job_mark
  then have "ledger_of c' = ledger_of c"
    by (intro ledger_of_cong) (auto simp: job_mark_def dict_map_map_same split: if_splits)
  then show ?thesis by (simp add: ls_skip)
next
  case (sec_job_finish j now drained b)
  then have "ledger_of c' = ledger_of c"
    by (intro ledger_of_cong) (auto simp: job_finish_def dict_map_map_same split: if_splits)
  then show ?thesis by (simp add: ls_skip)
next
  case (sec_end_job j)
  then have "ledger_of c' = ledger_of c"
    by (intro ledger_of_cong) (auto simp: end_job_def split: option.splits)
  then show ?thesis by (simp add: ls_skip)
qed (simp_all add: ls_skip ledger_of_drop_resident ls_drop)

section \<open>Every section keeps the coordinator's invariant\<close>

lemma entries_ok_observe [simp]: "entries_ok (observe ob c) = entries_ok c"
  by (simp add: entries_ok_def seqs_ok_def claims_ok_def resident_ok_def live_claims_def observe_def)

lemma entries_ok_same_residents:
  "entries_ok c \<Longrightarrow> c_residents c' = c_residents c \<Longrightarrow> c_claims c' = c_claims c \<Longrightarrow>
   c_claim_next c' = c_claim_next c \<Longrightarrow> c_recency_next c' = c_recency_next c \<Longrightarrow>
   c_released c' = c_released c \<Longrightarrow> entries_ok c'"
  by (rule shrinks_entries_ok[OF shrinks_same])

lemma entries_ok_grant_waiters: "grant_waiters k ws c = Some c' \<Longrightarrow> entries_ok c \<Longrightarrow> entries_ok c'"
proof (induction k ws c rule: grant_waiters.induct)
  case (2 k w ws c)
  then obtain cl c1 where g: "grant_claim k (waiter_op c w) c = Some (cl, c1)"
    and rest: "grant_waiters k ws (assign_disposition (DOutcome (Share cl)) w c1) = Some c'"
    by (auto split: option.splits)
  have "entries_ok (assign_disposition (DOutcome (Share cl)) w c1)"
    by (rule entries_ok_same_residents[OF entries_ok_grant[OF 2(3) g]]) simp_all
  then show ?case using 2(1)[OF g] rest by auto
qed simp

lemma entries_ok_touch: "entries_ok c \<Longrightarrow> entries_ok (touch k c)"
  by (rule entries_ok_fresh[of c _ k])
    (auto simp: map_of_dict_upd live_claims_def resident_ok_def claims_ok_def dest: entries_okD)

lemma entries_ok_step: "section_step cfg dev strict c c' \<Longrightarrow> entries_ok c \<Longrightarrow> entries_ok c'"
proof (induction rule: section_step.induct)
  case (sec_stage1 k est op f1 f2 f3 c p c')
  from sec_stage1(1) show ?case
  proof (cases rule: stage1_cases)
    case (evict vs)
    have "shrinks c (mark_draining (map rm_key vs) c)" by (rule shrinks_mark)
    then have "entries_ok (mark_draining (map rm_key vs) c)" using sec_stage1 by (blast intro: shrinks_entries_ok)
    then show ?thesis unfolding evict(3) by (simp, elim entries_ok_same_residents) simp_all
  qed (use sec_stage1 in \<open>auto intro: entries_ok_reserve shrinks_entries_ok[OF shrinks_join_load]
      dest: entries_ok_grant[rotated]\<close>)
next
  case (sec_commit k op ch m deferred f3 c r c')
  from sec_commit(1) show ?case
  proof (cases rule: commit_cases)
    case (roll r d why)
    then show ?thesis using shrinks_entries_ok[OF shrinks_rollback] sec_commit by simp
  next
    case (commit r e cl b c1 c2 c4)
    have "entries_ok (set_resident k (\<lambda>e. e\<lparr> rm_state := RESIDENT, rm_accounted := m, rm_child := Some ch \<rparr>) c)"
      using sec_commit by (intro shrinks_entries_ok[OF shrinks_set_resident]) simp_all
    then have "entries_ok c1" unfolding commit(7)
      by (intro shrinks_entries_ok[OF shrinks_set_resident, OF _ entries_ok_touch]) simp_all
    then have "entries_ok c4" using entries_ok_grant commit(8) entries_ok_grant_waiters commit(9) by blast
    then show ?thesis unfolding commit(10) by (simp, elim entries_ok_same_residents) simp_all
  qed (use sec_commit in simp_all)
next
  case (sec_observe c obs ds)
  then show ?case by (elim entries_ok_same_residents) simp_all
next
  case (sec_release cl c)
  then show ?case by (blast intro: entries_ok_release)
qed (auto elim!: shrinks_entries_ok[rotated] intro: sections)

lemma owners_ok_same: "owners_ok c \<Longrightarrow> c_reservations c' = c_reservations c \<Longrightarrow> owners_ok c'"
  by (simp add: owners_ok_def)

lemma owners_ok_sub:
  "owners_ok c \<Longrightarrow> (\<And>op r'. map_of (c_reservations c') op = Some r' \<Longrightarrow>
     rv_op r' = op \<or> (\<exists>r. map_of (c_reservations c) op = Some r \<and> rv_op r' = rv_op r)) \<Longrightarrow> owners_ok c'"
  unfolding owners_ok_def by (metis (no_types))

lemma owners_ok_step: "section_step cfg dev strict c c' \<Longrightarrow> owners_ok c \<Longrightarrow> owners_ok c'"
proof (induction rule: section_step.induct)
  case (sec_stage1 k est op f1 f2 f3 c p c')
  from sec_stage1(1) show ?case
  proof (cases rule: stage1_cases)
    case load
    then show ?thesis using sec_stage1(4)
      by (elim owners_ok_sub) (auto simp: reserve_def Let_def map_of_update_dict new_reservation_def split: if_splits)
  next
    case (join r w)
    then show ?thesis using sec_stage1(4)
      by (elim owners_ok_sub) (auto simp: join_load_def Let_def map_of_dict_upd split: if_splits)
  next
    case (share cl)
    then have "c_reservations c' = c_reservations c"
      by (auto simp: grant_claim_def Let_def observe_def split: option.splits)
    then show ?thesis using sec_stage1(4) by (rule owners_ok_same[rotated])
  next
    case (evict vs)
    then show ?thesis using sec_stage1(4) by (elim owners_ok_same) (simp add: observe_def mark_draining_def)
  next
    case stay
    then show ?thesis using sec_stage1(4) by (auto simp: owners_ok_def observe_def)
  qed
next
  case (sec_await c w r c')
  then show ?case
    by (elim owners_ok_sub)
      (auto simp: await_load_def Let_def drop_waiter_def map_of_map_vals split: option.splits)
next
  case (sec_reconcile m c op deferred)
  then show ?case
    by (elim owners_ok_sub) (auto simp: reconcile_def map_of_dict_upd split: if_splits)
next
  case (sec_commit k op ch m deferred f3 c r c')
  from sec_commit(1) show ?case
  proof (cases rule: commit_cases)
    case (roll r d why)
    then show ?thesis using sec_commit(3)
      by (elim owners_ok_sub) (auto simp: rollback_section_def observe_def map_of_delete_dict split: if_splits)
  next
    case (commit r e cl b c1 c2 c4)
    have "c_reservations c2 = c_reservations c" using commit(7,8)
      by (auto simp: grant_claim_def Let_def split: option.splits)
    then have "c_reservations c4 = c_reservations c" using grant_waiters_frame[OF commit(9)] by simp
    then show ?thesis using sec_commit(3) unfolding commit(10)
      by (elim owners_ok_sub) (auto simp: observe_def map_of_delete_dict split: if_splits)
  qed (use sec_commit in simp_all)
next
  case (sec_load_failed k op c ws c')
  then show ?case
    by (elim owners_ok_sub) (auto simp: load_failed_def Let_def bump_generation_def map_of_delete_dict
      split: option.splits if_splits)
qed (auto simp: drop_resident_def bump_generation_def evict_begin_def evict_check_def forget_def
      clear_intent_def release_claim_def set_child_def job_mark_def job_finish_def end_job_def Let_def
      split: option.splits if_splits elim!: owners_ok_same)

lemma exclusive_ok_step: "section_step cfg dev strict c c' \<Longrightarrow> exclusive_ok c \<Longrightarrow> exclusive_ok c'"
proof (induction rule: section_step.induct)
  case (sec_stage1 k est op f1 f2 f3 c p c')
  show ?case
  proof (cases "c_exclusive c")
    case None
    from sec_stage1(1) have "c_exclusive c' = None"
    proof (cases rule: stage1_cases)
      case (share cl)
      then show ?thesis using None by (auto simp: grant_claim_def Let_def observe_def split: option.splits)
    next
      case (join r w)
      then show ?thesis using None by (auto simp: join_load_def Let_def)
    qed (use None in \<open>auto simp: observe_def reserve_def Let_def mark_draining_def\<close>)
    then show ?thesis by (simp add: exclusive_ok_def)
  next
    case (Some j)
    then show ?thesis using sec_stage1 by (auto simp: stage1_def observe_def exclusive_ok_def)
  qed
next
  case (sec_commit k op ch m deferred f3 c r c')
  from sec_commit(1) show ?case
  proof (cases rule: commit_cases)
    case (roll r d why)
    then show ?thesis using sec_commit by (auto simp: exclusive_ok_def rollback_section_def observe_def)
  next
    case (commit r e cl b c1 c2 c4)
    have "c_exclusive c2 = c_exclusive c" using commit(7,8)
      by (auto simp: grant_claim_def Let_def split: option.splits)
    then show ?thesis using grant_waiters_frame[OF commit(9)] commit(2)
      unfolding commit(10) by (simp add: exclusive_ok_def observe_def)
  qed (use sec_commit in simp_all)
next
  case (sec_load_failed k op c ws c')
  then show ?case
    by (auto simp: exclusive_ok_def load_failed_def Let_def bump_generation_def split: option.splits if_splits)
next
  case (sec_job_finish j now drained c b c')
  then show ?case by (auto simp: exclusive_ok_def job_finish_def split: if_splits)
next
  case (sec_release cl c)
  then show ?case by (auto simp: exclusive_ok_def release_claim_def Let_def dict_upd_def split: option.splits)
next
  case (sec_await c w r c')
  then show ?case by (auto simp: exclusive_ok_def await_load_def drop_waiter_def Let_def split: option.splits)
qed (auto simp: exclusive_ok_def drop_resident_def bump_generation_def evict_begin_def evict_check_def
      forget_def clear_intent_def set_child_def job_mark_def end_job_def dict_upd_def reconcile_def
      split: option.splits if_splits)

lemma coord_inv_step:
  assumes "section_step cfg dev strict c c'" "coord_inv c"
  shows "coord_inv c'"
  using assms ledger_step_wf[OF section_refines_ledger[OF assms]]
    entries_ok_step[OF assms(1)] owners_ok_step[OF assms(1)] exclusive_ok_step[OF assms(1)]
  by (simp add: coord_inv_def)

lemma capacity_step:
  assumes "section_step cfg dev True c c'" "coord_inv c" "committed c \<le> usable_capacity cfg dev"
  shows "committed c' \<le> usable_capacity cfg dev"
  using ledger_step_capacity[OF section_refines_ledger[OF assms(1,2)]] assms(2,3)
  by (simp add: coord_inv_def l_committed_ledger_of)

lemma coord_inv_init: "coord_inv (init_coord w)"
  by (simp add: coord_inv_def init_coord_def ledger_wf_def entries_ok_def owners_ok_def exclusive_ok_def
    seqs_ok_def claims_ok_def)

end
