(* ===== verification/CoordMachine.thy ===== *)
theory CoordMachine
  imports CoordInvariants
begin

text \<open>
  The coordinator's threads.  An operation (a call of \<open>admit_serving\<close> or \<open>admit_job\<close>) has a program
  counter saying which critical section, lifecycle call or wait it is at; \<open>tstep\<close> is one event of one
  operation (or of the environment: a claim released, a runtime that unloaded by itself, a measured
  pid, a job ended) and runs exactly the sections of theory \<open>Coordinator\<close> the source runs there.  An
  event carries everything the code does not decide: clock comparisons, device readings, what a load
  returned.  Any interleaving of events is a run.
\<close>

section \<open>Threads\<close>

datatype evphase = EvBegin | EvWait | EvUnloading | EvFinal

datatype pc =
    Idle
  | Attempt nat
  | GateWait
  | Loading
  | Measured child rat bool
  | Committing child rat bool
  | RollUnload "nat list" disposition
  | RollFinal "nat list" disposition
  | RollDispose "nat list" disposition
  | GrantDispose "nat list" claim bounds rat
  | FailDrop "child option"
  | FailUnload "nat list"
  | FailDispose "nat list"
  | Awaiting nat nat
  | AwaitingTransient nat
  | Evicting nat "model_key list" evphase
  | BackingOff nat
  | Done outcome
  | JobScan
  | JobEvict "model_key list" evphase
  | JobFinish bool
  | JobDone bool
  | Aborted

datatype load_result = LoadRaised "child option" | Loaded child rat

record sys =
  s_coord :: coord
  s_ctx :: "op_id \<Rightarrow> model_key \<times> rat"
  s_pc :: "op_id \<Rightarrow> pc"
  s_gate :: "op_id option"

datatype event =
    Start op_id model_key rat
  | StartJob op_id string
  | Serve op_id bool rat rat rat
  | GateAcquire op_id
  | LoadReturns op_id load_result
  | Reconcile op_id
  | Commit op_id rat
  | FailSection op_id
  | UnloadDone op_id
  | Finalize op_id
  | Dispose op_id
  | Wake op_id
  | TransientTick op_id bool
  | EvictTick op_id bool
  | BackoffDone op_id
  | JobTick op_id bool rat
  | Forget model_key
  | Release op_id
  | EndJob "string option"
  | SetChild model_key int "rat option"

definition init_sys :: "(nat \<Rightarrow> rat) \<Rightarrow> sys" where
  "init_sys w = \<lparr> s_coord = init_coord w, s_ctx = (\<lambda>_. ([], 0)), s_pc = (\<lambda>_. Idle), s_gate = None \<rparr>"

definition goto :: "op_id \<Rightarrow> pc \<Rightarrow> coord \<Rightarrow> sys \<Rightarrow> sys" where
  "goto op p c s = s\<lparr> s_coord := c, s_pc := (s_pc s)(op := p) \<rparr>"

section \<open>The decision log\<close>

text \<open>\<open>_log_decision\<close>, appending to the log.  The ring that bounds it is \<open>hostagent/admissionlog.py\<close>.\<close>

definition log_decision :: "decision \<Rightarrow> coord \<Rightarrow> coord" where
  "log_decision d c = c\<lparr> c_decisions := c_decisions c @ [d] \<rparr>"

definition answer_record ::
  "coord_config \<Rightarrow> op_id \<Rightarrow> model_key \<Rightarrow> rat \<Rightarrow> nat \<Rightarrow> refusal_context option \<Rightarrow> decision" where
  "answer_record cfg op k est n ctx = \<lparr> d_kind = Refused, d_op = op, d_key = k,
     d_requested_gb = Some (est / GIB), d_reason = map_option rc_reason ctx, d_attempt = Some n,
     d_evicted = [], d_blocking = Option.bind ctx rc_blocking, d_bounds = map_option rc_bounds ctx,
     d_headroom_gb = safety_headroom_bytes cfg / GIB \<rparr>"

definition evicted_record ::
  "coord_config \<Rightarrow> op_id \<Rightarrow> model_key \<Rightarrow> rat \<Rightarrow> nat \<Rightarrow> (model_key \<times> rat) list \<Rightarrow> decision" where
  "evicted_record cfg op k est n vs = \<lparr> d_kind = EvictedRetry, d_op = op, d_key = k,
     d_requested_gb = Some (est / GIB), d_reason = None, d_attempt = Some n,
     d_evicted = map (\<lambda>(v, b). (v, b / GIB)) vs, d_blocking = None, d_bounds = None,
     d_headroom_gb = safety_headroom_bytes cfg / GIB \<rparr>"

definition admitted_record :: "coord_config \<Rightarrow> op_id \<Rightarrow> model_key \<Rightarrow> rat \<Rightarrow> bounds \<Rightarrow> decision" where
  "admitted_record cfg op k m b = \<lparr> d_kind = Admitted, d_op = op, d_key = k,
     d_requested_gb = Some (m / GIB), d_reason = None, d_attempt = None, d_evicted = [],
     d_blocking = None, d_bounds = Some b, d_headroom_gb = safety_headroom_bytes cfg / GIB \<rparr>"

definition failed_record :: "coord_config \<Rightarrow> op_id \<Rightarrow> model_key \<Rightarrow> decision" where
  "failed_record cfg op k = \<lparr> d_kind = Refused, d_op = op, d_key = k, d_requested_gb = None,
     d_reason = Some LoadFailedReason, d_attempt = None, d_evicted = [], d_blocking = None,
     d_bounds = None, d_headroom_gb = safety_headroom_bytes cfg / GIB \<rparr>"

section \<open>Steps\<close>

text \<open>One pass of \<open>admit_serving\<close>'s loop body up to the point where it waits, loads or evicts.\<close>

definition serve_attempt ::
  "coord_config \<Rightarrow> rat \<Rightarrow> op_id \<Rightarrow> model_key \<Rightarrow> rat \<Rightarrow> nat \<Rightarrow> bool \<Rightarrow> rat \<Rightarrow> rat \<Rightarrow> rat \<Rightarrow> coord \<Rightarrow> pc \<times> coord" where
  "serve_attempt cfg dev op k est n late f1 f2 f3 c =
     (if int n > max_admission_attempts cfg then
        (Done (busy cfg), observe (ORefuse ''attempts_exhausted'') c)
      else if late then (Done (busy cfg), observe (ORefuse ''deadline'') c)
      else case stage1 cfg dev k est op f1 f2 f3 c of
        (Answer oc ctx, c') \<Rightarrow> (Done oc, log_decision (answer_record cfg op k est n ctx) c')
      | (Load, c') \<Rightarrow> (GateWait, c')
      | (AwaitLoad w, c') \<Rightarrow> (Awaiting n w, c')
      | (AwaitTransient, c') \<Rightarrow> (AwaitingTransient n, c')
      | (EvictThenRetry vs, c') \<Rightarrow>
          (Evicting n (map fst vs) EvBegin, log_decision (evicted_record cfg op k est n vs) c')
      | (AssertionFailed, c') \<Rightarrow> (Aborted, c')
      | (KeyFailed, c') \<Rightarrow> (Aborted, c'))"

text \<open>One step of \<open>evict\<close>; \<open>None\<close> when it is over (evicted, gone, or \<open>EvictFailed\<close>, which both callers
  catch).  \<open>unload\<close> itself happens between \<open>EvUnloading\<close> and \<open>EvFinal\<close>, its exceptions ignored.\<close>

definition evict_step :: "model_key \<Rightarrow> evphase \<Rightarrow> bool \<Rightarrow> coord \<Rightarrow> evphase option \<times> coord" where
  "evict_step k ph late c = (case ph of
      EvBegin \<Rightarrow> (case evict_begin k c of None \<Rightarrow> (None, c) | Some c' \<Rightarrow> (Some EvWait, c'))
    | EvWait \<Rightarrow> (case evict_check k late c of
          (EvGone, c') \<Rightarrow> (None, c')
        | (EvWaiting, c') \<Rightarrow> (Some EvWait, c')
        | (EvFailed, c') \<Rightarrow> (None, c')
        | (EvUnload _, c') \<Rightarrow> (Some EvUnloading, c'))
    | EvUnloading \<Rightarrow> (Some EvFinal, c)
    | EvFinal \<Rightarrow> (None, drop_resident k c))"

definition fail_outcome :: outcome where
  "fail_outcome = Refuse LOAD_FAILED None"

text \<open>The loop of \<open>_drain_serving_set\<close>: what it does after one reading of the serving set.\<close>

definition drain_scan :: "bool \<Rightarrow> coord \<Rightarrow> pc" where
  "drain_scan late c =
     (if drain_pending c = [] \<and> drain_in_flight c = [] then JobFinish True
      else if late then JobFinish False
      else JobEvict (drain_pending c) EvBegin)"

fun tstep :: "coord_config \<Rightarrow> rat \<Rightarrow> event \<Rightarrow> sys \<Rightarrow> sys option" where
  "tstep cfg dev (Start op k est) s = (case s_pc s op of
      Idle \<Rightarrow> Some ((goto op (Attempt 1) (s_coord s) s)\<lparr> s_ctx := (s_ctx s)(op := (k, est)) \<rparr>)
    | _ \<Rightarrow> None)"
| "tstep cfg dev (StartJob op j) s = (case s_pc s op of
      Idle \<Rightarrow> Some ((case job_mark (s_coord s) of
          None \<Rightarrow> goto op (JobDone False) (s_coord s) s
        | Some c' \<Rightarrow> goto op JobScan c' s)\<lparr> s_ctx := (s_ctx s)(op := (j, 0)) \<rparr>)
    | _ \<Rightarrow> None)"
| "tstep cfg dev (Serve op late f1 f2 f3) s = (case s_pc s op of
      Attempt n \<Rightarrow> (let (k, est) = s_ctx s op;
                        (p, c') = serve_attempt cfg dev op k est n late f1 f2 f3 (s_coord s)
                    in Some (goto op p c' s))
    | _ \<Rightarrow> None)"
| "tstep cfg dev (GateAcquire op) s = (case s_pc s op of
      GateWait \<Rightarrow> if s_gate s = None then Some ((goto op Loading (s_coord s) s)\<lparr> s_gate := Some op \<rparr>)
                  else None
    | _ \<Rightarrow> None)"
| "tstep cfg dev (LoadReturns op r) s = (case s_pc s op of
      Loading \<Rightarrow> (case r of
          LoadRaised ch \<Rightarrow> Some (goto op (FailDrop ch) (s_coord s) s)
        | Loaded ch reading \<Rightarrow>
            (let deferred = (child_pid ch = None)
             in Some (goto op (Measured ch (if deferred then snd (s_ctx s op) else reading) deferred)
                        (s_coord s) s)))
    | _ \<Rightarrow> None)"
| "tstep cfg dev (Reconcile op) s = (case s_pc s op of
      Measured ch m deferred \<Rightarrow>
        Some ((goto op (Committing ch m deferred) (reconcile op m deferred (s_coord s)) s)\<lparr> s_gate := None \<rparr>)
    | _ \<Rightarrow> None)"
| "tstep cfg dev (Commit op f3) s = (case s_pc s op of
      Committing ch m deferred \<Rightarrow>
        (case commit cfg dev (fst (s_ctx s op)) op ch m deferred f3 (s_coord s) of
           (Committed cl b ws, c') \<Rightarrow> Some (goto op (GrantDispose ws cl b m) c' s)
         | (RollBack d ws, c') \<Rightarrow> Some (goto op (RollUnload ws d) c' s)
         | (CommitKeyError, c') \<Rightarrow> Some (goto op Aborted c' s))
    | _ \<Rightarrow> None)"
| "tstep cfg dev (FailSection op) s = (case s_pc s op of
      FailDrop ch \<Rightarrow> (let (ws, c') = load_failed (fst (s_ctx s op)) op (s_coord s)
                      in Some (goto op (if ch = None then FailDispose ws else FailUnload ws) c' s))
    | _ \<Rightarrow> None)"
| "tstep cfg dev (UnloadDone op) s = (case s_pc s op of
      RollUnload ws d \<Rightarrow> Some (goto op (RollFinal ws d) (s_coord s) s)
    | FailUnload ws \<Rightarrow> Some (goto op (FailDispose ws) (s_coord s) s)
    | _ \<Rightarrow> None)"
| "tstep cfg dev (Finalize op) s = (case s_pc s op of
      RollFinal ws d \<Rightarrow> Some (goto op (RollDispose ws d) (drop_resident (fst (s_ctx s op)) (s_coord s)) s)
    | _ \<Rightarrow> None)"
| "tstep cfg dev (Dispose op) s = (case s_pc s op of
      RollDispose ws d \<Rightarrow> Some (goto op (Done (rollback_answer cfg d)) (dispose ws d op (s_coord s)) s)
    | GrantDispose ws cl b m \<Rightarrow>
        Some (goto op (Done (Grant cl))
          (log_decision (admitted_record cfg op (fst (s_ctx s op)) m b)
             (dispose ws (DOutcome (Grant cl)) op (s_coord s))) s)
    | FailDispose ws \<Rightarrow>
        Some ((goto op (Done fail_outcome)
          (dispose ws (DOutcome fail_outcome) op
             (log_decision (failed_record cfg op (fst (s_ctx s op)))
                (observe (ORefuse ''load_failed'') (s_coord s)))) s)\<lparr> s_gate := None \<rparr>)
    | _ \<Rightarrow> None)"
| "tstep cfg dev (Wake op) s = (case s_pc s op of
      Awaiting n w \<Rightarrow> (case await_load cfg w (s_coord s) of
          (Some oc, c') \<Rightarrow> Some (goto op (Done oc) c' s)
        | (None, c') \<Rightarrow> Some (goto op (BackingOff n) c' s))
    | _ \<Rightarrow> None)"
| "tstep cfg dev (TransientTick op late) s = (case s_pc s op of
      AwaitingTransient n \<Rightarrow>
        Some (goto op (if await_transient_done (fst (s_ctx s op)) late (s_coord s)
                       then Attempt (n + 1) else AwaitingTransient n) (s_coord s) s)
    | _ \<Rightarrow> None)"
| "tstep cfg dev (EvictTick op late) s = (case s_pc s op of
      Evicting n [] ph \<Rightarrow> Some (goto op (BackingOff n) (clear_intent op (s_coord s)) s)
    | Evicting n (k # ks) ph \<Rightarrow> (case evict_step k ph late (s_coord s) of
          (None, c') \<Rightarrow> Some (goto op (Evicting n ks EvBegin) c' s)
        | (Some ph', c') \<Rightarrow> Some (goto op (Evicting n (k # ks) ph') c' s))
    | _ \<Rightarrow> None)"
| "tstep cfg dev (BackoffDone op) s = (case s_pc s op of
      BackingOff n \<Rightarrow> Some (goto op (Attempt (n + 1)) (s_coord s) s)
    | _ \<Rightarrow> None)"
| "tstep cfg dev (JobTick op late now) s = (case s_pc s op of
      JobScan \<Rightarrow> Some (goto op (drain_scan late (s_coord s)) (s_coord s) s)
    | JobEvict [] ph \<Rightarrow> Some (goto op JobScan (s_coord s) s)
    | JobEvict (k # ks) ph \<Rightarrow> (case evict_step k ph late (s_coord s) of
          (None, c') \<Rightarrow> Some (goto op (JobEvict ks EvBegin) c' s)
        | (Some ph', c') \<Rightarrow> Some (goto op (JobEvict (k # ks) ph') c' s))
    | JobFinish drained \<Rightarrow> (let (b, c') = job_finish (fst (s_ctx s op)) now drained (s_coord s)
                            in Some (goto op (JobDone b) c' s))
    | _ \<Rightarrow> None)"
| "tstep cfg dev (Forget k) s = Some (s\<lparr> s_coord := snd (forget k (s_coord s)) \<rparr>)"
| "tstep cfg dev (Release op) s = (case s_pc s op of
      Done (Share cl) \<Rightarrow> Some (s\<lparr> s_coord := release_claim cl (s_coord s) \<rparr>)
    | Done (Grant cl) \<Rightarrow> Some (s\<lparr> s_coord := release_claim cl (s_coord s) \<rparr>)
    | _ \<Rightarrow> None)"
| "tstep cfg dev (EndJob j) s = Some (s\<lparr> s_coord := end_job j (s_coord s) \<rparr>)"
| "tstep cfg dev (SetChild k pid m) s = Some (s\<lparr> s_coord := set_child k pid m (s_coord s) \<rparr>)"

text \<open>What a run may assume of its events: estimates and readings are not negative and, in a strict
  run, a measured pid never exceeds the bytes its model was admitted for.\<close>

fun event_ok :: "bool \<Rightarrow> event \<Rightarrow> sys \<Rightarrow> bool" where
  "event_ok strict (Start op k est) s = (0 \<le> est)"
| "event_ok strict (LoadReturns op (Loaded ch m)) s = (0 \<le> m)"
| "event_ok strict (SetChild k pid (Some m)) s =
     (0 \<le> m \<and> (strict \<longrightarrow> (case map_of (c_residents (s_coord s)) k of
                              None \<Rightarrow> True | Some e \<Rightarrow> m \<le> rm_accounted e)))"
| "event_ok strict e s = True"

inductive reach :: "coord_config \<Rightarrow> rat \<Rightarrow> bool \<Rightarrow> sys \<Rightarrow> bool" for cfg dev strict where
  reach_init: "reach cfg dev strict (init_sys w)"
| reach_step: "reach cfg dev strict s \<Longrightarrow> event_ok strict e s \<Longrightarrow> tstep cfg dev e s = Some s' \<Longrightarrow>
    reach cfg dev strict s'"

section \<open>The threads' invariant\<close>

text \<open>Where an operation owns a reservation.\<close>

fun loading_pc :: "pc \<Rightarrow> bool" where
  "loading_pc GateWait = True"
| "loading_pc Loading = True"
| "loading_pc (Measured _ _ _) = True"
| "loading_pc (Committing _ _ _) = True"
| "loading_pc (FailDrop _) = True"
| "loading_pc _ = False"

fun gate_pc :: "pc \<Rightarrow> bool" where
  "gate_pc Loading = True"
| "gate_pc (Measured _ _ _) = True"
| "gate_pc (FailDrop _) = True"
| "gate_pc (FailUnload _) = True"
| "gate_pc (FailDispose _) = True"
| "gate_pc _ = False"

fun evicting_pc :: "pc \<Rightarrow> bool" where
  "evicting_pc (Evicting _ _ _) = True"
| "evicting_pc _ = False"

fun draining_pc :: "pc \<Rightarrow> bool" where
  "draining_pc JobScan = True"
| "draining_pc (JobEvict _ _) = True"
| "draining_pc (JobFinish _) = True"
| "draining_pc _ = False"

text \<open>The joiners an operation has in custody.\<close>

fun custody :: "pc \<Rightarrow> nat list option" where
  "custody (RollUnload ws _) = Some ws"
| "custody (RollFinal ws _) = Some ws"
| "custody (RollDispose ws _) = Some ws"
| "custody (FailUnload ws) = Some ws"
| "custody (FailDispose ws) = Some ws"
| "custody _ = None"

fun disp_claim :: "disposition \<Rightarrow> claim option" where
  "disp_claim (DOutcome (Share cl)) = Some cl"
| "disp_claim (DOutcome (Grant cl)) = Some cl"
| "disp_claim _ = None"

fun pc_claim :: "pc \<Rightarrow> claim option" where
  "pc_claim (GrantDispose _ cl _ _) = Some cl"
| "pc_claim (RollUnload _ d) = disp_claim d"
| "pc_claim (RollFinal _ d) = disp_claim d"
| "pc_claim (RollDispose _ d) = disp_claim d"
| "pc_claim (Done (Share cl)) = Some cl"
| "pc_claim (Done (Grant cl)) = Some cl"
| "pc_claim _ = None"

fun pc_measure_ok :: "pc \<Rightarrow> bool" where
  "pc_measure_ok (Measured _ m _) = (0 \<le> m)"
| "pc_measure_ok (Committing _ m _) = (0 \<le> m)"
| "pc_measure_ok _ = True"

definition held :: "coord \<Rightarrow> claim \<Rightarrow> bool" where
  "held c cl = (cl_id cl \<in> c_released c \<or>
     (\<exists>S. map_of (c_claims c) (cl_key cl) = Some S \<and> cl_id cl \<in> S))"

end
