(* ===== verification/CoordThreads.thy ===== *)
theory CoordThreads
  imports CoordMachine
begin

text \<open>
  The invariant that ties the coordinator's dictionaries to the threads' program counters, and its
  preservation by every event: who owns a reservation, who holds eviction intent, which joiners a
  load-owning operation has in custody, and where a waiting joiner is registered.
\<close>

section \<open>The part of the state the threads own\<close>

definition joins :: "coord \<Rightarrow> (op_id, model_key \<times> nat list) dict" where
  "joins c = dict_map (\<lambda>r. (rv_key r, rv_waiters r)) (c_reservations c)"

definition tview :: "coord \<Rightarrow> (op_id, model_key \<times> nat list) dict \<times> (op_id, model_key list) dict \<times>
    (op_id, nat list) dict \<times> (op_id, nat) dict \<times> (nat \<Rightarrow> waiter option) \<times> nat" where
  "tview c = (joins c, c_intent c, c_pending c, c_live c, c_heap c, c_heap_next c)"

lemma tviewI:
  "dict_map (\<lambda>r. (rv_key r, rv_waiters r)) (c_reservations c') =
     dict_map (\<lambda>r. (rv_key r, rv_waiters r)) (c_reservations c) \<Longrightarrow>
   c_intent c' = c_intent c \<Longrightarrow> c_pending c' = c_pending c \<Longrightarrow> c_live c' = c_live c \<Longrightarrow>
   c_heap c' = c_heap c \<Longrightarrow> c_heap_next c' = c_heap_next c \<Longrightarrow> tview c' = tview c"
  by (simp add: tview_def joins_def)

lemma tview_observe [simp]: "tview (observe ob c) = tview c"
  by (rule tviewI) (simp_all add: observe_def)

lemma tview_log [simp]: "tview (log_decision d c) = tview c"
  by (rule tviewI) (simp_all add: log_decision_def)

lemma tview_set_resident [simp]: "tview (set_resident k f c) = tview c"
  by (rule tviewI) simp_all

lemma tview_touch [simp]: "tview (touch k c) = tview c"
  by (rule tviewI) simp_all

lemma tview_grant: "grant_claim k op c = Some (cl, c') \<Longrightarrow> tview c' = tview c"
  by (rule tviewI) (auto simp: grant_claim_def Let_def split: option.splits)

lemma tview_release [simp]: "tview (release_claim cl c) = tview c"
  by (rule tviewI) (auto simp: release_claim_def Let_def split: option.splits)

lemma tview_drop [simp]: "tview (drop_resident k c) = tview c"
  by (rule tviewI) (simp_all add: drop_resident_def bump_generation_def)

lemma tview_mark [simp]: "tview (mark_draining ks c) = tview c"
  by (rule tviewI) (simp_all add: mark_draining_def)

lemma tview_forget [simp]: "tview (snd (forget k c)) = tview c"
  by (simp add: forget_def)

lemma tview_set_child [simp]: "tview (set_child k pid m c) = tview c"
  by (simp add: set_child_def)

lemma tview_end_job [simp]: "tview (end_job j c) = tview c"
  by (rule tviewI) (auto simp: end_job_def split: option.splits)

lemma tview_job_mark: "job_mark c = Some c' \<Longrightarrow> tview c' = tview c"
  by (rule tviewI) (auto simp: job_mark_def split: if_splits)

lemma tview_job_finish: "job_finish j now d c = (b, c') \<Longrightarrow> tview c' = tview c"
  by (rule tviewI) (auto simp: job_finish_def split: if_splits)

lemma tview_reconcile [simp]: "tview (reconcile op m d c) = tview c"
  by (rule tviewI) (auto simp: reconcile_def intro: dict_map_upd_same)

lemma tview_evict_step: "evict_step k ph late c = (r, c') \<Longrightarrow> tview c' = tview c"
  by (auto simp: evict_step_def evict_begin_def evict_check_def
      split: evphase.splits option.splits if_splits prod.splits evict_step.splits)

lemma tviewD:
  "tview c' = tview c \<Longrightarrow> joins c' = joins c"
  "tview c' = tview c \<Longrightarrow> c_intent c' = c_intent c"
  "tview c' = tview c \<Longrightarrow> c_pending c' = c_pending c"
  "tview c' = tview c \<Longrightarrow> c_live c' = c_live c"
  "tview c' = tview c \<Longrightarrow> c_heap c' = c_heap c"
  "tview c' = tview c \<Longrightarrow> c_heap_next c' = c_heap_next c"
  by (simp_all add: tview_def)

section \<open>The invariant\<close>

definition awaits :: "pc \<Rightarrow> nat \<Rightarrow> bool" where
  "awaits p w = (\<exists>n. p = Awaiting n w)"

definition registered :: "coord \<Rightarrow> nat \<Rightarrow> bool" where
  "registered c w = ((\<exists>o' k ws. map_of (joins c) o' = Some (k, ws) \<and> w \<in> set ws) \<or>
     (\<exists>o' ws. map_of (c_pending c) o' = Some ws \<and> w \<in> set ws))"

definition op_ok :: "coord \<Rightarrow> op_id \<Rightarrow> model_key \<Rightarrow> pc \<Rightarrow> bool" where
  "op_ok c op k p =
     (map_option fst (map_of (joins c) op) = (if loading_pc p then Some k else None) \<and>
      (map_of (c_intent c) op \<noteq> None \<longrightarrow> evicting_pc p) \<and>
      map_of (c_pending c) op = custody p \<and>
      (\<forall>w. map_of (c_live c) op = Some w \<longrightarrow> awaits p w) \<and>
      (\<forall>w. awaits p w \<longrightarrow> (\<exists>x. c_heap c w = Some x \<and> w_op x = op \<and>
         (w_disp x = None \<longrightarrow> registered c w))))"

lemma op_okD:
  assumes "op_ok c op k p"
  shows "map_option fst (map_of (joins c) op) = (if loading_pc p then Some k else None)"
    and "map_of (c_intent c) op \<noteq> None \<Longrightarrow> evicting_pc p"
    and "map_of (c_pending c) op = custody p"
    and "map_of (c_live c) op = Some w \<Longrightarrow> awaits p w"
    and "awaits p w \<Longrightarrow> \<exists>x. c_heap c w = Some x \<and> w_op x = op \<and> (w_disp x = None \<longrightarrow> registered c w)"
  using assms unfolding op_ok_def by simp_all

lemma op_ok_waiter:
  assumes "op_ok c op k p" "awaits p w"
  obtains x where "c_heap c w = Some x" "w_op x = op" "w_disp x = None \<longrightarrow> registered c w"
  by (rule op_okD(5)[OF assms, THEN exE]) (elim conjE, rule that)

definition heap_ok :: "coord \<Rightarrow> bool" where
  "heap_ok c = (\<forall>w. c_heap c w \<noteq> None \<longrightarrow> w < c_heap_next c)"

definition threads_ok :: "sys \<Rightarrow> bool" where
  "threads_ok s = ((\<forall>op. op_ok (s_coord s) op (fst (s_ctx s op)) (s_pc s op)) \<and> heap_ok (s_coord s))"

lemma op_ok_tview:
  assumes "tview c' = tview c"
  shows "op_ok c' op k p = op_ok c op k p" and "heap_ok c' = heap_ok c"
  by (simp_all add: op_ok_def registered_def heap_ok_def tviewD[OF assms])

lemma goto_sel [simp]:
  "s_coord (goto op p c s) = c" "s_pc (goto op p c s) = (s_pc s)(op := p)"
  "s_ctx (goto op p c s) = s_ctx s" "s_gate (goto op p c s) = s_gate s"
  by (simp_all add: goto_def)

text \<open>Moving between two program counters that own the same things.\<close>

definition same_role :: "pc \<Rightarrow> pc \<Rightarrow> bool" where
  "same_role p q = (loading_pc p = loading_pc q \<and> (evicting_pc p \<longrightarrow> evicting_pc q) \<and>
     custody p = custody q \<and> (\<forall>w. awaits p w = awaits q w))"

lemma op_ok_same_role: "same_role p q \<Longrightarrow> op_ok c op k p \<Longrightarrow> op_ok c op k q"
  by (auto simp: same_role_def op_ok_def)

lemma threads_ok_quiet:
  assumes "threads_ok s" "tview c' = tview (s_coord s)" "same_role (s_pc s op) p"
  shows "threads_ok (goto op p c' s)"
  using assms(1,3) op_ok_same_role[OF assms(3)]
  by (auto simp: threads_ok_def op_ok_tview[OF assms(2)])

lemma threads_ok_coord: "threads_ok s \<Longrightarrow> tview c' = tview (s_coord s) \<Longrightarrow> threads_ok (s\<lparr> s_coord := c' \<rparr>)"
  by (simp add: threads_ok_def op_ok_tview[of c'])

lemma threads_ok_gate [simp]: "threads_ok (s\<lparr> s_gate := g \<rparr>) = threads_ok s"
  by (simp add: threads_ok_def)

lemma threads_okD: "threads_ok s \<Longrightarrow> op_ok (s_coord s) op (fst (s_ctx s op)) (s_pc s op)"
  by (simp add: threads_ok_def)

text \<open>An event of one operation that changes only that operation's entries: the others keep theirs as
  long as their joiners stay registered.\<close>

lemma op_ok_other:
  assumes "op_ok c o' k p" and "map_option fst (map_of (joins c') o') = map_option fst (map_of (joins c) o')"
    and "map_of (c_intent c') o' = map_of (c_intent c) o'" "map_of (c_pending c') o' = map_of (c_pending c) o'"
    and "\<And>w. map_of (c_live c') o' = Some w \<Longrightarrow> map_of (c_live c) o' = Some w"
    and "\<And>w x. awaits p w \<Longrightarrow> c_heap c w = Some x \<Longrightarrow> w_op x = o' \<Longrightarrow> \<exists>x'. c_heap c' w = Some x' \<and> w_op x' = o' \<and>
        (w_disp x' = None \<longrightarrow> w_disp x = None \<and> (registered c w \<longrightarrow> registered c' w))"
  shows "op_ok c' o' k p"
  unfolding op_ok_def
proof (intro conjI allI impI)
  show "map_option fst (map_of (joins c') o') = (if loading_pc p then Some k else None)"
    using assms(1,2) by (simp add: op_ok_def)
  show "evicting_pc p" if "map_of (c_intent c') o' \<noteq> None"
    using assms(1,3) that by (auto simp: op_ok_def)
  show "map_of (c_pending c') o' = custody p" using assms(1,4) by (simp add: op_ok_def)
  show "awaits p w" if "map_of (c_live c') o' = Some w" for w
    using assms(1) assms(5)[OF that] by (simp add: op_ok_def)
  show "\<exists>x. c_heap c' w = Some x \<and> w_op x = o' \<and> (w_disp x = None \<longrightarrow> registered c' w)"
    if aw: "awaits p w" for w
  proof -
    obtain x where x: "c_heap c w = Some x" "w_op x = o'" "w_disp x = None \<longrightarrow> registered c w"
      by (rule op_okD(5)[OF assms(1) aw, THEN exE]) (elim conjE, rule that)
    obtain x' where x': "c_heap c' w = Some x'" "w_op x' = o'"
      "w_disp x' = None \<longrightarrow> w_disp x = None \<and> (registered c w \<longrightarrow> registered c' w)"
      by (rule assms(6)[OF aw x(1,2), THEN exE]) (elim conjE, rule that)
    then show ?thesis using x(3) by simp
  qed
qed

section \<open>Dispositions only accumulate\<close>

text \<open>The waiter heap only gains dispositions; the listed waiters all have one afterwards.\<close>

definition heap_ext :: "nat list \<Rightarrow> (nat \<Rightarrow> waiter option) \<Rightarrow> (nat \<Rightarrow> waiter option) \<Rightarrow> bool" where
  "heap_ext ws h h' = (\<forall>w. (h w = None \<longrightarrow> h' w = None) \<and> (\<forall>x. h w = Some x \<longrightarrow>
     (\<exists>x'. h' w = Some x' \<and> w_op x' = w_op x \<and> (w_disp x' = None \<longrightarrow> w_disp x = None \<and> w \<notin> set ws))))"

lemma heap_ext_refl [simp]: "heap_ext [] h h"
  by (simp add: heap_ext_def)

lemma heap_extD:
  assumes "heap_ext ws h h'" "h w = Some x"
  obtains x' where "h' w = Some x'" "w_op x' = w_op x" "w_disp x' = None \<longrightarrow> w_disp x = None \<and> w \<notin> set ws"
  using assms unfolding heap_ext_def by metis

lemma heap_ext_trans:
  assumes 1: "heap_ext us h1 h2" and 2: "heap_ext ws h2 h3"
  shows "heap_ext (us @ ws) h1 h3"
  unfolding heap_ext_def
proof (intro allI conjI impI)
  fix w
  show "h3 w = None" if "h1 w = None" using 1 2 that unfolding heap_ext_def by blast
  show "\<exists>x'. h3 w = Some x' \<and> w_op x' = w_op x \<and> (w_disp x' = None \<longrightarrow> w_disp x = None \<and> w \<notin> set (us @ ws))"
    if h1: "h1 w = Some x" for x
  proof -
    obtain y where y: "h2 w = Some y" "w_op y = w_op x" "w_disp y = None \<longrightarrow> w_disp x = None \<and> w \<notin> set us"
      by (rule heap_extD[OF 1 h1])
    obtain z where z: "h3 w = Some z" "w_op z = w_op y" "w_disp z = None \<longrightarrow> w_disp y = None \<and> w \<notin> set ws"
      by (rule heap_extD[OF 2 y(1)])
    show ?thesis using y z by simp
  qed
qed

lemma heap_ext_assign: "heap_ext [w] (c_heap c) (c_heap (assign_disposition d w c))"
  by (auto simp: heap_ext_def assign_disposition_def set_waiter_def)

lemma heap_ext_event: "heap_ext [] (c_heap c) (c_heap (set_waiter w (\<lambda>x. x\<lparr> w_event := True \<rparr>) c))"
  by (auto simp: heap_ext_def set_waiter_def)

lemma heap_ext_dispose_one: "heap_ext [w] (c_heap c) (c_heap (dispose_one d c w))"
  by (cases "c_heap c w") (auto simp: heap_ext_def dispose_one_def Let_def assign_disposition_def
      set_waiter_def waiter_disp_def)

lemma heap_ext_foldl:
  "(\<And>c w. heap_ext [w] (c_heap c) (c_heap (f c w))) \<Longrightarrow> heap_ext ws (c_heap c) (c_heap (foldl f c ws))"
proof (induction ws arbitrary: c)
  case (Cons w ws)
  have "heap_ext ([w] @ ws) (c_heap c) (c_heap (foldl f (f c w) ws))"
    by (rule heap_ext_trans[OF Cons.prems Cons.IH[OF Cons.prems]])
  then show ?case by simp
qed simp

lemma heap_ext_foldl_event:
  "heap_ext [] (c_heap c) (c_heap (foldl (\<lambda>c w. set_waiter w (\<lambda>x. x\<lparr> w_event := True \<rparr>) c) c ws))"
proof (induction ws arbitrary: c)
  case (Cons w ws)
  show ?case using heap_ext_trans[OF heap_ext_event Cons.IH, of c w] by simp
qed simp

lemma heap_ext_dispose: "heap_ext ws (c_heap c) (c_heap (dispose ws d op c))"
proof -
  let ?c1 = "foldl (dispose_one d) c ws"
  let ?c2 = "?c1\<lparr> c_pending := AList.delete op (c_pending ?c1) \<rparr>"
  have "heap_ext ws (c_heap c) (c_heap ?c2)"
    using heap_ext_foldl[of "dispose_one d" ws c] heap_ext_dispose_one by simp
  from heap_ext_trans[OF this heap_ext_foldl_event[of ?c2 ws]] show ?thesis
    by (simp add: dispose_def Let_def)
qed

lemma heap_next_dispose [simp]: "c_heap_next (dispose ws d op c) = c_heap_next c"
  by (simp add: dispose_def Let_def foldl_frame dispose_one_def assign_disposition_def set_waiter_def)

lemma live_dispose_one: "map_of (c_live (dispose_one d c v)) o' = Some w \<Longrightarrow> map_of (c_live c) o' = Some w"
  by (simp add: dispose_one_def Let_def map_of_delete_dict split: if_splits)

lemma live_dispose: "map_of (c_live (dispose ws d op c)) o' = Some w \<Longrightarrow> map_of (c_live c) o' = Some w"
proof -
  have "map_of (c_live (foldl (dispose_one d) c ws)) o' = Some w \<Longrightarrow> map_of (c_live c) o' = Some w" for c
    by (induction ws arbitrary: c) (simp, metis foldl_Cons live_dispose_one)
  then show "map_of (c_live (dispose ws d op c)) o' = Some w \<Longrightarrow> map_of (c_live c) o' = Some w"
    by (simp add: dispose_def Let_def foldl_frame)
qed

lemma heap_ext_grant_waiters:
  "grant_waiters k ws c = Some c' \<Longrightarrow> heap_ext ws (c_heap c) (c_heap c') \<and> c_heap_next c' = c_heap_next c"
proof (induction k ws c rule: grant_waiters.induct)
  case (2 k w ws c)
  obtain cl c1 where g: "grant_claim k (waiter_op c w) c = Some (cl, c1)"
    and r: "grant_waiters k ws (assign_disposition (DOutcome (Share cl)) w c1) = Some c'"
    using 2(2) by (auto split: option.splits)
  note h = tviewD(5,6)[OF tview_grant[OF g]]
  have n: "c_heap_next (assign_disposition d w c1) = c_heap_next c1" for d
    by (simp add: assign_disposition_def set_waiter_def)
  let ?c2 = "assign_disposition (DOutcome (Share cl)) w c1"
  have ih: "heap_ext ws (c_heap ?c2) (c_heap c')" "c_heap_next c' = c_heap_next ?c2"
    using 2(1)[OF g refl r] by simp_all
  have "heap_ext ([w] @ ws) (c_heap c1) (c_heap c')"
    by (rule heap_ext_trans[OF heap_ext_assign ih(1)])
  then show ?case using ih(2) by (simp add: h n)
qed simp

lemma heap_ok_ext: "heap_ok c \<Longrightarrow> heap_ext ws (c_heap c) (c_heap c') \<Longrightarrow> c_heap_next c' = c_heap_next c \<Longrightarrow> heap_ok c'"
  unfolding heap_ok_def heap_ext_def by metis

section \<open>The events that move ownership\<close>

lemma threads_ok_local:
  assumes ok: "threads_ok s" and self: "op_ok c' op (fst (s_ctx s op)) p" and heap: "heap_ok c'"
    and j: "\<And>o'. o' \<noteq> op \<Longrightarrow> map_option fst (map_of (joins c') o') = map_option fst (map_of (joins (s_coord s)) o')"
    and i: "\<And>o'. o' \<noteq> op \<Longrightarrow> map_of (c_intent c') o' = map_of (c_intent (s_coord s)) o'"
    and q: "\<And>o'. o' \<noteq> op \<Longrightarrow> map_of (c_pending c') o' = map_of (c_pending (s_coord s)) o'"
    and l: "\<And>o' w. o' \<noteq> op \<Longrightarrow> map_of (c_live c') o' = Some w \<Longrightarrow> map_of (c_live (s_coord s)) o' = Some w"
    and h: "\<And>w x. c_heap (s_coord s) w = Some x \<Longrightarrow> w_op x \<noteq> op \<Longrightarrow>
      \<exists>x'. c_heap c' w = Some x' \<and> w_op x' = w_op x \<and>
        (w_disp x' = None \<longrightarrow> w_disp x = None \<and> (registered (s_coord s) w \<longrightarrow> registered c' w))"
  shows "threads_ok (goto op p c' s)"
proof -
  have "op_ok c' o' (fst (s_ctx s o')) (s_pc s o')" if "o' \<noteq> op" for o'
  proof (rule op_ok_other[OF threads_okD[OF ok] j[OF that] i[OF that] q[OF that] l[OF that]])
    fix w x
    assume "c_heap (s_coord s) w = Some x" "w_op x = o'"
    then show "\<exists>x'. c_heap c' w = Some x' \<and> w_op x' = o' \<and>
        (w_disp x' = None \<longrightarrow> w_disp x = None \<and> (registered (s_coord s) w \<longrightarrow> registered c' w))"
      using h[of w x] that by simp
  qed assumption
  then show ?thesis using self heap by (simp add: threads_ok_def)
qed

lemma op_okI_idle:
  assumes "map_option fst (map_of (joins c) op) = (if loading_pc p then Some k else None)"
    and "map_of (c_intent c) op \<noteq> None \<Longrightarrow> evicting_pc p" and "map_of (c_pending c) op = custody p"
    and "map_of (c_live c) op = None" and "\<And>w. \<not> awaits p w"
  shows "op_ok c op k p"
  using assms by (simp add: op_ok_def)

text \<open>An operation that is not waiting for a load has no live waiter.\<close>

lemma not_awaiting_live: "op_ok c op k p \<Longrightarrow> (\<And>w. \<not> awaits p w) \<Longrightarrow> map_of (c_live c) op = None"
  using op_okD(4) by (metis option.exhaust)

lemma threads_ok_reserve:
  assumes ok: "threads_ok s" and pc: "s_pc s op = Attempt n" and k: "k = fst (s_ctx s op)"
  shows "threads_ok (goto op GateWait (reserve k est op (s_coord s)) s)"
proof -
  let ?c = "s_coord s" and ?c' = "reserve k est op (s_coord s)"
  note o = threads_okD[OF ok, of op, unfolded pc]
  have j: "joins ?c' = AList.update op (k, []) (joins ?c)"
    by (simp add: joins_def reserve_def Let_def new_reservation_def)
  have f: "c_intent ?c' = c_intent ?c" "c_pending ?c' = c_pending ?c" "c_live ?c' = c_live ?c"
    "c_heap ?c' = c_heap ?c" "c_heap_next ?c' = c_heap_next ?c"
    by (simp_all add: reserve_def Let_def)
  have none: "map_of (joins ?c) op = None" using op_okD(1)[OF o] by simp
  have reg: "registered ?c' w" if "registered ?c w" for w
    using that none unfolding registered_def j f by (metis map_of_update_dict option.distinct(1))
  show ?thesis
  proof (rule threads_ok_local[OF ok])
    show "op_ok ?c' op (fst (s_ctx s op)) GateWait"
      unfolding k[symmetric] using op_okD(2,3)[OF o] not_awaiting_live[OF o]
      by (intro op_okI_idle) (simp_all add: j f map_of_update_dict awaits_def)
    show "heap_ok ?c'" using ok by (simp add: threads_ok_def heap_ok_def f)
  qed (use reg in \<open>auto simp: j f map_of_update_dict\<close>)
qed

lemma threads_ok_evict:
  assumes ok: "threads_ok s" and pc: "s_pc s op = Attempt n" and T: "tview c1 = tview (s_coord s)"
    and c': "tview c' = tview (c1\<lparr> c_intent := AList.update op ks (c_intent c1) \<rparr>)"
  shows "threads_ok (goto op (Evicting n ks' ph) c' s)"
proof -
  note o = threads_okD[OF ok, of op, unfolded pc]
  have f: "joins c' = joins (s_coord s)" "c_intent c' = AList.update op ks (c_intent (s_coord s))"
    "c_pending c' = c_pending (s_coord s)" "c_live c' = c_live (s_coord s)"
    "c_heap c' = c_heap (s_coord s)" "c_heap_next c' = c_heap_next (s_coord s)"
    using tviewD[OF T] tviewD[OF c'] by (simp_all add: joins_def)
  show ?thesis
  proof (rule threads_ok_local[OF ok])
    show "op_ok c' op (fst (s_ctx s op)) (Evicting n ks' ph)"
      using op_okD(1,3)[OF o] not_awaiting_live[OF o]
      by (intro op_okI_idle) (simp_all add: f awaits_def)
    show "heap_ok c'" using ok by (simp add: threads_ok_def heap_ok_def f)
  qed (auto simp: f map_of_update_dict registered_def)
qed

lemma threads_ok_clear:
  assumes ok: "threads_ok s" and pc: "s_pc s op = Evicting n ks ph"
  shows "threads_ok (goto op (BackingOff n) (clear_intent op (s_coord s)) s)"
proof -
  let ?c' = "clear_intent op (s_coord s)"
  note o = threads_okD[OF ok, of op, unfolded pc]
  have f: "joins ?c' = joins (s_coord s)" "c_intent ?c' = AList.delete op (c_intent (s_coord s))"
    "c_pending ?c' = c_pending (s_coord s)" "c_live ?c' = c_live (s_coord s)"
    "c_heap ?c' = c_heap (s_coord s)" "c_heap_next ?c' = c_heap_next (s_coord s)"
    by (simp_all add: clear_intent_def joins_def)
  show ?thesis
  proof (rule threads_ok_local[OF ok])
    show "op_ok ?c' op (fst (s_ctx s op)) (BackingOff n)"
      using op_okD(1,3)[OF o] not_awaiting_live[OF o]
      by (intro op_okI_idle) (simp_all add: f awaits_def map_of_delete_dict)
    show "heap_ok ?c'" using ok by (simp add: threads_ok_def heap_ok_def f)
  qed (auto simp: f map_of_delete_dict registered_def)
qed

lemma reservation_for_lookup:
  assumes "reservation_for c k = Some r" "owners_ok c" "distinct (dkeys (c_reservations c))"
  shows "map_of (c_reservations c) (rv_op r) = Some r" and "rv_key r = k"
proof -
  have r: "r \<in> set (dvals (c_reservations c))" and k: "rv_key r = k"
    using assms(1) nth_mem[of _ "dvals (c_reservations c)"]
    by (auto simp: reservation_for_def find_Some_iff)
  then obtain o' where o': "(o', r) \<in> set (c_reservations c)" by auto
  show "map_of (c_reservations c) (rv_op r) = Some r"
    using o' owners_setD[OF assms(2,3) o'] assms(3) by simp
  show "rv_key r = k" by (rule k)
qed

lemma threads_ok_join:
  assumes ok: "threads_ok s" and pc: "s_pc s op = Attempt n"
    and r: "map_of (c_reservations (s_coord s)) (rv_op r) = Some r"
    and join: "join_load op r (s_coord s) = (w, c')"
  shows "threads_ok (goto op (Awaiting n w) c' s)"
proof -
  let ?c = "s_coord s"
  note o = threads_okD[OF ok, of op, unfolded pc]
  have w: "w = c_heap_next ?c" using join by (auto simp: join_load_def Let_def)
  have j: "joins c' = dict_upd (rv_op r) (\<lambda>(k, ws). (k, ws @ [w])) (joins ?c)"
    using join by (auto simp: join_load_def Let_def joins_def intro!: dict_map_upd)
  have f: "c_intent c' = c_intent ?c" "c_pending c' = c_pending ?c" "c_live c' = AList.update op w (c_live ?c)"
    "c_heap c' = (c_heap ?c)(w \<mapsto> \<lparr> w_op = op, w_event = False, w_disp = None \<rparr>)" "c_heap_next c' = w + 1"
    using join w by (auto simp: join_load_def Let_def)
  have hok: "heap_ok ?c" using ok by (simp add: threads_ok_def)
  have jr: "map_of (joins ?c) (rv_op r) = Some (rv_key r, rv_waiters r)" using r by (simp add: joins_def)
  have new: "registered c' w" unfolding registered_def j using jr
    by (intro disjI1 exI[of _ "rv_op r"] exI[of _ "rv_key r"] exI[of _ "rv_waiters r @ [w]"])
      (simp add: map_of_dict_upd)
  have reg: "registered c' v" if v: "registered ?c v" for v
    using v unfolding registered_def f
  proof (elim disjE exE conjE)
    fix o' k ws
    assume a: "map_of (joins ?c) o' = Some (k, ws)" "v \<in> set ws"
    show "(\<exists>o' k ws. map_of (joins c') o' = Some (k, ws) \<and> v \<in> set ws) \<or>
        (\<exists>o' ws. map_of (c_pending ?c) o' = Some ws \<and> v \<in> set ws)"
      using a unfolding j
      by (intro disjI1 exI[of _ o'] exI[of _ k] exI[of _ "if o' = rv_op r then ws @ [w] else ws"])
        (auto simp: map_of_dict_upd)
  qed blast
  have wn: "c_heap ?c w = None" using hok w unfolding heap_ok_def by blast
  have no_intent: "map_of (c_intent ?c) op = None"
    using op_okD(2)[OF o] by (cases "map_of (c_intent ?c) op") simp_all
  show ?thesis
  proof (rule threads_ok_local[OF ok])
    show "op_ok c' op (fst (s_ctx s op)) (Awaiting n w)"
      using op_okD(1,3)[OF o] no_intent new
      by (auto simp: op_ok_def j f map_of_dict_upd awaits_def map_of_update_dict option.map_comp
          split_def split: if_splits)
    show "heap_ok c'" using hok w unfolding heap_ok_def f by (auto simp: less_Suc_eq)
    show "\<exists>x'. c_heap c' v = Some x' \<and> w_op x' = w_op x \<and>
        (w_disp x' = None \<longrightarrow> w_disp x = None \<and> (registered ?c v \<longrightarrow> registered c' v))"
      if "c_heap ?c v = Some x" for v x
      using that wn reg by (cases "v = w") (simp_all add: f)
  qed (auto simp: j f map_of_dict_upd map_of_update_dict option.map_comp comp_def split_def split: if_splits)
qed

text \<open>Dropping a reservation: its joiners are either all disposed of or taken into custody.\<close>

lemma threads_ok_unbook:
  assumes ok: "threads_ok s" and load: "loading_pc (s_pc s op)"
    and r: "map_of (c_reservations (s_coord s)) op = Some r"
    and j: "joins c' = AList.delete op (joins (s_coord s))"
    and f: "c_intent c' = c_intent (s_coord s)" "c_live c' = c_live (s_coord s)"
    and h: "heap_ext us (c_heap (s_coord s)) (c_heap c')" "c_heap_next c' = c_heap_next (s_coord s)"
    and q: "c_pending c' = c_pending (s_coord s) \<and> set (rv_waiters r) \<subseteq> set us \<or>
            c_pending c' = AList.update op (rv_waiters r) (c_pending (s_coord s))"
    and p: "\<not> loading_pc p" "custody p = map_of (c_pending c') op" "\<And>w. \<not> awaits p w"
  shows "threads_ok (goto op p c' s)"
proof -
  let ?c = "s_coord s"
  note o = threads_okD[OF ok, of op]
  have jr: "map_of (joins ?c) op = Some (rv_key r, rv_waiters r)" using r by (simp add: joins_def)
  have na: "\<not> awaits (s_pc s op) w" "\<not> evicting_pc (s_pc s op)" "custody (s_pc s op) = None" for w
    using load by (cases "s_pc s op"; simp add: awaits_def)+
  have pn: "map_of (c_pending ?c) op = None" using op_okD(3)[OF o] na by simp
  have reg: "registered c' v" if v: "registered ?c v" and nu: "v \<notin> set us" for v
    using v unfolding registered_def
  proof (elim disjE exE conjE)
    fix o' k ws
    assume a: "map_of (joins ?c) o' = Some (k, ws)" "v \<in> set ws"
    show "(\<exists>o' k ws. map_of (joins c') o' = Some (k, ws) \<and> v \<in> set ws) \<or>
        (\<exists>o' ws. map_of (c_pending c') o' = Some ws \<and> v \<in> set ws)"
    proof (cases "o' = op")
      case True
      then have "v \<in> set (rv_waiters r)" using a jr by simp
      then have "c_pending c' = AList.update op (rv_waiters r) (c_pending ?c)" using q nu by blast
      then show ?thesis using \<open>v \<in> set (rv_waiters r)\<close>
        by (intro disjI2 exI[of _ op] exI[of _ "rv_waiters r"]) (simp add: map_of_update_dict)
    next
      case False
      then show ?thesis using a unfolding j
        by (intro disjI1 exI[of _ o'] exI[of _ k] exI[of _ ws]) (simp add: map_of_delete_dict)
    qed
  next
    fix o' ws
    assume a: "map_of (c_pending ?c) o' = Some ws" "v \<in> set ws"
    then have "o' \<noteq> op" using pn by auto
    then have "map_of (c_pending c') o' = Some ws" using q a(1) by (auto simp: map_of_update_dict)
    then show "(\<exists>o' k ws. map_of (joins c') o' = Some (k, ws) \<and> v \<in> set ws) \<or>
        (\<exists>o' ws. map_of (c_pending c') o' = Some ws \<and> v \<in> set ws)"
      using a(2) by (intro disjI2 exI[of _ o'] exI[of _ ws]) simp
  qed
  show ?thesis
  proof (rule threads_ok_local[OF ok])
    show "op_ok c' op (fst (s_ctx s op)) p"
      using p op_okD(2)[OF o] na not_awaiting_live[OF o] 
      by (intro op_okI_idle) (auto simp: j f map_of_delete_dict)
    show "heap_ok c'" using ok h heap_ok_ext unfolding threads_ok_def by blast
    show "\<exists>x'. c_heap c' v = Some x' \<and> w_op x' = w_op x \<and>
        (w_disp x' = None \<longrightarrow> w_disp x = None \<and> (registered ?c v \<longrightarrow> registered c' v))"
      if hx: "c_heap ?c v = Some x" for v x
    proof -
      obtain x' where "c_heap c' v = Some x'" "w_op x' = w_op x"
        "w_disp x' = None \<longrightarrow> w_disp x = None \<and> v \<notin> set us" by (rule heap_extD[OF h(1) hx])
      then show ?thesis using reg by simp
    qed
  qed (use q in \<open>auto simp: j f map_of_delete_dict map_of_update_dict\<close>)
qed

lemma threads_ok_dispose:
  assumes ok: "threads_ok s" and cus: "custody (s_pc s op) = Some ws \<or> custody (s_pc s op) = None"
    and role: "\<not> loading_pc (s_pc s op)" "\<not> evicting_pc (s_pc s op)" "\<And>w. \<not> awaits (s_pc s op) w"
    and T: "tview c0 = tview (s_coord s)" "tview c' = tview (dispose ws d op c0)"
  shows "threads_ok (goto op (Done oc) c' s)"
proof -
  let ?c = "s_coord s"
  note o = threads_okD[OF ok, of op]
  have f: "joins c' = joins ?c" "c_intent c' = c_intent ?c" "c_pending c' = AList.delete op (c_pending ?c)"
    "c_heap_next c' = c_heap_next ?c"
    using tviewD[OF T(1)] tviewD[OF T(2)] by (simp_all add: joins_def)
  have h: "heap_ext ws (c_heap ?c) (c_heap c')"
    using heap_ext_dispose[of ws c0 d op] tviewD(5)[OF T(1)] tviewD(5)[OF T(2)] by simp
  have l: "map_of (c_live c') o' = Some w \<Longrightarrow> map_of (c_live ?c) o' = Some w" for o' w
    using live_dispose[of ws d op c0 o' w] tviewD(4)[OF T(1)] tviewD(4)[OF T(2)] by simp
  have reg: "registered c' v" if v: "registered ?c v" and nu: "v \<notin> set ws" for v
    using v unfolding registered_def f
  proof (elim disjE exE conjE)
    fix o' us
    assume a: "map_of (c_pending ?c) o' = Some us" "v \<in> set us"
    then have "o' \<noteq> op" using cus op_okD(3)[OF o] nu by auto
    then show "(\<exists>o' k ws. map_of (joins ?c) o' = Some (k, ws) \<and> v \<in> set ws) \<or>
        (\<exists>o' ws. map_of (AList.delete op (c_pending ?c)) o' = Some ws \<and> v \<in> set ws)"
      using a by (intro disjI2 exI[of _ o'] exI[of _ us]) (simp add: map_of_delete_dict)
  qed blast
  show ?thesis
  proof (rule threads_ok_local[OF ok])
    have "map_of (c_live c') op = None"
      using l not_awaiting_live[OF o role(3)] by (cases "map_of (c_live c') op") auto
    then show "op_ok c' op (fst (s_ctx s op)) (Done oc)"
      using op_okD(1,2)[OF o] role by (intro op_okI_idle) (auto simp: f map_of_delete_dict awaits_def)
    show "heap_ok c'" using ok h f(4) heap_ok_ext unfolding threads_ok_def by blast
    show "\<exists>x'. c_heap c' v = Some x' \<and> w_op x' = w_op x \<and>
        (w_disp x' = None \<longrightarrow> w_disp x = None \<and> (registered ?c v \<longrightarrow> registered c' v))"
      if hx: "c_heap ?c v = Some x" for v x
    proof -
      obtain x' where "c_heap c' v = Some x'" "w_op x' = w_op x"
        "w_disp x' = None \<longrightarrow> w_disp x = None \<and> v \<notin> set ws" by (rule heap_extD[OF h hx])
      then show ?thesis using reg by simp
    qed
  qed (auto simp: f map_of_delete_dict dest: l)
qed

lemma threads_ok_wake:
  assumes ok: "threads_ok s" and pc: "s_pc s op = Awaiting n w"
    and aw: "await_load cfg w (s_coord s) = (r, c')"
    and p: "same_role Idle p"
  shows "threads_ok (goto op p c' s)"
proof -
  let ?c = "s_coord s"
  note o = threads_okD[OF ok, of op, unfolded pc]
  obtain x where x: "c_heap ?c w = Some x" "w_op x = op"
    using op_okD(5)[OF o, of w] by (auto simp: awaits_def)
  have f: "c_intent c' = c_intent ?c" "c_pending c' = c_pending ?c" "c_heap_next c' = c_heap_next ?c"
    "c_live c' = AList.delete op (c_live ?c)"
    using aw x by (auto simp: await_load_def Let_def waiter_disp_def waiter_op_def assign_disposition_def
        set_waiter_def drop_waiter_def split: option.splits)
  have j: "joins c' = joins ?c \<or> joins c' = dict_map (\<lambda>(k, ws). (k, remove1 w ws)) (joins ?c)"
    using aw x by (auto simp: await_load_def Let_def drop_waiter_def joins_def dict_map_def split: option.splits)
  have h: "heap_ext [] (c_heap ?c) (c_heap c')"
    using aw x by (auto simp: await_load_def Let_def waiter_disp_def assign_disposition_def set_waiter_def
        drop_waiter_def heap_ext_def split: option.splits)
  have reg: "registered c' v" if v: "registered ?c v" and nv: "v \<noteq> w" for v
    using v unfolding registered_def f
  proof (elim disjE exE conjE)
    fix o' k ws
    assume a: "map_of (joins ?c) o' = Some (k, ws)" "v \<in> set ws"
    have "\<exists>ws'. map_of (joins c') o' = Some (k, ws') \<and> v \<in> set ws'"
      using j a nv by (elim disjE) simp_all
    then show "(\<exists>o' k ws. map_of (joins c') o' = Some (k, ws) \<and> v \<in> set ws) \<or>
        (\<exists>o' ws. map_of (c_pending ?c) o' = Some ws \<and> v \<in> set ws)" by blast
  qed blast
  have jf: "map_option fst (map_of (joins c') o') = map_option fst (map_of (joins ?c) o')" for o'
    using j by (elim disjE) (simp_all add: option.map_comp comp_def split_def)
  have pr: "loading_pc p = False" "custody p = None" "\<not> awaits p v" for v
    using p by (auto simp: same_role_def awaits_def)
  show ?thesis
  proof (rule threads_ok_local[OF ok])
    show "op_ok c' op (fst (s_ctx s op)) p"
      using op_okD(1,2,3)[OF o] pr jf[of op] by (intro op_okI_idle) (simp_all add: f map_of_delete_dict)
    show "heap_ok c'" using ok h f(3) heap_ok_ext unfolding threads_ok_def by blast
    show "\<exists>x'. c_heap c' v = Some x' \<and> w_op x' = w_op y \<and>
        (w_disp x' = None \<longrightarrow> w_disp y = None \<and> (registered ?c v \<longrightarrow> registered c' v))"
      if hy: "c_heap ?c v = Some y" and ne: "w_op y \<noteq> op" for v y
    proof -
      have "v \<noteq> w" using hy ne x by auto
      moreover obtain x' where "c_heap c' v = Some x'" "w_op x' = w_op y"
        "w_disp x' = None \<longrightarrow> w_disp y = None \<and> v \<notin> set []" by (rule heap_extD[OF h hy])
      ultimately show ?thesis using reg by simp
    qed
  qed (auto simp: f jf map_of_delete_dict split: if_splits)
qed

end
