(* ===== verification/CoordReach.thy ===== *)
theory CoordReach
  imports CoordThreads
begin

text \<open>
  The system invariant over all reachable states of the coordinator's threads: the coordinator's own
  invariant, the ownership invariant, the load gate, the claims the threads hold and the job barrier.
\<close>

section \<open>Claims stay accounted for\<close>

lemma held_shrinks: "shrinks c c' \<Longrightarrow> held c cl \<Longrightarrow> held c' cl"
  by (simp add: held_def shrinks_frame[of c c'])

lemma held_same: "c_claims c' = c_claims c \<Longrightarrow> c_released c' = c_released c \<Longrightarrow> held c' cl = held c cl"
  by (simp add: held_def)

lemma grant_claim_claims:
  assumes "grant_claim k op c = Some (cl, c')"
  shows "c_claims c' = AList.update k (insert (cl_id cl) (case map_of (c_claims c) k of None \<Rightarrow> {} | Some S \<Rightarrow> S))
           (c_claims c)" and "c_released c' = c_released c" and "cl_key cl = k" and "cl_op cl = op"
  using assms by (auto simp: grant_claim_def Let_def split: option.splits)

lemma held_grant_new: "grant_claim k op c = Some (cl, c') \<Longrightarrow> held c' cl"
  by (simp add: held_def grant_claim_claims map_of_update_dict)

lemma held_grant: "grant_claim k op c = Some (cl, c') \<Longrightarrow> held c x \<Longrightarrow> held c' x"
  by (auto simp: held_def grant_claim_claims map_of_update_dict)

lemma held_release: "held c x \<Longrightarrow> held (release_claim cl c) x"
  by (auto simp: held_def release_claim_def Let_def map_of_update_dict split: option.splits)

definition heap_held :: "coord \<Rightarrow> bool" where
  "heap_held c = (\<forall>w x d cl. c_heap c w = Some x \<longrightarrow> w_disp x = Some d \<longrightarrow> disp_claim d = Some cl \<longrightarrow> held c cl)"

lemma heap_held_same:
  "heap_held c \<Longrightarrow> c_heap c' = c_heap c \<Longrightarrow> (\<And>cl. held c cl \<Longrightarrow> held c' cl) \<Longrightarrow> heap_held c'"
  unfolding heap_held_def by metis

lemma heap_held_assign:
  assumes h: "heap_held c" and d: "\<And>cl. disp_claim d = Some cl \<Longrightarrow> held c cl"
  shows "heap_held (assign_disposition d w c)"
proof -
  have "held (assign_disposition d w c) cl = held c cl" for cl by (rule held_same) simp_all
  moreover have "c_heap (assign_disposition d w c) v = (if v = w then map_option (\<lambda>x. x\<lparr> w_disp := Some d \<rparr>) (c_heap c w)
      else c_heap c v)" for v by (simp add: assign_disposition_def set_waiter_def)
  ultimately show ?thesis using h d unfolding heap_held_def by (auto split: if_splits)
qed

lemma held_assign [simp]: "held (assign_disposition d w c) cl = held c cl"
  by (rule held_same) simp_all

lemma held_grant_waiters: "grant_waiters k ws c = Some c' \<Longrightarrow> held c cl \<Longrightarrow> held c' cl"
  by (induction k ws c rule: grant_waiters.induct) (auto split: option.splits dest: held_grant)

lemma heap_held_grant_waiters: "grant_waiters k ws c = Some c' \<Longrightarrow> heap_held c \<Longrightarrow> heap_held c'"
proof (induction k ws c rule: grant_waiters.induct)
  case (2 k w ws c)
  obtain cl c1 where g: "grant_claim k (waiter_op c w) c = Some (cl, c1)"
    and r: "grant_waiters k ws (assign_disposition (DOutcome (Share cl)) w c1) = Some c'"
    using 2(2) by (auto split: option.splits)
  have "heap_held c1"
    using heap_held_same[OF 2(3) tviewD(5)[OF tview_grant[OF g]]] held_grant[OF g] by blast
  then have "heap_held (assign_disposition (DOutcome (Share cl)) w c1)"
    using held_grant_new[OF g] by (intro heap_held_assign) auto
  then show ?case using 2(1)[OF g refl r] by blast
qed simp

lemma held_dispose_one [simp]: "held (dispose_one d c w) cl = held c cl"
  by (rule held_same) simp_all

lemma held_dispose [simp]: "held (dispose ws d op c) cl = held c cl"
  by (rule held_same) simp_all

lemma heap_held_dispose_one:
  "heap_held c \<Longrightarrow> (\<And>cl. disp_claim d = Some cl \<Longrightarrow> held c cl) \<Longrightarrow> heap_held (dispose_one d c w)"
proof -
  assume h: "heap_held c" and d: "\<And>cl. disp_claim d = Some cl \<Longrightarrow> held c cl"
  let ?c1 = "if waiter_disp c w = None then assign_disposition d w c else c"
  have "heap_held ?c1" using h d by (simp add: heap_held_assign)
  then show "heap_held (dispose_one d c w)"
    by (rule heap_held_same) (auto simp: dispose_one_def Let_def held_def)
qed

lemma heap_held_dispose:
  assumes h: "heap_held c" and d: "\<And>cl. disp_claim d = Some cl \<Longrightarrow> held c cl"
  shows "heap_held (dispose ws d op c)"
proof -
  have 1: "heap_held (foldl (dispose_one d) c ws)"
    using h d by (induction ws arbitrary: c) (simp_all add: heap_held_dispose_one)
  have ev: "heap_held (set_waiter w (\<lambda>x. x\<lparr> w_event := True \<rparr>) c)" if "heap_held c" for c w
  proof -
    have "held (set_waiter w (\<lambda>x. x\<lparr> w_event := True \<rparr>) c) cl = held c cl" for cl by (rule held_same) simp_all
    then show ?thesis using that unfolding heap_held_def by (auto simp: set_waiter_def split: if_splits)
  qed
  have 2: "heap_held (foldl (\<lambda>c w. set_waiter w (\<lambda>x. x\<lparr> w_event := True \<rparr>) c) c ws)" if "heap_held c" for c
    using that by (induction ws arbitrary: c) (simp_all add: ev)
  show ?thesis
    unfolding dispose_def Let_def
    by (rule 2, rule heap_held_same[OF 1]) (simp_all add: held_def)
qed

section \<open>What one attempt does\<close>

lemma serve_attempt_cases:
  assumes "serve_attempt cfg dev op k est n late f1 f2 f3 c = (p, c')"
  obtains (stay) obs ds where "c' = c\<lparr> c_observed := obs, c_decisions := ds \<rparr>"
      "p = AwaitingTransient n \<or> (\<exists>code ra. p = Done (Refuse code ra)) \<or>
       p = Aborted \<and> map_of (c_intent c) op \<noteq> None"
  | (share) cl c1 d where "stage1 cfg dev k est op f1 f2 f3 c = (Answer (Share cl) None, c1)"
      "grant_claim k op (observe OShare c) = Some (cl, c1)" "c' = log_decision d c1" "p = Done (Share cl)"
      "c_exclusive c = None" "\<not> c_barrier c"
  | (join) r w where "stage1 cfg dev k est op f1 f2 f3 c = (AwaitLoad w, c')"
      "join_load op r c = (w, c')" "reservation_for c k = Some r" "p = Awaiting n w"
  | (load) "stage1 cfg dev k est op f1 f2 f3 c = (Load, c')" "c' = reserve k est op c" "p = GateWait"
      "c_exclusive c = None" "\<not> c_barrier c"
  | (evict) vs ps d c1 where "stage1 cfg dev k est op f1 f2 f3 c = (EvictThenRetry ps, c1)"
      "vs = select_victims cfg dev k est f2 c"
      "c1 = observe OEvict ((mark_draining (map rm_key vs) c)
             \<lparr> c_intent := AList.update op (map rm_key vs) (c_intent c) \<rparr>)"
      "c' = log_decision d c1" "p = Evicting n (map rm_key vs) EvBegin"
proof (cases "int n > max_admission_attempts cfg \<or> late")
  case True
  then show ?thesis
    using assms by (intro stay[where obs = "c_observed c'" and ds = "c_decisions c'"])
      (auto simp: serve_attempt_def observe_def busy_def split: if_splits)
next
  case False
  obtain q c1 where s: "stage1 cfg dev k est op f1 f2 f3 c = (q, c1)" by force
  have a: "(case (q, c1) of
        (Answer oc ctx, c') \<Rightarrow> (Done oc, log_decision (answer_record cfg op k est n ctx) c')
      | (Load, c') \<Rightarrow> (GateWait, c')
      | (AwaitLoad w, c') \<Rightarrow> (Awaiting n w, c')
      | (AwaitTransient, c') \<Rightarrow> (AwaitingTransient n, c')
      | (EvictThenRetry vs, c') \<Rightarrow>
          (Evicting n (map fst vs) EvBegin, log_decision (evicted_record cfg op k est n vs) c')
      | (AssertionFailed, c') \<Rightarrow> (Aborted, c')
      | (KeyFailed, c') \<Rightarrow> (Aborted, c')) = (p, c')"
    using assms False s by (simp add: serve_attempt_def)
  from s show ?thesis
  proof (cases rule: stage1_cases)
    case stay
    then have "\<exists>obs. c1 = c\<lparr> c_observed := obs \<rparr>" by (auto simp: observe_def intro: exI[of _ "c_observed c"])
    then obtain obs where obs: "c1 = c\<lparr> c_observed := obs \<rparr>" by blast
    show ?thesis
      using stay(2) a obs
      by (intro that(1)[where obs = "c_observed c'" and ds = "c_decisions c'"])
        (auto simp: log_decision_def)
  next
    case (share cl)
    then show ?thesis using a s that(2)[of cl c1] by auto
  next
    case (join r w)
    then show ?thesis using a s that(3)[of w r] by auto
  next
    case load
    have pc: "p = GateWait" "c' = c1" using a load(2) by simp_all
    show ?thesis
    proof (rule that(4))
      show "stage1 cfg dev k est op f1 f2 f3 c = (Load, c')" using s load(2) pc(2) by simp
      show "c' = reserve k est op c" using load(1) pc(2) by simp
    qed (rule pc(1) load(4) load(5))+
  next
    case (evict vs)
    have "c' = log_decision (evicted_record cfg op k est n (map (\<lambda>v. (rm_key v, rm_accounted v)) vs)) c1"
      "p = Evicting n (map rm_key vs) EvBegin"
      using a evict(4) by (auto simp: comp_def)
    then show ?thesis by (rule that(5)[OF s[unfolded evict(4)] evict(1) evict(3)])
  qed
qed

section \<open>The system invariant\<close>

definition gate_ok :: "sys \<Rightarrow> bool" where
  "gate_ok s = (\<forall>op. (s_gate s = Some op) = gate_pc (s_pc s op))"

definition nums_ok :: "sys \<Rightarrow> bool" where
  "nums_ok s = (\<forall>op. pc_measure_ok (s_pc s op) \<and> 0 \<le> snd (s_ctx s op))"

definition claims_held :: "sys \<Rightarrow> bool" where
  "claims_held s = (heap_held (s_coord s) \<and>
     (\<forall>op cl. pc_claim (s_pc s op) = Some cl \<longrightarrow> held (s_coord s) cl))"

definition barrier_ok :: "sys \<Rightarrow> bool" where
  "barrier_ok s = ((c_barrier (s_coord s) \<longrightarrow> (\<exists>op. draining_pc (s_pc s op))) \<and>
     (\<forall>op. draining_pc (s_pc s op) \<longrightarrow> c_barrier (s_coord s) \<and> c_exclusive (s_coord s) = None) \<and>
     (\<forall>op1 op2. draining_pc (s_pc s op1) \<longrightarrow> draining_pc (s_pc s op2) \<longrightarrow> op1 = op2))"

definition sys_inv :: "sys \<Rightarrow> bool" where
  "sys_inv s = (coord_inv (s_coord s) \<and> threads_ok s \<and> gate_ok s \<and> nums_ok s \<and> claims_held s \<and>
     barrier_ok s \<and> (\<forall>op. s_pc s op \<noteq> Aborted))"

lemma sys_invD:
  assumes "sys_inv s"
  shows "coord_inv (s_coord s)" "threads_ok s" "gate_ok s" "nums_ok s" "claims_held s" "barrier_ok s"
    "s_pc s op \<noteq> Aborted"
  using assms by (simp_all add: sys_inv_def)

section \<open>Every event runs critical sections only\<close>

lemma sec_obs: "section_step cfg dev strict c (observe ob c)"
  using sec_observe[of cfg dev strict c "c_decisions c" "c_observed c @ [ob]"] by (simp add: observe_def)

lemma sec_log: "section_step cfg dev strict c (log_decision d c)"
  using sec_observe[of cfg dev strict c "c_decisions c @ [d]" "c_observed c"] by (simp add: log_decision_def)

lemma sections_one: "section_step cfg dev strict a b \<Longrightarrow> (section_step cfg dev strict)\<^sup>*\<^sup>* a b"
  by (rule r_into_rtranclp)

lemma sections_two:
  "section_step cfg dev strict a b \<Longrightarrow> section_step cfg dev strict b c \<Longrightarrow> (section_step cfg dev strict)\<^sup>*\<^sup>* a c"
  by (meson converse_rtranclp_into_rtranclp r_into_rtranclp)

lemma sections_evict_step:
  assumes "evict_step k ph late c = (r, c')"
  shows "(section_step cfg dev strict)\<^sup>*\<^sup>* c c'"
proof (cases ph)
  case EvBegin
  then show ?thesis using assms
    by (auto simp: evict_step_def split: option.splits intro: sections_one[OF sec_evict_begin])
next
  case EvWait
  obtain q c1 where "evict_check k late c = (q, c1)" by force
  then show ?thesis using assms EvWait
    by (auto simp: evict_step_def split: evict_step.splits intro: sections_one[OF sec_evict_check])
next
  case EvFinal
  then show ?thesis using assms by (auto simp: evict_step_def intro: sections_one[OF sec_drop])
qed (use assms in \<open>simp add: evict_step_def\<close>)

lemma no_reservation:
  assumes "threads_ok s" "\<not> loading_pc (s_pc s op)"
  shows "map_of (c_reservations (s_coord s)) op = None"
  using op_okD(1)[OF threads_okD[OF assms(1)], of op] assms(2) by (simp add: joins_def)

lemma sections_serve:
  assumes "serve_attempt cfg dev op k est n late f1 f2 f3 c = (p, c')" "0 \<le> est"
    "map_of (c_reservations c) op = None"
  shows "(section_step cfg dev strict)\<^sup>*\<^sup>* c c'"
  using assms(1)
proof (cases rule: serve_attempt_cases)
  case (stay obs ds)
  then show ?thesis by (simp add: sections_one sec_observe)
next
  case (share cl c1 d)
  show ?thesis unfolding share(3) by (rule sections_two[OF sec_stage1[OF share(1) assms(2,3)] sec_log])
next
  case (join r w)
  show ?thesis by (rule sections_one[OF sec_stage1[OF join(1) assms(2,3)]])
next
  case load
  show ?thesis by (rule sections_one[OF sec_stage1[OF load(1) assms(2,3)]])
next
  case (evict vs ps d c1)
  show ?thesis unfolding evict(4) by (rule sections_two[OF sec_stage1[OF evict(1) assms(2,3)] sec_log])
qed

lemma sections_dispose_failed:
  "(section_step cfg dev strict)\<^sup>*\<^sup>* c (dispose ws d op (log_decision rec (observe ob c)))"
  by (rule converse_rtranclp_into_rtranclp[OF sec_obs sections_two[OF sec_log sec_dispose]])

lemma tstep_sections:
  assumes inv: "sys_inv s" and ok: "event_ok strict e s" and st: "tstep cfg dev e s = Some s'"
  shows "(section_step cfg dev strict)\<^sup>*\<^sup>* (s_coord s) (s_coord s')"
proof (cases e)
  case (Start op k est)
  then show ?thesis using st by (auto split: pc.splits)
next
  case (StartJob op j)
  then show ?thesis using st by (auto split: pc.splits option.splits intro: sections_one[OF sec_job_mark])
next
  case (Serve op late f1 f2 f3)
  then obtain n where pc: "s_pc s op = Attempt n" using st by (auto split: pc.splits)
  obtain p c' where sa: "serve_attempt cfg dev op (fst (s_ctx s op)) (snd (s_ctx s op)) n late f1 f2 f3 (s_coord s) = (p, c')"
    by force
  have "s_coord s' = c'" using st Serve pc sa by (auto simp: split_def Let_def)
  moreover have "map_of (c_reservations (s_coord s)) op = None"
    using no_reservation[OF sys_invD(2)[OF inv]] pc by simp
  moreover have "0 \<le> snd (s_ctx s op)" using sys_invD(4)[OF inv] by (simp add: nums_ok_def)
  ultimately show ?thesis using sections_serve[OF sa] by blast
next
  case (Commit op f3)
  then obtain ch m d where pc: "s_pc s op = Committing ch m d" using st by (auto split: pc.splits)
  obtain r c' where c: "commit cfg dev (fst (s_ctx s op)) op ch m d f3 (s_coord s) = (r, c')" by force
  have "s_coord s' = c'" using st Commit pc c by (auto split: commit_result.splits)
  moreover have "0 \<le> m" using sys_invD(4)[OF inv] pc by (metis nums_ok_def pc_measure_ok.simps(2))
  ultimately show ?thesis using sec_commit[OF c] sections_one by blast
next
  case (Reconcile op)
  then obtain ch m d where pc: "s_pc s op = Measured ch m d" using st by (auto split: pc.splits)
  have "0 \<le> m" using sys_invD(4)[OF inv] pc by (metis nums_ok_def pc_measure_ok.simps(1))
  then show ?thesis using st Reconcile pc by (auto intro: sections_one[OF sec_reconcile])
next
  case (FailSection op)
  then show ?thesis using st
    by (auto split: pc.splits prod.splits simp: Let_def intro: sections_one[OF sec_load_failed])
next
  case (Dispose op)
  then show ?thesis using st
    by (auto split: pc.splits intro: sections_one[OF sec_dispose] sections_two[OF sec_dispose sec_log]
        sections_dispose_failed)
next
  case (Finalize op)
  then show ?thesis using st by (auto split: pc.splits intro: sections_one[OF sec_drop])
next
  case (Wake op)
  then show ?thesis using st by (auto split: pc.splits prod.splits option.splits intro: sections_one[OF sec_await])
next
  case (EvictTick op late)
  then show ?thesis using st
    by (auto split: pc.splits list.splits prod.splits option.splits
        intro: sections_one[OF sec_clear] sections_evict_step)
next
  case (JobTick op late now)
  then show ?thesis using st
    by (auto split: pc.splits list.splits prod.splits option.splits simp: Let_def
        intro: sections_one[OF sec_job_finish] sections_evict_step)
next
  case (Forget k)
  then show ?thesis using st by (auto intro!: sections_one[OF sec_forget[of k _ "fst (forget k (s_coord s))"]])
next
  case (Release op)
  have "held (s_coord s) cl" if "pc_claim (s_pc s op) = Some cl" for cl
    using sys_invD(5)[OF inv] that by (simp add: claims_held_def)
  then show ?thesis using st Release
    by (auto split: pc.splits outcome.splits simp: held_def intro!: sections_one[OF sec_release])
next
  case (EndJob j)
  then show ?thesis using st by (auto intro: sections_one[OF sec_end_job])
next
  case (SetChild k pid m)
  have "section_step cfg dev strict (s_coord s) (set_child k pid m (s_coord s))"
    using ok SetChild by (intro sec_set_child) auto
  then show ?thesis using st SetChild by (auto intro: sections_one)
next
  case (LoadReturns op r)
  then show ?thesis using st by (auto split: pc.splits load_result.splits simp: Let_def)
qed (use st in \<open>auto split: pc.splits if_splits\<close>)

section \<open>The barrier\<close>

definition bview :: "coord \<Rightarrow> bool \<times> (string \<times> rat) option" where
  "bview c = (c_barrier c, c_exclusive c)"

lemma bview_serve: "serve_attempt cfg dev op k est n late f1 f2 f3 c = (p, c') \<Longrightarrow> bview c' = bview c"
  by (erule serve_attempt_cases)
    (auto simp: bview_def grant_claim_def join_load_def reserve_def mark_draining_def observe_def
      log_decision_def Let_def split: option.splits)

lemma bview_commit: "commit cfg dev k op ch m d f3 c = (r, c') \<Longrightarrow> bview c' = bview c"
  by (erule commit_cases)
    (auto simp: bview_def rollback_section_def observe_def grant_claim_def Let_def
      dest!: grant_waiters_frame split: option.splits)

lemma bview_evict: "evict_step k ph late c = (r, c') \<Longrightarrow> bview c' = bview c"
  by (auto simp: bview_def evict_step_def evict_begin_def evict_check_def drop_resident_def bump_generation_def
      split: evphase.splits option.splits if_splits prod.splits evict_step.splits)

lemma bview_await: "await_load cfg w c = (r, c') \<Longrightarrow> bview c' = bview c"
  by (auto simp: bview_def await_load_def drop_waiter_def Let_def split: option.splits)

lemma bview_load_failed: "load_failed k op c = (ws, c') \<Longrightarrow> bview c' = bview c"
  by (auto simp: bview_def load_failed_def bump_generation_def Let_def split: option.splits if_splits)

lemma bview_simps [simp]:
  "bview (observe ob c) = bview c" "bview (log_decision d c) = bview c" "bview (dispose ws d' op c) = bview c"
  "bview (drop_resident k c) = bview c" "bview (clear_intent op c) = bview c"
  "bview (reconcile op m df c) = bview c" "bview (release_claim cl c) = bview c"
  "bview (set_child k pid ms c) = bview c" "bview (snd (forget k c)) = bview c"
  by (auto simp: bview_def observe_def log_decision_def drop_resident_def bump_generation_def clear_intent_def
      reconcile_def release_claim_def set_child_def forget_def Let_def split: option.splits)

lemma barrier_ok_goto:
  assumes "barrier_ok s" "bview c' = bview (s_coord s)" "draining_pc (s_pc s op) = draining_pc p"
  shows "barrier_ok (goto op p c' s)"
proof -
  have "draining_pc (((s_pc s)(op := p)) o') = draining_pc (s_pc s o')" for o' using assms(3) by simp
  then show ?thesis using assms(1,2) unfolding barrier_ok_def bview_def by (simp del: fun_upd_apply)
qed

lemma barrier_ok_ctx [simp]: "barrier_ok (s\<lparr> s_ctx := x \<rparr>) = barrier_ok s" "barrier_ok (s\<lparr> s_gate := g \<rparr>) = barrier_ok s"
  by (simp_all add: barrier_ok_def)

lemma barrier_ok_coord: "barrier_ok s \<Longrightarrow> bview c' = bview (s_coord s) \<Longrightarrow> barrier_ok (s\<lparr> s_coord := c' \<rparr>)"
  by (simp add: barrier_ok_def bview_def)

lemma barrier_ok_mark:
  assumes ok: "barrier_ok s" and m: "job_mark (s_coord s) = Some c'"
  shows "barrier_ok (goto op JobScan c' s)"
proof -
  have "\<not> c_barrier (s_coord s)" "c_exclusive (s_coord s) = None" "c_barrier c'" "c_exclusive c' = None"
    using m by (cases "c_exclusive (s_coord s)"; auto simp: job_mark_def split: if_splits)+
  then show ?thesis using ok by (auto simp: barrier_ok_def)
qed

lemma barrier_ok_finish:
  assumes ok: "barrier_ok s" and pc: "draining_pc (s_pc s op)" "\<not> draining_pc p"
    and f: "job_finish j now d (s_coord s) = (b, c')"
  shows "barrier_ok (goto op p c' s)"
proof -
  have "\<not> c_barrier c'" using f by (auto simp: job_finish_def split: if_splits)
  moreover have "\<not> draining_pc (s_pc s o')" if "o' \<noteq> op" for o' using ok pc(1) that by (auto simp: barrier_ok_def)
  ultimately show ?thesis using pc(2) by (auto simp: barrier_ok_def)
qed

lemma barrier_ok_end_job: "barrier_ok s \<Longrightarrow> barrier_ok (s\<lparr> s_coord := end_job j (s_coord s) \<rparr>)"
  by (auto simp: barrier_ok_def end_job_def split: option.splits)

lemma serve_attempt_pc:
  "serve_attempt cfg dev op k est n late f1 f2 f3 c = (p, c') \<Longrightarrow>
   \<not> draining_pc p \<and> \<not> gate_pc p \<and> pc_measure_ok p \<and> custody p = None"
  by (erule serve_attempt_cases) auto

lemma barrier_ok_step:
  assumes ok: "barrier_ok s" and st: "tstep cfg dev e s = Some s'"
  shows "barrier_ok s'"
proof (cases e)
  case (StartJob op j)
  then have "s_pc s op = Idle" using st by (auto split: pc.splits)
  then have "barrier_ok (goto op (JobDone False) (s_coord s) s)" by (intro barrier_ok_goto[OF ok]) simp_all
  then show ?thesis using st StartJob ok
    by (auto split: pc.splits option.splits intro: barrier_ok_mark)
next
  case (Serve op late f1 f2 f3)
  then show ?thesis using st ok
    by (auto split: pc.splits prod.splits simp: Let_def
        intro!: barrier_ok_goto dest: bview_serve serve_attempt_pc)
next
  case (Commit op f3)
  then show ?thesis using st ok
    by (auto split: pc.splits prod.splits commit_result.splits intro!: barrier_ok_goto dest: bview_commit)
next
  case (JobTick op late now)
  show ?thesis
  proof (cases "\<exists>d. s_pc s op = JobFinish d")
    case True
    then show ?thesis using st ok JobTick
      by (auto split: prod.splits simp: Let_def intro!: barrier_ok_finish)
  next
    case False
    then show ?thesis using st ok JobTick
      by (auto split: pc.splits list.splits prod.splits option.splits simp: Let_def drain_scan_def
          intro!: barrier_ok_goto dest: bview_evict)
  qed
next
  case (Forget k)
  then show ?thesis using st ok by (auto intro: barrier_ok_coord)
next
  case (Release op)
  then show ?thesis using st ok by (auto split: pc.splits outcome.splits intro: barrier_ok_coord)
next
  case (EndJob j)
  then show ?thesis using st ok by (auto intro: barrier_ok_end_job)
next
  case (SetChild k pid m)
  then show ?thesis using st ok by (auto intro: barrier_ok_coord)
qed (use st ok in \<open>auto split: pc.splits prod.splits list.splits option.splits load_result.splits if_splits
      simp: Let_def intro!: barrier_ok_goto dest: bview_evict bview_await bview_load_failed\<close>)

section \<open>The gate, the readings\<close>

lemma gate_ok_goto:
  "gate_ok s \<Longrightarrow> gate_pc (s_pc s op) = gate_pc p \<Longrightarrow> gate_ok (goto op p c' s)"
  by (auto simp: gate_ok_def)

lemma gate_ok_take:
  "gate_ok s \<Longrightarrow> s_gate s = None \<Longrightarrow> gate_pc p \<Longrightarrow> gate_ok ((goto op p c' s)\<lparr> s_gate := Some op \<rparr>)"
  by (auto simp: gate_ok_def)

lemma gate_ok_leave:
  "gate_ok s \<Longrightarrow> gate_pc (s_pc s op) \<Longrightarrow> \<not> gate_pc p \<Longrightarrow> gate_ok ((goto op p c' s)\<lparr> s_gate := None \<rparr>)"
  unfolding gate_ok_def by (auto, metis option.inject)

lemma gate_ok_frame [simp]: "gate_ok (s\<lparr> s_ctx := x \<rparr>) = gate_ok s" "gate_ok (s\<lparr> s_coord := c \<rparr>) = gate_ok s"
  by (simp_all add: gate_ok_def)

lemma gate_ok_step:
  assumes ok: "gate_ok s" and st: "tstep cfg dev e s = Some s'"
  shows "gate_ok s'"
proof (cases e)
  case (Serve op late f1 f2 f3)
  then show ?thesis using st ok
    by (auto split: pc.splits prod.splits simp: Let_def intro!: gate_ok_goto dest: serve_attempt_pc)
qed (use st ok in \<open>auto split: pc.splits prod.splits list.splits option.splits load_result.splits if_splits
      commit_result.splits outcome.splits simp: Let_def drain_scan_def
      intro!: gate_ok_goto gate_ok_take gate_ok_leave\<close>)

lemma nums_ok_goto: "nums_ok s \<Longrightarrow> pc_measure_ok p \<Longrightarrow> nums_ok (goto op p c' s)"
  by (auto simp: nums_ok_def)

lemma nums_ok_frame [simp]: "nums_ok (s\<lparr> s_gate := x \<rparr>) = nums_ok s" "nums_ok (s\<lparr> s_coord := c \<rparr>) = nums_ok s"
  by (simp_all add: nums_ok_def)

lemma nums_ok_step:
  assumes ok: "nums_ok s" and ev: "event_ok strict e s" and st: "tstep cfg dev e s = Some s'"
  shows "nums_ok s'"
proof (cases e)
  case (Start op k est)
  then show ?thesis using st ok ev by (auto simp: nums_ok_def split: pc.splits)
next
  case (StartJob op j)
  then show ?thesis using st ok by (auto simp: nums_ok_def split: pc.splits option.splits)
next
  case (Serve op late f1 f2 f3)
  then show ?thesis using st ok
    by (auto split: pc.splits prod.splits simp: Let_def intro!: nums_ok_goto dest: serve_attempt_pc)
next
  case (LoadReturns op r)
  then obtain ch m where "r = Loaded ch m \<or> r = LoadRaised None \<or> (\<exists>c. r = LoadRaised c)"
    by (cases r) auto
  moreover have "0 \<le> snd (s_ctx s op)" using ok by (simp add: nums_ok_def)
  ultimately show ?thesis using st ok ev LoadReturns
    by (cases r) (auto split: pc.splits simp: Let_def intro!: nums_ok_goto)
next
  case (Reconcile op)
  then obtain ch m d where "s_pc s op = Measured ch m d" using st by (auto split: pc.splits)
  moreover from this have "0 \<le> m" using ok by (metis nums_ok_def pc_measure_ok.simps(1))
  ultimately show ?thesis using st ok Reconcile by (auto intro!: nums_ok_goto)
qed (use st ok in \<open>auto split: pc.splits prod.splits list.splits option.splits if_splits
      commit_result.splits outcome.splits simp: Let_def drain_scan_def intro!: nums_ok_goto\<close>)

section \<open>The claims\<close>

lemma claims_held_goto:
  assumes "claims_held s" "heap_held c'" "\<And>cl. held (s_coord s) cl \<Longrightarrow> held c' cl"
    and "\<And>cl. pc_claim p = Some cl \<Longrightarrow> held c' cl"
  shows "claims_held (goto op p c' s)"
  using assms by (auto simp: claims_held_def)

lemma claims_held_frame [simp]:
  "claims_held (s\<lparr> s_gate := x \<rparr>) = claims_held s" "claims_held (s\<lparr> s_ctx := y \<rparr>) = claims_held s"
  by (simp_all add: claims_held_def)

lemma claims_held_quiet:
  assumes "claims_held s" "tview c' = tview (s_coord s)" "\<And>cl. held (s_coord s) cl \<Longrightarrow> held c' cl"
    and "pc_claim p = None \<or> pc_claim p = pc_claim (s_pc s op)"
  shows "claims_held (goto op p c' s)"
proof (rule claims_held_goto[OF assms(1) _ assms(3)])
  show "heap_held c'"
    using heap_held_same[OF _ tviewD(5)[OF assms(2)]] assms(1,3) unfolding claims_held_def by blast
  show "held c' cl" if "pc_claim p = Some cl" for cl
    using that assms(1,3,4) unfolding claims_held_def by auto
qed

lemma claims_held_coord:
  assumes "claims_held s" "tview c' = tview (s_coord s)" "\<And>cl. held (s_coord s) cl \<Longrightarrow> held c' cl"
  shows "claims_held (s\<lparr> s_coord := c' \<rparr>)"
  using heap_held_same[OF _ tviewD(5)[OF assms(2)]] assms unfolding claims_held_def by auto

lemma held_evict_step: "evict_step k ph late c = (r, c') \<Longrightarrow> held c cl \<Longrightarrow> held c' cl"
  by (auto simp: evict_step_def intro: held_shrinks shrinks_drop
      split: evphase.splits option.splits prod.splits evict_step.splits
      dest: shrinks_evict_begin shrinks_evict_check)

lemma held_simps [simp]:
  "held (observe ob c) cl = held c cl" "held (log_decision d c) cl = held c cl"
  "held (clear_intent op c) cl = held c cl" "held (set_child k pid m c) cl = held c cl"
  "held (reconcile op x df c) cl = held c cl" "held (drop_resident k c) cl = held c cl"
  "held (end_job j c) cl = held c cl" "held (mark_draining ks c) cl = held c cl"
  by (auto simp: held_def observe_def log_decision_def clear_intent_def set_child_def reconcile_def
      drop_resident_def bump_generation_def end_job_def mark_draining_def split: option.splits)

lemma held_forget [simp]: "held (snd (forget k c)) cl = held c cl"
  by (simp add: forget_def)

lemma held_job: "job_mark c = Some c' \<Longrightarrow> held c' cl = held c cl" "job_finish j now d c = (b, c') \<Longrightarrow> held c' cl = held c cl"
  by (auto simp: job_mark_def job_finish_def held_def split: if_splits)

lemma heap_held_cong: "c_heap c' = c_heap c \<Longrightarrow> c_claims c' = c_claims c \<Longrightarrow> c_released c' = c_released c \<Longrightarrow>
    heap_held c' = heap_held c"
  by (simp add: heap_held_def held_def)

lemma claims_held_serve:
  assumes ok: "claims_held s" and hp: "heap_ok (s_coord s)"
    and sa: "serve_attempt cfg dev op k est n late f1 f2 f3 (s_coord s) = (p, c')"
  shows "claims_held (goto op p c' s)"
  using sa
proof (cases rule: serve_attempt_cases)
  case (stay obs ds)
  have "tview c' = tview (s_coord s)" unfolding stay(1) by (rule tviewI) simp_all
  then show ?thesis using stay by (intro claims_held_quiet[OF ok]) (auto simp: held_def)
next
  case (share cl c1 d)
  have h: "held (s_coord s) x \<Longrightarrow> held c' x" for x using held_grant[OF share(2)] share(3) by simp
  have "c_heap c' = c_heap (s_coord s)"
    using tviewD(5)[OF tview_grant[OF share(2)]] share(3) by (simp add: log_decision_def observe_def)
  then have "heap_held c'" using ok h heap_held_same[of "s_coord s" c'] unfolding claims_held_def by blast
  then show ?thesis using held_grant_new[OF share(2)] share(3,4) h by (intro claims_held_goto[OF ok]) auto
next
  case (join r w)
  have f: "c_claims c' = c_claims (s_coord s)" "c_released c' = c_released (s_coord s)"
    "c_heap c' = (c_heap (s_coord s))(w \<mapsto> \<lparr> w_op = op, w_event = False, w_disp = None \<rparr>)"
    using join(2) by (auto simp: join_load_def Let_def)
  have "heap_held c'" using ok unfolding claims_held_def heap_held_def held_def f by (auto split: if_splits)
  then show ?thesis using join(4) f by (intro claims_held_goto[OF ok]) (auto simp: held_def)
next
  case load
  have f: "c_claims c' = c_claims (s_coord s)" "c_released c' = c_released (s_coord s)" "c_heap c' = c_heap (s_coord s)"
    using load(2) by (auto simp: reserve_def Let_def)
  have "heap_held c'" using ok heap_held_cong[OF f(3,1,2)] by (simp add: claims_held_def)
  then show ?thesis using load(3) f by (intro claims_held_goto[OF ok]) (auto simp: held_def)
next
  case (evict vs ps d c1)
  have f: "c_claims c' = c_claims (s_coord s)" "c_released c' = c_released (s_coord s)" "c_heap c' = c_heap (s_coord s)"
    using evict(3,4) by (auto simp: mark_draining_def observe_def log_decision_def)
  have "heap_held c'" using ok heap_held_cong[OF f(3,1,2)] by (simp add: claims_held_def)
  then show ?thesis using evict(5) f by (intro claims_held_goto[OF ok]) (auto simp: held_def)
qed

lemma claims_held_commit:
  assumes ok: "claims_held s" and pc: "s_pc s op = Committing ch m d"
    and c: "commit cfg dev k op ch m d f3 (s_coord s) = (r, c')"
  shows "case r of Committed cl b ws \<Rightarrow> claims_held (goto op (GrantDispose ws cl b m) c' s)
    | RollBack d ws \<Rightarrow> claims_held (goto op (RollUnload ws d) c' s) | CommitKeyError \<Rightarrow> True"
  using c
proof (cases rule: commit_cases)
  case lost
  have "claims_held (goto op (RollUnload [] (DOutcome (busy cfg))) (s_coord s) s)"
    by (rule claims_held_quiet[OF ok]) (simp_all add: busy_def)
  then show ?thesis using lost by simp
next
  case (roll x dd why)
  have f: "c_claims c' = c_claims (s_coord s)" "c_released c' = c_released (s_coord s)" "c_heap c' = c_heap (s_coord s)"
    using roll(3) by (simp_all add: rollback_section_def observe_def)
  have "heap_held c'" using ok heap_held_cong[OF f(3,1,2)] by (simp add: claims_held_def)
  then have "claims_held (goto op (RollUnload (rv_waiters x) dd) c' s)"
    using f roll(4) by (intro claims_held_goto[OF ok]) (auto simp: held_def)
  then show ?thesis using roll(2) by simp
next
  case (commit x e cl b c1 c2 c4)
  have c1: "c_claims c1 = c_claims (s_coord s)" "c_released c1 = c_released (s_coord s)" "c_heap c1 = c_heap (s_coord s)"
    using commit(7) by simp_all
  have h1: "heap_held c1" using ok heap_held_cong[OF c1(3,1,2)] by (simp add: claims_held_def)
  have "heap_held c2" using heap_held_same[OF h1 tviewD(5)[OF tview_grant[OF commit(8)]]] held_grant[OF commit(8)] by blast
  then have h4: "heap_held c4" by (rule heap_held_grant_waiters[OF commit(9)])
  have f: "c_claims c' = c_claims c4" "c_released c' = c_released c4" "c_heap c' = c_heap c4"
    using commit(10) by (simp_all add: observe_def)
  have h': "heap_held c'" using h4 heap_held_cong[OF f(3,1,2)] by simp
  have m: "held (s_coord s) y \<Longrightarrow> held c' y" for y
    using held_grant_waiters[OF commit(9) held_grant[OF commit(8)]] held_same[OF c1(1,2)] held_same[OF f(1,2)] by simp
  have n: "held c' cl" using held_grant_waiters[OF commit(9) held_grant_new[OF commit(8)]] held_same[OF f(1,2)] by simp
  have "claims_held (goto op (GrantDispose (rv_waiters x) cl b m) c' s)"
    using h' m n by (intro claims_held_goto[OF ok]) auto
  then show ?thesis using commit(11) by simp
qed simp

lemma claims_held_dispose:
  assumes ok: "claims_held s" and d: "\<And>cl. disp_claim d = Some cl \<Longrightarrow> held (s_coord s) cl"
    and p: "\<And>cl. pc_claim p = Some cl \<Longrightarrow> held (s_coord s) cl"
    and same: "c_heap cc = c_heap (s_coord s)" "c_claims cc = c_claims (s_coord s)" "c_released cc = c_released (s_coord s)"
    and same': "c_heap c' = c_heap (dispose ws d op cc)" "c_claims c' = c_claims (s_coord s)"
      "c_released c' = c_released (s_coord s)"
  shows "claims_held (goto op p c' s)"
proof -
  have h: "held cc x = held (s_coord s) x" "held c' x = held (s_coord s) x" for x
    using same same' by (simp_all add: held_def)
  have "heap_held cc" using ok heap_held_cong[OF same] by (simp add: claims_held_def)
  then have "heap_held (dispose ws d op cc)" using d h by (intro heap_held_dispose) auto
  then have "heap_held c'" using heap_held_cong[OF same'(1)] same same' by simp
  then show ?thesis using p h by (intro claims_held_goto[OF ok]) auto
qed

lemma claims_held_wake:
  assumes ok: "claims_held s" and aw: "await_load cfg w (s_coord s) = (r, c')"
    and p: "case r of None \<Rightarrow> pc_claim p = None | Some oc \<Rightarrow> p = Done oc"
  shows "claims_held (goto op p c' s)"
proof (cases "waiter_disp (s_coord s) w")
  case None
  let ?c1 = "assign_disposition (DOutcome (busy cfg)) w (drop_waiter w (s_coord s))"
  have e: "r = Some (busy cfg)" "c' = ?c1\<lparr> c_live := AList.delete (waiter_op ?c1 w) (c_live ?c1) \<rparr>"
    using aw None by (simp_all add: await_load_def Let_def)
  have "heap_held (drop_waiter w (s_coord s))"
    using ok heap_held_cong[of "drop_waiter w (s_coord s)" "s_coord s"] by (simp add: claims_held_def drop_waiter_def)
  then have "heap_held ?c1" by (rule heap_held_assign) (simp add: busy_def)
  then have "heap_held c'" using heap_held_cong[of c' ?c1] e by simp
  moreover have "held (s_coord s) cl \<Longrightarrow> held c' cl" for cl using e by (simp add: held_def drop_waiter_def)
  ultimately show ?thesis using p e(1) by (intro claims_held_goto[OF ok]) (auto simp: busy_def)
next
  case (Some d)
  have e: "r = (case waiter_outcome d of DOutcome oc \<Rightarrow> Some oc | RETRY \<Rightarrow> None)"
    "c' = (s_coord s)\<lparr> c_live := AList.delete (waiter_op (s_coord s) w) (c_live (s_coord s)) \<rparr>"
    using aw Some by (simp_all add: await_load_def)
  have hh: "heap_held (s_coord s)" using ok by (simp add: claims_held_def)
  obtain x where x: "c_heap (s_coord s) w = Some x" "w_disp x = Some d"
    using Some by (auto simp: waiter_disp_def split: option.splits)
  have dh: "held (s_coord s) cl" if "disp_claim d = Some cl" for cl
    using hh x that unfolding heap_held_def by blast
  have hc: "held c' cl = held (s_coord s) cl" for cl using e(2) by (simp add: held_def)
  have "heap_held c'" using hh heap_held_cong[of c' "s_coord s"] e(2) by simp
  moreover have "held c' cl" if pcl: "pc_claim p = Some cl" for cl
  proof -
    obtain oc where oc: "p = Done oc" "waiter_outcome d = DOutcome oc"
      using pcl p e(1) by (auto split: option.splits disposition.splits)
    then have "d = DOutcome oc" by (cases d rule: waiter_outcome.cases) (auto split: if_splits)
    then show ?thesis using pcl oc(1) dh hc by (cases oc) auto
  qed
  ultimately show ?thesis using hc by (intro claims_held_goto[OF ok]) auto
qed

lemma claims_held_step:
  assumes inv: "sys_inv s" and st: "tstep cfg dev e s = Some s'"
  shows "claims_held s'"
proof -
  note ok = sys_invD(5)[OF inv]
  have pcl: "pc_claim (s_pc s op) = Some cl \<Longrightarrow> held (s_coord s) cl" for op cl
    using ok by (simp add: claims_held_def)
  show ?thesis
  proof (cases e)
    case (StartJob op j)
    then show ?thesis using st ok
      by (auto split: pc.splits option.splits intro!: claims_held_quiet simp: tview_job_mark held_job)
  next
    case (Serve op late f1 f2 f3)
    have "heap_ok (s_coord s)" using sys_invD(2)[OF inv] by (simp add: threads_ok_def)
    then show ?thesis using st ok Serve
      by (auto split: pc.splits prod.splits simp: Let_def intro: claims_held_serve)
  next
    case (Commit op f3)
    then obtain ch m d where pc: "s_pc s op = Committing ch m d" using st by (auto split: pc.splits)
    obtain r c' where c: "commit cfg dev (fst (s_ctx s op)) op ch m d f3 (s_coord s) = (r, c')" by force
    have "r \<noteq> CommitKeyError \<Longrightarrow> claims_held s'"
      using claims_held_commit[OF ok pc c] st Commit pc c by (auto split: commit_result.splits)
    moreover have "r = CommitKeyError \<Longrightarrow> claims_held s'"
    proof -
      assume r: "r = CommitKeyError"
      from c have "c' = s_coord s" by (rule commit_cases) (use r in auto)
      then have "s' = goto op Aborted (s_coord s) s" using st Commit pc c r by simp
      then show "claims_held s'" by (simp add: claims_held_quiet[OF ok])
    qed
    ultimately show ?thesis by blast
  next
    case (FailSection op)
    then obtain ch where pc: "s_pc s op = FailDrop ch" using st by (auto split: pc.splits)
    obtain ws c' where l: "load_failed (fst (s_ctx s op)) op (s_coord s) = (ws, c')" by force
    have f: "c_heap c' = c_heap (s_coord s)" "c_claims c' = c_claims (s_coord s)" "c_released c' = c_released (s_coord s)"
      using l by (auto simp: load_failed_def Let_def bump_generation_def split: option.splits if_splits)
    have "heap_held c'" using ok heap_held_cong[OF f] by (simp add: claims_held_def)
    then show ?thesis using st FailSection pc l f
      by (auto simp: held_def split: if_splits intro!: claims_held_goto[OF ok])
  next
    case (Dispose op)
    have g: "claims_held (goto op (Done (rollback_answer cfg d)) (dispose ws d op (s_coord s)) s)"
      if "s_pc s op = RollDispose ws d" for ws d
    proof (rule claims_held_dispose[OF ok, where cc = "s_coord s"])
      show dh: "held (s_coord s) cl" if "disp_claim d = Some cl" for cl
        using pcl[of op cl] \<open>s_pc s op = RollDispose ws d\<close> that by simp
      show "held (s_coord s) cl" if "pc_claim (Done (rollback_answer cfg d)) = Some cl" for cl
        using that dh by (cases d rule: disp_claim.cases) (auto simp: rollback_answer_def busy_def)
    qed simp_all
    have gr: "claims_held (goto op (Done (Grant cl))
        (log_decision rec (dispose ws (DOutcome (Grant cl)) op (s_coord s))) s)"
      if "s_pc s op = GrantDispose ws cl b m" for ws cl b m rec
      using pcl[of op cl] that
      by (intro claims_held_dispose[OF ok, where cc = "s_coord s" and d = "DOutcome (Grant cl)" and ws = ws])
        (simp_all add: log_decision_def)
    have fl: "claims_held (goto op (Done fail_outcome)
        (dispose ws (DOutcome fail_outcome) op (log_decision rec (observe ob (s_coord s)))) s)" for ws rec ob
      by (intro claims_held_dispose[OF ok, where cc = "log_decision rec (observe ob (s_coord s))"
            and d = "DOutcome fail_outcome" and ws = ws])
        (simp_all add: fail_outcome_def log_decision_def observe_def)
    show ?thesis using st Dispose g gr fl by (auto split: pc.splits)
  next
    case (Wake op)
    then show ?thesis using st
      by (auto split: pc.splits prod.splits option.splits intro!: claims_held_wake[OF ok])
  next
    case (EvictTick op late)
    have "tview (clear_intent op (s_coord s)) = tview (s_coord s)" if "c_intent (clear_intent op (s_coord s)) = c_intent (s_coord s)"
      using that by (intro tviewI) (simp_all add: clear_intent_def)
    have ci: "claims_held (goto op (BackingOff n) (clear_intent op (s_coord s)) s)" for n
      using ok heap_held_cong[of "clear_intent op (s_coord s)" "s_coord s"]
      by (intro claims_held_goto[OF ok]) (auto simp: claims_held_def clear_intent_def held_def)
    show ?thesis using st EvictTick ok
      by (auto split: pc.splits list.splits prod.splits option.splits
          intro!: ci claims_held_quiet dest: tview_evict_step held_evict_step)
  next
    case (JobTick op late now)
    then show ?thesis using st ok
      by (auto split: pc.splits list.splits prod.splits option.splits simp: Let_def drain_scan_def held_job
          intro!: claims_held_quiet dest: tview_evict_step held_evict_step tview_job_finish)
  next
    case (Forget k)
    then show ?thesis using st ok by (auto intro: claims_held_coord)
  next
    case (Release op)
    then show ?thesis using st ok
      by (auto split: pc.splits outcome.splits intro!: claims_held_coord held_release)
  next
    case (EndJob j)
    then show ?thesis using st ok by (auto intro: claims_held_coord)
  next
    case (SetChild k pid m)
    then show ?thesis using st ok by (auto intro: claims_held_coord)
  qed (use st ok in \<open>auto split: pc.splits load_result.splits if_splits simp: Let_def
      intro!: claims_held_quiet\<close>)
qed

section \<open>The threads\<close>

lemma same_role_simps [simp]:
  "same_role (Attempt n) Idle" "same_role Idle (Done oc)" "same_role Idle (BackingOff n)"
  "same_role p p"
  by (simp_all add: same_role_def awaits_def)

lemma threads_ok_ctx:
  assumes "threads_ok s" "\<not> loading_pc (s_pc s op)"
  shows "threads_ok (s\<lparr> s_ctx := (s_ctx s)(op := x) \<rparr>)"
  using assms by (auto simp: threads_ok_def op_ok_def)

lemma threads_ok_serve:
  assumes inv: "coord_inv (s_coord s)" and ok: "threads_ok s" and pc: "s_pc s op = Attempt n"
    and sa: "serve_attempt cfg dev op (fst (s_ctx s op)) est n late f1 f2 f3 (s_coord s) = (p, c')"
  shows "threads_ok (goto op p c' s) \<and> p \<noteq> Aborted"
  using sa
proof (cases rule: serve_attempt_cases)
  case (stay obs ds)
  have T: "tview c' = tview (s_coord s)" unfolding stay(1) by (rule tviewI) simp_all
  have "map_of (c_intent (s_coord s)) op = None"
    using op_okD(2)[OF threads_okD[OF ok], of op] pc by (cases "map_of (c_intent (s_coord s)) op") auto
  then show ?thesis using stay(2) pc
    by (auto intro!: threads_ok_quiet[OF ok T] simp: same_role_def awaits_def)
next
  case (share cl c1 d)
  have "tview c' = tview (s_coord s)" using share(3) tview_grant[OF share(2)] by simp
  then show ?thesis using share(4) pc by (auto intro!: threads_ok_quiet[OF ok] simp: same_role_def awaits_def)
next
  case (join r w)
  have "distinct (dkeys (c_reservations (s_coord s)))" "owners_ok (s_coord s)"
    using inv wf_books_distinct[of "ledger_of (s_coord s)"] by (simp_all add: coord_inv_def)
  then show ?thesis
    using threads_ok_join[OF ok pc reservation_for_lookup(1)[OF join(3)] join(2)] join(4) by simp
next
  case load
  then show ?thesis using threads_ok_reserve[OF ok pc refl] by simp
next
  case (evict vs ps d c1)
  have "c_intent (mark_draining (map rm_key vs) (s_coord s)) = c_intent (s_coord s)"
    by (simp add: mark_draining_def)
  then have "tview c' = tview ((mark_draining (map rm_key vs) (s_coord s))\<lparr> c_intent :=
      AList.update op (map rm_key vs) (c_intent (mark_draining (map rm_key vs) (s_coord s))) \<rparr>)"
    using evict(3,4) by simp
  then show ?thesis unfolding evict(5) using threads_ok_evict[OF ok pc tview_mark] by blast
qed

lemma tview_evict_intent: "evict_step k ph late c = (r, c') \<Longrightarrow> tview c' = tview c"
  by (rule tview_evict_step)

lemma threads_ok_commit:
  assumes inv: "coord_inv (s_coord s)" and ok: "threads_ok s" and pc: "s_pc s op = Committing ch m d"
    and c: "commit cfg dev (fst (s_ctx s op)) op ch m d f3 (s_coord s) = (r, c')"
  shows "case r of Committed cl b ws \<Rightarrow> threads_ok (goto op (GrantDispose ws cl b m) c' s)
    | RollBack d ws \<Rightarrow> threads_ok (goto op (RollUnload ws d) c' s) | CommitKeyError \<Rightarrow> False"
proof -
  let ?k = "fst (s_ctx s op)"
  have load: "loading_pc (s_pc s op)" using pc by simp
  obtain r0 where r0: "map_of (c_reservations (s_coord s)) op = Some r0" "rv_key r0 = ?k"
    using op_okD(1)[OF threads_okD[OF ok], of op] load by (auto simp: joins_def)
  from c show ?thesis
  proof (cases rule: commit_cases)
    case lost
    then show ?thesis using r0 by simp
  next
    case (key_error x)
    have "map_of (l_books (ledger_of (s_coord s))) op = Some (book_of x)" using key_error(1) by simp
    moreover have "bk_gen (book_of x) = l_gen (ledger_of (s_coord s)) (bk_key (book_of x))"
      using key_error(1,4) r0 by (simp add: book_of_def)
    ultimately have "bk_key (book_of x) \<in> set (dkeys (l_acct (ledger_of (s_coord s))))"
      using wf_gen_current inv unfolding coord_inv_def by blast
    then have "map_of (c_residents (s_coord s)) ?k \<noteq> None"
      using key_error(1) r0 by (simp add: book_of_def map_of_eq_None_iff)
    then show ?thesis using key_error(5) by simp
  next
    case (roll x dd why)
    have "threads_ok (goto op (RollUnload (rv_waiters x) dd) c' s)"
      by (rule threads_ok_unbook[OF ok load roll(1), where us = "[]"])
        (simp_all add: roll(3) rollback_section_def observe_def joins_def map_of_update_dict awaits_def)
    then show ?thesis using roll(2) by simp
  next
    case (commit x e cl b c1 c2 c4)
    have T: "tview c2 = tview (s_coord s)" using tview_grant[OF commit(8)] commit(7) by simp
    note fr = grant_waiters_frame[OF commit(9)] and h = heap_ext_grant_waiters[OF commit(9)]
    have pn: "map_of (c_pending (s_coord s)) op = None" using op_okD(3)[OF threads_okD[OF ok], of op] pc by simp
    have "threads_ok (goto op (GrantDispose (rv_waiters x) cl b m) c' s)"
    proof (rule threads_ok_unbook[OF ok load commit(1), where us = "rv_waiters x"])
      show "joins c' = AList.delete op (joins (s_coord s))"
        using fr tviewD(1)[OF T] commit(10) by (simp add: joins_def observe_def)
      show "heap_ext (rv_waiters x) (c_heap (s_coord s)) (c_heap c')" "c_heap_next c' = c_heap_next (s_coord s)"
        using h tviewD(5,6)[OF T] commit(10) by (simp_all add: observe_def)
      show "c_intent c' = c_intent (s_coord s)" "c_live c' = c_live (s_coord s)"
        using fr tviewD(2,4)[OF T] commit(10) by (simp_all add: observe_def)
      show "c_pending c' = c_pending (s_coord s) \<and> set (rv_waiters x) \<subseteq> set (rv_waiters x) \<or>
          c_pending c' = AList.update op (rv_waiters x) (c_pending (s_coord s))"
        using fr tviewD(3)[OF T] commit(10) by (simp add: observe_def)
      show "custody (GrantDispose (rv_waiters x) cl b m) = map_of (c_pending c') op"
        using fr tviewD(3)[OF T] commit(10) pn by (simp add: observe_def)
    qed (simp_all add: awaits_def)
    then show ?thesis using commit(11) by simp
  qed
qed

lemma threads_ok_fail:
  assumes ok: "threads_ok s" and pc: "s_pc s op = FailDrop ch"
    and l: "load_failed k op (s_coord s) = (ws, c')" and p: "p = FailDispose ws \<or> p = FailUnload ws"
  shows "threads_ok (goto op p c' s)"
proof -
  have load: "loading_pc (s_pc s op)" using pc by simp
  obtain r0 where r0: "map_of (c_reservations (s_coord s)) op = Some r0"
    using op_okD(1)[OF threads_okD[OF ok], of op] load by (auto simp: joins_def)
  have ws: "ws = rv_waiters r0" using l r0 by (auto simp: load_failed_def Let_def)
  have f: "c_reservations c' = AList.delete op (c_reservations (s_coord s))"
    "c_pending c' = AList.update op ws (c_pending (s_coord s))" "c_intent c' = c_intent (s_coord s)"
    "c_live c' = c_live (s_coord s)" "c_heap c' = c_heap (s_coord s)" "c_heap_next c' = c_heap_next (s_coord s)"
    using l r0 by (auto simp: load_failed_def Let_def bump_generation_def split: if_splits)
  show ?thesis
    by (rule threads_ok_unbook[OF ok load r0, where us = "[]"])
      (use p ws in \<open>auto simp: f joins_def map_of_update_dict awaits_def\<close>)
qed

lemma threads_ok_step:
  assumes inv: "sys_inv s" and st: "tstep cfg dev e s = Some s'"
  shows "threads_ok s' \<and> (\<forall>op. s_pc s' op \<noteq> Aborted)"
proof -
  note ok = sys_invD(2)[OF inv] and ci = sys_invD(1)[OF inv]
  have na: "s_pc s op \<noteq> Aborted" for op using sys_invD(7)[OF inv] .
  have q1: "threads_ok (goto op p c' s)" if "tview c' = tview (s_coord s)" "same_role (s_pc s op) p" for op p c'
    using threads_ok_quiet[OF ok that] .
  have g: "threads_ok (goto op p c' s) \<Longrightarrow> p \<noteq> Aborted \<Longrightarrow>
      threads_ok (goto op p c' s) \<and> (\<forall>o'. s_pc (goto op p c' s) o' \<noteq> Aborted)" for op p c'
    using na by simp
  have co: "threads_ok (s\<lparr> s_coord := c' \<rparr>) \<and> (\<forall>o'. s_pc (s\<lparr> s_coord := c' \<rparr>) o' \<noteq> Aborted)"
    if "tview c' = tview (s_coord s)" for c'
    using threads_ok_coord[OF ok that] na by simp
  show ?thesis
  proof (cases e)
    case (Start op k est)
    then have pc: "s_pc s op = Idle" using st by (auto split: pc.splits)
    have t: "threads_ok (goto op (Attempt 1) (s_coord s) s)"
      using pc by (intro threads_ok_quiet[OF ok]) (simp_all add: same_role_def awaits_def)
    have s': "s' = (goto op (Attempt 1) (s_coord s) s)\<lparr> s_ctx := (s_ctx s)(op := (k, est)) \<rparr>"
      using st Start pc by simp
    show ?thesis using threads_ok_ctx[OF t, of op "(k, est)"] na by (simp add: s')
  next
    case (StartJob op j)
    then have pc: "s_pc s op = Idle" using st by (auto split: pc.splits)
    obtain p c' where s': "s' = (goto op p c' s)\<lparr> s_ctx := (s_ctx s)(op := (j, 0)) \<rparr>"
      and p: "p = JobScan \<or> p = JobDone False" and T: "tview c' = tview (s_coord s)"
      using st StartJob pc tview_job_mark by (auto split: option.splits)
    have t: "threads_ok (goto op p c' s)"
      using pc p T by (intro threads_ok_quiet[OF ok T]) (auto simp: same_role_def awaits_def)
    have "\<not> loading_pc (s_pc (goto op p c' s) op)" using p by auto
    then show ?thesis using threads_ok_ctx[OF t, of op "(j, 0)"] na p by (auto simp: s')
  next
    case (Serve op late f1 f2 f3)
    then obtain n where pc: "s_pc s op = Attempt n" using st by (auto split: pc.splits)
    obtain p c' where sa: "serve_attempt cfg dev op (fst (s_ctx s op)) (snd (s_ctx s op)) n late f1 f2 f3 (s_coord s) = (p, c')"
      by force
    have "s' = goto op p c' s" using st Serve pc sa by (simp add: split_def Let_def)
    then show ?thesis using threads_ok_serve[OF ci ok pc sa] g by blast
  next
    case (Commit op f3)
    then obtain ch m d where pc: "s_pc s op = Committing ch m d" using st by (auto split: pc.splits)
    obtain r c' where c: "commit cfg dev (fst (s_ctx s op)) op ch m d f3 (s_coord s) = (r, c')" by force
    show ?thesis using threads_ok_commit[OF ci ok pc c] st Commit pc c g
      by (auto split: commit_result.splits)
  next
    case (FailSection op)
    then obtain ch where pc: "s_pc s op = FailDrop ch" using st by (auto split: pc.splits)
    obtain ws c' where l: "load_failed (fst (s_ctx s op)) op (s_coord s) = (ws, c')" by force
    show ?thesis using threads_ok_fail[OF ok pc l] st FailSection pc l na by (auto split: if_splits)
  next
    case (Dispose op)
    have d: "threads_ok (goto op (Done oc) c' s)"
      if "(\<exists>d. s_pc s op = RollDispose ws d) \<or> s_pc s op = FailDispose ws \<or> (\<exists>cl b m. s_pc s op = GrantDispose ws cl b m)"
        "tview cc = tview (s_coord s)" "tview c' = tview (dispose ws dd op cc)" for ws oc c' cc dd
      using that by (intro threads_ok_dispose[OF ok _ _ _ _ that(2,3)]) (auto simp: awaits_def)
    have d1: "threads_ok (goto op (Done oc) (dispose ws dd op (s_coord s)) s)"
      if "s_pc s op = RollDispose ws dd" for ws oc dd using that by (intro d[where ws = ws and cc = "s_coord s" and dd = dd]) auto
    have d2: "threads_ok (goto op (Done oc) (log_decision rec (dispose ws dd op (s_coord s))) s)"
      if "s_pc s op = GrantDispose ws cl b m" for ws oc dd cl b m rec
      using that by (intro d[where ws = ws and cc = "s_coord s" and dd = dd]) auto
    have d3: "threads_ok (goto op (Done oc) (dispose ws dd op (log_decision rec (observe ob (s_coord s)))) s)"
      if "s_pc s op = FailDispose ws" for ws oc dd rec ob
      using that by (intro d[where ws = ws and cc = "log_decision rec (observe ob (s_coord s))" and dd = dd]) auto
    have na': "((s_pc s)(op := Done oc)) o' \<noteq> Aborted" for o' oc using na by simp
    show ?thesis using st Dispose d1 d2 d3 na' by (auto split: pc.splits)
  next
    case (Wake op)
    then obtain n w where pc: "s_pc s op = Awaiting n w" using st by (auto split: pc.splits)
    obtain r c' where aw: "await_load cfg w (s_coord s) = (r, c')" by force
    show ?thesis using threads_ok_wake[OF ok pc aw] st Wake pc aw na by (auto split: option.splits if_splits)
  next
    case (EvictTick op late)
    show ?thesis
    proof (cases "\<exists>n ph. s_pc s op = Evicting n [] ph")
      case True
      then show ?thesis using st EvictTick na threads_ok_clear[OF ok] by (auto split: if_splits)
    next
      case False
      then show ?thesis using st EvictTick
        by (auto split: pc.splits list.splits prod.splits option.splits if_splits simp: na same_role_def awaits_def
            dest: tview_evict_step intro!: q1)
    qed
  next
    case (JobTick op late now)
    then show ?thesis using st
      by (auto split: pc.splits list.splits prod.splits option.splits if_splits simp: na same_role_def awaits_def Let_def
          drain_scan_def dest: tview_evict_step tview_job_finish intro!: q1)
  next
    case (Forget k)
    then show ?thesis using st co by auto
  next
    case (Release op)
    then show ?thesis using st co by (auto split: pc.splits outcome.splits)
  next
    case (EndJob j)
    then show ?thesis using st co by auto
  next
    case (SetChild k pid m)
    then show ?thesis using st co by auto
  next
    case (TransientTick op late)
    then show ?thesis using st by (auto split: pc.splits if_splits simp: na same_role_def awaits_def intro!: q1)
  next
    case (GateAcquire op)
    then show ?thesis using st by (auto split: pc.splits if_splits simp: na same_role_def awaits_def intro!: q1)
  next
    case (Reconcile op)
    then show ?thesis using st
      by (auto split: pc.splits if_splits simp: na same_role_def awaits_def intro!: q1)
  qed (use st in \<open>auto split: pc.splits load_result.splits if_splits simp: na same_role_def awaits_def Let_def intro!: q1\<close>)
qed

section \<open>Reachable states\<close>

lemma coord_inv_sections: "(section_step cfg dev strict)\<^sup>*\<^sup>* c c' \<Longrightarrow> coord_inv c \<Longrightarrow> coord_inv c'"
  by (induction rule: rtranclp_induct) (auto intro: coord_inv_step)

lemma capacity_sections:
  "(section_step cfg dev True)\<^sup>*\<^sup>* c c' \<Longrightarrow> coord_inv c \<Longrightarrow> committed c \<le> usable_capacity cfg dev \<Longrightarrow>
   committed c' \<le> usable_capacity cfg dev"
  by (induction rule: rtranclp_induct) (auto intro: capacity_step coord_inv_sections)

interpretation coord_threads: machine "tstep cfg dev" "event_ok strict" sys_inv for cfg dev strict
proof
  fix s e s'
  assume inv: "sys_inv s" and ok: "event_ok strict e s" and st: "tstep cfg dev e s = Some s'"
  show "sys_inv s'"
    using coord_inv_sections[OF tstep_sections[OF inv ok st] sys_invD(1)[OF inv]]
      threads_ok_step[OF inv st] gate_ok_step[OF sys_invD(3)[OF inv] st]
      nums_ok_step[OF sys_invD(4)[OF inv] ok st] claims_held_step[OF inv st]
      barrier_ok_step[OF sys_invD(6)[OF inv] st]
    by (simp add: sys_inv_def)
qed

lemma sys_inv_init: "sys_inv (init_sys w)"
  using coord_inv_init[of w]
  by (auto simp: sys_inv_def init_sys_def threads_ok_def op_ok_def heap_ok_def gate_ok_def
      nums_ok_def claims_held_def heap_held_def barrier_ok_def init_coord_def joins_def awaits_def)

lemma reach_from_init: "reach cfg dev strict s \<Longrightarrow> \<exists>w. coord_threads.reach_from cfg dev strict (init_sys w) s"
  by (induction rule: reach.induct)
    (auto intro: coord_threads.reach_refl coord_threads.reach_step)

lemma reach_sys_inv: "reach cfg dev strict s \<Longrightarrow> sys_inv s"
  using reach_from_init coord_threads.reach_inv sys_inv_init by blast

lemma reach_capacity: "reach cfg dev True s \<Longrightarrow> committed (s_coord s) \<le> usable_capacity cfg dev"
proof (induction rule: reach.induct)
  case (reach_init w)
  show ?case using usable_capacity_nonneg[of cfg dev] by (simp add: init_sys_def init_coord_def committed_def)
next
  case (reach_step s e s')
  show ?case
    using capacity_sections[OF tstep_sections[OF reach_sys_inv[OF reach_step(1)] reach_step(2,3)]
      sys_invD(1)[OF reach_sys_inv[OF reach_step(1)]] reach_step(4)] .
qed

end
