(* ===== verification/CoordProps.thy ===== *)
theory CoordProps
  imports CoordReach
begin

text \<open>
  What the coordinator promises, over every interleaving of its threads: the properties of
  \<open>hostagent/coordinator.py\<close> with their concrete witnesses.  \<open>run_sys\<close> executes a list of events.
\<close>

fun run_sys :: "coord_config \<Rightarrow> rat \<Rightarrow> bool \<Rightarrow> event list \<Rightarrow> sys \<Rightarrow> sys option" where
  "run_sys cfg dev strict [] s = Some s"
| "run_sys cfg dev strict (e # es) s =
     (if event_ok strict e s
      then case tstep cfg dev e s of None \<Rightarrow> None | Some s' \<Rightarrow> run_sys cfg dev strict es s'
      else None)"

lemma run_sys_reach: "run_sys cfg dev strict es s = Some s' \<Longrightarrow> reach cfg dev strict s \<Longrightarrow> reach cfg dev strict s'"
  by (induction es arbitrary: s) (auto split: if_splits option.splits intro: reach_step)

text \<open>A ten-byte device without reserve and headroom, and the events of one complete load.\<close>

definition demo_cfg :: coord_config where
  "demo_cfg = default_config\<lparr> safety_reserve_bytes := 0, safety_headroom_bytes := 0 \<rparr>"

definition load_events :: "op_id \<Rightarrow> model_key \<Rightarrow> rat \<Rightarrow> event list" where
  "load_events op k est = [Start op k est, Serve op False 10 10 10, GateAcquire op,
     LoadReturns op (Loaded (Child (Some 7)) est), Reconcile op, Commit op 10, Dispose op]"

definition demo :: "event list \<Rightarrow> (sys \<Rightarrow> bool) \<Rightarrow> bool" where
  "demo es P = (case run_sys demo_cfg 10 True es (init_sys (\<lambda>_. 0)) of None \<Rightarrow> False | Some s \<Rightarrow> P s)"

lemma demo_reach: "demo es P \<Longrightarrow> \<exists>s. reach demo_cfg 10 True s \<and> P s"
  by (auto simp: demo_def split: option.splits intro: run_sys_reach reach_init)

section \<open>Capacity\<close>

lemma dsum_cong_lookup:
  "distinct (dkeys d) \<Longrightarrow> (\<And>k v. map_of d k = Some v \<Longrightarrow> f v = g v) \<Longrightarrow> dsum f d = dsum g d"
  by (metis dsum_mono_lookup dual_order.eq_iff)

lemma reach_coord_inv: "reach cfg dev strict s \<Longrightarrow> coord_inv (s_coord s)"
  using reach_sys_inv sys_invD(1) by blast

lemma reach_threads_ok: "reach cfg dev strict s \<Longrightarrow> threads_ok s"
  using reach_sys_inv sys_invD(2) by blast

lemma reservations_distinct: "coord_inv c \<Longrightarrow> distinct (dkeys (c_reservations c))"
  using wf_books_distinct[of "ledger_of c"] by (simp add: coord_inv_def)



section \<open>Exclusive jobs\<close>

text \<open>Claim C2.  While an exclusive job holds the GPU, no model is resident, no reservation exists and
  no operation is anywhere between its reservation and its commit.\<close>

theorem exclusive_job_is_alone:
  assumes "reach cfg dev strict s" "c_exclusive (s_coord s) = Some j"
  shows "c_residents (s_coord s) = [] \<and> c_reservations (s_coord s) = [] \<and> (\<forall>op. \<not> loading_pc (s_pc s op))"
proof -
  have e: "c_residents (s_coord s) = [] \<and> c_reservations (s_coord s) = []"
    using reach_coord_inv[OF assms(1)] assms(2) by (simp add: coord_inv_def exclusive_ok_def)
  then have "\<not> loading_pc (s_pc s op)" for op
    using op_okD(1)[OF threads_okD[OF reach_threads_ok[OF assms(1)]], of op] by (auto simp: joins_def split: if_splits)
  then show ?thesis using e by blast
qed

theorem exclusive_job_is_alone_witness:
  "\<exists>s. reach demo_cfg 10 True s \<and> c_exclusive (s_coord s) = Some (''train'', 5) \<and> c_residents (s_coord s) = []"
proof -
  have "demo (load_events ''a'' ''k1'' 6 @ [Release ''a'', StartJob ''j'' ''train'', JobTick ''j'' False 1,
      JobTick ''j'' False 1, JobTick ''j'' False 1, JobTick ''j'' False 1, JobTick ''j'' False 1,
      JobTick ''j'' False 1, JobTick ''j'' False 1, JobTick ''j'' False 5])
      (\<lambda>s. c_exclusive (s_coord s) = Some (''train'', 5))" by code_simp
  then obtain s where s: "reach demo_cfg 10 True s" "c_exclusive (s_coord s) = Some (''train'', 5)"
    using demo_reach by blast
  then show ?thesis using exclusive_job_is_alone[OF s] by blast
qed

definition door_closed :: "coord \<Rightarrow> bool" where
  "door_closed c = (c_barrier c \<or> c_exclusive c \<noteq> None)"

text \<open>No entry is added and no reference count grows.\<close>

definition no_gain :: "coord \<Rightarrow> coord \<Rightarrow> bool" where
  "no_gain c c' = (\<forall>k e'. map_of (c_residents c') k = Some e' \<longrightarrow>
     (\<exists>e. map_of (c_residents c) k = Some e \<and> rm_active e' \<le> rm_active e))"

lemma no_gain_shrinks: "shrinks c c' \<Longrightarrow> no_gain c c'"
  unfolding shrinks_def no_gain_def by blast

lemma no_gain_same: "c_residents c' = c_residents c \<Longrightarrow> no_gain c c'"
  by (simp add: no_gain_def)

lemma no_gain_release: "no_gain c (release_claim cl c)"
  by (auto simp: no_gain_def release_claim_def Let_def map_of_dict_upd split: option.splits if_splits)

lemma no_gain_serve:
  assumes "door_closed c" "serve_attempt cfg dev op k est n late f1 f2 f3 c = (p, c')"
  shows "no_gain c c'"
  using assms by (intro no_gain_same)
    (auto simp: door_closed_def serve_attempt_def stage1_def observe_def log_decision_def split: if_splits)

lemma no_gain_commit: "door_closed c \<Longrightarrow> commit cfg dev k op ch m d f3 c = (r, c') \<Longrightarrow> no_gain c c'"
  by (erule commit_cases)
    (auto simp: door_closed_def intro: no_gain_shrinks shrinks_rollback)

lemma no_gain_evict_step: "evict_step k ph late c = (r, c') \<Longrightarrow> no_gain c c'"
  by (rule no_gain_shrinks)
    (auto simp: evict_step_def intro: shrinks_drop shrinks_evict_begin shrinks_evict_check
      split: evphase.splits option.splits prod.splits evict_step.splits)

text \<open>From the moment a job raises its barrier until it ends, whatever any thread does next,
  the serving set cannot grow: no step adds a resident or raises a reference count.  This is what makes
  a job's drain converge (\<open>_drain_serving_set\<close>).\<close>

theorem drain_cannot_regress:
  assumes "door_closed (s_coord s)" "tstep cfg dev e s = Some s'"
  shows "no_gain (s_coord s) (s_coord s')"
proof (cases e)
  case (Serve op late f1 f2 f3)
  then show ?thesis using assms by (auto split: pc.splits prod.splits simp: Let_def dest: no_gain_serve)
next
  case (Commit op f3)
  then show ?thesis using assms
    by (auto split: pc.splits prod.splits commit_result.splits dest: no_gain_commit)
next
  case (StartJob op j)
  then show ?thesis using assms
    by (auto split: pc.splits option.splits simp: no_gain_same dest: no_gain_shrinks[OF shrinks_job_mark])
next
  case (JobTick op late now)
  then show ?thesis using assms
    by (auto split: pc.splits list.splits prod.splits option.splits simp: Let_def no_gain_same
        dest: no_gain_evict_step no_gain_shrinks[OF shrinks_job_finish])
next
  case (EvictTick op late)
  then show ?thesis using assms
    by (auto split: pc.splits list.splits prod.splits option.splits simp: no_gain_same clear_intent_def
        dest: no_gain_evict_step)
next
  case (Forget k)
  then show ?thesis using assms shrinks_forget[of k "s_coord s" "fst (forget k (s_coord s))"]
    by (auto intro: no_gain_shrinks)
next
  case (FailSection op)
  then show ?thesis using assms
    by (auto split: pc.splits prod.splits simp: Let_def dest: no_gain_shrinks[OF shrinks_load_failed])
next
  case (Wake op)
  then show ?thesis using assms
    by (auto split: pc.splits prod.splits option.splits dest: no_gain_shrinks[OF shrinks_await_load])
next
  case (Release op)
  then show ?thesis using assms no_gain_release by (auto split: pc.splits outcome.splits)
next
  case (Finalize op)
  then show ?thesis using assms no_gain_shrinks[OF shrinks_drop] by (auto split: pc.splits)
next
  case (SetChild k pid m)
  then show ?thesis using assms no_gain_shrinks[OF shrinks_set_child] by auto
next
  case (EndJob j)
  then show ?thesis using assms no_gain_shrinks[OF shrinks_end_job] by auto
next
  case (Reconcile op)
  then show ?thesis using assms no_gain_shrinks[OF shrinks_reconcile] by (auto split: pc.splits)
qed (use assms in \<open>auto split: pc.splits load_result.splits if_splits
      simp: Let_def no_gain_same log_decision_def observe_def\<close>)

theorem drain_cannot_regress_witness:
  "\<exists>s s'. door_closed (s_coord s) \<and> tstep demo_cfg 10 (Serve ''b'' False 4 4 4) s = Some s' \<and>
     dkeys (c_residents (s_coord s)) = [''k1''] \<and> no_gain (s_coord s) (s_coord s')"
proof -
  have "demo (load_events ''a'' ''k1'' 6 @ [StartJob ''j'' ''train'', Start ''b'' ''k1'' 6])
      (\<lambda>s. door_closed (s_coord s) \<and> dkeys (c_residents (s_coord s)) = [''k1''] \<and>
           tstep demo_cfg 10 (Serve ''b'' False 4 4 4) s \<noteq> None)" by code_simp
  from demo_reach[OF this] obtain s s' where s: "door_closed (s_coord s)"
    "dkeys (c_residents (s_coord s)) = [''k1'']" "tstep demo_cfg 10 (Serve ''b'' False 4 4 4) s = Some s'"
    by (elim exE conjE) auto
  then show ?thesis using drain_cannot_regress[OF s(1,3)] by (intro exI[of _ s] exI[of _ s']) simp
qed

section \<open>The coordinator's own checks\<close>

lemma live_distinct_step:
  "section_step cfg dev strict c c' \<Longrightarrow> distinct (dkeys (c_live c)) \<Longrightarrow> distinct (dkeys (c_live c'))"
proof (induction rule: section_step.induct)
  case (sec_stage1 k est op f1 f2 f3 c p c')
  from sec_stage1(1) show ?case
  proof (cases rule: stage1_cases)
    case (share cl)
    have "c_live c' = c_live c" using tviewD(4)[OF tview_grant[OF share(1)]] by (simp add: observe_def)
    then show ?thesis using sec_stage1(4) by simp
  qed (use sec_stage1(4) in \<open>auto simp: observe_def join_load_def reserve_def mark_draining_def Let_def\<close>)
next
  case (sec_commit k op ch m deferred f3 c r c')
  from sec_commit(1) show ?case
  proof (cases rule: commit_cases)
    case (commit r e cl b c1 c2 c4)
    have "c_live c' = c_live c"
      using grant_waiters_frame[OF commit(9)] tviewD(4)[OF tview_grant[OF commit(8)]] commit(7,10)
      by (simp add: observe_def)
    then show ?thesis using sec_commit(3) by simp
  qed (use sec_commit(3) in \<open>auto simp: rollback_section_def observe_def\<close>)
next
  case (sec_dispose c ws d op)
  have f: "distinct (dkeys (c_live (foldl (dispose_one d) c ws)))" if "distinct (dkeys (c_live c))" for c
    using that by (induction ws arbitrary: c) (simp_all add: dispose_one_def Let_def)
  show ?case using f[OF sec_dispose] by (simp add: dispose_def Let_def foldl_frame)
qed (auto simp: await_load_def reconcile_def load_failed_def drop_resident_def bump_generation_def
      evict_begin_def evict_check_def forget_def clear_intent_def release_claim_def set_child_def
      job_mark_def job_finish_def end_job_def drop_waiter_def Let_def split: option.splits if_splits)

lemma reach_live_distinct: "reach cfg dev strict s \<Longrightarrow> distinct (dkeys (c_live (s_coord s)))"
proof (induction rule: reach.induct)
  case (reach_init w)
  show ?case by (simp add: init_sys_def init_coord_def)
next
  case (reach_step s e s')
  have "distinct (dkeys (c_live c'))" if "(section_step cfg dev strict)\<^sup>*\<^sup>* (s_coord s) c'" for c'
    using that reach_step(4) by (induction rule: rtranclp_induct) (auto intro: live_distinct_step)
  then show ?case using tstep_sections[OF reach_sys_inv[OF reach_step(1)] reach_step(2,3)] by blast
qed

lemma reach_no_inv3:
  assumes "reach cfg dev strict s"
  shows "map_of (c_intent (s_coord s)) op = None \<or> map_of (c_reservations (s_coord s)) op = None"
proof -
  note o = threads_okD[OF reach_threads_ok[OF assms], of op]
  show ?thesis
  proof (cases "map_of (c_intent (s_coord s)) op")
    case (Some ks)
    then have "evicting_pc (s_pc s op)" using op_okD(2)[OF o] by simp
    then have "\<not> loading_pc (s_pc s op)" by (cases "s_pc s op") auto
    then show ?thesis using op_okD(1)[OF o] by (simp add: joins_def)
  qed simp
qed

lemma reach_no_inv5:
  assumes "reach cfg dev strict s" "(op, w) \<in> set (c_live (s_coord s))" "waiter_disp (s_coord s) w = None"
  shows "op \<in> set (registered_ops (s_coord s)) \<or> op \<in> set (in_custody_ops (s_coord s))"
proof -
  let ?c = "s_coord s"
  note o = threads_okD[OF reach_threads_ok[OF assms(1)], of op]
  have "map_of (c_live ?c) op = Some w" using assms(2) reach_live_distinct[OF assms(1)] by simp
  then have "awaits (s_pc s op) w" using op_okD(4)[OF o] by blast
  then obtain x where x: "c_heap ?c w = Some x" "w_op x = op" "w_disp x = None \<longrightarrow> registered ?c w"
    by (rule op_ok_waiter[OF o])
  have wo: "waiter_op ?c w = op" using x by (simp add: waiter_op_def)
  have "registered ?c w" using x assms(3) by (simp add: waiter_disp_def)
  then consider (res) o' k ws where "map_of (joins ?c) o' = Some (k, ws)" "w \<in> set ws"
    | (cus) o' ws where "map_of (c_pending ?c) o' = Some ws" "w \<in> set ws"
    unfolding registered_def by blast
  then show ?thesis
  proof cases
    case res
    then obtain r where "map_of (c_reservations ?c) o' = Some r" "rv_waiters r = ws" by (auto simp: joins_def)
    then have "r \<in> set (dvals (c_reservations ?c))" using map_of_SomeD by force
    then show ?thesis using \<open>rv_waiters r = ws\<close> res(2) wo by (force simp: registered_ops_def)
  next
    case cus
    then have "ws \<in> set (dvals (c_pending ?c))" using map_of_SomeD by force
    then show ?thesis using cus(2) wo by (force simp: in_custody_ops_def)
  qed
qed

text \<open>\<open>check_invariants\<close> never reports invariant 3 (an operation holding both eviction intent
  and a reservation) nor invariant 5 (an orphaned joiner), in any reachable state.\<close>

theorem own_invariants_3_and_5_hold:
  assumes "reach cfg dev strict s"
  shows "Inv3 op \<notin> set (violations cfg dev (s_coord s)) \<and> Inv5 op \<notin> set (violations cfg dev (s_coord s))"
proof
  have "\<not> (op \<in> set (dkeys (c_intent (s_coord s))) \<and> op \<in> set (dkeys (c_reservations (s_coord s))))"
    using reach_no_inv3[OF assms, of op] by (auto simp: map_of_eq_None_iff)
  then show "Inv3 op \<notin> set (violations cfg dev (s_coord s))" by (auto simp: violations_def)
  show "Inv5 op \<notin> set (violations cfg dev (s_coord s))"
    using reach_no_inv5[OF assms, of op] by (auto simp: violations_def)
qed

theorem own_invariants_3_and_5_hold_witness:
  "\<exists>s. reach demo_cfg 10 True s \<and> s_pc s ''b'' = Awaiting 1 0 \<and> dkeys (c_live (s_coord s)) = [''b''] \<and>
     Inv5 ''b'' \<notin> set (violations demo_cfg 10 (s_coord s))"
proof -
  have "demo [Start ''a'' ''k1'' 6, Serve ''a'' False 10 10 10, Start ''b'' ''k1'' 6, Serve ''b'' False 4 4 4]
      (\<lambda>s. s_pc s ''b'' = Awaiting 1 0 \<and> dkeys (c_live (s_coord s)) = [''b''])" by code_simp
  from demo_reach[OF this] obtain s where s: "reach demo_cfg 10 True s" "s_pc s ''b'' = Awaiting 1 0"
    "dkeys (c_live (s_coord s)) = [''b'']" by (elim exE conjE) auto
  then show ?thesis using own_invariants_3_and_5_hold[OF s(1), of "''b''"] by (intro exI[of _ s]) simp
qed

text \<open>The assertion of \<open>_stage1\<close> (invariant 3 at the reservation) and every dictionary access
  of \<open>_grant_claim\<close> and of the commit succeed in every interleaving: no operation ever aborts.\<close>

theorem no_operation_aborts:
  assumes "reach cfg dev strict s"
  shows "s_pc s op \<noteq> Aborted"
  by (rule sys_invD(7)[OF reach_sys_inv[OF assms]])

theorem no_operation_aborts_witness:
  "\<exists>s. reach demo_cfg 10 True s \<and> (\<exists>cl. s_pc s ''a'' = Done (Grant cl)) \<and> s_pc s ''a'' \<noteq> Aborted"
proof -
  have "demo (load_events ''a'' ''k1'' 6)
      (\<lambda>s. case s_pc s ''a'' of Done (Grant cl) \<Rightarrow> True | _ \<Rightarrow> False)" by code_simp
  from demo_reach[OF this] obtain s where r: "reach demo_cfg 10 True s"
    and d: "case s_pc s ''a'' of Done (Grant cl) \<Rightarrow> True | _ \<Rightarrow> False" by blast
  have "\<exists>cl. s_pc s ''a'' = Done (Grant cl)" using d by (auto split: pc.splits outcome.splits)
  then show ?thesis using r no_operation_aborts[OF r, of "''a''"] by blast
qed

text \<open>Single-flight: two operations never hold reservations of one model at its current
  generation, and the load gate is held by at most one operation, the one inside load and measure.\<close>

theorem single_flight:
  assumes "reach cfg dev strict s"
    and "map_of (c_reservations (s_coord s)) op1 = Some r1" "map_of (c_reservations (s_coord s)) op2 = Some r2"
    and "rv_key r1 = rv_key r2" "rv_gen r1 = generation_of (s_coord s) (rv_key r1)"
      "rv_gen r2 = generation_of (s_coord s) (rv_key r2)"
  shows "op1 = op2 \<and> (\<forall>o1 o2. gate_pc (s_pc s o1) \<longrightarrow> gate_pc (s_pc s o2) \<longrightarrow> o1 = o2)"
proof
  have wf: "ledger_wf (ledger_of (s_coord s))" using reach_coord_inv[OF assms(1)] by (simp add: coord_inv_def)
  show "op1 = op2"
    using assms(2-) by (intro wf_single_flight[OF wf, of op1 "book_of r1" op2 "book_of r2"]) (simp_all add: book_of_def)
  have "gate_ok s" using sys_invD(3)[OF reach_sys_inv[OF assms(1)]] .
  then show "\<forall>o1 o2. gate_pc (s_pc s o1) \<longrightarrow> gate_pc (s_pc s o2) \<longrightarrow> o1 = o2"
    unfolding gate_ok_def by (metis option.inject)
qed

theorem single_flight_witness:
  "\<exists>s r. reach demo_cfg 10 True s \<and> map_of (c_reservations (s_coord s)) ''a'' = Some r \<and>
     (\<forall>o1 o2. gate_pc (s_pc s o1) \<longrightarrow> gate_pc (s_pc s o2) \<longrightarrow> o1 = o2)"
proof -
  have "demo [Start ''a'' ''k1'' 6, Serve ''a'' False 10 10 10, GateAcquire ''a'']
      (\<lambda>s. case map_of (c_reservations (s_coord s)) ''a'' of None \<Rightarrow> False
           | Some r \<Rightarrow> rv_gen r = generation_of (s_coord s) (rv_key r))" by code_simp
  from demo_reach[OF this] obtain s r where "reach demo_cfg 10 True s"
    "map_of (c_reservations (s_coord s)) ''a'' = Some r" "rv_gen r = generation_of (s_coord s) (rv_key r)"
    by (auto split: option.splits)
  then show ?thesis using single_flight[of demo_cfg 10 True s "''a''" r "''a''" r] by blast
qed

text \<open>Claim C3.  No joiner is abandoned: while an operation awaits a load and has no disposition, some
  other operation still owns that load (it holds the reservation the joiner is registered in, or has the
  joiner in custody between dropping the reservation and disposing), so a disposition is on its way.\<close>

theorem joiner_has_an_owner:
  assumes "reach cfg dev strict s" "s_pc s op = Awaiting n w" "waiter_disp (s_coord s) w = None"
  shows "\<exists>o'. (loading_pc (s_pc s o') \<and> (\<exists>r. map_of (c_reservations (s_coord s)) o' = Some r \<and> w \<in> set (rv_waiters r))) \<or>
    (\<exists>ws. custody (s_pc s o') = Some ws \<and> w \<in> set ws)"
proof -
  let ?c = "s_coord s"
  note t = threads_okD[OF reach_threads_ok[OF assms(1)]]
  have aw: "awaits (s_pc s op) w" using assms(2) by (simp add: awaits_def)
  obtain x where x: "c_heap ?c w = Some x" "w_op x = op" "w_disp x = None \<longrightarrow> registered ?c w"
    by (rule op_ok_waiter[OF t aw])
  then have "registered ?c w" using assms(3) by (simp add: waiter_disp_def)
  then consider (res) o' k ws where "map_of (joins ?c) o' = Some (k, ws)" "w \<in> set ws"
    | (cus) o' ws where "map_of (c_pending ?c) o' = Some ws" "w \<in> set ws"
    unfolding registered_def by blast
  then show ?thesis
  proof cases
    case res
    have "loading_pc (s_pc s o')" using op_okD(1)[OF t, of o'] res(1) by (auto split: if_splits)
    then show ?thesis using res by (auto simp: joins_def)
  next
    case cus
    then show ?thesis using op_okD(3)[OF t, of o'] by auto
  qed
qed

theorem joiner_has_an_owner_witness:
  "\<exists>s o'. reach demo_cfg 10 True s \<and> s_pc s ''b'' = Awaiting 1 0 \<and> waiter_disp (s_coord s) 0 = None \<and>
     (loading_pc (s_pc s o') \<or> custody (s_pc s o') \<noteq> None)"
proof -
  have "demo [Start ''a'' ''k1'' 6, Serve ''a'' False 10 10 10, Start ''b'' ''k1'' 6, Serve ''b'' False 4 4 4]
      (\<lambda>s. s_pc s ''b'' = Awaiting 1 0 \<and> waiter_disp (s_coord s) 0 = None)" by code_simp
  from demo_reach[OF this] obtain s where s: "reach demo_cfg 10 True s" "s_pc s ''b'' = Awaiting 1 0"
    "waiter_disp (s_coord s) 0 = None" by blast
  then show ?thesis using joiner_has_an_owner[OF s] by fastforce
qed

end
