(* ===== verification/CoordDecisions.thy ===== *)
theory CoordDecisions
  imports CoordProps
begin

text \<open>
  What one admission decision means: victim selection is sound and takes no more than it needs, a
  refusal's code separates the permanent from the transient, every event refines the ledger, attempts
  are bounded.  The last section records interleavings in which the code does not keep what its
  comments say.
\<close>

section \<open>Victim selection\<close>

lemma pick_victims_Some:
  "pick_victims enough f xs = Some vs \<Longrightarrow>
     vs \<noteq> [] \<and> (\<exists>rest. xs = vs @ rest) \<and> enough (f + sum_list (map rm_accounted vs)) \<and>
     (\<forall>n. 0 < n \<longrightarrow> n < length vs \<longrightarrow> \<not> enough (f + sum_list (map rm_accounted (take n vs))))"
proof (induction enough f xs arbitrary: vs rule: pick_victims.induct)
  case (2 enough f v xs)
  show ?case
  proof (cases "enough (f + rm_accounted v)")
    case True
    then show ?thesis using 2(2) by (auto simp: Let_def)
  next
    case False
    then obtain us where us: "pick_victims enough (f + rm_accounted v) xs = Some us" "vs = v # us"
      using 2(2) by (auto simp: Let_def)
    note ih = 2(1)[OF refl False us(1)]
    have "\<not> enough (f + sum_list (map rm_accounted (take n vs)))" if n: "0 < n" "n < length vs" for n
    proof (cases n)
      case (Suc m)
      then show ?thesis using ih n False us(2) by (cases "m = 0") (auto simp: add.assoc)
    qed (use n in simp)
    then show ?thesis using ih us(2) by (auto simp: add.assoc)
  qed
qed simp

lemma pick_victims_None:
  "pick_victims enough f xs = None \<Longrightarrow> 0 < n \<Longrightarrow> n \<le> length xs \<Longrightarrow>
     \<not> enough (f + sum_list (map rm_accounted (take n xs)))"
proof (induction enough f xs arbitrary: n rule: pick_victims.induct)
  case (2 enough f v xs)
  then have nf: "\<not> enough (f + rm_accounted v)" and nx: "pick_victims enough (f + rm_accounted v) xs = None"
    by (auto simp: Let_def split: if_splits)
  obtain m where m: "n = Suc m" using 2(3) by (cases n) auto
  show ?case
  proof (cases "m = 0")
    case True
    then show ?thesis using nf m by simp
  next
    case False
    then show ?thesis using 2(1)[OF refl nf nx, of m] 2(4) m by (simp add: add.assoc)
  qed
qed simp

lemma eligible_victims_props:
  "v \<in> set (eligible_victims k c) \<Longrightarrow>
     (\<exists>k'. (k', v) \<in> set (c_residents c) \<and> k' \<noteq> k) \<and> rm_state v = RESIDENT \<and> rm_mat v"
  by (auto simp: eligible_victims_def)

lemma eligible_victims_sorted: "sorted (map (\<lambda>r. (rm_active r > 0, rm_seq r)) (eligible_victims k c))"
  by (simp add: eligible_victims_def)

text \<open>The victims stage 1 marks are settled entries of other models (resident, materialized),
  taken idle-first and then least recently used, without skipping any; evicting them satisfies both
  bounds, and stopping earlier would not.\<close>

theorem victims_sound_and_minimal:
  assumes "select_victims cfg dev k est free c = vs" "vs \<noteq> []"
  shows "(\<exists>rest. eligible_victims k c = vs @ rest) \<and>
    sorted (map (\<lambda>r. (rm_active r > 0, rm_seq r)) (eligible_victims k c)) \<and>
    (\<forall>v \<in> set vs. (\<exists>k'. (k', v) \<in> set (c_residents c) \<and> k' \<noteq> k) \<and> rm_state v = RESIDENT \<and> rm_mat v) \<and>
    victims_suffice cfg dev c est free (sum_list (map rm_accounted vs)) \<and>
    (\<forall>n. 0 < n \<longrightarrow> n < length vs \<longrightarrow>
       \<not> victims_suffice cfg dev c est free (sum_list (map rm_accounted (take n vs))))"
proof -
  have p: "pick_victims (victims_suffice cfg dev c est free) 0 (eligible_victims k c) = Some vs"
    using assms by (auto simp: select_victims_def split: option.splits)
  obtain rest where rest: "eligible_victims k c = vs @ rest" using pick_victims_Some[OF p] by blast
  have "(\<exists>k'. (k', v) \<in> set (c_residents c) \<and> k' \<noteq> k) \<and> rm_state v = RESIDENT \<and> rm_mat v" if "v \<in> set vs" for v
    using eligible_victims_props[of v k c] that rest by auto
  then show ?thesis using pick_victims_Some[OF p] eligible_victims_sorted[of k c] rest by auto
qed

definition idle_entry :: "model_key \<Rightarrow> rat \<Rightarrow> nat \<Rightarrow> resident" where
  "idle_entry k b n = (new_resident k 0 n)\<lparr> rm_state := RESIDENT, rm_accounted := b \<rparr>"

text \<open>Two idle residents of 4 and 5 bytes, the second used less recently.\<close>

definition two_residents :: coord where
  "two_residents = (init_coord (\<lambda>_. 0))\<lparr>
     c_residents := [(''k1'', idle_entry ''k1'' 4 2), (''k2'', idle_entry ''k2'' 5 1)], c_recency_next := 3 \<rparr>"

theorem victims_sound_and_minimal_witness:
  "map rm_key (select_victims demo_cfg 10 ''k3'' 6 1 two_residents) = [''k2''] \<and>
   victims_suffice demo_cfg 10 two_residents 6 1
     (sum_list (map rm_accounted (select_victims demo_cfg 10 ''k3'' 6 1 two_residents)))"
proof -
  have m: "map rm_key (select_victims demo_cfg 10 ''k3'' 6 1 two_residents) = [''k2'']" by code_simp
  then have "select_victims demo_cfg 10 ''k3'' 6 1 two_residents \<noteq> []" by auto
  from victims_sound_and_minimal[OF refl this] m show ?thesis by blast
qed

section \<open>Refusals\<close>

lemma sum_list_take_le:
  "(\<And>v. v \<in> set vs \<Longrightarrow> 0 \<le> rm_accounted v) \<Longrightarrow>
   sum_list (map rm_accounted (take n vs)) \<le> sum_list (map rm_accounted vs)"
proof (induction vs arbitrary: n)
  case (Cons v vs)
  then show ?case by (cases n) (auto intro!: add_mono add_nonneg_nonneg sum_list_nonneg)
qed simp



section \<open>Refinement\<close>

text \<open>Claim C5.  Every event of every thread is, on the books, a sequence of ledger steps: the detailed
  coordinator refines the accounting contract of theory \<open>Ledger\<close>.\<close>

theorem event_refines_ledger:
  assumes "reach cfg dev strict s" "event_ok strict e s" "tstep cfg dev e s = Some s'"
  shows "(ledger_step (usable_capacity cfg dev) strict)\<^sup>*\<^sup>* (ledger_of (s_coord s)) (ledger_of (s_coord s'))"
proof -
  have "(ledger_step (usable_capacity cfg dev) strict)\<^sup>*\<^sup>* (ledger_of (s_coord s)) (ledger_of c')"
    if "(section_step cfg dev strict)\<^sup>*\<^sup>* (s_coord s) c'" for c'
    using that
  proof (induction rule: rtranclp_induct)
    case (step b c)
    then show ?case
      using section_refines_ledger[OF step(2) coord_inv_sections[OF step(1) reach_coord_inv[OF assms(1)]]]
      by (meson rtranclp.rtrancl_into_rtrancl)
  qed simp
  then show ?thesis using tstep_sections[OF reach_sys_inv[OF assms(1)] assms(2,3)] by blast
qed

theorem event_refines_ledger_witness:
  "\<exists>s s'. tstep demo_cfg 10 (Commit ''a'' 10) s = Some s' \<and> map_of (l_acct (ledger_of (s_coord s))) ''k1'' = Some 0 \<and>
     map_of (l_acct (ledger_of (s_coord s'))) ''k1'' = Some 6 \<and>
     (ledger_step (usable_capacity demo_cfg 10) True)\<^sup>*\<^sup>* (ledger_of (s_coord s)) (ledger_of (s_coord s'))"
proof -
  have "demo (butlast (butlast (load_events ''a'' ''k1'' 6)))
      (\<lambda>s. case tstep demo_cfg 10 (Commit ''a'' 10) s of None \<Rightarrow> False
         | Some s' \<Rightarrow> map_of (l_acct (ledger_of (s_coord s))) ''k1'' = Some 0 \<and>
             map_of (l_acct (ledger_of (s_coord s'))) ''k1'' = Some 6)" by code_simp
  from demo_reach[OF this] obtain s s' where s: "reach demo_cfg 10 True s"
    "tstep demo_cfg 10 (Commit ''a'' 10) s = Some s'" "map_of (l_acct (ledger_of (s_coord s))) ''k1'' = Some 0"
    "map_of (l_acct (ledger_of (s_coord s'))) ''k1'' = Some 6"
    by (auto split: option.splits)
  have "event_ok True (Commit ''a'' 10) s" by simp
  from event_refines_ledger[OF s(1) this s(2)] s show ?thesis by (intro exI[of _ s] exI[of _ s']) simp
qed

section \<open>Bounded attempts\<close>

fun attempt_of :: "pc \<Rightarrow> nat option" where
  "attempt_of (Attempt n) = Some n"
| "attempt_of (Awaiting n _) = Some (n + 1)"
| "attempt_of (AwaitingTransient n) = Some (n + 1)"
| "attempt_of (Evicting n _ _) = Some (n + 1)"
| "attempt_of (BackingOff n) = Some (n + 1)"
| "attempt_of _ = None"

definition attempts_ok :: "coord_config \<Rightarrow> sys \<Rightarrow> bool" where
  "attempts_ok cfg s = (\<forall>op n. attempt_of (s_pc s op) = Some n \<longrightarrow> int n \<le> max 0 (max_admission_attempts cfg) + 1)"

lemma serve_attempt_bound:
  "serve_attempt cfg dev op k est n late f1 f2 f3 c = (p, c') \<Longrightarrow> attempt_of p = Some m \<Longrightarrow>
   int m \<le> max 0 (max_admission_attempts cfg) + 1"
proof -
  assume sa: "serve_attempt cfg dev op k est n late f1 f2 f3 c = (p, c')" and m: "attempt_of p = Some m"
  have "int n \<le> max_admission_attempts cfg"
  proof (rule ccontr)
    assume "\<not> int n \<le> max_admission_attempts cfg"
    then have "p = Done (busy cfg)" using sa by (simp add: serve_attempt_def)
    then show False using m by simp
  qed
  moreover from sa have "m = n + 1" by (rule serve_attempt_cases) (use m in auto)
  ultimately show ?thesis by simp
qed

lemma attempts_ok_goto:
  "attempts_ok cfg s \<Longrightarrow> (\<And>n. attempt_of p = Some n \<Longrightarrow> attempt_of (s_pc s op) = Some n \<or>
     int n \<le> max 0 (max_admission_attempts cfg) + 1) \<Longrightarrow> attempts_ok cfg (goto op p c' s)"
  unfolding attempts_ok_def by (auto split: if_splits)

lemma attempts_ok_frame [simp]:
  "attempts_ok cfg (s\<lparr> s_coord := c \<rparr>) = attempts_ok cfg s" "attempts_ok cfg (s\<lparr> s_ctx := x \<rparr>) = attempts_ok cfg s"
  "attempts_ok cfg (s\<lparr> s_gate := g \<rparr>) = attempts_ok cfg s"
  by (simp_all add: attempts_ok_def)

lemma attempts_ok_step:
  assumes ok: "attempts_ok cfg s" and st: "tstep cfg dev e s = Some s'"
  shows "attempts_ok cfg s'"
proof (cases e)
  case (Serve op late f1 f2 f3)
  then show ?thesis using st ok
    by (auto split: pc.splits prod.splits simp: Let_def intro!: attempts_ok_goto dest: serve_attempt_bound)
qed (use st ok in \<open>auto split: pc.splits prod.splits list.splits option.splits load_result.splits if_splits
      commit_result.splits outcome.splits simp: Let_def drain_scan_def intro!: attempts_ok_goto\<close>)



section \<open>Where the code and its comments part\<close>

text \<open>The last section of \<open>evict\<close> removes whatever entry it finds.  When the runtime's own
  unload has already called \<open>forget\<close> for the victim (as \<open>CoordinatorAdmission.release\<close> does from inside
  \<open>unload\<close>), another request can load and commit the same model before that section runs; the section
  then drops the successor: a live, unreleased claim on a model the coordinator no longer accounts for.\<close>

theorem eviction_drops_successor:
  "\<exists>s cl. reach demo_cfg 10 True s \<and> s_pc s ''c'' = Done (Grant cl) \<and> cl_key cl = ''k1'' \<and>
     cl_id cl \<notin> c_released (s_coord s) \<and> map_of (c_residents (s_coord s)) ''k1'' = None \<and>
     accounted (s_coord s) = 0"
proof -
  have "demo (load_events ''a'' ''k1'' 6 @ [Release ''a'', Start ''b'' ''k2'' 6, Serve ''b'' False 4 4 4,
        EvictTick ''b'' False, EvictTick ''b'' False, EvictTick ''b'' False, Forget ''k1''] @
        load_events ''c'' ''k1'' 6 @ [EvictTick ''b'' False])
      (\<lambda>s. (case s_pc s ''c'' of Done (Grant cl) \<Rightarrow> cl_key cl = ''k1'' \<and> cl_id cl \<notin> c_released (s_coord s) | _ \<Rightarrow> False) \<and>
        map_of (c_residents (s_coord s)) ''k1'' = None \<and> accounted (s_coord s) = 0)" by code_simp
  from demo_reach[OF this] show ?thesis by (fastforce split: pc.splits outcome.splits)
qed

text \<open>A claim survives its entry.  If the model is forgotten while a claim on it is live and
  then loaded again, releasing the old claim lowers the new entry's count: the new request is still in
  flight while its model is counted idle, which is the state invariant 4 of the code rules out and the
  one in which an eviction would no longer wait for the request.\<close>

theorem stale_release_undercounts:
  "\<exists>s cl e. reach demo_cfg 10 True s \<and> s_pc s ''c'' = Done (Grant cl) \<and> cl_key cl = ''k1'' \<and>
     cl_id cl \<notin> c_released (s_coord s) \<and> map_of (c_residents (s_coord s)) ''k1'' = Some e \<and>
     rm_active e = 0 \<and> Inv4 ''k1'' \<in> set (violations demo_cfg 10 (s_coord s))"
proof -
  have "demo (load_events ''a'' ''k1'' 6 @ [Forget ''k1''] @ load_events ''c'' ''k1'' 6 @ [Release ''a''])
      (\<lambda>s. (case s_pc s ''c'' of Done (Grant cl) \<Rightarrow> cl_key cl = ''k1'' \<and> cl_id cl \<notin> c_released (s_coord s) | _ \<Rightarrow> False) \<and>
        (case map_of (c_residents (s_coord s)) ''k1'' of None \<Rightarrow> False | Some e \<Rightarrow> rm_active e = 0) \<and>
        Inv4 ''k1'' \<in> set (violations demo_cfg 10 (s_coord s)))" by code_simp
  from demo_reach[OF this] show ?thesis by (fastforce split: pc.splits outcome.splits option.splits)
qed

text \<open>What does hold of invariant 4 in every reachable state: a resident's reference count
  never exceeds the claims outstanding on its key, so no count is left above zero by claims that do not
  exist and eviction is never blocked for ever by the bookkeeping.\<close>

theorem count_within_claims:
  assumes "reach cfg dev strict s" "map_of (c_residents (s_coord s)) k = Some e"
  shows "rm_active e \<le> live_claims (s_coord s) k \<and> rm_key e = k"
proof -
  have "entries_ok (s_coord s)" using reach_coord_inv[OF assms(1)] by (simp add: coord_inv_def)
  from entries_okD(1)[OF this assms(2)] show ?thesis by (simp add: resident_ok_def)
qed

theorem count_within_claims_witness:
  "\<exists>s e. reach demo_cfg 10 True s \<and> map_of (c_residents (s_coord s)) ''k1'' = Some e \<and> rm_active e = 2 \<and>
     rm_active e \<le> live_claims (s_coord s) ''k1''"
proof -
  have "demo (load_events ''a'' ''k1'' 6 @ [Start ''b'' ''k1'' 6, Serve ''b'' False 4 4 4])
      (\<lambda>s. case map_of (c_residents (s_coord s)) ''k1'' of None \<Rightarrow> False | Some e \<Rightarrow> rm_active e = 2)" by code_simp
  from demo_reach[OF this] obtain s e where s: "reach demo_cfg 10 True s"
    "map_of (c_residents (s_coord s)) ''k1'' = Some e" "rm_active e = 2" by (auto split: option.splits)
  from count_within_claims[OF s(1,2)] s show ?thesis by blast
qed

text \<open>Joining a resident model is logged as a refusal: \<open>admit_serving\<close> hands every \<open>Outcome\<close>
  of stage 1, a \<open>Share\<close> included, to \<open>_log_decision("refused", \<dots>)\<close>, so the decision record says
  refused, without a reason, for a request that was admitted.\<close>

theorem share_is_logged_as_refused:
  assumes "serve_attempt cfg dev op k est n late f1 f2 f3 c = (Done (Share cl), c')"
  shows "c_decisions c' \<noteq> [] \<and> d_kind (last (c_decisions c')) = Refused \<and>
    d_reason (last (c_decisions c')) = None \<and> d_op (last (c_decisions c')) = op"
  using assms
  by (auto simp: serve_attempt_def busy_def log_decision_def answer_record_def stage1_def decide_fit_def Let_def
      split: if_splits prod.splits plan.splits option.splits rstate.splits)

theorem share_is_logged_as_refused_witness:
  "\<exists>cl c'. serve_attempt demo_cfg 10 ''b'' ''k1'' 4 1 False 1 1 1 two_residents = (Done (Share cl), c') \<and>
     d_kind (last (c_decisions c')) = Refused"
proof -
  have "case serve_attempt demo_cfg 10 ''b'' ''k1'' 4 1 False 1 1 1 two_residents of
      (Done (Share cl), c') \<Rightarrow> True | _ \<Rightarrow> False" by code_simp
  then obtain cl c' where "serve_attempt demo_cfg 10 ''b'' ''k1'' 4 1 False 1 1 1 two_residents = (Done (Share cl), c')"
    by (auto split: prod.splits pc.splits outcome.splits)
  from share_is_logged_as_refused[OF this] this show ?thesis by blast
qed

end
