(* ===== verification/SlotAdmission.thy ===== *)
theory SlotAdmission
  imports Prelude
begin

text \<open>
  \<open>hostagent/admission.py\<close>: the single GPU slot, its swap reservation and the TTL-cached reader of free
  VRAM.  Each method runs under the slot's lock, so it is one function on the record \<open>slot\<close>; readings of
  the GPU and of the clock are arguments.  The locale \<open>gpu_slot\<close> is the surface the engine runtimes and
  the job manager use.
\<close>

record holder =
  h_tenant :: string
  h_kind :: string
  h_est :: rat
  h_child :: "int option"
  h_at :: rat

record slot =
  sl_holder :: "holder option"
  sl_swap :: "string option"
  sl_budget :: rat

text \<open>\<open>Held\<close> carries the tenant it names and whether it is a swap reservation.\<close>

datatype adm_error = Held string bool | VramExceeded

definition init_slot :: "rat \<Rightarrow> slot" where
  "init_slot budget = \<lparr> sl_holder = None, sl_swap = None, sl_budget = budget \<rparr>"

definition BUDGET_SAFETY :: rat where
  "BUDGET_SAFETY = 95 / 100"

section \<open>Reading the GPU\<close>

record gpu_cache =
  gc_ttl :: rat
  gc_at :: "rat option"
  gc_value :: "rat option"

text \<open>\<open>GpuReader.free_gb\<close>: \<open>reading\<close> is what the device would answer now.\<close>

definition free_gb :: "bool \<Rightarrow> rat \<Rightarrow> rat option \<Rightarrow> gpu_cache \<Rightarrow> rat option \<times> gpu_cache" where
  "free_gb fresh now reading g =
     (let stale = (case gc_at g of None \<Rightarrow> True | Some t \<Rightarrow> now - t > gc_ttl g);
          g' = (if fresh \<or> stale then g\<lparr> gc_value := reading, gc_at := Some now \<rparr> else g)
      in (gc_value g', g'))"

section \<open>Swap reservations\<close>

definition begin_swap :: "string \<Rightarrow> slot \<Rightarrow> adm_error + slot" where
  "begin_swap target s = (case sl_swap s of
      Some t \<Rightarrow> Inl (Held t True)
    | None \<Rightarrow> Inr (s\<lparr> sl_swap := Some target \<rparr>))"

definition end_swap :: "string \<Rightarrow> slot \<Rightarrow> slot" where
  "end_swap target s = (if sl_swap s = Some target then s\<lparr> sl_swap := None \<rparr> else s)"

definition retarget_swap :: "string \<Rightarrow> string \<Rightarrow> slot \<Rightarrow> slot" where
  "retarget_swap old new s = (if sl_swap s = Some old then s\<lparr> sl_swap := Some new \<rparr> else s)"

section \<open>The admission decision\<close>

definition slot_acquire ::
  "string \<Rightarrow> string \<Rightarrow> rat \<Rightarrow> rat option \<Rightarrow> rat \<Rightarrow> slot \<Rightarrow> adm_error + holder \<times> slot" where
  "slot_acquire tenant kind est free now s =
     (case sl_holder s of
        Some h \<Rightarrow> if h_tenant h = tenant then Inr (h, s) else Inl (Held (h_tenant h) False)
      | None \<Rightarrow>
         (if sl_swap s \<noteq> None \<and> sl_swap s \<noteq> Some tenant then Inl (Held (the (sl_swap s)) True)
          else if (case free of Some f \<Rightarrow> est > f | None \<Rightarrow> est > sl_budget s * BUDGET_SAFETY)
          then Inl VramExceeded
          else (let h = \<lparr> h_tenant = tenant, h_kind = kind, h_est = est, h_child = None, h_at = now \<rparr>
                in Inr (h, s\<lparr> sl_holder := Some h \<rparr>))))"

definition slot_set_child :: "string \<Rightarrow> int \<Rightarrow> slot \<Rightarrow> slot" where
  "slot_set_child tenant pid s = (case sl_holder s of
      Some h \<Rightarrow> if h_tenant h = tenant then s\<lparr> sl_holder := Some (h\<lparr> h_child := Some pid \<rparr>) \<rparr> else s
    | None \<Rightarrow> s)"

definition slot_release :: "string \<Rightarrow> slot \<Rightarrow> slot" where
  "slot_release tenant s = (case sl_holder s of
      Some h \<Rightarrow> if h_tenant h = tenant then s\<lparr> sl_holder := None \<rparr> else s
    | None \<Rightarrow> s)"

definition holds :: "slot \<Rightarrow> string \<Rightarrow> bool" where
  "holds s t = (map_option h_tenant (sl_holder s) = Some t)"

section \<open>The surface its clients rely on\<close>

locale gpu_slot =
  fixes acquire :: "string \<Rightarrow> string \<Rightarrow> rat \<Rightarrow> rat option \<Rightarrow> rat \<Rightarrow> 's \<Rightarrow> adm_error + holder \<times> 's"
    and set_child :: "string \<Rightarrow> int \<Rightarrow> 's \<Rightarrow> 's"
    and release :: "string \<Rightarrow> 's \<Rightarrow> 's"
    and owns :: "'s \<Rightarrow> string \<Rightarrow> bool"
  assumes owns_unique: "owns s t \<Longrightarrow> owns s t' \<Longrightarrow> t = t'"
    and acquire_owns: "acquire t k e f n s = Inr (h, s') \<Longrightarrow> owns s' t"
    and acquire_keeps: "acquire t k e f n s = Inr (h, s') \<Longrightarrow> owns s t' \<Longrightarrow> owns s' t'"
    and set_child_owns: "owns (set_child t p s) t' = owns s t'"
    and release_owns: "owns (release t s) t' \<longleftrightarrow> owns s t' \<and> t' \<noteq> t"
begin

lemma acquire_excludes: "acquire t k e f n s = Inr (h, s') \<Longrightarrow> owns s t' \<Longrightarrow> t' = t"
  using acquire_keeps acquire_owns owns_unique by blast

lemma release_other: "owns s t' \<Longrightarrow> t' \<noteq> t \<Longrightarrow> owns (release t s) t'"
  by (simp add: release_owns)

lemma release_self: "\<not> owns (release t s) t"
  by (simp add: release_owns)

lemma reacquire: "acquire t k e f n s = Inr (h, s') \<Longrightarrow> owns (release t' s') t \<longleftrightarrow> t' \<noteq> t"
  using acquire_owns release_owns by blast

end

interpretation adm: gpu_slot slot_acquire slot_set_child slot_release holds
proof
  show "holds s t \<Longrightarrow> holds s t' \<Longrightarrow> t = t'" for s t t' by (auto simp: holds_def)
  show "slot_acquire t k e f n s = Inr (h, s') \<Longrightarrow> holds s' t" for t k e f n s h s'
    by (auto simp: slot_acquire_def holds_def Let_def split: option.splits if_splits)
  show "slot_acquire t k e f n s = Inr (h, s') \<Longrightarrow> holds s t' \<Longrightarrow> holds s' t'" for t k e f n s h s' t'
    by (auto simp: slot_acquire_def holds_def Let_def split: option.splits if_splits)
  show "holds (slot_set_child t p s) t' = holds s t'" for t p s t'
    by (auto simp: slot_set_child_def holds_def split: option.splits)
  show "holds (slot_release t s) t' \<longleftrightarrow> holds s t' \<and> t' \<noteq> t" for t s t'
    by (auto simp: slot_release_def holds_def split: option.splits)
qed

section \<open>A swap's window stays closed\<close>

text \<open>Operations of the slot other than the swap's own end, as one datatype of requests.\<close>

datatype slot_event =
    EvAcquire string string rat "rat option" rat
  | EvRelease string
  | EvSetChild string int
  | EvBeginSwap string

fun slot_run :: "slot_event \<Rightarrow> slot \<Rightarrow> slot" where
  "slot_run (EvAcquire t k e f n) s = (case slot_acquire t k e f n s of Inl _ \<Rightarrow> s | Inr (_, s') \<Rightarrow> s')"
| "slot_run (EvRelease t) s = slot_release t s"
| "slot_run (EvSetChild t p) s = slot_set_child t p s"
| "slot_run (EvBeginSwap t) s = (case begin_swap t s of Inl _ \<Rightarrow> s | Inr s' \<Rightarrow> s')"

lemma swap_window_step:
  assumes "sl_swap s = Some target" "\<And>t. holds s t \<Longrightarrow> t = target \<or> t = old"
  shows "sl_swap (slot_run e s) = Some target" "holds (slot_run e s) t \<Longrightarrow> t = target \<or> t = old"
proof -
  show "sl_swap (slot_run e s) = Some target"
    using assms(1) by (cases e) (auto simp: slot_acquire_def slot_release_def slot_set_child_def begin_swap_def
        Let_def split: sum.splits option.splits if_splits)
  show "holds (slot_run e s) t \<Longrightarrow> t = target \<or> t = old"
    using assms by (cases e) (auto simp: slot_acquire_def slot_release_def slot_set_child_def begin_swap_def
        holds_def Let_def split: sum.splits option.splits if_splits)
qed

text \<open>While a swap reservation is up, no sequence of acquisitions, releases and concurrent
  swaps admits a third tenant: the slot is only ever held by the swap's target or by the tenant that
  held it when the swap began, and the reservation survives.\<close>

theorem swap_window_admits_only_target:
  assumes "begin_swap target s = Inr s0" "\<And>t. holds s t \<Longrightarrow> t = old"
  shows "sl_swap (fold slot_run es s0) = Some target \<and> (holds (fold slot_run es s0) t \<longrightarrow> t = target \<or> t = old)"
proof -
  have "sl_swap (fold slot_run es s1) = Some target \<and>
      (\<forall>t. holds (fold slot_run es s1) t \<longrightarrow> t = target \<or> t = old)"
    if "sl_swap s1 = Some target" "\<And>t. holds s1 t \<Longrightarrow> t = target \<or> t = old" for s1
    using that
  proof (induction es arbitrary: s1)
    case (Cons e es)
    show ?case using Cons.IH[of "slot_run e s1"] swap_window_step[OF Cons.prems(1), where old = old] Cons.prems(2)
      by simp
  qed simp
  moreover have "sl_swap s0 = Some target" "\<And>t. holds s0 t \<Longrightarrow> t = target \<or> t = old"
    using assms by (auto simp: begin_swap_def holds_def split: option.splits)
  ultimately show ?thesis by blast
qed

definition llm_slot :: slot where
  "llm_slot = (init_slot 12)\<lparr> sl_holder := Some \<lparr> h_tenant = ''llm'', h_kind = ''serving'', h_est = 4,
     h_child = Some 7, h_at = 0 \<rparr> \<rparr>"

theorem swap_window_admits_only_target_witness:
  "\<exists>s0. begin_swap ''asr'' llm_slot = Inr s0 \<and> holds s0 ''llm'' \<and>
     sl_holder (fold slot_run [EvRelease ''llm'', EvAcquire ''tts'' ''serving'' 4 (Some 9) 0] s0) = None \<and>
     sl_swap (fold slot_run [EvRelease ''llm'', EvAcquire ''tts'' ''serving'' 4 (Some 9) 0] s0) = Some ''asr''"
proof -
  let ?es = "[EvRelease ''llm'', EvAcquire ''tts'' ''serving'' 4 (Some 9) 0]"
  have "case begin_swap ''asr'' llm_slot of Inl _ \<Rightarrow> False
      | Inr s0 \<Rightarrow> holds s0 ''llm'' \<and> sl_holder (fold slot_run ?es s0) = None" by code_simp
  then obtain s0 where s0: "begin_swap ''asr'' llm_slot = Inr s0" "holds s0 ''llm''"
    "sl_holder (fold slot_run ?es s0) = None" by (auto split: sum.splits)
  have "t = ''llm''" if "holds llm_slot t" for t using that by (simp add: holds_def llm_slot_def)
  then show ?thesis using swap_window_admits_only_target[OF s0(1), of "''llm''"] s0 by blast
qed

end
