(* ===== verification/EngineLifecycle.thy ===== *)
theory EngineLifecycle
  imports SlotAdmission
begin

text \<open>
  \<open>hostagent/lifecycle.py\<close>: one engine's load, drain, teardown and idle reap over the GPU slot, and the
  threads that call them.  An \<open>ensure_loaded\<close> is split where other threads can act: the flag is raised
  before the runtime lock is taken, the slot is acquired before the child exists, and the flag is
  lowered after the lock is released.  What the adapter and the child process answer is carried by the
  events.  A child is its pid and whether \<open>poll()\<close> says it is alive.
\<close>

record engine =
  en_gpu :: bool
  en_enabled :: bool
  en_idle_timeout :: rat
  en_ready_wait :: rat
  en_child :: "(int \<times> bool) option"
  en_last_used :: "rat option"
  en_wedged :: bool
  en_loading :: bool

definition engine_resident :: "engine \<Rightarrow> bool" where
  "engine_resident e = (case en_child e of None \<Rightarrow> False | Some (_, alive) \<Rightarrow> alive)"

datatype engine_state = EDisabled | EWedged | EUnavailable | EReady | ELoading | ECold

definition engine_state_of :: "bool \<Rightarrow> bool \<Rightarrow> engine \<Rightarrow> engine_state" where
  "engine_state_of available ready e =
     (if \<not> en_enabled e then EDisabled else if en_wedged e then EWedged
      else if \<not> available then EUnavailable
      else if engine_resident e then (if ready then EReady else ELoading) else ECold)"

section \<open>Teardown\<close>

datatype unload_status = UIdle | UUnloaded | UBusy

definition slot_drop :: "engine \<Rightarrow> string \<Rightarrow> slot \<Rightarrow> slot" where
  "slot_drop e i s = (if en_gpu e then slot_release i s else s)"

text \<open>\<open>_teardown\<close>: \<open>tw\<close> and \<open>kw\<close> say whether the child was gone after \<open>terminate\<close> and after \<open>kill\<close>.\<close>

definition teardown :: "bool \<Rightarrow> bool \<Rightarrow> string \<Rightarrow> engine \<Rightarrow> slot \<Rightarrow> unload_status \<times> engine \<times> slot" where
  "teardown tw kw i e s =
     (if \<not> engine_resident e then
        (UIdle, e\<lparr> en_child := None, en_wedged := False \<rparr>, slot_drop e i s)
      else if \<not> tw \<and> \<not> kw then (UBusy, e\<lparr> en_wedged := True \<rparr>, s)
      else (UUnloaded, e\<lparr> en_child := None, en_wedged := False \<rparr>, slot_drop e i s))"

definition unload :: "bool \<Rightarrow> bool \<Rightarrow> bool \<Rightarrow> string \<Rightarrow> engine \<Rightarrow> slot \<Rightarrow> unload_status \<times> engine \<times> slot" where
  "unload acquired tw kw i e s =
     (if \<not> acquired \<and> en_loading e then (UBusy, e, s) else teardown tw kw i e s)"

text \<open>\<open>idle_reap\<close>: the boolean is the method's result.\<close>

definition idle_reap :: "rat \<Rightarrow> bool \<Rightarrow> bool \<Rightarrow> string \<Rightarrow> engine \<Rightarrow> slot \<Rightarrow> bool \<times> engine \<times> slot" where
  "idle_reap now tw kw i e s =
     (if en_child e \<noteq> None \<and> \<not> engine_resident e then (True, snd (teardown tw kw i e s))
      else case en_last_used e of
        None \<Rightarrow> (False, e, s)
      | Some t \<Rightarrow>
          if engine_resident e \<and> now - t > en_idle_timeout e
          then (True, snd (unload True tw kw i e s)) else (False, e, s))"

section \<open>Loading\<close>

datatype begin_result = BError | BHeld adm_error | BReady | BProceed

text \<open>\<open>ensure_loaded\<close> under the runtime lock, up to the point where the child is spawned.\<close>

definition ensure_begin ::
  "bool \<Rightarrow> bool \<Rightarrow> bool \<Rightarrow> bool \<Rightarrow> string \<Rightarrow> rat \<Rightarrow> rat option \<Rightarrow> rat \<Rightarrow> string \<Rightarrow> engine \<Rightarrow> slot
     \<Rightarrow> begin_result \<times> engine \<times> slot" where
  "ensure_begin ready avail tw kw kind est free now i e s =
     (if \<not> en_enabled e \<or> en_wedged e then (BError, e, s)
      else if engine_resident e \<and> ready then (BReady, e\<lparr> en_last_used := Some now \<rparr>, s)
      else if \<not> avail then (BError, e, s)
      else
        (let (e1, s1) = (if engine_resident e then snd (unload True tw kw i e s) else (e, s))
         in if en_wedged e1 then (BError, e1, s1)
            else if en_gpu e1 then
              (case slot_acquire i kind est free now s1 of
                 Inl err \<Rightarrow> (BHeld err, e1, s1)
               | Inr (_, s2) \<Rightarrow> (BProceed, e1, s2))
            else (BProceed, e1, s1)))"

datatype wait_result = WReady | WExited | WTimeout

text \<open>The readiness loop: \<open>probe n\<close> is what the adapter's \<open>ready()\<close> and the child's liveness say the
  \<open>n\<close>-th time round.\<close>

function wait_ready :: "rat \<Rightarrow> rat \<Rightarrow> (nat \<Rightarrow> bool \<times> bool) \<Rightarrow> nat \<Rightarrow> wait_result" where
  "wait_ready limit waited probe n =
     (if waited \<le> limit then
        (if fst (probe n) then WReady
         else if \<not> snd (probe n) then WExited
         else wait_ready limit (waited + 1 / 2) probe (n + 1))
      else WTimeout)"
  by pat_completeness auto
termination
proof (relation "measure (\<lambda>(limit, waited, probe, n). nat (floor (2 * (limit - waited)) + 1))")
  fix limit waited :: rat and probe :: "nat \<Rightarrow> bool \<times> bool" and n
  assume "waited \<le> limit"
  then have "0 \<le> floor (2 * (limit - waited))" by simp
  moreover have "2 * (limit - (waited + 1 / 2)) = 2 * (limit - waited) - 1" by (simp add: algebra_simps)
  then have "floor (2 * (limit - (waited + 1 / 2))) = floor (2 * (limit - waited)) - 1" by (metis floor_diff_one)
  ultimately show "((limit, waited + 1 / 2, probe, n + 1), (limit, waited, probe, n))
      \<in> measure (\<lambda>(limit, waited, probe, n). nat (floor (2 * (limit - waited)) + 1))" by simp
qed simp

declare wait_ready.simps [simp del]

text \<open>\<open>_spawn_and_wait\<close> with the cleanup of a failed load; \<open>spawn\<close> is the child's pid, \<open>None\<close> when spawning
  raised.\<close>

definition ensure_finish ::
  "int option \<Rightarrow> (nat \<Rightarrow> bool \<times> bool) \<Rightarrow> bool \<Rightarrow> bool \<Rightarrow> rat \<Rightarrow> string \<Rightarrow> engine \<Rightarrow> slot \<Rightarrow> bool \<times> engine \<times> slot" where
  "ensure_finish spawn probe tw kw now i e s =
     (case spawn of
        None \<Rightarrow> (False, snd (unload True tw kw i e s))
      | Some pid \<Rightarrow>
          (let e1 = e\<lparr> en_child := Some (pid, True) \<rparr>;
               s1 = (if en_gpu e then slot_set_child i pid s else s)
           in case wait_ready (en_ready_wait e) 0 probe 0 of
                WReady \<Rightarrow> (True, e1\<lparr> en_last_used := Some now \<rparr>, s1)
              | WExited \<Rightarrow> (False, snd (unload True tw kw i (e1\<lparr> en_child := Some (pid, False) \<rparr>) s1))
              | WTimeout \<Rightarrow> (False, snd (unload True tw kw i e1 s1))))"

section \<open>Threads\<close>

datatype tpc = TOut | TFlagged string | TLoading string | TExit string

record host =
  hs_engines :: "string \<Rightarrow> engine"
  hs_slot :: slot
  hs_thread :: "nat \<Rightarrow> tpc"
  hs_lock :: "string \<Rightarrow> nat option"

datatype host_event =
    Enter nat string
  | Begin nat bool bool bool bool string rat "rat option" rat
  | Finish nat "int option" "nat \<Rightarrow> bool \<times> bool" bool bool rat
  | Leave nat
  | UnloadE string bool bool bool
  | Reap string rat bool bool
  | ChildExit string
  | JobAcquire string rat "rat option" rat
  | JobRelease string

definition put_engine :: "string \<Rightarrow> engine \<Rightarrow> slot \<Rightarrow> host \<Rightarrow> host" where
  "put_engine i e s h = h\<lparr> hs_engines := (hs_engines h)(i := e), hs_slot := s \<rparr>"

definition put_thread :: "nat \<Rightarrow> tpc \<Rightarrow> host \<Rightarrow> host" where
  "put_thread t p h = h\<lparr> hs_thread := (hs_thread h)(t := p) \<rparr>"

definition put_lock :: "string \<Rightarrow> nat option \<Rightarrow> host \<Rightarrow> host" where
  "put_lock i l h = h\<lparr> hs_lock := (hs_lock h)(i := l) \<rparr>"

definition set_flag :: "string \<Rightarrow> bool \<Rightarrow> host \<Rightarrow> host" where
  "set_flag i b h = h\<lparr> hs_engines := (hs_engines h)(i := (hs_engines h i)\<lparr> en_loading := b \<rparr>) \<rparr>"

fun host_step :: "host_event \<Rightarrow> host \<Rightarrow> host option" where
  "host_step (Enter t i) h = (case hs_thread h t of
      TOut \<Rightarrow> Some (put_thread t (TFlagged i) (set_flag i True h)) | _ \<Rightarrow> None)"
| "host_step (Begin t ready avail tw kw kind est free now) h = (case hs_thread h t of
      TFlagged i \<Rightarrow>
        if hs_lock h i \<noteq> None then None
        else (let (r, e, s) = ensure_begin ready avail tw kw kind est free now i (hs_engines h i) (hs_slot h)
              in Some (if r = BProceed
                       then put_thread t (TLoading i) (put_lock i (Some t) (put_engine i e s h))
                       else put_thread t (TExit i) (put_engine i e s h)))
    | _ \<Rightarrow> None)"
| "host_step (Finish t spawn probe tw kw now) h = (case hs_thread h t of
      TLoading i \<Rightarrow>
        (let (ok, e, s) = ensure_finish spawn probe tw kw now i (hs_engines h i) (hs_slot h)
         in Some (put_thread t (TExit i) (put_lock i None (put_engine i e s h))))
    | _ \<Rightarrow> None)"
| "host_step (Leave t) h = (case hs_thread h t of
      TExit i \<Rightarrow> Some (put_thread t TOut (set_flag i False h)) | _ \<Rightarrow> None)"
| "host_step (UnloadE i acquired tw kw) h =
     (if acquired \<and> hs_lock h i \<noteq> None then None
      else (let (r, e, s) = unload acquired tw kw i (hs_engines h i) (hs_slot h) in Some (put_engine i e s h)))"
| "host_step (Reap i now tw kw) h =
     (if hs_lock h i \<noteq> None then None
      else (let (r, e, s) = idle_reap now tw kw i (hs_engines h i) (hs_slot h) in Some (put_engine i e s h)))"
| "host_step (ChildExit i) h = (case en_child (hs_engines h i) of
      None \<Rightarrow> None
    | Some (pid, _) \<Rightarrow>
        Some (h\<lparr> hs_engines := (hs_engines h)(i := (hs_engines h i)\<lparr> en_child := Some (pid, False) \<rparr>) \<rparr>))"
| "host_step (JobAcquire j est free now) h = (case slot_acquire j ''job'' est free now (hs_slot h) of
      Inl _ \<Rightarrow> None | Inr (_, s) \<Rightarrow> Some (h\<lparr> hs_slot := s \<rparr>))"
| "host_step (JobRelease j) h = Some (h\<lparr> hs_slot := slot_release j (hs_slot h) \<rparr>)"

definition cold_engine :: engine where
  "cold_engine = \<lparr> en_gpu = True, en_enabled = True, en_idle_timeout = 120, en_ready_wait = 60,
     en_child = None, en_last_used = None, en_wedged = False, en_loading = False \<rparr>"

definition init_host :: "(string \<Rightarrow> engine) \<Rightarrow> rat \<Rightarrow> host" where
  "init_host es budget = \<lparr> hs_engines = (\<lambda>i. (es i)\<lparr> en_child := None, en_wedged := False, en_loading := False \<rparr>),
     hs_slot = init_slot budget, hs_thread = (\<lambda>_. TOut), hs_lock = (\<lambda>_. None) \<rparr>"

text \<open>The engine a thread is inside \<open>ensure_loaded\<close> of.\<close>

fun inside :: "tpc \<Rightarrow> string option" where
  "inside TOut = None"
| "inside (TFlagged i) = Some i"
| "inside (TLoading i) = Some i"
| "inside (TExit i) = Some i"

text \<open>Runs with at most one caller of \<open>ensure_loaded\<close> per engine at a time, and jobs that do not carry an
  engine's name.\<close>

fun solo :: "(string \<Rightarrow> bool) \<Rightarrow> host_event \<Rightarrow> host \<Rightarrow> bool" where
  "solo job (Enter t i) h = (\<not> job i \<and> (\<forall>u. inside (hs_thread h u) \<noteq> Some i))"
| "solo job (UnloadE i _ _ _) h = (\<not> job i)"
| "solo job (Reap i _ _ _) h = (\<not> job i)"
| "solo job (JobAcquire j _ _ _) h = job j"
| "solo job (JobRelease j) h = job j"
| "solo job e h = True"

inductive host_reach :: "(host_event \<Rightarrow> host \<Rightarrow> bool) \<Rightarrow> host \<Rightarrow> bool" for ok where
  host_init: "host_reach ok (init_host es budget)"
| host_next: "host_reach ok h \<Longrightarrow> ok e h \<Longrightarrow> host_step e h = Some h' \<Longrightarrow> host_reach ok h'"

section \<open>What one operation does to the slot\<close>

text \<open>\<open>slot_safe i e s e' s'\<close>: an operation of engine \<open>i\<close> leaves the other tenants' claims alone and, if it
  started with its own child covered by the slot, ends that way.\<close>

definition slot_safe :: "string \<Rightarrow> engine \<Rightarrow> slot \<Rightarrow> engine \<Rightarrow> slot \<Rightarrow> bool" where
  "slot_safe i e s e' s' = (en_gpu e' = en_gpu e \<and> en_loading e' = en_loading e \<and>
     (\<forall>t. t \<noteq> i \<longrightarrow> holds s t \<longrightarrow> holds s' t) \<and>
     (en_gpu e \<longrightarrow> (en_child e \<noteq> None \<longrightarrow> holds s i) \<longrightarrow> en_child e' \<noteq> None \<longrightarrow> holds s' i))"

lemma slot_safe_refl [simp]: "slot_safe i e s e s"
  by (simp add: slot_safe_def)

lemma teardown_safe: "teardown tw kw i e s = (r, e', s') \<Longrightarrow> slot_safe i e s e' s'"
  by (auto simp: teardown_def slot_drop_def slot_safe_def adm.release_owns engine_resident_def
      split: if_splits option.splits)

lemma unload_safe: "unload a tw kw i e s = (r, e', s') \<Longrightarrow> slot_safe i e s e' s'"
  by (auto simp: unload_def dest: teardown_safe split: if_splits)

lemma idle_reap_safe: "idle_reap now tw kw i e s = (r, e', s') \<Longrightarrow> slot_safe i e s e' s'"
  using teardown_safe[of tw kw i e s "fst (teardown tw kw i e s)" e' s']
    unload_safe[of True tw kw i e s "fst (unload True tw kw i e s)" e' s']
  by (auto simp: idle_reap_def prod_eq_iff split: if_splits option.splits)

lemma ensure_begin_safe:
  assumes "ensure_begin ready avail tw kw kind est free now i e s = (r, e', s')"
  shows "slot_safe i e s e' s' \<and> (r = BProceed \<longrightarrow> en_gpu e \<longrightarrow> holds s' i)"
proof -
  obtain e1 s1 where 1: "(if engine_resident e then snd (unload True tw kw i e s) else (e, s)) = (e1, s1)" by force
  have safe1: "slot_safe i e s e1 s1"
    using 1 unload_safe[of True tw kw i e s "fst (unload True tw kw i e s)" e1 s1]
    by (auto simp: prod_eq_iff split: if_splits)
  have acq: "slot_safe i e s e1 s2 \<and> holds s2 i" if "slot_acquire i kind est free now s1 = Inr (h, s2)" for h s2
    using safe1 adm.acquire_owns[OF that] adm.acquire_keeps[OF that] by (auto simp: slot_safe_def)
  have quiet: "slot_safe i e s (e\<lparr> en_last_used := Some now \<rparr>) s" by (simp add: slot_safe_def)
  have gpu: "en_gpu e1 = en_gpu e" using safe1 by (simp add: slot_safe_def)
  consider (early) "r \<noteq> BProceed" "e' = e \<and> s' = s \<or> e' = e\<lparr> en_last_used := Some now \<rparr> \<and> s' = s"
    | (stop) "r \<noteq> BProceed" "e' = e1" "s' = s1"
    | (own) h where "e' = e1" "slot_acquire i kind est free now s1 = Inr (h, s')"
    | (cpu) "e' = e1" "s' = s1" "\<not> en_gpu e1"
  proof (cases "\<not> en_enabled e \<or> en_wedged e \<or> engine_resident e \<and> ready \<or> \<not> avail")
    case True
    then show ?thesis using assms early by (auto simp: ensure_begin_def split: if_splits)
  next
    case False
    then have "(if en_wedged e1 then (BError, e1, s1)
        else if en_gpu e1 then (case slot_acquire i kind est free now s1 of
            Inl err \<Rightarrow> (BHeld err, e1, s1) | Inr (_, s2) \<Rightarrow> (BProceed, e1, s2))
        else (BProceed, e1, s1)) = (r, e', s')"
      using assms unfolding ensure_begin_def by (simp only: 1 Let_def if_False prod.case) (cases "engine_resident e"; simp)
    then show ?thesis using stop own cpu by (auto split: if_splits sum.splits)
  qed
  then show ?thesis
  proof cases
    case early
    then show ?thesis using quiet by auto
  next
    case stop
    then show ?thesis using safe1 by simp
  next
    case (own h)
    then show ?thesis using acq by simp
  next
    case cpu
    then show ?thesis using safe1 gpu by simp
  qed
qed

lemma ensure_finish_safe:
  assumes "ensure_finish spawn probe tw kw now i e s = (ok, e', s')" and own: "en_gpu e \<Longrightarrow> holds s i"
  shows "slot_safe i e s e' s'"
proof (cases spawn)
  case None
  then show ?thesis
    using assms unload_safe[of True tw kw i e s "fst (unload True tw kw i e s)" e' s']
    by (auto simp: ensure_finish_def prod_eq_iff)
next
  case (Some pid)
  let ?s1 = "if en_gpu e then slot_set_child i pid s else s"
  have step: "slot_safe i e s e' s'"
    if "slot_safe i e1 ?s1 e' s'" "en_gpu e1 = en_gpu e" "en_loading e1 = en_loading e" for e1
    using that own by (auto simp: slot_safe_def adm.set_child_owns split: if_splits)
  show ?thesis
  proof (cases "wait_ready (en_ready_wait e) 0 probe 0")
    case WReady
    then show ?thesis using assms Some own by (auto simp: ensure_finish_def Let_def slot_safe_def adm.set_child_owns)
  next
    case WExited
    let ?e1 = "e\<lparr> en_child := Some (pid, False) \<rparr>"
    have "(e', s') = snd (unload True tw kw i ?e1 ?s1)"
      using assms(1) Some WExited by (simp add: ensure_finish_def Let_def)
    then have "slot_safe i ?e1 ?s1 e' s'"
      using unload_safe[of True tw kw i ?e1 ?s1 "fst (unload True tw kw i ?e1 ?s1)" e' s'] by (simp add: prod_eq_iff)
    then show ?thesis by (rule step) simp_all
  next
    case WTimeout
    let ?e1 = "e\<lparr> en_child := Some (pid, True) \<rparr>"
    have "(e', s') = snd (unload True tw kw i ?e1 ?s1)"
      using assms(1) Some WTimeout by (simp add: ensure_finish_def Let_def)
    then have "slot_safe i ?e1 ?s1 e' s'"
      using unload_safe[of True tw kw i ?e1 ?s1 "fst (unload True tw kw i ?e1 ?s1)" e' s'] by (simp add: prod_eq_iff)
    then show ?thesis by (rule step) simp_all
  qed
qed

section \<open>The host's invariant\<close>

definition covered :: "host \<Rightarrow> string \<Rightarrow> bool" where
  "covered h i = (en_gpu (hs_engines h i) \<and> (en_child (hs_engines h i) \<noteq> None \<or> (\<exists>t. hs_thread h t = TLoading i)) \<longrightarrow>
     holds (hs_slot h) i)"

definition host_inv :: "(string \<Rightarrow> bool) \<Rightarrow> host \<Rightarrow> bool" where
  "host_inv job h = ((\<forall>i. covered h i) \<and>
     (\<forall>i. job i \<longrightarrow> en_child (hs_engines h i) = None \<and> (\<forall>t. inside (hs_thread h t) \<noteq> Some i)) \<and>
     (\<forall>t u i. inside (hs_thread h t) = Some i \<longrightarrow> inside (hs_thread h u) = Some i \<longrightarrow> t = u) \<and>
     (\<forall>t i. hs_thread h t = TLoading i \<longrightarrow> hs_lock h i \<noteq> None) \<and>
     (\<forall>t i. inside (hs_thread h t) = Some i \<longrightarrow> en_loading (hs_engines h i)))"

lemma host_invD:
  assumes "host_inv job h"
  shows "covered h i" and "job i \<Longrightarrow> en_child (hs_engines h i) = None"
    and "job i \<Longrightarrow> inside (hs_thread h t) \<noteq> Some i"
    and "inside (hs_thread h t) = Some i \<Longrightarrow> inside (hs_thread h u) = Some i \<Longrightarrow> t = u"
    and "hs_thread h t = TLoading i \<Longrightarrow> hs_lock h i \<noteq> None"
    and "inside (hs_thread h t) = Some i \<Longrightarrow> en_loading (hs_engines h i)"
  using assms unfolding host_inv_def by blast+

text \<open>An operation of engine \<open>i\<close> while no thread is loading it.\<close>

lemma host_inv_engine:
  assumes inv: "host_inv job h" and safe: "slot_safe i (hs_engines h i) (hs_slot h) e s"
    and idle: "\<And>t. hs_thread h t \<noteq> TLoading i" and nj: "\<not> job i"
  shows "host_inv job (put_engine i e s h)"
proof -
  have "covered (put_engine i e s h) k" for k
  proof (cases "k = i")
    case True
    then show ?thesis using host_invD(1)[OF inv, of i] safe idle by (auto simp: covered_def put_engine_def slot_safe_def)
  next
    case False
    then show ?thesis using host_invD(1)[OF inv, of k] safe by (auto simp: covered_def put_engine_def slot_safe_def)
  qed
  moreover have "en_loading e = en_loading (hs_engines h i)" using safe by (simp add: slot_safe_def)
  ultimately show ?thesis
    using inv nj unfolding host_inv_def by (auto simp: put_engine_def split: if_splits)
qed

lemma host_inv_enter:
  assumes inv: "host_inv job h" and pc: "hs_thread h t = TOut"
    and ok: "\<not> job i" "\<And>u. inside (hs_thread h u) \<noteq> Some i"
  shows "host_inv job (put_thread t (TFlagged i) (set_flag i True h))"
proof -
  have "covered (put_thread t (TFlagged i) (set_flag i True h)) k" for k
    using host_invD(1)[OF inv, of k] pc by (auto simp: covered_def put_thread_def set_flag_def)
  then show ?thesis
    using inv ok pc unfolding host_inv_def by (auto simp: put_thread_def set_flag_def split: if_splits)
qed

text \<open>An operation after which every thread is still inside the engine it was in.\<close>

lemma host_inv_repc:
  assumes inv: "host_inv job h" and th: "\<And>u. inside (hs_thread h' u) = inside (hs_thread h u)"
    and cov: "\<And>k. covered h' k" and cold: "\<And>k. job k \<Longrightarrow> en_child (hs_engines h' k) = None"
    and lk: "\<And>u k. hs_thread h' u = TLoading k \<Longrightarrow> hs_lock h' k \<noteq> None"
    and fl: "\<And>k. en_loading (hs_engines h' k) = en_loading (hs_engines h k)"
  shows "host_inv job h'"
  unfolding host_inv_def th fl using cov cold lk host_invD(3,4,6)[OF inv] by blast

lemma host_inv_slot:
  "host_inv job h \<Longrightarrow> (\<And>k. covered (h\<lparr> hs_slot := s \<rparr>) k) \<Longrightarrow> host_inv job (h\<lparr> hs_slot := s \<rparr>)"
  by (rule host_inv_repc) (auto dest: host_invD(2,5))

lemma host_inv_begin:
  assumes inv: "host_inv job h" and pc: "hs_thread h t = TFlagged i" and free: "hs_lock h i = None"
    and b: "ensure_begin ready avail tw kw kind est now fr i (hs_engines h i) (hs_slot h) = (r, e, s)"
  shows "host_inv job (if r = BProceed
      then put_thread t (TLoading i) (put_lock i (Some t) (put_engine i e s h))
      else put_thread t (TExit i) (put_engine i e s h))"
proof -
  note safe = ensure_begin_safe[OF b]
  have nl: "hs_thread h u \<noteq> TLoading i" for u using host_invD(5)[OF inv, of u i] free by auto
  have nj: "\<not> job i" using host_invD(3)[OF inv, of i t] pc by auto
  have put: "host_inv job (put_engine i e s h)" using host_inv_engine[OF inv _ nl nj] safe by blast
  have gpu: "en_gpu e = en_gpu (hs_engines h i)" using safe by (simp add: slot_safe_def)
  have own: "en_gpu e \<Longrightarrow> r = BProceed \<Longrightarrow> holds s i" using safe gpu by simp
  have pc': "hs_thread (put_engine i e s h) t = TFlagged i" using pc by (simp add: put_engine_def)
  show ?thesis
  proof (cases "r = BProceed")
    case True
    let ?h = "put_thread t (TLoading i) (put_lock i (Some t) (put_engine i e s h))"
    have "host_inv job ?h"
    proof (rule host_inv_repc[OF put])
      show "covered ?h k" for k
        using host_invD(1)[OF put, of k] own True
        by (cases "k = i") (auto simp: covered_def put_thread_def put_lock_def put_engine_def split: if_splits)
      show "en_child (hs_engines ?h k) = None" if "job k" for k
        using host_invD(2)[OF put that] by (simp add: put_thread_def put_lock_def)
      show "hs_lock ?h k \<noteq> None" if "hs_thread ?h u = TLoading k" for u k
        using that host_invD(5)[OF put, of u k] by (auto simp: put_thread_def put_lock_def split: if_splits)
    qed (use pc' in \<open>simp_all add: put_thread_def put_lock_def\<close>)
    then show ?thesis using True by simp
  next
    case False
    let ?h = "put_thread t (TExit i) (put_engine i e s h)"
    have "host_inv job ?h"
    proof (rule host_inv_repc[OF put])
      show "covered ?h k" for k
        using host_invD(1)[OF put, of k] by (auto simp: covered_def put_thread_def put_engine_def split: if_splits)
      show "en_child (hs_engines ?h k) = None" if "job k" for k
        using host_invD(2)[OF put that] by (simp add: put_thread_def)
      show "hs_lock ?h k \<noteq> None" if "hs_thread ?h u = TLoading k" for u k
        using that host_invD(5)[OF put, of u k] by (auto simp: put_thread_def split: if_splits)
    qed (use pc' in \<open>simp_all add: put_thread_def\<close>)
    then show ?thesis using False by simp
  qed
qed

lemma host_inv_finish:
  assumes inv: "host_inv job h" and pc: "hs_thread h t = TLoading i"
    and f: "ensure_finish spawn probe tw kw now i (hs_engines h i) (hs_slot h) = (ok, e, s)"
  shows "host_inv job (put_thread t (TExit i) (put_lock i None (put_engine i e s h)))"
proof -
  have own: "en_gpu (hs_engines h i) \<Longrightarrow> holds (hs_slot h) i"
    using host_invD(1)[OF inv, of i] pc by (auto simp: covered_def)
  note safe = ensure_finish_safe[OF f own]
  have only: "hs_thread h u = TLoading i \<Longrightarrow> u = t" for u
    using host_invD(4)[OF inv, of u i t] pc by simp
  have nj: "\<not> job i" using host_invD(3)[OF inv, of i t] pc by auto
  let ?h = "put_thread t (TExit i) (put_lock i None (put_engine i e s h))"
  show ?thesis
  proof (rule host_inv_repc[OF inv])
    show "covered ?h k" for k
    proof (cases "k = i")
      case True
      then show ?thesis using own safe only
        by (auto simp: covered_def put_thread_def put_lock_def put_engine_def slot_safe_def)
    next
      case False
      then show ?thesis using host_invD(1)[OF inv, of k] safe
        by (auto simp: covered_def put_thread_def put_lock_def put_engine_def slot_safe_def split: if_splits)
    qed
    show "en_child (hs_engines ?h k) = None" if "job k" for k
      using host_invD(2)[OF inv that] that nj by (auto simp: put_thread_def put_lock_def put_engine_def)
    show "hs_lock ?h k \<noteq> None" if "hs_thread ?h u = TLoading k" for u k
      using that host_invD(5)[OF inv, of u k] only
      by (auto simp: put_thread_def put_lock_def put_engine_def split: if_splits)
  qed (use pc safe in \<open>auto simp: put_thread_def put_lock_def put_engine_def slot_safe_def\<close>)
qed

lemma host_inv_leave:
  assumes inv: "host_inv job h" and pc: "hs_thread h t = TExit i"
  shows "host_inv job (put_thread t TOut (set_flag i False h))"
proof -
  have only: "inside (hs_thread h u) = Some i \<Longrightarrow> u = t" for u using host_invD(4)[OF inv, of u i t] pc by auto
  have "covered (put_thread t TOut (set_flag i False h)) k" for k
    using host_invD(1)[OF inv, of k] by (auto simp: covered_def put_thread_def set_flag_def split: if_splits)
  then show ?thesis
    using inv only unfolding host_inv_def by (auto simp: put_thread_def set_flag_def split: if_splits)
qed

interpretation engine_host: machine host_step "solo job" "host_inv job" for job
proof
  fix h e h'
  assume inv: "host_inv job h" and ok: "solo job e h" and st: "host_step e h = Some h'"
  show "host_inv job h'"
  proof (cases e)
    case (Enter t i)
    then show ?thesis using st ok host_inv_enter[OF inv] by (auto split: tpc.splits)
  next
    case (Begin t ready avail tw kw kind est fr now)
    then obtain i where pc: "hs_thread h t = TFlagged i" and free: "hs_lock h i = None"
      using st by (auto split: tpc.splits if_splits)
    obtain r e1 s where b: "ensure_begin ready avail tw kw kind est fr now i (hs_engines h i) (hs_slot h) = (r, e1, s)"
      by (rule prod_cases3)
    show ?thesis using st Begin pc free b host_inv_begin[OF inv pc free b] by (simp split: if_splits)
  next
    case (Finish t spawn probe tw kw now)
    then obtain i where pc: "hs_thread h t = TLoading i" using st by (auto split: tpc.splits)
    obtain ok e1 s where f: "ensure_finish spawn probe tw kw now i (hs_engines h i) (hs_slot h) = (ok, e1, s)"
      by (rule prod_cases3)
    show ?thesis using st Finish pc f host_inv_finish[OF inv pc f] by simp
  next
    case (Leave t)
    then show ?thesis using st host_inv_leave[OF inv] by (auto split: tpc.splits)
  next
    case (UnloadE i acquired tw kw)
    show ?thesis
    proof (cases "\<exists>t. hs_thread h t = TLoading i")
      case True
      then obtain t where t: "hs_thread h t = TLoading i" by blast
      have "hs_lock h i \<noteq> None" "en_loading (hs_engines h i)"
        using host_invD(5)[OF inv t] host_invD(6)[OF inv, of t i] t by simp_all
      then have "h' = put_engine i (hs_engines h i) (hs_slot h) h"
        using st UnloadE by (auto simp: unload_def split: if_splits)
      then show ?thesis using inv by (simp add: put_engine_def)
    next
      case False
      then show ?thesis using st UnloadE ok
        by (auto split: if_splits prod.splits simp: Let_def intro!: host_inv_engine[OF inv] dest: unload_safe)
    qed
  next
    case (Reap i now tw kw)
    then have "hs_thread h t \<noteq> TLoading i" for t using st host_invD(5)[OF inv, of t i] by auto
    then show ?thesis using st Reap ok
      by (auto split: if_splits prod.splits simp: Let_def intro!: host_inv_engine[OF inv] dest: idle_reap_safe)
  next
    case (ChildExit i)
    then obtain pid b where c: "en_child (hs_engines h i) = Some (pid, b)"
      and h': "h' = h\<lparr> hs_engines := (hs_engines h)(i := (hs_engines h i)\<lparr> en_child := Some (pid, False) \<rparr>) \<rparr>"
      using st by (auto split: option.splits)
    have th: "hs_thread h' = hs_thread h" "hs_lock h' = hs_lock h" "hs_slot h' = hs_slot h" using h' by simp_all
    show ?thesis
    proof (rule host_inv_repc[OF inv])
      show "covered h' k" for k using host_invD(1)[OF inv, of k] c th by (cases "k = i") (auto simp: covered_def h')
      show "en_child (hs_engines h' k) = None" if "job k" for k using host_invD(2)[OF inv that] c h' by auto
      show "hs_lock h' k \<noteq> None" if "hs_thread h' u = TLoading k" for u k using that host_invD(5)[OF inv] th by simp
      show "en_loading (hs_engines h' k) = en_loading (hs_engines h k)" for k using h' by simp
    qed (simp add: th)
  next
    case (JobAcquire j est free now)
    then obtain x s where a: "slot_acquire j ''job'' est free now (hs_slot h) = Inr (x, s)" "h' = h\<lparr> hs_slot := s \<rparr>"
      using st by (auto split: sum.splits)
    have "covered h' i" for i using host_invD(1)[OF inv, of i] adm.acquire_keeps[OF a(1)] a(2) by (auto simp: covered_def)
    then show ?thesis using host_inv_slot[OF inv, of s] a(2) by simp
  next
    case (JobRelease j)
    have "covered h' i" for i
    proof (cases "i = j")
      case True
      then show ?thesis using st JobRelease ok host_invD(2,3)[OF inv] by (auto simp: covered_def) (metis inside.simps(3))+
    next
      case False
      then show ?thesis using st JobRelease host_invD(1)[OF inv, of i] by (auto simp: covered_def adm.release_owns)
    qed
    then show ?thesis using st JobRelease host_inv_slot[OF inv, of "slot_release j (hs_slot h)"] by auto
  qed
qed

lemma host_inv_init: "host_inv job (init_host es budget)"
  by (simp add: host_inv_def init_host_def covered_def)

lemma host_reach_inv: "host_reach (solo job) h \<Longrightarrow> host_inv job h"
  by (induction rule: host_reach.induct) (auto intro: host_inv_init engine_host.inv_step)

section \<open>Properties\<close>


text \<open>Events that load an engine completely on an idle host.\<close>

definition full_load :: "nat \<Rightarrow> string \<Rightarrow> int \<Rightarrow> host_event list" where
  "full_load t i pid = [Enter t i, Begin t True True True True ''serving'' 4 (Some 9) 0,
     Finish t (Some pid) (\<lambda>_. (True, True)) True True 1, Leave t]"

lemma run_host_reach:
  "run_events host_step es h = Some h' \<Longrightarrow> host_reach (\<lambda>_ _. True) h \<Longrightarrow> host_reach (\<lambda>_ _. True) h'"
  by (induction es arbitrary: h) (auto split: option.splits intro: host_next)


text \<open>The \<open>_loading\<close> flag does not protect overlapping loads.  A second \<open>ensure_loaded\<close>
  raises the flag before it has the lock; when the first one fails and lowers the flag on its way out,
  the second loads unflagged, a hard-cut unload releases its slot, another engine is admitted, and two GPU
  engines run at once: the double admission the flag exists to prevent.\<close>

theorem overlapping_loads_admit_two_engines:
  "\<exists>h. host_reach (\<lambda>_ _. True) h \<and> en_gpu (hs_engines h ''llm'') \<and> en_gpu (hs_engines h ''asr'') \<and>
     en_child (hs_engines h ''llm'') = Some (7, True) \<and> en_child (hs_engines h ''asr'') = Some (8, True)"
proof -
  let ?es = "[Enter 1 ''llm'', Enter 2 ''llm'', Begin 1 True True True True ''serving'' 4 (Some 9) 0,
    Finish 1 None (\<lambda>_. (True, True)) True True 1, Leave 1,
    Begin 2 True True True True ''serving'' 4 (Some 9) 2, UnloadE ''llm'' False True True] @
    full_load 3 ''asr'' 8 @ [Finish 2 (Some 7) (\<lambda>_. (True, True)) True True 3]"
  have "case run_events host_step ?es (init_host (\<lambda>_. cold_engine) 12) of None \<Rightarrow> False
    | Some h \<Rightarrow> en_gpu (hs_engines h ''llm'') \<and> en_gpu (hs_engines h ''asr'') \<and>
        en_child (hs_engines h ''llm'') = Some (7, True) \<and> en_child (hs_engines h ''asr'') = Some (8, True)"
    by code_simp
  then obtain h where "run_events host_step ?es (init_host (\<lambda>_. cold_engine) 12) = Some h"
    "en_gpu (hs_engines h ''llm'')" "en_gpu (hs_engines h ''asr'')"
    "en_child (hs_engines h ''llm'') = Some (7, True)" "en_child (hs_engines h ''asr'') = Some (8, True)"
    by (auto split: option.splits)
  then show ?thesis using run_host_reach[OF _ host_init] by blast
qed

end
