(* ===== verification/BrokerLane.thy ===== *)
theory BrokerLane
  imports Prelude
begin

text \<open>
  \<open>platformlib/storeimpl/brokerjobs.py\<close> over the table \<open>broker_jobs\<close> of
  \<open>platformlib/migrations/003_broker.sql\<close>: the persisted FIFO lane.  The table is the list of its rows
  under their primary key; a statement that would break a constraint of the table is refused and its
  transaction undone, so an operation returns an error or the whole new table.  A statement that updates
  several rows updates them one after the other, in the order of the list, and the unique index on the
  lane position is checked at every one of them, as Postgres does for an index that is not deferrable.
  Two transactions interleave between statements.
\<close>

datatype jstate = JQueued | JRunning | JSucceeded | JFailed | JCancelled | JInterrupted

definition terminal :: "jstate \<Rightarrow> bool" where
  "terminal s = (s = JSucceeded \<or> s = JFailed \<or> s = JCancelled \<or> s = JInterrupted)"

record bjob =
  bj_tenant :: string
  bj_kind :: string
  bj_spec :: string
  bj_state :: jstate
  bj_pos :: "int option"
  bj_sandbox :: string
  bj_artifact :: "string option"
  bj_model :: "string option"
  bj_gpu :: "rat option"
  bj_created :: rat
  bj_started :: "rat option"
  bj_ended :: "rat option"

type_synonym lane_table = "(string, bjob) dict"

datatype lane_error = NoSuchJob | NotQueued "jstate option" | NotTerminal | Violation

section \<open>The table\<close>

definition is_queued :: "bjob \<Rightarrow> bool" where
  "is_queued j = (bj_state j = JQueued)"

definition queued_ids :: "lane_table \<Rightarrow> string list" where
  "queued_ids t = map fst (filter (is_queued \<circ> snd) t)"

definition pos_of :: "lane_table \<Rightarrow> string \<Rightarrow> int" where
  "pos_of t i = (case map_of t i of None \<Rightarrow> 0 | Some j \<Rightarrow> (case bj_pos j of None \<Rightarrow> 0 | Some p \<Rightarrow> p))"

text \<open>The table's constraints: the primary key, \<open>broker_jobs_queue_pos_when_queued\<close>,
  \<open>broker_jobs_queue_order\<close> and \<open>broker_jobs_one_running\<close>.\<close>

definition lane_ok :: "lane_table \<Rightarrow> bool" where
  "lane_ok t = (distinct (dkeys t) \<and> (\<forall>(i, j) \<in> set t. is_queued j = (bj_pos j \<noteq> None)) \<and>
     distinct (map (pos_of t) (queued_ids t)) \<and>
     length (filter (\<lambda>(i, j). bj_state j = JRunning) t) \<le> 1)"

definition checked :: "lane_table \<Rightarrow> lane_error + lane_table" where
  "checked t = (if lane_ok t then Inr t else Inl Violation)"

text \<open>\<open>list_queued_broker_jobs\<close>: the ids in lane order.\<close>

definition lane :: "lane_table \<Rightarrow> string list" where
  "lane t = sort_key (pos_of t) (queued_ids t)"

definition running_job :: "lane_table \<Rightarrow> string option" where
  "running_job t = (case filter (\<lambda>(i, j). bj_state j = JRunning) t of [] \<Rightarrow> None | (i, _) # _ \<Rightarrow> Some i)"

section \<open>Operations\<close>

text \<open>\<open>coalesce(max(queue_pos), 0) + 1\<close> over the queued rows.\<close>

definition next_pos :: "lane_table \<Rightarrow> int" where
  "next_pos t = (case queued_ids t of [] \<Rightarrow> 1 | i # is \<Rightarrow> fold (\<lambda>k m. max m (pos_of t k)) is (pos_of t i) + 1)"

definition insert_job :: "int \<Rightarrow> rat \<Rightarrow> string \<Rightarrow> string \<Rightarrow> string \<Rightarrow> string \<Rightarrow> string \<Rightarrow> lane_table \<Rightarrow> lane_error + lane_table" where
  "insert_job p now i tenant kind spec sandbox t =
     (if map_of t i \<noteq> None \<or> kind \<notin> {''batch'', ''finetune'', ''hpo''} then Inl Violation
      else checked (t @ [(i, \<lparr> bj_tenant = tenant, bj_kind = kind, bj_spec = spec, bj_state = JQueued,
         bj_pos = Some p, bj_sandbox = sandbox, bj_artifact = None, bj_model = None, bj_gpu = None,
         bj_created = now, bj_started = None, bj_ended = None \<rparr>)]))"

definition enqueue :: "rat \<Rightarrow> string \<Rightarrow> string \<Rightarrow> string \<Rightarrow> string \<Rightarrow> string \<Rightarrow> lane_table \<Rightarrow> lane_error + lane_table" where
  "enqueue now i tenant kind spec sandbox t = insert_job (next_pos t) now i tenant kind spec sandbox t"

definition start_job :: "rat \<Rightarrow> string \<Rightarrow> lane_table \<Rightarrow> lane_error + lane_table" where
  "start_job now i t =
     (case map_of t i of
        None \<Rightarrow> Inl (NotQueued None)
      | Some j \<Rightarrow> if bj_state j = JQueued
          then checked (dict_upd i (\<lambda>j. j\<lparr> bj_state := JRunning, bj_pos := None, bj_started := Some now \<rparr>) t)
          else Inl (NotQueued None))"

definition coalesce :: "'a option \<Rightarrow> 'a option \<Rightarrow> 'a option" where
  "coalesce a b = (case a of None \<Rightarrow> b | Some x \<Rightarrow> Some x)"

definition finish_job :: "rat \<Rightarrow> string \<Rightarrow> jstate \<Rightarrow> rat option \<Rightarrow> string option \<Rightarrow> string option \<Rightarrow> lane_table
    \<Rightarrow> lane_error + lane_table" where
  "finish_job now i s gpu artifact model t =
     (if \<not> terminal s then Inl NotTerminal
      else Inr (dict_upd i (\<lambda>j. if terminal (bj_state j) then j
        else j\<lparr> bj_state := s, bj_pos := None, bj_ended := Some now, bj_gpu := coalesce gpu (bj_gpu j),
          bj_artifact := coalesce artifact (bj_artifact j), bj_model := coalesce model (bj_model j) \<rparr>) t))"

text \<open>\<open>UPDATE broker_jobs SET queue_pos = p WHERE id = i\<close>, one row after the other.\<close>

definition set_pos :: "string \<Rightarrow> int \<Rightarrow> lane_table \<Rightarrow> lane_error + lane_table" where
  "set_pos i p t =
     (if \<exists>k \<in> set (queued_ids t). k \<noteq> i \<and> pos_of t k = p then Inl Violation
      else Inr (dict_upd i (\<lambda>j. j\<lparr> bj_pos := Some p \<rparr>) t))"

fun assign :: "(string \<times> int) list \<Rightarrow> lane_table \<Rightarrow> lane_error + lane_table" where
  "assign [] t = Inr t"
| "assign ((i, p) # ps) t = (case set_pos i p t of Inl e \<Rightarrow> Inl e | Inr t' \<Rightarrow> assign ps t')"

text \<open>\<open>row_number() OVER (ORDER BY queue_pos)\<close>.\<close>

definition row_number :: "lane_table \<Rightarrow> string \<Rightarrow> int" where
  "row_number t i = int (length (filter (\<lambda>k. pos_of t k < pos_of t i) (queued_ids t))) + 1"

definition compact_up :: "lane_table \<Rightarrow> lane_error + lane_table" where
  "compact_up t = assign (map (\<lambda>i. (i, row_number t i + 1000000)) (queued_ids t)) t"

definition compact_down :: "lane_table \<Rightarrow> lane_error + lane_table" where
  "compact_down t = assign (map (\<lambda>i. (i, pos_of t i - 1000000)) (queued_ids t)) t"

definition compact :: "lane_table \<Rightarrow> lane_error + lane_table" where
  "compact t = (case compact_up t of Inl e \<Rightarrow> Inl e | Inr t' \<Rightarrow> compact_down t')"

definition mark_cancelled :: "rat \<Rightarrow> string \<Rightarrow> lane_table \<Rightarrow> lane_table" where
  "mark_cancelled now i t = dict_upd i (\<lambda>j. j\<lparr> bj_state := JCancelled, bj_pos := None, bj_ended := Some now \<rparr>) t"

definition cancel_job :: "rat \<Rightarrow> string \<Rightarrow> lane_table \<Rightarrow> lane_error + lane_table" where
  "cancel_job now i t =
     (case map_of t i of
        None \<Rightarrow> Inl NoSuchJob
      | Some j \<Rightarrow> if terminal (bj_state j) then Inr t else compact (mark_cancelled now i t))"

definition insert_at :: "int \<Rightarrow> 'a \<Rightarrow> 'a list \<Rightarrow> 'a list" where
  "insert_at position x xs =
     (let n = nat (max 0 (min (int (length xs)) (position - 1))) in take n xs @ [x] @ drop n xs)"

definition reorder_job :: "string \<Rightarrow> int \<Rightarrow> lane_table \<Rightarrow> lane_error + lane_table" where
  "reorder_job i position t =
     (case map_of t i of
        None \<Rightarrow> Inl NoSuchJob
      | Some j \<Rightarrow>
          if bj_state j \<noteq> JQueued then Inl (NotQueued (Some (bj_state j)))
          else (let ids = insert_at position i (remove1 i (lane t))
                in case assign (zip ids (map (\<lambda>n. int n + 1000000) [1..<length ids + 1])) t of
                     Inl e \<Rightarrow> Inl e | Inr t' \<Rightarrow> compact_down t'))"

definition pin_job :: "string \<Rightarrow> lane_table \<Rightarrow> lane_error + lane_table" where
  "pin_job i t = reorder_job i 1 t"

text \<open>\<open>recover_broker_lane\<close>: the interrupted jobs with their start times, the length of the lane, the table.\<close>

definition recover_lane :: "rat \<Rightarrow> lane_table \<Rightarrow> ((string \<times> rat option) list \<times> nat) \<times> lane_table" where
  "recover_lane now t =
     (let t' = map (\<lambda>(i, j). (i, if bj_state j = JRunning
           then j\<lparr> bj_state := JInterrupted, bj_pos := None, bj_ended := Some now \<rparr> else j)) t
      in ((map (\<lambda>(i, j). (i, bj_started j)) (filter (\<lambda>(i, j). bj_state j = JRunning) t), length (lane t')), t'))"

section \<open>Facts about the table\<close>

lemma lane_ok_distinct: "lane_ok t \<Longrightarrow> distinct (dkeys t)"
  by (simp add: lane_ok_def)

lemma set_queued_ids:
  assumes "distinct (dkeys t)"
  shows "i \<in> set (queued_ids t) \<longleftrightarrow> (\<exists>j. map_of t i = Some j \<and> is_queued j)"
proof -
  have "i \<in> set (queued_ids t) \<longleftrightarrow> (\<exists>j. (i, j) \<in> set t \<and> is_queued j)" by (force simp: queued_ids_def)
  then show ?thesis by (simp only: map_of_set_iff[OF assms])
qed

lemma distinct_queued_ids: "distinct (dkeys t) \<Longrightarrow> distinct (queued_ids t)"
  by (simp add: queued_ids_def distinct_map_filter)

lemma lane_ok_pos: "lane_ok t \<Longrightarrow> map_of t i = Some j \<Longrightarrow> is_queued j = (bj_pos j \<noteq> None)"
  unfolding lane_ok_def by (drule map_of_SomeD) fast

lemma lane_ok_inj: "lane_ok t \<Longrightarrow> inj_on (pos_of t) (set (queued_ids t))"
  by (simp add: lane_ok_def distinct_map)

lemma set_lane [simp]: "set (lane t) = set (queued_ids t)"
  by (simp add: lane_def)

lemma distinct_lane: "lane_ok t \<Longrightarrow> distinct (lane t)"
  by (simp add: lane_def lane_ok_distinct distinct_queued_ids)

lemma lane_positions: "lane_ok t \<Longrightarrow> sorted_wrt (<) (map (pos_of t) (lane t))"
  by (simp add: strict_sorted_iff lane_def distinct_map distinct_queued_ids[OF lane_ok_distinct] lane_ok_inj)

text \<open>The lane is the only list of the queued ids whose positions increase.\<close>

lemma lane_eqI:
  assumes ok: "lane_ok t" and ids: "set ids = set (queued_ids t)" and inc: "sorted_wrt (<) (map (pos_of t) ids)"
  shows "lane t = ids"
proof (rule map_inj_on)
  show "map (pos_of t) (lane t) = map (pos_of t) ids"
    using lane_positions[OF ok] inc by (intro strict_sorted_equal) (simp_all add: ids)
  show "inj_on (pos_of t) (set (lane t) \<union> set ids)" using lane_ok_inj[OF ok] ids by simp
qed

text \<open>What \<open>assign\<close> does when no update can collide.\<close>

definition place :: "(string \<times> int) list \<Rightarrow> lane_table \<Rightarrow> lane_table" where
  "place ps t = map (\<lambda>(i, j). (i, case map_of ps i of None \<Rightarrow> j | Some p \<Rightarrow> j\<lparr> bj_pos := Some p \<rparr>)) t"

lemma dkeys_place [simp]: "dkeys (place ps t) = dkeys t"
  by (induction t) (auto simp: place_def)

lemma map_of_place [dict_simps]:
  "map_of (place ps t) i = map_option (\<lambda>j. case map_of ps i of None \<Rightarrow> j | Some p \<Rightarrow> j\<lparr> bj_pos := Some p \<rparr>) (map_of t i)"
  unfolding place_def by (rule map_of_map_vals)

lemma is_queued_place: "is_queued (case x of None \<Rightarrow> j | Some p \<Rightarrow> j\<lparr> bj_pos := Some p \<rparr>) = is_queued j"
  by (simp add: is_queued_def split: option.splits)

lemma queued_ids_map:
  "(\<And>i j. is_queued (f i j) = is_queued j) \<Longrightarrow> queued_ids (map (\<lambda>(i, j). (i, f i j)) t) = queued_ids t"
  by (induction t) (auto simp: queued_ids_def)

lemma queued_ids_place [simp]: "queued_ids (place ps t) = queued_ids t"
  unfolding place_def by (rule queued_ids_map) (rule is_queued_place)

lemma queued_ids_set_pos: "queued_ids (dict_upd i (\<lambda>j. j\<lparr> bj_pos := p \<rparr>) t) = queued_ids t"
  unfolding dict_upd_def by (rule queued_ids_map) (simp add: is_queued_def)

lemma pos_of_set_pos:
  "pos_of (dict_upd i (\<lambda>j. j\<lparr> bj_pos := Some p \<rparr>) t) k = (if k = i \<and> map_of t i \<noteq> None then p else pos_of t k)"
  by (auto simp: pos_of_def map_of_dict_upd split: option.splits)

lemma pos_of_place:
  "map_of t i \<noteq> None \<Longrightarrow> pos_of (place ps t) i = (case map_of ps i of None \<Rightarrow> pos_of t i | Some p \<Rightarrow> p)"
  by (auto simp: pos_of_def map_of_place split: option.splits)

lemma place_dict_upd:
  "i \<notin> set (dkeys ps) \<Longrightarrow> place ps (dict_upd i (\<lambda>j. j\<lparr> bj_pos := Some p \<rparr>) t) = place ((i, p) # ps) t"
  by (induction t) (auto simp: place_def dict_upd_def map_of_eq_None_iff[THEN iffD2])

lemma assign_place:
  assumes "distinct (dkeys ps)" "distinct (map snd ps)" "set (dkeys ps) \<subseteq> set (queued_ids t)"
    and "distinct (dkeys t)" "\<And>k. k \<in> set (queued_ids t) \<Longrightarrow> pos_of t k \<notin> set (map snd ps)"
  shows "assign ps t = Inr (place ps t)"
  using assms
proof (induction ps arbitrary: t)
  case Nil
  then show ?case by (simp add: place_def)
next
  case (Cons ip ps)
  obtain i p where ip: "ip = (i, p)" by force
  let ?t = "dict_upd i (\<lambda>j. j\<lparr> bj_pos := Some p \<rparr>) t"
  have one: "set_pos i p t = Inr ?t" using Cons.prems(5) ip by (auto simp: set_pos_def)
  have "assign ps ?t = Inr (place ps ?t)"
  proof (rule Cons.IH)
    show "pos_of ?t k \<notin> set (map snd ps)" if "k \<in> set (queued_ids ?t)" for k
      using that Cons.prems(2,5) ip by (auto simp: queued_ids_set_pos pos_of_set_pos)
  qed (use Cons.prems ip in \<open>auto simp: queued_ids_set_pos\<close>)
  then show ?case using one Cons.prems(1) ip by (simp add: place_dict_upd)
qed

lemma lane_ok_place:
  assumes ok: "lane_ok t" and sub: "set (dkeys ps) = set (queued_ids t)" and d: "distinct (dkeys ps)" "distinct (map snd ps)"
  shows "lane_ok (place ps t)"
proof -
  have dist: "distinct (dkeys t)" by (rule lane_ok_distinct[OF ok])
  have pos: "pos_of (place ps t) i = the (map_of ps i)" if "i \<in> set (queued_ids t)" for i
  proof -
    have "map_of ps i \<noteq> None" using that sub by (metis dkeys_iff_map_of)
    moreover have "map_of t i \<noteq> None" using that dist by (auto simp: set_queued_ids)
    ultimately show ?thesis by (auto simp: pos_of_place)
  qed
  have "inj_on (pos_of (place ps t)) (set (queued_ids t))"
  proof (rule inj_onI)
    fix i k assume ik: "i \<in> set (queued_ids t)" "k \<in> set (queued_ids t)" "pos_of (place ps t) i = pos_of (place ps t) k"
    obtain p q where pq: "map_of ps i = Some p" "map_of ps k = Some q"
      using ik sub by (metis dkeys_iff_map_of not_None_eq)
    then have "p = q" using ik pos by simp
    then have "(i, q) \<in> set ps" "(k, q) \<in> set ps" using pq by (auto dest: map_of_SomeD)
    then show "i = k" using d(2) inj_onD[of snd "set ps" "(i, q)" "(k, q)"] by (simp add: distinct_map)
  qed
  moreover have "is_queued j' = (bj_pos j' \<noteq> None)" if pl: "(i, j') \<in> set (place ps t)" for i j'
  proof -
    have m': "map_of (place ps t) i = Some j'" by (rule map_of_set_iff[THEN iffD1, OF _ pl]) (simp only: dkeys_place dist)
    obtain j where m: "map_of t i = Some j" using m' by (cases "map_of t i") (simp_all add: map_of_place)
    have j: "j' = (case map_of ps i of None \<Rightarrow> j | Some p \<Rightarrow> j\<lparr> bj_pos := Some p \<rparr>)"
      using m m' by (simp add: map_of_place)
    show ?thesis
    proof (cases "map_of ps i")
      case None
      then show ?thesis using j lane_ok_pos[OF ok m] by simp
    next
      case (Some p)
      then have "i \<in> set (queued_ids t)" using sub by (metis dkeys_iff_map_of option.distinct(1))
      then show ?thesis using j Some m dist by (auto simp: set_queued_ids is_queued_def)
    qed
  qed
  moreover have "length (filter (\<lambda>(i, j). bj_state j = JRunning) (place ps t)) = length (filter (\<lambda>(i, j). bj_state j = JRunning) t)"
    by (induction t) (auto simp: place_def split: option.splits)
  ultimately show ?thesis using ok dist
    by (auto simp: lane_ok_def distinct_map distinct_queued_ids)
qed

text \<open>Placing the queued ids at increasing positions makes them the lane.\<close>

lemma lane_place:
  assumes ok: "lane_ok t" and ids: "set ids = set (queued_ids t)" and len: "length ps = length ids"
    and inc: "sorted_wrt (<) ps" and d: "distinct ids"
  shows "lane (place (zip ids ps) t) = ids" and "lane_ok (place (zip ids ps) t)"
proof -
  have dp: "distinct ps" using inc by (simp add: strict_sorted_iff)
  show ok': "lane_ok (place (zip ids ps) t)" using ok ids len d dp by (intro lane_ok_place) simp_all
  have "pos_of (place (zip ids ps) t) (ids ! n) = ps ! n" if "n < length ids" for n
  proof -
    have "map_of t (ids ! n) \<noteq> None"
      using that ids lane_ok_distinct[OF ok] set_queued_ids by (metis nth_mem option.distinct(1))
    moreover have "map_of (zip ids ps) (ids ! n) = Some (ps ! n)" using that len d by (simp add: map_of_zip_nth)
    ultimately show ?thesis by (simp add: pos_of_place)
  qed
  then have "map (pos_of (place (zip ids ps) t)) ids = ps" using len by (intro nth_equalityI) simp_all
  then show "lane (place (zip ids ps) t) = ids" using lane_eqI[OF ok'] ids inc by simp
qed

section \<open>What the operations do to the lane\<close>

text \<open>Positions within reach: they are positive and below the range the renumbering passes through.\<close>

definition in_range :: "lane_table \<Rightarrow> bool" where
  "in_range t = (\<forall>i \<in> set (queued_ids t). 1 \<le> pos_of t i \<and> pos_of t i \<le> 1000000)"

definition lane_inv :: "lane_table \<Rightarrow> bool" where
  "lane_inv t = (lane_ok t \<and> in_range t)"

lemma card_queued_le:
  assumes "lane_inv t" shows "length (queued_ids t) \<le> 1000000"
proof -
  have "pos_of t ` set (queued_ids t) \<subseteq> {1..1000000}" using assms by (auto simp: lane_inv_def in_range_def)
  then have "card (pos_of t ` set (queued_ids t)) \<le> card {1..1000000 :: int}" by (intro card_mono) simp_all
  then show ?thesis
    using assms by (simp add: lane_inv_def card_image lane_ok_inj distinct_card distinct_queued_ids lane_ok_distinct)
qed

lemma next_pos_above: "i \<in> set (queued_ids t) \<Longrightarrow> pos_of t i < next_pos t"
proof -
  have mx: "m \<le> fold (\<lambda>k m. max m (pos_of t k)) ks m" for ks m
  proof (induction ks arbitrary: m)
    case (Cons a ks)
    show ?case using Cons[of "max m (pos_of t a)"] by simp
  qed simp
  have ge: "k \<in> set ks \<Longrightarrow> pos_of t k \<le> fold (\<lambda>k m. max m (pos_of t k)) ks m" for ks m k
  proof (induction ks arbitrary: m)
    case (Cons a ks)
    then show ?case using mx[of "max m (pos_of t k)" ks] by auto
  qed simp
  assume "i \<in> set (queued_ids t)"
  then show ?thesis using ge mx by (force simp: next_pos_def split: list.splits)
qed

lemma next_pos_pos: "in_range t \<Longrightarrow> 1 \<le> next_pos t"
proof (cases "queued_ids t")
  case (Cons i ks)
  moreover assume "in_range t"
  ultimately show ?thesis using next_pos_above[of i t] by (auto simp: in_range_def)
qed (simp add: next_pos_def)

text \<open>The row number is the rank in the lane.\<close>

lemma row_number_mono:
  assumes "i \<in> set (queued_ids t)" "pos_of t i < pos_of t k"
  shows "row_number t i < row_number t k"
proof -
  have "length (filter (\<lambda>l. pos_of t l < pos_of t i) xs) + (if i \<in> set xs then 1 else 0)
      \<le> length (filter (\<lambda>l. pos_of t l < pos_of t k) xs)" for xs
    using assms(2) by (induction xs) auto
  from this[of "queued_ids t"] show ?thesis using assms(1) by (simp add: row_number_def)
qed

lemma row_number_bounds:
  assumes "i \<in> set (queued_ids t)" shows "1 \<le> row_number t i" "row_number t i \<le> int (length (queued_ids t))"
proof -
  have "length (filter (\<lambda>l. pos_of t l < pos_of t i) xs) + (if i \<in> set xs then 1 else 0) \<le> length xs" for xs
    by (induction xs) auto
  from this[of "queued_ids t"] assms show "row_number t i \<le> int (length (queued_ids t))" by (simp add: row_number_def)
qed (simp add: row_number_def)

text \<open>Moving the lane up and down by a renumbering that keeps its order.\<close>

lemma renumber:
  assumes ok: "lane_ok t" and mono: "\<And>i k. i \<in> set (queued_ids t) \<Longrightarrow> k \<in> set (queued_ids t) \<Longrightarrow>
      pos_of t i < pos_of t k \<Longrightarrow> f i < f k"
    and away: "\<And>i k. i \<in> set (queued_ids t) \<Longrightarrow> k \<in> set (queued_ids t) \<Longrightarrow> pos_of t k \<noteq> f i"
  obtains t' where "assign (map (\<lambda>i. (i, f i)) (queued_ids t)) t = Inr t'" "lane_ok t'" "lane t' = lane t"
    "queued_ids t' = queued_ids t" "\<And>i. i \<in> set (queued_ids t) \<Longrightarrow> pos_of t' i = f i"
    "\<And>i. i \<notin> set (queued_ids t) \<Longrightarrow> map_of t' i = map_of t i"
proof
  let ?ps = "map (\<lambda>i. (i, f i)) (queued_ids t)"
  let ?t = "place ?ps t"
  have dist: "distinct (dkeys t)" by (rule lane_ok_distinct[OF ok])
  have keys: "dkeys ?ps = queued_ids t" by (simp add: comp_def)
  have inj: "inj_on f (set (queued_ids t))"
  proof (rule inj_onI)
    fix i k assume ik: "i \<in> set (queued_ids t)" "k \<in> set (queued_ids t)" "f i = f k"
    then have "pos_of t i = pos_of t k" using mono[of i k] mono[of k i] by force
    then show "i = k" using lane_ok_inj[OF ok] ik by (auto dest: inj_onD)
  qed
  have dv: "distinct (map snd ?ps)" using inj dist by (simp add: comp_def distinct_map distinct_queued_ids)
  show "assign ?ps t = Inr ?t"
    using dist dv away keys by (intro assign_place) (auto simp: distinct_queued_ids)
  show ok': "lane_ok ?t" using ok dv keys dist by (intro lane_ok_place) (simp_all add: distinct_queued_ids)
  show qi: "queued_ids ?t = queued_ids t" by simp
  have mo: "map_of ?ps i = (if i \<in> set (queued_ids t) then Some (f i) else None)" for i
    by (auto simp: map_of_map_restrict restrict_map_def)
  show pos: "pos_of ?t i = f i" if "i \<in> set (queued_ids t)" for i
  proof -
    have "map_of t i \<noteq> None" using that dist by (auto simp: set_queued_ids)
    then show ?thesis using that by (simp add: pos_of_place mo)
  qed
  have "sorted_wrt (<) (map (pos_of ?t) (lane t))"
  proof -
    have "sorted_wrt (\<lambda>i k. pos_of t i < pos_of t k) (lane t)"
      using lane_positions[OF ok] by (simp add: sorted_wrt_map)
    then have "sorted_wrt (\<lambda>i k. pos_of ?t i < pos_of ?t k) (lane t)"
      by (rule sorted_wrt_mono_rel[rotated]) (use mono pos in simp)
    then show ?thesis by (simp add: sorted_wrt_map)
  qed
  then show "lane ?t = lane t" using lane_eqI[OF ok'] by simp
  show "map_of ?t i = map_of t i" if "i \<notin> set (queued_ids t)" for i
    using that by (cases "map_of t i") (simp_all add: map_of_place mo)
qed

lemma compact_keeps:
  assumes inv: "lane_inv t"
  obtains t' where "compact t = Inr t'" "lane_inv t'" "lane t' = lane t"
    "\<And>i. i \<in> set (lane t') \<Longrightarrow> pos_of t' i = row_number t i"
    "\<And>i. i \<notin> set (queued_ids t) \<Longrightarrow> map_of t' i = map_of t i"
proof -
  have ok: "lane_ok t" and rng: "in_range t" using inv by (simp_all add: lane_inv_def)
  note n = card_queued_le[OF inv]
  have up: "1000001 \<le> row_number t i + 1000000" "row_number t i + 1000000 \<le> 2000000"
    if "i \<in> set (queued_ids t)" for i using row_number_bounds[OF that] n by simp_all
  obtain u where u: "compact_up t = Inr u" "lane_ok u" "lane u = lane t" "queued_ids u = queued_ids t"
    "\<And>i. i \<in> set (queued_ids t) \<Longrightarrow> pos_of u i = row_number t i + 1000000"
    "\<And>i. i \<notin> set (queued_ids t) \<Longrightarrow> map_of u i = map_of t i"
  proof (rule renumber[OF ok, of "\<lambda>i. row_number t i + 1000000"])
    show "pos_of t k \<noteq> row_number t i + 1000000" if "i \<in> set (queued_ids t)" "k \<in> set (queued_ids t)" for i k
      using up(1)[OF that(1)] rng that(2) by (force simp: in_range_def)
  qed (simp_all add: row_number_mono compact_up_def)
  obtain w where w: "compact_down u = Inr w" "lane_ok w" "lane w = lane u" "queued_ids w = queued_ids u"
    "\<And>i. i \<in> set (queued_ids u) \<Longrightarrow> pos_of w i = pos_of u i - 1000000"
    "\<And>i. i \<notin> set (queued_ids u) \<Longrightarrow> map_of w i = map_of u i"
  proof (rule renumber[OF u(2), of "\<lambda>i. pos_of u i - 1000000"])
    show "pos_of u k \<noteq> pos_of u i - 1000000" if "i \<in> set (queued_ids u)" "k \<in> set (queued_ids u)" for i k
      using that u(4,5) up by (smt (verit))
  qed (simp_all add: compact_down_def)
  show ?thesis
  proof
    show "compact t = Inr w" using u(1) w(1) by (simp add: compact_def)
    show "lane_inv w" using w u row_number_bounds n by (force simp: lane_inv_def in_range_def)
    show "lane w = lane t" using w u by simp
    show "pos_of w i = row_number t i" if "i \<in> set (lane w)" for i using that w u by simp
    show "map_of w i = map_of t i" if "i \<notin> set (queued_ids t)" for i using that w u by simp
  qed
qed

text \<open>An update that takes one row out of the lane.\<close>

lemma queued_ids_leave:
  "distinct (dkeys t) \<Longrightarrow> (\<And>j. map_of t i = Some j \<Longrightarrow> \<not> is_queued (f j)) \<Longrightarrow>
   queued_ids (dict_upd i f t) = filter (\<lambda>k. k \<noteq> i) (queued_ids t)"
proof (induction t)
  case (Cons r t)
  obtain k j where r: "r = (k, j)" by force
  show ?case
  proof (cases "k = i")
    case True
    then have ni: "i \<notin> set (dkeys t)" using Cons.prems(1) r by auto
    have "dict_upd i f t = t" using ni by (induction t) (auto simp: dict_upd_def)
    moreover have "filter (\<lambda>k. k \<noteq> i) (queued_ids t) = queued_ids t"
      using ni by (intro filter_True) (force simp: queued_ids_def)
    ultimately show ?thesis using Cons.prems(2)[of j] r True by (simp add: queued_ids_def dict_upd_def)
  next
    case False
    then show ?thesis using Cons r by (auto simp: queued_ids_def dict_upd_def)
  qed
qed (simp add: queued_ids_def dict_upd_def)

lemma filter_neq_remove1: "distinct xs \<Longrightarrow> filter (\<lambda>k. k \<noteq> i) xs = remove1 i xs"
  by (simp add: distinct_remove1_removeAll removeAll_filter_not_eq) (metis (mono_tags, lifting))

lemma lane_leave:
  assumes inv: "lane_inv t" and j: "map_of t i = Some j" and out: "\<not> is_queued (f j)" "bj_pos (f j) = None"
    and run: "length (filter (\<lambda>(i, j). bj_state j = JRunning) (dict_upd i f t)) \<le> 1"
  shows "lane_inv (dict_upd i f t)" "lane (dict_upd i f t) = remove1 i (lane t)"
proof -
  let ?t = "dict_upd i f t"
  have ok: "lane_ok t" and rng: "in_range t" using inv by (simp_all add: lane_inv_def)
  have dist: "distinct (dkeys t)" by (rule lane_ok_distinct[OF ok])
  have qi: "queued_ids ?t = filter (\<lambda>k. k \<noteq> i) (queued_ids t)"
    using dist j out by (intro queued_ids_leave) simp_all
  have pos: "k \<noteq> i \<Longrightarrow> pos_of ?t k = pos_of t k" for k by (simp add: pos_of_def map_of_dict_upd)
  have row: "is_queued j' = (bj_pos j' \<noteq> None)" if "map_of ?t k = Some j'" for k j'
    using that out j lane_ok_pos[OF ok] by (auto simp: map_of_dict_upd split: if_splits)
  have "\<forall>(k, j') \<in> set ?t. is_queued j' = (bj_pos j' \<noteq> None)"
    using dist by (intro dict_ballI row) simp_all
  moreover have "inj_on (pos_of ?t) (set (queued_ids ?t))"
    using lane_ok_inj[OF ok] qi pos by (auto simp: inj_on_def)
  ultimately show inv': "lane_inv ?t"
    using run dist rng qi pos
    by (auto simp: lane_inv_def lane_ok_def in_range_def distinct_map distinct_queued_ids)
  have "sorted_wrt (\<lambda>a b. pos_of t a < pos_of t b) (lane t)" using lane_positions[OF ok] by (simp add: sorted_wrt_map)
  then have "sorted_wrt (\<lambda>a b. pos_of t a < pos_of t b) (filter (\<lambda>k. k \<noteq> i) (lane t))" by (rule sorted_wrt_filter)
  then have "sorted_wrt (\<lambda>a b. pos_of ?t a < pos_of ?t b) (filter (\<lambda>k. k \<noteq> i) (lane t))"
    by (rule sorted_wrt_mono_rel[rotated]) (simp add: pos)
  then have "sorted_wrt (<) (map (pos_of ?t) (filter (\<lambda>k. k \<noteq> i) (lane t)))" by (simp add: sorted_wrt_map)
  then have "lane ?t = filter (\<lambda>k. k \<noteq> i) (lane t)"
    using inv' qi by (intro lane_eqI) (simp_all add: lane_inv_def)
  then show "lane ?t = remove1 i (lane t)" using distinct_lane[OF ok] by (simp add: filter_neq_remove1)
qed

lemma enqueue_lane:
  assumes inv: "lane_inv t" and room: "next_pos t \<le> 1000000" and e: "enqueue now i tenant kind spec sandbox t = Inr t'"
  shows "lane_inv t'" "lane t' = lane t @ [i]" "map_of t i = None" "k \<noteq> i \<Longrightarrow> map_of t' k = map_of t k"
proof -
  let ?j = "\<lparr> bj_tenant = tenant, bj_kind = kind, bj_spec = spec, bj_state = JQueued,
         bj_pos = Some (next_pos t), bj_sandbox = sandbox, bj_artifact = None, bj_model = None, bj_gpu = None,
         bj_created = now, bj_started = None, bj_ended = None \<rparr>"
  have ok: "lane_ok t" and rng: "in_range t" using inv by (simp_all add: lane_inv_def)
  show new: "map_of t i = None" and "k \<noteq> i \<Longrightarrow> map_of t' k = map_of t k"
    using e by (auto simp: enqueue_def insert_job_def checked_def map_add_def split: if_splits option.splits)
  have t': "t' = t @ [(i, ?j)]" and ok': "lane_ok t'"
    using e by (auto simp: enqueue_def insert_job_def checked_def split: if_splits)
  have qi: "queued_ids t' = queued_ids t @ [i]" by (simp add: t' queued_ids_def is_queued_def)
  have pos: "pos_of t' k = (if k = i then next_pos t else pos_of t k)" for k
    using new by (auto simp: pos_of_def t' map_add_def split: option.splits)
  have ni: "i \<notin> set (queued_ids t)" using new lane_ok_distinct[OF ok] by (simp add: set_queued_ids)
  show "lane_inv t'" using ok' rng room next_pos_pos[OF rng] by (auto simp: lane_inv_def in_range_def qi pos)
  have "sorted_wrt (\<lambda>a b. pos_of t a < pos_of t b) (lane t)" using lane_positions[OF ok] by (simp add: sorted_wrt_map)
  then have "sorted_wrt (\<lambda>a b. pos_of t' a < pos_of t' b) (lane t)"
    by (rule sorted_wrt_mono_rel[rotated]) (use ni in \<open>auto simp: pos\<close>)
  then have "sorted_wrt (\<lambda>a b. pos_of t' a < pos_of t' b) (lane t @ [i])"
    using ni next_pos_above by (auto simp: sorted_wrt_append pos)
  then show "lane t' = lane t @ [i]"
    using ok' ni by (intro lane_eqI) (simp_all only: sorted_wrt_map, simp_all add: qi)
qed

lemma running_le:
  assumes "\<And>j. bj_state (f j) = JRunning \<Longrightarrow> bj_state j = JRunning"
  shows "length (filter (\<lambda>(i, j). bj_state j = JRunning) (dict_upd i f t)) \<le> length (filter (\<lambda>(i, j). bj_state j = JRunning) t)"
proof (induction t)
  case (Cons r t)
  obtain k j where r: "r = (k, j)" by force
  have "dict_upd i f (r # t) = (k, if k = i then f j else j) # dict_upd i f t" by (simp add: r dict_upd_def)
  then show ?case using Cons assms[of j] by (cases "k = i") (simp_all add: r)
qed (simp add: dict_upd_def)

lemma lane_ok_running: "lane_inv t \<Longrightarrow> length (filter (\<lambda>(i, j). bj_state j = JRunning) t) \<le> 1"
  by (simp add: lane_inv_def lane_ok_def)

lemma not_in_lane: "lane_inv t \<Longrightarrow> map_of t i = Some j \<Longrightarrow> \<not> is_queued j \<Longrightarrow> i \<notin> set (lane t)"
  by (simp add: lane_inv_def lane_ok_distinct set_queued_ids)

lemma start_lane:
  assumes inv: "lane_inv t" and s: "start_job now i t = Inr t'"
  shows "lane_inv t'" "lane t' = remove1 i (lane t)" "k \<noteq> i \<Longrightarrow> map_of t' k = map_of t k"
    "\<exists>j. map_of t i = Some j \<and> bj_state j = JQueued"
proof -
  let ?f = "\<lambda>j. j\<lparr> bj_state := JRunning, bj_pos := None, bj_started := Some now \<rparr>"
  obtain j where j: "map_of t i = Some j" "bj_state j = JQueued" "t' = dict_upd i ?f t" "lane_ok t'"
    using s by (auto simp: start_job_def checked_def split: option.splits if_splits)
  have run: "length (filter (\<lambda>(i, j). bj_state j = JRunning) (dict_upd i ?f t)) \<le> 1"
    using j(3,4) by (simp add: lane_ok_def)
  show "lane_inv t'" "lane t' = remove1 i (lane t)"
    unfolding j(3) by (rule lane_leave[OF inv j(1) _ _ run]; simp add: is_queued_def)+
  show "k \<noteq> i \<Longrightarrow> map_of t' k = map_of t k" by (simp add: j(3) map_of_dict_upd)
  show "\<exists>j. map_of t i = Some j \<and> bj_state j = JQueued" using j by simp
qed

lemma finish_lane:
  assumes inv: "lane_inv t" and s: "finish_job now i st gpu art mdl t = Inr t'"
  shows "lane_inv t'" "lane t' = remove1 i (lane t)"
    "(case map_of t k of None \<Rightarrow> True | Some j \<Rightarrow> k = i \<and> \<not> terminal (bj_state j)) \<or> map_of t' k = map_of t k"
proof -
  let ?f = "\<lambda>j. if terminal (bj_state j) then j
        else j\<lparr> bj_state := st, bj_pos := None, bj_ended := Some now, bj_gpu := coalesce gpu (bj_gpu j),
          bj_artifact := coalesce art (bj_artifact j), bj_model := coalesce mdl (bj_model j) \<rparr>"
  have st: "terminal st" and t': "t' = dict_upd i ?f t"
    using s by (auto simp: finish_job_def split: if_splits)
  have q: "\<not> is_queued (?f j)" for j using st by (auto simp: is_queued_def terminal_def)
  have run: "length (filter (\<lambda>(i, j). bj_state j = JRunning) (dict_upd i ?f t)) \<le> 1"
    by (rule order_trans[OF running_le lane_ok_running[OF inv]]) (use st in \<open>auto simp: terminal_def split: if_splits\<close>)
  have "lane_inv t' \<and> lane t' = remove1 i (lane t)"
  proof (cases "map_of t i")
    case None
    then have "t' = t" unfolding t' by (induction t) (auto simp: dict_upd_def split: if_splits)
    moreover have "i \<notin> set (lane t)" using None inv by (simp add: lane_inv_def lane_ok_distinct set_queued_ids)
    ultimately show ?thesis using inv by (simp add: remove1_idem)
  next
    case (Some j)
    have "bj_pos (?f j) = None"
      using lane_ok_pos[of t i j] inv Some by (auto simp: lane_inv_def is_queued_def terminal_def)
    then show ?thesis using lane_leave[OF inv Some q _ run] by (simp add: t')
  qed
  then show "lane_inv t'" "lane t' = remove1 i (lane t)" by simp_all
  show "(case map_of t k of None \<Rightarrow> True | Some j \<Rightarrow> k = i \<and> \<not> terminal (bj_state j)) \<or> map_of t' k = map_of t k"
    by (auto simp: t' map_of_dict_upd split: option.splits)
qed

lemma cancel_lane:
  assumes inv: "lane_inv t" and s: "cancel_job now i t = Inr t'"
  shows "lane_inv t'" "lane t' = remove1 i (lane t)"
    "map_of t k = Some j \<Longrightarrow> terminal (bj_state j) \<Longrightarrow> map_of t' k = Some j"
proof -
  obtain j0 where j0: "map_of t i = Some j0" using s by (auto simp: cancel_job_def split: option.splits)
  let ?f = "\<lambda>j. j\<lparr> bj_state := JCancelled, bj_pos := None, bj_ended := Some now \<rparr>"
  have "lane_inv t' \<and> lane t' = remove1 i (lane t) \<and> (\<forall>k j. map_of t k = Some j \<longrightarrow> terminal (bj_state j) \<longrightarrow> map_of t' k = Some j)"
  proof (cases "terminal (bj_state j0)")
    case True
    then have "i \<notin> set (lane t)" using not_in_lane[OF inv j0] by (auto simp: is_queued_def terminal_def)
    then show ?thesis using True s j0 inv by (simp add: cancel_job_def remove1_idem)
  next
    case False
    have run: "length (filter (\<lambda>(i, j). bj_state j = JRunning) (dict_upd i ?f t)) \<le> 1"
      by (rule order_trans[OF running_le lane_ok_running[OF inv]]) simp
    note m = lane_leave[OF inv j0 _ _ run, folded mark_cancelled_def]
    obtain w where w: "compact (mark_cancelled now i t) = Inr w" "lane_inv w" "lane w = lane (mark_cancelled now i t)"
      "\<And>i'. i' \<notin> set (queued_ids (mark_cancelled now i t)) \<Longrightarrow> map_of w i' = map_of (mark_cancelled now i t) i'"
      by (rule compact_keeps[OF m(1)]) (simp_all add: is_queued_def)
    have row: "map_of t' k = Some j" if k: "map_of t k = Some j" "terminal (bj_state j)" for k j
    proof -
      have ki: "k \<noteq> i" using k False j0 by auto
      then have mk: "map_of (mark_cancelled now i t) k = Some j" using k by (simp add: mark_cancelled_def map_of_dict_upd)
      have "lane_inv (mark_cancelled now i t)" using m(1) by (simp add: is_queued_def)
      then have "k \<notin> set (lane (mark_cancelled now i t))"
        by (rule not_in_lane[OF _ mk]) (use k in \<open>auto simp: is_queued_def terminal_def\<close>)
      then show ?thesis using w(1,4) s j0 False mk by (simp add: cancel_job_def)
    qed
    then show ?thesis using s j0 False w m(2) by (simp add: cancel_job_def is_queued_def)
  qed
  then show "lane_inv t'" "lane t' = remove1 i (lane t)"
    "map_of t k = Some j \<Longrightarrow> terminal (bj_state j) \<Longrightarrow> map_of t' k = Some j" by simp_all
qed

lemma insert_at_set [simp]: "set (insert_at p x xs) = insert x (set xs)"
  by (simp add: insert_at_def Let_def) (metis Un_insert_right append_take_drop_id set_append)

lemma insert_at_length [simp]: "length (insert_at p x xs) = Suc (length xs)"
  by (simp add: insert_at_def Let_def)

lemma insert_at_distinct: "x \<notin> set xs \<Longrightarrow> distinct xs \<Longrightarrow> distinct (insert_at p x xs)"
  by (auto simp: insert_at_def Let_def set_take_disj_set_drop_if_distinct dest: in_set_takeD in_set_dropD)

lemma up_positions: "sorted_wrt (<) (map (\<lambda>n. int n + c) [a..<b])"
  by (simp add: sorted_wrt_map sorted_wrt_iff_nth_less)

lemma reorder_lane:
  assumes inv: "lane_inv t" and s: "reorder_job i p t = Inr t'"
  shows "lane_inv t'" "lane t' = insert_at p i (remove1 i (lane t))" "k \<notin> set (lane t) \<Longrightarrow> map_of t' k = map_of t k"
    "i \<in> set (lane t)"
proof -
  have ok: "lane_ok t" and rng: "in_range t" using inv by (simp_all add: lane_inv_def)
  obtain j where j: "map_of t i = Some j" "bj_state j = JQueued"
    using s by (auto simp: reorder_job_def split: option.splits if_splits)
  show il: "i \<in> set (lane t)" using j lane_ok_distinct[OF ok] by (simp add: set_queued_ids is_queued_def)
  let ?ids = "insert_at p i (remove1 i (lane t))"
  let ?ps = "map (\<lambda>n. int n + 1000000) [1..<length ?ids + 1]"
  have dl: "distinct (lane t)" by (rule distinct_lane[OF ok])
  have ll: "Suc (length (remove1 i (lane t))) = length (queued_ids t)"
  proof -
    have "Suc (length (remove1 i (lane t))) = length (lane t)"
      using il by (metis One_nat_def Suc_pred length_pos_if_in_set length_remove1)
    then show ?thesis by (simp add: lane_def)
  qed
  have ids: "set ?ids = set (queued_ids t)" "distinct ?ids" "length ?ids = length (queued_ids t)"
    using il dl by (auto intro!: insert_at_distinct simp: ll)
  have len: "length ?ps = length ?ids" unfolding length_map length_upt by simp
  have inc: "sorted_wrt (<) ?ps" by (rule up_positions)
  have psset: "q \<in> set ?ps \<Longrightarrow> 1000001 \<le> q \<and> q \<le> 1000000 + int (length (queued_ids t))" for q
    using ids(3) by auto
  let ?u = "place (zip ?ids ?ps) t"
  have u: "assign (zip ?ids ?ps) t = Inr ?u"
  proof (rule assign_place)
    show "pos_of t k \<notin> set (map snd (zip ?ids ?ps))" if "k \<in> set (queued_ids t)" for k
      using that rng psset[of "pos_of t k"] len by (auto simp: in_range_def)
  qed (use ids len lane_ok_distinct[OF ok] inc in \<open>auto simp: strict_sorted_iff\<close>)
  note lu = lane_place[OF ok ids(1) len inc ids(2)]
  have upos: "1000001 \<le> pos_of ?u k \<and> pos_of ?u k \<le> 2000000" if k: "k \<in> set (queued_ids t)" for k
  proof -
    obtain q where q: "map_of (zip ?ids ?ps) k = Some q" "q \<in> set ?ps"
      using k ids(1) len by (metis map_of_SomeD map_of_zip_is_None not_None_eq set_zip_rightD)
    have "map_of t k \<noteq> None" using k lane_ok_distinct[OF ok] by (auto simp: set_queued_ids)
    then show ?thesis using q psset card_queued_le[OF inv] by (force simp: pos_of_place)
  qed
  obtain w where w: "compact_down ?u = Inr w" "lane_ok w" "lane w = lane ?u" "queued_ids w = queued_ids ?u"
    "\<And>i. i \<in> set (queued_ids ?u) \<Longrightarrow> pos_of w i = pos_of ?u i - 1000000"
    "\<And>i. i \<notin> set (queued_ids ?u) \<Longrightarrow> map_of w i = map_of ?u i"
  proof (rule renumber[OF lu(2), of "\<lambda>i. pos_of ?u i - 1000000"])
    show "pos_of ?u k \<noteq> pos_of ?u i - 1000000" if "i \<in> set (queued_ids ?u)" "k \<in> set (queued_ids ?u)" for i k
      using that upos[of i] upos[of k] by simp
  qed (simp_all add: compact_down_def)
  have t': "t' = w" using s j u w(1) by (simp add: reorder_job_def Let_def)
  show "lane_inv t'" using w t' upos by (force simp: lane_inv_def in_range_def)
  show "lane t' = ?ids" using w(3) t' lu(1) by simp
  show "map_of t' k = map_of t k" if k: "k \<notin> set (lane t)"
  proof -
    have "map_of (zip ?ids ?ps) k = None" using k ids(1) len by (simp add: map_of_zip_is_None del: insert_at_set)
    then show ?thesis using w(6)[of k] k t' by (cases "map_of t k") (simp_all add: map_of_place)
  qed
qed

definition restart_row :: "rat \<Rightarrow> bjob \<Rightarrow> bjob" where
  "restart_row now j = (if bj_state j = JRunning
     then j\<lparr> bj_state := JInterrupted, bj_pos := None, bj_ended := Some now \<rparr> else j)"

lemma recover_table: "snd (recover_lane now t) = map (\<lambda>(i, j). (i, restart_row now j)) t"
  by (simp add: recover_lane_def restart_row_def Let_def)

lemma map_of_recover [dict_simps]: "map_of (snd (recover_lane now t)) i = map_option (restart_row now) (map_of t i)"
  unfolding recover_table by (induction t) auto

lemma recover_lane_same:
  assumes inv: "lane_inv t" and t': "t' = snd (recover_lane now t)"
  shows "lane_inv t'" "lane t' = lane t" "running_job t' = None"
proof -
  have ok: "lane_ok t" and rng: "in_range t" using inv by (simp_all add: lane_inv_def)
  have dk: "dkeys t' = dkeys t" unfolding t' recover_table by (induction t) auto
  have qi: "queued_ids t' = queued_ids t"
    unfolding t' recover_table by (rule queued_ids_map) (simp add: restart_row_def is_queued_def)
  have pos: "pos_of t' k = pos_of t k" if "k \<in> set (queued_ids t)" for k
    using that lane_ok_distinct[OF ok]
    by (auto simp: set_queued_ids pos_of_def t' map_of_recover is_queued_def restart_row_def)
  have row: "is_queued j = (bj_pos j \<noteq> None)" if "map_of t' k = Some j" for k j
    using that lane_ok_pos[OF ok] by (auto simp: t' map_of_recover restart_row_def is_queued_def)
  have nr: "filter (\<lambda>(i, j). bj_state j = JRunning) t' = []"
    unfolding t' recover_table by (induction t) (auto simp: restart_row_def split: if_splits)
  have rows: "\<forall>(k, j) \<in> set t'. is_queued j = (bj_pos j \<noteq> None)"
    by (rule dict_ballI[OF _ row]) (simp_all add: dk lane_ok_distinct[OF ok])
  have mp: "map (pos_of t') (queued_ids t) = map (pos_of t) (queued_ids t)" using pos by simp
  have ok': "lane_ok t'" using ok rows nr by (simp add: lane_ok_def dk qi mp del: map_eq_conv)
  then show "lane_inv t'" using rng pos by (simp add: lane_inv_def in_range_def qi)
  have "map (pos_of t') (lane t) = map (pos_of t) (lane t)" using pos by simp
  then show "lane t' = lane t" using lane_positions[OF ok] ok' by (intro lane_eqI) (simp_all add: qi del: map_eq_conv)
  show "running_job t' = None" by (simp add: running_job_def nr)
qed

section \<open>The lane as a queue\<close>

datatype lane_op =
    Enqueue rat string string string string string
  | Start rat string
  | Finish rat string jstate "rat option" "string option" "string option"
  | Cancel rat string
  | Reorder string int
  | Pin string
  | Recover rat

fun result_of :: "lane_error + lane_table \<Rightarrow> lane_table option" where
  "result_of (Inl e) = None"
| "result_of (Inr t) = Some t"

fun lane_step :: "lane_op \<Rightarrow> lane_table \<Rightarrow> lane_table option" where
  "lane_step (Enqueue now i tenant kind spec sandbox) t = result_of (enqueue now i tenant kind spec sandbox t)"
| "lane_step (Start now i) t = result_of (start_job now i t)"
| "lane_step (Finish now i s gpu art mdl) t = result_of (finish_job now i s gpu art mdl t)"
| "lane_step (Cancel now i) t = result_of (cancel_job now i t)"
| "lane_step (Reorder i p) t = result_of (reorder_job i p t)"
| "lane_step (Pin i) t = result_of (pin_job i t)"
| "lane_step (Recover now) t = Some (snd (recover_lane now t))"

text \<open>The abstract contract: a queue of ids.\<close>

fun fifo_step :: "lane_op \<Rightarrow> string list \<Rightarrow> string list" where
  "fifo_step (Enqueue _ i _ _ _ _) q = q @ [i]"
| "fifo_step (Start _ i) q = remove1 i q"
| "fifo_step (Finish _ i _ _ _ _) q = remove1 i q"
| "fifo_step (Cancel _ i) q = remove1 i q"
| "fifo_step (Reorder i p) q = insert_at p i (remove1 i q)"
| "fifo_step (Pin i) q = i # remove1 i q"
| "fifo_step (Recover _) q = q"

text \<open>The lane has room for one more position below the renumbering range.\<close>

definition lane_room :: "lane_op \<Rightarrow> lane_table \<Rightarrow> bool" where
  "lane_room op t = (next_pos t \<le> 1000000)"

lemma result_of_Some [simp]: "result_of r = Some t \<longleftrightarrow> r = Inr t"
  by (cases r) auto

lemma insert_at_1: "insert_at 1 x xs = x # xs"
  by (simp add: insert_at_def)

lemma step_refines:
  assumes inv: "lane_inv t" and room: "lane_room op t" and st: "lane_step op t = Some t'"
  shows "lane_inv t' \<and> lane t' = fifo_step op (lane t)"
proof (cases op)
  case (Pin i)
  then show ?thesis using st reorder_lane(1,2)[OF inv, of i 1 t'] by (simp add: pin_job_def insert_at_1)
qed (use st room enqueue_lane(1,2)[OF inv] start_lane(1,2)[OF inv] finish_lane(1,2)[OF inv] cancel_lane(1,2)[OF inv]
    reorder_lane(1,2)[OF inv] recover_lane_same(1,2)[OF inv] in \<open>auto simp: lane_room_def\<close>)

interpretation broker_lane: machine lane_step lane_room lane_inv
  by unfold_locales (use step_refines in blast)

lemma terminal_kept:
  assumes inv: "lane_inv t" and room: "lane_room op t" and st: "lane_step op t = Some t'"
    and j: "map_of t i = Some j" "terminal (bj_state j)"
  shows "map_of t' i = Some j"
proof -
  have out: "i \<notin> set (lane t)" by (rule not_in_lane[OF inv j(1)]) (use j in \<open>auto simp: is_queued_def terminal_def\<close>)
  show ?thesis
  proof (cases op)
    case (Enqueue now k tenant kind spec sandbox)
    then show ?thesis
      using st j room enqueue_lane(3)[OF inv, of now k tenant kind spec sandbox t']
        enqueue_lane(4)[OF inv, of now k tenant kind spec sandbox t' i]
      by (cases "i = k") (auto simp: lane_room_def)
  next
    case (Start now k)
    then show ?thesis using st j start_lane(3)[OF inv, of now k t' i] start_lane(4)[OF inv, of now k t'] by (cases "i = k") (auto simp: terminal_def)
  next
    case (Finish now k s gpu art mdl)
    then show ?thesis using st j finish_lane(3)[OF inv, of now k s gpu art mdl t' i] by auto
  next
    case (Cancel now k)
    then show ?thesis using st j cancel_lane(3)[OF inv, of now k t' i j] by simp
  next
    case (Reorder k p)
    then show ?thesis using st j out reorder_lane(3)[OF inv, of k p t' i] by simp
  next
    case (Pin k)
    then show ?thesis using st j out reorder_lane(3)[OF inv, of k 1 t' i] by (simp add: pin_job_def)
  next
    case (Recover now)
    then show ?thesis using st j by (auto simp: map_of_recover restart_row_def terminal_def)
  qed
qed

text \<open>A component that keeps a queue of items and never takes one back: \<open>known\<close> is every item it has
  ever held.\<close>

definition before :: "'a \<Rightarrow> 'a \<Rightarrow> 'a list \<Rightarrow> bool" where
  "before x y xs = (x \<in> set (takeWhile (\<lambda>z. z \<noteq> y) xs) \<and> y \<in> set xs)"

lemma before_append: "before x y xs \<Longrightarrow> before x y (xs @ zs)"
  by (auto simp: before_def takeWhile_append)

lemma before_remove1: "before x y xs \<Longrightarrow> x \<in> set (remove1 z xs) \<Longrightarrow> y \<in> set (remove1 z xs) \<Longrightarrow> distinct xs \<Longrightarrow>
   before x y (remove1 z xs)"
  by (induction xs) (auto simp: before_def split: if_splits dest: set_takeWhileD)

locale fifo =
  fixes step :: "'e \<Rightarrow> 's \<Rightarrow> 's option" and items :: "'s \<Rightarrow> 'a list" and known :: "'s \<Rightarrow> 'a set" and inv :: "'s \<Rightarrow> bool"
  assumes keeps: "inv s \<Longrightarrow> step e s = Some s' \<Longrightarrow> inv s' \<and> known s \<subseteq> known s'"
    and holds_known: "inv s \<Longrightarrow> distinct (items s) \<and> set (items s) \<subseteq> known s"
    and fifo: "inv s \<Longrightarrow> step e s = Some s' \<Longrightarrow> items s' = items s \<or> (\<exists>x. items s' = remove1 x (items s)) \<or>
      (\<exists>x. x \<notin> known s \<and> items s' = items s @ [x])"
begin

definition ordered :: "'a \<Rightarrow> 'a \<Rightarrow> 's \<Rightarrow> bool" where
  "ordered x y s = (x \<in> known s \<and> y \<in> known s \<and>
     (x \<in> set (items s) \<and> y \<in> set (items s) \<longrightarrow> before x y (items s)))"

lemma ordered_step:
  assumes "inv s" "ordered x y s" "step e s = Some s'" shows "ordered x y s'"
proof -
  have kn: "x \<in> known s'" "y \<in> known s'" using assms(2) keeps[OF assms(1,3)] by (auto simp: ordered_def)
  have d: "distinct (items s)" "set (items s) \<subseteq> known s" using holds_known[OF assms(1)] by simp_all
  have "before x y (items s')" if xy: "x \<in> set (items s')" "y \<in> set (items s')"
    using fifo[OF assms(1,3)]
  proof (elim disjE exE conjE)
    fix z assume z: "items s' = remove1 z (items s)"
    then have "before x y (items s)" using assms(2) xy by (auto simp: ordered_def dest: subsetD[OF set_remove1_subset])
    then show ?thesis using before_remove1[of x y "items s" z] xy d z by simp
  next
    fix z assume z: "z \<notin> known s" "items s' = items s @ [z]"
    then show ?thesis using assms(2) xy before_append by (auto simp: ordered_def)
  qed (use assms(2) xy in \<open>simp add: ordered_def\<close>)
  then show ?thesis using kn by (simp add: ordered_def)
qed

lemma ordered_run:
  "run_events step es s = Some s' \<Longrightarrow> inv s \<Longrightarrow> ordered x y s \<Longrightarrow> ordered x y s'"
proof (induction es arbitrary: s)
  case (Cons e es)
  obtain u where u: "step e s = Some u" "run_events step es u = Some s'"
    using Cons.prems(1) by (auto split: option.splits)
  show ?case using Cons.IH[OF u(2)] keeps[OF _ u(1)] ordered_step[OF _ _ u(1)] Cons.prems by blast
qed simp

lemma never_overtaken:
  assumes "run_events step es s = Some s'" "inv s" "before x y (items s)" "x \<in> set (items s')" "y \<in> set (items s')"
  shows "before x y (items s')"
proof -
  have "ordered x y s" using assms(2,3) holds_known[OF assms(2)] by (auto simp: ordered_def before_def dest: set_takeWhileD)
  then show ?thesis using ordered_run[OF assms(1,2)] assms(4,5) by (simp add: ordered_def)
qed

end

text \<open>The lane without the owner's overrides.\<close>

fun override :: "lane_op \<Rightarrow> bool" where
  "override (Reorder _ _) = True"
| "override (Pin _) = True"
| "override _ = False"

definition tenant_step :: "lane_op \<Rightarrow> lane_table \<Rightarrow> lane_table option" where
  "tenant_step op t = (if override op \<or> \<not> lane_room op t then None else lane_step op t)"

lemma assign_dkeys: "assign ps t = Inr t' \<Longrightarrow> dkeys t' = dkeys t"
  by (induction ps arbitrary: t) (auto simp: set_pos_def split: sum.splits if_splits)

lemma compact_dkeys: "compact t = Inr t' \<Longrightarrow> dkeys t' = dkeys t"
  by (auto simp: compact_def compact_up_def compact_down_def split: sum.splits dest!: assign_dkeys)

lemma lane_step_dkeys:
  assumes st: "lane_step op t = Some t'" shows "set (dkeys t) \<subseteq> set (dkeys t')"
proof (cases op)
  case (Enqueue now i tenant kind spec sandbox)
  then show ?thesis using st by (auto simp: enqueue_def insert_job_def checked_def split: if_splits)
next
  case (Start now i)
  then have "dkeys t' = dkeys t" using st by (auto simp: start_job_def checked_def split: if_splits option.splits)
  then show ?thesis by simp
next
  case (Finish now i s gpu art mdl)
  then have "dkeys t' = dkeys t" using st by (auto simp: finish_job_def split: if_splits)
  then show ?thesis by simp
next
  case (Cancel now i)
  then have "dkeys t' = dkeys t"
    using st by (auto simp: cancel_job_def mark_cancelled_def split: if_splits option.splits dest!: compact_dkeys)
  then show ?thesis by simp
next
  case (Reorder i p)
  then have "dkeys t' = dkeys t"
    using st by (auto simp: reorder_job_def compact_down_def Let_def split: if_splits option.splits sum.splits dest!: assign_dkeys)
  then show ?thesis by simp
next
  case (Pin i)
  then have "dkeys t' = dkeys t"
    using st by (auto simp: pin_job_def reorder_job_def compact_down_def Let_def
        split: if_splits option.splits sum.splits dest!: assign_dkeys)
  then show ?thesis by simp
next
  case (Recover now)
  then have "t' = map (\<lambda>(i, j). (i, restart_row now j)) t" using st by (simp add: recover_table)
  then show ?thesis by force
qed

lemma tenant_step_lane:
  assumes inv: "lane_inv t" and st: "tenant_step op t = Some t'"
  shows "lane_inv t'" "lane t' = lane t \<or> (\<exists>x. lane t' = remove1 x (lane t)) \<or>
      (\<exists>x. x \<notin> set (dkeys t) \<and> lane t' = lane t @ [x])"
proof -
  have st': "lane_step op t = Some t'" "lane_room op t" "\<not> override op"
    using st by (simp_all add: tenant_step_def split: if_splits)
  note r = step_refines[OF inv st'(2,1)]
  show "lane_inv t'" using r by simp
  show "lane t' = lane t \<or> (\<exists>x. lane t' = remove1 x (lane t)) \<or> (\<exists>x. x \<notin> set (dkeys t) \<and> lane t' = lane t @ [x])"
  proof (cases op)
    case (Enqueue now i tenant kind spec sandbox)
    then have "map_of t i = None" using st' by (auto simp: enqueue_def insert_job_def split: if_splits)
    then have "i \<notin> set (dkeys t)" using dkeys_iff_map_of[of i t] by blast
    then show ?thesis using r Enqueue by (intro disjI2) auto
  qed (use r st'(3) in auto)
qed

interpretation tenant_lane: fifo tenant_step lane "\<lambda>t. set (dkeys t)" lane_inv
proof
  fix t op t' assume inv: "lane_inv t" and st: "tenant_step op t = Some t'"
  have "set (dkeys t) \<subseteq> set (dkeys t')" using st lane_step_dkeys by (auto simp: tenant_step_def split: if_splits)
  then show "lane_inv t' \<and> set (dkeys t) \<subseteq> set (dkeys t')" using tenant_step_lane(1)[OF inv st] by blast
  show "lane t' = lane t \<or> (\<exists>x. lane t' = remove1 x (lane t)) \<or> (\<exists>x. x \<notin> set (dkeys t) \<and> lane t' = lane t @ [x])"
    by (rule tenant_step_lane(2)[OF inv st])
next
  fix t assume inv: "lane_inv t"
  then have ok: "lane_ok t" by (simp add: lane_inv_def)
  have "set (lane t) \<subseteq> set (dkeys t)" by (auto simp: queued_ids_def)
  then show "distinct (lane t) \<and> set (lane t) \<subseteq> set (dkeys t)" using distinct_lane[OF ok] by blast
qed

section \<open>Properties\<close>

text \<open>Claim C8.  The lane is a queue: in a table that keeps its constraints, with its positions below the
  renumbering range, every operation that is not refused acts on the order of the queued jobs as the
  abstract queue does: submissions go to the tail, a started, finished or cancelled job leaves and the
  others keep their order, the owner's reorder puts one job at the clamped index, a restart changes
  nothing.\<close>

theorem lane_refines_fifo:
  assumes "lane_inv t" "lane_room op t" "lane_step op t = Some t'"
  shows "lane_inv t' \<and> lane t' = fifo_step op (lane t)"
  by (rule step_refines[OF assms])

definition demo_lane :: lane_table where
  "demo_lane = the (run_events lane_step
     [Enqueue 0 ''a'' ''t1'' ''batch'' [] [], Enqueue 1 ''b'' ''t2'' ''hpo'' [] [],
      Enqueue 2 ''c'' ''t1'' ''batch'' [] []] [])"

lemma demo_lane_inv: "lane_inv demo_lane"
proof -
  have "lane_ok demo_lane" by code_simp
  moreover have "in_range demo_lane" by code_simp
  ultimately show ?thesis by (simp add: lane_inv_def)
qed

theorem lane_refines_fifo_witness:
  "lane (the (lane_step (Pin ''c'') demo_lane)) = [''c'', ''a'', ''b'']"
proof -
  have room: "lane_room (Pin ''c'') demo_lane" by code_simp
  have "\<not> Option.is_none (lane_step (Pin ''c'') demo_lane)" by code_simp
  then have st: "lane_step (Pin ''c'') demo_lane = Some (the (lane_step (Pin ''c'') demo_lane))"
    by (simp add: Option.is_none_def)
  have l: "lane demo_lane = [''a'', ''b'', ''c'']" by code_simp
  show ?thesis using lane_refines_fifo[OF demo_lane_inv room st] l by simp
qed

text \<open>FIFO fairness: without the owner's overrides, a job queued ahead of another stays ahead of
  it for as long as both are queued, whatever submissions, starts, completions, cancellations and restarts
  happen in between.\<close>

theorem queued_jobs_never_overtaken:
  assumes "run_events tenant_step ops t = Some t'" "lane_inv t" "before x y (lane t)"
    and "x \<in> set (lane t')" "y \<in> set (lane t')"
  shows "before x y (lane t')"
  by (rule tenant_lane.never_overtaken[OF assms])

theorem queued_jobs_never_overtaken_witness:
  "before ''b'' ''c'' (lane (the (run_events tenant_step [Start 3 ''a'', Cancel 4 ''a'', Recover 5] demo_lane)))"
proof -
  let ?r = "run_events tenant_step [Start 3 ''a'', Cancel 4 ''a'', Recover 5] demo_lane"
  have "\<not> Option.is_none ?r" by code_simp
  then have r: "?r = Some (the ?r)" by (simp add: Option.is_none_def)
  have "before ''b'' ''c'' (lane demo_lane)" by code_simp
  moreover have l: "lane (the ?r) = [''b'', ''c'']" by code_simp
  ultimately show ?thesis by (intro queued_jobs_never_overtaken[OF r demo_lane_inv]) (simp_all add: l)
qed

text \<open>A terminal job is final: no operation, run alone, changes any field of a succeeded, failed,
  cancelled or interrupted job.\<close>

theorem terminal_jobs_are_final:
  assumes "lane_inv t" "lane_room op t" "lane_step op t = Some t'" "map_of t i = Some j" "terminal (bj_state j)"
  shows "map_of t' i = Some j"
  by (rule terminal_kept[OF assms])

theorem terminal_jobs_are_final_witness:
  "map_option bj_state (map_of (the (lane_step (Cancel 9 ''a'') (the (lane_step (Finish 5 ''a'' JFailed None None None) demo_lane)))) ''a'')
     = Some JFailed"
proof -
  let ?t = "the (lane_step (Finish 5 ''a'' JFailed None None None) demo_lane)"
  have "\<not> Option.is_none (lane_step (Finish 5 ''a'' JFailed None None None) demo_lane)" by code_simp
  then have st: "lane_step (Finish 5 ''a'' JFailed None None None) demo_lane = Some ?t" by (simp add: Option.is_none_def)
  have room: "lane_room (Finish 5 ''a'' JFailed None None None) demo_lane" by code_simp
  have inv: "lane_inv ?t" using step_refines[OF demo_lane_inv room st] by simp
  have "\<not> Option.is_none (lane_step (Cancel 9 ''a'') ?t)" by code_simp
  then have st2: "lane_step (Cancel 9 ''a'') ?t = Some (the (lane_step (Cancel 9 ''a'') ?t))" by (simp add: Option.is_none_def)
  have room2: "lane_room (Cancel 9 ''a'') ?t" by code_simp
  have "map_option bj_state (map_of ?t ''a'') = Some JFailed" by code_simp
  then obtain j where "map_of ?t ''a'' = Some j" "bj_state j = JFailed" by auto
  then show ?thesis using terminal_jobs_are_final[OF inv room2 st2, of "''a''" j] by (simp add: terminal_def)
qed

text \<open>Restart recovery: the lane keeps its order and its length, the running job and no other
  becomes interrupted, every other row is untouched, and nothing runs afterwards.\<close>

theorem recovery_keeps_the_lane:
  assumes "lane_inv t" "recover_lane now t = ((cs, n), t')"
  shows "lane t' = lane t \<and> n = length (lane t) \<and> running_job t' = None \<and>
    map fst cs = (case running_job t of None \<Rightarrow> [] | Some i \<Rightarrow> [i]) \<and>
    (\<forall>i. map_of t' i = map_option (restart_row now) (map_of t i))"
proof -
  have t': "t' = snd (recover_lane now t)" using assms(2) by simp
  note r = recover_lane_same[OF assms(1) t']
  have cs: "cs = map (\<lambda>(i, j). (i, bj_started j)) (filter (\<lambda>(i, j). bj_state j = JRunning) t)" and n: "n = length (lane t')"
    using assms(2) by (auto simp: recover_lane_def Let_def)
  have "length (filter (\<lambda>(i, j). bj_state j = JRunning) t) \<le> 1" by (rule lane_ok_running[OF assms(1)])
  then have "map fst cs = (case running_job t of None \<Rightarrow> [] | Some i \<Rightarrow> [i])"
    unfolding cs running_job_def by (cases "filter (\<lambda>(i, j). bj_state j = JRunning) t") auto
  then show ?thesis using r n by (simp add: t' map_of_recover)
qed

theorem recovery_keeps_the_lane_witness:
  "lane (snd (recover_lane 9 (the (lane_step (Start 3 ''a'') demo_lane)))) = [''b'', ''c'']"
proof -
  let ?t = "the (lane_step (Start 3 ''a'') demo_lane)"
  have "\<not> Option.is_none (lane_step (Start 3 ''a'') demo_lane)" by code_simp
  then have st: "lane_step (Start 3 ''a'') demo_lane = Some ?t" by (simp add: Option.is_none_def)
  have room: "lane_room (Start 3 ''a'') demo_lane" by code_simp
  have inv: "lane_inv ?t" using step_refines[OF demo_lane_inv room st] by simp
  obtain c n t' where r: "recover_lane 9 ?t = ((c, n), t')" by (metis prod.exhaust)
  have l: "lane ?t = [''b'', ''c'']" by code_simp
  show ?thesis using recovery_keeps_the_lane[OF inv r] r l by simp
qed

text \<open>A cancellation whose two renumbering statements have another transaction's committed submission
  between them: the submission read the lane before the cancellation committed.\<close>

definition cancel_with_enqueue_between :: "string \<Rightarrow> string \<Rightarrow> lane_table \<Rightarrow> lane_error + lane_table" where
  "cancel_with_enqueue_between i k t =
     (case compact_up (mark_cancelled 0 i t) of Inl e \<Rightarrow> Inl e
      | Inr u \<Rightarrow> (case insert_job (next_pos t) 0 k ''t3'' ''batch'' [] [] u of Inl e \<Rightarrow> Inl e
        | Inr v \<Rightarrow> compact_down v))"

text \<open>The renumbering of a cancellation is not isolated from a concurrent submission: the second
  statement subtracts the offset from every queued row, the new one included, whose position becomes
  negative, so the last job submitted is first in the lane.\<close>

theorem cancel_race_jumps_the_queue:
  "map_sum id lane (cancel_with_enqueue_between ''a'' ''d'' demo_lane) = Inr [''d'', ''b'', ''c''] \<and>
   map_sum id (\<lambda>t. pos_of t ''d'') (cancel_with_enqueue_between ''a'' ''d'' demo_lane) = Inr (- 999996)"
  by (intro conjI; code_simp)

text \<open>A cancellation overwrites a result that arrived after it looked: its update carries no
  condition on the state, so a job that succeeded between the check and the update ends cancelled.\<close>

theorem cancel_overwrites_success:
  "\<exists>t j. lane_inv t \<and> map_of t ''a'' = Some j \<and> bj_state j = JSucceeded \<and>
     map_option bj_state (map_of (mark_cancelled 7 ''a'' t) ''a'') = Some JCancelled"
proof -
  let ?t = "the (lane_step (Finish 5 ''a'' JSucceeded None None None) demo_lane)"
  have "\<not> Option.is_none (lane_step (Finish 5 ''a'' JSucceeded None None None) demo_lane)" by code_simp
  then have st: "lane_step (Finish 5 ''a'' JSucceeded None None None) demo_lane = Some ?t" by (simp add: Option.is_none_def)
  have room: "lane_room (Finish 5 ''a'' JSucceeded None None None) demo_lane" by code_simp
  have inv: "lane_inv ?t" using step_refines[OF demo_lane_inv room st] by simp
  have "map_option bj_state (map_of ?t ''a'') = Some JSucceeded" by code_simp
  then obtain j where "map_of ?t ''a'' = Some j" "bj_state j = JSucceeded" by auto
  then show ?thesis using inv by (intro exI[of _ ?t] exI[of _ j]) (simp add: mark_cancelled_def map_of_dict_upd)
qed

end
