(* ===== verification/Tenancy.thy ===== *)
theory Tenancy
  imports Prelude
begin

text \<open>
  \<open>platformlib/storeimpl/tenancy.py\<close> over the tables \<open>tenants\<close>, \<open>api_keys\<close> and \<open>quotas\<close> of
  \<open>platformlib/migrations/003_broker.sql\<close>, and the request guard of \<open>gateway/app/tenancy.py\<close>.  Random ids
  and raw keys are arguments; the digest is the argument \<open>hash\<close>, of which the properties that need it
  assume that it has no collision.  A refused statement is an error and leaves the tables as they were.
\<close>

datatype tstatus = TActive | TDisabled
datatype kstatus = KActive | KRevoked
datatype window = Daily | Weekly | Monthly

record tenant =
  tn_name :: string
  tn_status :: tstatus
  tn_system :: bool
  tn_created :: rat

record api_key =
  ak_tenant :: string
  ak_hash :: string
  ak_prefix :: string
  ak_status :: kstatus
  ak_created :: rat
  ak_revoked :: "rat option"

record quota =
  qu_window :: window
  qu_budget :: int
  qu_updated :: rat

record tenancy =
  tb_tenants :: "(string, tenant) dict"
  tb_keys :: "(string, api_key) dict"
  tb_quotas :: "(string, quota) dict"

datatype tenancy_error = TenantExists | ConstraintViolation | BadWindow | BadBudget

definition empty_tenancy :: tenancy where
  "empty_tenancy = \<lparr> tb_tenants = [], tb_keys = [], tb_quotas = [] \<rparr>"

section \<open>Tenants\<close>

definition system_tenant_name :: string where "system_tenant_name = ''system''"

definition tenant_by_name :: "string \<Rightarrow> 'a tenancy_scheme \<Rightarrow> (string \<times> tenant) option" where
  "tenant_by_name name s = find (\<lambda>(i, t). tn_name t = name) (tb_tenants s)"

text \<open>\<open>INSERT ... ON CONFLICT (name) DO NOTHING\<close>: a taken name is the module's own error, any other
  constraint (\<open>name <> ''\<close>, the primary key, \<open>tenants_one_system\<close>) is the database's.\<close>

definition create_tenant :: "string \<Rightarrow> rat \<Rightarrow> string \<Rightarrow> bool \<Rightarrow> 'a tenancy_scheme
    \<Rightarrow> tenancy_error + string \<times> 'a tenancy_scheme" where
  "create_tenant i now name sys s =
     (if name = [] then Inl ConstraintViolation
      else if tenant_by_name name s \<noteq> None then Inl TenantExists
      else if map_of (tb_tenants s) i \<noteq> None \<or> sys \<and> list_ex (\<lambda>(i, t). tn_system t) (tb_tenants s) then Inl ConstraintViolation
      else Inr (i, s\<lparr> tb_tenants := tb_tenants s @
        [(i, \<lparr> tn_name = name, tn_status = TActive, tn_system = sys, tn_created = now \<rparr>)] \<rparr>))"

definition ensure_system_tenant :: "string \<Rightarrow> rat \<Rightarrow> 'a tenancy_scheme \<Rightarrow> tenancy_error + string \<times> 'a tenancy_scheme" where
  "ensure_system_tenant i now s =
     (case tenant_by_name system_tenant_name s of
        Some (k, _) \<Rightarrow> Inr (k, s)
      | None \<Rightarrow> create_tenant i now system_tenant_name True s)"

definition set_tenant_status :: "string \<Rightarrow> tstatus \<Rightarrow> 'a tenancy_scheme \<Rightarrow> bool \<times> 'a tenancy_scheme" where
  "set_tenant_status i st s =
     ((case map_of (tb_tenants s) i of None \<Rightarrow> False | Some t \<Rightarrow> \<not> tn_system t),
      s\<lparr> tb_tenants := dict_upd i (\<lambda>t. if tn_system t then t else t\<lparr> tn_status := st \<rparr>) (tb_tenants s) \<rparr>)"

text \<open>\<open>DELETE FROM tenants\<close> with \<open>ON DELETE CASCADE\<close> on the keys and the quota.\<close>

definition delete_tenant :: "string \<Rightarrow> 'a tenancy_scheme \<Rightarrow> bool \<times> 'a tenancy_scheme" where
  "delete_tenant i s =
     (case map_of (tb_tenants s) i of
        None \<Rightarrow> (False, s)
      | Some t \<Rightarrow> if tn_system t then (False, s)
          else (True, s\<lparr> tb_tenants := AList.delete i (tb_tenants s),
                        tb_keys := filter (\<lambda>(k, a). ak_tenant a \<noteq> i) (tb_keys s),
                        tb_quotas := AList.delete i (tb_quotas s) \<rparr>))"

section \<open>Keys\<close>

definition display_prefix :: "string \<Rightarrow> string" where
  "display_prefix raw = take 11 raw"

text \<open>\<open>generate_key\<close>: \<open>entropy\<close> is what \<open>secrets.token_urlsafe\<close> returns.\<close>

definition generate_key :: "string \<Rightarrow> string" where
  "generate_key entropy = ''sk-'' @ entropy"

definition issue_key :: "(string \<Rightarrow> string) \<Rightarrow> string \<Rightarrow> string \<Rightarrow> rat \<Rightarrow> string \<Rightarrow> 'a tenancy_scheme
    \<Rightarrow> tenancy_error + string \<times> 'a tenancy_scheme" where
  "issue_key hash k entropy now tenant s =
     (let raw = generate_key entropy
      in if map_of (tb_tenants s) tenant = None \<or> map_of (tb_keys s) k \<noteq> None \<or>
            list_ex (\<lambda>(i, a). ak_hash a = hash raw) (tb_keys s) then Inl ConstraintViolation
         else Inr (raw, s\<lparr> tb_keys := tb_keys s @
           [(k, \<lparr> ak_tenant = tenant, ak_hash = hash raw, ak_prefix = display_prefix raw, ak_status = KActive,
                  ak_created = now, ak_revoked = None \<rparr>)] \<rparr>))"

definition revoke_row :: "rat \<Rightarrow> api_key \<Rightarrow> api_key" where
  "revoke_row now a = (if ak_status a = KActive then a\<lparr> ak_status := KRevoked, ak_revoked := Some now \<rparr> else a)"

definition rotate_key :: "(string \<Rightarrow> string) \<Rightarrow> string \<Rightarrow> string \<Rightarrow> rat \<Rightarrow> string \<Rightarrow> 'a tenancy_scheme
    \<Rightarrow> tenancy_error + string \<times> 'a tenancy_scheme" where
  "rotate_key hash k entropy now tenant s =
     issue_key hash k entropy now tenant
       (s\<lparr> tb_keys := map (\<lambda>(i, a). (i, if ak_tenant a = tenant then revoke_row now a else a)) (tb_keys s) \<rparr>)"

definition revoke_key :: "rat \<Rightarrow> string \<Rightarrow> 'a tenancy_scheme \<Rightarrow> bool \<times> 'a tenancy_scheme" where
  "revoke_key now k s =
     ((case map_of (tb_keys s) k of None \<Rightarrow> False | Some a \<Rightarrow> ak_status a = KActive),
      s\<lparr> tb_keys := dict_upd k (revoke_row now) (tb_keys s) \<rparr>)"

text \<open>What \<open>list_api_keys\<close> shows of a key: its id, display prefix, status and times, not the digest.\<close>

definition list_api_keys :: "string \<Rightarrow> 'a tenancy_scheme \<Rightarrow> (string \<times> string \<times> kstatus \<times> rat \<times> rat option) list" where
  "list_api_keys tenant s =
     map (\<lambda>(k, a). (k, ak_prefix a, ak_status a, ak_created a, ak_revoked a))
       (sort_key (\<lambda>(k, a). ak_created a) (filter (\<lambda>(k, a). ak_tenant a = tenant) (tb_keys s)))"

text \<open>\<open>resolve_key\<close>: the tenant's id and the key's id.\<close>

definition resolve_key :: "(string \<Rightarrow> string) \<Rightarrow> string \<Rightarrow> 'a tenancy_scheme \<Rightarrow> (string \<times> string) option" where
  "resolve_key hash raw s =
     (if raw = [] then None
      else case find (\<lambda>(k, a). ak_hash a = hash raw \<and> ak_status a = KActive \<and>
             (case map_of (tb_tenants s) (ak_tenant a) of None \<Rightarrow> False | Some t \<Rightarrow> tn_status t = TActive)) (tb_keys s) of
             None \<Rightarrow> None | Some (k, a) \<Rightarrow> Some (ak_tenant a, k))"

section \<open>Quotas\<close>

definition set_quota :: "string \<Rightarrow> window option \<Rightarrow> int \<Rightarrow> rat \<Rightarrow> 'a tenancy_scheme \<Rightarrow> tenancy_error + 'a tenancy_scheme" where
  "set_quota tenant w budget now s =
     (case w of None \<Rightarrow> Inl BadWindow
      | Some w \<Rightarrow> if budget < 0 then Inl BadBudget
          else if map_of (tb_tenants s) tenant = None then Inl ConstraintViolation
          else Inr (s\<lparr> tb_quotas := AList.update tenant
            \<lparr> qu_window = w, qu_budget = budget, qu_updated = now \<rparr> (tb_quotas s) \<rparr>))"

section \<open>The request guard\<close>

datatype refusal = Unauthorized | Forbidden | QuotaExhausted | NotFound | ModelTooLarge | GpuBusy
  | MeteringUnavailable | StoreUnavailable

text \<open>\<open>REFUSALS\<close> and \<open>refuse\<close> of \<open>gateway/app/broker.py\<close>: status code and \<open>Retry-After\<close>.\<close>

fun refusal_status :: "refusal \<Rightarrow> nat \<times> bool" where
  "refusal_status Unauthorized = (401, False)"
| "refusal_status Forbidden = (403, False)"
| "refusal_status QuotaExhausted = (403, False)"
| "refusal_status NotFound = (404, False)"
| "refusal_status ModelTooLarge = (413, False)"
| "refusal_status GpuBusy = (503, True)"
| "refusal_status MeteringUnavailable = (503, True)"
| "refusal_status StoreUnavailable = (503, True)"

definition refuse :: "refusal \<Rightarrow> nat option \<Rightarrow> nat \<times> nat option" where
  "refuse c retry = (let (st, transient) = refusal_status c
     in (st, if transient then Some (case retry of None \<Rightarrow> 2 | Some n \<Rightarrow> n) else None))"

text \<open>\<open>authorization.split(None, 1)\<close> and the bearer scheme, on ASCII text.\<close>

definition bearer :: "string option \<Rightarrow> string option" where
  "bearer authorization =
     (case authorization of None \<Rightarrow> None
      | Some h \<Rightarrow>
          (let h1 = dropWhile is_space h; scheme = takeWhile (\<lambda>c. \<not> is_space c) h1;
               rest = dropWhile is_space (dropWhile (\<lambda>c. \<not> is_space c) h1)
           in if rest = [] \<or> map lower_char scheme \<noteq> ''bearer'' then None
              else if strip rest = [] then None else Some (strip rest)))"

text \<open>\<open>_op_id\<close>: the tenant's id, a colon, and the client's \<open>X-Request-Id\<close> or a fresh one.\<close>

definition op_id :: "string \<Rightarrow> string option \<Rightarrow> string \<Rightarrow> string" where
  "op_id tenant request_id fresh =
     (let supplied = strip (case request_id of None \<Rightarrow> [] | Some r \<Rightarrow> r); prefix = (if tenant = [] then ''anon'' else tenant)
      in if supplied \<noteq> [] then prefix @ '':'' @ take 200 supplied else prefix @ '':req-'' @ fresh)"

text \<open>\<open>require_tenant\<close>: the tenant, the key and the operation id, or the refusal.\<close>

definition require_tenant :: "(string \<Rightarrow> string) \<Rightarrow> bool \<Rightarrow> bool \<Rightarrow> string option \<Rightarrow> string option \<Rightarrow> string \<Rightarrow> 'a tenancy_scheme
    \<Rightarrow> refusal + string \<times> string \<times> string" where
  "require_tenant hash allow_plaintext https authorization request_id fresh s =
     (if \<not> allow_plaintext \<and> \<not> https then Inl Unauthorized
      else case bearer authorization of None \<Rightarrow> Inl Unauthorized
      | Some raw \<Rightarrow> (case resolve_key hash raw s of None \<Rightarrow> Inl Unauthorized
          | Some (tenant, key) \<Rightarrow> Inr (tenant, key, op_id tenant request_id fresh)))"

definition require_own_tenant :: "string \<Rightarrow> string \<Rightarrow> refusal option" where
  "require_own_tenant tenant path = (if path \<noteq> [] \<and> tenant \<noteq> path then Some NotFound else None)"

text \<open>\<open>require_owner\<close>: the configured keys are split on commas and stripped.\<close>

fun split_commas :: "string \<Rightarrow> string list" where
  "split_commas [] = [[]]"
| "split_commas (c # cs) = (case split_commas cs of w # ws \<Rightarrow> if c = CHR '','' then [] # w # ws else (c # w) # ws)"

definition admin_keys :: "string \<Rightarrow> string \<Rightarrow> string list" where
  "admin_keys broker_keys gateway_keys =
     filter (\<lambda>k. k \<noteq> []) (map strip (split_commas (if broker_keys \<noteq> [] then broker_keys else gateway_keys)))"

definition require_owner :: "bool \<Rightarrow> bool \<Rightarrow> string list \<Rightarrow> string option \<Rightarrow> string option \<Rightarrow> refusal + unit" where
  "require_owner allow_plaintext https keys authorization api_key =
     (if \<not> allow_plaintext \<and> \<not> https then Inl Unauthorized
      else (let presented = (let a = strip (case api_key of None \<Rightarrow> [] | Some a \<Rightarrow> a)
                 in if a \<noteq> [] then a else case bearer authorization of None \<Rightarrow> [] | Some b \<Rightarrow> b)
            in if keys = [] \<or> presented \<notin> set keys then Inl Unauthorized else Inr ()))"

section \<open>The tables' constraints\<close>

definition tenants_ok :: "(string, tenant) dict \<Rightarrow> bool" where
  "tenants_ok ts = (distinct (dkeys ts) \<and> distinct (map (tn_name \<circ> snd) ts) \<and>
     length (filter (tn_system \<circ> snd) ts) \<le> 1)"

definition keys_ok :: "string list \<Rightarrow> (string, api_key) dict \<Rightarrow> bool" where
  "keys_ok ids ks = (distinct (dkeys ks) \<and> distinct (map (ak_hash \<circ> snd) ks) \<and>
     list_all (\<lambda>(k, a). ak_tenant a \<in> set ids \<and> (ak_status a = KRevoked) = (ak_revoked a \<noteq> None)) ks)"

definition tenancy_ok :: "'a tenancy_scheme \<Rightarrow> bool" where
  "tenancy_ok s = (tenants_ok (tb_tenants s) \<and> keys_ok (dkeys (tb_tenants s)) (tb_keys s) \<and>
     distinct (dkeys (tb_quotas s)) \<and> list_all (\<lambda>(k, q). 0 \<le> qu_budget q) (tb_quotas s) \<and>
     set (dkeys (tb_quotas s)) \<subseteq> set (dkeys (tb_tenants s)))"

lemma tenancy_okD:
  assumes "tenancy_ok s"
  shows "distinct (dkeys (tb_tenants s))" "distinct (dkeys (tb_keys s))" "distinct (map (ak_hash \<circ> snd) (tb_keys s))"
  using assms by (simp_all add: tenancy_ok_def tenants_ok_def keys_ok_def)

lemma hash_unique:
  assumes "tenancy_ok s" "map_of (tb_keys s) k = Some a" "map_of (tb_keys s) k' = Some b" "ak_hash a = ak_hash b"
  shows "k = k'"
proof -
  have "(k, a) \<in> set (tb_keys s)" "(k', b) \<in> set (tb_keys s)" using assms(2,3) by (auto dest: map_of_SomeD)
  moreover have "inj_on (ak_hash \<circ> snd) (set (tb_keys s))"
    using tenancy_okD(2,3)[OF assms(1)] by (simp add: distinct_map comp_inj_on_iff)
  ultimately show ?thesis using assms(4) by (metis comp_apply fst_conv inj_onD snd_conv)
qed

text \<open>What a key needs to authenticate.\<close>

definition key_grants :: "(string \<Rightarrow> string) \<Rightarrow> string \<Rightarrow> string \<Rightarrow> string \<Rightarrow> 'a tenancy_scheme \<Rightarrow> bool" where
  "key_grants hash raw t k s = (raw \<noteq> [] \<and>
     (case map_of (tb_keys s) k of None \<Rightarrow> False
      | Some a \<Rightarrow> ak_tenant a = t \<and> ak_hash a = hash raw \<and> ak_status a = KActive) \<and>
     (case map_of (tb_tenants s) t of None \<Rightarrow> False | Some n \<Rightarrow> tn_status n = TActive))"

lemma resolve_key_iff:
  assumes ok: "tenancy_ok s"
  shows "resolve_key hash raw s = Some (t, k) \<longleftrightarrow> key_grants hash raw t k s"
proof -
  let ?P = "\<lambda>(k, a). ak_hash a = hash raw \<and> ak_status a = KActive \<and>
             (case map_of (tb_tenants s) (ak_tenant a) of None \<Rightarrow> False | Some t \<Rightarrow> tn_status t = TActive)"
  have dist: "distinct (dkeys (tb_keys s))" by (rule tenancy_okD(2)[OF ok])
  have fs: "key_grants hash raw (ak_tenant a) k s" if "raw \<noteq> []" "find ?P (tb_keys s) = Some (k, a)" for k a
  proof -
    have "(k, a) \<in> set (tb_keys s)" "?P (k, a)" using find_SomeD[OF that(2)] by simp_all
    then show ?thesis using that(1) map_of_is_SomeI[OF dist, of k a] by (simp add: key_grants_def)
  qed
  show ?thesis
  proof
    assume "resolve_key hash raw s = Some (t, k)"
    then show "key_grants hash raw t k s" using fs by (auto simp: resolve_key_def split: if_splits option.splits)
  next
    assume g: "key_grants hash raw t k s"
    then obtain a where a: "map_of (tb_keys s) k = Some a" "ak_tenant a = t" "ak_hash a = hash raw" "?P (k, a)" "raw \<noteq> []"
      by (auto simp: key_grants_def split: option.splits)
    then have "find ?P (tb_keys s) \<noteq> None" by (auto simp: find_None_iff dest: map_of_SomeD)
    then obtain k' b where f: "find ?P (tb_keys s) = Some (k', b)" by force
    have b: "map_of (tb_keys s) k' = Some b" "ak_hash b = hash raw"
      using find_SomeD[OF f] map_of_is_SomeI[OF dist, of k' b] by simp_all
    have "k = k'" by (rule hash_unique[OF ok a(1) b(1)]) (simp add: a(3) b(2))
    then have "b = a" using a b by simp
    then show "resolve_key hash raw s = Some (t, k)" using f a \<open>k = k'\<close> by (simp add: resolve_key_def)
  qed
qed

section \<open>Operations keep the constraints\<close>

lemma tenancy_ok_keys:
  "tenancy_ok s \<Longrightarrow> keys_ok (dkeys (tb_tenants s)) ks \<Longrightarrow> tenancy_ok (s\<lparr> tb_keys := ks \<rparr>)"
  by (simp add: tenancy_ok_def)

lemma find_name_None: "tenant_by_name name s = None \<Longrightarrow> name \<notin> set (map tn_name (dvals (tb_tenants s)))"
  by (force simp: tenant_by_name_def find_None_iff)

lemma create_tenant_ok: "tenancy_ok s \<Longrightarrow> create_tenant i now name sys s = Inr (k, s') \<Longrightarrow> tenancy_ok s'"
proof -
  assume ok: "tenancy_ok s" and c: "create_tenant i now name sys s = Inr (k, s')"
  have "tenant_by_name name s = None" "map_of (tb_tenants s) i = None"
    and sys: "sys \<Longrightarrow> \<not> list_ex (\<lambda>(i, t). tn_system t) (tb_tenants s)"
    using c by (simp_all add: create_tenant_def del: not_None_eq split: if_splits)
  then have new: "name \<notin> set (map tn_name (dvals (tb_tenants s)))" "i \<notin> set (dkeys (tb_tenants s))"
    using find_name_None dkeys_iff_map_of[of i "tb_tenants s"] by blast+
  have nosys: "sys \<Longrightarrow> filter (tn_system \<circ> snd) (tb_tenants s) = []"
    using sys by (force simp: list_ex_iff filter_empty_conv)
  have "s' = s\<lparr> tb_tenants := tb_tenants s @ [(i, \<lparr> tn_name = name, tn_status = TActive, tn_system = sys, tn_created = now \<rparr>)] \<rparr>"
    using c by (auto simp: create_tenant_def split: if_splits)
  then show ?thesis using ok new nosys
    by (auto simp: tenancy_ok_def tenants_ok_def keys_ok_def list_all_iff)
qed

lemma issue_key_ok: "tenancy_ok s \<Longrightarrow> issue_key hash k entropy now t s = Inr (raw, s') \<Longrightarrow> tenancy_ok s'"
proof -
  assume ok: "tenancy_ok s" and i: "issue_key hash k entropy now t s = Inr (raw, s')"
  have new: "k \<notin> set (dkeys (tb_keys s))" "t \<in> set (dkeys (tb_tenants s))"
    "hash raw \<notin> set (map (ak_hash \<circ> snd) (tb_keys s))" "raw = generate_key entropy"
    using i dkeys_iff_map_of[of k "tb_keys s"] dkeys_iff_map_of[of t "tb_tenants s"]
    by (auto simp: issue_key_def Let_def list_ex_iff split: if_splits)
  have "s' = s\<lparr> tb_keys := tb_keys s @ [(k, \<lparr> ak_tenant = t, ak_hash = hash raw, ak_prefix = display_prefix raw,
      ak_status = KActive, ak_created = now, ak_revoked = None \<rparr>)] \<rparr>"
    using i new(4) by (simp add: issue_key_def Let_def split: if_splits)
  moreover have "keys_ok (dkeys (tb_tenants s)) (tb_keys s)" using ok by (simp add: tenancy_ok_def)
  ultimately show ?thesis using new ok by (intro tenancy_ok_keys[OF ok, THEN back_subst[of tenancy_ok]]) (auto simp: keys_ok_def)
qed

lemma keys_ok_map:
  assumes "keys_ok ids ks"
    and "\<And>k a. ak_hash (f k a) = ak_hash a \<and> ak_tenant (f k a) = ak_tenant a"
    and "\<And>k a. (ak_status a = KRevoked) = (ak_revoked a \<noteq> None) \<Longrightarrow>
      (ak_status (f k a) = KRevoked) = (ak_revoked (f k a) \<noteq> None)"
  shows "keys_ok ids (map (\<lambda>(k, a). (k, f k a)) ks)"
proof -
  have "map (ak_hash \<circ> snd) (map (\<lambda>(k, a). (k, f k a)) ks) = map (ak_hash \<circ> snd) ks"
    using assms(2) by (induction ks) auto
  moreover have "list_all (\<lambda>(k, a). P a) (map (\<lambda>(k, a). (k, f k a)) ks)"
    if "list_all (\<lambda>(k, a). P a) ks" "\<And>k a. P a \<Longrightarrow> P (f k a)" for P
    using that by (induction ks) auto
  note this[of "\<lambda>a. ak_tenant a \<in> set ids \<and> (ak_status a = KRevoked) = (ak_revoked a \<noteq> None)"]
  ultimately show ?thesis using assms unfolding keys_ok_def by (simp del: list.map_comp map_map)
qed

lemma revoke_row_keeps:
  "ak_hash (revoke_row now a) = ak_hash a" "ak_tenant (revoke_row now a) = ak_tenant a"
  "ak_status (revoke_row now a) = KRevoked"
  "(ak_status a = KRevoked) = (\<exists>y. ak_revoked a = Some y) \<Longrightarrow> \<exists>y. ak_revoked (revoke_row now a) = Some y"
  by (cases "ak_status a"; simp add: revoke_row_def)+

definition revoke_all :: "rat \<Rightarrow> string \<Rightarrow> 'a tenancy_scheme \<Rightarrow> 'a tenancy_scheme" where
  "revoke_all now t s = s\<lparr> tb_keys := map (\<lambda>(i, a). (i, if ak_tenant a = t then revoke_row now a else a)) (tb_keys s) \<rparr>"

lemma rotate_key_alt: "rotate_key hash k entropy now t s = issue_key hash k entropy now t (revoke_all now t s)"
  by (simp add: rotate_key_def revoke_all_def)

lemma revoke_all_ok: "tenancy_ok s \<Longrightarrow> tenancy_ok (revoke_all now t s)"
  unfolding revoke_all_def
  by (intro tenancy_ok_keys keys_ok_map) (simp_all add: tenancy_ok_def revoke_row_keeps)

lemma rotate_key_ok: "tenancy_ok s \<Longrightarrow> rotate_key hash k entropy now t s = Inr (raw, s') \<Longrightarrow> tenancy_ok s'"
  unfolding rotate_key_alt by (rule issue_key_ok[OF revoke_all_ok])

lemma revoke_key_ok: "tenancy_ok s \<Longrightarrow> tenancy_ok (snd (revoke_key now k s))"
  unfolding revoke_key_def snd_conv dict_upd_def
  by (intro tenancy_ok_keys keys_ok_map) (simp_all add: tenancy_ok_def revoke_row_keeps)

lemma set_status_ok: "tenancy_ok s \<Longrightarrow> tenancy_ok (snd (set_tenant_status i st s))"
proof -
  assume ok: "tenancy_ok s"
  let ?f = "\<lambda>t. if tn_system t then t else t\<lparr> tn_status := st \<rparr>"
  have "map (tn_name \<circ> snd) (dict_upd i ?f d) = map (tn_name \<circ> snd) d" for d :: "(string, tenant) dict"
    by (induction d) (auto simp: dict_upd_def)
  moreover have "length (filter (tn_system \<circ> snd) (dict_upd i ?f d)) = length (filter (tn_system \<circ> snd) d)" for d :: "(string, tenant) dict"
    by (induction d) (auto simp: dict_upd_def split: if_splits)
  ultimately show ?thesis using ok
    by (simp add: tenancy_ok_def tenants_ok_def set_tenant_status_def)
qed

lemma dkeys_filter_distinct: "distinct (dkeys d) \<Longrightarrow> distinct (dkeys (filter P d))"
  by (rule distinct_map_filter)

lemma delete_tenant_ok: "tenancy_ok s \<Longrightarrow> tenancy_ok (snd (delete_tenant i s))"
proof (cases "fst (delete_tenant i s)")
  case True
  let ?del = "\<lambda>d. filter (\<lambda>(k, v). k \<noteq> i) d"
  assume ok: "tenancy_ok s"
  have le: "length (filter (tn_system \<circ> snd) (?del d)) \<le> length (filter (tn_system \<circ> snd) d)" for d :: "(string, tenant) dict"
    by (induction d) auto
  have s': "snd (delete_tenant i s) = s\<lparr> tb_tenants := ?del (tb_tenants s),
      tb_keys := filter (\<lambda>(k, a). ak_tenant a \<noteq> i) (tb_keys s), tb_quotas := ?del (tb_quotas s) \<rparr>"
    using True by (auto simp: delete_tenant_def filter_neq_delete split: option.splits if_splits)
  have "tenants_ok (?del (tb_tenants s))"
    using ok le[of "tb_tenants s"] by (auto simp: tenancy_ok_def tenants_ok_def distinct_map_filter)
  moreover have "keys_ok (dkeys (?del (tb_tenants s))) (filter (\<lambda>(k, a). ak_tenant a \<noteq> i) (tb_keys s))"
    unfolding keys_ok_def
  proof (intro conjI)
    have k: "keys_ok (dkeys (tb_tenants s)) (tb_keys s)" using ok by (simp add: tenancy_ok_def)
    then show "distinct (dkeys (filter (\<lambda>(k, a). ak_tenant a \<noteq> i) (tb_keys s)))"
      "distinct (map (ak_hash \<circ> snd) (filter (\<lambda>(k, a). ak_tenant a \<noteq> i) (tb_keys s)))"
      by (simp_all add: keys_ok_def distinct_map_filter)
    have "set (dkeys (?del (tb_tenants s))) = set (dkeys (tb_tenants s)) - {i}" by force
    then show "list_all (\<lambda>(k, a). ak_tenant a \<in> set (dkeys (?del (tb_tenants s))) \<and>
        (ak_status a = KRevoked) = (ak_revoked a \<noteq> None)) (filter (\<lambda>(k, a). ak_tenant a \<noteq> i) (tb_keys s))"
      using k by (auto simp: keys_ok_def list_all_iff)
  qed
  moreover have "set (dkeys (?del (tb_quotas s))) \<subseteq> set (dkeys (?del (tb_tenants s)))"
    using ok by (force simp: tenancy_ok_def)
  ultimately show ?thesis
    using ok by (simp add: s' tenancy_ok_def distinct_map_filter list_all_iff)
next
  case False
  moreover assume "tenancy_ok s"
  ultimately show ?thesis by (auto simp: delete_tenant_def split: option.splits if_splits)
qed

lemma set_quota_ok:
  assumes ok: "tenancy_ok s" and q: "set_quota t w b now s = Inr s'" shows "tenancy_ok s'"
proof -
  obtain w' where r: "0 \<le> b" "map_of (tb_tenants s) t \<noteq> None"
    and s': "s' = s\<lparr> tb_quotas := AList.update t \<lparr> qu_window = w', qu_budget = b, qu_updated = now \<rparr> (tb_quotas s) \<rparr>"
    using q by (auto simp: set_quota_def simp del: not_None_eq split: option.splits if_splits)
  have "list_all (\<lambda>(k, q). 0 \<le> qu_budget q) (AList.update t x d)"
    if "list_all (\<lambda>(k, q). 0 \<le> qu_budget q) d" "0 \<le> qu_budget x" for x :: quota and d
    using that set_update_dict[of t x d] unfolding list_all_iff by blast
  from this[of "tb_quotas s"] have "list_all (\<lambda>(k, q). 0 \<le> qu_budget q) (tb_quotas s')"
    using ok r by (simp add: s' tenancy_ok_def)
  moreover have "t \<in> set (dkeys (tb_tenants s))" by (rule dkeys_iff_map_of[THEN iffD2, OF r(2)])
  then have "set (dkeys (tb_quotas s')) \<subseteq> set (dkeys (tb_tenants s))" using ok by (simp add: s' tenancy_ok_def dkeys_update_set)
  moreover have "distinct (dkeys (tb_quotas s'))" using ok by (simp add: s' tenancy_ok_def)
  ultimately show ?thesis using ok s' by (simp add: tenancy_ok_def)
qed

section \<open>The tenancy machine\<close>

datatype tenancy_event =
    CreateTenant string rat string bool
  | EnsureSystem string rat
  | SetStatus string tstatus
  | DeleteTenant string
  | IssueKey string string rat string
  | RotateKey string string rat string
  | RevokeKey rat string
  | SetQuota string "window option" int rat

fun right_of :: "'e + 'a \<Rightarrow> 'a option" where
  "right_of (Inl _) = None"
| "right_of (Inr x) = Some x"

lemma right_of_Some [simp]: "right_of r = Some x \<longleftrightarrow> r = Inr x"
  by (cases r) auto

fun tenancy_step :: "(string \<Rightarrow> string) \<Rightarrow> tenancy_event \<Rightarrow> tenancy \<Rightarrow> tenancy option" where
  "tenancy_step hash (CreateTenant i now name sys) s = map_option snd (right_of (create_tenant i now name sys s))"
| "tenancy_step hash (EnsureSystem i now) s = map_option snd (right_of (ensure_system_tenant i now s))"
| "tenancy_step hash (SetStatus i st) s = Some (snd (set_tenant_status i st s))"
| "tenancy_step hash (DeleteTenant i) s = Some (snd (delete_tenant i s))"
| "tenancy_step hash (IssueKey k entropy now t) s = map_option snd (right_of (issue_key hash k entropy now t s))"
| "tenancy_step hash (RotateKey k entropy now t) s = map_option snd (right_of (rotate_key hash k entropy now t s))"
| "tenancy_step hash (RevokeKey now k) s = Some (snd (revoke_key now k s))"
| "tenancy_step hash (SetQuota t w b now) s = right_of (set_quota t w b now s)"

lemma tenancy_step_ok: "tenancy_ok s \<Longrightarrow> tenancy_step hash e s = Some s' \<Longrightarrow> tenancy_ok s'"
proof (cases e)
  case (EnsureSystem i now)
  moreover assume "tenancy_ok s" "tenancy_step hash e s = Some s'"
  ultimately show ?thesis
    by (auto simp: ensure_system_tenant_def split: option.splits intro: create_tenant_ok)
qed (auto intro: create_tenant_ok issue_key_ok rotate_key_ok revoke_key_ok set_status_ok delete_tenant_ok set_quota_ok)

interpretation tenancy_machine: machine "tenancy_step hash" "\<lambda>e s. True" tenancy_ok for hash
  by unfold_locales (rule tenancy_step_ok)

lemma tenancy_ok_empty: "tenancy_ok empty_tenancy"
  by (simp add: tenancy_ok_def tenants_ok_def keys_ok_def empty_tenancy_def)

text \<open>A system tenant stays, with its name and active.\<close>

definition system_row :: "string \<Rightarrow> tenancy \<Rightarrow> bool" where
  "system_row i s = (case map_of (tb_tenants s) i of None \<Rightarrow> False | Some t \<Rightarrow> tn_system t \<and> tn_status t = TActive)"

lemma map_of_snoc_old: "map_of d i = Some v \<Longrightarrow> map_of d k = None \<Longrightarrow> map_of (d @ [(k, w)]) i = Some v"
  by (simp add: map_add_def)

lemma create_tenants: "create_tenant i now name sys s = Inr (k, s') \<Longrightarrow> map_of (tb_tenants s) i = None \<and>
    (\<exists>t. tb_tenants s' = tb_tenants s @ [(i, t)])"
  by (auto simp: create_tenant_def split: if_splits)

lemma issue_tenants: "issue_key hash k entropy now t s = Inr (r, s') \<Longrightarrow> tb_tenants s' = tb_tenants s"
  by (auto simp: issue_key_def Let_def split: if_splits)

lemma system_row_step:
  assumes row: "system_row i s" and st: "tenancy_step hash e s = Some s'"
  shows "system_row i s'"
proof -
  obtain t where t: "map_of (tb_tenants s) i = Some t" "tn_system t" "tn_status t = TActive"
    using row by (auto simp: system_row_def split: option.splits)
  have same: ?thesis if "map_of (tb_tenants s') i = Some t" using that t by (simp add: system_row_def)
  have created: "map_of (tb_tenants s') i = Some t" if "create_tenant k now name sys s = Inr (k', s')" for k now name sys k'
    using create_tenants[OF that] map_of_snoc_old[OF t(1)] by auto
  show ?thesis
  proof (cases e)
    case (CreateTenant k now name sys)
    then show ?thesis using st created same by auto
  next
    case (EnsureSystem k now)
    then show ?thesis using st created same row by (auto simp: ensure_system_tenant_def split: option.splits)
  next
    case (SetStatus k stt)
    then show ?thesis using st t by (intro same) (auto simp: set_tenant_status_def map_of_dict_upd)
  next
    case (DeleteTenant k)
    then show ?thesis using st t
      by (intro same) (auto simp: delete_tenant_def map_of_delete_dict split: option.splits if_splits)
  next
    case (IssueKey k entropy now tn)
    then show ?thesis using st t by (intro same) (auto dest: issue_tenants)
  next
    case (RotateKey k entropy now tn)
    then show ?thesis using st t by (intro same) (auto simp: rotate_key_alt revoke_all_def dest: issue_tenants)
  next
    case (RevokeKey now k)
    then show ?thesis using st t by (intro same) (auto simp: revoke_key_def)
  next
    case (SetQuota tn w b now)
    then show ?thesis using st t by (intro same) (auto simp: set_quota_def split: option.splits if_splits)
  qed
qed

section \<open>Rotation and status\<close>

lemma issue_key_row:
  assumes "issue_key hash k entropy now t s = Inr (raw, s')"
  shows "map_of (tb_keys s') k = Some \<lparr> ak_tenant = t, ak_hash = hash raw, ak_prefix = display_prefix raw,
      ak_status = KActive, ak_created = now, ak_revoked = None \<rparr>"
    and "k' \<noteq> k \<Longrightarrow> map_of (tb_keys s') k' = map_of (tb_keys s) k'"
    and "raw = generate_key entropy" "map_of (tb_keys s) k = None"
    and "map_of (tb_tenants s) t \<noteq> None" "tb_tenants s' = tb_tenants s"
  using assms by (auto simp: issue_key_def Let_def map_add_def split: if_splits option.splits)

lemma map_of_revoke_all:
  "map_of (tb_keys (revoke_all now t s)) k = map_option (\<lambda>a. if ak_tenant a = t then revoke_row now a else a) (map_of (tb_keys s) k)"
  by (simp add: revoke_all_def map_of_map_vals)

lemma key_grants_issued:
  assumes "issue_key hash k entropy now t s = Inr (raw, s')"
  shows "key_grants hash r u k' s' \<longleftrightarrow>
    (if k' = k then r \<noteq> [] \<and> u = t \<and> hash r = hash raw \<and>
       (case map_of (tb_tenants s) t of None \<Rightarrow> False | Some n \<Rightarrow> tn_status n = TActive)
     else key_grants hash r u k' s)"
  using issue_key_row[OF assms] by (cases "k' = k") (auto simp: key_grants_def split: option.splits)

lemma key_grants_revoked:
  "key_grants hash r u k (revoke_all now t s) \<longleftrightarrow> u \<noteq> t \<and> key_grants hash r u k s"
proof (cases "map_of (tb_keys s) k")
  case (Some a)
  then show ?thesis
    by (cases "ak_tenant a = t") (auto simp: key_grants_def map_of_revoke_all revoke_row_keeps, auto simp: revoke_all_def)
qed (simp add: key_grants_def map_of_revoke_all)

section \<open>Properties\<close>

text \<open>Authentication is the conjunction of two statuses: in tables that keep their constraints a
  raw key resolves to a tenant exactly when an active key row of that tenant carries its digest and the
  tenant is active.\<close>

theorem authentication_needs_both_statuses:
  assumes "tenancy_ok s"
  shows "resolve_key hash raw s = Some (t, k) \<longleftrightarrow> raw \<noteq> [] \<and>
    (\<exists>a n. map_of (tb_keys s) k = Some a \<and> ak_tenant a = t \<and> ak_hash a = hash raw \<and> ak_status a = KActive \<and>
       map_of (tb_tenants s) t = Some n \<and> tn_status n = TActive)"
  unfolding resolve_key_iff[OF assms] by (auto simp: key_grants_def split: option.splits)

definition demo_tenancy :: tenancy where
  "demo_tenancy = the (run_events (tenancy_step id)
     [EnsureSystem ''s0'' 0, CreateTenant ''t1'' 1 ''lab'' False, CreateTenant ''t2'' 1 ''studio'' False,
      IssueKey ''k1'' ''aaaa'' 2 ''t1'', IssueKey ''k2'' ''bbbb'' 2 ''t2''] empty_tenancy)"

lemma demo_tenancy_ok: "tenancy_ok demo_tenancy"
proof -
  have "\<not> Option.is_none (run_events (tenancy_step id)
     [EnsureSystem ''s0'' 0, CreateTenant ''t1'' 1 ''lab'' False, CreateTenant ''t2'' 1 ''studio'' False,
      IssueKey ''k1'' ''aaaa'' 2 ''t1'', IssueKey ''k2'' ''bbbb'' 2 ''t2''] empty_tenancy)" by code_simp
  then obtain s where r: "run_events (tenancy_step id)
     [EnsureSystem ''s0'' 0, CreateTenant ''t1'' 1 ''lab'' False, CreateTenant ''t2'' 1 ''studio'' False,
      IssueKey ''k1'' ''aaaa'' 2 ''t1'', IssueKey ''k2'' ''bbbb'' 2 ''t2''] empty_tenancy = Some s"
    unfolding Option.is_none_def by blast
  show ?thesis unfolding demo_tenancy_def r option.sel
    by (rule tenancy_machine.run_inv[OF r tenancy_ok_empty]) simp
qed

theorem authentication_needs_both_statuses_witness:
  "resolve_key id ''sk-aaaa'' demo_tenancy = Some (''t1'', ''k1'')"
proof -
  have "map_option ak_tenant (map_of (tb_keys demo_tenancy) ''k1'') = Some ''t1''"
    "map_option ak_hash (map_of (tb_keys demo_tenancy) ''k1'') = Some ''sk-aaaa''"
    "map_option ak_status (map_of (tb_keys demo_tenancy) ''k1'') = Some KActive"
    "map_option tn_status (map_of (tb_tenants demo_tenancy) ''t1'') = Some TActive" by code_simp+
  then show ?thesis using authentication_needs_both_statuses[OF demo_tenancy_ok, of id "''sk-aaaa''" "''t1''" "''k1''"] by auto
qed

text \<open>Rotation replaces a tenant's credentials and nobody else's: with a digest free of collisions,
  after a rotation the new raw key authenticates the tenant exactly when the tenant is active, no other raw
  key does, and every other tenant's keys authenticate as before.\<close>

theorem rotation_replaces_credentials:
  assumes "tenancy_ok s" "inj hash" "rotate_key hash k entropy now t s = Inr (raw, s')"
  shows "(resolve_key hash r s' = Some (t, k') \<longleftrightarrow> r = raw \<and> k' = k \<and>
      (case map_of (tb_tenants s) t of None \<Rightarrow> False | Some n \<Rightarrow> tn_status n = TActive)) \<and>
    (u \<noteq> t \<longrightarrow> resolve_key hash r s' = Some (u, k') \<longleftrightarrow> resolve_key hash r s = Some (u, k'))"
proof -
  note i = assms(3)[unfolded rotate_key_alt]
  have ok': "tenancy_ok s'" by (rule rotate_key_ok[OF assms(1,3)])
  have raw: "raw \<noteq> []" using issue_key_row(3)[OF i] by (simp add: generate_key_def)
  have fresh: "map_of (tb_keys s) k = None" using issue_key_row(4)[OF i] by (simp add: map_of_revoke_all)
  have tn: "tb_tenants (revoke_all now t s) = tb_tenants s" by (simp add: revoke_all_def)
  show ?thesis
    unfolding resolve_key_iff[OF ok'] resolve_key_iff[OF assms(1)] key_grants_issued[OF i] key_grants_revoked tn
    using raw fresh inj_eq[OF assms(2)] by (auto simp: key_grants_def)
qed

theorem rotation_replaces_credentials_witness:
  "\<exists>s'. rotate_key id ''k3'' ''cccc'' 3 ''t1'' demo_tenancy = Inr (''sk-cccc'', s') \<and>
     resolve_key id ''sk-aaaa'' s' \<noteq> Some (''t1'', ''k1'') \<and> resolve_key id ''sk-cccc'' s' = Some (''t1'', ''k3'')"
proof -
  have "map_sum (\<lambda>_. ()) fst (rotate_key id ''k3'' ''cccc'' 3 ''t1'' demo_tenancy) = Inr ''sk-cccc''" by code_simp
  then obtain s' where r: "rotate_key id ''k3'' ''cccc'' 3 ''t1'' demo_tenancy = Inr (''sk-cccc'', s')"
    by (cases "rotate_key id ''k3'' ''cccc'' 3 ''t1'' demo_tenancy") auto
  have "map_option tn_status (map_of (tb_tenants demo_tenancy) ''t1'') = Some TActive" by code_simp
  then show ?thesis
    using rotation_replaces_credentials[OF demo_tenancy_ok inj_on_id r, of "''sk-aaaa''" "''k1''" "''t2''"]
      rotation_replaces_credentials[OF demo_tenancy_ok inj_on_id r, of "''sk-cccc''" "''k3''" "''t2''"] r
    by (intro exI[of _ s']) auto
qed

text \<open>Operation ids are namespaced: two tenants whose ids contain no colon never get the same
  operation id, whatever request ids their clients send.\<close>

theorem operation_ids_never_collide:
  assumes "t \<noteq> u" "t \<noteq> []" "u \<noteq> []" "CHR '':'' \<notin> set t" "CHR '':'' \<notin> set u"
  shows "op_id t r f \<noteq> op_id u r' f'"
proof -
  have "takeWhile (\<lambda>c. c \<noteq> CHR '':'') (op_id i r f) = i" if "i \<noteq> []" "CHR '':'' \<notin> set i" for i r f
  proof -
    have "takeWhile (\<lambda>c. c \<noteq> CHR '':'') (i @ CHR '':'' # z) = i" for z
      using that(2) by (subst takeWhile_append2) auto
    then show ?thesis using that(1) by (simp add: op_id_def Let_def)
  qed
  then show ?thesis using assms by metis
qed

theorem operation_ids_never_collide_witness:
  "op_id ''t1'' (Some ''retry-1'') ''x'' \<noteq> op_id ''t2'' (Some ''retry-1'') ''x''"
  by (rule operation_ids_never_collide) simp_all

text \<open>The system tenant is permanent: no run of the module's operations deletes or disables it.\<close>

theorem system_tenant_is_permanent:
  assumes "run_events (tenancy_step hash) es s = Some s'" "system_row i s"
  shows "system_row i s'"
  using assms by (induction es arbitrary: s) (auto split: option.splits dest: system_row_step)

theorem system_tenant_is_permanent_witness:
  "system_row ''s0'' (the (run_events (tenancy_step id) [DeleteTenant ''s0'', SetStatus ''s0'' TDisabled] demo_tenancy))"
proof -
  have "\<not> Option.is_none (run_events (tenancy_step id) [DeleteTenant ''s0'', SetStatus ''s0'' TDisabled] demo_tenancy)"
    by code_simp
  moreover have "system_row ''s0'' demo_tenancy" by code_simp
  ultimately show ?thesis using system_tenant_is_permanent[of id "[DeleteTenant ''s0'', SetStatus ''s0'' TDisabled]" demo_tenancy]
    by (simp add: Option.is_none_def)
qed

end
