(* ===== verification/Metering.thy ===== *)
theory Metering
  imports Tenancy
begin

text \<open>
  \<open>platformlib/storeimpl/metering.py\<close> over the tables \<open>usage_reservation\<close> and \<open>usage_ledger\<close>: reserve,
  settle, release, the sweep, and the reads.  \<open>trunc w now\<close> is the database's \<open>date_trunc\<close>.  Each
  operation is split where another transaction can commit in between: a reservation looks, then checks
  under the row lock of the tenant's quota, then inserts and commits; a settlement reads, then writes.
\<close>

datatype rstate = Reserved | Settled | Released

record resv =
  rv_tenant :: string
  rv_kind :: string
  rv_modality :: string
  rv_window :: rat
  rv_est :: rat
  rv_settled :: "rat option"
  rv_state :: rstate
  rv_created :: rat

record usage =
  us_tenant :: string
  us_kind :: string
  us_modality :: string
  us_seconds :: rat
  us_window :: rat

record mstore = tenancy +
  ms_resv :: "(string, resv) dict"
  ms_ledger :: "(string, usage) dict"

datatype meter_error = Exhausted rat rat | Finished rstate | InFlight | Unrecorded

text \<open>\<open>window_start_sql\<close>: the truncation unit of each window; the text of the SQL fragment is the unit.\<close>

fun trunc_unit :: "window \<Rightarrow> string" where
  "trunc_unit Daily = ''day''"
| "trunc_unit Weekly = ''week''"
| "trunc_unit Monthly = ''month''"

section \<open>Sums\<close>

definition ledger_sum :: "string \<Rightarrow> rat \<Rightarrow> mstore \<Rightarrow> rat" where
  "ledger_sum t w m = dsum (\<lambda>u. if us_tenant u = t \<and> us_window u = w then us_seconds u else 0) (ms_ledger m)"

definition open_sum :: "string \<Rightarrow> rat \<Rightarrow> mstore \<Rightarrow> rat" where
  "open_sum t w m = dsum (\<lambda>r. if rv_tenant r = t \<and> rv_window r = w \<and> rv_state r = Reserved then rv_est r else 0) (ms_resv m)"

definition consumed :: "string \<Rightarrow> rat \<Rightarrow> mstore \<Rightarrow> rat" where
  "consumed t w m = ledger_sum t w m + open_sum t w m"

record position =
  po_window :: "window option"
  po_start :: "rat option"
  po_budget :: "rat option"
  po_settled :: rat
  po_outstanding :: rat
  po_consumed :: rat
  po_remaining :: "rat option"

text \<open>\<open>consumption\<close> with no explicit window start.\<close>

definition consumption :: "(string \<Rightarrow> rat \<Rightarrow> rat) \<Rightarrow> string \<Rightarrow> window option \<Rightarrow> rat \<Rightarrow> mstore \<Rightarrow> position" where
  "consumption trunc t w now m =
     (let q = map_of (tb_quotas m) t
      in if q = None \<and> w = None then
           \<lparr> po_window = None, po_start = None, po_budget = None, po_settled = 0, po_outstanding = 0, po_consumed = 0,
              po_remaining = None \<rparr>
         else (let win = (case w of Some w \<Rightarrow> w | None \<Rightarrow> (case q of Some q \<Rightarrow> qu_window q | None \<Rightarrow> Daily));
                   start = trunc (trunc_unit win) now;
                   budget = map_option (\<lambda>q. of_int (qu_budget q)) q
               in \<lparr> po_window = Some win, po_start = Some start, po_budget = budget, po_settled = ledger_sum t start m,
                   po_outstanding = open_sum t start m, po_consumed = consumed t start m,
                   po_remaining = map_option (\<lambda>b. b - consumed t start m) budget \<rparr>))"

section \<open>Reserve\<close>

record request =
  rq_op :: string
  rq_tenant :: string
  rq_est :: rat
  rq_kind :: string
  rq_modality :: string
  rq_default :: "rat option"

definition finished :: "rstate \<Rightarrow> meter_error" where
  "finished s = (if s = Reserved then InFlight else Finished s)"

text \<open>The read before the transaction.\<close>

definition reserve_look :: "request \<Rightarrow> mstore \<Rightarrow> meter_error option" where
  "reserve_look q m = (if rq_est q < 0 then Some Unrecorded
     else map_option (\<lambda>r. finished (rv_state r)) (map_of (ms_resv m) (rq_op q)))"

definition budget_of :: "request \<Rightarrow> mstore \<Rightarrow> window \<times> rat option" where
  "budget_of q m = (case map_of (tb_quotas m) (rq_tenant q) of
       None \<Rightarrow> (Daily, rq_default q) | Some u \<Rightarrow> (qu_window u, Some (of_int (qu_budget u))))"

text \<open>Under the quota row's lock: the window's start, or the refusal.\<close>

definition reserve_check :: "(string \<Rightarrow> rat \<Rightarrow> rat) \<Rightarrow> request \<Rightarrow> rat \<Rightarrow> mstore \<Rightarrow> meter_error + rat" where
  "reserve_check trunc q now m =
     (let (w, budget) = budget_of q m; start = trunc (trunc_unit w) now
      in case budget of None \<Rightarrow> Inr start
         | Some b \<Rightarrow> if rq_est q > b - consumed (rq_tenant q) start m
             then Inl (Exhausted (b - consumed (rq_tenant q) start m) (rq_est q)) else Inr start)"

text \<open>\<open>INSERT ... ON CONFLICT (op_id) DO NOTHING\<close>: whether it inserted.  A tenant that is gone violates the
  foreign key, a kind that is not known the check.\<close>

definition reserve_insert :: "request \<Rightarrow> rat \<Rightarrow> rat \<Rightarrow> mstore \<Rightarrow> meter_error + bool \<times> mstore" where
  "reserve_insert q start now m =
     (if map_of (tb_tenants m) (rq_tenant q) = None \<or> rq_kind q \<notin> {''inference'', ''job'', ''session''} then Inl Unrecorded
      else if map_of (ms_resv m) (rq_op q) \<noteq> None then Inr (False, m)
      else Inr (True, m\<lparr> ms_resv := ms_resv m @ [(rq_op q,
        \<lparr> rv_tenant = rq_tenant q, rv_kind = rq_kind q, rv_modality = rq_modality q, rv_window = start, rv_est = rq_est q,
          rv_settled = None, rv_state = Reserved, rv_created = now \<rparr>)] \<rparr>))"

definition reserve_answer :: "request \<Rightarrow> bool \<Rightarrow> mstore \<Rightarrow> meter_error + resv" where
  "reserve_answer q inserted m =
     (case map_of (ms_resv m) (rq_op q) of
        None \<Rightarrow> Inl Unrecorded
      | Some r \<Rightarrow> if inserted then Inr r else Inl (finished (rv_state r)))"

text \<open>\<open>reserve\<close>, nothing in between.\<close>

definition reserve :: "(string \<Rightarrow> rat \<Rightarrow> rat) \<Rightarrow> request \<Rightarrow> rat \<Rightarrow> mstore \<Rightarrow> (meter_error + resv) \<times> mstore" where
  "reserve trunc q now m =
     (case reserve_look q m of
        Some e \<Rightarrow> (Inl e, m)
      | None \<Rightarrow> (case reserve_check trunc q now m of
          Inl e \<Rightarrow> (Inl e, m)
        | Inr start \<Rightarrow> (case reserve_insert q start now m of
            Inl e \<Rightarrow> (Inl e, m)
          | Inr (ins, m') \<Rightarrow> (reserve_answer q ins m', m'))))"

section \<open>Settle, release, sweep\<close>

text \<open>The read of a settlement: the reservation to write for, or the answer at once.\<close>

definition settle_read :: "string \<Rightarrow> rat \<Rightarrow> mstore \<Rightarrow> meter_error + resv" where
  "settle_read op act m = (if act < 0 then Inl Unrecorded
     else case map_of (ms_resv m) op of None \<Rightarrow> Inl Unrecorded | Some r \<Rightarrow> Inr r)"

definition close_resv :: "rstate \<Rightarrow> rat \<Rightarrow> resv \<Rightarrow> resv" where
  "close_resv st x r = (if rv_state r = Reserved then r\<lparr> rv_state := st, rv_settled := Some x \<rparr> else r)"

definition settle_write :: "string \<Rightarrow> rat \<Rightarrow> resv \<Rightarrow> mstore \<Rightarrow> mstore" where
  "settle_write op act r m =
     m\<lparr> ms_ledger := (if map_of (ms_ledger m) op \<noteq> None then ms_ledger m
          else ms_ledger m @ [(op, \<lparr> us_tenant = rv_tenant r, us_kind = rv_kind r, us_modality = rv_modality r,
            us_seconds = act, us_window = rv_window r \<rparr>)]),
        ms_resv := dict_upd op (close_resv Settled act) (ms_resv m) \<rparr>"

definition settle :: "string \<Rightarrow> rat \<Rightarrow> mstore \<Rightarrow> (meter_error + resv) \<times> mstore" where
  "settle op act m =
     (case settle_read op act m of
        Inl e \<Rightarrow> (Inl e, m)
      | Inr r \<Rightarrow>
          if rv_state r \<noteq> Reserved then (Inr r, m)
          else (let m' = settle_write op act r m
                in (case map_of (ms_resv m') op of None \<Rightarrow> Inl Unrecorded | Some r' \<Rightarrow> Inr r', m')))"

definition release :: "string \<Rightarrow> mstore \<Rightarrow> mstore" where
  "release op m = m\<lparr> ms_resv := dict_upd op (close_resv Released 0) (ms_resv m) \<rparr>"

definition stale :: "string \<Rightarrow> rat \<Rightarrow> rat \<Rightarrow> resv \<Rightarrow> bool" where
  "stale kind older now r = (rv_kind r = kind \<and> rv_state r = Reserved \<and> rv_created r < now - older)"

definition sweep :: "string \<Rightarrow> rat \<Rightarrow> rat \<Rightarrow> mstore \<Rightarrow> string list \<times> mstore" where
  "sweep kind older now m =
     (map fst (filter (\<lambda>(k, r). stale kind older now r) (ms_resv m)),
      m\<lparr> ms_resv := map (\<lambda>(k, r). (k, if stale kind older now r then close_resv Released 0 r else r)) (ms_resv m) \<rparr>)"

text \<open>\<open>reconciliation\<close> over all tenants, or one.\<close>

definition ledger_total :: "string option \<Rightarrow> mstore \<Rightarrow> rat" where
  "ledger_total t m = dsum (\<lambda>u. if t = None \<or> t = Some (us_tenant u) then us_seconds u else 0) (ms_ledger m)"

definition settled_total :: "string option \<Rightarrow> mstore \<Rightarrow> rat" where
  "settled_total t m = dsum (\<lambda>r. if (t = None \<or> t = Some (rv_tenant r)) \<and> rv_state r = Settled
     then (case rv_settled r of None \<Rightarrow> 0 | Some x \<Rightarrow> x) else 0) (ms_resv m)"

definition reconciled :: "string option \<Rightarrow> mstore \<Rightarrow> bool" where
  "reconciled t m = (\<bar>ledger_total t m - settled_total t m\<bar> < 1 / 10 ^ 9)"

text \<open>\<open>ON DELETE CASCADE\<close> on the metering tables.\<close>

definition delete_metered_tenant :: "string \<Rightarrow> mstore \<Rightarrow> bool \<times> mstore" where
  "delete_metered_tenant t m =
     (case delete_tenant t m of (done, m') \<Rightarrow>
        (done, if done then m'\<lparr> ms_resv := filter (\<lambda>(k, r). rv_tenant r \<noteq> t) (ms_resv m),
                                ms_ledger := filter (\<lambda>(k, u). us_tenant u \<noteq> t) (ms_ledger m) \<rparr> else m'))"

section \<open>Transactions in between\<close>

datatype mpc = MIdle | MChecking request | MInserting request rat | MAnswering request bool

record meter =
  me_store :: mstore
  me_pc :: "nat \<Rightarrow> mpc"
  me_lock :: "string \<Rightarrow> nat option"
  me_settle :: "nat \<Rightarrow> (string \<times> rat \<times> resv) option"
  me_admitted :: "string list"

datatype meter_event =
    RvLook nat request
  | RvCheck nat rat
  | RvInsert nat rat
  | RvAnswer nat
  | StRead nat string rat
  | StWrite nat
  | Refund string
  | Sweep string rat rat

definition at_pc :: "nat \<Rightarrow> mpc \<Rightarrow> meter \<Rightarrow> meter" where
  "at_pc t p h = h\<lparr> me_pc := (me_pc h)(t := p) \<rparr>"

text \<open>The transaction of a tenant with a quota row holds that row's lock from the check to the commit.\<close>

fun meter_step :: "(string \<Rightarrow> rat \<Rightarrow> rat) \<Rightarrow> meter_event \<Rightarrow> meter \<Rightarrow> meter option" where
  "meter_step trunc (RvLook t q) h = (case me_pc h t of
      MIdle \<Rightarrow> Some (case reserve_look q (me_store h) of Some e \<Rightarrow> h | None \<Rightarrow> at_pc t (MChecking q) h)
    | _ \<Rightarrow> None)"
| "meter_step trunc (RvCheck t now) h = (case me_pc h t of
      MChecking q \<Rightarrow>
        (let row = map_of (tb_quotas (me_store h)) (rq_tenant q)
         in if row \<noteq> None \<and> me_lock h (rq_tenant q) \<noteq> None then None
            else Some (case reserve_check trunc q now (me_store h) of
                Inl e \<Rightarrow> at_pc t MIdle h
              | Inr start \<Rightarrow> at_pc t (MInserting q start)
                  (if row = None then h else h\<lparr> me_lock := (me_lock h)(rq_tenant q := Some t) \<rparr>)))
    | _ \<Rightarrow> None)"
| "meter_step trunc (RvInsert t now) h = (case me_pc h t of
      MInserting q start \<Rightarrow>
        (let h1 = (if me_lock h (rq_tenant q) = Some t then h\<lparr> me_lock := (me_lock h)(rq_tenant q := None) \<rparr> else h)
         in Some (case reserve_insert q start now (me_store h) of
                Inl e \<Rightarrow> at_pc t MIdle h1
              | Inr (ins, m) \<Rightarrow> at_pc t (MAnswering q ins) (h1\<lparr> me_store := m \<rparr>)))
    | _ \<Rightarrow> None)"
| "meter_step trunc (RvAnswer t) h = (case me_pc h t of
      MAnswering q ins \<Rightarrow> Some (at_pc t MIdle (case reserve_answer q ins (me_store h) of
          Inl e \<Rightarrow> h | Inr r \<Rightarrow> h\<lparr> me_admitted := rq_op q # me_admitted h \<rparr>))
    | _ \<Rightarrow> None)"
| "meter_step trunc (StRead s op act) h =
     (if me_settle h s \<noteq> None then None
      else Some (case settle_read op act (me_store h) of
          Inl e \<Rightarrow> h
        | Inr r \<Rightarrow> if rv_state r \<noteq> Reserved then h else h\<lparr> me_settle := (me_settle h)(s := Some (op, act, r)) \<rparr>))"
| "meter_step trunc (StWrite s) h = (case me_settle h s of
      None \<Rightarrow> None
    | Some (op, act, r) \<Rightarrow> Some (h\<lparr> me_store := settle_write op act r (me_store h), me_settle := (me_settle h)(s := None) \<rparr>))"
| "meter_step trunc (Refund op) h = Some (h\<lparr> me_store := release op (me_store h) \<rparr>)"
| "meter_step trunc (Sweep kind older now) h = Some (h\<lparr> me_store := snd (sweep kind older now (me_store h)) \<rparr>)"

definition init_meter :: "mstore \<Rightarrow> meter" where
  "init_meter m = \<lparr> me_store = m, me_pc = (\<lambda>_. MIdle), me_lock = (\<lambda>_. None), me_settle = (\<lambda>_. None), me_admitted = [] \<rparr>"

text \<open>Nothing closes a reservation between a settlement's read and its write.\<close>

definition settling :: "meter \<Rightarrow> string \<Rightarrow> bool" where
  "settling h op = (\<exists>s act r. me_settle h s = Some (op, act, r))"

fun calm :: "meter_event \<Rightarrow> meter \<Rightarrow> bool" where
  "calm (Refund op) h = (\<not> settling h op)"
| "calm (Sweep kind older now) h = (\<forall>op r. map_of (ms_resv (me_store h)) op = Some r \<longrightarrow> stale kind older now r \<longrightarrow> \<not> settling h op)"
| "calm _ h = True"

text \<open>A settlement charges no more than its reservation authorised.\<close>

fun within_estimate :: "meter_event \<Rightarrow> meter \<Rightarrow> bool" where
  "within_estimate (StRead s op act) h = (case map_of (ms_resv (me_store h)) op of None \<Rightarrow> True | Some r \<Rightarrow> act \<le> rv_est r)"
| "within_estimate _ h = True"

section \<open>The books\<close>

text \<open>Every ledger row is a settled reservation's charge, in the window that authorised it, and every settled
  reservation has its row.\<close>

definition charge_of :: "resv \<Rightarrow> usage option" where
  "charge_of r = (if rv_state r = Settled
     then Some \<lparr> us_tenant = rv_tenant r, us_kind = rv_kind r, us_modality = rv_modality r,
                 us_seconds = (case rv_settled r of None \<Rightarrow> 0 | Some x \<Rightarrow> x), us_window = rv_window r \<rparr>
     else None)"

definition books :: "mstore \<Rightarrow> bool" where
  "books m = (distinct (dkeys (ms_resv m)) \<and> distinct (dkeys (ms_ledger m)) \<and>
     (\<forall>op. map_of (ms_ledger m) op = Option.bind (map_of (ms_resv m) op) charge_of))"

lemma charge_of_open [simp]: "rv_state r \<noteq> Settled \<Longrightarrow> charge_of r = None"
  by (simp add: charge_of_def)

lemma charge_of_settled [simp]: "rv_state r = Settled \<Longrightarrow> charge_of r \<noteq> None"
  by (simp add: charge_of_def)

definition same_terms :: "resv \<Rightarrow> resv \<Rightarrow> bool" where
  "same_terms r r' = (rv_tenant r = rv_tenant r' \<and> rv_kind r = rv_kind r' \<and> rv_modality r = rv_modality r' \<and>
     rv_window r = rv_window r' \<and> rv_est r = rv_est r')"

definition books_inv :: "meter \<Rightarrow> bool" where
  "books_inv h = (books (me_store h) \<and>
     (\<forall>s op act r. me_settle h s = Some (op, act, r) \<longrightarrow>
        (\<exists>r'. map_of (ms_resv (me_store h)) op = Some r' \<and> same_terms r r' \<and> rv_state r' \<noteq> Released)))"

lemma close_resv_terms [simp]: "same_terms r (close_resv st x r') = same_terms r r'"
  by (simp add: same_terms_def close_resv_def)

lemma same_terms_refl [simp]: "same_terms r r"
  by (simp add: same_terms_def)

lemma booksD:
  assumes "books m"
  shows "distinct (dkeys (ms_resv m))" "distinct (dkeys (ms_ledger m))"
    and "map_of (ms_ledger m) op = Option.bind (map_of (ms_resv m) op) charge_of"
  using assms by (simp_all add: books_def)

lemma booksI:
  "distinct (dkeys (ms_resv m)) \<Longrightarrow> distinct (dkeys (ms_ledger m)) \<Longrightarrow>
   (\<And>op. map_of (ms_ledger m) op = Option.bind (map_of (ms_resv m) op) charge_of) \<Longrightarrow> books m"
  by (simp add: books_def)

lemma reserve_insert_cases:
  assumes "reserve_insert q start now m = Inr (ins, m')"
  obtains (kept) "\<not> ins" "m' = m" "map_of (ms_resv m) (rq_op q) \<noteq> None"
  | (new) r where "ins" "map_of (ms_resv m) (rq_op q) = None" "m' = m\<lparr> ms_resv := ms_resv m @ [(rq_op q, r)] \<rparr>"
      "rv_state r = Reserved" "rv_tenant r = rq_tenant q" "rv_window r = start" "rv_est r = rq_est q"
  using assms by (auto simp: reserve_insert_def split: if_splits)

lemma books_insert:
  assumes b: "books m" and i: "reserve_insert q start now m = Inr (ins, m')"
  shows "books m'" and "map_of (ms_resv m) op = Some r \<Longrightarrow> map_of (ms_resv m') op = Some r"
proof -
  show "books m'"
    using i
  proof (cases rule: reserve_insert_cases)
    case (new r)
    have "rq_op q \<notin> set (dkeys (ms_resv m))" using new(2) dkeys_iff_map_of[of "rq_op q" "ms_resv m"] by simp
    moreover have "map_of (ms_ledger m) (rq_op q) = None" using booksD(3)[OF b, of "rq_op q"] new(2) by simp
    ultimately show ?thesis using booksD[OF b] new
      by (intro booksI) (auto simp: map_add_def split: option.splits)
  qed (use b in simp)
  show "map_of (ms_resv m') op = Some r" if "map_of (ms_resv m) op = Some r"
    using i by (cases rule: reserve_insert_cases) (use that in \<open>auto simp: map_add_def\<close>)
qed

lemma books_map:
  assumes b: "books m" and P: "\<And>k r. map_of (ms_resv m) k = Some r \<Longrightarrow> charge_of (f k r) = charge_of r"
  shows "books (m\<lparr> ms_resv := map (\<lambda>(k, r). (k, f k r)) (ms_resv m) \<rparr>)"
proof (rule booksI)
  show "distinct (dkeys (ms_resv (m\<lparr> ms_resv := map (\<lambda>(k, r). (k, f k r)) (ms_resv m) \<rparr>)))"
    using booksD(1)[OF b] by (simp del: map_map)
  show "map_of (ms_ledger (m\<lparr> ms_resv := map (\<lambda>(k, r). (k, f k r)) (ms_resv m) \<rparr>)) op =
      Option.bind (map_of (ms_resv (m\<lparr> ms_resv := map (\<lambda>(k, r). (k, f k r)) (ms_resv m) \<rparr>)) op) charge_of" for op
    using booksD(3)[OF b, of op] P[of op] by (cases "map_of (ms_resv m) op") (simp_all add: map_of_map_vals)
qed (use booksD[OF b] in simp)

lemma charge_close_released: "charge_of (close_resv Released x r) = charge_of r"
  by (simp add: charge_of_def close_resv_def)

lemma books_release: "books m \<Longrightarrow> books (release op m)"
  unfolding release_def dict_upd_def by (rule books_map) (simp_all add: charge_close_released)

lemma books_sweep: "books m \<Longrightarrow> books (snd (sweep kind older now m))"
  unfolding sweep_def snd_conv by (rule books_map) (simp_all add: charge_close_released)

lemma settle_write_resv: "map_of (ms_resv (settle_write op act r m)) k =
    (if k = op then map_option (close_resv Settled act) (map_of (ms_resv m) k) else map_of (ms_resv m) k)"
  by (simp add: settle_write_def map_of_dict_upd)

lemma settle_write_done:
  assumes "map_of (ms_resv m) op = Some r'" "rv_state r' \<noteq> Reserved" "map_of (ms_ledger m) op \<noteq> None"
    "distinct (dkeys (ms_resv m))"
  shows "settle_write op act r m = m"
proof -
  have "dict_upd op (close_resv Settled act) (ms_resv m) = ms_resv m"
    using assms(1,2) by (intro dict_upd_id) (simp_all add: close_resv_def assms(4))
  then show ?thesis using assms by (simp add: settle_write_def)
qed

lemma books_settle:
  assumes b: "books m" and r: "map_of (ms_resv m) op = Some r'" "same_terms r r'" "rv_state r' \<noteq> Released"
  shows "books (settle_write op act r m)"
proof (cases "rv_state r' = Reserved")
  case True
  have led: "map_of (ms_ledger m) op = None" using booksD(3)[OF b, of op] r(1) True by simp
  then have "op \<notin> set (dkeys (ms_ledger m))" using dkeys_iff_map_of[of op "ms_ledger m"] by simp
  then show ?thesis using booksD[OF b] led r True
    by (intro booksI) (auto simp: settle_write_def map_of_dict_upd map_add_def same_terms_def close_resv_def charge_of_def
        split: option.splits)
next
  case False
  then have "map_of (ms_ledger m) op \<noteq> None" using booksD(3)[OF b, of op] r by (cases "rv_state r'") simp_all
  then show ?thesis using settle_write_done[OF r(1) False _ booksD(1)[OF b]] b by simp
qed

lemma release_resv: "map_of (ms_resv (release op m)) k =
    (if k = op then map_option (close_resv Released 0) (map_of (ms_resv m) k) else map_of (ms_resv m) k)"
  by (simp add: release_def map_of_dict_upd)

lemma sweep_resv: "map_of (ms_resv (snd (sweep kind older now m))) k =
    map_option (\<lambda>r. if stale kind older now r then close_resv Released 0 r else r) (map_of (ms_resv m) k)"
  by (simp add: sweep_def map_of_map_vals)

lemma close_resv_open: "rv_state r \<noteq> Released \<Longrightarrow> rv_state (close_resv Settled x r) \<noteq> Released"
  by (cases "rv_state r") (simp_all add: close_resv_def)

lemma books_invI:
  "books (me_store h) \<Longrightarrow>
   (\<And>s op act r. me_settle h s = Some (op, act, r) \<Longrightarrow>
      \<exists>r'. map_of (ms_resv (me_store h)) op = Some r' \<and> same_terms r r' \<and> rv_state r' \<noteq> Released) \<Longrightarrow> books_inv h"
  by (simp add: books_inv_def)

lemma books_invD:
  assumes "books_inv h"
  shows "books (me_store h)"
    and "me_settle h s = Some (op, act, r) \<Longrightarrow>
      \<exists>r'. map_of (ms_resv (me_store h)) op = Some r' \<and> same_terms r r' \<and> rv_state r' \<noteq> Released"
  using assms by (auto simp: books_inv_def)

text \<open>What a step may do to the reservations and to the open settlements.\<close>

lemma meter_step_quiet:
  assumes "meter_step trunc e h = Some h'" "case e of RvInsert _ _ \<Rightarrow> False | StRead _ _ _ \<Rightarrow> False | StWrite _ \<Rightarrow> False
     | Refund _ \<Rightarrow> False | Sweep _ _ _ \<Rightarrow> False | _ \<Rightarrow> True"
  shows "me_store h' = me_store h" "me_settle h' = me_settle h"
  using assms by (auto simp: at_pc_def Let_def split: meter_event.splits mpc.splits option.splits sum.splits if_splits)

lemma books_inv_step:
  assumes inv: "books_inv h" and ok: "calm e h" and st: "meter_step trunc e h = Some h'"
  shows "books_inv h'"
proof -
  have b: "books (me_store h)" by (rule books_invD(1)[OF inv])
  show ?thesis
  proof (cases e)
    case (RvInsert t now)
    then obtain q start where pc: "me_pc h t = MInserting q start" using st by (auto split: mpc.splits)
    show ?thesis
    proof (cases "reserve_insert q start now (me_store h)")
      case (Inl err)
      then have "me_store h' = me_store h" "me_settle h' = me_settle h"
        using st RvInsert pc by (auto simp: at_pc_def Let_def)
      then show ?thesis using inv by (simp add: books_inv_def)
    next
      case (Inr im)
      obtain ins m where im: "im = (ins, m)" by force
      note bi = books_insert[OF b Inr[unfolded im]]
      have h': "me_store h' = m" "me_settle h' = me_settle h"
        using st RvInsert pc Inr im by (auto simp: at_pc_def Let_def)
      show ?thesis
        by (rule books_invI) (use h' bi books_invD(2)[OF inv] in \<open>fastforce+\<close>)
    qed
  next
    case (StRead s op act)
    show ?thesis
    proof (rule books_invI)
      show "books (me_store h')" using st StRead b by (auto split: if_splits sum.splits)
      show "\<exists>r'. map_of (ms_resv (me_store h')) k = Some r' \<and> same_terms r r' \<and> rv_state r' \<noteq> Released"
        if m: "me_settle h' s' = Some (k, x, r)" for s' k x r
      proof (cases "me_settle h' s' = me_settle h s'")
        case True
        have "me_store h' = me_store h" using st StRead by (auto split: if_splits sum.splits)
        then show ?thesis using books_invD(2)[OF inv trans[OF True[symmetric] m]] by simp
      next
        case False
        then have "settle_read op act (me_store h) = Inr r" "k = op" "rv_state r = Reserved" "me_store h' = me_store h"
          using st StRead m by (auto split: if_splits sum.splits)
        then show ?thesis by (auto simp: settle_read_def split: if_splits option.splits)
      qed
    qed
  next
    case (StWrite s)
    then obtain op act r where s: "me_settle h s = Some (op, act, r)"
      and h': "h' = h\<lparr> me_store := settle_write op act r (me_store h), me_settle := (me_settle h)(s := None) \<rparr>"
      using st by (auto split: option.splits)
    obtain r' where r': "map_of (ms_resv (me_store h)) op = Some r'" "same_terms r r'" "rv_state r' \<noteq> Released"
      using books_invD(2)[OF inv s] by blast
    show ?thesis
    proof (rule books_invI)
      show "books (me_store h')" using books_settle[OF b r'] h' by simp
      show "\<exists>r'. map_of (ms_resv (me_store h')) k = Some r' \<and> same_terms q r' \<and> rv_state r' \<noteq> Released"
        if "me_settle h' s' = Some (k, x, q)" for s' k x q
        using that books_invD(2)[OF inv, of s' k x q] h' by (auto simp: settle_write_resv close_resv_open split: if_splits)
    qed
  next
    case (Refund op)
    then have h': "h' = h\<lparr> me_store := release op (me_store h) \<rparr>" using st by simp
    show ?thesis
    proof (rule books_invI)
      show "books (me_store h')" using books_release[OF b] h' by simp
      show "\<exists>r'. map_of (ms_resv (me_store h')) k = Some r' \<and> same_terms q r' \<and> rv_state r' \<noteq> Released"
        if "me_settle h' s' = Some (k, x, q)" for s' k x q
      proof -
        have "k \<noteq> op" using that ok Refund h' by (auto simp: settling_def)
        then show ?thesis using that books_invD(2)[OF inv, of s' k x q] h' by (simp add: release_resv)
      qed
    qed
  next
    case (Sweep kind older now)
    then have h': "h' = h\<lparr> me_store := snd (sweep kind older now (me_store h)) \<rparr>" using st by simp
    show ?thesis
    proof (rule books_invI)
      show "books (me_store h')" using books_sweep[OF b] h' by simp
      show "\<exists>r'. map_of (ms_resv (me_store h')) k = Some r' \<and> same_terms q r' \<and> rv_state r' \<noteq> Released"
        if s': "me_settle h' s' = Some (k, x, q)" for s' k x q
      proof -
        obtain r' where r': "map_of (ms_resv (me_store h)) k = Some r'" "same_terms q r'" "rv_state r' \<noteq> Released"
          using s' books_invD(2)[OF inv, of s' k x q] h' by auto
        have "settling h k" using s' h' by (auto simp: settling_def)
        then have "\<not> stale kind older now r'" using ok Sweep r'(1) by auto
        then show ?thesis using r' h' by (simp add: sweep_resv)
      qed
    qed
  qed (use meter_step_quiet[OF st] inv in \<open>simp_all add: books_inv_def\<close>)
qed

interpretation metering_books: machine "meter_step trunc" calm books_inv for trunc
  by unfold_locales (rule books_inv_step)

lemma books_inv_init: "books m \<Longrightarrow> books_inv (init_meter m)"
  by (simp add: books_inv_def init_meter_def)

section \<open>Reconciliation\<close>

lemma dsum_as_sum: "distinct (dkeys d) \<Longrightarrow> dsum f d = (\<Sum>k \<in> set (dkeys d). f (the (map_of d k)))"
proof (induction d)
  case (Cons r d)
  obtain k v where r: "r = (k, v)" by force
  have "(\<Sum>j \<in> set (dkeys d). f (the (map_of (r # d) j))) = (\<Sum>j \<in> set (dkeys d). f (the (map_of d j)))"
    using Cons.prems r by (intro sum.cong) auto
  then show ?case using Cons r by simp
qed simp

text \<open>Sums over two dictionaries agree when each key contributes the same to both.\<close>

lemma dsum_eq:
  fixes d :: "('k, 'v) dict" and e :: "('k, 'w) dict"
  assumes "distinct (dkeys d)" "distinct (dkeys e)"
    and "\<And>k. (case map_of d k of None \<Rightarrow> 0 | Some v \<Rightarrow> f v) = (case map_of e k of None \<Rightarrow> 0 | Some v \<Rightarrow> g v)"
  shows "dsum f d = dsum g e"
proof -
  let ?F = "\<lambda>k. case map_of d k of None \<Rightarrow> 0 | Some v \<Rightarrow> f v" and ?G = "\<lambda>k. case map_of e k of None \<Rightarrow> 0 | Some v \<Rightarrow> g v"
  let ?K = "set (dkeys d) \<union> set (dkeys e)"
  have D: "(\<Sum>k \<in> set (dkeys d). f (the (map_of d k))) = sum ?F (set (dkeys d))"
    by (intro sum.cong refl) (metis dkeys_iff_map_of option.case(2) option.collapse)
  have E: "(\<Sum>k \<in> set (dkeys e). g (the (map_of e k))) = sum ?G (set (dkeys e))"
    by (intro sum.cong refl) (metis dkeys_iff_map_of option.case(2) option.collapse)
  have "sum ?F (set (dkeys d)) = sum ?F ?K"
  proof (rule sum.mono_neutral_left)
    show "\<forall>k \<in> ?K - set (dkeys d). ?F k = 0" using dkeys_iff_map_of[of _ d] by (auto simp del: set_map split: option.splits)
  qed auto
  moreover have "sum ?G (set (dkeys e)) = sum ?G ?K"
  proof (rule sum.mono_neutral_left)
    show "\<forall>k \<in> ?K - set (dkeys e). ?G k = 0" using dkeys_iff_map_of[of _ e] by (auto simp del: set_map split: option.splits)
  qed auto
  ultimately show ?thesis unfolding dsum_as_sum[OF assms(1)] dsum_as_sum[OF assms(2)] D E by (simp add: assms(3))
qed

lemma books_reconcile: "books m \<Longrightarrow> ledger_total t m = settled_total t m"
  unfolding ledger_total_def settled_total_def
  by (rule dsum_eq) (auto simp: books_def charge_of_def split: option.splits)

section \<open>One execution per operation id\<close>

definition admit_inv :: "meter \<Rightarrow> bool" where
  "admit_inv h = (distinct (me_admitted h) \<and>
     (\<forall>op \<in> set (me_admitted h). map_of (ms_resv (me_store h)) op \<noteq> None) \<and>
     (\<forall>t q. me_pc h t = MAnswering q True \<longrightarrow> map_of (ms_resv (me_store h)) (rq_op q) \<noteq> None \<and> rq_op q \<notin> set (me_admitted h)) \<and>
     (\<forall>t u q q'. me_pc h t = MAnswering q True \<longrightarrow> me_pc h u = MAnswering q' True \<longrightarrow> rq_op q = rq_op q' \<longrightarrow> t = u))"

lemma admit_invD:
  assumes "admit_inv h"
  shows "distinct (me_admitted h)" "op \<in> set (me_admitted h) \<Longrightarrow> map_of (ms_resv (me_store h)) op \<noteq> None"
    "me_pc h t = MAnswering q True \<Longrightarrow> map_of (ms_resv (me_store h)) (rq_op q) \<noteq> None"
    "me_pc h t = MAnswering q True \<Longrightarrow> rq_op q \<notin> set (me_admitted h)"
    "me_pc h t = MAnswering q True \<Longrightarrow> me_pc h u = MAnswering q' True \<Longrightarrow> rq_op q = rq_op q' \<Longrightarrow> t = u"
  using assms unfolding admit_inv_def by blast+

text \<open>Steps that insert nothing and answer nothing.\<close>

lemma admit_inv_same:
  assumes inv: "admit_inv h" and adm: "me_admitted h' = me_admitted h"
    and pc: "\<And>t q. me_pc h' t = MAnswering q True \<Longrightarrow> me_pc h t = MAnswering q True"
    and keys: "\<And>op. map_of (ms_resv (me_store h)) op \<noteq> None \<Longrightarrow> map_of (ms_resv (me_store h')) op \<noteq> None"
  shows "admit_inv h'"
  unfolding admit_inv_def adm using admit_invD[OF inv] pc keys by metis

lemma admit_inv_step:
  assumes inv: "admit_inv h" and st: "meter_step trunc e h = Some h'"
  shows "admit_inv h'"
proof (cases e)
  case (RvInsert t now)
  then obtain q start where pc: "me_pc h t = MInserting q start" using st by (auto split: mpc.splits)
  show ?thesis
  proof (cases "reserve_insert q start now (me_store h)")
    case (Inl err)
    then show ?thesis using st RvInsert pc
      by (intro admit_inv_same[OF inv]) (auto simp: at_pc_def Let_def split: if_splits)
  next
    case (Inr im)
    obtain ins m where im: "im = (ins, m)" by force
    have h': "me_store h' = m" "me_admitted h' = me_admitted h" "me_pc h' = (me_pc h)(t := MAnswering q ins)"
      using st RvInsert pc Inr im by (auto simp: at_pc_def Let_def)
    show ?thesis using Inr[unfolded im]
    proof (cases rule: reserve_insert_cases)
      case kept
      then show ?thesis using h' by (intro admit_inv_same[OF inv]) (auto split: if_splits)
    next
      case (new r)
      have old: "map_of (ms_resv m) op \<noteq> None" if "map_of (ms_resv (me_store h)) op \<noteq> None" for op
        using that new(3) by (auto simp: map_add_def)
      have here: "map_of (ms_resv m) (rq_op q) \<noteq> None" using new(3) by simp
      have fresh: "rq_op q \<notin> set (me_admitted h)" using admit_invD(2)[OF inv, of "rq_op q"] new(2) by auto
      have other: "rq_op q' \<noteq> rq_op q" if "me_pc h u = MAnswering q' True" for u q'
        using admit_invD(3)[OF inv that] new(2) by auto
      show ?thesis unfolding admit_inv_def h'
        using admit_invD[OF inv] old here fresh other new(1) by (auto split: if_splits) metis+
    qed
  qed
next
  case (RvAnswer t)
  then obtain q ins where pc: "me_pc h t = MAnswering q ins" using st by (auto split: mpc.splits)
  have keep: "admit_inv (at_pc t MIdle h)" by (rule admit_inv_same[OF inv]) (auto simp: at_pc_def split: if_splits)
  show ?thesis
  proof (cases "reserve_answer q ins (me_store h)")
    case (Inl err)
    then show ?thesis using st RvAnswer pc keep by (auto simp: at_pc_def)
  next
    case (Inr r)
    then have True: "ins" "map_of (ms_resv (me_store h)) (rq_op q) \<noteq> None"
      by (auto simp: reserve_answer_def split: option.splits if_splits)
    have h': "me_store h' = me_store h" "me_admitted h' = rq_op q # me_admitted h" "me_pc h' = (me_pc h)(t := MIdle)"
      using st RvAnswer pc Inr by (auto simp: at_pc_def)
    have other: "rq_op q' \<noteq> rq_op q" if "me_pc h u = MAnswering q' True" "u \<noteq> t" for u q'
      using admit_invD(5)[OF inv that(1), of t q] pc True(1) that(2) by auto
    show ?thesis unfolding admit_inv_def h'
      using admit_invD[OF inv] True pc other by (auto split: if_splits)
  qed
qed (use st in \<open>auto intro!: admit_inv_same[OF inv] simp: at_pc_def Let_def settle_write_resv release_resv sweep_resv
    split: mpc.splits option.splits sum.splits if_splits\<close>)

interpretation metering_admission: machine "meter_step trunc" "\<lambda>e h. True" admit_inv for trunc
  by unfold_locales (rule admit_inv_step)

section \<open>The budget\<close>

definition open_est :: "string \<Rightarrow> rat \<Rightarrow> resv \<Rightarrow> rat" where
  "open_est t w r = (if rv_tenant r = t \<and> rv_window r = w \<and> rv_state r = Reserved then rv_est r else 0)"

definition charge :: "string \<Rightarrow> rat \<Rightarrow> usage \<Rightarrow> rat" where
  "charge t w u = (if us_tenant u = t \<and> us_window u = w then us_seconds u else 0)"

lemma consumed_alt: "consumed t w m = dsum (charge t w) (ms_ledger m) + dsum (open_est t w) (ms_resv m)"
  by (simp add: consumed_def ledger_sum_def open_sum_def open_est_def[abs_def] charge_def[abs_def])

lemma consumed_insert:
  assumes "reserve_insert q start now m = Inr (ins, m')"
  shows "consumed t w m' = consumed t w m + (if ins \<and> rq_tenant q = t \<and> start = w then rq_est q else 0)"
  using assms by (cases rule: reserve_insert_cases) (auto simp: consumed_alt open_est_def)

lemma consumed_settle:
  assumes b: "books m" and r: "map_of (ms_resv m) op = Some r'" "same_terms r r'" "rv_state r' \<noteq> Released" and le: "act \<le> rv_est r"
  shows "consumed t w (settle_write op act r m) \<le> consumed t w m"
proof (cases "rv_state r' = Reserved")
  case True
  have led: "map_of (ms_ledger m) op = None" using booksD(3)[OF b, of op] r(1) True by simp
  have d: "distinct (dkeys (ms_resv m))" by (rule booksD(1)[OF b])
  show ?thesis using led r True le
    by (simp add: settle_write_def consumed_alt dsum_dict_upd[OF d]) (auto simp: open_est_def charge_def close_resv_def same_terms_def)
next
  case False
  then have "map_of (ms_ledger m) op \<noteq> None" using booksD(3)[OF b, of op] r by (cases "rv_state r'") simp_all
  then show ?thesis using settle_write_done[OF r(1) False _ booksD(1)[OF b]] by simp
qed

definition estimates_ok :: "mstore \<Rightarrow> bool" where
  "estimates_ok m = list_all (\<lambda>(k, r). 0 \<le> rv_est r) (ms_resv m)"

lemma open_est_close: "0 \<le> rv_est r \<Longrightarrow> open_est t w (close_resv st x r) \<le> open_est t w r \<or> st = Reserved"
  by (simp add: open_est_def close_resv_def)

lemma consumed_refund:
  assumes "estimates_ok m" "\<And>k r. f k r = r \<or> f k r = close_resv Released 0 r"
  shows "consumed t w (m\<lparr> ms_resv := map (\<lambda>(k, r). (k, f k r)) (ms_resv m) \<rparr>) \<le> consumed t w m"
proof -
  have "dsum (open_est t w) (map (\<lambda>(k, r). (k, f k r)) d) \<le> dsum (open_est t w) d" if "list_all (\<lambda>(k, r). 0 \<le> rv_est r) d" for d
    using that
  proof (induction d)
    case (Cons kr d)
    obtain k r where kr: "kr = (k, r)" by force
    have "open_est t w (f k r) \<le> open_est t w r"
      using assms(2)[of k r] open_est_close[of r t w Released 0] Cons.prems kr by auto
    then show ?case using Cons kr by (simp add: add_mono)
  qed simp
  then show ?thesis using assms(1) by (simp add: consumed_alt estimates_ok_def)
qed

lemma consumed_release: "estimates_ok m \<Longrightarrow> consumed t w (release op m) \<le> consumed t w m"
  unfolding release_def dict_upd_def by (rule consumed_refund) auto

lemma consumed_sweep: "estimates_ok m \<Longrightarrow> consumed t w (snd (sweep kind older now m)) \<le> consumed t w m"
  unfolding sweep_def snd_conv by (rule consumed_refund) auto

lemma estimates_map: "(\<And>k r. rv_est (f k r) = rv_est r) \<Longrightarrow> estimates_ok m \<Longrightarrow>
    estimates_ok (m\<lparr> ms_resv := map (\<lambda>(k, r). (k, f k r)) (ms_resv m) \<rparr>)"
  unfolding estimates_ok_def mstore.simps by (induction "ms_resv m" rule: list.induct) (auto simp: list_all_iff)

lemma close_resv_est [simp]: "rv_est (close_resv st x r) = rv_est r"
  by (simp add: close_resv_def)

lemma estimates_steps:
  assumes "estimates_ok m"
  shows "estimates_ok (release op m)" "estimates_ok (snd (sweep kind older now m))" "estimates_ok (settle_write op act r m)"
    "reserve_insert q start now m = Inr (ins, m') \<Longrightarrow> 0 \<le> rq_est q \<Longrightarrow> estimates_ok m'"
proof -
  show "estimates_ok (release op m)"
    using estimates_map[OF _ assms, of "\<lambda>k r. if k = op then close_resv Released 0 r else r"]
    by (simp add: release_def dict_upd_def)
  show "estimates_ok (snd (sweep kind older now m))"
    using estimates_map[OF _ assms, of "\<lambda>k r. if stale kind older now r then close_resv Released 0 r else r"]
    by (simp add: sweep_def)
  show "estimates_ok (settle_write op act r m)"
    using estimates_map[OF _ assms, of "\<lambda>k r. if k = op then close_resv Settled act r else r"]
    by (simp add: settle_write_def dict_upd_def estimates_ok_def)
  show "reserve_insert q start now m = Inr (ins, m') \<Longrightarrow> 0 \<le> rq_est q \<Longrightarrow> estimates_ok m'"
    by (erule reserve_insert_cases) (use assms in \<open>auto simp: estimates_ok_def\<close>)
qed

definition budget :: "mstore \<Rightarrow> string \<Rightarrow> rat option" where
  "budget m t = map_option (\<lambda>q. of_int (qu_budget q)) (map_of (tb_quotas m) t)"

definition within_budget :: "mstore \<Rightarrow> bool" where
  "within_budget m = (\<forall>t b w. budget m t = Some b \<longrightarrow> consumed t w m \<le> b)"

definition budget_inv :: "meter \<Rightarrow> bool" where
  "budget_inv h = (books_inv h \<and> estimates_ok (me_store h) \<and> within_budget (me_store h) \<and>
     (\<forall>s op act r. me_settle h s = Some (op, act, r) \<longrightarrow> act \<le> rv_est r) \<and>
     (\<forall>t q. me_pc h t = MChecking q \<longrightarrow> 0 \<le> rq_est q) \<and>
     (\<forall>t q start b. me_pc h t = MInserting q start \<longrightarrow> 0 \<le> rq_est q \<and>
        (budget (me_store h) (rq_tenant q) = Some b \<longrightarrow>
           me_lock h (rq_tenant q) = Some t \<and> consumed (rq_tenant q) start (me_store h) + rq_est q \<le> b)))"

lemma budget_invD:
  assumes "budget_inv h"
  shows "books_inv h" "estimates_ok (me_store h)" "within_budget (me_store h)"
    "me_settle h s = Some (op, act, r) \<Longrightarrow> act \<le> rv_est r" "me_pc h t = MChecking q \<Longrightarrow> 0 \<le> rq_est q"
    "me_pc h t = MInserting q start \<Longrightarrow> 0 \<le> rq_est q"
    "me_pc h t = MInserting q start \<Longrightarrow> budget (me_store h) (rq_tenant q) = Some b \<Longrightarrow> me_lock h (rq_tenant q) = Some t"
    "me_pc h t = MInserting q start \<Longrightarrow> budget (me_store h) (rq_tenant q) = Some b \<Longrightarrow>
      consumed (rq_tenant q) start (me_store h) + rq_est q \<le> b"
  using assms unfolding budget_inv_def by blast+

text \<open>A step that consumes no more and starts no insertion.\<close>

lemma budget_inv_less:
  assumes inv: "budget_inv h" and bk: "books_inv h'" and es: "estimates_ok (me_store h')"
    and qu: "tb_quotas (me_store h') = tb_quotas (me_store h)"
    and le: "\<And>t w. consumed t w (me_store h') \<le> consumed t w (me_store h)"
    and set: "\<And>s op act r. me_settle h' s = Some (op, act, r) \<Longrightarrow> act \<le> rv_est r"
    and chk: "\<And>t q. me_pc h' t = MChecking q \<Longrightarrow> 0 \<le> rq_est q"
    and ins: "\<And>t q start. me_pc h' t = MInserting q start \<Longrightarrow> me_pc h t = MInserting q start \<and>
        me_lock h' (rq_tenant q) = me_lock h (rq_tenant q)"
  shows "budget_inv h'"
proof -
  have bud: "budget (me_store h') t = budget (me_store h) t" for t by (simp add: budget_def qu)
  have wb: "within_budget (me_store h')"
    using budget_invD(3)[OF inv] le unfolding within_budget_def bud by (meson order_trans)
  have "me_lock h' (rq_tenant q) = Some t \<and> consumed (rq_tenant q) start (me_store h') + rq_est q \<le> b"
    if p: "me_pc h' t = MInserting q start" and b: "budget (me_store h') (rq_tenant q) = Some b" for t q start b
  proof -
    have b': "budget (me_store h) (rq_tenant q) = Some b" using b by (simp add: bud)
    show ?thesis using budget_invD(7,8)[OF inv, of t q start b] ins[OF p] b' le[of "rq_tenant q" start] by auto
  qed
  moreover have "0 \<le> rq_est q" if "me_pc h' t = MInserting q start" for t q start
    using ins[OF that] budget_invD(6)[OF inv] by blast
  ultimately show ?thesis unfolding budget_inv_def using bk es wb set chk by blast
qed

lemma reserve_check_ok:
  assumes "reserve_check trunc q now m = Inr start" "budget m (rq_tenant q) = Some b"
  shows "consumed (rq_tenant q) start m + rq_est q \<le> b"
  using assms by (auto simp: reserve_check_def budget_of_def budget_def Let_def split: option.splits if_splits)

lemma budget_inv_step:
  assumes inv: "budget_inv h" and ok: "calm e h" "within_estimate e h" and st: "meter_step trunc e h = Some h'"
  shows "budget_inv h'"
proof -
  have bk: "books_inv h'" by (rule books_inv_step[OF budget_invD(1)[OF inv] ok(1) st])
  have es: "estimates_ok (me_store h)" by (rule budget_invD(2)[OF inv])
  note less = budget_inv_less[OF inv bk]
  show ?thesis
  proof (cases e)
    case (RvLook t q)
    then show ?thesis using st es budget_invD(4,5,6)[OF inv]
      by (intro less) (auto simp: at_pc_def reserve_look_def split: mpc.splits option.splits if_splits)
  next
    case (RvCheck t now)
    then obtain q where pc: "me_pc h t = MChecking q" using st by (auto split: mpc.splits)
    have est: "0 \<le> rq_est q" by (rule budget_invD(5)[OF inv pc])
    show ?thesis
    proof (cases "reserve_check trunc q now (me_store h)")
      case (Inl err)
      then show ?thesis using st RvCheck pc es budget_invD(4,5,6)[OF inv]
        by (intro less) (auto simp: at_pc_def Let_def split: if_splits)
    next
      case (Inr start)
      let ?row = "map_of (tb_quotas (me_store h)) (rq_tenant q)"
      have free: "?row = None \<or> me_lock h (rq_tenant q) = None" using st RvCheck pc by (auto simp: Let_def split: if_splits)
      have h': "me_store h' = me_store h" "me_settle h' = me_settle h" "me_pc h' = (me_pc h)(t := MInserting q start)"
        "me_lock h' = (if ?row = None then me_lock h else (me_lock h)(rq_tenant q := Some t))"
        using st RvCheck pc Inr free by (auto simp: at_pc_def Let_def split: if_splits)
      have other: "me_lock h' (rq_tenant q') = Some u"
        if u: "u \<noteq> t" "me_pc h u = MInserting q' s'" "budget (me_store h) (rq_tenant q') = Some b" for u q' s' b
      proof -
        have l: "me_lock h (rq_tenant q') = Some u" by (rule budget_invD(7)[OF inv u(2,3)])
        have "?row = None \<or> rq_tenant q' \<noteq> rq_tenant q" using free l by auto
        then show ?thesis using l h'(4) by auto
      qed
      have mine: "me_lock h' (rq_tenant q) = Some t" if "budget (me_store h) (rq_tenant q) = Some b" for b
        using that h'(4) by (auto simp: budget_def)
      note chk = reserve_check_ok[OF Inr]
      show ?thesis unfolding budget_inv_def h'(1,2,3)
        using bk es budget_invD(3,4,5,6,8)[OF inv] est other mine chk by (auto split: if_splits)
    qed
  next
    case (RvInsert t now)
    then obtain q start where pc: "me_pc h t = MInserting q start" using st by (auto split: mpc.splits)
    have est: "0 \<le> rq_est q" by (rule budget_invD(6)[OF inv pc])
    let ?lk = "if me_lock h (rq_tenant q) = Some t then (me_lock h)(rq_tenant q := None) else me_lock h"
    obtain m p where h': "me_store h' = m" "me_settle h' = me_settle h" "me_pc h' = (me_pc h)(t := p)" "me_lock h' = ?lk"
      and m: "m = me_store h \<and> p = MIdle \<or> (\<exists>ins. reserve_insert q start now (me_store h) = Inr (ins, m) \<and> p = MAnswering q ins)"
      using st RvInsert pc by (cases "reserve_insert q start now (me_store h)") (auto simp: at_pc_def Let_def)
    have qu: "tb_quotas m = tb_quotas (me_store h)"
      using m by (auto simp: reserve_insert_def split: if_splits)
    have bud: "budget m k = budget (me_store h) k" for k by (simp add: budget_def qu)
    have es': "estimates_ok m" using m es estimates_steps(4)[OF es _ est] by blast
    have cons: "consumed k w m \<le> consumed k w (me_store h) + (if rq_tenant q = k \<and> start = w then rq_est q else 0)" for k w
      using m consumed_insert[of q start now "me_store h" _ m k w] est by auto
    have wb: "within_budget m"
      unfolding within_budget_def bud
    proof (intro allI impI)
      fix k b w assume b: "budget (me_store h) k = Some b"
      show "consumed k w m \<le> b"
      proof (cases "rq_tenant q = k \<and> start = w")
        case True
        then show ?thesis using cons[of k w] budget_invD(8)[OF inv pc, of b] b by auto
      next
        case False
        then show ?thesis using cons[of k w] budget_invD(3)[OF inv] b by (auto simp: within_budget_def intro: order_trans)
      qed
    qed
    have "me_lock h' (rq_tenant q') = Some u \<and> consumed (rq_tenant q') s' m + rq_est q' \<le> b"
      if u: "me_pc h' u = MInserting q' s'" "budget m (rq_tenant q') = Some b" for u q' s' b
    proof -
      have u': "u \<noteq> t" "me_pc h u = MInserting q' s'" "budget (me_store h) (rq_tenant q') = Some b"
        using u h'(3) m bud by (auto split: if_splits)
      note l = budget_invD(7)[OF inv u'(2,3)]
      have ne: "rq_tenant q' \<noteq> rq_tenant q"
        using l u'(1,3) budget_invD(7)[OF inv pc, of b] by auto
      then show ?thesis using l h'(4) cons[of "rq_tenant q'" s'] budget_invD(8)[OF inv u'(2,3)] by auto
    qed
    moreover have "0 \<le> rq_est q'" if "me_pc h' u = MInserting q' s'" for u q' s'
      using that h'(3) m budget_invD(6)[OF inv] by (auto split: if_splits)
    moreover have "0 \<le> rq_est q'" if "me_pc h' u = MChecking q'" for u q'
      using that h'(3) m budget_invD(5)[OF inv] by (auto split: if_splits)
    ultimately show ?thesis unfolding budget_inv_def using bk es' wb budget_invD(4)[OF inv] h'(1,2) by auto
  next
    case (RvAnswer t)
    then show ?thesis using st es budget_invD(4,5,6)[OF inv]
      by (intro less) (auto simp: at_pc_def split: mpc.splits sum.splits if_splits)
  next
    case (StRead s op act)
    have act: "act \<le> rv_est r" if "settle_read op act (me_store h) = Inr r" for r
      using that ok(2) StRead by (auto simp: settle_read_def split: if_splits option.splits)
    then show ?thesis using st StRead es budget_invD(4,5,6)[OF inv]
      by (intro less) (auto split: sum.splits if_splits)
  next
    case (StWrite s)
    then obtain op act r where s: "me_settle h s = Some (op, act, r)"
      and h': "h' = h\<lparr> me_store := settle_write op act r (me_store h), me_settle := (me_settle h)(s := None) \<rparr>"
      using st by (auto split: option.splits)
    obtain r' where r': "map_of (ms_resv (me_store h)) op = Some r'" "same_terms r r'" "rv_state r' \<noteq> Released"
      using books_invD(2)[OF budget_invD(1)[OF inv] s] by blast
    have le: "consumed t w (me_store h') \<le> consumed t w (me_store h)" for t w
      using consumed_settle[OF books_invD(1)[OF budget_invD(1)[OF inv]] r' budget_invD(4)[OF inv s]] h' by simp
    show ?thesis
      by (rule less[OF _ _ le]) (use h' estimates_steps(3)[OF es] budget_invD(4,5)[OF inv] in
        \<open>auto simp: settle_write_def split: if_splits\<close>)
  next
    case (Refund op)
    have le: "consumed t w (release op (me_store h)) \<le> consumed t w (me_store h)" for t w by (rule consumed_release[OF es])
    show ?thesis using st Refund estimates_steps(1)[OF es] budget_invD(4,5)[OF inv] le
      by (intro less) (auto simp: release_def)
  next
    case (Sweep kind older now)
    have le: "consumed t w (snd (sweep kind older now (me_store h))) \<le> consumed t w (me_store h)" for t w
      by (rule consumed_sweep[OF es])
    show ?thesis using st Sweep estimates_steps(2)[OF es] budget_invD(4,5)[OF inv] le
      by (intro less) (auto simp: sweep_def)
  qed
qed

interpretation metering_budget: machine "meter_step trunc" "\<lambda>e h. calm e h \<and> within_estimate e h" budget_inv for trunc
  by unfold_locales (use budget_inv_step in blast)

section \<open>Properties\<close>

text \<open>Claim C9.  A tenant's budget is never overshot: from an empty ledger, in every interleaving of
  reservations, settlements, releases and sweeps in which no settlement charges more than its estimate and
  no reservation is closed between a settlement's read and its write, the settled and the outstanding
  GPU-seconds of a tenant with a quota stay within its budget, window by window.\<close>

theorem budget_is_never_overshot:
  assumes "tenancy_ok m" "ms_resv m = []" "ms_ledger m = []"
    and "run_events (meter_step trunc) es (init_meter m) = Some h"
    and "guarded (\<lambda>e h. calm e h \<and> within_estimate e h) (meter_step trunc) es (init_meter m)"
    and "map_of (tb_quotas (me_store h)) t = Some q"
  shows "consumed t w (me_store h) \<le> of_int (qu_budget q)"
proof -
  have "0 \<le> qu_budget q" if "map_of (tb_quotas m) t = Some q" for t q
    using assms(1) map_of_SomeD[OF that] by (auto simp: tenancy_ok_def list_all_iff)
  then have "budget_inv (init_meter m)"
    using assms(2,3) by (auto simp: budget_inv_def books_inv_def books_def init_meter_def estimates_ok_def
        within_budget_def consumed_alt budget_def)
  then have "budget_inv h" using metering_budget.guarded_inv[OF assms(4,5)] by blast
  then show ?thesis using budget_invD(3) assms(6) by (fastforce simp: within_budget_def budget_def)
qed

definition demo_meter :: mstore where
  "demo_meter = \<lparr> tb_tenants = [(''t1'', \<lparr> tn_name = ''lab'', tn_status = TActive, tn_system = False, tn_created = 0 \<rparr>)],
     tb_keys = [], tb_quotas = [(''t1'', \<lparr> qu_window = Daily, qu_budget = 40, qu_updated = 0 \<rparr>)],
     ms_resv = [], ms_ledger = [] \<rparr>"

definition demo_request :: "string \<Rightarrow> request" where
  "demo_request op = \<lparr> rq_op = op, rq_tenant = ''t1'', rq_est = 30, rq_kind = ''inference'', rq_modality = ''llm'', rq_default = None \<rparr>"

definition reserve_events :: "nat \<Rightarrow> string \<Rightarrow> meter_event list" where
  "reserve_events t op = [RvLook t (demo_request op), RvCheck t 5, RvInsert t 5, RvAnswer t]"

lemma demo_meter_ok: "tenancy_ok demo_meter"
  by (simp add: tenancy_ok_def tenants_ok_def keys_ok_def demo_meter_def)

theorem budget_is_never_overshot_witness:
  "\<exists>h. run_events (meter_step (\<lambda>u now. 0)) (reserve_events 1 ''a'' @ [RvLook 2 (demo_request ''b''), RvCheck 2 6]) (init_meter demo_meter) = Some h \<and>
     me_admitted h = [''a''] \<and> consumed ''t1'' 0 (me_store h) \<le> 40"
proof -
  let ?es = "reserve_events 1 ''a'' @ [RvLook 2 (demo_request ''b''), RvCheck 2 6]"
  have "\<not> Option.is_none (run_events (meter_step (\<lambda>u now. 0)) ?es (init_meter demo_meter))" by code_simp
  note r = is_some[OF this]
  let ?h = "the (run_events (meter_step (\<lambda>u now. 0)) ?es (init_meter demo_meter))"
  have g: "guarded (\<lambda>e h. calm e h \<and> within_estimate e h) (meter_step (\<lambda>u now. 0)) ?es (init_meter demo_meter)"
    by (rule guarded_True) (auto simp: reserve_events_def)
  have a: "me_admitted ?h = [''a'']" by code_simp
  have q: "map_option qu_budget (map_of (tb_quotas (me_store ?h)) ''t1'') = Some 40" by code_simp
  then obtain q where q: "map_of (tb_quotas (me_store ?h)) ''t1'' = Some q" "qu_budget q = 40" by auto
  have "ms_resv demo_meter = []" "ms_ledger demo_meter = []" by (simp_all add: demo_meter_def)
  then have "consumed ''t1'' 0 (me_store ?h) \<le> 40"
    using budget_is_never_overshot[OF demo_meter_ok _ _ r g q(1), of 0] q(2) by simp
  then show ?thesis using r a by blast
qed

text \<open>Claim C10.  One execution per operation id: whatever the interleaving of any number of requests,
  settlements, releases and sweeps, a reservation is granted at most once for an operation id.\<close>

theorem one_execution_per_operation:
  assumes "run_events (meter_step trunc) es (init_meter m) = Some h"
  shows "distinct (me_admitted h)"
proof -
  have "admit_inv (init_meter m)" by (simp add: admit_inv_def init_meter_def)
  then have "admit_inv h" using metering_admission.run_inv[OF assms] by simp
  then show ?thesis by (rule admit_invD(1))
qed

theorem one_execution_per_operation_witness:
  "\<exists>h. run_events (meter_step (\<lambda>u now. 0)) [RvLook 1 (demo_request ''a''), RvLook 2 (demo_request ''a''), RvCheck 1 5, RvInsert 1 5,
      RvAnswer 1, Refund ''a'', RvCheck 2 6, RvInsert 2 6, RvAnswer 2] (init_meter demo_meter) = Some h \<and>
     distinct (me_admitted h) \<and> me_admitted h = [''a'']"
proof -
  let ?es = "[RvLook 1 (demo_request ''a''), RvLook 2 (demo_request ''a''), RvCheck 1 5, RvInsert 1 5,
      RvAnswer 1, Refund ''a'', RvCheck 2 6, RvInsert 2 6, RvAnswer 2]"
  have "\<not> Option.is_none (run_events (meter_step (\<lambda>u now. 0)) ?es (init_meter demo_meter))" by code_simp
  note r = is_some[OF this]
  have "me_admitted (the (run_events (meter_step (\<lambda>u now. 0)) ?es (init_meter demo_meter))) = [''a'']" by code_simp
  then show ?thesis using one_execution_per_operation[OF r] r by blast
qed

text \<open>The books reconcile: as long as no reservation is closed between a settlement's read and its
  write, the ledger's total is the total of the settled reservations, for every tenant and overall, in every
  interleaving.\<close>

theorem the_books_reconcile:
  assumes "books m" "run_events (meter_step trunc) es (init_meter m) = Some h" "guarded calm (meter_step trunc) es (init_meter m)"
  shows "ledger_total t (me_store h) = settled_total t (me_store h) \<and> reconciled t (me_store h)"
proof -
  have "books_inv h" using metering_books.guarded_inv[OF assms(2,3)] books_inv_init[OF assms(1)] by blast
  then have "ledger_total t (me_store h) = settled_total t (me_store h)" by (intro books_reconcile books_invD(1))
  then show ?thesis by (simp add: reconciled_def)
qed

theorem the_books_reconcile_witness:
  "\<exists>h. run_events (meter_step (\<lambda>u now. 0)) (reserve_events 1 ''a'' @ [StRead 1 ''a'' 12, StRead 2 ''a'' 12, StWrite 1, StWrite 2])
     (init_meter demo_meter) = Some h \<and> ledger_total None (me_store h) = settled_total None (me_store h) \<and> ledger_total None (me_store h) = 12"
proof -
  let ?es = "reserve_events 1 ''a'' @ [StRead 1 ''a'' 12, StRead 2 ''a'' 12, StWrite 1, StWrite 2]"
  have "\<not> Option.is_none (run_events (meter_step (\<lambda>u now. 0)) ?es (init_meter demo_meter))" by code_simp
  note r = is_some[OF this]
  have b: "books demo_meter" by (simp add: books_def demo_meter_def)
  have g: "guarded calm (meter_step (\<lambda>u now. 0)) ?es (init_meter demo_meter)"
    by (rule guarded_True) (auto simp: reserve_events_def)
  have "ledger_total None (me_store (the (run_events (meter_step (\<lambda>u now. 0)) ?es (init_meter demo_meter)))) = 12" by code_simp
  then show ?thesis using the_books_reconcile[OF b r g, of None] r by blast
qed

text \<open>Settling is idempotent: settling again, with any amount, changes neither the ledger nor the
  reservations.\<close>

theorem settling_again_changes_nothing:
  assumes "distinct (dkeys (ms_resv m))" "0 \<le> a"
  shows "snd (settle op b (snd (settle op a m))) = snd (settle op a m)"
proof (cases "map_of (ms_resv m) op")
  case None
  then show ?thesis using assms by (simp add: settle_def settle_read_def)
next
  case (Some r)
  show ?thesis
  proof (cases "rv_state r = Reserved")
    case True
    let ?m = "settle_write op a r m"
    have "map_of (ms_resv ?m) op = Some (close_resv Settled a r)" using Some by (simp add: settle_write_resv)
    moreover have "rv_state (close_resv Settled a r) \<noteq> Reserved" using True by (simp add: close_resv_def)
    ultimately show ?thesis using Some True assms(2) by (simp add: settle_def settle_read_def Let_def)
  next
    case False
    then show ?thesis using Some assms by (simp add: settle_def settle_read_def)
  qed
qed

theorem settling_again_changes_nothing_witness:
  "\<exists>m. map_of (ms_ledger m) ''a'' \<noteq> None \<and> snd (settle ''a'' 99 m) = m"
proof -
  let ?start = "snd (reserve (\<lambda>u now. 0) (demo_request ''a'') 5 demo_meter)"
  let ?m = "snd (settle ''a'' 12 ?start)"
  have d: "distinct (dkeys (ms_resv ?start))" by code_simp
  have "\<not> Option.is_none (map_of (ms_ledger ?m) ''a'')" by code_simp
  then have "map_of (ms_ledger ?m) ''a'' \<noteq> None" unfolding Option.is_none_def .
  moreover have "snd (settle ''a'' 99 ?m) = ?m" using settling_again_changes_nothing[OF d, of 12 "''a''" 99] by simp
  ultimately show ?thesis by blast
qed

text \<open>A settlement is not isolated from the sweep: when the sweep releases the reservation between
  the settlement's read and its write, the charge lands in the ledger against a released reservation, and the
  books never reconcile again.\<close>

theorem sweep_between_read_and_write_breaks_the_books:
  "case run_events (meter_step (\<lambda>u now. 0))
      (reserve_events 1 ''a'' @ [StRead 1 ''a'' 12, Sweep ''inference'' 3600 7200, StWrite 1]) (init_meter demo_meter) of
     None \<Rightarrow> False
   | Some h \<Rightarrow> map_option rv_state (map_of (ms_resv (me_store h)) ''a'') = Some Released \<and>
       map_option us_seconds (map_of (ms_ledger (me_store h)) ''a'') = Some 12 \<and> \<not> reconciled None (me_store h)"
  by code_simp

end
