(* ===== verification/MeteringOutbox.thy ===== *)
theory MeteringOutbox
  imports Metering
begin

text \<open>
  \<open>gateway/app/metering.py\<close>: the gateway's side of metering.  The write-ahead log is the list of its lines,
  parsed; a call of the store works, fails before anything is committed, or commits and then fails (the
  answer is lost, the compaction fails, or the process is killed), and the caller cannot tell the last two
  apart.
\<close>

record wal_entry =
  we_op :: "string option"
  we_release :: bool
  we_seconds :: rat
  we_done :: bool

datatype wal_line = Blank | Garbage | Entry wal_entry

record gate =
  ga_store :: mstore
  ga_wal :: "wal_line list"

datatype outcome = Works | FailsBefore | FailsAfter

section \<open>The log\<close>

definition wal_append :: "wal_entry \<Rightarrow> wal_line list \<Rightarrow> wal_line list" where
  "wal_append e w = w @ [Entry e]"

fun wal_entries :: "wal_line list \<Rightarrow> wal_entry list" where
  "wal_entries [] = []"
| "wal_entries (Entry e # w) = e # wal_entries w"
| "wal_entries (_ # w) = wal_entries w"

definition wal_compact :: "string list \<Rightarrow> wal_line list \<Rightarrow> wal_line list" where
  "wal_compact confirmed w = map Entry (filter (\<lambda>e. \<not> ((case we_op e of None \<Rightarrow> False | Some op \<Rightarrow> op \<in> set confirmed) \<or> we_done e)) (wal_entries w))"

definition wal_ops :: "wal_line list \<Rightarrow> string set" where
  "wal_ops w = {op. \<exists>e \<in> set (wal_entries w). we_op e = Some op \<and> \<not> we_done e}"

section \<open>Reserve\<close>

datatype attempt = NoConnection | Breaks | Answers "meter_error + resv"

text \<open>\<open>reserve_or_refuse\<close>: the first attempt, and the one retry on a fresh connection.\<close>

fun second_answer :: "attempt \<Rightarrow> refusal + resv" where
  "second_answer (Answers (Inr r)) = Inr r"
| "second_answer (Answers (Inl (Finished _))) = Inl Forbidden"
| "second_answer (Answers (Inl InFlight)) = Inl Forbidden"
| "second_answer (Answers (Inl (Exhausted _ _))) = Inl QuotaExhausted"
| "second_answer _ = Inl MeteringUnavailable"

fun reserve_or_refuse :: "attempt \<Rightarrow> attempt \<Rightarrow> refusal + resv" where
  "reserve_or_refuse NoConnection retry = Inl MeteringUnavailable"
| "reserve_or_refuse (Answers (Inr r)) retry = Inr r"
| "reserve_or_refuse (Answers (Inl (Finished _))) retry = Inl Forbidden"
| "reserve_or_refuse (Answers (Inl InFlight)) retry = Inl Forbidden"
| "reserve_or_refuse (Answers (Inl (Exhausted _ _))) retry = Inl QuotaExhausted"
| "reserve_or_refuse _ retry = second_answer retry"

section \<open>Settle and release\<close>

datatype settle_result = Charged | Dropped | Deferred

definition gw_settle :: "string \<Rightarrow> rat \<Rightarrow> outcome \<Rightarrow> gate \<Rightarrow> settle_result \<times> gate" where
  "gw_settle op secs out g =
     (let w = wal_append \<lparr> we_op = Some op, we_release = False, we_seconds = secs, we_done = False \<rparr> (ga_wal g)
      in case out of
           FailsBefore \<Rightarrow> (Deferred, g\<lparr> ga_wal := w \<rparr>)
         | FailsAfter \<Rightarrow> (Deferred, g\<lparr> ga_wal := w, ga_store := snd (settle op secs (ga_store g)) \<rparr>)
         | Works \<Rightarrow> (case settle op secs (ga_store g) of
             (Inl e, m) \<Rightarrow> (Deferred, g\<lparr> ga_wal := w, ga_store := m \<rparr>)
           | (Inr r, m) \<Rightarrow> (if rv_state r = Settled then Charged else Dropped,
                           g\<lparr> ga_wal := wal_compact [op] w, ga_store := m \<rparr>)))"

definition gw_release :: "string \<Rightarrow> outcome \<Rightarrow> gate \<Rightarrow> gate" where
  "gw_release op out g =
     (let w = wal_append \<lparr> we_op = Some op, we_release = True, we_seconds = 0, we_done = False \<rparr> (ga_wal g)
      in case out of
           FailsBefore \<Rightarrow> g\<lparr> ga_wal := w \<rparr>
         | FailsAfter \<Rightarrow> g\<lparr> ga_wal := w, ga_store := release op (ga_store g) \<rparr>
         | Works \<Rightarrow> g\<lparr> ga_wal := wal_compact [op] w, ga_store := release op (ga_store g) \<rparr>)"

definition sweep_orphaned :: "rat \<Rightarrow> rat \<Rightarrow> outcome \<Rightarrow> gate \<Rightarrow> (nat \<times> bool) \<times> gate" where
  "sweep_orphaned ttl now out g =
     (case out of
        FailsBefore \<Rightarrow> ((0, True), g)
      | FailsAfter \<Rightarrow> ((0, True), g\<lparr> ga_store := snd (sweep ''inference'' ttl now (ga_store g)) \<rparr>)
      | Works \<Rightarrow> (case sweep ''inference'' ttl now (ga_store g) of (ops, m) \<Rightarrow> ((length ops, False), g\<lparr> ga_store := m \<rparr>)))"

section \<open>Replay\<close>

definition apply_entry :: "wal_entry \<Rightarrow> mstore \<Rightarrow> mstore" where
  "apply_entry e m = (case we_op e of None \<Rightarrow> m
     | Some op \<Rightarrow> if we_release e then release op m else snd (settle op (we_seconds e) m))"

text \<open>Whether the store's call raises of itself: a settlement of a reservation that is not there, or of a
  negative amount.\<close>

definition entry_raises :: "wal_entry \<Rightarrow> mstore \<Rightarrow> bool" where
  "entry_raises e m = (case we_op e of None \<Rightarrow> False
     | Some op \<Rightarrow> \<not> we_release e \<and> (we_seconds e < 0 \<or> map_of (ms_resv m) op = None))"

text \<open>The loop over the entries: the ids confirmed, how many were replayed and how many failed.\<close>

fun replay_loop :: "(nat \<Rightarrow> outcome) \<Rightarrow> nat \<Rightarrow> wal_entry list \<Rightarrow> mstore \<Rightarrow> string list \<times> nat \<times> nat \<times> mstore" where
  "replay_loop out n [] m = ([], 0, 0, m)"
| "replay_loop out n (e # es) m =
     (case we_op e of
        None \<Rightarrow> replay_loop out (n + 1) es m
      | Some op \<Rightarrow>
          if out n = Works \<and> \<not> entry_raises e m
          then (case replay_loop out (n + 1) es (apply_entry e m) of (confirmed, ok, bad, m') \<Rightarrow> (op # confirmed, ok + 1, bad, m'))
          else (case replay_loop out (n + 1) es (if out n = FailsAfter then apply_entry e m else m) of
                  (confirmed, ok, bad, m') \<Rightarrow> (confirmed, ok, bad + 1, m')))"

definition replay_outbox :: "(nat \<Rightarrow> outcome) \<Rightarrow> gate \<Rightarrow> (nat \<times> nat) \<times> gate" where
  "replay_outbox out g =
     (if wal_entries (ga_wal g) = [] then ((0, 0), g)
      else (case replay_loop out 0 (wal_entries (ga_wal g)) (ga_store g) of
        (confirmed, ok, bad, m) \<Rightarrow> ((ok, bad), g\<lparr> ga_store := m, ga_wal := (if confirmed = [] then ga_wal g else wal_compact confirmed (ga_wal g)) \<rparr>)))"

section \<open>Replaying a log of idempotent operations\<close>

text \<open>Operations that change nothing the second time, and that nothing else can make change again.\<close>

locale idempotent_log =
  fixes app :: "'e \<Rightarrow> 's \<Rightarrow> 's" and inv :: "'s \<Rightarrow> bool"
  assumes keeps: "inv s \<Longrightarrow> inv (app e s)"
    and idem: "inv s \<Longrightarrow> app e (app e s) = app e s"
    and stable: "inv s \<Longrightarrow> app e s = s \<Longrightarrow> app e (app f s) = app f s"
begin

lemma keeps_fold: "inv s \<Longrightarrow> inv (fold app es s)"
  by (induction es arbitrary: s) (auto intro: keeps)

lemma stable_fold: "inv s \<Longrightarrow> app e s = s \<Longrightarrow> app e (fold app es s) = fold app es s"
  by (induction es arbitrary: s) (auto intro: keeps stable)

lemma done_fold: "inv s \<Longrightarrow> e \<in> set es \<Longrightarrow> app e (fold app es s) = fold app es s"
  by (induction es arbitrary: s) (auto intro: keeps stable_fold idem)

lemma noop_fold: "(\<And>e. e \<in> set es \<Longrightarrow> app e s = s) \<Longrightarrow> fold app es s = s"
  by (induction es) auto

text \<open>A replay cut short and started again ends where the whole replay does.\<close>

lemma replay_resumes: "inv s \<Longrightarrow> fold app es (fold app (take n es) s) = fold app es s"
proof -
  assume "inv s"
  then have "fold app (take n es) (fold app (take n es) s) = fold app (take n es) s"
    by (intro noop_fold done_fold)
  then show ?thesis by (metis append_take_drop_id comp_apply fold_append)
qed

end

definition one_row :: "mstore \<Rightarrow> bool" where
  "one_row m = distinct (dkeys (ms_resv m))"

definition closed_op :: "string \<Rightarrow> mstore \<Rightarrow> bool" where
  "closed_op op m = (case map_of (ms_resv m) op of None \<Rightarrow> False | Some r \<Rightarrow> rv_state r \<noteq> Reserved)"

lemma settle_one_row: "one_row m \<Longrightarrow> one_row (snd (settle op a m))"
  by (auto simp: settle_def one_row_def settle_write_def Let_def split: sum.splits)

lemma release_noop: "one_row m \<Longrightarrow> map_of (ms_resv m) op = None \<or> closed_op op m \<Longrightarrow> release op m = m"
  unfolding release_def one_row_def closed_op_def
  by (subst dict_upd_id) (auto simp: close_resv_def split: option.splits)

lemma settle_noop: "map_of (ms_resv m) op = None \<or> closed_op op m \<or> a < 0 \<Longrightarrow> snd (settle op a m) = m"
  by (auto simp: settle_def settle_read_def closed_op_def split: option.splits sum.splits)

text \<open>An entry that has nothing to do.\<close>

definition inert :: "wal_entry \<Rightarrow> mstore \<Rightarrow> bool" where
  "inert e m = (case we_op e of None \<Rightarrow> True
     | Some op \<Rightarrow> map_of (ms_resv m) op = None \<or> closed_op op m \<or> \<not> we_release e \<and> we_seconds e < 0)"

lemma apply_entry_cases:
  assumes "one_row m"
  obtains (same) "apply_entry e m = m" "inert e m"
  | (changed) op where "we_op e = Some op" "\<not> closed_op op m" "closed_op op (apply_entry e m)" "\<not> inert e m"
proof (cases "inert e m")
  case True
  then have "apply_entry e m = m"
    using release_noop[OF assms] settle_noop[of m _ "we_seconds e"]
    by (auto simp: apply_entry_def inert_def split: option.splits)
  then show ?thesis using True by (rule same)
next
  case False
  then obtain op r where r: "we_op e = Some op" "map_of (ms_resv m) op = Some r" "rv_state r = Reserved"
    "we_release e \<or> \<not> we_seconds e < 0"
    by (auto simp: inert_def closed_op_def split: option.splits)
  then have "closed_op op (apply_entry e m)"
    by (auto simp: apply_entry_def closed_op_def release_resv settle_def settle_read_def Let_def settle_write_resv close_resv_def)
  moreover have "\<not> closed_op op m" using r by (simp add: closed_op_def)
  ultimately show ?thesis using r(1) changed False by blast
qed

lemma apply_entry_other:
  "we_op e \<noteq> Some op \<Longrightarrow> map_of (ms_resv (apply_entry e m)) op = map_of (ms_resv m) op"
  by (auto simp: apply_entry_def release_resv settle_def Let_def settle_write_resv split: option.splits sum.splits)

lemma apply_entry_one_row: "one_row m \<Longrightarrow> one_row (apply_entry e m)"
  using settle_one_row by (auto simp: apply_entry_def release_def one_row_def split: option.splits)

lemma apply_entry_keeps_rows: "map_of (ms_resv m) op \<noteq> None \<Longrightarrow> map_of (ms_resv (apply_entry e m)) op \<noteq> None"
  by (auto simp: apply_entry_def release_resv settle_def Let_def settle_write_resv split: option.splits sum.splits)

lemma apply_entry_closed: "closed_op op m \<Longrightarrow> closed_op op (apply_entry e m)"
  by (auto simp: apply_entry_def closed_op_def release_resv settle_def Let_def settle_write_resv close_resv_def
      split: option.splits sum.splits)

lemma apply_entry_absent: "map_of (ms_resv m) op = None \<Longrightarrow> map_of (ms_resv (apply_entry e m)) op = None"
  by (auto simp: apply_entry_def release_resv settle_def Let_def settle_write_resv split: option.splits sum.splits)

lemma inert_iff: "one_row m \<Longrightarrow> apply_entry e m = m \<longleftrightarrow> inert e m"
  by (erule apply_entry_cases[of m e]) auto

lemma inert_stable: "inert e m \<Longrightarrow> inert e (apply_entry f m)"
  unfolding inert_def using apply_entry_absent[of m _ f] apply_entry_closed[of _ m f] by (auto split: option.splits)

interpretation outbox: idempotent_log apply_entry one_row
proof
  fix m e f assume m: "one_row m"
  show "one_row (apply_entry e m)" by (rule apply_entry_one_row[OF m])
  show "apply_entry e (apply_entry e m) = apply_entry e m"
    using m
  proof (cases rule: apply_entry_cases[of m e])
    case (changed op)
    then show ?thesis by (simp add: inert_iff[OF apply_entry_one_row[OF m]] inert_def)
  qed simp
  show "apply_entry e (apply_entry f m) = apply_entry f m" if "apply_entry e m = m"
    using that inert_stable by (simp add: inert_iff[OF m] inert_iff[OF apply_entry_one_row[OF m]])
qed

section \<open>Nothing asked is lost\<close>

datatype gate_event =
    GReserve request rat
  | GSettle string rat outcome
  | GRelease string outcome
  | GSweep rat rat outcome
  | GReplay "nat \<Rightarrow> outcome"

text \<open>A run of the gateway; \<open>asked\<close> is every operation id a settlement or a release was asked for.\<close>

fun gate_step :: "(string \<Rightarrow> rat \<Rightarrow> rat) \<Rightarrow> gate_event \<Rightarrow> string list \<times> gate \<Rightarrow> (string list \<times> gate) option" where
  "gate_step trunc (GReserve q now) (asked, g) = Some (asked, g\<lparr> ga_store := snd (reserve trunc q now (ga_store g)) \<rparr>)"
| "gate_step trunc (GSettle op secs out) (asked, g) = Some (op # asked, snd (gw_settle op secs out g))"
| "gate_step trunc (GRelease op out) (asked, g) = Some (op # asked, gw_release op out g)"
| "gate_step trunc (GSweep ttl now out) (asked, g) = Some (asked, snd (sweep_orphaned ttl now out g))"
| "gate_step trunc (GReplay out) (asked, g) = Some (asked, snd (replay_outbox out g))"

text \<open>The gateway settles and releases what it reserved, and never a negative amount.\<close>

fun own_work :: "gate_event \<Rightarrow> string list \<times> gate \<Rightarrow> bool" where
  "own_work (GSettle op secs out) s = (map_of (ms_resv (ga_store (snd s))) op \<noteq> None \<and> 0 \<le> secs)"
| "own_work (GRelease op out) s = (map_of (ms_resv (ga_store (snd s))) op \<noteq> None)"
| "own_work _ s = True"

definition replayable :: "wal_entry \<Rightarrow> mstore \<Rightarrow> bool" where
  "replayable e m = (\<not> we_done e \<and> \<not> entry_raises e m \<and>
     (case we_op e of None \<Rightarrow> False | Some op \<Rightarrow> map_of (ms_resv m) op \<noteq> None))"

definition nothing_lost :: "string list \<times> gate \<Rightarrow> bool" where
  "nothing_lost s = (case s of (asked, g) \<Rightarrow> books (ga_store g) \<and>
     (\<forall>e \<in> set (wal_entries (ga_wal g)). replayable e (ga_store g)) \<and>
     (\<forall>op \<in> set asked. closed_op op (ga_store g) \<or> op \<in> wal_ops (ga_wal g)))"

lemma wal_entries_append [simp]: "wal_entries (w @ v) = wal_entries w @ wal_entries v"
  by (induction w rule: wal_entries.induct) auto

lemma wal_entries_map [simp]: "wal_entries (map Entry es) = es"
  by (induction es) auto

lemma wal_entries_compact: "wal_entries (wal_compact confirmed w) =
    filter (\<lambda>e. \<not> ((case we_op e of None \<Rightarrow> False | Some op \<Rightarrow> op \<in> set confirmed) \<or> we_done e)) (wal_entries w)"
  by (simp add: wal_compact_def)

lemma wal_ops_compact: "wal_ops (wal_compact confirmed w) = wal_ops w - set confirmed"
  by (auto simp: wal_ops_def wal_entries_compact split: option.splits)

lemma wal_ops_append: "wal_ops (wal_append e w) = wal_ops w \<union> {op. we_op e = Some op \<and> \<not> we_done e}"
  by (auto simp: wal_ops_def wal_append_def)

text \<open>A step of the store: rows stay, closed ones stay closed.\<close>

definition store_grows :: "mstore \<Rightarrow> mstore \<Rightarrow> bool" where
  "store_grows m m' = ((one_row m \<longrightarrow> one_row m') \<and> (books m \<longrightarrow> books m') \<and>
     (\<forall>op. map_of (ms_resv m) op \<noteq> None \<longrightarrow> map_of (ms_resv m') op \<noteq> None) \<and> (\<forall>op. closed_op op m \<longrightarrow> closed_op op m'))"

lemma store_growsD:
  assumes "store_grows m m'"
  shows "one_row m \<Longrightarrow> one_row m'" "map_of (ms_resv m) op \<noteq> None \<Longrightarrow> map_of (ms_resv m') op \<noteq> None"
    "closed_op op m \<Longrightarrow> closed_op op m'" "books m \<Longrightarrow> books m'"
  using assms unfolding store_grows_def by blast+

lemma store_grows_refl [simp]: "store_grows m m"
  by (simp add: store_grows_def)

lemma store_grows_trans: "store_grows m n \<Longrightarrow> store_grows n k \<Longrightarrow> store_grows m k"
  by (simp add: store_grows_def)

lemma books_settle_call: "books m \<Longrightarrow> books (snd (settle op a m))"
  by (auto simp: settle_def settle_read_def Let_def intro: books_settle split: option.splits)

lemma grows_apply [intro]: "store_grows m (apply_entry e m)"
proof -
  have "books (apply_entry e m)" if "books m"
    using that books_settle_call books_release by (auto simp: apply_entry_def split: option.splits)
  then show ?thesis
    unfolding store_grows_def using apply_entry_one_row apply_entry_keeps_rows apply_entry_closed by blast
qed

lemma grows_settle [intro]: "store_grows m (snd (settle op a m))"
  using grows_apply[of m "\<lparr> we_op = Some op, we_release = False, we_seconds = a, we_done = False \<rparr>"]
  by (simp add: apply_entry_def)

lemma grows_release [intro]: "store_grows m (release op m)"
  using grows_apply[of m "\<lparr> we_op = Some op, we_release = True, we_seconds = 0, we_done = False \<rparr>"]
  by (simp add: apply_entry_def)

lemma grows_sweep [intro]: "store_grows m (snd (sweep kind older now m))"
proof -
  have "one_row (snd (sweep kind older now m))" if "one_row m"
    using that by (simp add: one_row_def sweep_def del: map_map)
  then show ?thesis
    by (auto simp: store_grows_def sweep_resv closed_op_def close_resv_def intro: books_sweep split: option.splits)
qed

lemma grows_reserve [intro]: "store_grows m (snd (reserve trunc q now m))"
proof -
  have "store_grows m m'" if "reserve_insert q start now m = Inr (ins, m')" for start ins m'
    using that
  proof (cases rule: reserve_insert_cases)
    case (new r)
    have "rq_op q \<notin> set (dkeys (ms_resv m))" using new(2) dkeys_iff_map_of[of "rq_op q" "ms_resv m"] by simp
    then show ?thesis using new books_insert(1)[OF _ that]
      by (auto simp: store_grows_def one_row_def closed_op_def map_add_def split: option.splits)
  qed simp
  then show ?thesis by (auto simp: reserve_def split: option.splits sum.splits)
qed

lemma raises_grows: "store_grows m m' \<Longrightarrow> \<not> entry_raises e m \<Longrightarrow> \<not> entry_raises e m'"
  using store_growsD(2)[of m m'] unfolding entry_raises_def by (auto split: option.splits simp del: not_None_eq)

lemma replayable_grows: "store_grows m m' \<Longrightarrow> replayable e m \<Longrightarrow> replayable e m'"
  using raises_grows[of m m' e] store_growsD(2)[of m m'] unfolding replayable_def
  by (auto split: option.splits simp del: not_None_eq)

text \<open>The invariant survives a step of the store, and a log that only loses entries of closed operations.\<close>

lemma nothing_lost_store:
  assumes inv: "nothing_lost (asked, g)" and gr: "store_grows (ga_store g) m"
  shows "nothing_lost (asked, g\<lparr> ga_store := m \<rparr>)"
  using inv store_growsD[OF gr] replayable_grows[OF gr] unfolding nothing_lost_def by auto

lemma nothing_lost_ask:
  assumes inv: "nothing_lost (asked, g)" and e: "we_op e = Some op" "\<not> we_done e"
    and row: "map_of (ms_resv (ga_store g)) op \<noteq> None" and nr: "\<not> entry_raises e (ga_store g)"
  shows "nothing_lost (op # asked, g\<lparr> ga_wal := wal_append e (ga_wal g) \<rparr>)"
proof -
  have "replayable e (ga_store g)" using e row nr by (simp add: replayable_def)
  then show ?thesis using inv e unfolding nothing_lost_def by (auto simp: wal_ops_append) (auto simp: wal_append_def)
qed

lemma nothing_lost_compact:
  assumes inv: "nothing_lost (asked, g)" and closed: "\<And>op. op \<in> set confirmed \<Longrightarrow> closed_op op (ga_store g)"
  shows "nothing_lost (asked, g\<lparr> ga_wal := wal_compact confirmed (ga_wal g) \<rparr>)"
  using inv closed unfolding nothing_lost_def by (auto simp: wal_ops_compact wal_entries_compact)

lemma settle_closes: "map_of (ms_resv m) op \<noteq> None \<Longrightarrow> 0 \<le> a \<Longrightarrow> closed_op op (snd (settle op a m))"
  by (auto simp: settle_def settle_read_def closed_op_def Let_def settle_write_resv close_resv_def split: option.splits)

lemma release_closes: "map_of (ms_resv m) op \<noteq> None \<Longrightarrow> closed_op op (release op m)"
  by (auto simp: closed_op_def release_resv close_resv_def)

lemma apply_entry_closes:
  "we_op e = Some op \<Longrightarrow> map_of (ms_resv m) op \<noteq> None \<Longrightarrow> \<not> entry_raises e m \<Longrightarrow> closed_op op (apply_entry e m)"
  using settle_closes[of m op "we_seconds e"] release_closes[of m op] by (auto simp: apply_entry_def entry_raises_def)

lemma replay_loop_grows: "store_grows m (snd (snd (snd (replay_loop out n es m))))"
  by (induction out n es m rule: replay_loop.induct)
    (auto split: option.splits prod.splits intro: store_grows_trans[OF grows_apply])

lemma replay_loop_done:
  assumes "\<And>e op. e \<in> set es \<Longrightarrow> we_op e = Some op \<Longrightarrow> map_of (ms_resv m) op \<noteq> None"
    and "replay_loop out n es m = (confirmed, ok, bad, m')" "op \<in> set confirmed"
  shows "closed_op op m'"
  using assms
proof (induction es arbitrary: n m confirmed ok bad)
  case (Cons e es)
  show ?case
  proof (cases "we_op e")
    case None
    then have l: "replay_loop out (n + 1) es m = (confirmed, ok, bad, m')" using Cons.prems(2) by simp
    have rows: "map_of (ms_resv m) j \<noteq> None" if "f \<in> set es" "we_op f = Some j" for f j
      using Cons.prems(1)[of f j] that by simp
    show ?thesis by (rule Cons.IH[OF rows l Cons.prems(3)])
  next
    case (Some k)
    have rows: "map_of (ms_resv (apply_entry e m)) j \<noteq> None" if "f \<in> set es" "we_op f = Some j" for f j
      using Cons.prems(1)[of f j] that by (intro apply_entry_keeps_rows) simp
    show ?thesis
    proof (cases "out n = Works \<and> \<not> entry_raises e m")
      case True
      obtain d o' b' m1 where l: "replay_loop out (n + 1) es (apply_entry e m) = (d, o', b', m1)" by (rule prod_cases4)
      then have eq: "confirmed = k # d" "m1 = m'" using Cons.prems(2) True Some by simp_all
      have "closed_op k (apply_entry e m)"
        by (rule apply_entry_closes[OF Some]) (use Cons.prems(1)[of e k] Some True in auto)
      then have "closed_op k m'"
        using store_growsD(3)[OF replay_loop_grows[of "apply_entry e m" out "n + 1" es]] l eq by simp
      then show ?thesis using Cons.IH[OF rows l[unfolded eq(2)]] Cons.prems(3) eq by auto
    next
      case False
      let ?m = "if out n = FailsAfter then apply_entry e m else m"
      obtain d o' b' m1 where l: "replay_loop out (n + 1) es ?m = (d, o', b', m1)" by (rule prod_cases4)
      then have eq: "confirmed = d" "m1 = m'" using Cons.prems(2) False Some by auto
      have "map_of (ms_resv ?m) j \<noteq> None" if "f \<in> set es" "we_op f = Some j" for f j
        using rows[OF that] Cons.prems(1)[of f j] that by simp
      then show ?thesis using Cons.IH[OF _ l[unfolded eq(2)]] Cons.prems(3) eq by blast
    qed
  qed
qed simp

lemma replay_loop_works:
  assumes "\<And>e. e \<in> set es \<Longrightarrow> replayable e m" "replay_loop (\<lambda>_. Works) n es m = (confirmed, ok, bad, m')"
  shows "bad = 0 \<and> ok = length es \<and> m' = fold apply_entry es m \<and> (\<forall>e \<in> set es. \<exists>op \<in> set confirmed. we_op e = Some op)"
  using assms
proof (induction es arbitrary: n m m' confirmed ok bad)
  case (Cons e es)
  have rep: "replayable e m" using Cons.prems(1) by simp
  then obtain k where k: "we_op e = Some k" "\<not> entry_raises e m" by (auto simp: replayable_def split: option.splits)
  obtain d o' b' m1 where l: "replay_loop (\<lambda>_. Works) (n + 1) es (apply_entry e m) = (d, o', b', m1)" by (rule prod_cases4)
  have "replayable f (apply_entry e m)" if "f \<in> set es" for f
    using Cons.prems(1)[of f] that replayable_grows[OF grows_apply] by simp
  then show ?case using Cons.IH[OF _ l] Cons.prems(2) l k by auto
qed simp

lemma nothing_lost_step:
  assumes inv: "nothing_lost s" and ok: "own_work e s" and st: "gate_step trunc e s = Some s'"
  shows "nothing_lost s'"
proof -
  obtain asked g where s: "s = (asked, g)" by force
  note inv = inv[unfolded s]
  let ?entry = "\<lambda>op rel a. \<lparr> we_op = Some op, we_release = rel, we_seconds = a, we_done = False \<rparr>"
  have swap: "g\<lparr> ga_store := m, ga_wal := w \<rparr> = g\<lparr> ga_wal := w, ga_store := m \<rparr>" for m w by (cases g) simp
  have ask: "nothing_lost (op # asked, g\<lparr> ga_wal := wal_append (?entry op rel a) (ga_wal g) \<rparr>)"
    if "map_of (ms_resv (ga_store g)) op \<noteq> None" "rel \<or> 0 \<le> a" for op rel a
    by (rule nothing_lost_ask[OF inv]) (use that in \<open>auto simp: entry_raises_def\<close>)
  have ask_store: "nothing_lost (op # asked, g\<lparr> ga_wal := wal_append (?entry op rel a) (ga_wal g), ga_store := m \<rparr>)"
    if "map_of (ms_resv (ga_store g)) op \<noteq> None" "rel \<or> 0 \<le> a" "store_grows (ga_store g) m" for op rel a m
    using nothing_lost_store[OF ask[OF that(1,2)], of m] that(3) by simp
  have ask_close: "nothing_lost (op # asked, g\<lparr> ga_wal := wal_compact [op] (wal_append (?entry op rel a) (ga_wal g)), ga_store := m \<rparr>)"
    if "map_of (ms_resv (ga_store g)) op \<noteq> None" "rel \<or> 0 \<le> a" "store_grows (ga_store g) m" "closed_op op m" for op rel a m
    using nothing_lost_compact[OF ask_store[OF that(1-3)], of "[op]"] that(4) by (simp add: swap)
  show ?thesis
  proof (cases e)
    case (GReserve q now)
    then show ?thesis using st s nothing_lost_store[OF inv] by auto
  next
    case (GSettle op secs out)
    then have r: "map_of (ms_resv (ga_store g)) op \<noteq> None" "False \<or> 0 \<le> secs" using ok s by simp_all
    have grow: "store_grows (ga_store g) (snd (settle op secs (ga_store g)))" by blast
    have cl: "closed_op op (snd (settle op secs (ga_store g)))" using r by (intro settle_closes) simp_all
    obtain res m where m: "settle op secs (ga_store g) = (res, m)" by force
    show ?thesis
      using st s GSettle m ask[OF r] ask_store[OF r grow] ask_close[OF r grow cl]
      by (cases out) (auto simp: gw_settle_def Let_def split: sum.splits)
  next
    case (GRelease op out)
    then have r: "map_of (ms_resv (ga_store g)) op \<noteq> None" "True \<or> 0 \<le> (0 :: rat)" using ok s by simp_all
    have grow: "store_grows (ga_store g) (release op (ga_store g))" by blast
    show ?thesis
      using st s GRelease ask[OF r] ask_store[OF r grow] ask_close[OF r grow release_closes[OF r(1)]]
      by (cases out) (auto simp: gw_release_def Let_def)
  next
    case (GSweep ttl now out)
    have grow: "store_grows (ga_store g) (snd (sweep ''inference'' ttl now (ga_store g)))" by blast
    show ?thesis using st s GSweep inv nothing_lost_store[OF inv grow]
      by (cases out) (auto simp: sweep_orphaned_def split: prod.splits)
  next
    case (GReplay out)
    show ?thesis
    proof (cases "wal_entries (ga_wal g) = []")
      case True
      then show ?thesis using st s GReplay inv by (simp add: replay_outbox_def)
    next
      case False
      obtain d o' b' m where l: "replay_loop out 0 (wal_entries (ga_wal g)) (ga_store g) = (d, o', b', m)" by (rule prod_cases4)
      have grow: "store_grows (ga_store g) m" using replay_loop_grows[of "ga_store g" out 0 "wal_entries (ga_wal g)"] l by simp
      have rows: "map_of (ms_resv (ga_store g)) op \<noteq> None" if "f \<in> set (wal_entries (ga_wal g))" "we_op f = Some op" for f op
        using inv that by (auto simp: nothing_lost_def replayable_def)
      have cl: "closed_op op m" if "op \<in> set d" for op by (rule replay_loop_done[OF rows l that])
      have st1: "nothing_lost (asked, g\<lparr> ga_store := m \<rparr>)" by (rule nothing_lost_store[OF inv grow])
      have "nothing_lost (asked, g\<lparr> ga_store := m, ga_wal := wal_compact d (ga_wal g) \<rparr>)"
        using nothing_lost_compact[OF st1, of d] cl by simp
      then show ?thesis using st s GReplay False l st1 by (auto simp: replay_outbox_def)
    qed
  qed
qed

interpretation gateway_outbox: machine "gate_step trunc" own_work nothing_lost for trunc
  by unfold_locales (rule nothing_lost_step)

section \<open>Properties\<close>

text \<open>Claim C11.  Exactly once: for every run of the gateway in which each call of the store may work, fail
  before it commits or commit and lose its answer, one replay against a store that answers leaves the log
  empty and every reservation the gateway asked to settle or release closed, with exactly one ledger row for
  a settled operation and none for any other; a replay that is cut short anywhere and run again ends in the
  same store.\<close>

theorem settlements_land_exactly_once:
  assumes "books m" "run_events (gate_step trunc) es ([], \<lparr> ga_store = m, ga_wal = [] \<rparr>) = Some (asked, g)"
    and "guarded own_work (gate_step trunc) es ([], \<lparr> ga_store = m, ga_wal = [] \<rparr>)"
    and "snd (replay_outbox (\<lambda>_. Works) g) = g'"
  shows "wal_entries (ga_wal g') = [] \<and>
    (\<forall>op \<in> set asked. closed_op op (ga_store g') \<and>
       map_of (ms_ledger (ga_store g')) op = Option.bind (map_of (ms_resv (ga_store g')) op) charge_of) \<and>
    fold apply_entry (wal_entries (ga_wal g)) (fold apply_entry (take n (wal_entries (ga_wal g))) (ga_store g)) = ga_store g'"
proof -
  let ?es = "wal_entries (ga_wal g)"
  have "nothing_lost ([], \<lparr> ga_store = m, ga_wal = [] \<rparr>)" using assms(1) by (simp add: nothing_lost_def)
  then have inv: "nothing_lost (asked, g)" by (rule gateway_outbox.guarded_inv[OF assms(2,3)])
  have one: "one_row (ga_store g)" using inv by (simp add: nothing_lost_def one_row_def booksD(1))
  obtain d o' b' m' where l: "replay_loop (\<lambda>_. Works) 0 ?es (ga_store g) = (d, o', b', m')" by (rule prod_cases4)
  have rep: "replayable e (ga_store g)" if "e \<in> set ?es" for e using inv that by (simp add: nothing_lost_def)
  note w = replay_loop_works[OF rep l]
  have "nothing_lost (asked, g')"
    using nothing_lost_step[OF inv, of "GReplay (\<lambda>_. Works)" trunc "(asked, g')"] assms(4) by simp
  moreover have empty: "wal_entries (ga_wal g') = []"
  proof (cases "?es = []")
    case True
    then show ?thesis using assms(4) by (auto simp: replay_outbox_def)
  next
    case False
    then have "d \<noteq> []" using w by (cases ?es) auto
    then have "ga_wal g' = wal_compact d (ga_wal g)" using assms(4) False l by (auto simp: replay_outbox_def)
    moreover have "filter (\<lambda>e. \<not> ((case we_op e of None \<Rightarrow> False | Some op \<Rightarrow> op \<in> set d) \<or> we_done e)) ?es = []"
      using w by (auto simp: filter_empty_conv)
    ultimately show ?thesis by (simp add: wal_entries_compact)
  qed
  moreover have "ga_store g' = fold apply_entry ?es (ga_store g)"
    using assms(4) l w by (cases "?es = []") (auto simp: replay_outbox_def)
  ultimately show ?thesis
    using outbox.replay_resumes[OF one, of ?es n] by (auto simp: nothing_lost_def wal_ops_def dest: booksD(3))
qed

theorem settlements_land_exactly_once_witness:
  "\<exists>g g'. run_events (gate_step (\<lambda>u now. 0)) [GReserve (demo_request ''a'') 5, GSettle ''a'' 12 FailsAfter]
       ([], \<lparr> ga_store = demo_meter, ga_wal = [] \<rparr>) = Some ([''a''], g) \<and> wal_entries (ga_wal g) \<noteq> [] \<and>
     snd (replay_outbox (\<lambda>_. Works) g) = g' \<and> wal_entries (ga_wal g') = [] \<and> closed_op ''a'' (ga_store g')"
proof -
  let ?es = "[GReserve (demo_request ''a'') 5, GSettle ''a'' 12 FailsAfter]"
  let ?s = "([], \<lparr> ga_store = demo_meter, ga_wal = [] \<rparr>)"
  let ?r = "run_events (gate_step (\<lambda>u now. 0)) ?es ?s"
  have "map_option fst ?r = Some [''a'']" by code_simp
  then obtain g where r: "?r = Some ([''a''], g)" by (cases ?r) (auto simp del: run_events.simps)
  have "case ?r of None \<Rightarrow> False | Some (a, g) \<Rightarrow> (case wal_entries (ga_wal g) of [] \<Rightarrow> False | _ \<Rightarrow> True)" by code_simp
  then have ne: "wal_entries (ga_wal g) \<noteq> []" unfolding r by (auto split: list.splits)
  have b: "books demo_meter" by (simp add: books_def demo_meter_def)
  have "\<not> Option.is_none (map_of (ms_resv (snd (reserve (\<lambda>u now. 0) (demo_request ''a'') 5 demo_meter))) ''a'')" by code_simp
  then have row: "map_of (ms_resv (snd (reserve (\<lambda>u now. 0) (demo_request ''a'') 5 demo_meter))) ''a'' \<noteq> None"
    unfolding Option.is_none_def .
  have gd: "guarded own_work (gate_step (\<lambda>u now. 0)) ?es ?s"
    unfolding guarded.simps gate_step.simps option.case own_work.simps snd_conv gate.select_convs gate.update_convs
    using row by simp
  let ?fin = "snd (replay_outbox (\<lambda>_. Works) g)"
  have e: "wal_entries (ga_wal ?fin) = []" and c: "closed_op ''a'' (ga_store ?fin)"
    using settlements_land_exactly_once[OF b r gd refl, of 0] by simp_all
  show ?thesis by (intro exI[of _ g] exI[of _ ?fin] conjI r ne refl e c)
qed

end
