(* ===== verification/Activation.thy ===== *)
theory Activation
  imports Prelude
begin

text \<open>
  The durable activation of a serving model: \<open>platformlib/storeimpl/activations.py\<close> over the table of
  \<open>platformlib/migrations/002_activation.sql\<close>, and the state machine of \<open>gateway/app/activation.py\<close>.  What
  the other two authorities answer (the pointer write, the agent's reload and the identity it reports) is
  carried by the arguments; the pointer is part of the state.  A pass of \<open>run\<close> is the list of the worlds
  that are durable after each of its effects, so that a crash is a prefix of it.  Of the agent's reply the
  evidence keeps the four keys the code reads.
\<close>

datatype astate = Prepared | Committing | Reloading | RollingBack | Active | RolledBack | Degraded

definition non_terminal :: "astate \<Rightarrow> bool" where
  "non_terminal s = (s = Prepared \<or> s = Committing \<or> s = Reloading \<or> s = RollingBack)"

record reply =
  rp_status :: string
  rp_unresolvable :: bool
  rp_reason :: string
  rp_error :: string

datatype evidence = EvTime rat | EvBool bool | EvText string | EvReload reply
  | EvResident "string option" "string option" bool

record activation =
  ac_key :: string
  ac_state :: astate
  ac_actor :: string
  ac_model :: string
  ac_version :: string
  ac_prev_model :: "string option"
  ac_prev_version :: "string option"
  ac_attempts :: nat
  ac_created :: rat
  ac_updated :: rat
  ac_error_code :: "string option"
  ac_error :: "string option"
  ac_evidence :: "(string, evidence) dict"

type_synonym activations = "(string, activation) dict"

datatype act_error = Conflict | CheckViolation | DifferentTarget | NoSuchOperation

section \<open>The repository\<close>

text \<open>\<open>one_nonterminal_activation\<close>, which makes the index on the key of a non-terminal row redundant.\<close>

definition busy_with_other :: "string \<Rightarrow> activations \<Rightarrow> bool" where
  "busy_with_other oid t = list_ex (\<lambda>(i, a). i \<noteq> oid \<and> non_terminal (ac_state a)) t"

definition create_activation :: "rat \<Rightarrow> string \<Rightarrow> string \<Rightarrow> string \<Rightarrow> string \<Rightarrow> string \<Rightarrow> string option \<Rightarrow> string option
    \<Rightarrow> (string, evidence) dict \<Rightarrow> activations \<Rightarrow> act_error + activations" where
  "create_activation now oid key actor model version pm pv ev t =
     (if actor = [] \<or> model = [] \<or> version = [] \<or> pv \<noteq> None \<and> pm = None then Inl CheckViolation
      else if map_of t oid \<noteq> None \<or> busy_with_other oid t then Inl Conflict
      else Inr (t @ [(oid, \<lparr> ac_key = key, ac_state = Prepared, ac_actor = actor, ac_model = model, ac_version = version,
         ac_prev_model = pm, ac_prev_version = pv, ac_attempts = 0, ac_created = now, ac_updated = now,
         ac_error_code = None, ac_error = None, ac_evidence = ev \<rparr>)]))"

text \<open>\<open>ORDER BY (state = ANY(non-terminal)) DESC, created_at DESC LIMIT 1\<close>.\<close>

definition newest :: "activations \<Rightarrow> (string \<times> activation) option" where
  "newest t = (case filter (\<lambda>(i, a). non_terminal (ac_state a)) t of
      [] \<Rightarrow> (case sort_key (\<lambda>(i, a). - ac_created a) t of [] \<Rightarrow> None | r # _ \<Rightarrow> Some r)
    | ns \<Rightarrow> (case sort_key (\<lambda>(i, a). - ac_created a) ns of [] \<Rightarrow> None | r # _ \<Rightarrow> Some r))"

definition find_by_key :: "string \<Rightarrow> activations \<Rightarrow> (string \<times> activation) option" where
  "find_by_key key t = newest (filter (\<lambda>(i, a). ac_key a = key) t)"

definition current_activation :: "activations \<Rightarrow> (string \<times> activation) option" where
  "current_activation t = newest t"

definition list_resumable :: "activations \<Rightarrow> (string \<times> activation) list" where
  "list_resumable t = sort_key (\<lambda>(i, a). ac_created a) (filter (\<lambda>(i, a). non_terminal (ac_state a)) t)"

record cas_args =
  ca_code :: "string option"
  ca_error :: string
  ca_patch :: "(string, evidence) dict"
  ca_bump :: bool

definition cas_row :: "rat \<Rightarrow> astate \<Rightarrow> cas_args \<Rightarrow> activation \<Rightarrow> activation" where
  "cas_row now new x a = a\<lparr> ac_state := new, ac_updated := now, ac_error_code := ca_code x,
     ac_error := (if ca_error x = [] then None else Some (take 500 (ca_error x))),
     ac_evidence := fold (\<lambda>(k, v). AList.update k v) (ca_patch x) (ac_evidence a),
     ac_attempts := ac_attempts a + (if ca_bump x then 1 else 0) \<rparr>"

text \<open>The boolean says whether a row was returned.\<close>

definition cas_activation :: "rat \<Rightarrow> string \<Rightarrow> astate list \<Rightarrow> astate \<Rightarrow> cas_args \<Rightarrow> activations \<Rightarrow> act_error + bool \<times> activations" where
  "cas_activation now oid expect new x t =
     (case map_of t oid of
        None \<Rightarrow> Inr (False, t)
      | Some a \<Rightarrow>
          if ac_state a \<notin> set expect then Inr (False, t)
          else if non_terminal new \<and> busy_with_other oid t then Inl Conflict
          else Inr (True, dict_upd oid (cas_row now new x) t))"

section \<open>The service\<close>

record world =
  wo_table :: activations
  wo_pointer :: "string option"

text \<open>What the authorities answer during one pass: the class of the exception of the pointer write and of
  the restore if they fail, the agent's reply, and the identity the agent then reports.\<close>

record answers =
  an_set :: "string option"
  an_reply :: reply
  an_ident :: "string option \<times> string option \<times> bool"
  an_restore :: "string option"

definition MAX_ATTEMPTS :: nat where "MAX_ATTEMPTS = 5"

text \<open>\<open>str\<close> of an optional string.\<close>

definition str_opt :: "string option \<Rightarrow> string" where
  "str_opt s = (case s of None \<Rightarrow> ''None'' | Some x \<Rightarrow> x)"

definition prior_args :: "(string \<times> string option) option \<Rightarrow> string option \<times> string option" where
  "prior_args prior = (case prior of None \<Rightarrow> (None, None) | Some (pm, pv) \<Rightarrow> (Some pm, pv))"

definition submit_key :: "string \<Rightarrow> string \<Rightarrow> string option \<Rightarrow> string" where
  "submit_key name version key =
     (if key = None \<or> key = Some [] then ''promote:'' @ name @ ''@'' @ version else the key)"

text \<open>\<open>submit\<close>: the operation's id and the table, or the refusal.\<close>

definition submit :: "rat \<Rightarrow> string \<Rightarrow> string \<Rightarrow> string \<Rightarrow> string \<Rightarrow> (string \<times> string option) option \<Rightarrow> string option \<Rightarrow> bool
    \<Rightarrow> world \<Rightarrow> act_error + string \<times> world" where
  "submit now oid actor name version prior key preempt w =
     (let k = submit_key name version key;
          fresh = (case create_activation now oid k actor name version (fst (prior_args prior)) (snd (prior_args prior))
               [(''submitted_at'', EvTime now), (''requires_preemption'', EvBool preempt)] (wo_table w) of
             Inl e \<Rightarrow> Inl e | Inr t \<Rightarrow> Inr (oid, w\<lparr> wo_table := t \<rparr>))
      in case find_by_key k (wo_table w) of
           Some (i, a) \<Rightarrow>
             if non_terminal (ac_state a)
             then (if (ac_model a, ac_version a) \<noteq> (name, version) then Inl DifferentTarget else Inr (i, w))
             else fresh
         | None \<Rightarrow> fresh)"

definition assert_no_conflict :: "string \<Rightarrow> string \<Rightarrow> activations \<Rightarrow> bool" where
  "assert_no_conflict name version t =
     (case current_activation t of None \<Rightarrow> True
      | Some (_, a) \<Rightarrow> \<not> (non_terminal (ac_state a) \<and> (ac_model a, ac_version a) \<noteq> (name, version)))"

definition plain :: cas_args where
  "plain = \<lparr> ca_code = None, ca_error = [], ca_patch = [], ca_bump = False \<rparr>"

definition cas :: "rat \<Rightarrow> string \<Rightarrow> astate \<Rightarrow> astate \<Rightarrow> cas_args \<Rightarrow> world \<Rightarrow> world" where
  "cas now oid expect new x w = (case cas_activation now oid [expect] new x (wo_table w) of
     Inl _ \<Rightarrow> w | Inr (_, t) \<Rightarrow> w\<lparr> wo_table := t \<rparr>)"

definition state_of :: "string \<Rightarrow> world \<Rightarrow> astate option" where
  "state_of oid w = map_option ac_state (map_of (wo_table w) oid)"

text \<open>\<open>_commit_pointer\<close>: the pointer first, then the row.\<close>

definition commit_pointer :: "rat \<Rightarrow> answers \<Rightarrow> string \<Rightarrow> activation \<Rightarrow> world \<Rightarrow> world list" where
  "commit_pointer now an oid a w =
     (case an_set an of
        None \<Rightarrow> (let w1 = w\<lparr> wo_pointer := Some (ac_model a) \<rparr>
                 in [w1, cas now oid Prepared Committing (plain\<lparr> ca_patch := [(''pointer_set'', EvText (ac_model a))] \<rparr>) w1])
      | Some cls \<Rightarrow> [cas now oid Prepared Prepared
          (plain\<lparr> ca_code := Some ''pointer_write_failed'',
             ca_error := ''pointer write failed ('' @ cls @ '') - see gateway logs'', ca_bump := True \<rparr>) w])"

definition advance_to_reloading :: "rat \<Rightarrow> string \<Rightarrow> world \<Rightarrow> world list" where
  "advance_to_reloading now oid w = [cas now oid Committing Reloading plain w]"

text \<open>\<open>_maybe_degrade\<close>; \<open>a\<close> is the record the pass read.\<close>

definition maybe_degrade :: "rat \<Rightarrow> string \<Rightarrow> activation \<Rightarrow> string \<Rightarrow> string \<Rightarrow> (string, evidence) dict \<Rightarrow> world \<Rightarrow> world" where
  "maybe_degrade now oid a code reason ev w =
     (if ac_attempts a + 1 \<ge> MAX_ATTEMPTS
      then cas now oid (ac_state a) Degraded
        \<lparr> ca_code = Some code, ca_error = take 400 (reason @ '' (after '' @ str_nat (ac_attempts a + 1) @ '' attempts)''),
           ca_patch = ev, ca_bump = True \<rparr> w
      else cas now oid (ac_state a) (ac_state a)
        \<lparr> ca_code = Some code, ca_error = take 400 reason, ca_patch = ev, ca_bump = True \<rparr> w)"

text \<open>\<open>restore_serving_llm\<close>: an empty name clears the pointer.\<close>

definition restored_pointer :: "string option \<Rightarrow> string option" where
  "restored_pointer p = (if p = Some [] then None else p)"

definition prior_model :: "activation \<Rightarrow> string option" where
  "prior_model a = restored_pointer (ac_prev_model a)"

definition roll_back :: "rat \<Rightarrow> answers \<Rightarrow> string \<Rightarrow> activation \<Rightarrow> world \<Rightarrow> world list" where
  "roll_back now an oid a w =
     (case an_restore an of
        None \<Rightarrow> (let w1 = w\<lparr> wo_pointer := prior_model a \<rparr>
           in [w1, cas now oid RollingBack RolledBack
                 (plain\<lparr> ca_patch := [(''pointer_restored'', EvText (case prior_model a of None \<Rightarrow> ''(cleared)'' | Some p \<Rightarrow> p))] \<rparr>) w1])
      | Some cls \<Rightarrow> [cas now oid RollingBack Degraded
           (plain\<lparr> ca_code := Some ''pointer_error'',
              ca_error := ''rollback pointer write failed ('' @ cls @ '') - see gateway logs'' \<rparr>) w])"

definition loaded_status :: "string \<Rightarrow> bool" where
  "loaded_status s = (s \<in> {''loaded'', ''reloaded'', ''swapped'', ''noop''})"

definition is_target :: "string option \<times> string option \<times> bool \<Rightarrow> activation \<Rightarrow> bool" where
  "is_target i a = (fst i = Some (ac_model a) \<and> str_opt (fst (snd i)) = ac_version a)"

definition reload_and_verify :: "rat \<Rightarrow> answers \<Rightarrow> string \<Rightarrow> activation \<Rightarrow> world \<Rightarrow> world list" where
  "reload_and_verify now an oid a w =
     (let r = an_reply an; i = an_ident an; ev = [(''reload'', EvReload r)];
          ev' = ev @ [(''resident'', EvResident (fst i) (fst (snd i)) (snd (snd i)))]
      in if loaded_status (rp_status r) then
           (if is_target i a then [cas now oid Reloading Active (plain\<lparr> ca_patch := ev' \<rparr>) w]
            else [cas now oid Reloading Reloading
              \<lparr> ca_code = Some ''verify_pending'',
                 ca_error = ''agent reports '' @ str_opt (fst i) @ ''@'' @ str_opt (fst (snd i)) @ '', not the target yet'',
                 ca_patch = ev', ca_bump = True \<rparr> w])
         else if rp_status r = ''verify_failed'' then
           [maybe_degrade now oid a ''verify_failed''
              (if rp_error r = [] then ''target verification failed'' else rp_error r) ev w]
         else if rp_unresolvable r then
           (let w' = cas now oid Reloading RollingBack
                 \<lparr> ca_code = Some ''unresolvable'', ca_error = rp_reason r, ca_patch = ev, ca_bump = False \<rparr> w
            in w' # (case map_of (wo_table w') oid of None \<Rightarrow> [] | Some a' \<Rightarrow>
                 if ac_state a' = RollingBack then roll_back now an oid a' w' else []))
         else [maybe_degrade now oid a (if rp_status r = ''unreachable'' then ''unreachable'' else ''deferred'') (rp_reason r) ev w])"

text \<open>\<open>run\<close>: each branch reads the record again; the worlds of a pass, the first being the one it starts in.\<close>

definition on_state :: "astate \<Rightarrow> (activation \<Rightarrow> world \<Rightarrow> world list) \<Rightarrow> string \<Rightarrow> world \<Rightarrow> world list" where
  "on_state s f oid w = (case map_of (wo_table w) oid of None \<Rightarrow> [] | Some a \<Rightarrow> if ac_state a = s then f a w else [])"

definition run_branches :: "rat \<Rightarrow> answers \<Rightarrow> string \<Rightarrow> (world \<Rightarrow> world list) list" where
  "run_branches now an oid =
     [on_state Prepared (commit_pointer now an oid) oid, on_state Committing (\<lambda>a. advance_to_reloading now oid) oid,
      on_state Reloading (reload_and_verify now an oid) oid, on_state RollingBack (roll_back now an oid) oid]"

fun chain :: "(world \<Rightarrow> world list) list \<Rightarrow> world \<Rightarrow> world list" where
  "chain [] w = [w]"
| "chain (f # fs) w = butlast (w # f w) @ chain fs (last (w # f w))"

definition run_trace :: "rat \<Rightarrow> answers \<Rightarrow> string \<Rightarrow> world \<Rightarrow> world list" where
  "run_trace now an oid w = chain (run_branches now an oid) w"

definition run :: "rat \<Rightarrow> answers \<Rightarrow> string \<Rightarrow> world \<Rightarrow> act_error + world" where
  "run now an oid w =
     (if map_of (wo_table w) oid = None then Inl NoSuchOperation else Inr (last (run_trace now an oid w)))"

text \<open>\<open>reconcile_all\<close>: every resumable operation, oldest first, with the confirmation its submit stored;
  how many were resumed and how many ended.\<close>

definition needs_preempt :: "activation \<Rightarrow> bool" where
  "needs_preempt a = (map_of (ac_evidence a) ''requires_preemption'' = Some (EvBool True))"

definition reconcile_one :: "rat \<Rightarrow> (string \<Rightarrow> bool \<Rightarrow> answers) \<Rightarrow> string \<times> activation \<Rightarrow> (nat \<times> nat) \<times> world \<Rightarrow> (nat \<times> nat) \<times> world" where
  "reconcile_one now an r s =
     (case run now (an (fst r) (needs_preempt (snd r))) (fst r) (snd s) of
        Inl _ \<Rightarrow> ((fst (fst s) + 1, snd (fst s)), snd s)
      | Inr w \<Rightarrow> ((fst (fst s) + 1,
           snd (fst s) + (case state_of (fst r) w of None \<Rightarrow> 0 | Some q \<Rightarrow> if non_terminal q then 0 else 1)), w))"

definition reconcile_all :: "rat \<Rightarrow> (string \<Rightarrow> bool \<Rightarrow> answers) \<Rightarrow> world \<Rightarrow> (nat \<times> nat) \<times> world" where
  "reconcile_all now an w = fold (reconcile_one now an) (list_resumable (wo_table w)) ((0, 0), w)"

definition pending_count :: "world \<Rightarrow> nat" where
  "pending_count w = length (list_resumable (wo_table w))"

text \<open>\<open>_untracked\<close>: the single-shot sequence when there is no durable store; what it leaves in the pointer,
  and whether it rolled back.\<close>

definition untracked :: "answers \<Rightarrow> string \<Rightarrow> (string \<times> string option) option \<Rightarrow> world \<Rightarrow> bool option \<times> world" where
  "untracked an name prior w =
     (if an_set an \<noteq> None then (None, w)
      else let w1 = w\<lparr> wo_pointer := Some name \<rparr>
        in if rp_unresolvable (an_reply an)
           then (if an_restore an = None then (Some True, w1\<lparr> wo_pointer := restored_pointer (map_option fst prior) \<rparr>) else (Some False, w1))
           else (None, w1))"

text \<open>\<open>read_model\<close>'s \<open>consistent\<close>.\<close>

definition consistent :: "string option \<times> string option \<times> bool \<Rightarrow> world \<Rightarrow> bool" where
  "consistent ident w =
     (let op = current_activation (wo_table w);
          model = (case wo_pointer w of Some m \<Rightarrow> Some m | None \<Rightarrow> map_option (ac_model \<circ> snd) op);
          version = (case op of None \<Rightarrow> None | Some (_, a) \<Rightarrow> if Some (ac_model a) = model then Some (ac_version a) else None)
      in model \<noteq> None \<and> model \<noteq> Some [] \<and> model = fst ident \<and>
         (case op of None \<Rightarrow> True | Some (_, a) \<Rightarrow> ac_state a = Active) \<and>
         (case version of None \<Rightarrow> True | Some v \<Rightarrow> str_opt (fst (snd ident)) = v))"

section \<open>The machine: submissions and passes, each cut anywhere\<close>

datatype aevent =
    Submit rat string string string string "(string \<times> string option) option" "string option" bool
  | Pass rat answers string nat

definition act_step :: "aevent \<Rightarrow> world \<Rightarrow> world option" where
  "act_step e w = (case e of
     Submit now oid actor name version prior key preempt \<Rightarrow>
       (case submit now oid actor name version prior key preempt w of Inl _ \<Rightarrow> None | Inr (_, w') \<Rightarrow> Some w')
   | Pass now an oid k \<Rightarrow>
       (if map_of (wo_table w) oid = None \<or> length (run_trace now an oid w) \<le> k then None
        else Some (run_trace now an oid w ! k)))"

section \<open>One durable effect\<close>

text \<open>
  What each effect of a pass may do, as the state machine of \<open>gateway/app/activation.py\<close> documents it:
  \<open>move\<close> rewrites the operation's row, the other two rules the pointer.
\<close>

definition move :: "rat \<Rightarrow> string \<Rightarrow> astate \<Rightarrow> cas_args \<Rightarrow> world \<Rightarrow> world" where
  "move now oid new x w = w\<lparr> wo_table := dict_upd oid (cas_row now new x) (wo_table w) \<rparr>"

inductive effect :: "rat \<Rightarrow> answers \<Rightarrow> string \<Rightarrow> world \<Rightarrow> world \<Rightarrow> bool" for now an oid where
  set_pointer: "map_of (wo_table w) oid = Some a \<Longrightarrow> ac_state a = Prepared \<Longrightarrow>
     effect now an oid w (w\<lparr> wo_pointer := Some (ac_model a) \<rparr>)"
| committed: "map_of (wo_table w) oid = Some a \<Longrightarrow> ac_state a = Prepared \<Longrightarrow> wo_pointer w = Some (ac_model a) \<Longrightarrow>
     effect now an oid w (move now oid Committing x w)"
| advanced: "map_of (wo_table w) oid = Some a \<Longrightarrow> ac_state a = Committing \<Longrightarrow>
     effect now an oid w (move now oid Reloading x w)"
| retried: "map_of (wo_table w) oid = Some a \<Longrightarrow> ac_state a = Prepared \<or> ac_state a = Reloading \<Longrightarrow> ca_bump x \<Longrightarrow>
     effect now an oid w (move now oid (ac_state a) x w)"
| verified: "map_of (wo_table w) oid = Some a \<Longrightarrow> ac_state a = Reloading \<Longrightarrow> is_target (an_ident an) a \<Longrightarrow>
     loaded_status (rp_status (an_reply an)) \<Longrightarrow> effect now an oid w (move now oid Active x w)"
| gave_up: "map_of (wo_table w) oid = Some a \<Longrightarrow> ac_state a = Reloading \<Longrightarrow> ac_attempts a + 1 \<ge> MAX_ATTEMPTS \<Longrightarrow>
     ca_bump x \<Longrightarrow> effect now an oid w (move now oid Degraded x w)"
| refused: "map_of (wo_table w) oid = Some a \<Longrightarrow> ac_state a = Reloading \<Longrightarrow> rp_unresolvable (an_reply an) \<Longrightarrow>
     effect now an oid w (move now oid RollingBack x w)"
| restored: "map_of (wo_table w) oid = Some a \<Longrightarrow> ac_state a = RollingBack \<Longrightarrow>
     effect now an oid w (w\<lparr> wo_pointer := prior_model a \<rparr>)"
| rolled_back: "map_of (wo_table w) oid = Some a \<Longrightarrow> ac_state a = RollingBack \<Longrightarrow> wo_pointer w = prior_model a \<Longrightarrow>
     effect now an oid w (move now oid RolledBack x w)"
| double_fault: "map_of (wo_table w) oid = Some a \<Longrightarrow> ac_state a = RollingBack \<Longrightarrow> an_restore an \<noteq> None \<Longrightarrow>
     effect now an oid w (move now oid Degraded x w)"

text \<open>At most one operation is in flight.\<close>

definition one_in_flight :: "activations \<Rightarrow> bool" where
  "one_in_flight t = (distinct (dkeys t) \<and>
     (\<forall>(i, a) \<in> set t. \<forall>(j, b) \<in> set t. non_terminal (ac_state a) \<and> non_terminal (ac_state b) \<longrightarrow> i = j))"

definition pointer_ok :: "string option \<Rightarrow> activation \<Rightarrow> bool" where
  "pointer_ok p a = (case ac_state a of
      Committing \<Rightarrow> p = Some (ac_model a)
    | Reloading \<Rightarrow> p = Some (ac_model a)
    | RollingBack \<Rightarrow> p = Some (ac_model a) \<or> p = prior_model a
    | _ \<Rightarrow> True)"

definition act_inv :: "world \<Rightarrow> bool" where
  "act_inv w = (one_in_flight (wo_table w) \<and> (\<forall>(i, a) \<in> set (wo_table w). pointer_ok (wo_pointer w) a))"

lemma one_in_flight_lookup:
  "one_in_flight t \<Longrightarrow> map_of t i = Some a \<Longrightarrow> map_of t j = Some b \<Longrightarrow> non_terminal (ac_state a)
    \<Longrightarrow> non_terminal (ac_state b) \<Longrightarrow> i = j"
  unfolding one_in_flight_def by (blast dest: map_of_SomeD)

lemma one_in_flightI:
  assumes d: "distinct (dkeys t)"
    and h: "\<And>i a j b. map_of t i = Some a \<Longrightarrow> map_of t j = Some b \<Longrightarrow> non_terminal (ac_state a)
      \<Longrightarrow> non_terminal (ac_state b) \<Longrightarrow> i = j"
  shows "one_in_flight t"
  unfolding one_in_flight_def using d by (auto dest!: map_of_is_SomeI[OF d] intro: h)

lemma act_inv_lookup: "act_inv w \<Longrightarrow> map_of (wo_table w) i = Some a \<Longrightarrow> pointer_ok (wo_pointer w) a"
  unfolding act_inv_def by (blast dest: map_of_SomeD)

lemma act_invI:
  "one_in_flight (wo_table w) \<Longrightarrow> (\<And>i a. map_of (wo_table w) i = Some a \<Longrightarrow> pointer_ok (wo_pointer w) a) \<Longrightarrow> act_inv w"
  unfolding act_inv_def by (rule conjI, assumption, rule dict_ballI) (simp_all add: one_in_flight_def)

lemma not_busy:
  assumes "one_in_flight t" and "map_of t oid = Some a" and "non_terminal (ac_state a)"
  shows "\<not> busy_with_other oid t"
proof
  assume "busy_with_other oid t"
  then obtain i b where b: "(i, b) \<in> set t" "i \<noteq> oid" "non_terminal (ac_state b)"
    by (auto simp: busy_with_other_def list_ex_iff)
  have "map_of t i = Some b" using assms(1) b(1) by (simp add: one_in_flight_def)
  with one_in_flight_lookup[OF assms(1) _ assms(2) b(3) assms(3)] b(2) show False by blast
qed

lemma cas_moves:
  assumes "one_in_flight (wo_table w)" and "map_of (wo_table w) oid = Some a" and "ac_state a = st" and "non_terminal st"
  shows "cas now oid st new x w = move now oid new x w"
  using assms not_busy[OF assms(1,2)] by (simp add: cas_def cas_activation_def move_def)

lemma map_of_move: "map_of (wo_table (move now oid new x w)) i =
    (if i = oid then map_option (cas_row now new x) (map_of (wo_table w) oid) else map_of (wo_table w) i)"
  by (simp add: move_def map_of_dict_upd)

lemma move_pointer [simp]: "wo_pointer (move now oid new x w) = wo_pointer w"
  by (simp add: move_def)

lemma cas_row_simps [simp]:
  "ac_state (cas_row now new x a) = new" "ac_model (cas_row now new x a) = ac_model a"
  "ac_version (cas_row now new x a) = ac_version a" "ac_key (cas_row now new x a) = ac_key a"
  "prior_model (cas_row now new x a) = prior_model a"
  "ac_attempts (cas_row now new x a) = ac_attempts a + (if ca_bump x then 1 else 0)"
  by (simp_all add: cas_row_def prior_model_def)

lemma one_in_flight_move:
  assumes o: "one_in_flight (wo_table w)" and r: "map_of (wo_table w) oid = Some a" and n: "non_terminal (ac_state a)"
  shows "one_in_flight (wo_table (move now oid new x w))"
proof (rule one_in_flightI)
  show "distinct (dkeys (wo_table (move now oid new x w)))"
    using o by (simp add: move_def one_in_flight_def)
next
  fix i b j c
  assume i: "map_of (wo_table (move now oid new x w)) i = Some b" "non_terminal (ac_state b)"
    and j: "map_of (wo_table (move now oid new x w)) j = Some c" "non_terminal (ac_state c)"
  have only: "k = oid" if "map_of (wo_table (move now oid new x w)) k = Some d" "non_terminal (ac_state d)"
    for k and d :: activation
  proof (rule ccontr)
    assume k: "k \<noteq> oid"
    then have "map_of (wo_table w) k = Some d" using that(1) by (simp add: map_of_move)
    from one_in_flight_lookup[OF o this r that(2) n] k show False by simp
  qed
  show "i = j" using only[OF i] only[OF j] by simp
qed

lemma act_inv_move:
  assumes "act_inv w" and r: "map_of (wo_table w) oid = Some a" and n: "non_terminal (ac_state a)"
    and p: "pointer_ok (wo_pointer w) (cas_row now new x a)"
  shows "act_inv (move now oid new x w)"
proof (rule act_invI)
  show "one_in_flight (wo_table (move now oid new x w))"
    using assms(1) by (intro one_in_flight_move[OF _ r n]) (simp add: act_inv_def)
next
  fix i b
  assume "map_of (wo_table (move now oid new x w)) i = Some b"
  then show "pointer_ok (wo_pointer (move now oid new x w)) b"
    using act_inv_lookup[OF assms(1)] r p by (auto simp: map_of_move split: if_splits)
qed

lemma act_inv_pointer:
  assumes i: "act_inv w" and r: "map_of (wo_table w) oid = Some a" and n: "non_terminal (ac_state a)" and p: "pointer_ok p a"
  shows "act_inv (w\<lparr> wo_pointer := p \<rparr>)"
proof (rule act_invI)
  show "one_in_flight (wo_table (w\<lparr> wo_pointer := p \<rparr>))" using i by (simp add: act_inv_def)
next
  fix j b
  assume j: "map_of (wo_table (w\<lparr> wo_pointer := p \<rparr>)) j = Some b"
  show "pointer_ok (wo_pointer (w\<lparr> wo_pointer := p \<rparr>)) b"
  proof (cases "non_terminal (ac_state b)")
    case True
    then have "j = oid" using one_in_flight_lookup[of "wo_table w" j b oid a] i r n j by (simp add: act_inv_def)
    then show ?thesis using r j p by simp
  next
    case False
    then show ?thesis by (auto simp: pointer_ok_def non_terminal_def split: astate.splits)
  qed
qed

lemma effect_inv: "effect now an oid w w' \<Longrightarrow> act_inv w \<Longrightarrow> act_inv w'"
proof (induction rule: effect.induct)
qed (auto simp: non_terminal_def pointer_ok_def dest: act_inv_lookup
   intro!: act_inv_move act_inv_pointer)

section \<open>A pass is a sequence of effects\<close>

lemma cas_moves_inv:
  "act_inv w \<Longrightarrow> map_of (wo_table w) oid = Some a \<Longrightarrow> ac_state a = st \<Longrightarrow> non_terminal st
    \<Longrightarrow> cas now oid st new x w = move now oid new x w"
  by (rule cas_moves) (simp_all add: act_inv_def)

lemma commit_pointer_effects:
  assumes i: "act_inv w" and r: "map_of (wo_table w) oid = Some a" and st: "ac_state a = Prepared"
  shows "successively (effect now an oid) (w # commit_pointer now an oid a w)"
proof (cases "an_set an")
  case None
  let ?w = "w\<lparr> wo_pointer := Some (ac_model a) \<rparr>"
  have e: "effect now an oid w ?w" by (rule effect.set_pointer[OF r st])
  have "cas now oid Prepared Committing x ?w = move now oid Committing x ?w" for x
    using r st by (intro cas_moves_inv[OF effect_inv[OF e i]]) (simp_all add: non_terminal_def)
  then show ?thesis using None e r st
    by (simp add: commit_pointer_def Let_def effect.committed)
next
  case (Some cls)
  have "cas now oid Prepared Prepared x w = move now oid (ac_state a) x w" for x
    using cas_moves_inv[OF i r st] st by (simp add: non_terminal_def)
  then show ?thesis using Some effect.retried[OF r] st by (simp add: commit_pointer_def)
qed

lemma roll_back_effects:
  assumes i: "act_inv w" and r: "map_of (wo_table w) oid = Some a" and st: "ac_state a = RollingBack"
  shows "successively (effect now an oid) (w # roll_back now an oid a w)"
proof (cases "an_restore an")
  case None
  let ?w = "w\<lparr> wo_pointer := prior_model a \<rparr>"
  have e: "effect now an oid w ?w" by (rule effect.restored[OF r st])
  have "cas now oid RollingBack RolledBack x ?w = move now oid RolledBack x ?w" for x
    using r st by (intro cas_moves_inv[OF effect_inv[OF e i]]) (simp_all add: non_terminal_def)
  then show ?thesis using None e r st
    by (simp add: roll_back_def Let_def effect.rolled_back)
next
  case (Some cls)
  have "cas now oid RollingBack Degraded x w = move now oid Degraded x w" for x
    using cas_moves_inv[OF i r st] st by (simp add: non_terminal_def)
  then show ?thesis using Some r st by (simp add: roll_back_def effect.double_fault)
qed

lemma maybe_degrade_effect:
  assumes i: "act_inv w" and r: "map_of (wo_table w) oid = Some a" and st: "ac_state a = Reloading"
  shows "effect now an oid w (maybe_degrade now oid a code reason ev w)"
proof -
  have "cas now oid Reloading new x w = move now oid new x w" for new x
    using cas_moves_inv[OF i r st] by (simp add: non_terminal_def)
  then show ?thesis using st effect.gave_up[OF r st] effect.retried[OF r]
    by (simp add: maybe_degrade_def)
qed

lemma reload_effects:
  assumes i: "act_inv w" and r: "map_of (wo_table w) oid = Some a" and st: "ac_state a = Reloading"
  shows "successively (effect now an oid) (w # reload_and_verify now an oid a w)"
proof -
  have c: "cas now oid Reloading new x w = move now oid new x w" for new x
    using cas_moves_inv[OF i r st] by (simp add: non_terminal_def)
  consider (loaded) "loaded_status (rp_status (an_reply an))"
    | (refused) "\<not> loaded_status (rp_status (an_reply an))" "rp_status (an_reply an) \<noteq> ''verify_failed''" "rp_unresolvable (an_reply an)"
    | (other) "\<not> loaded_status (rp_status (an_reply an))" "rp_status (an_reply an) = ''verify_failed'' \<or> \<not> rp_unresolvable (an_reply an)"
    by blast
  then show ?thesis
  proof cases
    case loaded
    then show ?thesis using effect.verified[OF r st] effect.retried[OF r] st
      by (simp add: reload_and_verify_def Let_def c)
  next
    case refused
    define x where "x = \<lparr> ca_code = Some ''unresolvable'', ca_error = rp_reason (an_reply an),
      ca_patch = [(''reload'', EvReload (an_reply an))], ca_bump = False \<rparr>"
    let ?w = "move now oid RollingBack x w"
    have e: "effect now an oid w ?w" by (rule effect.refused[OF r st refused(3)])
    have r': "map_of (wo_table ?w) oid = Some (cas_row now RollingBack x a)" using r by (simp add: map_of_move)
    have "successively (effect now an oid) (?w # roll_back now an oid (cas_row now RollingBack x a) ?w)"
      by (rule roll_back_effects[OF effect_inv[OF e i] r']) simp
    then show ?thesis using refused e r' by (simp add: reload_and_verify_def Let_def c x_def[symmetric])
  next
    case other
    then show ?thesis using maybe_degrade_effect[OF i r st]
      by (auto simp: reload_and_verify_def Let_def)
  qed
qed

lemma branch_effects:
  assumes "f \<in> set (run_branches now an oid)" and "act_inv w"
  shows "successively (effect now an oid) (w # f w)"
proof -
  have adv: "successively (effect now an oid) (w # advance_to_reloading now oid w)"
    if "map_of (wo_table w) oid = Some a" "ac_state a = Committing" for a
    using cas_moves_inv[OF assms(2) that] effect.advanced[OF that]
    by (simp add: advance_to_reloading_def non_terminal_def)
  show ?thesis using assms(1) commit_pointer_effects[OF assms(2)] adv reload_effects[OF assms(2)] roll_back_effects[OF assms(2)]
    by (auto simp: run_branches_def on_state_def split: option.splits)
qed

lemma effects_inv: "successively (effect now an oid) (w # ws) \<Longrightarrow> act_inv w \<Longrightarrow> v \<in> set (w # ws) \<Longrightarrow> act_inv v"
proof (induction ws arbitrary: w)
  case (Cons u ws)
  then have "act_inv u" using effect_inv by auto
  with Cons show ?case by auto
qed simp

lemma chain_starts: "chain fs w = w # tl (chain fs w)"
proof (induction fs arbitrary: w)
  case (Cons f fs)
  show ?case by (cases "f w") (simp_all add: Cons.IH[symmetric])
qed simp

lemma chain_step: "chain (f # fs) w = (w # f w) @ tl (chain fs (last (w # f w)))"
proof -
  have "butlast (w # f w) @ chain fs (last (w # f w)) = butlast (w # f w) @ last (w # f w) # tl (chain fs (last (w # f w)))"
    using chain_starts[of fs "last (w # f w)"] by simp
  also have "\<dots> = (w # f w) @ tl (chain fs (last (w # f w)))"
    using append_butlast_last_id[of "w # f w"] by (simp del: butlast.simps last.simps)
  finally show ?thesis by simp
qed

lemma successively_join:
  "successively P xs \<Longrightarrow> xs \<noteq> [] \<Longrightarrow> successively P (last xs # ys) \<Longrightarrow> successively P (xs @ ys)"
  by (auto simp: successively_append_iff successively_Cons)

lemma chain_effects:
  "(\<And>f v. f \<in> set fs \<Longrightarrow> act_inv v \<Longrightarrow> successively (effect now an oid) (v # f v)) \<Longrightarrow> act_inv w
    \<Longrightarrow> successively (effect now an oid) (chain fs w)"
proof (induction fs arbitrary: w)
  case (Cons f fs)
  let ?v = "last (w # f w)"
  have s: "successively (effect now an oid) (w # f w)" using Cons.prems by simp
  have "act_inv ?v" by (rule effects_inv[OF s Cons.prems(2)]) (rule last_in_set, simp)
  then have "successively (effect now an oid) (chain fs ?v)" using Cons by simp
  then have "successively (effect now an oid) (?v # tl (chain fs ?v))" by (simp only: chain_starts[symmetric])
  with s show ?case unfolding chain_step by (intro successively_join) simp_all
qed simp

lemma run_trace_effects: "act_inv w \<Longrightarrow> successively (effect now an oid) (run_trace now an oid w)"
  unfolding run_trace_def by (rule chain_effects) (rule branch_effects)

lemma run_trace_inv: "act_inv w \<Longrightarrow> v \<in> set (run_trace now an oid w) \<Longrightarrow> act_inv v"
  using effects_inv[of now an oid w "tl (run_trace now an oid w)"] run_trace_effects[of w now an oid]
    chain_starts[of "run_branches now an oid" w]
  unfolding run_trace_def by simp

section \<open>Submission\<close>

lemma create_activation_cases:
  assumes "create_activation now oid key actor model version pm pv ev t = Inr t'"
  obtains a where "t' = t @ [(oid, a)]" "map_of t oid = None" "\<not> busy_with_other oid t" "ac_state a = Prepared"
    "ac_model a = model" "ac_version a = version" "ac_key a = key" "model \<noteq> []"
  using assms by (auto simp: create_activation_def split: if_splits)

lemma act_inv_create:
  assumes i: "act_inv w" and c: "create_activation now oid key actor model version pm pv ev (wo_table w) = Inr t'"
  shows "act_inv (w\<lparr> wo_table := t' \<rparr>)"
proof -
  obtain a where t: "t' = wo_table w @ [(oid, a)]" "map_of (wo_table w) oid = None" "\<not> busy_with_other oid (wo_table w)"
    and a: "ac_state a = Prepared" by (rule create_activation_cases[OF c])
  have idle: "\<not> non_terminal (ac_state b)" if "(j, b) \<in> set (wo_table w)" for j b
  proof -
    have "j \<noteq> oid" using t(2) weak_map_of_SomeI[OF that] by auto
    with t(3) that show ?thesis by (auto simp: busy_with_other_def list_ex_iff)
  qed
  have "one_in_flight t'" using i t idle
    by (auto simp: act_inv_def one_in_flight_def map_of_eq_None_iff)
  moreover have "pointer_ok (wo_pointer w) a" using a by (simp add: pointer_ok_def)
  ultimately show ?thesis using i t(1) by (auto simp: act_inv_def)
qed

lemma submit_cases:
  assumes "submit now oid actor name version prior key preempt w = Inr (i, w')"
  obtains (joined) a where "w' = w" "find_by_key (submit_key name version key) (wo_table w) = Some (i, a)"
      "non_terminal (ac_state a)" "ac_model a = name" "ac_version a = version"
  | (created) pm pv ev t where "i = oid"
      "create_activation now oid (submit_key name version key) actor name version pm pv ev (wo_table w) = Inr t"
      "w' = w\<lparr> wo_table := t \<rparr>"
proof (cases "\<exists>j a. find_by_key (submit_key name version key) (wo_table w) = Some (j, a) \<and> non_terminal (ac_state a)")
  case True
  then obtain j a where f: "find_by_key (submit_key name version key) (wo_table w) = Some (j, a)" "non_terminal (ac_state a)"
    by blast
  show ?thesis
  proof (rule joined)
    show "w' = w" "find_by_key (submit_key name version key) (wo_table w) = Some (i, a)" "non_terminal (ac_state a)"
      "ac_model a = name" "ac_version a = version"
      using assms f by (simp_all add: submit_def Let_def split: if_splits)
  qed
next
  case False
  then have "submit now oid actor name version prior key preempt w =
      (case create_activation now oid (submit_key name version key) actor name version (fst (prior_args prior)) (snd (prior_args prior))
         [(''submitted_at'', EvTime now), (''requires_preemption'', EvBool preempt)] (wo_table w) of
       Inl e \<Rightarrow> Inl e | Inr t \<Rightarrow> Inr (oid, w\<lparr> wo_table := t \<rparr>))"
    unfolding submit_def Let_def
    by (cases "find_by_key (submit_key name version key) (wo_table w)") auto
  then show ?thesis using assms by (auto split: sum.splits intro: created)
qed

lemma act_step_inv: "act_inv w \<Longrightarrow> act_step e w = Some w' \<Longrightarrow> act_inv w'"
proof (cases e)
  case (Submit now oid actor name version prior key preempt)
  assume i: "act_inv w" and s: "act_step e w = Some w'"
  then obtain j where j: "submit now oid actor name version prior key preempt w = Inr (j, w')"
    using Submit by (auto simp: act_step_def split: sum.splits)
  show "act_inv w'" using i act_inv_create[OF i] by (cases rule: submit_cases[OF j]) simp_all
next
  case (Pass now an oid k)
  assume i: "act_inv w" and s: "act_step e w = Some w'"
  then show "act_inv w'" using Pass
    by (auto simp: act_step_def not_le split: if_splits intro: run_trace_inv[OF i] nth_mem)
qed

interpretation activation: machine act_step "\<lambda>_ _. True" act_inv
  by unfold_locales (rule act_step_inv)

lemma act_inv_empty: "act_inv \<lparr> wo_table = [], wo_pointer = p \<rparr>"
  by (simp add: act_inv_def one_in_flight_def)

lemma reachable_act_inv: "run_events act_step es \<lparr> wo_table = [], wo_pointer = p \<rparr> = Some w \<Longrightarrow> act_inv w"
  by (rule activation.run_inv[OF _ act_inv_empty]) simp_all

section \<open>A pass, state by state\<close>

abbreviation pass :: "rat \<Rightarrow> answers \<Rightarrow> string \<Rightarrow> world \<Rightarrow> world" where
  "pass now an oid w \<equiv> last (run_trace now an oid w)"

lemma chain_skip: "f w = [] \<Longrightarrow> chain (f # fs) w = chain fs w"
  by simp

lemma on_state_skip: "state_of oid w \<noteq> Some s \<Longrightarrow> on_state s f oid w = []"
  by (auto simp: on_state_def state_of_def split: option.splits)

lemma on_state_run: "map_of (wo_table w) oid = Some a \<Longrightarrow> ac_state a = s \<Longrightarrow> on_state s f oid w = f a w"
  by (simp add: on_state_def)

lemma state_of_move: "map_of (wo_table w) oid = Some a \<Longrightarrow> state_of oid (move now oid new x w) = Some new"
  by (simp add: state_of_def map_of_move)

lemma trace_terminal:
  "map_of (wo_table w) oid = Some a \<Longrightarrow> \<not> non_terminal (ac_state a) \<Longrightarrow> run_trace now an oid w = [w]"
  unfolding run_trace_def run_branches_def
  by (simp add: on_state_def non_terminal_def)

lemma trace_rolling_back:
  "map_of (wo_table w) oid = Some a \<Longrightarrow> ac_state a = RollingBack \<Longrightarrow> run_trace now an oid w = w # roll_back now an oid a w"
  unfolding run_trace_def run_branches_def
  by (simp add: on_state_def)

lemma roll_back_last:
  assumes i: "act_inv w" and r: "map_of (wo_table w) oid = Some a" and st: "ac_state a = RollingBack"
  shows "\<exists>s. state_of oid (last (w # roll_back now an oid a w)) = Some s \<and> \<not> non_terminal s \<and> s \<noteq> Active"
proof (cases "an_restore an")
  case None
  let ?w = "w\<lparr> wo_pointer := prior_model a \<rparr>"
  have "cas now oid RollingBack RolledBack x ?w = move now oid RolledBack x ?w" for x
    using r st by (intro cas_moves_inv[OF effect_inv[OF effect.restored[OF r st] i]]) (simp_all add: non_terminal_def)
  then show ?thesis using None r
    by (simp add: roll_back_def Let_def state_of_move non_terminal_def)
next
  case (Some cls)
  have "cas now oid RollingBack Degraded x w = move now oid Degraded x w" for x
    using cas_moves_inv[OF i r st] st by (simp add: non_terminal_def)
  then show ?thesis using Some r by (simp add: roll_back_def state_of_move non_terminal_def)
qed

lemma cas_reloading:
  "act_inv w \<Longrightarrow> map_of (wo_table w) oid = Some a \<Longrightarrow> ac_state a = Reloading
    \<Longrightarrow> cas now oid Reloading new x w = move now oid new x w"
  using cas_moves_inv[of w oid a Reloading] by (simp add: non_terminal_def)

lemma maybe_degrade_row:
  assumes i: "act_inv w" and r: "map_of (wo_table w) oid = Some a" and st: "ac_state a = Reloading"
  shows "\<exists>x. ca_bump x \<and> maybe_degrade now oid a code reason ev w =
    move now oid (if ac_attempts a + 1 \<ge> MAX_ATTEMPTS then Degraded else Reloading) x w"
  using st by (intro exI[of _ "\<lparr> ca_code = Some code,
      ca_error = (if ac_attempts a + 1 \<ge> MAX_ATTEMPTS
        then take 400 (reason @ '' (after '' @ str_nat (ac_attempts a + 1) @ '' attempts)'') else take 400 reason),
      ca_patch = ev, ca_bump = True \<rparr>"]) (simp add: maybe_degrade_def cas_reloading[OF i r st])

lemma reload_last:
  assumes i: "act_inv w" and r: "map_of (wo_table w) oid = Some a" and st: "ac_state a = Reloading"
  shows "state_of oid (last (w # reload_and_verify now an oid a w)) \<noteq> Some RollingBack"
proof -
  note c = cas_reloading[OF i r st]
  have d: "state_of oid (maybe_degrade now oid a code reason ev w) \<noteq> Some RollingBack" for code reason ev
  proof -
    obtain x where "maybe_degrade now oid a code reason ev w =
        move now oid (if ac_attempts a + 1 \<ge> MAX_ATTEMPTS then Degraded else Reloading) x w"
      using maybe_degrade_row[OF i r st] by blast
    then show ?thesis by (simp add: state_of_move[OF r])
  qed
  have b: "state_of oid (last (move now oid RollingBack x w # roll_back now an oid (cas_row now RollingBack x a) (move now oid RollingBack x w)))
      \<noteq> Some RollingBack" if "rp_unresolvable (an_reply an)" for x
  proof -
    have r': "map_of (wo_table (move now oid RollingBack x w)) oid = Some (cas_row now RollingBack x a)" using r by (simp add: map_of_move)
    show ?thesis
      using roll_back_last[OF effect_inv[OF effect.refused[OF r st that] i] r', of now an]
      by (auto simp: non_terminal_def simp del: last.simps)
  qed
  show ?thesis using d b
    by (simp add: reload_and_verify_def Let_def c state_of_move[OF r] map_of_move r del: last.simps) (simp add: state_of_move[OF r])
qed

lemma trace_reloading:
  assumes i: "act_inv w" and r: "map_of (wo_table w) oid = Some a" and st: "ac_state a = Reloading"
  shows "run_trace now an oid w = w # reload_and_verify now an oid a w"
proof -
  let ?l = "last (w # reload_and_verify now an oid a w)"
  have "run_trace now an oid w = chain [on_state Reloading (reload_and_verify now an oid) oid, on_state RollingBack (roll_back now an oid) oid] w"
    using r st unfolding run_trace_def run_branches_def by (simp add: on_state_def)
  also have "\<dots> = (w # reload_and_verify now an oid a w) @ tl (chain [on_state RollingBack (roll_back now an oid) oid] ?l)"
    unfolding chain_step[of "on_state Reloading (reload_and_verify now an oid) oid"] on_state_run[OF r st] ..
  also have "chain [on_state RollingBack (roll_back now an oid) oid] ?l = [?l]"
    using chain_skip[where fs = "[]" and f = "on_state RollingBack (roll_back now an oid) oid", OF on_state_skip[OF reload_last[OF i r st]]] by (simp only: chain.simps(1))
  finally show ?thesis by simp
qed

lemma trace_committing:
  assumes i: "act_inv w" and r: "map_of (wo_table w) oid = Some a" and st: "ac_state a = Committing"
  shows "run_trace now an oid w = w # run_trace now an oid (move now oid Reloading plain w)"
proof -
  let ?u = "move now oid Reloading plain w"
  have c: "cas now oid Committing Reloading plain w = ?u"
    using cas_moves_inv[OF i r st] by (simp add: non_terminal_def)
  have ru: "map_of (wo_table ?u) oid = Some (cas_row now Reloading plain a)" using r by (simp add: map_of_move)
  show ?thesis
    using r st ru unfolding run_trace_def run_branches_def
    by (simp add: on_state_run[OF r st] advance_to_reloading_def c on_state_skip state_of_def)
qed

lemma trace_prepared:
  assumes i: "act_inv w" and r: "map_of (wo_table w) oid = Some a" and st: "ac_state a = Prepared" and s: "an_set an = None"
  obtains x where "run_trace now an oid w = w # w\<lparr> wo_pointer := Some (ac_model a) \<rparr>
      # run_trace now an oid (move now oid Committing x (w\<lparr> wo_pointer := Some (ac_model a) \<rparr>))"
    and "\<not> ca_bump x" and "x = plain\<lparr> ca_patch := [(''pointer_set'', EvText (ac_model a))] \<rparr>"
proof -
  let ?w = "w\<lparr> wo_pointer := Some (ac_model a) \<rparr>"
  define x where "x = plain\<lparr> ca_patch := [(''pointer_set'', EvText (ac_model a))] \<rparr>"
  let ?u = "move now oid Committing x ?w"
  have c: "cas now oid Prepared Committing x ?w = ?u"
    using r st by (intro cas_moves_inv[OF effect_inv[OF effect.set_pointer[OF r st] i]]) (simp_all add: non_terminal_def)
  have ru: "map_of (wo_table ?u) oid = Some (cas_row now Committing x a)" using r by (simp add: map_of_move)
  have "run_trace now an oid w = w # ?w # run_trace now an oid ?u"
    using r st s ru unfolding run_trace_def run_branches_def
    by (simp add: on_state_run[OF r st] commit_pointer_def Let_def c x_def[symmetric] on_state_skip state_of_def)
  then show thesis by (rule that) (simp_all add: x_def plain_def)
qed

lemma trace_prepared_failing:
  assumes i: "act_inv w" and r: "map_of (wo_table w) oid = Some a" and st: "ac_state a = Prepared" and s: "an_set an \<noteq> None"
  shows "state_of oid (pass now an oid w) = Some Prepared"
proof -
  have c: "cas now oid Prepared Prepared x w = move now oid Prepared x w" for x
    using cas_moves_inv[OF i r st] by (simp add: non_terminal_def)
  show ?thesis using r st s unfolding run_trace_def run_branches_def
    by (auto simp: on_state_run[OF r st] commit_pointer_def c on_state_skip state_of_move[OF r])
qed

section \<open>What holds of every run\<close>

inductive_cases effectE: "effect now an oid w w'"

lemma effect_in_flight: "effect now an oid w w' \<Longrightarrow> \<exists>a. map_of (wo_table w) oid = Some a \<and> non_terminal (ac_state a)"
  by (erule effectE) (auto simp: non_terminal_def)

lemma effect_other: "effect now an oid w w' \<Longrightarrow> i \<noteq> oid \<Longrightarrow> map_of (wo_table w') i = map_of (wo_table w) i"
  by (erule effectE) (simp_all add: map_of_move)

lemma effect_terminal_kept:
  assumes "effect now an oid w w'" "map_of (wo_table w) i = Some a" "\<not> non_terminal (ac_state a)"
  shows "map_of (wo_table w') i = Some a"
  using effect_in_flight[OF assms(1)] effect_other[OF assms(1), of i] assms(2,3) by (cases "i = oid") auto

lemma trace_hd: "hd (run_trace now an oid w) = w"
  using chain_starts[of "run_branches now an oid" w] unfolding run_trace_def by (metis list.sel(1))

text \<open>A predicate every effect keeps holds of every world of a pass.\<close>

lemma trace_induct:
  assumes i: "act_inv w" and v: "v \<in> set (run_trace now an oid w)" and b: "P w"
    and s: "\<And>u u'. act_inv u \<Longrightarrow> P u \<Longrightarrow> effect now an oid u u' \<Longrightarrow> P u'"
  shows "P v"
proof -
  have "successively (effect now an oid) (u # us) \<Longrightarrow> act_inv u \<Longrightarrow> P u \<Longrightarrow> \<forall>x \<in> set (u # us). P x" for u us
  proof (induction us arbitrary: u)
    case (Cons y us)
    have e: "effect now an oid u y" using Cons.prems(1) by simp
    have "\<forall>x \<in> set (y # us). P x"
      using Cons.IH[of y] Cons.prems(1) effect_inv[OF e Cons.prems(2)] s[OF Cons.prems(2,3) e] by simp
    then show ?case using Cons.prems(3) by simp
  qed simp
  from this[OF _ i b] run_trace_effects[OF i, of now an oid] v show ?thesis
    using chain_starts[of "run_branches now an oid" w] unfolding run_trace_def by metis
qed

text \<open>Who became final in a pass, given where the pass started.\<close>

definition final_ok :: "world \<Rightarrow> answers \<Rightarrow> string \<Rightarrow> world \<Rightarrow> bool" where
  "final_ok w0 an oid w = (\<forall>i a. map_of (wo_table w) i = Some a \<longrightarrow> state_of i w0 \<noteq> Some (ac_state a) \<longrightarrow>
      (ac_state a = Active \<longrightarrow> i = oid \<and> wo_pointer w = Some (ac_model a) \<and> is_target (an_ident an) a \<and>
         loaded_status (rp_status (an_reply an))) \<and>
      (ac_state a = RolledBack \<longrightarrow> i = oid \<and> wo_pointer w = prior_model a))"

lemma is_target_row [simp]: "is_target j (cas_row now new x a) = is_target j a"
  by (simp add: is_target_def)

lemma final_ok_effect:
  assumes i: "act_inv u" and f: "final_ok w0 an oid u" and e: "effect now an oid u u'"
  shows "final_ok w0 an oid u'"
  unfolding final_ok_def
proof (intro allI impI)
  fix j b
  assume b: "map_of (wo_table u') j = Some b" and n: "state_of j w0 \<noteq> Some (ac_state b)"
  let ?G = "(ac_state b = Active \<longrightarrow> j = oid \<and> wo_pointer u' = Some (ac_model b) \<and> is_target (an_ident an) b \<and>
         loaded_status (rp_status (an_reply an))) \<and>
      (ac_state b = RolledBack \<longrightarrow> j = oid \<and> wo_pointer u' = prior_model b)"
  show ?G
  proof (cases "j = oid")
    case False
    then have "map_of (wo_table u) j = Some b" using b effect_other[OF e] by simp
    then show ?thesis using f n False unfolding final_ok_def by blast
  next
    case True
    from e show ?thesis using b True
      by cases (auto simp: map_of_move pointer_ok_def dest: act_inv_lookup[OF i])
  qed
qed

text \<open>Claim C12. On every table that submissions and passes, cut anywhere by crashes, can produce: the worlds
  that are durable one after another during a pass differ by exactly one effect the documented state
  machine allows.\<close>

theorem passes_refine_the_state_machine:
  assumes "run_events act_step es \<lparr> wo_table = [], wo_pointer = p \<rparr> = Some w"
  shows "successively (effect now an oid) (run_trace now an oid w) \<and> hd (run_trace now an oid w) = w"
  using run_trace_effects[OF reachable_act_inv[OF assms]] trace_hd by blast

text \<open>Claim C13. An operation becomes Active only in a pass over itself in which the agent reports the exact
  target, at a moment the pointer names it too; it becomes RolledBack only with the previous pointer back
  in place; this whatever submissions, passes and crashes came before.\<close>

theorem active_only_when_the_authorities_agree:
  assumes "run_events act_step es \<lparr> wo_table = [], wo_pointer = p \<rparr> = Some w"
    and "act_step (Pass now an oid k) w = Some w'"
    and "map_of (wo_table w') i = Some a" and "state_of i w \<noteq> Some (ac_state a)"
  shows "(ac_state a = Active \<longrightarrow> i = oid \<and> wo_pointer w' = Some (ac_model a) \<and>
      fst (an_ident an) = Some (ac_model a) \<and> str_opt (fst (snd (an_ident an))) = ac_version a) \<and>
    (ac_state a = RolledBack \<longrightarrow> i = oid \<and> wo_pointer w' = prior_model a)"
proof -
  have i: "act_inv w" by (rule reachable_act_inv[OF assms(1)])
  have v: "w' \<in> set (run_trace now an oid w)"
    using assms(2) by (auto simp: act_step_def not_le split: if_splits)
  have "final_ok w an oid w" by (auto simp: final_ok_def state_of_def)
  then have "final_ok w an oid w'" by (rule trace_induct[OF i v]) (rule final_ok_effect)
  then show ?thesis using assms(3,4) unfolding final_ok_def is_target_def by blast
qed

lemma submit_kept:
  assumes "submit now oid actor name version prior key preempt w = Inr (i, w')" "map_of (wo_table w) j = Some a"
  shows "map_of (wo_table w') j = Some a"
  using assms(1)
proof (cases rule: submit_cases)
  case (joined b)
  then show ?thesis using assms(2) by simp
next
  case (created pm pv ev t)
  obtain b where "t = wo_table w @ [(oid, b)]" by (rule create_activation_cases[OF created(2)])
  then show ?thesis using assms(2) created(3) by (simp add: map_add_Some_iff)
qed

lemma step_kept:
  assumes i: "act_inv w" and s: "act_step e w = Some w'" and r: "map_of (wo_table w) j = Some a" "\<not> non_terminal (ac_state a)"
  shows "map_of (wo_table w') j = Some a"
proof (cases e)
  case (Submit now oid actor name version prior key preempt)
  then show ?thesis using s r(1) by (auto simp: act_step_def split: sum.splits intro: submit_kept)
next
  case (Pass now an oid k)
  then have v: "w' \<in> set (run_trace now an oid w)" using s by (auto simp: act_step_def not_le split: if_splits)
  show ?thesis using trace_induct[OF i v, of "\<lambda>u. map_of (wo_table u) j = Some a"] r effect_terminal_kept by blast
qed

lemma run_kept:
  "run_events act_step es w = Some w' \<Longrightarrow> act_inv w \<Longrightarrow> map_of (wo_table w) j = Some a \<Longrightarrow> \<not> non_terminal (ac_state a)
    \<Longrightarrow> map_of (wo_table w') j = Some a"
proof (induction es arbitrary: w)
  case (Cons e es)
  obtain u where u: "act_step e w = Some u" "run_events act_step es u = Some w'"
    using Cons.prems(1) by (auto split: option.splits)
  show ?case using Cons.IH[OF u(2) act_step_inv[OF Cons.prems(2) u(1)] step_kept[OF Cons.prems(2) u(1) Cons.prems(3,4)] Cons.prems(4)] .
qed simp

lemma length_le_1:
  assumes "distinct xs" and "\<And>x y. x \<in> set xs \<Longrightarrow> y \<in> set xs \<Longrightarrow> x = y"
  shows "length xs \<le> 1"
proof (cases xs)
  case (Cons x ys)
  then show ?thesis using assms(1) assms(2)[of x "hd ys"] by (cases ys) auto
qed simp

lemma pending_le_1: "act_inv w \<Longrightarrow> pending_count w \<le> 1"
proof -
  assume i: "act_inv w"
  let ?f = "filter (\<lambda>(i, a). non_terminal (ac_state a)) (wo_table w)"
  have d: "distinct (dkeys (wo_table w))" using i by (simp add: act_inv_def one_in_flight_def)
  have "length ?f \<le> 1"
  proof (rule length_le_1)
    show "distinct ?f" using d by (simp add: distinct_map)
  next
    fix x y
    assume x: "x \<in> set ?f" and y: "y \<in> set ?f"
    obtain i a j b where xy: "x = (i, a)" "y = (j, b)" by (cases x, cases y) auto
    have "i = j" using i x y xy by (auto simp: act_inv_def one_in_flight_def)
    then show "x = y" using d x y xy map_of_is_SomeI[OF d, of i a] map_of_is_SomeI[OF d, of j b] by auto
  qed
  then show ?thesis by (simp add: pending_count_def list_resumable_def)
qed

text \<open>A finished operation is final: no later submission, pass or crash changes its row; and at
  every moment at most one operation is in flight, so the reconciler's queue never holds two.\<close>

theorem finished_is_final_and_one_in_flight:
  assumes "run_events act_step es \<lparr> wo_table = [], wo_pointer = p \<rparr> = Some w"
    and "run_events act_step es' w = Some w'"
    and "map_of (wo_table w) i = Some a" and "\<not> non_terminal (ac_state a)"
  shows "map_of (wo_table w') i = Some a \<and> pending_count w' \<le> 1"
  using run_kept[OF assms(2) reachable_act_inv[OF assms(1)] assms(3,4)]
    pending_le_1[OF activation.run_inv[OF assms(2) reachable_act_inv[OF assms(1)]]] by simp

section \<open>Crashes and recovery\<close>

lemma pass_terminal:
  "map_of (wo_table w) oid = Some a \<Longrightarrow> \<not> non_terminal (ac_state a) \<Longrightarrow> pass now an oid w = w"
  by (simp add: trace_terminal)

lemma recover_rolling_back:
  assumes i: "act_inv w" and r: "map_of (wo_table w) oid = Some a" and st: "ac_state a = RollingBack"
    and v: "v \<in> set (run_trace now an oid w)"
  shows "pass now an oid v = pass now an oid w"
proof -
  have t: "run_trace now an oid w = w # roll_back now an oid a w" by (rule trace_rolling_back[OF r st])
  obtain s b where fin: "map_of (wo_table (pass now an oid w)) oid = Some b" "\<not> non_terminal (ac_state b)"
    using roll_back_last[OF i r st, of now an] unfolding t by (auto simp: state_of_def simp del: last.simps)
  show ?thesis
  proof (cases "an_restore an")
    case None
    let ?u = "w\<lparr> wo_pointer := prior_model a \<rparr>"
    have ru: "map_of (wo_table ?u) oid = Some a" using r by simp
    have same: "roll_back now an oid a ?u = roll_back now an oid a w" using None by (simp add: roll_back_def Let_def)
    have "v = w \<or> v = ?u \<or> v = pass now an oid w"
      using v unfolding t by (auto simp: roll_back_def None Let_def)
    moreover have "pass now an oid ?u = pass now an oid w"
      unfolding t trace_rolling_back[OF ru st] same by (simp add: roll_back_def None Let_def)
    ultimately show ?thesis using pass_terminal[OF fin] by metis
  next
    case (Some cls)
    then have "v = w \<or> v = pass now an oid w" using v unfolding t by (auto simp: roll_back_def)
    then show ?thesis using pass_terminal[OF fin] by metis
  qed
qed

lemma recover_reloading:
  assumes i: "act_inv w" and r: "map_of (wo_table w) oid = Some a" and st: "ac_state a = Reloading"
    and fin: "map_of (wo_table (pass now an oid w)) oid = Some b" "\<not> non_terminal (ac_state b)"
    and v: "v \<in> set (run_trace now an oid w)"
  shows "pass now an oid v = pass now an oid w"
proof -
  have t: "run_trace now an oid w = w # reload_and_verify now an oid a w" by (rule trace_reloading[OF i r st])
  show ?thesis
  proof (cases "\<not> loaded_status (rp_status (an_reply an)) \<and> rp_status (an_reply an) \<noteq> ''verify_failed'' \<and> rp_unresolvable (an_reply an)")
    case False
    then have "v = w \<or> v = pass now an oid w" using v unfolding t
      by (auto simp: reload_and_verify_def Let_def split: if_splits)
    then show ?thesis using pass_terminal[OF fin] by metis
  next
    case True
    define x where "x = \<lparr> ca_code = Some ''unresolvable'', ca_error = rp_reason (an_reply an),
      ca_patch = [(''reload'', EvReload (an_reply an))], ca_bump = False \<rparr>"
    let ?u = "move now oid RollingBack x w"
    have iu: "act_inv ?u" using True by (intro effect_inv[OF effect.refused[where an = an, OF r st] i]) simp
    have ru: "map_of (wo_table ?u) oid = Some (cas_row now RollingBack x a)" using r by (simp add: map_of_move)
    have su: "ac_state (cas_row now RollingBack x a) = RollingBack" by simp
    have "reload_and_verify now an oid a w = run_trace now an oid ?u"
      unfolding trace_rolling_back[OF ru su] using True ru cas_reloading[OF i r st]
      by (simp add: reload_and_verify_def Let_def x_def[symmetric])
    then have t': "run_trace now an oid w = w # run_trace now an oid ?u" using t by simp
    moreover have "run_trace now an oid ?u \<noteq> []" by (simp add: trace_rolling_back[OF ru su])
    ultimately have p: "pass now an oid w = pass now an oid ?u" by simp
    have "v = w \<or> v \<in> set (run_trace now an oid ?u)" using v t' by auto
    then show ?thesis using recover_rolling_back[OF iu ru su] p by metis
  qed
qed

lemma trace_ne: "run_trace now an oid w \<noteq> []"
  using chain_starts[of "run_branches now an oid" w] unfolding run_trace_def by (metis list.discI)

lemma recover_committing:
  assumes i: "act_inv w" and r: "map_of (wo_table w) oid = Some a" and st: "ac_state a = Committing"
    and fin: "map_of (wo_table (pass now an oid w)) oid = Some b" "\<not> non_terminal (ac_state b)"
    and v: "v \<in> set (run_trace now an oid w)"
  shows "pass now an oid v = pass now an oid w"
proof -
  let ?u = "move now oid Reloading plain w"
  have t: "run_trace now an oid w = w # run_trace now an oid ?u" by (rule trace_committing[OF i r st])
  have iu: "act_inv ?u" by (rule effect_inv[OF effect.advanced[OF r st] i])
  have ru: "map_of (wo_table ?u) oid = Some (cas_row now Reloading plain a)" using r by (simp add: map_of_move)
  have p: "pass now an oid w = pass now an oid ?u" using t trace_ne by simp
  have "v = w \<or> v \<in> set (run_trace now an oid ?u)" using v t by auto
  then show ?thesis using recover_reloading[OF iu ru, of now an] fin p by (metis cas_row_simps(1))
qed

lemma recover:
  assumes i: "act_inv w" and r: "map_of (wo_table w) oid = Some a"
    and fin: "map_of (wo_table (pass now an oid w)) oid = Some b" "\<not> non_terminal (ac_state b)"
    and v: "v \<in> set (run_trace now an oid w)"
  shows "pass now an oid v = pass now an oid w"
proof (cases "ac_state a")
  case Prepared
  show ?thesis
  proof (cases "an_set an")
    case None
    let ?w = "w\<lparr> wo_pointer := Some (ac_model a) \<rparr>"
    obtain x where t: "run_trace now an oid w = w # ?w # run_trace now an oid (move now oid Committing x ?w)"
      and xd: "x = plain\<lparr> ca_patch := [(''pointer_set'', EvText (ac_model a))] \<rparr>"
      by (rule trace_prepared[OF i r Prepared None])
    have iw: "act_inv ?w" by (rule effect_inv[OF effect.set_pointer[OF r Prepared] i])
    have rw: "map_of (wo_table ?w) oid = Some a" using r by simp
    obtain y where t2: "run_trace now an oid ?w = ?w # ?w\<lparr> wo_pointer := Some (ac_model a) \<rparr> # run_trace now an oid (move now oid Committing y (?w\<lparr> wo_pointer := Some (ac_model a) \<rparr>))"
      and yd: "y = plain\<lparr> ca_patch := [(''pointer_set'', EvText (ac_model a))] \<rparr>"
      by (rule trace_prepared[OF iw rw Prepared None])
    let ?u = "move now oid Committing x ?w"
    have p: "pass now an oid w = pass now an oid ?u" using t trace_ne by simp
    have p2: "pass now an oid ?w = pass now an oid ?u" using t2 trace_ne xd yd by simp
    have iu: "act_inv ?u" using rw Prepared by (intro effect_inv[OF effect.committed iw]) simp_all
    have ru: "map_of (wo_table ?u) oid = Some (cas_row now Committing x a)" using r by (simp add: map_of_move)
    have "v = w \<or> v = ?w \<or> v \<in> set (run_trace now an oid ?u)" using v t by auto
    then show ?thesis using recover_committing[OF iu ru, of now an] fin p p2 by (metis cas_row_simps(1))
  next
    case (Some cls)
    then have "state_of oid (pass now an oid w) = Some Prepared"
      using trace_prepared_failing[OF i r Prepared] by simp
    then show ?thesis using fin by (simp add: state_of_def non_terminal_def)
  qed
next
  case Committing then show ?thesis using recover_committing[OF i r _ fin v] by simp
next
  case Reloading then show ?thesis using recover_reloading[OF i r _ fin v] by simp
next
  case RollingBack then show ?thesis using recover_rolling_back[OF i r _ v] by simp
qed (use v trace_terminal[OF r] in \<open>simp_all add: non_terminal_def\<close>)

text \<open>Claim C14. Crash recovery: if a pass would finish the operation, then cutting it after any of its
  effects and running it again, with the authorities answering the same, ends in exactly the world the
  uncut pass ends in.\<close>

theorem a_crashed_pass_recovers:
  assumes "run_events act_step es \<lparr> wo_table = [], wo_pointer = p \<rparr> = Some w"
    and "run now an oid w = Inr w'" and "state_of oid w' = Some s" and "\<not> non_terminal s"
    and "k < length (run_trace now an oid w)"
  shows "run now an oid (run_trace now an oid w ! k) = Inr w'"
proof -
  let ?v = "run_trace now an oid w ! k"
  have i: "act_inv w" by (rule reachable_act_inv[OF assms(1)])
  obtain a where r: "map_of (wo_table w) oid = Some a" and w': "w' = pass now an oid w"
    using assms(2) by (auto simp: run_def split: if_splits)
  obtain b where fin: "map_of (wo_table (pass now an oid w)) oid = Some b" "\<not> non_terminal (ac_state b)"
    using assms(3,4) w' by (auto simp: state_of_def)
  have v: "?v \<in> set (run_trace now an oid w)" using assms(5) by simp
  have "map_of (wo_table ?v) oid \<noteq> None"
    by (rule trace_induct[OF i v, of "\<lambda>u. map_of (wo_table u) oid \<noteq> None"])
      (auto simp: r elim!: effectE simp: map_of_move)
  then show ?thesis using recover[OF i r fin v] w' by (auto simp: run_def)
qed

section \<open>How long an operation stays in flight\<close>

definition passes :: "string \<Rightarrow> (rat \<times> answers) list \<Rightarrow> world \<Rightarrow> world" where
  "passes oid ps w = fold (\<lambda>(now, an) w. last (run_trace now an oid w)) ps w"

text \<open>In flight before the agent has answered, with \<open>n\<close> attempts.\<close>

definition waiting :: "string \<Rightarrow> string \<Rightarrow> string \<Rightarrow> nat \<Rightarrow> world \<Rightarrow> bool" where
  "waiting oid m v n w = (case map_of (wo_table w) oid of None \<Rightarrow> False
     | Some a \<Rightarrow> ac_state a \<in> {Prepared, Committing, Reloading} \<and> ac_model a = m \<and> ac_version a = v \<and> ac_attempts a = n)"

definition entered :: "string \<Rightarrow> string \<Rightarrow> string \<Rightarrow> nat \<Rightarrow> world \<Rightarrow> activation \<Rightarrow> bool" where
  "entered oid m v n u a = (act_inv u \<and> map_of (wo_table u) oid = Some a \<and> ac_state a = Reloading \<and> ac_model a = m \<and>
     ac_version a = v \<and> ac_attempts a = n)"

lemma enter_committing:
  assumes i: "act_inv w" and r: "map_of (wo_table w) oid = Some a" and st: "ac_state a = Committing"
  shows "\<exists>u b. entered oid (ac_model a) (ac_version a) (ac_attempts a) u b \<and> pass now an oid w = pass now an oid u"
proof (intro exI conjI)
  let ?u = "move now oid Reloading plain w"
  show "entered oid (ac_model a) (ac_version a) (ac_attempts a) ?u (cas_row now Reloading plain a)"
    using effect_inv[OF effect.advanced[OF r st] i] r by (simp add: entered_def map_of_move plain_def)
  show "pass now an oid w = pass now an oid ?u" using trace_committing[OF i r st] trace_ne by simp
qed

lemma enter_prepared:
  assumes i: "act_inv w" and r: "map_of (wo_table w) oid = Some a" and st: "ac_state a = Prepared" and s: "an_set an = None"
  shows "\<exists>u b. entered oid (ac_model a) (ac_version a) (ac_attempts a) u b \<and> pass now an oid w = pass now an oid u"
proof -
  let ?w = "w\<lparr> wo_pointer := Some (ac_model a) \<rparr>"
  obtain x where t: "run_trace now an oid w = w # ?w # run_trace now an oid (move now oid Committing x ?w)"
    and nb: "\<not> ca_bump x"
    by (rule trace_prepared[OF i r st s])
  let ?u = "move now oid Committing x ?w"
  have iw: "act_inv ?w" by (rule effect_inv[OF effect.set_pointer[OF r st] i])
  have iu: "act_inv ?u" using r st by (intro effect_inv[OF effect.committed iw]) simp_all
  have ru: "map_of (wo_table ?u) oid = Some (cas_row now Committing x a)" using r by (simp add: map_of_move)
  have p: "pass now an oid w = pass now an oid ?u" using t trace_ne by simp
  show ?thesis using enter_committing[OF iu ru, of now an] nb p by simp
qed

lemma enter_reloading:
  assumes "act_inv w" and "waiting oid m v n w" and "an_set an = None"
  obtains u a where "entered oid m v n u a" "pass now an oid w = last (reload_and_verify now an oid a u)"
proof -
  obtain a where r: "map_of (wo_table w) oid = Some a" and st: "ac_state a \<in> {Prepared, Committing, Reloading}"
    and a: "ac_model a = m" "ac_version a = v" "ac_attempts a = n"
    using assms(2) by (auto simp: waiting_def split: option.splits)
  have "\<exists>u b. entered oid m v n u b \<and> pass now an oid w = pass now an oid u"
    using st enter_prepared[OF assms(1) r _ assms(3), of now] enter_committing[OF assms(1) r, of now an] a assms(1) r
    by (auto simp: entered_def)
  then obtain u b where u: "entered oid m v n u b" "pass now an oid w = pass now an oid u" by blast
  have "run_trace now an oid u = u # reload_and_verify now an oid b u"
    using u(1) by (intro trace_reloading) (simp_all add: entered_def)
  moreover have "reload_and_verify now an oid b u \<noteq> []" by (simp add: reload_and_verify_def Let_def)
  ultimately have "pass now an oid w = last (reload_and_verify now an oid b u)" using u(2) by simp
  with u(1) show thesis by (rule that)
qed

text \<open>The agent keeps answering something that is neither success nor a refusal of the artifact, or that the
  target failed its own check.\<close>

definition failing :: "answers \<Rightarrow> bool" where
  "failing an = (an_set an = None \<and> \<not> loaded_status (rp_status (an_reply an)) \<and>
     (rp_status (an_reply an) = ''verify_failed'' \<or> \<not> rp_unresolvable (an_reply an)))"

text \<open>The agent says it loaded something, and its health names something else.\<close>

definition unverified :: "string \<Rightarrow> string \<Rightarrow> answers \<Rightarrow> bool" where
  "unverified m v an = (an_set an = None \<and> loaded_status (rp_status (an_reply an)) \<and>
     \<not> (fst (an_ident an) = Some m \<and> str_opt (fst (snd (an_ident an))) = v))"

lemma failing_pass:
  assumes i: "act_inv w" and wt: "waiting oid m v n w" and f: "failing an"
  shows "if n + 1 \<ge> MAX_ATTEMPTS then state_of oid (pass now an oid w) = Some Degraded
    else waiting oid m v (n + 1) (pass now an oid w)"
proof -
  obtain u a where u: "entered oid m v n u a" and p: "pass now an oid w = last (reload_and_verify now an oid a u)"
    by (rule enter_reloading[OF i wt, where an = an and now = now]) (use f in \<open>simp add: failing_def\<close>)
  then have e: "act_inv u" "map_of (wo_table u) oid = Some a" "ac_state a = Reloading" "ac_attempts a = n"
      "ac_model a = m" "ac_version a = v" by (simp_all add: entered_def)
  have "\<exists>code reason ev. reload_and_verify now an oid a u = [maybe_degrade now oid a code reason ev u]"
    using f by (auto simp: failing_def reload_and_verify_def Let_def)
  then obtain x where "ca_bump x" "pass now an oid w = move now oid (if n + 1 \<ge> MAX_ATTEMPTS then Degraded else Reloading) x u"
    using maybe_degrade_row[OF e(1-3), of now] p e(4) by (metis last.simps)
  then show ?thesis using e by (simp add: state_of_move[OF e(2)] waiting_def map_of_move)
qed

lemma bumped: "ca_bump x \<Longrightarrow> \<exists>y. ca_bump y \<and> move now oid s x u = move now oid s y u"
  by blast

lemma unverified_pass:
  assumes i: "act_inv w" and wt: "waiting oid m v n w" and f: "unverified m v an"
  shows "waiting oid m v (n + 1) (pass now an oid w)"
proof -
  obtain u a where u: "entered oid m v n u a" and p: "pass now an oid w = last (reload_and_verify now an oid a u)"
    by (rule enter_reloading[OF i wt, where an = an and now = now]) (use f in \<open>simp add: unverified_def\<close>)
  then have e: "act_inv u" "map_of (wo_table u) oid = Some a" "ac_state a = Reloading" "ac_attempts a = n"
      "ac_model a = m" "ac_version a = v" by (simp_all add: entered_def)
  have "\<exists>x. ca_bump x \<and> reload_and_verify now an oid a u = [move now oid Reloading x u]"
    using f e by (auto simp: unverified_def reload_and_verify_def Let_def is_target_def cas_reloading[OF e(1-3)] intro!: bumped)
  then obtain x where "ca_bump x" "pass now an oid w = move now oid Reloading x u" using p by auto
  then show ?thesis using e by (simp add: waiting_def map_of_move)
qed

lemma pass_inv: "act_inv w \<Longrightarrow> act_inv (pass now an oid w)"
  by (rule run_trace_inv[OF _ last_in_set[OF trace_ne]])

lemma passes_Cons [simp]: "passes oid ((now, an) # ps) w = passes oid ps (pass now an oid w)"
  by (simp add: passes_def)

lemma passes_Nil [simp]: "passes oid [] w = w"
  by (simp add: passes_def)

lemma passes_terminal: "state_of oid w = Some s \<Longrightarrow> \<not> non_terminal s \<Longrightarrow> passes oid ps w = w"
  by (induction ps) (auto simp: state_of_def trace_terminal)

lemma failing_passes:
  "act_inv w \<Longrightarrow> waiting oid m v n w \<Longrightarrow> (\<forall>p \<in> set ps. failing (snd p)) \<Longrightarrow> ps \<noteq> [] \<Longrightarrow> MAX_ATTEMPTS \<le> n + length ps
    \<Longrightarrow> state_of oid (passes oid ps w) = Some Degraded"
proof (induction ps arbitrary: w n)
  case (Cons p ps)
  obtain now an where p: "p = (now, an)" by force
  have f: "failing an" using Cons.prems(3) p by simp
  show ?case
  proof (cases "n + 1 \<ge> MAX_ATTEMPTS")
    case True
    then show ?thesis using failing_pass[OF Cons.prems(1,2) f, of now] p
        passes_terminal[of oid "pass now an oid w" Degraded ps] by (simp add: non_terminal_def)
  next
    case False
    then have "waiting oid m v (n + 1) (pass now an oid w)" using failing_pass[OF Cons.prems(1,2) f, of now] by simp
    from Cons.IH[OF pass_inv[OF Cons.prems(1)] this] Cons.prems(3,5) False p show ?thesis by (cases ps) auto
  qed
qed simp

lemma unverified_passes:
  "act_inv w \<Longrightarrow> waiting oid m v n w \<Longrightarrow> (\<forall>p \<in> set ps. unverified m v (snd p))
    \<Longrightarrow> act_inv (passes oid ps w) \<and> waiting oid m v (n + length ps) (passes oid ps w)"
proof (induction ps arbitrary: w n)
  case (Cons p ps)
  obtain now an where p: "p = (now, an)" by force
  have "waiting oid m v (n + 1) (pass now an oid w)"
    using unverified_pass[OF Cons.prems(1,2)] Cons.prems(3) p by simp
  from Cons.IH[OF pass_inv[OF Cons.prems(1)] this] Cons.prems(3) p show ?case by simp
qed simp

text \<open>An agent that keeps deferring, cannot be reached or fails the target's check: the operation
  is Degraded after \<open>MAX_ATTEMPTS\<close> attempts, never retried for ever.\<close>

theorem failing_attempts_end_in_degraded:
  assumes "run_events act_step es \<lparr> wo_table = [], wo_pointer = p \<rparr> = Some w"
    and "waiting oid m v n w" and "ps \<noteq> []" and "MAX_ATTEMPTS \<le> n + length ps" and "list_all (\<lambda>(now, an). failing an) ps"
  shows "state_of oid (passes oid ps w) = Some Degraded"
proof (rule failing_passes[OF reachable_act_inv[OF assms(1)] assms(2) _ assms(3,4)])
  show "\<forall>q \<in> set ps. failing (snd q)" using assms(5) by (auto simp: list_all_iff)
qed

lemma sort_head: "sort_key f xs = y # ys \<Longrightarrow> y \<in> set xs"
  by (metis list.set_intros(1) set_sort)

lemma newest_in:
  assumes "newest t = Some x"
  shows "x \<in> set t"
proof (cases "filter (\<lambda>(i, a). non_terminal (ac_state a)) t")
  case Nil
  then obtain ys where "sort_key (\<lambda>(i, a). - ac_created a) t = x # ys"
    using assms by (auto simp: newest_def simp del: sort_key_simps split: list.splits)
  then show ?thesis by (rule sort_head)
next
  case (Cons n ns)
  then obtain ys where "sort_key (\<lambda>(i, a). - ac_created a) (n # ns) = x # ys"
    using assms by (auto simp: newest_def simp del: sort_key_simps split: list.splits)
  then have "x \<in> set (n # ns)" by (rule sort_head)
  then show ?thesis unfolding Cons[symmetric] by simp
qed

lemma submit_blocked:
  assumes i: "act_inv w" and wt: "waiting oid m v n w" and t: "(name, version) \<noteq> (m, v)"
  shows "\<exists>e. submit now oid' actor name version prior key preempt w = Inl e"
proof (rule ccontr)
  assume "\<not> ?thesis"
  then obtain j w' where s: "submit now oid' actor name version prior key preempt w = Inr (j, w')"
    by (cases "submit now oid' actor name version prior key preempt w") auto
  obtain a where r: "map_of (wo_table w) oid = Some a" and a: "non_terminal (ac_state a)" "ac_model a = m" "ac_version a = v"
    using wt by (auto simp: waiting_def non_terminal_def split: option.splits)
  have d: "distinct (dkeys (wo_table w))" using i by (simp add: act_inv_def one_in_flight_def)
  from s show False
  proof (cases rule: submit_cases)
    case (joined b)
    have "(j, b) \<in> set (wo_table w)" using joined(2) newest_in by (force simp: find_by_key_def)
    then have "map_of (wo_table w) j = Some b" using d by simp
    then have "j = oid" using one_in_flight_lookup[of "wo_table w" j b oid a] joined(3) r a i by (simp add: act_inv_def)
    then show False using \<open>map_of (wo_table w) j = Some b\<close> r a joined t by simp
  next
    case (created pm pv ev t)
    have "map_of (wo_table w) oid' = None" "\<not> busy_with_other oid' (wo_table w)"
      by (rule create_activation_cases[OF created(2)], simp)+
    then show False using map_of_SomeD[OF r] a(1) r by (fastforce simp: busy_with_other_def list_ex_iff)
  qed
qed

text \<open>The attempts of an operation whose agent reports loaded but never names the target are
  counted and never bounded: after any number of such passes it is still in flight, and every submission
  for another target is refused.\<close>

theorem unverified_operation_blocks_for_ever:
  assumes "run_events act_step es \<lparr> wo_table = [], wo_pointer = p \<rparr> = Some w"
    and "waiting oid m v n w" and "list_all (\<lambda>(now, an). unverified m v an) ps" and "(name, version) \<noteq> (m, v)"
  shows "waiting oid m v (n + length ps) (passes oid ps w) \<and>
    (\<exists>e. submit now oid' actor name version prior key preempt (passes oid ps w) = Inl e)"
proof -
  have u: "\<forall>q \<in> set ps. unverified m v (snd q)" using assms(3) by (auto simp: list_all_iff)
  show ?thesis using unverified_passes[OF reachable_act_inv[OF assms(1)] assms(2) u] submit_blocked assms(4) by blast
qed

lemma find_in_flight:
  assumes i: "act_inv w" and r: "map_of (wo_table w) oid = Some a" and n: "non_terminal (ac_state a)"
  shows "find_by_key (ac_key a) (wo_table w) = Some (oid, a)"
proof -
  have d: "distinct (dkeys (wo_table w))" using i by (simp add: act_inv_def one_in_flight_def)
  let ?ns = "filter (\<lambda>(i, a). non_terminal (ac_state a)) (filter (\<lambda>(j, b). ac_key b = ac_key a) (wo_table w))"
  have all: "x = (oid, a)" if x: "x \<in> set ?ns" for x
  proof -
    obtain j b where xb: "x = (j, b)" by force
    have "(j, b) \<in> set (wo_table w)" using x xb by auto
    then have jb: "map_of (wo_table w) j = Some b" using d by simp
    have "j = oid" using one_in_flight_lookup[of "wo_table w" j b oid a] jb r n x xb i by (simp add: act_inv_def)
    then show ?thesis using jb r xb by simp
  qed
  have "(oid, a) \<in> set ?ns" using map_of_SomeD[OF r] n by simp
  then have "?ns \<noteq> []" by (metis empty_iff list.set(1))
  then obtain y ys where ns: "?ns = y # ys" by (meson neq_Nil_conv)
  obtain z zs where so: "sort_key (\<lambda>(i, a). - ac_created a) ?ns = z # zs"
    using ns by (metis length_0_conv length_sort list.distinct(1) neq_Nil_conv)
  have "z = (oid, a)" by (rule all) (rule sort_head[OF so])
  then show ?thesis using so ns by (simp add: find_by_key_def newest_def)
qed

lemma submit_again:
  assumes i: "act_inv w" and s: "submit now oid actor name version prior key preempt w = Inr (j, w')"
  shows "\<exists>a. find_by_key (submit_key name version key) (wo_table w') = Some (j, a) \<and> non_terminal (ac_state a)
    \<and> ac_model a = name \<and> ac_version a = version"
  using s
proof (cases rule: submit_cases)
  case (joined a)
  then show ?thesis by simp
next
  case (created pm pv ev t)
  obtain a where t: "t = wo_table w @ [(oid, a)]" "map_of (wo_table w) oid = None"
    and a: "ac_state a = Prepared" "ac_key a = submit_key name version key" "ac_model a = name" "ac_version a = version"
    by (rule create_activation_cases[OF created(2)])
  have iw: "act_inv w'" using act_inv_create[OF i created(2)] created(3) by simp
  have r: "map_of (wo_table w') oid = Some a" using t created(3) by (simp add: map_add_Some_iff)
  show ?thesis using find_in_flight[OF iw r] a created(1) by (simp add: non_terminal_def)
qed

text \<open>Submitting an activation again, by anyone and at any time before it finishes, returns the
  operation the first submission returned and writes nothing; the same key for another target is refused.\<close>

theorem submit_is_idempotent:
  assumes "run_events act_step es \<lparr> wo_table = [], wo_pointer = p \<rparr> = Some w"
    and "submit now oid actor name version prior (Some key) preempt w = Inr (j, w')" and "key \<noteq> []"
  shows "submit now' oid' actor' name version prior' (Some key) preempt' w' = Inr (j, w') \<and>
    ((name', version') \<noteq> (name, version) \<longrightarrow>
       submit now' oid' actor' name' version' prior' (Some key) preempt' w' = Inl DifferentTarget)"
proof -
  obtain a where f: "find_by_key key (wo_table w') = Some (j, a)" "non_terminal (ac_state a)"
    "ac_model a = name" "ac_version a = version"
    using submit_again[OF reachable_act_inv[OF assms(1)] assms(2)] assms(3) by (auto simp: submit_key_def)
  have k: "submit_key m v (Some key) = key" for m v using assms(3) by (simp add: submit_key_def)
  show ?thesis using f by (auto simp: submit_def Let_def k)
qed

section \<open>Witnesses\<close>

text \<open>An operation for \<open>m@2\<close> with \<open>base\<close> as the previous model, and agents that load it, defer, refuse it, or
  load something else.\<close>

definition one_submit :: "aevent list" where
  "one_submit = [Submit 1 ''op1'' ''operator'' ''m'' ''2'' (Some (''base'', None)) (Some ''k'') False]"

definition empty_world :: world where
  "empty_world = \<lparr> wo_table = [], wo_pointer = Some ''base'' \<rparr>"

definition agent_says :: "string \<Rightarrow> bool \<Rightarrow> string \<times> string \<Rightarrow> answers" where
  "agent_says status unres i = \<lparr> an_set = None,
     an_reply = \<lparr> rp_status = status, rp_unresolvable = unres, rp_reason = ''busy'', rp_error = [] \<rparr>,
     an_ident = (Some (fst i), Some (snd i), True), an_restore = None \<rparr>"

definition submitted :: world where
  "submitted = the (run_events act_step one_submit empty_world)"

lemma submitted_run: "run_events act_step one_submit \<lparr> wo_table = [], wo_pointer = Some ''base'' \<rparr> = Some submitted"
proof -
  have "\<not> Option.is_none (run_events act_step one_submit empty_world)" by code_simp
  then show ?thesis unfolding submitted_def by (metis is_some empty_world_def)
qed

lemma submitted_waits: "waiting ''op1'' ''m'' ''2'' 0 submitted"
  by code_simp

lemma submitted_row: "map_of (wo_table submitted) ''op1'' = Some (snd (hd (wo_table submitted)))"
  by code_simp

theorem passes_refine_the_state_machine_witness:
  "successively (effect 2 (agent_says ''loaded'' False (''m'', ''2'')) ''op1'')
     (run_trace 2 (agent_says ''loaded'' False (''m'', ''2'')) ''op1'' submitted)
   \<and> length (run_trace 2 (agent_says ''loaded'' False (''m'', ''2'')) ''op1'' submitted) = 5"
proof -
  have "length (run_trace 2 (agent_says ''loaded'' False (''m'', ''2'')) ''op1'' submitted) = 5" by code_simp
  then show ?thesis using passes_refine_the_state_machine[OF submitted_run] by blast
qed

definition after_pass :: "answers \<Rightarrow> world" where
  "after_pass an = run_trace 2 an ''op1'' submitted ! 4"

theorem active_only_when_the_authorities_agree_witness:
  "wo_pointer (after_pass (agent_says ''loaded'' False (''m'', ''2''))) = Some ''m''"
proof -
  let ?an = "agent_says ''loaded'' False (''m'', ''2'')"
  let ?a = "snd (hd (wo_table (after_pass ?an)))"
  have "length (run_trace 2 ?an ''op1'' submitted) = 5" by code_simp
  then have s: "act_step (Pass 2 ?an ''op1'' 4) submitted = Some (after_pass ?an)"
    using submitted_row by (simp add: act_step_def after_pass_def)
  have r: "map_of (wo_table (after_pass ?an)) ''op1'' = Some ?a" by code_simp
  have st: "ac_state ?a = Active" "ac_model ?a = ''m''" by code_simp+
  have n: "state_of ''op1'' submitted \<noteq> Some (ac_state ?a)" by code_simp
  show ?thesis using active_only_when_the_authorities_agree[OF submitted_run s r n] st by simp
qed

theorem finished_is_final_and_one_in_flight_witness:
  "\<exists>w w'. run_events act_step [Submit 9 ''op2'' ''operator'' ''m'' ''3'' None None True] w = Some w' \<and>
     state_of ''op1'' w' = Some RolledBack \<and> pending_count w' \<le> 1"
proof -
  let ?an = "agent_says ''error'' True (''base'', ''1'')"
  let ?es = "one_submit @ [Pass 2 ?an ''op1'' 6]"
  let ?e2 = "[Submit 9 ''op2'' ''operator'' ''m'' ''3'' None None True]"
  define w where "w = the (run_events act_step ?es empty_world)"
  define w' where "w' = the (run_events act_step ?e2 w)"
  have "\<not> Option.is_none (run_events act_step ?es empty_world)" by code_simp
  then have r: "run_events act_step ?es \<lparr> wo_table = [], wo_pointer = Some ''base'' \<rparr> = Some w"
    unfolding w_def by (metis is_some empty_world_def)
  have "\<not> Option.is_none (run_events act_step ?e2 w)" unfolding w_def by code_simp
  then have r': "run_events act_step ?e2 w = Some w'" unfolding w'_def by (rule is_some)
  have row: "map_of (wo_table w) ''op1'' = Some (snd (hd (wo_table w)))" unfolding w_def by code_simp
  have st: "ac_state (snd (hd (wo_table w))) = RolledBack" unfolding w_def by code_simp
  have "\<not> non_terminal (ac_state (snd (hd (wo_table w))))" using st by (simp add: non_terminal_def)
  from finished_is_final_and_one_in_flight[OF r r' row this] st
  have "state_of ''op1'' w' = Some RolledBack \<and> pending_count w' \<le> 1" by (simp add: state_of_def)
  with r' show ?thesis by (intro exI conjI) blast+
qed

theorem a_crashed_pass_recovers_witness:
  "\<exists>w'. run 2 (agent_says ''error'' True (''base'', ''1'')) ''op1''
      (run_trace 2 (agent_says ''error'' True (''base'', ''1'')) ''op1'' submitted ! 5) = Inr w' \<and>
    wo_pointer (run_trace 2 (agent_says ''error'' True (''base'', ''1'')) ''op1'' submitted ! 5) = Some ''base''
    \<and> state_of ''op1'' w' = Some RolledBack"
proof -
  let ?an = "agent_says ''error'' True (''base'', ''1'')"
  let ?w = "last (run_trace 2 ?an ''op1'' submitted)"
  have r: "run 2 ?an ''op1'' submitted = Inr ?w" using submitted_row by (simp add: run_def)
  have s: "state_of ''op1'' ?w = Some RolledBack" by code_simp
  have k: "5 < length (run_trace 2 ?an ''op1'' submitted)" by code_simp
  have p: "wo_pointer (run_trace 2 ?an ''op1'' submitted ! 5) = Some ''base''" by code_simp
  have n: "\<not> non_terminal RolledBack" by (simp add: non_terminal_def)
  show ?thesis using a_crashed_pass_recovers[OF submitted_run r s n k] p s by (intro exI conjI)
qed

theorem failing_attempts_end_in_degraded_witness:
  "state_of ''op1'' (passes ''op1'' (replicate 5 (2, agent_says ''unreachable'' False (''base'', ''1''))) submitted) = Some Degraded"
  by (rule failing_attempts_end_in_degraded[OF submitted_run submitted_waits])
    (simp_all add: MAX_ATTEMPTS_def failing_def agent_says_def loaded_status_def list_all_iff)

theorem unverified_operation_blocks_for_ever_witness:
  "\<exists>e. submit 9 ''op2'' ''operator'' ''m'' ''3'' None None True
     (passes ''op1'' (replicate 100 (2, agent_says ''loaded'' False (''base'', ''1''))) submitted) = Inl e"
proof -
  have "list_all (\<lambda>(now, an). unverified ''m'' ''2'' an) (replicate 100 (2, agent_says ''loaded'' False (''base'', ''1'')))"
    by (simp add: list_all_iff unverified_def agent_says_def loaded_status_def)
  from unverified_operation_blocks_for_ever[OF submitted_run submitted_waits this, of "''m''" "''3''"]
  show ?thesis by simp
qed

theorem submit_is_idempotent_witness:
  "submit 5 ''op9'' ''other'' ''m'' ''2'' None (Some ''k'') True submitted = Inr (''op1'', submitted) \<and>
   submit 5 ''op9'' ''other'' ''m'' ''3'' None (Some ''k'') True submitted = Inl DifferentTarget"
proof -
  have e: "run_events act_step [] \<lparr> wo_table = [], wo_pointer = Some ''base'' \<rparr> = Some empty_world"
    by (simp add: empty_world_def)
  have "\<not> Option.is_none (case submit 1 ''op1'' ''operator'' ''m'' ''2'' (Some (''base'', None)) (Some ''k'') False empty_world of
      Inl _ \<Rightarrow> None | Inr (i, w) \<Rightarrow> if i = ''op1'' then Some w else None)" by code_simp
  then obtain w where w: "submit 1 ''op1'' ''operator'' ''m'' ''2'' (Some (''base'', None)) (Some ''k'') False empty_world = Inr (''op1'', w)"
    by (auto simp: Option.is_none_def split: sum.splits if_splits prod.splits)
  then have "w = submitted" by (simp add: submitted_def one_submit_def act_step_def)
  then show ?thesis using submit_is_idempotent[OF e w] by simp
qed

end
