(* ===== verification/Json.thy ===== *)
theory Json
  imports Prelude
begin

text \<open>
  The JSON values the components exchange and store, as Python sees them after parsing.  An object is an
  association list; two objects are the same value when they have the same lookups.
\<close>

datatype json = JNull | JBool bool | JInt int | JFloat rat | JStr string | JList "json list" | JObj "(string \<times> json) list"

type_synonym bag = "(string, json) dict"

text \<open>Python's truth value, \<open>dict.get\<close> and \<open>x or y\<close>.\<close>

fun truthy :: "json \<Rightarrow> bool" where
  "truthy JNull = False"
| "truthy (JBool b) = b"
| "truthy (JInt i) = (i \<noteq> 0)"
| "truthy (JFloat x) = (x \<noteq> 0)"
| "truthy (JStr s) = (s \<noteq> [])"
| "truthy (JList l) = (l \<noteq> [])"
| "truthy (JObj d) = (d \<noteq> [])"

definition jget :: "bag \<Rightarrow> string \<Rightarrow> json" where
  "jget d k = (case map_of d k of None \<Rightarrow> JNull | Some v \<Rightarrow> v)"

definition jor :: "json \<Rightarrow> json \<Rightarrow> json" where
  "jor v w = (if truthy v then v else w)"

fun is_obj :: "json \<Rightarrow> bool" where
  "is_obj (JObj _) = True"
| "is_obj _ = False"

fun is_str :: "json \<Rightarrow> bool" where
  "is_str (JStr _) = True"
| "is_str _ = False"

text \<open>\<open>{**d, k: v}\<close> and \<open>d.update(e)\<close>.\<close>

definition jset :: "string \<Rightarrow> json \<Rightarrow> bag \<Rightarrow> bag" where
  "jset k v d = AList.update k v d"

definition jmerge :: "bag \<Rightarrow> bag \<Rightarrow> bag" where
  "jmerge d e = fold (\<lambda>(k, v). AList.update k v) e d"

lemma map_of_jset [simp]: "map_of (jset k v d) j = (if j = k then Some v else map_of d j)"
  by (simp add: jset_def dict_simps)

lemma jget_jset [simp]: "jget (jset k v d) j = (if j = k then v else jget d j)"
  by (simp add: jget_def)

lemma map_of_jmerge_last: "map_of (jmerge d e) k = (case map_of (rev e) k of None \<Rightarrow> map_of d k | Some v \<Rightarrow> Some v)"
proof (induction e arbitrary: d)
  case (Cons kv e)
  obtain j v where kv: "kv = (j, v)" by force
  show ?case using Cons[of "AList.update j v d"] unfolding kv jmerge_def
    by (simp add: dict_simps map_add_def split: option.splits)
qed (simp add: jmerge_def)

lemma map_of_jmerge: "distinct (dkeys e) \<Longrightarrow> map_of (jmerge d e) k = (case map_of e k of None \<Rightarrow> map_of d k | Some v \<Rightarrow> Some v)"
proof -
  assume d: "distinct (dkeys e)"
  have "map_of (rev e) = map_of e" using d by (subst map_of_inject_set) (simp_all add: rev_map[symmetric])
  then show ?thesis by (simp add: map_of_jmerge_last)
qed

lemma distinct_jset [simp]: "distinct (dkeys d) \<Longrightarrow> distinct (dkeys (jset k v d))"
  by (simp add: jset_def)

lemma distinct_jmerge [simp]: "distinct (dkeys d) \<Longrightarrow> distinct (dkeys (jmerge d e))"
  unfolding jmerge_def by (induction e arbitrary: d) auto

end
