(* ===== verification/JobStore.thy ===== *)
theory JobStore
  imports Json
begin

text \<open>
  The durable job records: \<open>platformlib/storeimpl/jobs.py\<close> over the table \<open>jobs\<close> of
  \<open>platformlib/migrations/001_baseline.sql\<close>, and \<open>hostagent/journal.py\<close>, which keeps the authoritative table in
  memory and writes the store first.  A store call works, fails before it commits, or commits and loses its
  answer.  A timestamptz column holds microseconds, so a stamp comes back rounded.
\<close>

datatype store_call = CallWorks | CallFails | CallLost

section \<open>Rows\<close>

record job_row =
  jr_kind :: string
  jr_modality :: string
  jr_request :: json
  jr_state :: string
  jr_submitted :: rat
  jr_started :: "rat option"
  jr_ended :: "rat option"
  jr_result :: "bag option"

type_synonym jobs_table = "(string, job_row) dict"

definition JOB_RESERVED :: "string list" where
  "JOB_RESERVED = [''job_id'', ''kind'', ''modality'', ''request'', ''state'', ''submitted_at'', ''started_at'', ''ended_at'']"

text \<open>\<open>_dt\<close> and back: the stamp a column keeps.\<close>

definition stamp :: "rat \<Rightarrow> rat" where
  "stamp x = py_round 6 x"

text \<open>A text column takes a string; a falsy value becomes the default.\<close>

definition text_col :: "string \<Rightarrow> json \<Rightarrow> string option" where
  "text_col d v = (if \<not> truthy v then Some d else case v of JStr s \<Rightarrow> Some s | _ \<Rightarrow> None)"

fun time_col :: "json \<Rightarrow> rat option option" where
  "time_col JNull = Some None"
| "time_col (JFloat x) = Some (Some (stamp x))"
| "time_col (JInt i) = Some (Some (stamp (of_int i)))"
| "time_col (JBool b) = Some (Some (if b then 1 else 0))"
| "time_col _ = None"

text \<open>\<open>_job_split\<close>; \<open>None\<close> when the driver or a constraint of the table refuses the values.\<close>

definition job_split :: "bag \<Rightarrow> (string \<times> job_row) option" where
  "job_split r =
     (case (map_of r ''job_id'', text_col [] (jget r ''kind''), text_col [] (jget r ''modality''),
            text_col ''queued'' (jget r ''state''), time_col (jget r ''submitted_at''),
            time_col (jget r ''started_at''), time_col (jget r ''ended_at'')) of
        (Some (JStr i), Some k, Some m, Some s, Some (Some sub), Some sta, Some en) \<Rightarrow>
          (let catch = filter (\<lambda>(f, v). f \<notin> set JOB_RESERVED) r
           in Some (i, \<lparr> jr_kind = k, jr_modality = m, jr_request = jor (jget r ''request'') (JObj []), jr_state = s,
                jr_submitted = sub, jr_started = sta, jr_ended = en, jr_result = (if catch = [] then None else Some catch) \<rparr>))
      | _ \<Rightarrow> None)"

definition job_row_to_record :: "string \<Rightarrow> job_row \<Rightarrow> bag" where
  "job_row_to_record i w =
     (let r0 = [(''job_id'', JStr i), (''kind'', JStr (jr_kind w)), (''modality'', JStr (jr_modality w)),
                (''request'', jor (jr_request w) (JObj [])), (''state'', JStr (jr_state w)), (''submitted_at'', JFloat (jr_submitted w))];
          r1 = (case jr_started w of None \<Rightarrow> r0 | Some t \<Rightarrow> jset ''started_at'' (JFloat t) r0);
          r2 = (case jr_ended w of None \<Rightarrow> r1 | Some t \<Rightarrow> jset ''ended_at'' (JFloat t) r1)
      in (case jr_result w of None \<Rightarrow> r2 | Some c \<Rightarrow> if c = [] then r2 else jmerge r2 c))"

section \<open>The repository\<close>

definition upsert_job :: "bag \<Rightarrow> jobs_table \<Rightarrow> jobs_table option" where
  "upsert_job r t = (case job_split r of None \<Rightarrow> None | Some (i, w) \<Rightarrow> Some (AList.update i w t))"

definition import_job :: "bag \<Rightarrow> jobs_table \<Rightarrow> (bool \<times> jobs_table) option" where
  "import_job r t = (case job_split r of None \<Rightarrow> None
     | Some (i, w) \<Rightarrow> if map_of t i \<noteq> None then Some (False, t) else Some (True, t @ [(i, w)]))"

definition get_job :: "string \<Rightarrow> jobs_table \<Rightarrow> bag option" where
  "get_job i t = map_option (job_row_to_record i) (map_of t i)"

text \<open>\<open>ORDER BY submitted_at DESC\<close>, each record under its id.\<close>

definition list_jobs :: "string option \<Rightarrow> jobs_table \<Rightarrow> (string, bag) dict" where
  "list_jobs kind t = map (\<lambda>(i, w). (i, job_row_to_record i w))
     (sort_key (\<lambda>(i, w). - jr_submitted w) (filter (\<lambda>(i, w). kind = None \<or> kind = Some (jr_kind w)) t))"

definition active_state :: "string \<Rightarrow> bool" where
  "active_state s = (s = ''queued'' \<or> s = ''running'')"

definition count_active_jobs :: "jobs_table \<Rightarrow> nat" where
  "count_active_jobs t = length (filter (\<lambda>(i, w). active_state (jr_state w)) t)"

definition interrupt_row :: "string \<Rightarrow> rat \<Rightarrow> job_row \<Rightarrow> job_row" where
  "interrupt_row reason ts w = (if active_state (jr_state w)
     then w\<lparr> jr_state := ''interrupted'', jr_ended := Some (stamp ts),
             jr_result := Some (jset ''reason'' (JStr reason) (case jr_result w of None \<Rightarrow> [] | Some c \<Rightarrow> c)) \<rparr> else w)"

definition mark_jobs_interrupted :: "string \<Rightarrow> rat \<Rightarrow> jobs_table \<Rightarrow> string list \<times> jobs_table" where
  "mark_jobs_interrupted reason ts t =
     (map fst (filter (\<lambda>(i, w). active_state (jr_state w)) t), map (\<lambda>(i, w). (i, interrupt_row reason ts w)) t)"

section \<open>The journal\<close>

record journal =
  jn_store :: jobs_table
  jn_mem :: "(string, bag) dict"

text \<open>\<open>_op\<close> around a write of one record: whether the caller sees it succeed, and the store.\<close>

definition store_write :: "store_call \<Rightarrow> bag \<Rightarrow> jobs_table \<Rightarrow> bool \<times> jobs_table" where
  "store_write out r t = (case out of
       CallFails \<Rightarrow> (False, t)
     | CallLost \<Rightarrow> (False, case upsert_job r t of None \<Rightarrow> t | Some t' \<Rightarrow> t')
     | CallWorks \<Rightarrow> (case upsert_job r t of None \<Rightarrow> (False, t) | Some t' \<Rightarrow> (True, t')))"

text \<open>\<open>_hydrate\<close>.\<close>

definition hydrate :: "journal \<Rightarrow> journal" where
  "hydrate j = j\<lparr> jn_mem := list_jobs None (jn_store j) \<rparr>"

definition journal_write :: "store_call \<Rightarrow> string \<Rightarrow> bag \<Rightarrow> journal \<Rightarrow> bool \<times> journal" where
  "journal_write out i r j = (case store_write out r (jn_store j) of
      (ok, t) \<Rightarrow> (ok, if ok then j\<lparr> jn_store := t, jn_mem := AList.update i r (jn_mem j) \<rparr> else j\<lparr> jn_store := t \<rparr>))"

definition journal_submit :: "store_call \<Rightarrow> bag \<Rightarrow> journal \<Rightarrow> bool \<times> journal" where
  "journal_submit out r j = (case jget r ''job_id'' of JStr i \<Rightarrow> journal_write out i r j | _ \<Rightarrow> (False, j))"

text \<open>What a transition adds to the record: \<open>fields\<close> first, then the keyword arguments that are given, none of
  them over an identity column.\<close>

record transition_args =
  ta_reason :: json
  ta_started :: json
  ta_ended :: json
  ta_result :: json
  ta_fields :: bag

definition opt_set :: "string \<Rightarrow> json \<Rightarrow> bag \<Rightarrow> bag" where
  "opt_set k v d = (if v = JNull then d else jset k v d)"

definition transition_extra :: "transition_args \<Rightarrow> bag" where
  "transition_extra x = opt_set ''result'' (ta_result x) (opt_set ''ended_at'' (ta_ended x)
     (opt_set ''started_at'' (ta_started x) (opt_set ''reason'' (ta_reason x) (ta_fields x))))"

definition SHADOW_PROOF :: "string list" where
  "SHADOW_PROOF = [''job_id'', ''kind'', ''modality'', ''request'', ''submitted_at'', ''state'']"

definition transition_record :: "string \<Rightarrow> string \<Rightarrow> transition_args \<Rightarrow> journal \<Rightarrow> bag" where
  "transition_record i to x j =
     jmerge (jset ''state'' (JStr to) (case map_of (jn_mem j) i of None \<Rightarrow> [(''job_id'', JStr i)]
               | Some r \<Rightarrow> if r = [] then [(''job_id'', JStr i)] else r))
            (filter (\<lambda>(k, v). k \<notin> set SHADOW_PROOF) (transition_extra x))"

definition journal_transition :: "store_call \<Rightarrow> string \<Rightarrow> string \<Rightarrow> transition_args \<Rightarrow> journal \<Rightarrow> bool \<times> journal" where
  "journal_transition out i to x j = journal_write out i (transition_record i to x j) j"

definition interrupt_record :: "string \<Rightarrow> rat \<Rightarrow> bag \<Rightarrow> bag" where
  "interrupt_record reason ts r = jset ''ended_at'' (JFloat ts) (jset ''reason'' (JStr reason) (jset ''state'' (JStr ''interrupted'') r))"

definition mark_interrupted :: "store_call \<Rightarrow> string \<Rightarrow> rat \<Rightarrow> journal \<Rightarrow> nat option \<times> journal" where
  "mark_interrupted out reason ts j =
     (case mark_jobs_interrupted reason ts (jn_store j) of
        (flipped, t) \<Rightarrow>
          (case out of
             CallFails \<Rightarrow> (None, j)
           | CallLost \<Rightarrow> (None, j\<lparr> jn_store := t \<rparr>)
           | CallWorks \<Rightarrow> (Some (length flipped),
               j\<lparr> jn_store := t, jn_mem := fold (\<lambda>i. dict_upd i (interrupt_record reason ts)) flipped (jn_mem j) \<rparr>)))"

definition journal_get :: "string \<Rightarrow> journal \<Rightarrow> bag option" where
  "journal_get i j = (case map_of (jn_mem j) i of None \<Rightarrow> None | Some r \<Rightarrow> if r = [] then None else Some r)"

definition state_str :: "bag \<Rightarrow> string" where
  "state_str r = (case jget r ''state'' of JStr s \<Rightarrow> s | _ \<Rightarrow> [])"

definition active_count :: "journal \<Rightarrow> nat" where
  "active_count j = length (filter (\<lambda>(i, r). active_state (state_str r)) (jn_mem j))"

definition journal_jobs :: "string option \<Rightarrow> journal \<Rightarrow> bag list" where
  "journal_jobs kind j = sort_key (\<lambda>r. case jget r ''submitted_at'' of JFloat x \<Rightarrow> - x | JInt i \<Rightarrow> - of_int i | _ \<Rightarrow> 0)
     (filter (\<lambda>r. kind = None \<or> map_option JStr kind = Some (jget r ''kind'')) (dvals (jn_mem j)))"

section \<open>A record and its row\<close>

text \<open>What the record of a job looks like.\<close>

definition time_ok :: "json option \<Rightarrow> bool" where
  "time_ok v = (case v of None \<Rightarrow> True | Some (JFloat _) \<Rightarrow> True | _ \<Rightarrow> False)"

definition bag_ok :: "string \<Rightarrow> bag \<Rightarrow> bool" where
  "bag_ok i r = (distinct (dkeys r) \<and> map_of r ''job_id'' = Some (JStr i) \<and>
     (\<exists>k. map_of r ''kind'' = Some (JStr k)) \<and> (\<exists>m. map_of r ''modality'' = Some (JStr m)) \<and>
     (\<exists>d. map_of r ''request'' = Some (JObj d)) \<and> (\<exists>s. map_of r ''state'' = Some (JStr s) \<and> s \<noteq> []) \<and>
     (\<exists>x. map_of r ''submitted_at'' = Some (JFloat x)) \<and> time_ok (map_of r ''started_at'') \<and> time_ok (map_of r ''ended_at''))"

text \<open>The record as it comes back: the same, with the stamps rounded.\<close>

definition stored_val :: "string \<Rightarrow> json \<Rightarrow> json" where
  "stored_val k v = (if k \<in> {''submitted_at'', ''started_at'', ''ended_at''}
     then (case v of JFloat x \<Rightarrow> JFloat (stamp x) | _ \<Rightarrow> v) else v)"

definition stored_view :: "bag \<Rightarrow> bag" where
  "stored_view r = map (\<lambda>(k, v). (k, stored_val k v)) r"

definition time_rel :: "json option \<Rightarrow> rat option \<Rightarrow> bool" where
  "time_rel v t = (case t of None \<Rightarrow> v = None | Some y \<Rightarrow> \<exists>x. v = Some (JFloat x) \<and> y = stamp x)"

abbreviation catch_of :: "job_row \<Rightarrow> bag" where
  "catch_of w \<equiv> (case jr_result w of None \<Rightarrow> [] | Some c \<Rightarrow> c)"

definition row_rel :: "string \<Rightarrow> bag \<Rightarrow> job_row \<Rightarrow> bool" where
  "row_rel i r w = (distinct (dkeys r) \<and> distinct (dkeys (catch_of w)) \<and> map_of r ''job_id'' = Some (JStr i) \<and>
     map_of r ''kind'' = Some (JStr (jr_kind w)) \<and> map_of r ''modality'' = Some (JStr (jr_modality w)) \<and>
     map_of r ''request'' = Some (jr_request w) \<and> is_obj (jr_request w) \<and>
     map_of r ''state'' = Some (JStr (jr_state w)) \<and> jr_state w \<noteq> [] \<and>
     time_rel (map_of r ''submitted_at'') (Some (jr_submitted w)) \<and>
     time_rel (map_of r ''started_at'') (jr_started w) \<and> time_rel (map_of r ''ended_at'') (jr_ended w) \<and>
     (\<forall>k. map_of (catch_of w) k = (if k \<in> set JOB_RESERVED then None else map_of r k)))"

lemma stamp_stamp [simp]: "stamp (stamp x) = stamp x"
  by (simp add: stamp_def py_round_def)

lemma map_of_filter_key: "map_of (filter (\<lambda>(f, v). P f) d) k = (if P k then map_of d k else None)"
  by (induction d) auto

lemma time_col_ok: "time_ok v \<Longrightarrow> \<exists>t. time_col (case v of None \<Rightarrow> JNull | Some x \<Rightarrow> x) = Some t \<and> time_rel v t"
  by (auto simp: time_ok_def time_rel_def split: option.splits json.splits)

lemma distinct_filter_keys: "distinct (dkeys d) \<Longrightarrow> distinct (dkeys (filter P d))"
  by (simp add: distinct_map_filter)

lemma split_bag:
  assumes "bag_ok i r"
  shows "\<exists>w. job_split r = Some (i, w) \<and> row_rel i r w"
proof -
  obtain k m d s x where r: "map_of r ''job_id'' = Some (JStr i)" "map_of r ''kind'' = Some (JStr k)"
    "map_of r ''modality'' = Some (JStr m)" "map_of r ''request'' = Some (JObj d)"
    "map_of r ''state'' = Some (JStr s)" "s \<noteq> []" "map_of r ''submitted_at'' = Some (JFloat x)"
    and t: "time_ok (map_of r ''started_at'')" "time_ok (map_of r ''ended_at'')" and dr: "distinct (dkeys r)"
    using assms unfolding bag_ok_def by blast
  obtain t1 where t1: "time_col (jget r ''started_at'') = Some t1" "time_rel (map_of r ''started_at'') t1"
    using time_col_ok[OF t(1)] unfolding jget_def by blast
  obtain t2 where t2: "time_col (jget r ''ended_at'') = Some t2" "time_rel (map_of r ''ended_at'') t2"
    using time_col_ok[OF t(2)] unfolding jget_def by blast
  let ?c = "filter (\<lambda>(f, v). f \<notin> set JOB_RESERVED) r"
  let ?w = "\<lparr> jr_kind = k, jr_modality = m, jr_request = jor (JObj d) (JObj []), jr_state = s,
                jr_submitted = stamp x, jr_started = t1, jr_ended = t2, jr_result = (if ?c = [] then None else Some ?c) \<rparr>"
  have "job_split r = Some (i, ?w)"
    using r t1 t2 by (auto simp: job_split_def jget_def text_col_def Let_def)
  moreover have c: "catch_of ?w = ?c" by simp
  have "row_rel i r ?w"
    unfolding row_rel_def c using r t1 t2 dr
    by (simp add: jor_def time_rel_def distinct_filter_keys map_of_filter_key)
  ultimately show ?thesis by blast
qed

lemma jor_obj: "is_obj v \<Longrightarrow> jor v (JObj []) = v"
  by (cases v) (auto simp: jor_def)

definition head_of :: "string \<Rightarrow> job_row \<Rightarrow> bag" where
  "head_of i w = job_row_to_record i (w\<lparr> jr_result := None \<rparr>)"

lemma record_split: "job_row_to_record i w = jmerge (head_of i w) (catch_of w)"
  by (cases "jr_result w") (simp_all add: head_of_def job_row_to_record_def Let_def jmerge_def)

lemma head_lookup:
  "map_of (head_of i w) ''job_id'' = Some (JStr i)" "map_of (head_of i w) ''kind'' = Some (JStr (jr_kind w))"
  "map_of (head_of i w) ''modality'' = Some (JStr (jr_modality w))"
  "map_of (head_of i w) ''request'' = Some (jor (jr_request w) (JObj []))"
  "map_of (head_of i w) ''state'' = Some (JStr (jr_state w))"
  "map_of (head_of i w) ''submitted_at'' = Some (JFloat (jr_submitted w))"
  "map_of (head_of i w) ''started_at'' = map_option JFloat (jr_started w)"
  "map_of (head_of i w) ''ended_at'' = map_option JFloat (jr_ended w)"
  by (cases "jr_started w"; cases "jr_ended w"; simp add: head_of_def job_row_to_record_def Let_def)+

lemma head_none: "k \<notin> set JOB_RESERVED \<Longrightarrow> map_of (head_of i w) k = None"
  by (cases "jr_started w"; cases "jr_ended w"; simp add: head_of_def job_row_to_record_def Let_def JOB_RESERVED_def)

lemma stored_val_time: "time_rel v t \<Longrightarrow> k \<in> {''submitted_at'', ''started_at'', ''ended_at''}
    \<Longrightarrow> map_option (stored_val k) v = map_option JFloat t"
  by (cases t) (auto simp: time_rel_def stored_val_def)

lemma reserved_split: "set JOB_RESERVED =
    {''job_id'', ''kind'', ''modality'', ''request'', ''state''} \<union> {''submitted_at'', ''started_at'', ''ended_at''}"
  by (simp only: JOB_RESERVED_def list.set Un_insert_left Un_empty_left)

lemma record_of_row:
  assumes "row_rel i r w"
  shows "map_of (job_row_to_record i w) k = map_of (stored_view r) k"
proof -
  let ?c = "catch_of w"
  have r: "map_of r ''job_id'' = Some (JStr i)" "map_of r ''kind'' = Some (JStr (jr_kind w))"
    "map_of r ''modality'' = Some (JStr (jr_modality w))" "map_of r ''request'' = Some (jr_request w)" "is_obj (jr_request w)"
    "map_of r ''state'' = Some (JStr (jr_state w))" "time_rel (map_of r ''submitted_at'') (Some (jr_submitted w))"
    "time_rel (map_of r ''started_at'') (jr_started w)" "time_rel (map_of r ''ended_at'') (jr_ended w)"
    and c: "map_of ?c k = (if k \<in> set JOB_RESERVED then None else map_of r k)" and d: "distinct (dkeys ?c)"
    using assms unfolding row_rel_def by blast+
  have m: "map_of (job_row_to_record i w) k = (case map_of ?c k of None \<Rightarrow> map_of (head_of i w) k | Some v \<Rightarrow> Some v)"
    using map_of_jmerge[OF d] by (simp add: record_split)
  have v: "map_of (stored_view r) k = map_option (stored_val k) (map_of r k)"
    by (simp add: stored_view_def map_of_map_vals)
  show ?thesis
  proof (cases "k \<in> set JOB_RESERVED")
    case False
    then have "stored_val k x = x" for x by (auto simp: stored_val_def JOB_RESERVED_def)
    then show ?thesis using m v c False head_none[OF False, of i w] by (cases "map_of r k") simp_all
  next
    case True
    then have h: "map_of (job_row_to_record i w) k = map_of (head_of i w) k" using m c by simp
    have plain: "stored_val k x = x" if "k \<notin> {''submitted_at'', ''started_at'', ''ended_at''}" for x
      using that by (simp add: stored_val_def)
    have "map_of (head_of i w) k = map_option (stored_val k) (map_of r k)"
    proof (cases "k \<in> {''submitted_at'', ''started_at'', ''ended_at''}")
      case t: True
      have "map_option (stored_val ''submitted_at'') (map_of r ''submitted_at'') = map_option JFloat (Some (jr_submitted w))"
        "map_option (stored_val ''started_at'') (map_of r ''started_at'') = map_option JFloat (jr_started w)"
        "map_option (stored_val ''ended_at'') (map_of r ''ended_at'') = map_option JFloat (jr_ended w)"
        by (rule stored_val_time, rule r, simp)+
      note st = this
      from t show ?thesis by (elim insertE emptyE) (simp_all only: st head_lookup option.map(2))
    next
      case f: False
      then have "k \<in> {''job_id'', ''kind'', ''modality'', ''request'', ''state''}"
        using True f unfolding reserved_split Un_iff by (elim disjE) (assumption, erule notE)
      then have "map_of (head_of i w) k = map_of r k"
        by (elim insertE emptyE) (simp_all only: head_lookup r(1-6) jor_obj[OF r(5)])
      then show ?thesis using plain[OF f] by (cases "map_of r k") simp_all
    qed
    then show ?thesis using v h by simp
  qed
qed

section \<open>The journal mirrors the store\<close>

definition mirror :: "journal \<Rightarrow> bool" where
  "mirror j = (distinct (dkeys (jn_mem j)) \<and> distinct (dkeys (jn_store j)) \<and>
     (\<forall>i. case (map_of (jn_mem j) i, map_of (jn_store j) i) of
        (None, None) \<Rightarrow> True | (Some r, Some w) \<Rightarrow> row_rel i r w | _ \<Rightarrow> False))"

lemma mirrorD:
  assumes "mirror j"
  shows "distinct (dkeys (jn_mem j))" "distinct (dkeys (jn_store j))"
    "map_of (jn_mem j) i = Some r \<Longrightarrow> \<exists>w. map_of (jn_store j) i = Some w \<and> row_rel i r w"
    "map_of (jn_store j) i = Some w \<Longrightarrow> \<exists>r. map_of (jn_mem j) i = Some r \<and> row_rel i r w"
    "map_of (jn_mem j) i = None \<longleftrightarrow> map_of (jn_store j) i = None"
proof -
  have h: "case (map_of (jn_mem j) i, map_of (jn_store j) i) of
        (None, None) \<Rightarrow> True | (Some r, Some w) \<Rightarrow> row_rel i r w | _ \<Rightarrow> False"
    using assms unfolding mirror_def by blast
  show "distinct (dkeys (jn_mem j))" "distinct (dkeys (jn_store j))" using assms by (simp_all add: mirror_def)
  show "map_of (jn_mem j) i = Some r \<Longrightarrow> \<exists>w. map_of (jn_store j) i = Some w \<and> row_rel i r w"
    "map_of (jn_store j) i = Some w \<Longrightarrow> \<exists>r. map_of (jn_mem j) i = Some r \<and> row_rel i r w"
    "map_of (jn_mem j) i = None \<longleftrightarrow> map_of (jn_store j) i = None"
    using h by (auto split: option.splits)
qed

lemma mirrorI:
  assumes "distinct (dkeys (jn_mem j))" "distinct (dkeys (jn_store j))"
    and "\<And>i. map_of (jn_mem j) i = None \<longleftrightarrow> map_of (jn_store j) i = None"
    and "\<And>i r w. map_of (jn_mem j) i = Some r \<Longrightarrow> map_of (jn_store j) i = Some w \<Longrightarrow> row_rel i r w"
  shows "mirror j"
  unfolding mirror_def
proof (intro conjI allI)
  fix i
  show "case (map_of (jn_mem j) i, map_of (jn_store j) i) of
        (None, None) \<Rightarrow> True | (Some r, Some w) \<Rightarrow> row_rel i r w | _ \<Rightarrow> False"
    using assms(3)[of i] assms(4)[of i]
    by (cases "map_of (jn_mem j) i"; cases "map_of (jn_store j) i") auto
qed (use assms in auto)

lemma row_rel_bag:
  assumes "row_rel i r w"
  shows "bag_ok i r"
proof -
  have t: "time_ok v" if "time_rel v t" for v t using that by (auto simp: time_rel_def time_ok_def split: option.splits)
  obtain x where x: "map_of r ''submitted_at'' = Some (JFloat x)" using assms by (auto simp: row_rel_def time_rel_def)
  obtain d where d: "map_of r ''request'' = Some (JObj d)" using assms by (cases "jr_request w") (auto simp: row_rel_def)
  show ?thesis using assms t x d unfolding row_rel_def bag_ok_def by blast
qed

lemma write_mirror:
  assumes m: "mirror j" and b: "bag_ok i r" and o: "out \<noteq> CallLost"
  shows "mirror (snd (journal_write out i r j)) \<and> (fst (journal_write out i r j) \<longleftrightarrow> out = CallWorks)"
proof (cases out)
  case CallWorks
  obtain w where w: "job_split r = Some (i, w)" "row_rel i r w" using split_bag[OF b] by blast
  have e: "journal_write out i r j = (True, j\<lparr> jn_store := AList.update i w (jn_store j), jn_mem := AList.update i r (jn_mem j) \<rparr>)"
    using CallWorks w by (simp add: journal_write_def store_write_def upsert_job_def)
  have "mirror (j\<lparr> jn_store := AList.update i w (jn_store j), jn_mem := AList.update i r (jn_mem j) \<rparr>)"
  proof (rule mirrorI)
    fix k s v
    assume "map_of (jn_mem (j\<lparr> jn_store := AList.update i w (jn_store j), jn_mem := AList.update i r (jn_mem j) \<rparr>)) k = Some s"
      and "map_of (jn_store (j\<lparr> jn_store := AList.update i w (jn_store j), jn_mem := AList.update i r (jn_mem j) \<rparr>)) k = Some v"
    then show "row_rel k s v" using w(2) mirrorD(3)[OF m, of k s] by (auto simp: dict_simps split: if_splits)
  qed (use mirrorD(1,2)[OF m] mirrorD(5)[OF m] in \<open>auto simp: dict_simps\<close>)
  then show ?thesis using e CallWorks by simp
qed (use m o in \<open>simp_all add: journal_write_def store_write_def\<close>)

lemma distinct_sort_keys: "distinct (dkeys t) \<Longrightarrow> distinct (dkeys (sort_key f t))"
  by (simp add: distinct_map)

lemma map_of_sort: "distinct (dkeys t) \<Longrightarrow> map_of (sort_key f t) = map_of t"
  by (subst map_of_inject_set) (simp_all add: distinct_sort_keys)

lemma map_of_list_jobs: "distinct (dkeys t) \<Longrightarrow> map_of (list_jobs None t) i = get_job i t"
  unfolding list_jobs_def get_job_def by (simp only: map_of_map_vals) (simp add: map_of_sort)

lemma distinct_list_jobs: "distinct (dkeys t) \<Longrightarrow> distinct (dkeys (list_jobs None t))"
  unfolding list_jobs_def by (simp only: dkeys_map_vals) (simp add: distinct_sort_keys)

text \<open>What comes back is again a record of its row.\<close>

lemma time_rel_stored: "time_rel v t \<Longrightarrow> k \<in> {''submitted_at'', ''started_at'', ''ended_at''}
    \<Longrightarrow> time_rel (map_option (stored_val k) v) t"
  by (auto simp: time_rel_def stored_val_def split: option.splits)

lemma distinct_record: "distinct (dkeys (job_row_to_record i w))"
proof -
  have "distinct (dkeys (head_of i w))"
    by (cases "jr_started w"; cases "jr_ended w"; simp add: head_of_def job_row_to_record_def Let_def jset_def)
  then show ?thesis by (simp add: record_split)
qed

lemma row_rel_hydrated:
  assumes "row_rel i r w"
  shows "row_rel i (job_row_to_record i w) w"
proof -
  have l: "map_of (job_row_to_record i w) k = map_option (stored_val k) (map_of r k)" for k
    using record_of_row[OF assms] by (simp add: stored_view_def map_of_map_vals)
  have p: "stored_val k x = x" if "k \<notin> {''submitted_at'', ''started_at'', ''ended_at''}" for k x
    using that by (simp add: stored_val_def)
  have q: "map_option (stored_val k) v = v" if "k \<notin> {''submitted_at'', ''started_at'', ''ended_at''}" for k v
    using p[OF that] by (cases v) simp_all
  have c: "map_option (stored_val k) (map_of r k) = map_of r k" if "k \<notin> set JOB_RESERVED" for k
    using that by (intro q) (auto simp: JOB_RESERVED_def)
  show ?thesis using assms distinct_record time_rel_stored
    unfolding row_rel_def l by (simp add: p c)
qed

lemma hydrate_mirror:
  assumes "mirror j"
  shows "mirror (hydrate j)"
proof (rule mirrorI)
  have d: "distinct (dkeys (jn_store j))" by (rule mirrorD(2)[OF assms])
  show "distinct (dkeys (jn_mem (hydrate j)))" "distinct (dkeys (jn_store (hydrate j)))"
    using d distinct_list_jobs by (simp_all add: hydrate_def)
  show "map_of (jn_mem (hydrate j)) i = None \<longleftrightarrow> map_of (jn_store (hydrate j)) i = None" for i
    by (simp add: hydrate_def map_of_list_jobs[OF d] get_job_def)
  fix i r w
  assume "map_of (jn_mem (hydrate j)) i = Some r" "map_of (jn_store (hydrate j)) i = Some w"
  then have w: "map_of (jn_store j) i = Some w" and r: "r = job_row_to_record i w"
    by (simp_all add: hydrate_def map_of_list_jobs[OF d] get_job_def)
  obtain r0 where "row_rel i r0 w" using mirrorD(4)[OF assms w] by blast
  then show "row_rel i r w" unfolding r by (rule row_rel_hydrated)
qed

lemma state_str_row: "row_rel i r w \<Longrightarrow> state_str r = jr_state w"
  by (simp add: state_str_def jget_def row_rel_def)

lemma reason_free: "''reason'' \<notin> set JOB_RESERVED" "''state'' \<in> set JOB_RESERVED" "''ended_at'' \<in> set JOB_RESERVED"
  by (simp_all add: JOB_RESERVED_def)

lemma interrupt_rel:
  assumes r: "row_rel i r w" and a: "active_state (jr_state w)"
  shows "row_rel i (interrupt_record reason ts r) (interrupt_row reason ts w)"
proof -
  let ?w = "interrupt_row reason ts w"
  let ?c = "jset ''reason'' (JStr reason) (catch_of w)"
  have w: "jr_kind ?w = jr_kind w" "jr_modality ?w = jr_modality w" "jr_request ?w = jr_request w" "jr_state ?w = ''interrupted''"
    "jr_submitted ?w = jr_submitted w" "jr_started ?w = jr_started w" "jr_ended ?w = Some (stamp ts)" "catch_of ?w = ?c"
    using a by (simp_all add: interrupt_row_def)
  have c: "map_of ?c k = (if k \<in> set JOB_RESERVED then None else map_of (interrupt_record reason ts r) k)" for k
  proof -
    have h: "map_of (catch_of w) k = (if k \<in> set JOB_RESERVED then None else map_of r k)" using r by (simp add: row_rel_def)
    show ?thesis using reason_free h by (cases "k = ''reason''") (auto simp: interrupt_record_def)
  qed
  show ?thesis
    unfolding row_rel_def w
    using r c by (simp add: row_rel_def interrupt_record_def time_rel_def)
qed

lemma map_of_fold_upd:
  "distinct is \<Longrightarrow> map_of (fold (\<lambda>i. dict_upd i f) is d) k = (if k \<in> set is then map_option f (map_of d k) else map_of d k)"
proof (induction "is" arbitrary: d)
  case (Cons i "is")
  then show ?case by (auto simp: map_of_dict_upd)
qed simp

lemma dkeys_fold_upd: "dkeys (fold (\<lambda>i. dict_upd i f) is d) = dkeys d"
  by (induction "is" arbitrary: d) auto

lemma mark_ids:
  "distinct (dkeys t) \<Longrightarrow> k \<in> set (fst (mark_jobs_interrupted reason ts t)) \<longleftrightarrow> (\<exists>w. map_of t k = Some w \<and> active_state (jr_state w))"
proof -
  assume d: "distinct (dkeys t)"
  have "k \<in> set (fst (mark_jobs_interrupted reason ts t)) \<longleftrightarrow> (\<exists>w. (k, w) \<in> set t \<and> active_state (jr_state w))"
    by (force simp: mark_jobs_interrupted_def)
  then show ?thesis unfolding map_of_set_iff[OF d] .
qed

lemma mark_store: "map_of (snd (mark_jobs_interrupted reason ts t)) k = map_option (interrupt_row reason ts) (map_of t k)"
  by (simp add: mark_jobs_interrupted_def map_of_map_vals)

lemma mark_works: "mark_interrupted CallWorks reason ts j =
   (Some (length (fst (mark_jobs_interrupted reason ts (jn_store j)))),
    j\<lparr> jn_store := snd (mark_jobs_interrupted reason ts (jn_store j)),
       jn_mem := fold (\<lambda>i. dict_upd i (interrupt_record reason ts)) (fst (mark_jobs_interrupted reason ts (jn_store j))) (jn_mem j) \<rparr>)"
  by (simp add: mark_interrupted_def mark_jobs_interrupted_def)

lemma mark_mem:
  assumes m: "mirror j"
  shows "map_of (jn_mem (snd (mark_interrupted CallWorks reason ts j))) k =
    (case map_of (jn_mem j) k of None \<Rightarrow> None
     | Some r \<Rightarrow> Some (if active_state (state_str r) then interrupt_record reason ts r else r))"
proof -
  have d: "distinct (dkeys (jn_store j))" by (rule mirrorD(2)[OF m])
  have dd: "distinct (fst (mark_jobs_interrupted reason ts (jn_store j)))"
    using d by (simp add: mark_jobs_interrupted_def distinct_map_filter)
  have i: "k \<in> set (fst (mark_jobs_interrupted reason ts (jn_store j))) \<longleftrightarrow> active_state (state_str r)"
    if r: "map_of (jn_mem j) k = Some r" for r
  proof -
    obtain w where "map_of (jn_store j) k = Some w" "row_rel k r w" using mirrorD(3)[OF m r] by blast
    then show ?thesis using mark_ids[OF d] state_str_row by auto
  qed
  show ?thesis unfolding mark_works using i by (simp add: map_of_fold_upd[OF dd] split: option.splits)
qed

lemma mark_mirror:
  assumes m: "mirror j"
  shows "mirror (snd (mark_interrupted CallWorks reason ts j))"
proof (rule mirrorI)
  let ?j = "snd (mark_interrupted CallWorks reason ts j)"
  show "distinct (dkeys (jn_mem ?j))" "distinct (dkeys (jn_store ?j))"
    using mirrorD(1,2)[OF m] by (simp_all add: mark_works dkeys_fold_upd mark_jobs_interrupted_def del: map_map)
  have st: "map_of (jn_store ?j) k = map_option (interrupt_row reason ts) (map_of (jn_store j) k)" for k
    by (simp add: mark_works mark_store)
  show "map_of (jn_mem ?j) k = None \<longleftrightarrow> map_of (jn_store ?j) k = None" for k
    using mirrorD(5)[OF m, of k] by (cases "map_of (jn_mem j) k") (auto simp: mark_mem[OF m] st)
  fix k r w
  assume a: "map_of (jn_mem ?j) k = Some r" and b: "map_of (jn_store ?j) k = Some w"
  obtain r0 where r0: "map_of (jn_mem j) k = Some r0" "r = (if active_state (state_str r0) then interrupt_record reason ts r0 else r0)"
    using a by (auto simp: mark_mem[OF m] split: option.splits)
  obtain w0 where w0: "map_of (jn_store j) k = Some w0" "row_rel k r0 w0" using mirrorD(3)[OF m r0(1)] by blast
  have w: "w = interrupt_row reason ts w0" using b w0(1) by (simp add: st)
  show "row_rel k r w"
  proof (cases "active_state (jr_state w0)")
    case True
    then show ?thesis using r0(2) state_str_row[OF w0(2)] interrupt_rel[OF w0(2) True] w by simp
  next
    case False
    then show ?thesis using r0(2) state_str_row[OF w0(2)] w0(2) w by (simp add: interrupt_row_def)
  qed
qed

section \<open>Transitions keep a record a record\<close>

definition args_ok :: "transition_args \<Rightarrow> bool" where
  "args_ok x = (time_ok (if ta_started x = JNull then None else Some (ta_started x)) \<and>
     time_ok (if ta_ended x = JNull then None else Some (ta_ended x)) \<and> distinct (dkeys (ta_fields x)) \<and>
     map_of (ta_fields x) ''started_at'' = None \<and> map_of (ta_fields x) ''ended_at'' = None)"

lemma distinct_opt_set [simp]: "distinct (dkeys d) \<Longrightarrow> distinct (dkeys (opt_set k v d))"
  by (simp add: opt_set_def)

lemma map_of_opt_set: "map_of (opt_set k v d) j = (if j = k \<and> v \<noteq> JNull then Some v else map_of d j)"
  by (simp add: opt_set_def)

lemma transition_lookup:
  assumes x: "args_ok x" and r: "map_of (jn_mem j) i = Some r" "r \<noteq> []"
  shows "map_of (transition_record i to x j) k =
    (if k = ''state'' then Some (JStr to) else if k \<in> set SHADOW_PROOF then map_of r k
     else case map_of (transition_extra x) k of None \<Rightarrow> map_of r k | Some v \<Rightarrow> Some v)"
proof -
  have d: "distinct (dkeys (transition_extra x))" using x by (simp add: transition_extra_def args_ok_def)
  have s: "''state'' \<in> set SHADOW_PROOF" by (simp add: SHADOW_PROOF_def)
  show ?thesis unfolding transition_record_def using r s
    by (auto simp: map_of_jmerge distinct_filter_keys[OF d] map_of_filter_key split: option.splits)
qed

lemma transition_bag:
  assumes b: "bag_ok i r" and x: "args_ok x" and r: "map_of (jn_mem j) i = Some r" and t: "to \<noteq> []"
  shows "bag_ok i (transition_record i to x j)"
proof -
  have ne: "r \<noteq> []" using b by (auto simp: bag_ok_def)
  note l = transition_lookup[OF x r ne]
  have d: "distinct (dkeys (transition_record i to x j))" using b r ne by (simp add: transition_record_def bag_ok_def)
  have st: "map_of (transition_extra x) ''started_at'' = (if ta_started x = JNull then None else Some (ta_started x))"
    "map_of (transition_extra x) ''ended_at'' = (if ta_ended x = JNull then None else Some (ta_ended x))"
    using x by (simp_all add: transition_extra_def map_of_opt_set args_ok_def)
  have "time_ok (map_of (transition_record i to x j) ''started_at'')" "time_ok (map_of (transition_record i to x j) ''ended_at'')"
    using b x by (simp_all add: l st SHADOW_PROOF_def bag_ok_def args_ok_def split: if_splits)
  then show ?thesis using b t d unfolding bag_ok_def by (simp add: l SHADOW_PROOF_def)
qed

section \<open>The machine\<close>

datatype jevent =
    JSubmit store_call bag
  | JTransition store_call string string transition_args
  | JRestart string rat

definition journal_restart :: "string \<Rightarrow> rat \<Rightarrow> journal \<Rightarrow> journal" where
  "journal_restart reason ts j = snd (mark_interrupted CallWorks reason ts (hydrate j))"

definition jstep :: "jevent \<Rightarrow> journal \<Rightarrow> journal option" where
  "jstep e j = (case e of
     JSubmit out r \<Rightarrow> Some (snd (journal_submit out r j))
   | JTransition out i to x \<Rightarrow> Some (snd (journal_transition out i to x j))
   | JRestart reason ts \<Rightarrow> Some (journal_restart reason ts j))"

text \<open>What the job manager writes: whole records first, then transitions of jobs it knows.  A write that commits
  without an answer is left out: the store is then ahead of memory until the next restart.\<close>

definition jok :: "jevent \<Rightarrow> journal \<Rightarrow> bool" where
  "jok e j = (case e of
     JSubmit out r \<Rightarrow> out \<noteq> CallLost \<and> (case jget r ''job_id'' of JStr i \<Rightarrow> bag_ok i r | _ \<Rightarrow> True)
   | JTransition out i to x \<Rightarrow> out \<noteq> CallLost \<and> to \<noteq> [] \<and> args_ok x \<and> map_of (jn_mem j) i \<noteq> None
   | JRestart reason ts \<Rightarrow> True)"

lemma jstep_mirror:
  assumes m: "mirror j" and o: "jok e j" and s: "jstep e j = Some j'"
  shows "mirror j'"
proof (cases e)
  case (JSubmit out r)
  then have j': "j' = snd (journal_submit out r j)" using s by (simp add: jstep_def)
  show ?thesis
  proof (cases "jget r ''job_id''")
    case (JStr i)
    then have "j' = snd (journal_write out i r j)" "bag_ok i r" "out \<noteq> CallLost"
      using j' JSubmit o by (simp_all add: journal_submit_def jok_def)
    then show ?thesis using write_mirror[OF m] by simp
  qed (use j' m in \<open>simp_all add: journal_submit_def\<close>)
next
  case (JTransition out i to x)
  then obtain r where r: "map_of (jn_mem j) i = Some r" and k: "out \<noteq> CallLost" "to \<noteq> []" "args_ok x"
    using o by (auto simp: jok_def)
  have "bag_ok i r" using mirrorD(3)[OF m r] row_rel_bag by blast
  then have "bag_ok i (transition_record i to x j)" using transition_bag k r by blast
  from write_mirror[OF m this k(1)] show ?thesis using s JTransition
    by (simp add: jstep_def journal_transition_def)
next
  case (JRestart reason ts)
  then show ?thesis using s mark_mirror[OF hydrate_mirror[OF m], of reason ts] by (simp add: jstep_def journal_restart_def)
qed

interpretation journal_books: machine jstep jok mirror
  by unfold_locales (rule jstep_mirror)

lemma mirror_empty: "mirror \<lparr> jn_store = [], jn_mem = [] \<rparr>"
  by (simp add: mirror_def)

text \<open>Claim C15. Round trip: a job record written to the store and read back is the same record, key by key, with
  nothing dropped and nothing shadowed; only its stamps are rounded to the microseconds of the columns.\<close>

theorem job_record_round_trips:
  assumes "bag_ok i r"
  shows "\<exists>t'. upsert_job r t = Some t' \<and> (\<exists>r'. get_job i t' = Some r' \<and> (\<forall>k. map_of r' k = map_of (stored_view r) k))
    \<and> (\<forall>k. k \<noteq> i \<longrightarrow> get_job k t' = get_job k t)"
proof -
  obtain w where w: "job_split r = Some (i, w)" "row_rel i r w" using split_bag[OF assms] by blast
  show ?thesis using w record_of_row[OF w(2)] by (auto simp: upsert_job_def get_job_def dict_simps)
qed


section \<open>Witnesses\<close>

definition demo_job :: bag where
  "demo_job = [(''job_id'', JStr ''j1''), (''kind'', JStr ''hpo''), (''state'', JStr ''queued''), (''modality'', JStr ''llm''),
     (''request'', JObj []), (''submitted_at'', JFloat 5), (''study_id'', JStr ''j1''), (''error'', JNull)]"

definition demo_start :: transition_args where
  "demo_start = \<lparr> ta_reason = JNull, ta_started = JFloat 6, ta_ended = JNull, ta_result = JNull, ta_fields = [] \<rparr>"

lemma demo_job_ok: "bag_ok ''j1'' demo_job"
  by (simp add: bag_ok_def demo_job_def time_ok_def)

theorem job_record_round_trips_witness:
  "\<exists>t r. upsert_job demo_job [] = Some t \<and> get_job ''j1'' t = Some r \<and> map_of r ''error'' = Some JNull \<and>
     map_of r ''study_id'' = Some (JStr ''j1'')"
proof -
  obtain t r where t: "upsert_job demo_job [] = Some t" "get_job ''j1'' t = Some r"
      and r: "\<forall>k. map_of r k = map_of (stored_view demo_job) k"
    using job_record_round_trips[OF demo_job_ok, of "[]"] by blast
  have "map_of (stored_view demo_job) ''error'' = Some JNull" "map_of (stored_view demo_job) ''study_id'' = Some (JStr ''j1'')"
    by code_simp+
  then show ?thesis using t r by (intro exI[of _ t] exI[of _ r] conjI) simp_all
qed


end
