(* ===== verification/JobManager.thy ===== *)
theory JobManager
  imports JobStore SlotAdmission
begin

text \<open>
  The jobs surface of the host agent, \<open>hostagent/jobs.py\<close>: validation, the idempotency window, the single job
  slot, the GPU lease of the kinds that need it, the worker thread and the release paths, over the journal of
  \<open>JobStore\<close> and the slot of \<open>SlotAdmission\<close>.  Clock readings, the free VRAM, random ids, the outcome of store
  calls, whether the thread starts and what a runner returns are arguments.  Error texts are cut to their head.
\<close>

definition TRAINABLE_MODALITIES :: "string list" where
  "TRAINABLE_MODALITIES = [''llm'', ''vision'', ''embeddings'', ''asr'']"

definition CPU_TRAINABLE_MODALITIES :: "string list" where
  "CPU_TRAINABLE_MODALITIES = [''tabular'']"

definition FINETUNE_MODALITIES :: "string list" where
  "FINETUNE_MODALITIES = TRAINABLE_MODALITIES @ CPU_TRAINABLE_MODALITIES"

definition GPU_BATCH_MODALITIES :: "string list" where
  "GPU_BATCH_MODALITIES = [''llm'', ''vision'', ''asr'']"

definition BATCH_MODALITIES :: "string list" where
  "BATCH_MODALITIES = [''llm'', ''text-generation'', ''vision'', ''image-classification'', ''tabular'']"

definition GPU_BATCH_ALIAS :: "(string, string) dict" where
  "GPU_BATCH_ALIAS = [(''text-generation'', ''llm''), (''image-classification'', ''vision'')]"

definition is_gpu_batch :: "string \<Rightarrow> bool" where
  "is_gpu_batch m = ((case map_of GPU_BATCH_ALIAS m of None \<Rightarrow> m | Some a \<Rightarrow> a) \<in> set GPU_BATCH_MODALITIES)"

record kind_spec =
  ks_route :: string
  ks_id_key :: string
  ks_gpu :: bool
  ks_required :: "string list"
  ks_terminal :: string
  ks_modality_set :: "string list option"
  ks_modality_default :: "string option"
  ks_id_field :: "string option"
  ks_extra :: "string list"

definition KINDS :: "(string, kind_spec) dict" where
  "KINDS =
    [(''finetune'', \<lparr> ks_route = ''train'', ks_id_key = ''run_id'', ks_gpu = True,
        ks_required = [''dataset_name'', ''dataset_version'', ''output_name''], ks_terminal = ''completed'',
        ks_modality_set = Some FINETUNE_MODALITIES, ks_modality_default = Some ''llm'', ks_id_field = None,
        ks_extra = [''mlflow_run_id'', ''model'', ''metrics'', ''params'', ''error''] \<rparr>),
     (''hpo'', \<lparr> ks_route = ''study'', ks_id_key = ''study_id'', ks_gpu = True,
        ks_required = [''dataset_name'', ''dataset_version'', ''output_name''], ks_terminal = ''completed'',
        ks_modality_set = Some TRAINABLE_MODALITIES, ks_modality_default = Some ''llm'', ks_id_field = None,
        ks_extra = [''summary'', ''best'', ''error''] \<rparr>),
     (''batch'', \<lparr> ks_route = ''batch'', ks_id_key = ''batch_id'', ks_gpu = False,
        ks_required = [''dataset_name'', ''dataset_version'', ''model''], ks_terminal = ''succeeded'',
        ks_modality_set = Some BATCH_MODALITIES, ks_modality_default = Some ''llm'', ks_id_field = None,
        ks_extra = [''result'', ''error''] \<rparr>),
     (''shadow'', \<lparr> ks_route = ''shadow-replay'', ks_id_key = ''shadow_id'', ks_gpu = True,
        ks_required = [''name'', ''challenger'', ''champion_version'', ''modality'', ''shadow_id''], ks_terminal = ''succeeded'',
        ks_modality_set = None, ks_modality_default = None, ks_id_field = Some ''shadow_id'',
        ks_extra = [''result'', ''error''] \<rparr>)]"

text \<open>\<open>modality not in CPU_TRAINABLE_MODALITIES\<close>, whatever the value.\<close>

definition needs_gpu :: "kind_spec \<Rightarrow> json \<Rightarrow> bool" where
  "needs_gpu k m = (ks_gpu k \<and> m \<notin> JStr ` set CPU_TRAINABLE_MODALITIES)"

definition IDEMPOTENCY_WINDOW_S :: rat where
  "IDEMPOTENCY_WINDOW_S = 900"

definition num_or_0 :: "json \<Rightarrow> rat" where
  "num_or_0 v = (case v of JFloat x \<Rightarrow> x | JInt i \<Rightarrow> of_int i | _ \<Rightarrow> 0)"

definition within_window :: "bag option \<Rightarrow> rat \<Rightarrow> bool" where
  "within_window rec now = (case rec of None \<Rightarrow> False
     | Some r \<Rightarrow> active_state (state_str r) \<or> now - num_or_0 (jget r ''submitted_at'') \<le> IDEMPOTENCY_WINDOW_S)"

section \<open>The manager\<close>

text \<open>A live worker thread: its job, its kind, and whether it has journalled \<open>running\<close>.\<close>

record worker =
  wk_job :: string
  wk_kind :: string
  wk_running :: bool

record jobman =
  jm_slot :: slot
  jm_journal :: journal
  jm_active :: "string option"
  jm_gpu_batch :: bool
  jm_lease :: bool
  jm_children :: "string list"
  jm_keys :: "(json, string) dict"
  jm_workers :: "worker list"

definition TRAINING :: string where "TRAINING = ''training''"
definition TRAIN_EST_GB :: rat where "TRAIN_EST_GB = 2"

datatype jreply = Answer nat bag | Raised

definition err :: "nat \<Rightarrow> string \<Rightarrow> jreply" where
  "err n t = Answer n [(''error'', JStr t)]"

definition py_lower :: "string \<Rightarrow> string" where
  "py_lower s = map (\<lambda>c. if 65 \<le> (of_char c :: nat) \<and> (of_char c :: nat) \<le> 90 then char_of ((of_char c :: nat) + 32) else c) s"

section \<open>Validation\<close>

text \<open>\<open>modality\<close> and the request with it, or the refusal; a modality that is not text has no \<open>lower\<close>.\<close>

definition check_modality :: "kind_spec \<Rightarrow> bag \<Rightarrow> jreply + json \<times> bag" where
  "check_modality k req = (case ks_modality_set k of
      None \<Rightarrow> Inr (jget req ''modality'', req)
    | Some ms \<Rightarrow>
        (case jor (jor (jget req ''modality'') (case ks_modality_default k of None \<Rightarrow> JNull | Some d \<Rightarrow> JStr d)) (JStr []) of
           JStr m \<Rightarrow> if py_lower m \<in> set ms then Inr (JStr (py_lower m), jset ''modality'' (JStr (py_lower m)) req)
                     else Inl (err 400 (''unknown modality '' @ py_lower m))
         | _ \<Rightarrow> Inl Raised))"

definition validate :: "string \<Rightarrow> bag \<Rightarrow> jreply + kind_spec \<times> json \<times> bag" where
  "validate kind req = (case map_of KINDS kind of
      None \<Rightarrow> Inl (err 400 (''unknown job kind '' @ kind))
    | Some k \<Rightarrow> (case find (\<lambda>f. \<not> truthy (jget req f)) (ks_required k) of
        Some f \<Rightarrow> Inl (err 400 (''missing field: '' @ f))
      | None \<Rightarrow> (case check_modality k req of Inl r \<Rightarrow> Inl r | Inr (m, req') \<Rightarrow> Inr (k, m, req'))))"

section \<open>Submit\<close>

definition key_record :: "json \<Rightarrow> jobman \<Rightarrow> (string \<times> bag) option" where
  "key_record key s = (case map_of (jm_keys s) key of None \<Rightarrow> None
     | Some hit \<Rightarrow> if hit = [] then None else map_option (\<lambda>r. (hit, r)) (journal_get hit (jm_journal s)))"

text \<open>The job an identical launch is answered with.\<close>

definition dedupe_hit :: "rat \<Rightarrow> bag \<Rightarrow> jobman \<Rightarrow> (string \<times> bag) option" where
  "dedupe_hit now req s =
     (let key = jget req ''idempotency_key'' in
      if key = JNull then None
      else case key_record key s of None \<Rightarrow> None
        | Some (hit, r) \<Rightarrow> if within_window (Some r) now then Some (hit, r) else None)"

definition take_lease :: "rat \<Rightarrow> rat option \<Rightarrow> kind_spec \<Rightarrow> json \<Rightarrow> jobman \<Rightarrow> jreply + jobman" where
  "take_lease now free k m s =
     (if \<not> needs_gpu k m then Inr s
      else case slot_acquire TRAINING ''job'' TRAIN_EST_GB free now (jm_slot s) of
         Inl (Held t swap) \<Rightarrow> Inl (Answer 409 [(''error'', JStr ''GPU held''), (''holder'', JStr t)])
       | Inl VramExceeded \<Rightarrow> Inl (err 507 ''insufficient VRAM'')
       | Inr (h, sl) \<Rightarrow> Inr (s\<lparr> jm_slot := sl, jm_lease := True \<rparr>))"

definition drop_lease :: "jobman \<Rightarrow> jobman" where
  "drop_lease s = (if jm_lease s then s\<lparr> jm_slot := slot_release TRAINING (jm_slot s), jm_lease := False \<rparr> else s)"

text \<open>\<open>_release\<close>.\<close>

definition jm_release :: "jobman \<Rightarrow> jobman" where
  "jm_release s = (drop_lease s)\<lparr> jm_active := None, jm_gpu_batch := False \<rparr>"

definition job_id_of :: "kind_spec \<Rightarrow> bag \<Rightarrow> string \<Rightarrow> json" where
  "job_id_of k req uuid = (case ks_id_field k of None \<Rightarrow> JStr uuid | Some f \<Rightarrow> jget req f)"

definition set_default :: "string \<Rightarrow> bag \<Rightarrow> bag" where
  "set_default f r = (if map_of r f = None then r @ [(f, JNull)] else r)"

definition job_record :: "rat \<Rightarrow> string \<Rightarrow> kind_spec \<Rightarrow> json \<Rightarrow> json \<Rightarrow> bag \<Rightarrow> bag" where
  "job_record now kind k m jid req =
     fold set_default (ks_extra k)
       (jset (ks_id_key k) jid
         [(''job_id'', jid), (''kind'', JStr kind), (''state'', JStr ''queued''), (''modality'', m), (''request'', JObj req),
          (''submitted_at'', JFloat now)])"

text \<open>The keys whose job still dedupes, then this one.\<close>

definition note_key :: "rat \<Rightarrow> json \<Rightarrow> string \<Rightarrow> jobman \<Rightarrow> jobman" where
  "note_key now key i s =
     (if key = JNull then s
      else s\<lparr> jm_keys := AList.update key i
         (filter (\<lambda>(k, j). within_window (journal_get j (jm_journal s)) now) (jm_keys s)) \<rparr>)"

definition jm_submit :: "rat \<Rightarrow> rat option \<Rightarrow> string \<Rightarrow> store_call \<Rightarrow> bool \<Rightarrow> string \<Rightarrow> bag \<Rightarrow> jobman \<Rightarrow> jreply \<times> jobman" where
  "jm_submit now free uuid out starts kind req s =
     (case validate kind req of
        Inl r \<Rightarrow> (r, s)
      | Inr (k, m, req') \<Rightarrow>
          (case dedupe_hit now req' s of
             Some (hit, r) \<Rightarrow> (Answer 200 [(ks_id_key k, JStr hit),
                (''status'', case map_of r ''state'' of None \<Rightarrow> JStr ''queued'' | Some st \<Rightarrow> st), (''idempotent'', JBool True)], s)
           | None \<Rightarrow>
               (case jm_active s of
                  Some j \<Rightarrow> (err 409 (''agent busy with job '' @ j), s)
                | None \<Rightarrow>
                    (case take_lease now free k m s of
                       Inl r \<Rightarrow> (r, s)
                     | Inr s1 \<Rightarrow>
                         (case (job_id_of k req' uuid, journal_submit out (job_record now kind k m (job_id_of k req' uuid) req') (jm_journal s1)) of
                            (JStr i, True, jn) \<Rightarrow>
                              (let s2 = (note_key now (jget req' ''idempotency_key'') i (s1\<lparr> jm_journal := jn \<rparr>))
                                      \<lparr> jm_active := Some i,
                                        jm_gpu_batch := (if kind = ''batch'' \<and> (case m of JStr x \<Rightarrow> is_gpu_batch x | _ \<Rightarrow> False) then True else jm_gpu_batch s1) \<rparr>
                               in if starts
                                  then (Answer 202 ([(ks_id_key k, JStr i), (''status'', JStr ''queued'')] @
                                          (if kind = ''hpo'' then [(''note'', JStr ''HPO trials run sequentially'')] else [])),
                                        s2\<lparr> jm_workers := jm_workers s2 @ [\<lparr> wk_job = i, wk_kind = kind, wk_running = False \<rparr>] \<rparr>)
                                  else (Raised, jm_release s2))
                          | (_, _, jn) \<Rightarrow> (Raised, drop_lease (s1\<lparr> jm_journal := jn \<rparr>)))))))"

section \<open>The worker\<close>

definition no_args :: transition_args where
  "no_args = \<lparr> ta_reason = JNull, ta_started = JNull, ta_ended = JNull, ta_result = JNull, ta_fields = [] \<rparr>"

definition drop_worker :: "string \<Rightarrow> jobman \<Rightarrow> jobman" where
  "drop_worker i s = s\<lparr> jm_workers := filter (\<lambda>w. wk_job w \<noteq> i) (jm_workers s) \<rparr>"

text \<open>The write of \<open>running\<close>; if it fails the thread gives the slot back and ends.\<close>

definition worker_start :: "rat \<Rightarrow> store_call \<Rightarrow> string \<Rightarrow> jobman \<Rightarrow> jobman" where
  "worker_start now out i s =
     (case journal_transition out i ''running'' (no_args\<lparr> ta_started := JFloat now \<rparr>) (jm_journal s) of
        (True, jn) \<Rightarrow> s\<lparr> jm_journal := jn, jm_workers := map (\<lambda>w. if wk_job w = i then w\<lparr> wk_running := True \<rparr> else w) (jm_workers s) \<rparr>
      | (False, jn) \<Rightarrow> drop_worker i (jm_release (s\<lparr> jm_journal := jn \<rparr>)))"

definition worker_spawn :: "string \<Rightarrow> int \<Rightarrow> jobman \<Rightarrow> jobman" where
  "worker_spawn i pid s = s\<lparr> jm_children := i # jm_children s, jm_slot := slot_set_child TRAINING pid (jm_slot s) \<rparr>"

definition update_status :: "bag \<Rightarrow> string" where
  "update_status u = (case map_of u ''status'' of Some (JStr st) \<Rightarrow> st | _ \<Rightarrow> ''failed'')"

text \<open>The runner has returned \<open>update\<close> (an exception is \<open>failed\<close>): the terminal state is journalled, then the
  slot is released, also when the write fails.\<close>

definition worker_end :: "rat \<Rightarrow> store_call \<Rightarrow> string \<Rightarrow> bag \<Rightarrow> jobman \<Rightarrow> jobman" where
  "worker_end now out i update s =
     (let fields = filter (\<lambda>(k, v). k \<noteq> ''result'' \<and> k \<noteq> ''status'') update;
          jn = snd (journal_transition out i (update_status update)
                  (no_args\<lparr> ta_ended := JFloat now, ta_result := jget update ''result'', ta_fields := fields \<rparr>) (jm_journal s))
      in drop_worker i (jm_release (s\<lparr> jm_journal := jn, jm_children := filter (\<lambda>c. c \<noteq> i) (jm_children s) \<rparr>)))"

section \<open>Reads, cancel, restart\<close>

definition health_fields :: "jobman \<Rightarrow> bool \<times> string option \<times> bool" where
  "health_fields s = (jm_active s \<noteq> None, jm_active s, jm_gpu_batch s)"

definition jm_cancel :: "string \<Rightarrow> jobman \<Rightarrow> bag" where
  "jm_cancel i s =
     (if i \<in> set (jm_children s) then [(''status'', JStr ''cancelling''), (''job_id'', JStr i)]
      else case journal_get i (jm_journal s) of
          None \<Rightarrow> [(''status'', JStr ''unknown''), (''detail'', JStr (''no job '' @ i))]
        | Some r \<Rightarrow> if active_state (state_str r)
            then [(''status'', JStr ''not-cancellable''), (''detail'', JStr ''in-process job (HPO/batch)'')]
            else [(''status'', jget r ''state''), (''detail'', JStr ''already terminal'')])"

definition legacy_view :: "bag \<Rightarrow> bag" where
  "legacy_view r =
     (case (case jget r ''kind'' of JStr x \<Rightarrow> map_of KINDS x | _ \<Rightarrow> None) of
        None \<Rightarrow> r
      | Some k \<Rightarrow>
          (let st = jget r ''state'';
               v0 = jset (ks_id_key k) (jget r ''job_id'') [];
               v1 = jset ''request'' (jget r ''request'') (jset ''status'' (if st = JStr ''interrupted'' then JStr ''failed'' else st) v0);
               v2 = fold (\<lambda>f v. if map_of r f = None then v else jset f (jget r f) v) (ks_extra k) v1
           in if jget r ''error'' = JNull then v2 else jset ''error'' (jget r ''error'') v2))"

definition jm_restart :: "rat \<Rightarrow> rat \<Rightarrow> jobman \<Rightarrow> jobman" where
  "jm_restart budget now s =
     \<lparr> jm_slot = init_slot budget, jm_journal = journal_restart ''agent restart'' now (jm_journal s), jm_active = None,
       jm_gpu_batch = False, jm_lease = False, jm_children = [], jm_keys = [], jm_workers = [] \<rparr>"

section \<open>The agent's job machine\<close>

datatype job_event =
    MSubmit rat "rat option" string store_call bool string bag
  | MStart rat store_call string
  | MSpawn string int
  | MEnd rat store_call string bag
  | MSlot slot_event
  | MEndSwap string
  | MRestart rat rat

definition has_worker :: "string \<Rightarrow> bool \<Rightarrow> jobman \<Rightarrow> bool" where
  "has_worker i running s = list_ex (\<lambda>w. wk_job w = i \<and> wk_running w = running) (jm_workers s)"

definition mstep :: "job_event \<Rightarrow> jobman \<Rightarrow> jobman option" where
  "mstep e s = (case e of
     MSubmit now free uuid out starts kind req \<Rightarrow> Some (snd (jm_submit now free uuid out starts kind req s))
   | MStart now out i \<Rightarrow> if has_worker i False s then Some (worker_start now out i s) else None
   | MSpawn i pid \<Rightarrow> if has_worker i True s then Some (worker_spawn i pid s) else None
   | MEnd now out i update \<Rightarrow> if has_worker i True s then Some (worker_end now out i update s) else None
   | MSlot ev \<Rightarrow> Some (s\<lparr> jm_slot := slot_run ev (jm_slot s) \<rparr>)
   | MEndSwap t \<Rightarrow> Some (s\<lparr> jm_slot := end_swap t (jm_slot s) \<rparr>)
   | MRestart budget now \<Rightarrow> Some (jm_restart budget now s))"

text \<open>The rest of the agent uses the slot under other tenants' names.\<close>

definition mok :: "job_event \<Rightarrow> jobman \<Rightarrow> bool" where
  "mok e s = (case e of
     MSlot (EvAcquire t _ _ _ _) \<Rightarrow> t \<noteq> TRAINING
   | MSlot (EvRelease t) \<Rightarrow> t \<noteq> TRAINING
   | _ \<Rightarrow> True)"

definition init_jobman :: "rat \<Rightarrow> jobman" where
  "init_jobman budget = \<lparr> jm_slot = init_slot budget, jm_journal = \<lparr> jn_store = [], jn_mem = [] \<rparr>, jm_active = None,
     jm_gpu_batch = False, jm_lease = False, jm_children = [], jm_keys = [], jm_workers = [] \<rparr>"

text \<open>The job that holds the lease is of a kind, and on a modality, that trains on the GPU.\<close>

definition gpu_job :: "string \<Rightarrow> journal \<Rightarrow> bool" where
  "gpu_job i jn = (case map_of (jn_mem jn) i of None \<Rightarrow> False
     | Some r \<Rightarrow> (case jget r ''kind'' of
          JStr x \<Rightarrow> (case map_of KINDS x of None \<Rightarrow> False | Some k \<Rightarrow> needs_gpu k (jget r ''modality''))
        | _ \<Rightarrow> False))"

definition jm_inv :: "jobman \<Rightarrow> bool" where
  "jm_inv s = ((jm_lease s \<longleftrightarrow> holds (jm_slot s) TRAINING) \<and>
     (case jm_active s of
        None \<Rightarrow> jm_workers s = [] \<and> \<not> jm_lease s \<and> \<not> jm_gpu_batch s
      | Some i \<Rightarrow> (\<exists>w. jm_workers s = [w] \<and> wk_job w = i) \<and> (jm_lease s \<longrightarrow> gpu_job i (jm_journal s))))"

lemma drop_lease_simps [simp]:
  "jm_journal (drop_lease s) = jm_journal s" "jm_active (drop_lease s) = jm_active s" "jm_workers (drop_lease s) = jm_workers s"
  "jm_gpu_batch (drop_lease s) = jm_gpu_batch s" "jm_lease (drop_lease s) = False" "jm_keys (drop_lease s) = jm_keys s"
  by (simp_all add: drop_lease_def)

lemma drop_lease_free: "(jm_lease s \<longleftrightarrow> holds (jm_slot s) TRAINING) \<Longrightarrow> \<not> holds (jm_slot (drop_lease s)) TRAINING"
  by (simp add: drop_lease_def adm.release_self)

lemma release_inv:
  "(jm_lease s \<longleftrightarrow> holds (jm_slot s) TRAINING) \<Longrightarrow> jm_workers s = [] \<Longrightarrow> jm_inv (jm_release s)"
  using drop_lease_free[of s] by (simp add: jm_inv_def jm_release_def)

lemma note_key_simps [simp]:
  "jm_journal (note_key now k i s) = jm_journal s" "jm_active (note_key now k i s) = jm_active s"
  "jm_workers (note_key now k i s) = jm_workers s" "jm_lease (note_key now k i s) = jm_lease s"
  "jm_slot (note_key now k i s) = jm_slot s" "jm_gpu_batch (note_key now k i s) = jm_gpu_batch s"
  by (simp_all add: note_key_def)

lemma map_of_set_default1: "map_of (set_default f r) x = (if map_of r x \<noteq> None then map_of r x else if x = f then Some JNull else None)"
  by (cases "map_of r f") (auto simp: set_default_def map_add_def split: option.splits)

lemma map_of_set_default:
  "map_of (fold set_default fs r) x = (if map_of r x \<noteq> None then map_of r x else if x \<in> set fs then Some JNull else None)"
  by (induction fs arbitrary: r) (simp_all add: map_of_set_default1)

lemma kinds_ids: "map_of KINDS x = Some k \<Longrightarrow> ks_id_key k \<noteq> ''kind'' \<and> ks_id_key k \<noteq> ''modality'' \<and> ks_id_key k \<noteq> ''job_id''"
  by (auto simp: KINDS_def split: if_splits)

lemma job_record_kind:
  assumes "map_of KINDS kind = Some k"
  shows "jget (job_record now kind k m jid req) ''kind'' = JStr kind" "jget (job_record now kind k m jid req) ''modality'' = m"
    "jget (job_record now kind k m jid req) ''job_id'' = jid"
  using kinds_ids[OF assms] by (auto simp: job_record_def jget_def map_of_set_default)

lemma validate_kind: "validate kind req = Inr (k, m, req') \<Longrightarrow> map_of KINDS kind = Some k"
  by (auto simp: validate_def split: option.splits sum.splits)

lemma submit_record:
  assumes "journal_submit out r jn = (True, jn')" and "jget r ''job_id'' = JStr i"
  shows "map_of (jn_mem jn') i = Some r"
  using assms by (auto simp: journal_submit_def journal_write_def dict_simps split: prod.splits if_splits)

lemma take_lease_cases:
  assumes t: "take_lease now free k m s = Inr s1" and h: "\<not> jm_lease s"
    and e: "jm_lease s \<longleftrightarrow> holds (jm_slot s) TRAINING"
  shows "(jm_lease s1 \<longleftrightarrow> holds (jm_slot s1) TRAINING) \<and> (jm_lease s1 \<longrightarrow> needs_gpu k m) \<and> jm_workers s1 = jm_workers s \<and>
    jm_active s1 = jm_active s \<and> jm_gpu_batch s1 = jm_gpu_batch s \<and> jm_journal s1 = jm_journal s"
proof (cases "needs_gpu k m")
  case False
  then show ?thesis using t h e by (simp add: take_lease_def)
next
  case True
  then obtain hd sl where "slot_acquire TRAINING ''job'' TRAIN_EST_GB free now (jm_slot s) = Inr (hd, sl)"
    and s1: "s1 = s\<lparr> jm_slot := sl, jm_lease := True \<rparr>"
    using t by (auto simp: take_lease_def split: sum.splits adm_error.splits)
  then have "holds sl TRAINING" using adm.acquire_owns by blast
  then show ?thesis using s1 True by simp
qed

lemma gpu_jobI:
  "map_of (jn_mem jn) i = Some r \<Longrightarrow> jget r ''kind'' = JStr x \<Longrightarrow> map_of KINDS x = Some k \<Longrightarrow> needs_gpu k (jget r ''modality'')
    \<Longrightarrow> gpu_job i jn"
  by (simp add: gpu_job_def)

lemma submit_inv:
  assumes i: "jm_inv s"
  shows "jm_inv (snd (jm_submit now free uuid out starts kind req s))"
proof (cases "validate kind req")
  case (Inl r)
  then show ?thesis using i by (simp add: jm_submit_def)
next
  case (Inr v)
  obtain k m req' where v: "v = (k, m, req')" by (metis prod_cases3)
  note va = Inr[unfolded v]
  show ?thesis
  proof (cases "dedupe_hit now req' s \<noteq> None \<or> jm_active s \<noteq> None")
    case True
    then show ?thesis using i va by (auto simp: jm_submit_def split: option.splits)
  next
    case False
    then have idle: "dedupe_hit now req' s = None" "jm_active s = None" by (cases "dedupe_hit now req' s"; auto)+
    have s: "jm_workers s = []" "\<not> jm_lease s" "\<not> jm_gpu_batch s" "jm_lease s \<longleftrightarrow> holds (jm_slot s) TRAINING"
      using i idle(2) by (auto simp: jm_inv_def)
    show ?thesis
    proof (cases "take_lease now free k m s")
      case (Inl r)
      then show ?thesis using i va idle by (simp add: jm_submit_def)
    next
      case (Inr s1)
      note t = take_lease_cases[OF Inr s(2,4)]
      let ?jid = "job_id_of k req' uuid"
      let ?rec = "job_record now kind k m ?jid req'"
      obtain ok jn where w: "journal_submit out ?rec (jm_journal s1) = (ok, jn)" by force
      have fail: "jm_inv (drop_lease (s1\<lparr> jm_journal := jn \<rparr>))"
        using t s idle drop_lease_free[of "s1\<lparr> jm_journal := jn \<rparr>"] by (simp add: jm_inv_def)
      show ?thesis
      proof (cases "ok \<and> (\<exists>j. ?jid = JStr j)")
        case False
        then have "snd (jm_submit now free uuid out starts kind req s) = drop_lease (s1\<lparr> jm_journal := jn \<rparr>)"
          using va idle Inr w by (auto simp: jm_submit_def split: json.splits)
        then show ?thesis using fail by simp
      next
        case True
        then obtain j where j: "?jid = JStr j" and ok by blast
        define s2 where "s2 = (note_key now (jget req' ''idempotency_key'') j (s1\<lparr> jm_journal := jn \<rparr>))
           \<lparr> jm_active := Some j, jm_gpu_batch := (if kind = ''batch'' \<and> (case m of JStr x \<Rightarrow> is_gpu_batch x | _ \<Rightarrow> False) then True else jm_gpu_batch s1) \<rparr>"
        have out: "snd (jm_submit now free uuid out starts kind req s) =
            (if starts then s2\<lparr> jm_workers := jm_workers s2 @ [\<lparr> wk_job = j, wk_kind = kind, wk_running = False \<rparr>] \<rparr> else jm_release s2)"
          using va idle Inr w j \<open>ok\<close> by (simp add: jm_submit_def Let_def s2_def)
        have f: "jm_workers s2 = []" "jm_lease s2 \<longleftrightarrow> holds (jm_slot s2) TRAINING" "jm_lease s2 \<Longrightarrow> needs_gpu k m"
          "jm_active s2 = Some j" "jm_journal s2 = jn"
          using t s by (simp_all add: s2_def)
        note kd = validate_kind[OF va]
        have "map_of (jn_mem jn) j = Some ?rec"
          using submit_record[of out ?rec "jm_journal s1" jn j] w \<open>ok\<close> j job_record_kind(3)[OF kd] by simp
        then have g: "jm_lease s2 \<Longrightarrow> gpu_job j jn"
          using gpu_jobI[of jn j ?rec kind k] f(3) kd by (simp add: job_record_kind[OF kd])
        show ?thesis unfolding out using f g release_inv[OF f(2,1)] by (simp add: jm_inv_def)
      qed
    qed
  qed
qed

lemma transition_kind:
  assumes g: "gpu_job i jn"
  shows "gpu_job i (snd (journal_transition out i to x jn))"
proof -
  obtain r y k where r: "map_of (jn_mem jn) i = Some r" "jget r ''kind'' = JStr y" "map_of KINDS y = Some k" "needs_gpu k (jget r ''modality'')"
    using g by (auto simp: gpu_job_def split: option.splits json.splits)
  have ne: "r \<noteq> []" using r(2) by (auto simp: jget_def)
  let ?t = "transition_record i to x jn"
  have l: "map_of ?t z = map_of r z" if "z \<in> set SHADOW_PROOF" "z \<noteq> ''state''" for z
  proof -
    have "map_of (rev (filter (\<lambda>(k, v). k \<notin> set SHADOW_PROOF) (transition_extra x))) z = None"
      using that(1) by (auto simp: map_of_eq_None_iff)
    then show ?thesis unfolding transition_record_def using r(1) ne that(2) by (simp add: map_of_jmerge_last)
  qed
  have k: "jget ?t ''kind'' = JStr y" "jget ?t ''modality'' = jget r ''modality''"
    using l[of "''kind''"] l[of "''modality''"] r(2) by (simp_all add: jget_def SHADOW_PROOF_def)
  have "map_of (jn_mem (snd (journal_write out i ?t jn))) i \<in> {Some r, Some ?t}"
    using r(1) by (auto simp: journal_write_def dict_simps split: prod.splits)
  then show ?thesis unfolding journal_transition_def using r k by (auto simp: gpu_job_def)
qed

lemma worker_release_inv:
  assumes "jm_inv s" and "jm_active s = Some i"
  shows "jm_inv (drop_worker i (jm_release (s\<lparr> jm_journal := jn, jm_children := cs \<rparr>)))"
proof -
  obtain w where w: "jm_workers s = [w]" "wk_job w = i" using assms by (auto simp: jm_inv_def)
  have "\<not> holds (jm_slot (drop_lease (s\<lparr> jm_journal := jn, jm_children := cs \<rparr>))) TRAINING"
    using assms(1) by (intro drop_lease_free) (simp add: jm_inv_def)
  then show ?thesis using w by (simp add: jm_inv_def jm_release_def drop_worker_def)
qed

lemma has_worker_active: "jm_inv s \<Longrightarrow> has_worker i b s \<Longrightarrow> jm_active s = Some i"
  by (auto simp: jm_inv_def has_worker_def split: option.splits)

lemma slot_run_other: "mok (MSlot ev) s \<Longrightarrow> holds (slot_run ev sl) TRAINING \<longleftrightarrow> holds sl TRAINING"
  by (cases ev) (auto simp: mok_def holds_def slot_acquire_def slot_release_def slot_set_child_def begin_swap_def Let_def
      split: option.splits sum.splits if_splits)

lemma jm_inv_slot:
  "jm_inv s \<Longrightarrow> holds sl TRAINING = holds (jm_slot s) TRAINING \<Longrightarrow> jm_inv (s\<lparr> jm_slot := sl \<rparr>)"
  by (cases "jm_active s") (auto simp: jm_inv_def)

lemma jm_inv_children: "jm_inv (s\<lparr> jm_children := cs \<rparr>) = jm_inv s"
  by (cases "jm_active s") (simp_all add: jm_inv_def)

lemma mstep_inv:
  assumes i: "jm_inv s" and o: "mok e s" and st: "mstep e s = Some s'"
  shows "jm_inv s'"
proof (cases e)
  case (MSubmit now free uuid out starts kind req)
  then show ?thesis using st submit_inv[OF i] by (auto simp: mstep_def)
next
  case (MStart now out j)
  then have h: "has_worker j False s" and s': "s' = worker_start now out j s" using st by (simp_all add: mstep_def split: if_splits)
  have a: "jm_active s = Some j" by (rule has_worker_active[OF i h])
  let ?x = "no_args\<lparr> ta_started := JFloat now \<rparr>"
  obtain ok jn where w: "journal_transition out j ''running'' ?x (jm_journal s) = (ok, jn)" by force
  show ?thesis
  proof (cases ok)
    case True
    have "gpu_job j (jm_journal s) \<Longrightarrow> gpu_job j jn" using transition_kind[of j "jm_journal s" out "''running''" ?x] w by simp
    then show ?thesis using i a w True s' by (auto simp: worker_start_def jm_inv_def)
  next
    case False
    then have "s' = drop_worker j (jm_release (s\<lparr> jm_journal := jn, jm_children := jm_children s \<rparr>))"
      using w s' by (simp add: worker_start_def)
    then show ?thesis using worker_release_inv[OF i a, of "jm_children s" jn] by simp
  qed
next
  case (MSpawn j pid)
  then have "s' = (s\<lparr> jm_children := j # jm_children s \<rparr>)\<lparr> jm_slot := slot_set_child TRAINING pid (jm_slot s) \<rparr>"
    using st by (simp add: mstep_def worker_spawn_def split: if_splits)
  moreover have "jm_inv (s\<lparr> jm_children := j # jm_children s \<rparr>)" using i by (simp only: jm_inv_children)
  ultimately show ?thesis
    using jm_inv_slot[of "s\<lparr> jm_children := j # jm_children s \<rparr>" "slot_set_child TRAINING pid (jm_slot s)"] adm.set_child_owns
    by simp
next
  case (MEnd now out j update)
  then have h: "has_worker j True s" and s': "s' = worker_end now out j update s" using st by (simp_all add: mstep_def split: if_splits)
  show ?thesis unfolding s' worker_end_def Let_def by (rule worker_release_inv[OF i has_worker_active[OF i h]])
next
  case (MSlot ev)
  then have "s' = s\<lparr> jm_slot := slot_run ev (jm_slot s) \<rparr>" using st by (simp add: mstep_def)
  moreover have "holds (slot_run ev (jm_slot s)) TRAINING = holds (jm_slot s) TRAINING"
    using o MSlot by (intro slot_run_other[of ev s]) simp
  ultimately show ?thesis using jm_inv_slot[OF i] by blast
next
  case (MEndSwap t)
  then have "s' = s\<lparr> jm_slot := end_swap t (jm_slot s) \<rparr>" using st by (simp add: mstep_def)
  moreover have "holds (end_swap t (jm_slot s)) TRAINING = holds (jm_slot s) TRAINING" by (simp add: end_swap_def holds_def)
  ultimately show ?thesis using jm_inv_slot[OF i] by blast
next
  case (MRestart budget now)
  then show ?thesis using st by (auto simp: mstep_def jm_restart_def jm_inv_def init_slot_def holds_def)
qed

interpretation agent_jobs: machine mstep mok jm_inv
  by unfold_locales (rule mstep_inv)

lemma init_jobman_inv: "jm_inv (init_jobman budget)"
  by (simp add: init_jobman_def jm_inv_def init_slot_def holds_def)

section \<open>What the job surface guarantees\<close>

text \<open>Claim C17. In every reachable state of the agent, whatever store writes fail or threads do not start: at
  most one worker is alive and it is the job holding the single slot; the GPU is held for training exactly
  when that job took the lease, and then its kind and modality do train on the GPU; with no job alive neither
  slot, lease nor batch flag is left behind.\<close>

theorem slot_and_lease_follow_the_one_job:
  assumes "run_events mstep es (init_jobman budget) = Some s" and "guarded mok mstep es (init_jobman budget)"
  shows "length (jm_workers s) \<le> 1 \<and>
    (holds (jm_slot s) TRAINING \<longleftrightarrow> jm_lease s) \<and>
    (case jm_active s of
       None \<Rightarrow> jm_workers s = [] \<and> \<not> holds (jm_slot s) TRAINING \<and> \<not> jm_gpu_batch s
     | Some i \<Rightarrow> (\<exists>w. jm_workers s = [w] \<and> wk_job w = i) \<and> (holds (jm_slot s) TRAINING \<longrightarrow> gpu_job i (jm_journal s)))"
proof -
  have "jm_inv s" by (rule agent_jobs.guarded_inv[OF assms init_jobman_inv])
  then show ?thesis by (auto simp: jm_inv_def split: option.splits)
qed

lemma dedupe_in_flight:
  assumes "validate kind req = Inr (k, m, req')" and "key_record (jget req' ''idempotency_key'') s = Some (hit, r)"
    and "jget req' ''idempotency_key'' \<noteq> JNull" and "active_state (state_str r)"
  shows "jm_submit now free uuid out starts kind req s =
    (Answer 200 [(ks_id_key k, JStr hit), (''status'', case map_of r ''state'' of None \<Rightarrow> JStr ''queued'' | Some st \<Rightarrow> st),
       (''idempotent'', JBool True)], s)"
  using assms by (simp add: jm_submit_def dedupe_hit_def within_window_def)

definition demo_request :: bag where
  "demo_request = [(''dataset_name'', JStr ''d''), (''dataset_version'', JStr ''1''), (''output_name'', JStr ''m''),
     (''idempotency_key'', JStr ''retrain-7'')]"

text \<open>A job whose worker could not journal \<open>running\<close> is dead - no worker, the slot free - yet its record
  stays queued, so for the rest of the agent's life every launch with its idempotency key, at any time, is
  answered with the dead job and starts nothing.\<close>

theorem dead_job_dedupes_for_ever:
  "\<exists>s. run_events mstep [MSubmit 0 (Some 8) ''j1'' CallWorks True ''finetune'' demo_request, MStart 1 CallFails ''j1'']
      (init_jobman 12) = Some s \<and>
    jm_workers s = [] \<and> jm_active s = None \<and> \<not> holds (jm_slot s) TRAINING \<and>
    (\<forall>now free uuid out starts. jm_submit now free uuid out starts ''finetune'' demo_request s =
       (Answer 200 [(''run_id'', JStr ''j1''), (''status'', JStr ''queued''), (''idempotent'', JBool True)], s))"
proof -
  let ?es = "[MSubmit 0 (Some 8) ''j1'' CallWorks True ''finetune'' demo_request, MStart 1 CallFails ''j1'']"
  define s where "s = the (run_events mstep ?es (init_jobman 12))"
  have "\<not> Option.is_none (run_events mstep ?es (init_jobman 12))" by code_simp
  then have run: "run_events mstep ?es (init_jobman 12) = Some s" unfolding s_def by (rule is_some)
  have w: "jm_workers s = []" "jm_active s = None" "\<not> holds (jm_slot s) TRAINING" unfolding s_def by code_simp+
  define v where "v = validate ''finetune'' demo_request"
  have v: "\<not> Option.is_none (case v of Inl _ \<Rightarrow> None | Inr (k, m, q) \<Rightarrow> if ks_id_key k = ''run_id'' \<and> jget q ''idempotency_key'' = JStr ''retrain-7'' then Some () else None)"
    unfolding v_def by code_simp
  then obtain k m q where va: "validate ''finetune'' demo_request = Inr (k, m, q)" "ks_id_key k = ''run_id''"
      "jget q ''idempotency_key'' = JStr ''retrain-7''"
    by (auto simp: Option.is_none_def v_def split: sum.splits prod.splits if_splits)
  define kr where "kr = key_record (JStr ''retrain-7'') s"
  have "case kr of None \<Rightarrow> False | Some (h, r) \<Rightarrow> h = ''j1'' \<and> active_state (state_str r) \<and> map_of r ''state'' = Some (JStr ''queued'')"
    unfolding kr_def s_def by code_simp
  then obtain r where r: "key_record (JStr ''retrain-7'') s = Some (''j1'', r)" "active_state (state_str r)"
      "map_of r ''state'' = Some (JStr ''queued'')"
    by (auto simp: kr_def split: option.splits prod.splits)
  have "jm_submit now free uuid out starts ''finetune'' demo_request s =
       (Answer 200 [(''run_id'', JStr ''j1''), (''status'', JStr ''queued''), (''idempotent'', JBool True)], s)"
    for now free uuid out starts
    using dedupe_in_flight[OF va(1), of s "''j1''" r] va(2,3) r by simp
  with run w show ?thesis by (intro exI conjI) blast+
qed

theorem slot_and_lease_follow_the_one_job_witness:
  "\<exists>s. run_events mstep [MSubmit 0 (Some 8) ''j1'' CallWorks True ''finetune'' demo_request, MStart 1 CallWorks ''j1'',
       MEnd 2 CallFails ''j1'' [(''status'', JStr ''completed'')]] (init_jobman 12) = Some s \<and>
     \<not> holds (jm_slot s) TRAINING \<and> jm_active s = None"
proof -
  let ?es = "[MSubmit 0 (Some 8) ''j1'' CallWorks True ''finetune'' demo_request, MStart 1 CallWorks ''j1'',
       MEnd 2 CallFails ''j1'' [(''status'', JStr ''completed'')]]"
  define s where "s = the (run_events mstep ?es (init_jobman 12))"
  have "\<not> Option.is_none (run_events mstep ?es (init_jobman 12))" by code_simp
  then have run: "run_events mstep ?es (init_jobman 12) = Some s" unfolding s_def by (rule is_some)
  have g: "guarded mok mstep ?es (init_jobman 12)" by (rule guarded_True) (auto simp: mok_def)
  have a: "jm_active s = None" unfolding s_def by code_simp
  have "\<not> holds (jm_slot s) TRAINING" using slot_and_lease_follow_the_one_job[OF run g] a by auto
  with run a show ?thesis by (intro exI conjI)
qed

end
