(* ===== verification/ShapeLanes.thy ===== *)
theory ShapeLanes
  imports Prelude
begin

text \<open>
  \<open>hostagent/scheduler.py\<close>: the two lanes in front of the coordinator and the anti-starvation bound.  What the
  coordinator answers to an admission and the clock are arguments.  A request passes the drain check, goes to
  the coordinator without the lane's lock, and is counted when it comes back.
\<close>

record lanes =
  la_burst :: nat
  la_wait :: rat
  la_admitted :: nat
  la_since :: "rat option"
  la_drain :: bool
  la_queued :: "string list"

definition init_lanes :: "nat \<Rightarrow> rat \<Rightarrow> lanes" where
  "init_lanes burst wait = \<lparr> la_burst = burst, la_wait = wait, la_admitted = 0, la_since = None, la_drain = False, la_queued = [] \<rparr>"

definition note_job_queued :: "rat \<Rightarrow> string option \<Rightarrow> lanes \<Rightarrow> lanes" where
  "note_job_queued now job l =
     (let l1 = (case job of None \<Rightarrow> l | Some j \<Rightarrow> if j \<in> set (la_queued l) then l else l\<lparr> la_queued := la_queued l @ [j] \<rparr>)
      in if la_since l1 = None then l1\<lparr> la_since := Some now, la_admitted := 0 \<rparr> else l1)"

text \<open>The wait clock restarts for whoever is left in the lane.\<close>

definition restart_clock :: "rat \<Rightarrow> lanes \<Rightarrow> lanes" where
  "restart_clock now l = l\<lparr> la_since := (if la_queued l = [] then None else Some now), la_admitted := 0, la_drain := False \<rparr>"

definition note_job_started :: "rat \<Rightarrow> string option \<Rightarrow> lanes \<Rightarrow> lanes" where
  "note_job_started now job l =
     restart_clock now (case job of None \<Rightarrow> l | Some j \<Rightarrow> l\<lparr> la_queued := remove1 j (la_queued l) \<rparr>)"

definition compute_drain_mode :: "rat \<Rightarrow> lanes \<Rightarrow> bool \<times> lanes" where
  "compute_drain_mode now l =
     (case la_since l of
        None \<Rightarrow> (False, l\<lparr> la_drain := False \<rparr>)
      | Some t \<Rightarrow>
          (let d = (la_drain l \<or> la_burst l \<le> la_admitted l \<or> la_wait l \<le> now - t)
           in (d, l\<lparr> la_drain := d \<rparr>)))"

text \<open>\<open>admit_serving\<close>, before and after the coordinator.\<close>

definition admit_check :: "rat \<Rightarrow> lanes \<Rightarrow> bool \<times> lanes" where
  "admit_check now l = (case compute_drain_mode now l of (d, l') \<Rightarrow> (\<not> d, l'))"

definition admit_count :: "bool \<Rightarrow> lanes \<Rightarrow> lanes" where
  "admit_count ok l = (if ok \<and> la_since l \<noteq> None then l\<lparr> la_admitted := la_admitted l + 1 \<rparr> else l)"

definition admit_head_job :: "rat \<Rightarrow> string \<Rightarrow> bool \<Rightarrow> lanes \<Rightarrow> bool \<times> lanes" where
  "admit_head_job now job acquired l = (acquired, if acquired then note_job_started now (Some job) l else l)"

definition end_lane_job :: "rat \<Rightarrow> lanes \<Rightarrow> lanes" where
  "end_lane_job now l = restart_clock now l"

text \<open>\<open>snapshot\<close>'s lane rows: \<open>None\<close>, not the empty list, when the lane cannot be read.\<close>

definition jobs_lane_view :: "(string \<times> 'a) list option \<Rightarrow> (string \<times> 'a) list option \<times> bool" where
  "jobs_lane_view rows = (rows, rows \<noteq> None)"

section \<open>Requests and jobs against the lanes\<close>

text \<open>The lanes, the requests that passed the check and are at the coordinator, and the time.\<close>

record lane_sys =
  ls_lanes :: lanes
  ls_pending :: nat
  ls_now :: rat

datatype lane_event = LQueue "string option" | LCheck | LReturn bool | LHead string bool | LEnd | LTick rat

definition lane_sys_step :: "lane_event \<Rightarrow> lane_sys \<Rightarrow> lane_sys option" where
  "lane_sys_step e s = (case e of
     LQueue j \<Rightarrow> Some (s\<lparr> ls_lanes := note_job_queued (ls_now s) j (ls_lanes s) \<rparr>)
   | LCheck \<Rightarrow> (case admit_check (ls_now s) (ls_lanes s) of
        (passed, l) \<Rightarrow> Some (s\<lparr> ls_lanes := l, ls_pending := ls_pending s + (if passed then 1 else 0) \<rparr>))
   | LReturn ok \<Rightarrow> if ls_pending s = 0 then None
        else Some (s\<lparr> ls_lanes := admit_count ok (ls_lanes s), ls_pending := ls_pending s - 1 \<rparr>)
   | LHead j acquired \<Rightarrow> Some (s\<lparr> ls_lanes := snd (admit_head_job (ls_now s) j acquired (ls_lanes s)) \<rparr>)
   | LEnd \<Rightarrow> Some (s\<lparr> ls_lanes := end_lane_job (ls_now s) (ls_lanes s) \<rparr>)
   | LTick d \<Rightarrow> if d < 0 then None else Some (s\<lparr> ls_now := ls_now s + d \<rparr>))"

definition init_sys :: "nat \<Rightarrow> rat \<Rightarrow> lane_sys" where
  "init_sys burst wait = \<lparr> ls_lanes = init_lanes burst wait, ls_pending = 0, ls_now = 0 \<rparr>"

section \<open>The burst bound\<close>

text \<open>At most \<open>k\<close> requests at the coordinator at a time.\<close>

definition at_most :: "nat \<Rightarrow> lane_event \<Rightarrow> lane_sys \<Rightarrow> bool" where
  "at_most k e s = (e = LCheck \<longrightarrow> ls_pending s < k)"

definition burst_inv :: "nat \<Rightarrow> nat \<Rightarrow> lane_sys \<Rightarrow> bool" where
  "burst_inv b k s = (la_burst (ls_lanes s) = b \<and> ls_pending s \<le> k \<and>
     la_admitted (ls_lanes s) + ls_pending s + 1 \<le> b + k)"

lemma restart_clock_simps [simp]:
  "la_burst (restart_clock now l) = la_burst l" "la_admitted (restart_clock now l) = 0" "la_wait (restart_clock now l) = la_wait l"
  "la_queued (restart_clock now l) = la_queued l" "la_drain (restart_clock now l) = False"
  "la_since (restart_clock now l) = (if la_queued l = [] then None else Some now)"
  by (simp_all add: restart_clock_def)

lemma queued_burst: "la_burst (note_job_queued now j l) = la_burst l \<and> la_admitted (note_job_queued now j l) \<le> la_admitted l"
  by (auto simp: note_job_queued_def Let_def split: option.splits)

lemma check_frame:
  "admit_check now l = (passed, l') \<Longrightarrow> la_burst l' = la_burst l \<and> la_wait l' = la_wait l \<and> la_admitted l' = la_admitted l \<and> la_since l' = la_since l \<and> la_queued l' = la_queued l"
  by (auto simp: admit_check_def compute_drain_mode_def Let_def split: option.splits)

lemma check_passed: "admit_check now l = (True, l') \<Longrightarrow> la_since l = None \<or> la_admitted l < la_burst l"
  by (auto simp: admit_check_def compute_drain_mode_def Let_def split: option.splits)

text \<open>While no job waits nothing is counted.\<close>

definition idle_inv :: "lane_sys \<Rightarrow> bool" where
  "idle_inv s = (la_since (ls_lanes s) = None \<longrightarrow> la_admitted (ls_lanes s) = 0)"

lemma started_simps [simp]:
  "la_burst (note_job_started now j l) = la_burst l" "la_admitted (note_job_started now j l) = 0"
  by (cases j; simp add: note_job_started_def)+

lemma burst_step:
  assumes i: "burst_inv b k s \<and> idle_inv s" and b: "0 < b" and o: "at_most k e s" and st: "lane_sys_step e s = Some s'"
  shows "burst_inv b k s' \<and> idle_inv s'"
proof (cases e)
  case (LQueue j)
  then have s': "s' = s\<lparr> ls_lanes := note_job_queued (ls_now s) j (ls_lanes s) \<rparr>" using st by (simp add: lane_sys_step_def)
  have "la_since (note_job_queued (ls_now s) j (ls_lanes s)) \<noteq> None"
    by (auto simp: note_job_queued_def Let_def split: option.splits)
  then show ?thesis using i s' queued_burst[of "ls_now s" j "ls_lanes s"] by (auto simp: burst_inv_def idle_inv_def)
next
  case LCheck
  obtain passed l where c: "admit_check (ls_now s) (ls_lanes s) = (passed, l)" by force
  have s': "s' = s\<lparr> ls_lanes := l, ls_pending := ls_pending s + (if passed then 1 else 0) \<rparr>"
    using st LCheck c by (simp add: lane_sys_step_def)
  have p: "ls_pending s < k" using o LCheck by (simp add: at_most_def)
  have "passed \<Longrightarrow> la_admitted (ls_lanes s) < b"
    using check_passed[of "ls_now s" "ls_lanes s" l] c i b by (auto simp: burst_inv_def idle_inv_def)
  then show ?thesis using i p s' check_frame[OF c] by (auto simp: burst_inv_def idle_inv_def)
next
  case (LReturn ok)
  then show ?thesis using i st by (auto simp: lane_sys_step_def admit_count_def burst_inv_def idle_inv_def split: if_splits)
next
  case (LHead j acquired)
  then show ?thesis using i st b
    by (auto simp: lane_sys_step_def admit_head_job_def burst_inv_def idle_inv_def)
next
  case LEnd
  then show ?thesis using i st b by (auto simp: lane_sys_step_def end_lane_job_def burst_inv_def idle_inv_def)
next
  case (LTick d)
  then show ?thesis using i st by (auto simp: lane_sys_step_def burst_inv_def idle_inv_def split: if_splits)
qed


section \<open>The wait bound, and what it rests on\<close>

text \<open>Events between a job's arrival at the head and its start.\<close>

definition no_start :: "lane_event \<Rightarrow> bool" where
  "no_start e = (case e of LHead _ acquired \<Rightarrow> \<not> acquired | LEnd \<Rightarrow> False | _ \<Rightarrow> True)"

definition waits_since :: "rat \<Rightarrow> rat \<Rightarrow> lane_sys \<Rightarrow> bool" where
  "waits_since t w s = (la_since (ls_lanes s) = Some t \<and> la_wait (ls_lanes s) = w \<and> t + w \<le> ls_now s)"

lemma waits_step:
  assumes "waits_since t w s" "no_start e" "lane_sys_step e s = Some s'"
  shows "waits_since t w s' \<and> (e = LCheck \<longrightarrow> ls_pending s' = ls_pending s)"
proof (cases e)
  case (LQueue j)
  then show ?thesis using assms by (auto simp: lane_sys_step_def waits_since_def note_job_queued_def Let_def split: option.splits)
next
  case LCheck
  have "fst (admit_check (ls_now s) (ls_lanes s)) = False"
    using assms(1) by (simp add: admit_check_def compute_drain_mode_def waits_since_def Let_def)
  then show ?thesis using assms LCheck check_frame[of "ls_now s" "ls_lanes s"]
    by (auto simp: lane_sys_step_def waits_since_def split: prod.splits)
qed (use assms in \<open>auto simp: lane_sys_step_def waits_since_def admit_count_def no_start_def admit_head_job_def split: if_splits\<close>)

text \<open>Bounded wait: once the head job has waited the configured time, no inference request passes any
  more, whatever arrives, until that job starts or a running one ends: the requests at the coordinator can
  only become fewer.\<close>

theorem head_job_stops_inference:
  assumes "la_since (ls_lanes s) = Some t" and "t + la_wait (ls_lanes s) \<le> ls_now s"
    and "run_events lane_sys_step es s = Some s'" and "list_all no_start es"
  shows "ls_pending s' \<le> ls_pending s \<and> \<not> fst (admit_check (ls_now s') (ls_lanes s'))"
proof -
  let ?w = "la_wait (ls_lanes s)"
  have "waits_since t ?w u \<Longrightarrow> run_events lane_sys_step es u = Some s' \<Longrightarrow> list_all no_start es
      \<Longrightarrow> ls_pending s' \<le> ls_pending u \<and> waits_since t ?w s'" for u
  proof (induction es arbitrary: u)
    case (Cons e es)
    obtain v where v: "lane_sys_step e u = Some v" "run_events lane_sys_step es v = Some s'"
      using Cons.prems(2) by (auto split: option.splits)
    have w: "waits_since t ?w v \<and> (e = LCheck \<longrightarrow> ls_pending v = ls_pending u)"
      using waits_step[OF Cons.prems(1) _ v(1)] Cons.prems(3) by simp
    have "ls_pending v \<le> ls_pending u"
      using w v(1) by (cases e) (auto simp: lane_sys_step_def split: if_splits)
    moreover have "ls_pending s' \<le> ls_pending v \<and> waits_since t ?w s'"
      using Cons.IH[OF _ v(2)] w Cons.prems(3) by simp
    ultimately show ?case by simp
  qed simp
  from this[of s] assms have "ls_pending s' \<le> ls_pending s" "waits_since t ?w s'" by (auto simp: waits_since_def)
  then show ?thesis by (simp add: admit_check_def compute_drain_mode_def waits_since_def Let_def)
qed

lemma unannounced_step:
  "la_since (ls_lanes s) = None \<and> la_queued (ls_lanes s) = [] \<Longrightarrow> (\<forall>j. e \<noteq> LQueue j) \<Longrightarrow> lane_sys_step e s = Some s'
    \<Longrightarrow> la_since (ls_lanes s') = None \<and> la_queued (ls_lanes s') = []"
  using check_frame[of "ls_now s" "ls_lanes s"]
  by (cases e) (auto simp: lane_sys_step_def admit_count_def admit_head_job_def note_job_started_def end_lane_job_def
      split: prod.splits if_splits)

text \<open>The bound rests on \<open>note_job_queued\<close>: in every run in which no job is announced to it, however
  long and whatever jobs hold the GPU, no inference request is ever stopped.\<close>

theorem unannounced_jobs_never_drain:
  assumes "run_events lane_sys_step es (init_sys b w) = Some s" and "list_all (\<lambda>e. \<forall>j. e \<noteq> LQueue j) es"
  shows "fst (admit_check (ls_now s) (ls_lanes s))"
proof -
  have "la_since (ls_lanes u) = None \<and> la_queued (ls_lanes u) = [] \<Longrightarrow> run_events lane_sys_step es u = Some s
      \<Longrightarrow> list_all (\<lambda>e. \<forall>j. e \<noteq> LQueue j) es \<Longrightarrow> la_since (ls_lanes s) = None" for u
  proof (induction es arbitrary: u)
    case (Cons e es)
    obtain v where v: "lane_sys_step e u = Some v" "run_events lane_sys_step es v = Some s"
      using Cons.prems(2) by (auto split: option.splits)
    show ?case using Cons.IH[OF _ v(2)] unannounced_step[OF Cons.prems(1) _ v(1)] Cons.prems(3) by simp
  qed simp
  from this[of "init_sys b w"] assms have "la_since (ls_lanes s) = None" by (simp add: init_sys_def init_lanes_def)
  then show ?thesis by (simp add: admit_check_def compute_drain_mode_def)
qed

section \<open>Witnesses\<close>


theorem head_job_stops_inference_witness:
  "\<exists>s s'. run_events lane_sys_step [LQueue (Some ''j''), LCheck, LTick 60] (init_sys 5 60) = Some s \<and>
     run_events lane_sys_step [LCheck, LQueue None, LTick 9, LCheck] s = Some s' \<and> ls_pending s' \<le> ls_pending s"
proof -
  let ?es = "[LQueue (Some ''j''), LCheck, LTick 60]"
  let ?fs = "[LCheck, LQueue None, LTick 9, LCheck]"
  define s where "s = the (run_events lane_sys_step ?es (init_sys 5 60))"
  define s' where "s' = the (run_events lane_sys_step ?fs s)"
  have "\<not> Option.is_none (run_events lane_sys_step ?es (init_sys 5 60))" by code_simp
  then have run: "run_events lane_sys_step ?es (init_sys 5 60) = Some s" unfolding s_def by (rule is_some)
  have "\<not> Option.is_none (run_events lane_sys_step ?fs s)" unfolding s_def by code_simp
  then have run': "run_events lane_sys_step ?fs s = Some s'" unfolding s'_def by (rule is_some)
  have t: "la_since (ls_lanes s) = Some 0" "0 + la_wait (ls_lanes s) \<le> ls_now s" unfolding s_def by code_simp+
  have n: "list_all no_start ?fs" by (simp add: no_start_def)
  show ?thesis using head_job_stops_inference[OF t run' n] run run' by (intro exI[of _ s] exI[of _ s'] conjI) simp_all
qed

theorem unannounced_jobs_never_drain_witness:
  "\<exists>s. run_events lane_sys_step [LHead ''j'' True, LTick 1000, LCheck, LReturn True] (init_sys 1 60) = Some s \<and>
     fst (admit_check (ls_now s) (ls_lanes s))"
proof -
  let ?es = "[LHead ''j'' True, LTick 1000, LCheck, LReturn True]"
  define s where "s = the (run_events lane_sys_step ?es (init_sys 1 60))"
  have "\<not> Option.is_none (run_events lane_sys_step ?es (init_sys 1 60))" by code_simp
  then have run: "run_events lane_sys_step ?es (init_sys 1 60) = Some s" unfolding s_def by (rule is_some)
  have n: "list_all (\<lambda>e. \<forall>j. e \<noteq> LQueue j) ?es" by simp
  show ?thesis using unannounced_jobs_never_drain[OF run n] run by blast
qed

end
