(* ===== verification/Contracts.thy ===== *)
theory Contracts
  imports Json "HOL-Library.List_Lexorder" "HOL-Library.Char_ord"
begin

text \<open>
  \<open>platformlib/contracts.py\<close>: the typed payloads, as classes with fields, defaults and a check, and the write-time
  validation of a model policy; together with the reads \<open>gateway/app/scheduler.py\<close> makes of a stored policy when
  a check is due and when a retrain is launched.  The number parsers \<open>int(s)\<close> and \<open>float(s)\<close> on text and
  \<open>json.loads\<close> are arguments.
\<close>

section \<open>Payload classes\<close>

datatype contract_error = NotAnObject | BadJson | Required string | Invalid string | Negative string
  | TypeError | Errors "(string \<times> string) list"

record contract =
  cc_fields :: "(string \<times> json) list"
  cc_check :: "bag \<Rightarrow> contract_error option"

text \<open>\<open>_require\<close>: the first of the named attributes that is \<open>None\<close> or the empty string.\<close>

definition require :: "string list \<Rightarrow> bag \<Rightarrow> contract_error option" where
  "require names obj = map_option Required (find (\<lambda>n. jget obj n = JNull \<or> jget obj n = JStr []) names)"

definition orelse :: "contract_error option \<Rightarrow> contract_error option \<Rightarrow> contract_error option" where
  "orelse a b = (case a of None \<Rightarrow> b | Some e \<Rightarrow> Some e)"

definition one_of :: "string \<Rightarrow> string list \<Rightarrow> bag \<Rightarrow> contract_error option" where
  "one_of f vs obj = (if jget obj f \<in> JStr ` set vs then None else Some (Invalid f))"

fun non_negative :: "string \<Rightarrow> json \<Rightarrow> contract_error option" where
  "non_negative f (JInt i) = (if i < 0 then Some (Negative f) else None)"
| "non_negative f (JFloat x) = (if x < 0 then Some (Negative f) else None)"
| "non_negative f (JBool b) = None"
| "non_negative f _ = Some TypeError"

definition JOB_KINDS :: "string list" where
  "JOB_KINDS = [''train'', ''hpo'', ''batch'', ''shadow'']"

definition JOB_STATES :: "string list" where
  "JOB_STATES = [''queued'', ''running'', ''succeeded'', ''failed'', ''interrupted'']"

definition ENGINE_STATES :: "string list" where
  "ENGINE_STATES = [''disabled'', ''unavailable'', ''cold'', ''loading'', ''ready'', ''draining'', ''idle-releasing'', ''wedged'']"

definition EngineState :: contract where
  "EngineState = \<lparr> cc_fields = [(''engine_id'', JStr []), (''state'', JStr ''cold''), (''gpu'', JBool False), (''optional'', JBool False),
      (''reason'', JNull), (''pid'', JNull), (''device_index'', JNull), (''vram_gb'', JNull), (''model_identity'', JNull),
      (''registry_version'', JNull), (''started_at'', JNull), (''active_requests'', JNull), (''residency_state'', JNull)],
     cc_check = (\<lambda>obj. orelse (require [''engine_id''] obj) (one_of ''state'' ENGINE_STATES obj)) \<rparr>"

definition AgentHealth :: contract where
  "AgentHealth = \<lparr> cc_fields = [(''ok'', JBool True), (''engines'', JObj []), (''gpu_free_gb'', JNull), (''holder'', JNull),
      (''holder_kind'', JNull), (''wedged'', JBool False), (''jobs_active'', JInt 0), (''interrupted_since_start'', JInt 0)],
     cc_check = (\<lambda>obj. None) \<rparr>"

definition AdmissionRequest :: contract where
  "AdmissionRequest = \<lparr> cc_fields = [(''tenant'', JStr []), (''kind'', JStr ''serving''), (''est_gb'', JFloat 0)],
     cc_check = (\<lambda>obj. orelse (require [''tenant''] obj) (orelse (one_of ''kind'' [''serving'', ''job''] obj)
        (non_negative ''est_gb'' (jget obj ''est_gb'')))) \<rparr>"

definition AdmissionResult :: contract where
  "AdmissionResult = \<lparr> cc_fields = [(''admitted'', JBool False), (''holder'', JNull), (''reason'', JNull)], cc_check = (\<lambda>obj. None) \<rparr>"

definition SwapCommand :: contract where
  "SwapCommand = \<lparr> cc_fields = [(''target'', JStr []), (''drain_timeout_s'', JFloat 10)],
     cc_check = (\<lambda>obj. orelse (require [''target''] obj) (non_negative ''drain_timeout_s'' (jget obj ''drain_timeout_s''))) \<rparr>"

definition UnloadResult :: contract where
  "UnloadResult = \<lparr> cc_fields = [(''status'', JStr ''idle''), (''drained'', JNull), (''detail'', JNull)],
     cc_check = one_of ''status'' [''unloaded'', ''idle'', ''busy''] \<rparr>"

definition JobSubmit :: contract where
  "JobSubmit = \<lparr> cc_fields = [(''kind'', JStr []), (''modality'', JStr []), (''request'', JObj [])],
     cc_check = (\<lambda>obj. orelse (require [''kind'', ''modality''] obj) (one_of ''kind'' JOB_KINDS obj)) \<rparr>"

definition PendingRetrain :: contract where
  "PendingRetrain = \<lparr> cc_fields = [(''model_name'', JStr []), (''breach'', JObj []), (''attempts'', JInt 0), (''next_attempt_at'', JFloat 0)],
     cc_check = require [''model_name''] \<rparr>"

definition SUGGESTION_STATES :: "string list" where
  "SUGGESTION_STATES = [''open'', ''accepted'', ''dismissed'', ''auto-promoted'']"

definition PromotionSuggestion :: contract where
  "PromotionSuggestion = \<lparr> cc_fields = [(''id'', JStr []), (''model_name'', JStr []), (''candidate_version'', JStr []),
      (''gate_verdict'', JObj []), (''shadow_verdict'', JNull), (''state'', JStr ''open''), (''created_at'', JFloat 0),
      (''resolved_at'', JNull), (''actor'', JNull)],
     cc_check = (\<lambda>obj. orelse (require [''id'', ''model_name'', ''candidate_version''] obj) (one_of ''state'' SUGGESTION_STATES obj)) \<rparr>"

definition JobRecord :: contract where
  "JobRecord = \<lparr> cc_fields = [(''job_id'', JStr []), (''kind'', JStr []), (''modality'', JStr []), (''request'', JObj []),
      (''state'', JStr ''queued''), (''submitted_at'', JFloat 0), (''started_at'', JNull), (''ended_at'', JNull), (''result'', JNull), (''reason'', JNull)],
     cc_check = (\<lambda>obj. orelse (require [''job_id'', ''kind''] obj) (orelse (one_of ''kind'' JOB_KINDS obj) (one_of ''state'' JOB_STATES obj))) \<rparr>"

text \<open>\<open>_from_json\<close>: the known fields of an object, the defaults for the rest, then the check.\<close>

definition build :: "contract \<Rightarrow> bag \<Rightarrow> bag" where
  "build c d = map (\<lambda>(f, v). (f, case map_of d f of None \<Rightarrow> v | Some x \<Rightarrow> x)) (cc_fields c)"

definition from_json :: "(string \<Rightarrow> json option) \<Rightarrow> contract \<Rightarrow> json \<Rightarrow> contract_error + bag" where
  "from_json loads c data =
     (case (case data of JStr s \<Rightarrow> loads s | v \<Rightarrow> Some v) of
        None \<Rightarrow> Inl BadJson
      | Some (JObj d) \<Rightarrow> (case cc_check c (build c d) of None \<Rightarrow> Inr (build c d) | Some e \<Rightarrow> Inl e)
      | Some _ \<Rightarrow> Inl NotAnObject)"

definition to_dict :: "bag \<Rightarrow> json" where
  "to_dict obj = JObj obj"

text \<open>The object \<open>to_json\<close> prints, with \<open>sort_keys\<close>.\<close>

definition to_json :: "bag \<Rightarrow> json" where
  "to_json obj = JObj (sort_key fst obj)"

section \<open>Model policies\<close>

definition MONITOR_KINDS :: "string list" where
  "MONITOR_KINDS = [''input_drift'', ''quality'']"

definition PROMOTION_MODES :: "string list" where
  "PROMOTION_MODES = [''manual'', ''suggest'', ''auto-on-green'']"

definition POLICY_MODALITIES :: "string list" where
  "POLICY_MODALITIES = [''llm'', ''vision'', ''embeddings'', ''asr'', ''tabular'']"

text \<open>\<open>int\<close> and \<open>float\<close> of a value; \<open>None\<close> is the \<open>TypeError\<close> or \<open>ValueError\<close>.\<close>

record parsers =
  pa_int :: "string \<Rightarrow> int option"
  pa_float :: "string \<Rightarrow> rat option"

fun py_int :: "parsers \<Rightarrow> json \<Rightarrow> int option" where
  "py_int p (JInt i) = Some i"
| "py_int p (JBool b) = Some (if b then 1 else 0)"
| "py_int p (JFloat x) = Some (if x < 0 then \<lceil>x\<rceil> else \<lfloor>x\<rfloor>)"
| "py_int p (JStr s) = pa_int p s"
| "py_int p _ = None"

fun py_float :: "parsers \<Rightarrow> json \<Rightarrow> rat option" where
  "py_float p (JInt i) = Some (of_int i)"
| "py_float p (JBool b) = Some (if b then 1 else 0)"
| "py_float p (JFloat x) = Some x"
| "py_float p (JStr s) = pa_float p s"
| "py_float p _ = None"

text \<open>The numeric knobs of a monitor: present, and the cast satisfies the bound.\<close>

definition knob_ok :: "parsers \<Rightarrow> bag \<Rightarrow> string \<Rightarrow> bool" where
  "knob_ok p mon k =
     (let v = jget mon k in v = JNull \<or>
        (if k = ''window_n'' then (case py_int p v of None \<Rightarrow> False | Some i \<Rightarrow> i > 0)
         else (case py_float p v of None \<Rightarrow> False
           | Some x \<Rightarrow> if k = ''drop_pct'' then x \<ge> 0 else if k = ''threshold'' then x > 0 else True)))"

definition KNOBS :: "string list" where
  "KNOBS = [''window_n'', ''drop_pct'', ''threshold'', ''baseline'']"

text \<open>The errors of one monitor.\<close>

definition monitor_errors :: "parsers \<Rightarrow> json \<Rightarrow> (string \<times> string) list" where
  "monitor_errors p m = (case m of
      JObj mon \<Rightarrow>
        (if jget mon ''kind'' \<notin> JStr ` set MONITOR_KINDS then [(''kind'', ''must be one of the monitor kinds'')]
         else (if jget mon ''kind'' = JStr ''input_drift'' \<and>
                  (case jget mon ''reference'' of JObj r \<Rightarrow> \<not> (truthy (jget r ''name'') \<and> truthy (jget r ''version'')) | _ \<Rightarrow> True)
               then [(''reference'', ''input_drift needs a reference dataset'')] else []) @
              map (\<lambda>k. (k, ''out of range'')) (filter (\<lambda>k. \<not> knob_ok p mon k) KNOBS))
    | _ \<Rightarrow> [(''kind'', ''must be one of the monitor kinds'')])"

text \<open>What \<open>enumerate(self.monitors)\<close> goes through; a number or \<open>True\<close> cannot be iterated.\<close>

fun iterate :: "json \<Rightarrow> json list option" where
  "iterate (JList l) = Some l"
| "iterate (JObj d) = Some (map (JStr \<circ> fst) d)"
| "iterate (JStr s) = Some (map (\<lambda>c. JStr [c]) s)"
| "iterate _ = None"

definition breach_errors :: "json \<Rightarrow> bag \<Rightarrow> (string \<times> string) list" where
  "breach_errors model obj = (case jget obj ''on_breach'' of
      JObj ob \<Rightarrow>
        (if jget ob ''action'' \<noteq> JStr ''retrain'' then [(''on_breach.action'', ''must be retrain'')]
         else if \<not> truthy (jget ob ''dataset'') then [(''on_breach.dataset'', ''required'')]
         else (case jor (jget ob ''params'') (JObj []) of
             JObj ps \<Rightarrow>
               (if \<not> truthy (jget ps ''dataset_name'') then [(''on_breach.params.dataset_name'', ''required'')]
                else if jor (jget ps ''output_name'') model \<noteq> model then [(''on_breach.params.output_name'', ''must equal the policy model'')]
                else [])
           | _ \<Rightarrow> [(''on_breach.params'', ''must be an object of retrain parameters'')]))
    | _ \<Rightarrow> [(''on_breach.action'', ''must be retrain'')])"

definition interval_ok :: "json \<Rightarrow> bool" where
  "interval_ok v = (case v of JInt i \<Rightarrow> 60 \<le> i | _ \<Rightarrow> False)"

definition is_bool :: "json \<Rightarrow> bool" where
  "is_bool v = (case v of JBool _ \<Rightarrow> True | _ \<Rightarrow> False)"

definition policy_check :: "parsers \<Rightarrow> bag \<Rightarrow> contract_error option" where
  "policy_check p obj =
     (let model = jget obj ''model_name''; mons = jget obj ''monitors'' in
      case iterate mons of
        None \<Rightarrow> Some TypeError
      | Some ms \<Rightarrow>
          (let es = (if truthy model then [] else [(''model_name'', ''required'')]) @
                (if jget obj ''modality'' \<in> JStr ` set POLICY_MODALITIES then [] else [(''modality'', ''must be one of the modalities'')]) @
                (if interval_ok (jget obj ''check_interval_s'') then [] else [(''check_interval_s'', ''must be an integer >= 60'')]) @
                (if is_bool (jget obj ''enabled'') then [] else [(''enabled'', ''must be a boolean'')]) @
                (if truthy mons then [] else [(''monitors'', ''at least one monitor is required'')]) @
                concat (map (monitor_errors p) ms) @ breach_errors model obj @
                (if jget obj ''promotion_mode'' \<in> JStr ` set PROMOTION_MODES then [] else [(''promotion_mode'', ''must be one of the modes'')])
           in if es = [] then None else Some (Errors es)))"

definition ModelPolicy :: "parsers \<Rightarrow> contract" where
  "ModelPolicy p = \<lparr> cc_fields = [(''model_name'', JStr []), (''modality'', JStr []), (''monitors'', JList []), (''check_interval_s'', JInt 900),
      (''on_breach'', JObj [(''action'', JStr ''retrain''), (''dataset'', JStr ''latest''), (''params'', JObj [])]),
      (''promotion_mode'', JStr ''manual''), (''enabled'', JBool True), (''updated_at'', JFloat 0), (''updated_by'', JStr [])],
     cc_check = policy_check p \<rparr>"

section \<open>What the scheduler reads of a stored policy\<close>

definition MODALITY_TASK :: "(string, string) dict" where
  "MODALITY_TASK = [(''llm'', ''text-generation''), (''vision'', ''image-classification''), (''embeddings'', ''embedding''),
     (''asr'', ''asr''), (''tabular'', ''tabular'')]"

text \<open>The call a due check makes, given the version that serves: its task, window, drop and baseline, or its two data sets and threshold.
  \<open>None\<close> is an exception, which the tick records as a check error.\<close>

datatype check_call = NotServing | QualityCall string int rat "rat option" | DriftCall json json json rat

record check_defaults =
  cd_window :: int
  cd_drop :: rat
  cd_threshold :: rat

text \<open>\<open>cast(monitor.get(key, default))\<close>: the default only for a missing key.\<close>

definition knob :: "(json \<Rightarrow> 'a option) \<Rightarrow> 'a \<Rightarrow> bag \<Rightarrow> string \<Rightarrow> 'a option" where
  "knob cast d mon k = (case map_of mon k of None \<Rightarrow> Some d | Some v \<Rightarrow> cast v)"

definition default_check :: "parsers \<Rightarrow> check_defaults \<Rightarrow> string option \<Rightarrow> bag \<Rightarrow> bag \<Rightarrow> check_call option" where
  "default_check p cd served policy mon =
     (if jget mon ''kind'' = JStr ''quality'' then
        (if served = None \<or> served = Some [] then Some NotServing
         else case (jget policy ''modality'', knob (py_int p) (cd_window cd) mon ''window_n'', knob (py_float p) (cd_drop cd) mon ''drop_pct'') of
           (JStr m, Some n, Some dp) \<Rightarrow>
             (case map_of MODALITY_TASK m of None \<Rightarrow> None
              | Some t \<Rightarrow> (if jget mon ''baseline'' = JNull then Some (QualityCall t n dp None)
                  else case py_float p (jget mon ''baseline'') of None \<Rightarrow> None | Some b \<Rightarrow> Some (QualityCall t n dp (Some b))))
         | _ \<Rightarrow> None)
      else (case (jget mon ''reference'', jget policy ''on_breach'', knob (py_float p) (cd_threshold cd) mon ''threshold'') of
           (JObj r, JObj ob, Some th) \<Rightarrow>
             (case (map_of r ''name'', map_of r ''version'',
                    if truthy (jget mon ''current_name'') then Some (jget mon ''current_name'')
                    else case jget ob ''params'' of JObj ps \<Rightarrow> map_of ps ''dataset_name'' | _ \<Rightarrow> None) of
                (Some n, Some v, Some cur) \<Rightarrow> Some (DriftCall n v cur th)
              | _ \<Rightarrow> None)
         | _ \<Rightarrow> None))"

text \<open>\<open>_default_launch\<close>: the body of the retrain request, before its idempotency key.\<close>

definition launch_body :: "bag \<Rightarrow> json \<Rightarrow> json \<Rightarrow> bag" where
  "launch_body policy name version =
     (let ps = (case jget policy ''on_breach'' of JObj ob \<Rightarrow> (case jor (jget ob ''params'') (JObj []) of JObj ps \<Rightarrow> ps | _ \<Rightarrow> []) | _ \<Rightarrow> [])
      in jset ''output_name'' (jget policy ''model_name'')
           (jset ''dataset_version'' version (jset ''dataset_name'' name (jset ''modality'' (jget policy ''modality'') ps))))"

section \<open>Round trips\<close>

definition contracts :: "parsers \<Rightarrow> contract list" where
  "contracts p = [EngineState, AgentHealth, AdmissionRequest, AdmissionResult, SwapCommand, UnloadResult, JobSubmit, PendingRetrain,
     PromotionSuggestion, JobRecord, ModelPolicy p]"

lemma contracts_distinct: "c \<in> set (contracts p) \<Longrightarrow> distinct (dkeys (cc_fields c))"
  by (auto simp: contracts_def EngineState_def AgentHealth_def AdmissionRequest_def AdmissionResult_def SwapCommand_def UnloadResult_def
      JobSubmit_def PendingRetrain_def PromotionSuggestion_def JobRecord_def ModelPolicy_def)

lemma build_same:
  assumes d: "distinct (dkeys (cc_fields c))" and k: "dkeys obj = dkeys (cc_fields c)"
    and e: "\<And>f. f \<in> set (dkeys obj) \<Longrightarrow> map_of d' f = map_of obj f"
  shows "build c d' = obj"
proof (rule nth_equalityI)
  have l: "length obj = length (cc_fields c)" using k by (metis length_map)
  then show "length (build c d') = length obj" by (simp add: build_def)
  fix i
  assume "i < length (build c d')"
  then have i: "i < length obj" using l by (simp add: build_def)
  obtain f v where fv: "obj ! i = (f, v)" by force
  obtain g w where gw: "cc_fields c ! i = (g, w)" by force
  have "dkeys obj ! i = dkeys (cc_fields c) ! i" using k by simp
  then have g: "g = f" using i l fv gw by simp
  have do: "distinct (dkeys obj)" using d k by simp
  have "map_of obj f = Some v" using i fv do by (metis map_of_is_SomeI nth_mem)
  moreover have "f \<in> set (dkeys obj)" using i fv by (force simp: in_set_conv_nth)
  ultimately have "map_of d' f = Some v" using e by simp
  then show "build c d' ! i = obj ! i" using i l fv gw g by (simp add: build_def)
qed

text \<open>Round trip: every payload of every contract, serialized with sorted keys or as a dictionary and
  parsed again, is the same payload; and fields a newer peer adds are ignored.\<close>

theorem contract_round_trips:
  assumes "c \<in> set (contracts p)" and "dkeys obj = dkeys (cc_fields c)" and "cc_check c obj = None"
    and "set (dkeys extra) \<inter> set (dkeys (cc_fields c)) = {}"
  shows "from_json loads c (to_json obj) = Inr obj \<and> from_json loads c (to_dict obj) = Inr obj \<and>
    from_json loads c (JObj (extra @ obj)) = Inr obj"
proof -
  have d: "distinct (dkeys (cc_fields c))" by (rule contracts_distinct[OF assms(1)])
  then have do: "distinct (dkeys obj)" using assms(2) by simp
  have ds: "distinct (dkeys (sort_key fst obj))" using do by (simp add: distinct_map)
  have "map_of (sort_key fst obj) = map_of obj" using ds do by (subst map_of_inject_set) simp_all
  then have b1: "build c (sort_key fst obj) = obj" by (intro build_same[OF d assms(2)]) simp
  have b2: "build c obj = obj" by (rule build_same[OF d assms(2)]) simp
  have ex: "map_of (extra @ obj) f = map_of obj f" if "f \<in> set (dkeys obj)" for f
  proof -
    have "map_of extra f = None" using that assms(2,4) by (metis disjoint_iff dkeys_iff_map_of)
    then show ?thesis by (simp add: map_add_def split: option.splits)
  qed
  have b3: "build c (extra @ obj) = obj" by (rule build_same[OF d assms(2) ex])
  show ?thesis using b1 b2 b3 assms(3) by (simp add: from_json_def to_json_def to_dict_def)
qed

section \<open>Validated policies\<close>

lemma policy_check_ok:
  assumes "policy_check p obj = None" and "jget obj ''monitors'' = JList ms"
  shows "jget obj ''modality'' \<in> JStr ` set POLICY_MODALITIES" "\<forall>m \<in> set ms. monitor_errors p m = []"
    "breach_errors (jget obj ''model_name'') obj = []" "truthy (jget obj ''model_name'')"
  using assms by (auto simp: policy_check_def Let_def split: if_splits)

lemma breach_ok:
  assumes "breach_errors model obj = []"
  obtains ob ps where "jget obj ''on_breach'' = JObj ob" "jget ob ''params'' = JObj ps" "truthy (jget ps ''dataset_name'')"
proof -
  obtain ob where ob: "jget obj ''on_breach'' = JObj ob"
    using assms by (auto simp: breach_errors_def split: json.splits)
  obtain ps where ps: "jor (jget ob ''params'') (JObj []) = JObj ps" "truthy (jget ps ''dataset_name'')"
    using assms ob by (auto simp: breach_errors_def split: json.splits if_splits)
  have "ps \<noteq> []" using ps(2) by (auto simp: jget_def)
  then have "jget ob ''params'' = JObj ps" using ps(1) by (auto simp: jor_def split: if_splits)
  with ob ps(2) show thesis using that by blast
qed

lemma truthy_present: "truthy (jget d k) \<Longrightarrow> \<exists>v. map_of d k = Some v \<and> v \<noteq> JNull"
  by (auto simp: jget_def split: option.splits)

lemma knob_some:
  assumes "v \<noteq> Some JNull" and "\<And>x. v = Some x \<Longrightarrow> cast x \<noteq> None" and "map_of mon k = v"
  shows "\<exists>y. knob cast d mon k = Some y"
  using assms by (auto simp: knob_def split: option.splits)

lemma knob_casts:
  assumes "knob_ok p mon k" "map_of mon k = Some x" "x \<noteq> JNull"
  shows "if k = ''window_n'' then py_int p x \<noteq> None else py_float p x \<noteq> None"
  using assms by (auto simp: knob_ok_def jget_def Let_def split: if_splits option.splits)


section \<open>Witnesses\<close>

definition demo_parsers :: parsers where
  "demo_parsers = \<lparr> pa_int = (\<lambda>_. None), pa_float = (\<lambda>_. None) \<rparr>"

definition demo_policy :: "(string \<times> json) list \<Rightarrow> json" where
  "demo_policy mon = JObj [(''model_name'', JStr ''m''), (''modality'', JStr ''llm''), (''monitors'', JList [JObj mon]),
     (''on_breach'', JObj [(''action'', JStr ''retrain''), (''dataset'', JStr ''latest''),
        (''params'', JObj [(''dataset_name'', JStr ''d'')])])]"

definition demo_built :: "(string \<times> json) list \<Rightarrow> bag" where
  "demo_built mon = build (ModelPolicy demo_parsers) (case demo_policy mon of JObj d \<Rightarrow> d | _ \<Rightarrow> [])"

text \<open>An explicit null in a numeric knob passes validation and makes every due check of the policy
  fail while anything serves, whatever the defaults are: the policy is stored and never evaluates.\<close>

theorem null_knob_is_accepted_and_never_checks:
  "from_json loads (ModelPolicy demo_parsers) (demo_policy [(''kind'', JStr ''quality''), (''window_n'', JNull)]) =
     Inr (demo_built [(''kind'', JStr ''quality''), (''window_n'', JNull)]) \<and>
   (\<forall>cd c cs. default_check demo_parsers cd (Some (c # cs)) (demo_built [(''kind'', JStr ''quality''), (''window_n'', JNull)])
      [(''kind'', JStr ''quality''), (''window_n'', JNull)] = None)"
proof -
  let ?m = "[(''kind'', JStr ''quality''), (''window_n'', JNull)]"
  have c: "policy_check demo_parsers (demo_built ?m) = None" by code_simp
  have "from_json loads (ModelPolicy demo_parsers) (demo_policy ?m) = Inr (demo_built ?m)"
    using c by (simp add: from_json_def demo_policy_def demo_built_def ModelPolicy_def)
  moreover have "default_check demo_parsers cd (Some (c # cs)) (demo_built ?m) ?m = None" for cd c cs
    by (simp add: default_check_def jget_def knob_def split: json.splits option.splits)
  ultimately show ?thesis by blast
qed


theorem contract_round_trips_witness:
  "from_json (\<lambda>_. None) SwapCommand (JObj ([(''confirm'', JBool True)] @ [(''target'', JStr ''asr''), (''drain_timeout_s'', JInt 5)])) =
     Inr [(''target'', JStr ''asr''), (''drain_timeout_s'', JInt 5)]"
proof -
  let ?o = "[(''target'', JStr ''asr''), (''drain_timeout_s'', JInt 5)]"
  have "SwapCommand \<in> set (contracts demo_parsers)" by (simp add: contracts_def)
  moreover have "dkeys ?o = dkeys (cc_fields SwapCommand)" by code_simp
  moreover have "cc_check SwapCommand ?o = None" by code_simp
  moreover have "set (dkeys [(''confirm'', JBool True)]) \<inter> set (dkeys (cc_fields SwapCommand)) = {}" by code_simp
  ultimately show ?thesis using contract_round_trips by blast
qed

end
