(* ===== verification/Effects.thy ===== *)
theory Effects
  imports Prelude
begin

text \<open>
  Stateful code that may raise, in the style of explicit state passing: a computation takes a state and
  gives an exception or a value, and the state it leaves behind (what was written before an exception
  stays written).  \<open>wp\<close> is the weakest precondition of a computation for a normal and an exceptional
  postcondition, \<open>keeps\<close> says that a computation relates the states before and after by a relation
  whatever its outcome; the collection \<open>keeps\<close> holds its rules.
\<close>

type_synonym ('s, 'x, 'a) comp = "'s \<Rightarrow> ('x + 'a) \<times> 's"

definition ret :: "'a \<Rightarrow> ('s, 'x, 'a) comp" where
  "ret a s = (Inr a, s)"

definition throw :: "'x \<Rightarrow> ('s, 'x, 'a) comp" where
  "throw x s = (Inl x, s)"

definition seq :: "('s, 'x, 'a) comp \<Rightarrow> ('a \<Rightarrow> ('s, 'x, 'b) comp) \<Rightarrow> ('s, 'x, 'b) comp" where
  "seq m f s = (case m s of (Inl x, s') \<Rightarrow> (Inl x, s') | (Inr a, s') \<Rightarrow> f a s')"

text \<open>\<open>try: m  except: h\<close>, and \<open>try: m  except: h  else: k\<close> (the handler does not guard \<open>k\<close>).\<close>

definition catch :: "('s, 'x, 'a) comp \<Rightarrow> ('x \<Rightarrow> ('s, 'x, 'a) comp) \<Rightarrow> ('s, 'x, 'a) comp" where
  "catch m h s = (case m s of (Inl x, s') \<Rightarrow> h x s' | (Inr a, s') \<Rightarrow> (Inr a, s'))"

definition try_else :: "('s, 'x, 'a) comp \<Rightarrow> ('x \<Rightarrow> ('s, 'x, 'b) comp) \<Rightarrow> ('a \<Rightarrow> ('s, 'x, 'b) comp) \<Rightarrow> ('s, 'x, 'b) comp" where
  "try_else m h k s = (case m s of (Inl x, s') \<Rightarrow> h x s' | (Inr a, s') \<Rightarrow> k a s')"

text \<open>\<open>try: m  finally: f\<close>, for a clean-up that cannot raise.\<close>

definition ensuring :: "('s, 'x, 'a) comp \<Rightarrow> ('s \<Rightarrow> 's) \<Rightarrow> ('s, 'x, 'a) comp" where
  "ensuring m f s = (case m s of (r, s') \<Rightarrow> (r, f s'))"

definition gets :: "('s \<Rightarrow> 'a) \<Rightarrow> ('s, 'x, 'a) comp" where
  "gets f s = (Inr (f s), s)"

definition modify :: "('s \<Rightarrow> 's) \<Rightarrow> ('s, 'x, unit) comp" where
  "modify f s = (Inr (), f s)"

definition of_option :: "'x \<Rightarrow> 'a option \<Rightarrow> ('s, 'x, 'a) comp" where
  "of_option x v = (case v of None \<Rightarrow> throw x | Some a \<Rightarrow> ret a)"

text \<open>The body for each element in turn, the results concatenated.\<close>

fun for_each :: "('a \<Rightarrow> ('s, 'x, 'b list) comp) \<Rightarrow> 'a list \<Rightarrow> ('s, 'x, 'b list) comp" where
  "for_each f [] = ret []"
| "for_each f (a # as) = seq (f a) (\<lambda>xs. seq (for_each f as) (\<lambda>ys. ret (xs @ ys)))"

section \<open>Weakest preconditions\<close>

definition wp :: "('s, 'x, 'a) comp \<Rightarrow> ('a \<Rightarrow> 's \<Rightarrow> bool) \<Rightarrow> ('x \<Rightarrow> 's \<Rightarrow> bool) \<Rightarrow> 's \<Rightarrow> bool" where
  "wp m Q E s = (case m s of (Inl x, s') \<Rightarrow> E x s' | (Inr a, s') \<Rightarrow> Q a s')"

named_theorems wp "weakest preconditions of computations"

lemma wp_ret [wp]: "wp (ret a) Q E = Q a"
  by (simp add: wp_def ret_def fun_eq_iff)

lemma wp_throw [wp]: "wp (throw x) Q E = E x"
  by (simp add: wp_def throw_def fun_eq_iff)

lemma wp_seq [wp]: "wp (seq m f) Q E = wp m (\<lambda>a. wp (f a) Q E) E"
  by (simp add: wp_def seq_def fun_eq_iff split: prod.splits sum.splits)

lemma wp_catch [wp]: "wp (catch m h) Q E = wp m Q (\<lambda>x. wp (h x) Q E)"
  by (simp add: wp_def catch_def fun_eq_iff split: prod.splits sum.splits)

lemma wp_try_else [wp]: "wp (try_else m h k) Q E = wp m (\<lambda>a. wp (k a) Q E) (\<lambda>x. wp (h x) Q E)"
  by (simp add: wp_def try_else_def fun_eq_iff split: prod.splits sum.splits)

lemma wp_ensuring [wp]: "wp (ensuring m f) Q E = wp m (\<lambda>a s. Q a (f s)) (\<lambda>x s. E x (f s))"
  by (simp add: wp_def ensuring_def fun_eq_iff split: prod.splits sum.splits)

lemma wp_gets [wp]: "wp (gets f) Q E = (\<lambda>s. Q (f s) s)"
  by (simp add: wp_def gets_def fun_eq_iff)

lemma wp_modify [wp]: "wp (modify f) Q E = (\<lambda>s. Q () (f s))"
  by (simp add: wp_def modify_def fun_eq_iff)

lemma wp_of_option [wp]: "wp (of_option x v) Q E = (case v of None \<Rightarrow> E x | Some a \<Rightarrow> Q a)"
  by (cases v) (simp_all add: of_option_def wp)

lemma wp_mono: "wp m Q E s \<Longrightarrow> (\<And>a t. Q a t \<Longrightarrow> Q' a t) \<Longrightarrow> (\<And>x t. E x t \<Longrightarrow> E' x t) \<Longrightarrow> wp m Q' E' s"
  by (auto simp: wp_def split: prod.splits sum.splits)

lemma wp_triv: "wp m (\<lambda>_ _. True) (\<lambda>_ _. True) s"
  by (simp add: wp_def split: prod.splits sum.splits)

lemma wp_conj: "wp m Q E s \<Longrightarrow> wp m Q' E' s \<Longrightarrow> wp m (\<lambda>a t. Q a t \<and> Q' a t) (\<lambda>x t. E x t \<and> E' x t) s"
  by (auto simp: wp_def split: prod.splits sum.splits)

lemma wp_ifI: "(b \<Longrightarrow> wp m Q E s) \<Longrightarrow> (\<not> b \<Longrightarrow> wp n Q E s) \<Longrightarrow> wp (if b then m else n) Q E s"
  by simp

lemma wp_snd: "wp m (\<lambda>_. Q) (\<lambda>_. Q) s \<longleftrightarrow> Q (snd (m s))"
  by (auto simp: wp_def split: prod.splits sum.splits)

lemma wp_for_each:
  assumes "\<And>a s. a \<in> set as \<Longrightarrow> I s \<Longrightarrow> wp (f a) (\<lambda>_. I) E s" and "I s"
  shows "wp (for_each f as) (\<lambda>_. I) E s"
  using assms
proof (induction as arbitrary: s)
  case (Cons a as)
  have "wp (f a) (\<lambda>_. I) E s" using Cons.prems by simp
  then show ?case unfolding for_each.simps wp_seq by (rule wp_mono) (use Cons in \<open>simp_all add: wp\<close>)
qed (simp add: wp)

section \<open>Relations every outcome keeps\<close>

definition keeps :: "('s \<Rightarrow> 's \<Rightarrow> bool) \<Rightarrow> ('s, 'x, 'a) comp \<Rightarrow> bool" where
  "keeps R m = (\<forall>s. R s (snd (m s)))"

named_theorems keeps "computations that relate the states before and after"

locale kept =
  fixes R :: "'s \<Rightarrow> 's \<Rightarrow> bool"
  assumes kept_refl: "R s s"
    and kept_trans: "R s t \<Longrightarrow> R t u \<Longrightarrow> R s u"
begin

lemma keeps_ret: "keeps R (ret a)"
  by (simp add: keeps_def ret_def kept_refl)

lemma keeps_throw: "keeps R (throw x)"
  by (simp add: keeps_def throw_def kept_refl)

lemma keeps_gets: "keeps R (gets f)"
  by (simp add: keeps_def gets_def kept_refl)

lemma keeps_seq: "keeps R m \<Longrightarrow> (\<And>a. keeps R (f a)) \<Longrightarrow> keeps R (seq m f)"
  unfolding keeps_def seq_def by (simp split: prod.splits sum.splits) (metis kept_trans snd_conv)

lemma keeps_catch: "keeps R m \<Longrightarrow> (\<And>x. keeps R (h x)) \<Longrightarrow> keeps R (catch m h)"
  unfolding keeps_def catch_def by (simp split: prod.splits sum.splits) (metis kept_trans snd_conv)

lemma keeps_try_else: "keeps R m \<Longrightarrow> (\<And>x. keeps R (h x)) \<Longrightarrow> (\<And>a. keeps R (k a)) \<Longrightarrow> keeps R (try_else m h k)"
  unfolding keeps_def try_else_def by (simp split: prod.splits sum.splits) (metis kept_trans snd_conv)

lemma keeps_of_option: "keeps R (of_option x v)"
  by (cases v) (simp_all add: of_option_def keeps_ret keeps_throw)

lemma keeps_for_each: "(\<And>a. a \<in> set as \<Longrightarrow> keeps R (f a)) \<Longrightarrow> keeps R (for_each f as)"
  by (induction as) (simp_all add: keeps_ret keeps_seq)

lemmas keeps_rules = keeps_ret keeps_throw keeps_gets keeps_seq keeps_catch keeps_try_else keeps_of_option

end

lemma keeps_modify: "(\<And>s. R s (f s)) \<Longrightarrow> keeps R (modify f)"
  by (simp add: keeps_def modify_def)

lemma keeps_if [keeps]: "(b \<Longrightarrow> keeps R m) \<Longrightarrow> (\<not> b \<Longrightarrow> keeps R n) \<Longrightarrow> keeps R (if b then m else n)"
  by simp

lemma keeps_option [keeps]:
  "(v = None \<Longrightarrow> keeps R m) \<Longrightarrow> (\<And>a. v = Some a \<Longrightarrow> keeps R (f a)) \<Longrightarrow> keeps R (case v of None \<Rightarrow> m | Some a \<Rightarrow> f a)"
  by (cases v) simp_all

lemma keeps_let [keeps]: "keeps R (f v) \<Longrightarrow> keeps R (Let v f)"
  by simp

lemma keepsD: "keeps R m \<Longrightarrow> R s (snd (m s))"
  by (simp add: keeps_def)

lemma keeps_wp: "keeps R m \<Longrightarrow> (\<And>t. R s t \<Longrightarrow> Q t) \<Longrightarrow> wp m (\<lambda>_. Q) (\<lambda>_. Q) s"
  by (simp add: wp_snd keeps_def)

end
