(* ===== verification/PolicyStore.thy ===== *)
theory PolicyStore
  imports Contracts JobStore Effects
begin

text \<open>
  \<open>gateway/app/policies.py\<close> over \<open>platformlib/storeimpl/policies.py\<close> and \<open>suggestions.py\<close>: the policy rows with
  their queue-of-one parked retrain and their status, the promotion suggestions, the resolution of a data
  set's latest version, and the platform-wide retrain cooldown of \<open>gateway/app/quality.py\<close>.  Every store call
  works, fails before it takes effect, or takes effect and loses its answer; the answers of the coming calls
  are part of the state, as are the coming readings of the monotonic clock and the coming random ids.
\<close>

section \<open>Rows\<close>

record breach =
  bc_signal :: json
  bc_score :: json
  bc_at :: rat

record park =
  pk_breach :: breach
  pk_attempts :: nat
  pk_next :: rat
  pk_landed :: bool

record watch =
  wa_run :: json
  wa_unknown :: "rat option"

record candidate =
  cn_version :: json
  cn_gate :: bag
  cn_shadow :: "bag option"
  cn_at :: rat

record status =
  st_last :: "rat option"
  st_results :: "bag list"
  st_due :: "rat option"
  st_watch :: "watch option"
  st_candidate :: "candidate option"

record policy_row =
  pr_doc :: bag
  pr_pending :: "park option"
  pr_status :: "status option"

record suggestion =
  sg_model :: string
  sg_version :: string
  sg_gate :: bag
  sg_shadow :: "bag option"
  sg_state :: string
  sg_created :: rat
  sg_resolved :: "rat option"
  sg_actor :: "string option"

text \<open>The calls that reach the trainer and the registry, in order.\<close>

datatype launch_answer = Accepted bag | BusyNow | LaunchFails | LaunchLost

record launch =
  la_model :: string
  la_dataset :: json
  la_version :: json
  la_answer :: launch_answer

record promote_call =
  pc_model :: string
  pc_version :: json
  pc_answer :: "bag option"

record ploop =
  wl_rows :: "(string, policy_row) dict"
  wl_sugs :: "(string, suggestion) dict"
  wl_stamp :: rat
  wl_mono :: rat
  wl_calls :: "store_call list"
  wl_delays :: "rat list"
  wl_ids :: "string list"
  wl_launches :: "launch list"
  wl_promotes :: "promote_call list"

datatype fault = StoreDown | PolicyBad | Conflict | Busy | Failure

type_synonym 'a op = "(ploop, fault, 'a) comp"

section \<open>Store calls\<close>

text \<open>\<open>_op\<close>: one statement on the cached connection.  \<open>None\<close> is a constraint the statement violates.\<close>

definition next_call :: "ploop \<Rightarrow> store_call" where
  "next_call w = (case wl_calls w of [] \<Rightarrow> CallWorks | c # cs \<Rightarrow> c)"

definition answered :: "ploop \<Rightarrow> ploop" where
  "answered w = w\<lparr> wl_calls := tl (wl_calls w) \<rparr>"

definition db :: "(ploop \<Rightarrow> ('a \<times> ploop) option) \<Rightarrow> 'a op" where
  "db f w =
     (case f (answered w) of
        None \<Rightarrow> (Inl StoreDown, answered w)
      | Some (a, w') \<Rightarrow>
          (case next_call w of CallWorks \<Rightarrow> (Inr a, w') | CallFails \<Rightarrow> (Inl StoreDown, answered w) | CallLost \<Rightarrow> (Inl StoreDown, w')))"

definition db_read :: "(ploop \<Rightarrow> 'a) \<Rightarrow> 'a op" where
  "db_read f = db (\<lambda>w. Some (f w, w))"

definition db_write :: "(ploop \<Rightarrow> ploop) \<Rightarrow> unit op" where
  "db_write f = db (\<lambda>w. Some ((), f w))"

definition on_row :: "string \<Rightarrow> (policy_row \<Rightarrow> policy_row) \<Rightarrow> ploop \<Rightarrow> ploop" where
  "on_row m f w = w\<lparr> wl_rows := dict_upd m f (wl_rows w) \<rparr>"

subsection \<open>Policies\<close>

definition row_put :: "string \<Rightarrow> bag \<Rightarrow> (string, policy_row) dict \<Rightarrow> (string, policy_row) dict" where
  "row_put m d rows = (if m \<in> set (dkeys rows) then dict_upd m (\<lambda>r. r\<lparr> pr_doc := d \<rparr>) rows
     else rows @ [(m, \<lparr> pr_doc = d, pr_pending = None, pr_status = None \<rparr>)])"

definition declared :: "string \<Rightarrow> rat \<Rightarrow> string \<Rightarrow> bag \<Rightarrow> bag" where
  "declared m now who doc = jset ''updated_by'' (JStr who) (jset ''updated_at'' (JFloat now) (jset ''model_name'' (JStr m) doc))"

definition put_policy :: "parsers \<Rightarrow> string \<Rightarrow> rat \<Rightarrow> string \<Rightarrow> bag \<Rightarrow> bag op" where
  "put_policy p m now who doc =
     (case from_json (\<lambda>_. None) (ModelPolicy p) (JObj (declared m now who doc)) of
        Inl _ \<Rightarrow> throw PolicyBad
      | Inr d \<Rightarrow> seq (db_write (\<lambda>w. w\<lparr> wl_rows := row_put m d (wl_rows w) \<rparr>)) (\<lambda>_. ret d))"

definition get_policy :: "string \<Rightarrow> bag option op" where
  "get_policy m = seq (db_read (\<lambda>w. map_option pr_doc (map_of (wl_rows w) m)))
     (\<lambda>d. ret (case d of None \<Rightarrow> None | Some d \<Rightarrow> if truthy (jget d ''model_name'') then Some d else None))"

text \<open>\<open>ORDER BY model_name\<close>: the rank of a name in the database's collation is an argument.\<close>

definition list_policies :: "(string \<Rightarrow> nat) \<Rightarrow> (string \<times> bag) list op" where
  "list_policies coll = db_read (\<lambda>w. map (\<lambda>(m, r). (m, pr_doc r)) (sort_key (\<lambda>(m, r). coll m) (wl_rows w)))"

definition delete_policy :: "string \<Rightarrow> unit op" where
  "delete_policy m = db_write (\<lambda>w. w\<lparr> wl_rows := AList.delete m (wl_rows w) \<rparr>)"

definition get_pending :: "string \<Rightarrow> park option op" where
  "get_pending m = db_read (\<lambda>w. case map_of (wl_rows w) m of None \<Rightarrow> None | Some r \<Rightarrow> pr_pending r)"

definition save_pending :: "string \<Rightarrow> park \<Rightarrow> unit op" where
  "save_pending m k = (if m = [] then throw Failure else db_write (on_row m (\<lambda>r. r\<lparr> pr_pending := Some k \<rparr>)))"

definition clear_pending :: "string \<Rightarrow> unit op" where
  "clear_pending m = db_write (on_row m (\<lambda>r. r\<lparr> pr_pending := None \<rparr>))"

definition get_status :: "string \<Rightarrow> status option op" where
  "get_status m = db_read (\<lambda>w. case map_of (wl_rows w) m of None \<Rightarrow> None | Some r \<Rightarrow> pr_status r)"

definition save_status :: "string \<Rightarrow> status \<Rightarrow> unit op" where
  "save_status m s = db_write (on_row m (\<lambda>r. r\<lparr> pr_status := Some s \<rparr>))"

definition or_empty :: "status option \<Rightarrow> status" where
  "or_empty s = (case s of Some s \<Rightarrow> s
     | None \<Rightarrow> \<lparr> st_last = None, st_results = [], st_due = None, st_watch = None, st_candidate = None \<rparr>)"

subsection \<open>Suggestions\<close>

definition matching :: "string \<Rightarrow> string \<Rightarrow> string \<Rightarrow> suggestion \<Rightarrow> bool" where
  "matching m v s x = (sg_model x = m \<and> sg_version x = v \<and> sg_state x = s)"

definition find_suggestion :: "string \<Rightarrow> string \<Rightarrow> string \<Rightarrow> suggestion option op" where
  "find_suggestion m v s = db_read (\<lambda>w. map_option snd (find (\<lambda>(i, x). matching m v s x) (wl_sugs w)))"

definition new_id :: "string op" where
  "new_id w = (Inr (case wl_ids w of [] \<Rightarrow> [] | i # is \<Rightarrow> i), w\<lparr> wl_ids := tl (wl_ids w) \<rparr>)"

definition insert_suggestion :: "string \<Rightarrow> suggestion \<Rightarrow> unit op" where
  "insert_suggestion i x = db (\<lambda>w. if i \<in> set (dkeys (wl_sugs w)) then None
     else Some ((), w\<lparr> wl_sugs := wl_sugs w @ [(i, x)] \<rparr>))"

definition create_suggestion ::
  "rat \<Rightarrow> string \<Rightarrow> string \<Rightarrow> bag \<Rightarrow> bag option \<Rightarrow> string \<Rightarrow> string option \<Rightarrow> suggestion op" where
  "create_suggestion now m v gate shadow s actor =
     seq (find_suggestion m v s) (\<lambda>e. case e of
        Some x \<Rightarrow> ret x
      | None \<Rightarrow> seq new_id (\<lambda>i.
          (let x = \<lparr> sg_model = m, sg_version = v, sg_gate = gate, sg_shadow = shadow, sg_state = s, sg_created = now,
                     sg_resolved = (if s = ''auto-promoted'' then Some now else None), sg_actor = actor \<rparr>
           in if i = [] \<or> m = [] \<or> v = [] \<or> s \<notin> set SUGGESTION_STATES then throw Failure
              else seq (insert_suggestion i x) (\<lambda>_. ret x))))"

definition get_suggestion :: "string \<Rightarrow> suggestion option op" where
  "get_suggestion i = db_read (\<lambda>w. map_of (wl_sugs w) i)"

definition list_suggestions :: "string option \<Rightarrow> string option \<Rightarrow> (string \<times> suggestion) list op" where
  "list_suggestions s m = db_read (\<lambda>w. sort_key (\<lambda>(i, x). - sg_created x)
     (filter (\<lambda>(i, x). (s = None \<or> s = Some (sg_state x)) \<and> (m = None \<or> m = Some (sg_model x))) (wl_sugs w)))"

text \<open>The guarded update: only an open suggestion is resolved.\<close>

definition resolve_row :: "string \<Rightarrow> string \<Rightarrow> string \<Rightarrow> rat \<Rightarrow> ploop \<Rightarrow> suggestion option \<times> ploop" where
  "resolve_row i s actor now w =
     (case map_of (wl_sugs w) i of
        None \<Rightarrow> (None, w)
      | Some x \<Rightarrow>
          (let x' = x\<lparr> sg_state := s, sg_resolved := Some now, sg_actor := Some actor \<rparr>
           in if sg_state x = ''open'' then (Some x', w\<lparr> wl_sugs := dict_upd i (\<lambda>_. x') (wl_sugs w) \<rparr>) else (None, w)))"

definition resolve_suggestion :: "string \<Rightarrow> string \<Rightarrow> string \<Rightarrow> rat \<Rightarrow> suggestion option op" where
  "resolve_suggestion i s actor now =
     seq (db (\<lambda>w. Some (resolve_row i s actor now w))) (\<lambda>u. case u of
        Some x \<Rightarrow> ret (Some x)
      | None \<Rightarrow> seq (get_suggestion i) (\<lambda>c. case c of None \<Rightarrow> ret None | Some x \<Rightarrow> throw Conflict))"

definition policy_status :: "string \<Rightarrow> (bag \<times> status \<times> park option \<times> (string \<times> suggestion) list) option op" where
  "policy_status m = seq (get_policy m) (\<lambda>p. case p of
        None \<Rightarrow> ret None
      | Some d \<Rightarrow> seq (get_status m) (\<lambda>s. seq (get_pending m) (\<lambda>k. seq (list_suggestions (Some ''open'') (Some m))
          (\<lambda>xs. ret (Some (d, or_empty s, k, xs))))))"

section \<open>The latest version of a data set\<close>

datatype manifest = NoManifest | Registered rat | ManifestUnreadable

record dataset_store =
  ds_list :: "(string \<times> string list) list option"
  ds_manifest :: "string \<Rightarrow> string \<Rightarrow> manifest"

text \<open>The loop over the versions with the best one so far; an unreadable manifest raises.\<close>

fun newest_version :: "(string \<Rightarrow> manifest) \<Rightarrow> string list \<Rightarrow> string option \<times> rat \<Rightarrow> (string option \<times> rat) option" where
  "newest_version mf [] best = Some best"
| "newest_version mf (v # vs) best =
     (case mf v of
        ManifestUnreadable \<Rightarrow> None
      | NoManifest \<Rightarrow> newest_version mf vs (if 0 > snd best then (Some v, 0) else best)
      | Registered t \<Rightarrow> newest_version mf vs (if t > snd best then (Some v, t) else best))"

definition resolve_dataset_version :: "dataset_store \<Rightarrow> json \<Rightarrow> json \<Rightarrow> fault + json" where
  "resolve_dataset_version ds name version =
     (if version \<noteq> JStr ''latest'' then Inr version
      else case ds_list ds of
        None \<Rightarrow> Inl StoreDown
      | Some rows \<Rightarrow>
          (case find (\<lambda>(n, vs). JStr n = name) rows of
             None \<Rightarrow> Inl PolicyBad
           | Some (n, vs) \<Rightarrow>
               (case newest_version (ds_manifest ds n) vs (None, - 1) of
                  None \<Rightarrow> Inl StoreDown
                | Some (None, _) \<Rightarrow> Inl PolicyBad
                | Some (Some v, _) \<Rightarrow> if v = [] then Inl PolicyBad else Inr (JStr v))))"

section \<open>The retrain cooldown\<close>

text \<open>The stamp is the monotonic time of the last reservation, \<open>0\<close> for none.\<close>

definition cooling :: "rat \<Rightarrow> rat \<Rightarrow> rat \<Rightarrow> bool" where
  "cooling cd t last_at = (last_at > 0 \<and> t - last_at < cd)"

definition reserve_at :: "rat \<Rightarrow> rat \<Rightarrow> rat \<Rightarrow> rat option \<times> rat" where
  "reserve_at cd t last_at = (if cooling cd t last_at then (None, last_at) else (Some t, t))"

definition release_at :: "rat option \<Rightarrow> rat \<Rightarrow> rat" where
  "release_at token last_at = (if token = None \<or> token = Some last_at then 0 else last_at)"

text \<open>Reading the clock: it goes on by the next delay.\<close>

definition read_clock :: "rat op" where
  "read_clock w =
     (let t = wl_mono w + (case wl_delays w of [] \<Rightarrow> 0 | d # ds \<Rightarrow> max 0 d)
      in (Inr t, w\<lparr> wl_mono := t, wl_delays := tl (wl_delays w) \<rparr>))"

definition try_reserve_retrain :: "rat \<Rightarrow> rat option op" where
  "try_reserve_retrain cd = seq read_clock (\<lambda>t. (\<lambda>w. (case reserve_at cd t (wl_stamp w) of (tok, s) \<Rightarrow> (Inr tok, w\<lparr> wl_stamp := s \<rparr>))))"

definition note_retrain :: "unit op" where
  "note_retrain = seq read_clock (\<lambda>t. modify (\<lambda>w. w\<lparr> wl_stamp := t \<rparr>))"

definition release_retrain :: "rat option \<Rightarrow> unit op" where
  "release_retrain tok = modify (\<lambda>w. w\<lparr> wl_stamp := release_at tok (wl_stamp w) \<rparr>)"

section \<open>What store calls do, whatever their answer\<close>

lemma wp_db_read [wp]:
  "wp (db_read f) Q E = (\<lambda>w. if next_call w = CallWorks then Q (f (answered w)) (answered w) else E StoreDown (answered w))"
  by (simp add: wp_def db_read_def db_def fun_eq_iff split: store_call.splits)

lemma wp_db_write [wp]:
  "wp (db_write f) Q E = (\<lambda>w. case next_call w of
     CallWorks \<Rightarrow> Q () (f (answered w)) | CallFails \<Rightarrow> E StoreDown (answered w) | CallLost \<Rightarrow> E StoreDown (f (answered w)))"
  by (simp add: wp_def db_write_def db_def fun_eq_iff split: store_call.splits)

text \<open>A relation between worlds that time, faults, ids, the stamp, and writes to the rows and launches of the models in
  \<open>P\<close> respect.\<close>

locale store_kept = kept R for R :: "ploop \<Rightarrow> ploop \<Rightarrow> bool" +
  fixes P :: "string \<Rightarrow> bool"
  assumes kept_answered: "R w (answered w)"
    and kept_delays: "R w (w\<lparr> wl_delays := ds \<rparr>)"
    and kept_mono: "wl_mono w \<le> t \<Longrightarrow> R w (w\<lparr> wl_mono := t \<rparr>)"
    and kept_ids: "R w (w\<lparr> wl_ids := is \<rparr>)"
    and kept_stamp: "R w (w\<lparr> wl_stamp := t \<rparr>)"
    and kept_row: "P m \<Longrightarrow> R w (on_row m f w)"
    and kept_launch: "P (la_model l) \<Longrightarrow> R w (w\<lparr> wl_launches := wl_launches w @ [l] \<rparr>)"
begin

lemma keeps_db_read: "keeps R (db_read f)"
  unfolding keeps_def db_read_def db_def by (simp add: kept_answered split: store_call.splits)

lemma keeps_db_write: "(\<And>w. R w (f w)) \<Longrightarrow> keeps R (db_write f)"
  unfolding keeps_def db_write_def db_def
  by (simp split: store_call.splits) (metis kept_answered kept_trans)

lemma keeps_read_clock: "keeps R read_clock"
proof -
  have "R w (w\<lparr> wl_mono := t, wl_delays := ds \<rparr>)" if "wl_mono w \<le> t" for w t ds
    using kept_trans[OF kept_mono[OF that] kept_delays] .
  then show ?thesis by (auto simp: keeps_def read_clock_def Let_def split: list.splits)
qed

lemma keeps_new_id: "keeps R new_id"
  by (simp add: keeps_def new_id_def kept_ids)

lemma keeps_reserve: "keeps R (try_reserve_retrain cd)"
  unfolding try_reserve_retrain_def
  by (intro keeps_seq keeps_read_clock) (simp add: keeps_def kept_stamp split: prod.splits)

lemma keeps_note: "keeps R note_retrain"
  unfolding note_retrain_def by (intro keeps_seq keeps_read_clock keeps_modify kept_stamp)

lemma keeps_release: "keeps R (release_retrain tok)"
  unfolding release_retrain_def by (intro keeps_modify kept_stamp)

lemma keeps_get_pending: "keeps R (get_pending m)" and keeps_get_status: "keeps R (get_status m)"
  and keeps_find: "keeps R (find_suggestion m' v s)" and keeps_get_suggestion: "keeps R (get_suggestion i)"
  and keeps_list_policies: "keeps R (list_policies coll)"
  by (simp_all add: get_pending_def get_status_def find_suggestion_def get_suggestion_def list_policies_def keeps_db_read)

lemma keeps_save_pending: "P m \<Longrightarrow> keeps R (save_pending m k)"
  unfolding save_pending_def by (intro keeps_if keeps_throw keeps_db_write kept_row)

lemma keeps_clear_pending: "P m \<Longrightarrow> keeps R (clear_pending m)"
  unfolding clear_pending_def by (intro keeps_db_write kept_row)

lemma keeps_save_status: "P m \<Longrightarrow> keeps R (save_status m s)"
  unfolding save_status_def by (intro keeps_db_write kept_row)

lemmas store_rules = keeps_rules keeps keeps_reserve keeps_note keeps_release keeps_get_pending keeps_get_status keeps_find
  keeps_get_suggestion keeps_new_id keeps_save_pending keeps_clear_pending keeps_save_status

end

text \<open>Relations that suggestions and promotions respect too.\<close>

locale world_kept = store_kept +
  assumes kept_sugs: "R w (w\<lparr> wl_sugs := xs \<rparr>)"
    and kept_promotes: "R w (w\<lparr> wl_promotes := ps \<rparr>)"
begin

lemma keeps_insert: "keeps R (insert_suggestion i x)"
  unfolding keeps_def insert_suggestion_def db_def
  by (simp split: store_call.splits) (metis kept_answered kept_sugs kept_trans)

lemma keeps_create: "keeps R (create_suggestion now m v g sv s a)"
  unfolding create_suggestion_def by (intro store_rules keeps_insert)

lemma keeps_resolve: "keeps R (resolve_suggestion i s a now)"
proof -
  have "R w (snd (resolve_row i s a now w))" for w
    by (simp add: resolve_row_def Let_def kept_refl kept_sugs split: option.splits)
  then have "keeps R (db (\<lambda>w. Some (resolve_row i s a now w)))"
    unfolding keeps_def db_def by (auto split: store_call.splits prod.splits) (metis kept_answered kept_trans snd_conv)+
  then show ?thesis unfolding resolve_suggestion_def by (intro store_rules)
qed

end

section \<open>The latest version\<close>

text \<open>The registration time of a version, as the loop compares it.\<close>

definition registered_at :: "(string \<Rightarrow> manifest) \<Rightarrow> string \<Rightarrow> rat" where
  "registered_at mf v = (case mf v of Registered t \<Rightarrow> t | _ \<Rightarrow> 0)"

lemma newest_version_spec:
  assumes "newest_version mf vs b = Some b'"
  shows "(\<forall>v \<in> set vs. mf v \<noteq> ManifestUnreadable \<and> registered_at mf v \<le> snd b') \<and> snd b \<le> snd b' \<and>
    (b' = b \<or> (\<exists>v \<in> set vs. b' = (Some v, registered_at mf v)))"
  using assms
proof (induction mf vs b rule: newest_version.induct)
  case (2 mf v vs b)
  then show ?case by (fastforce simp: registered_at_def split: manifest.splits if_splits)
qed simp

text \<open>Resolving \<open>latest\<close> gives a registered version of that data set that no other version of it is newer than,
  and only when every manifest could be read: a read failure never resolves to an older version.\<close>

theorem latest_is_the_newest_version:
  assumes "resolve_dataset_version ds name (JStr ''latest'') = Inr v"
  shows "\<exists>rows n vs u. ds_list ds = Some rows \<and> (n, vs) \<in> set rows \<and> JStr n = name \<and> v = JStr u \<and> u \<in> set vs \<and>
    (\<forall>x \<in> set vs. ds_manifest ds n x \<noteq> ManifestUnreadable \<and>
       registered_at (ds_manifest ds n) x \<le> registered_at (ds_manifest ds n) u)"
proof -
  obtain rows where r: "ds_list ds = Some rows" using assms by (auto simp: resolve_dataset_version_def split: option.splits)
  obtain n vs where f: "find (\<lambda>(n, vs). JStr n = name) rows = Some (n, vs)"
    using assms r by (auto simp: resolve_dataset_version_def split: option.splits)
  obtain u t where u: "newest_version (ds_manifest ds n) vs (None, - 1) = Some (Some u, t)" and v: "v = JStr u"
    using assms r f by (auto simp: resolve_dataset_version_def split: option.splits if_splits)
  have "(n, vs) \<in> set rows \<and> JStr n = name" using find_SomeD[OF f] by simp
  moreover have "u \<in> set vs \<and> (\<forall>x \<in> set vs. ds_manifest ds n x \<noteq> ManifestUnreadable \<and>
      registered_at (ds_manifest ds n) x \<le> registered_at (ds_manifest ds n) u)"
    using newest_version_spec[OF u] by auto
  ultimately show ?thesis using r v by blast
qed

theorem latest_is_the_newest_version_witness:
  "\<exists>rows n vs u. Some rows = Some [(''d'', [''a'', ''b''])] \<and> (n, vs) \<in> set rows \<and> JStr ''b'' = JStr u \<and> u \<in> set vs"
  using latest_is_the_newest_version[of "\<lparr> ds_list = Some [(''d'', [''a'', ''b''])],
      ds_manifest = (\<lambda>n v. Registered (if v = ''b'' then 2 else 1)) \<rparr>" "JStr ''d''" "JStr ''b''"]
  by (simp add: resolve_dataset_version_def)

end
