(* ===== verification/PolicyLoop.thy ===== *)
theory PolicyLoop
  imports PolicyStore
begin

text \<open>
  \<open>gateway/app/scheduler.py\<close>: the tick that closes the loop from a breach to a retrain and from a finished
  retrain to a promotion, and the operator's accept and dismiss of \<open>gateway/app/routers/policies.py\<close>.  What the
  trainer, the monitors, the gate, the shadow replay and the registry answer is an argument (\<open>answers\<close>); the
  calls that reach the trainer and the registry are logged.  Metrics and the wall reading \<open>launched_at\<close>, which
  nothing reads, are left out.
\<close>

section \<open>The policy as the scheduler reads it\<close>

record policy =
  po_enabled :: bool
  po_modality :: json
  po_interval :: rat
  po_monitors :: "bag list"
  po_dataset_name :: json
  po_dataset :: json
  po_mode :: json

fun obj_of :: "json \<Rightarrow> bag" where
  "obj_of (JObj d) = d"
| "obj_of _ = []"

fun num_of :: "json \<Rightarrow> rat" where
  "num_of (JInt i) = of_int i"
| "num_of (JFloat x) = x"
| "num_of _ = 0"

definition jget_or :: "json \<Rightarrow> bag \<Rightarrow> string \<Rightarrow> json" where
  "jget_or v d k = (case map_of d k of None \<Rightarrow> v | Some x \<Rightarrow> x)"

definition read_policy :: "bag \<Rightarrow> policy" where
  "read_policy d =
     (let ob = obj_of (jor (jget d ''on_breach'') (JObj []))
      in \<lparr> po_enabled = truthy (jget_or (JBool True) d ''enabled''),
           po_modality = jget d ''modality'',
           po_interval = num_of (jget d ''check_interval_s''),
           po_monitors = (case jget_or (JList []) d ''monitors'' of JList ms \<Rightarrow> map obj_of ms | _ \<Rightarrow> []),
           po_dataset_name = jget (obj_of (jor (jget ob ''params'') (JObj []))) ''dataset_name'',
           po_dataset = jget_or (JStr ''latest'') ob ''dataset'',
           po_mode = jget_or (JStr ''manual'') d ''promotion_mode'' \<rparr>)"

record loop_config =
  lc_cooldown :: rat
  lc_base :: rat
  lc_max :: rat
  lc_unknown :: rat

definition default_loop_config :: loop_config where
  "default_loop_config = \<lparr> lc_cooldown = 3600, lc_base = 60, lc_max = 1800, lc_unknown = 3600 \<rparr>"

text \<open>\<open>None\<close> and \<open>Inl\<close> are exceptions; a launch is answered by its number.\<close>

record answers =
  an_check :: "string \<Rightarrow> bag \<Rightarrow> string + bag"
  an_datasets :: dataset_store
  an_launch :: "nat \<Rightarrow> launch_answer"
  an_watch :: "json \<Rightarrow> bag option"
  an_gate :: "string \<Rightarrow> json \<Rightarrow> bag option"
  an_shadow :: "string \<Rightarrow> json \<Rightarrow> json \<Rightarrow> bag option option"
  an_promote :: "string \<Rightarrow> json \<Rightarrow> bag option"
  an_text :: "json \<Rightarrow> string"

datatype action = StoreError | PolicyFault string | RetryParked string nat | RetryDeferred string | RetryFailed string
  | Launched string bag bool | Checked string bool | BreachDeferredWatch string | Superseded string | InCooldown string
  | ParkFailed string | Parked string | RetrainFailed string | WatchUnpollable string | WatchExpired string
  | WatchedFailed string | NoVersion string | SucceededManual string json | NotGreen string json | PromoteRefused string json
  | AutoPromoted string json | Suggested string json

text \<open>\<open>str\<close> of a value.\<close>

definition text_of :: "answers \<Rightarrow> json \<Rightarrow> string" where
  "text_of an v = (case v of JStr s \<Rightarrow> s | _ \<Rightarrow> an_text an v)"

section \<open>Launching a retrain\<close>

definition call_launch :: "answers \<Rightarrow> string \<Rightarrow> json \<Rightarrow> json \<Rightarrow> bag op" where
  "call_launch an m name version w =
     (let a = an_launch an (length (wl_launches w));
          w' = w\<lparr> wl_launches := wl_launches w @ [\<lparr> la_model = m, la_dataset = name, la_version = version, la_answer = a \<rparr>] \<rparr>
      in case a of Accepted r \<Rightarrow> (Inr r, w') | BusyNow \<Rightarrow> (Inl Busy, w') | _ \<Rightarrow> (Inl Failure, w'))"

definition resolve_version :: "answers \<Rightarrow> json \<Rightarrow> json \<Rightarrow> json op" where
  "resolve_version an name version w = (resolve_dataset_version (an_datasets an) name version, w)"

definition run_id_of :: "bag \<Rightarrow> json" where
  "run_id_of r = jor (jget r ''run_id'') (jget r ''id'')"

definition persist_watch :: "string \<Rightarrow> bag \<Rightarrow> bag op" where
  "persist_watch m run =
     (if truthy (run_id_of run) then
        try_else (seq (get_status m) (\<lambda>s. save_status m ((or_empty s)\<lparr> st_watch := Some \<lparr> wa_run = run_id_of run, wa_unknown = None \<rparr> \<rparr>)))
          (\<lambda>_. ret (jset ''watch_persisted'' (JBool False) run)) (\<lambda>_. ret run)
      else ret run)"

definition launch_retrain :: "answers \<Rightarrow> string \<Rightarrow> policy \<Rightarrow> bag op" where
  "launch_retrain an m p =
     seq (resolve_version an (po_dataset_name p) (po_dataset p))
       (\<lambda>v. seq (call_launch an m (po_dataset_name p) v) (persist_watch m))"

section \<open>The parked retrain\<close>

definition bumped :: "loop_config \<Rightarrow> rat \<Rightarrow> park \<Rightarrow> park" where
  "bumped cf now k = k\<lparr> pk_attempts := pk_attempts k + 1,
     pk_next := now + min (lc_base cf * 2 ^ (pk_attempts k + 1)) (lc_max cf) \<rparr>"

definition landed :: "park \<Rightarrow> park" where
  "landed k = k\<lparr> pk_landed := True, pk_next := 10 ^ 12 \<rparr>"

definition retry_failed :: "loop_config \<Rightarrow> string \<Rightarrow> park \<Rightarrow> rat \<Rightarrow> fault \<Rightarrow> action list op" where
  "retry_failed cf m k now x =
     (case x of
        Busy \<Rightarrow> seq (save_pending m (bumped cf now k))
          (\<lambda>_. seq note_retrain (\<lambda>_. ret [RetryParked m (pk_attempts k + 1)]))
      | StoreDown \<Rightarrow> seq (catch (save_pending m (bumped cf now k)) (\<lambda>_. ret ()))
          (\<lambda>_. seq note_retrain (\<lambda>_. ret [RetryDeferred m]))
      | _ \<Rightarrow> seq (clear_pending m) (\<lambda>_. seq (release_retrain None) (\<lambda>_. ret [RetryFailed m])))"

definition retry_landed :: "string \<Rightarrow> park \<Rightarrow> bag \<Rightarrow> action list op" where
  "retry_landed m k run =
     seq (catch (clear_pending m) (\<lambda>_. catch (save_pending m (landed k)) (\<lambda>_. ret ())))
       (\<lambda>_. seq note_retrain (\<lambda>_. ret [Launched m run True]))"

definition retry_pending :: "loop_config \<Rightarrow> answers \<Rightarrow> string \<Rightarrow> policy \<Rightarrow> rat \<Rightarrow> action list op" where
  "retry_pending cf an m p now =
     seq (get_pending m) (\<lambda>pk. case pk of
        None \<Rightarrow> ret []
      | Some k \<Rightarrow>
          (if pk_landed k then catch (seq (clear_pending m) (\<lambda>_. ret [])) (\<lambda>_. ret [])
           else if now < pk_next k then ret []
           else try_else (launch_retrain an m p) (retry_failed cf m k now) (retry_landed m k)))"

section \<open>Due checks and breaches\<close>

definition breach_launch_failed :: "loop_config \<Rightarrow> string \<Rightarrow> breach \<Rightarrow> rat \<Rightarrow> rat \<Rightarrow> fault \<Rightarrow> action list op" where
  "breach_launch_failed cf m b now t x =
     (if x = Busy then
        try_else (save_pending m \<lparr> pk_breach = b, pk_attempts = 1, pk_next = now + lc_base cf, pk_landed = False \<rparr>)
          (\<lambda>_. seq (release_retrain (Some t)) (\<lambda>_. ret [ParkFailed m])) (\<lambda>_. ret [Parked m])
      else seq (release_retrain (Some t)) (\<lambda>_. ret [RetrainFailed m]))"

definition breach_launch :: "loop_config \<Rightarrow> answers \<Rightarrow> string \<Rightarrow> policy \<Rightarrow> breach \<Rightarrow> rat \<Rightarrow> action list op" where
  "breach_launch cf an m p b now =
     seq (try_reserve_retrain (lc_cooldown cf)) (\<lambda>tok. case tok of
        None \<Rightarrow> ret [InCooldown m]
      | Some t \<Rightarrow>
          (if t = 0 then ret [InCooldown m]
           else try_else (launch_retrain an m p) (breach_launch_failed cf m b now t) (\<lambda>run. ret [Launched m run False])))"

definition handle_breach :: "loop_config \<Rightarrow> answers \<Rightarrow> string \<Rightarrow> policy \<Rightarrow> breach \<Rightarrow> rat \<Rightarrow> action list op" where
  "handle_breach cf an m p b now =
     seq (get_status m) (\<lambda>s.
       if st_watch (or_empty s) \<noteq> None then ret [BreachDeferredWatch m]
       else seq (get_pending m) (\<lambda>pk. case pk of
          None \<Rightarrow> breach_launch cf an m p b now
        | Some k \<Rightarrow> (if pk_landed k then breach_launch cf an m p b now
                    else seq (save_pending m (k\<lparr> pk_breach := b \<rparr>)) (\<lambda>_. ret [Superseded m]))))"

text \<open>One monitor's result; a check that raises is a result with its error.\<close>

definition check_one :: "answers \<Rightarrow> string \<Rightarrow> bag \<Rightarrow> bag" where
  "check_one an m mon = jset ''kind'' (jget mon ''kind'')
     (case an_check an m mon of Inl e \<Rightarrow> [(''kind'', jget mon ''kind''), (''error'', JStr e)] | Inr r \<Rightarrow> r)"

definition first_breach :: "rat \<Rightarrow> bag list \<Rightarrow> breach option" where
  "first_breach now rs = map_option (\<lambda>r. \<lparr> bc_signal = jget r ''kind'', bc_score = jget r ''score'', bc_at = now \<rparr>)
     (find (\<lambda>r. truthy (jget r ''breached'')) rs)"

definition check_due :: "policy \<Rightarrow> status \<Rightarrow> rat \<Rightarrow> bool" where
  "check_due p s now = (\<not> now - (case st_last s of None \<Rightarrow> 0 | Some t \<Rightarrow> t) < po_interval p)"

definition run_due_checks :: "loop_config \<Rightarrow> answers \<Rightarrow> string \<Rightarrow> policy \<Rightarrow> rat \<Rightarrow> action list op" where
  "run_due_checks cf an m p now =
     seq (get_status m) (\<lambda>s0. let s = or_empty s0 in
       if \<not> check_due p s now then ret []
       else (let rs = map (check_one an m) (po_monitors p)
         in seq (save_status m (s\<lparr> st_last := Some now, st_results := rs, st_due := Some (now + po_interval p) \<rparr>))
              (\<lambda>_. case first_breach now rs of
                 None \<Rightarrow> ret [Checked m False]
               | Some b \<Rightarrow> seq (handle_breach cf an m p b now) (\<lambda>as. ret (Checked m True # as)))))"

section \<open>Watched runs\<close>

text \<open>\<open>_extract_version\<close>; a result or registry entry that is not an object raises.\<close>

definition extract_version :: "(json \<Rightarrow> string) \<Rightarrow> bag \<Rightarrow> json option" where
  "extract_version txt rec =
     (let model = obj_of (jor (jget rec ''model'') (JObj []))
      in if truthy (jget model ''version'') then Some (JStr (txt (jget model ''version'')))
         else case jor (jget rec ''result'') (JObj []) of
           JObj r \<Rightarrow>
             (let v = jor (jget r ''version'') (jor (jget r ''registered_version'')
                        (jget (obj_of (jor (jget r ''model'') (JObj []))) ''version''))
              in if truthy v then Some v
                 else case jor (jget r ''registry'') (JObj []) of JObj g \<Rightarrow> Some (jget g ''version'') | _ \<Rightarrow> None)
         | _ \<Rightarrow> None)"

definition clear_watch :: "string \<Rightarrow> status \<Rightarrow> unit op" where
  "clear_watch m s = save_status m (s\<lparr> st_watch := None \<rparr>)"

definition green :: "bag \<Rightarrow> bag option \<Rightarrow> bool" where
  "green g sv = (jget g ''verdict'' = JStr ''pass'' \<and>
     (case sv of None \<Rightarrow> True | Some v \<Rightarrow> jget v ''winner'' = JStr ''challenger'' \<or> jget v ''winner'' = JStr ''tie''))"

definition record_not_green :: "string \<Rightarrow> status \<Rightarrow> json \<Rightarrow> bag \<Rightarrow> bag option \<Rightarrow> rat \<Rightarrow> action \<Rightarrow> action list op" where
  "record_not_green m s v g sv now a =
     seq (clear_watch m (s\<lparr> st_candidate := Some \<lparr> cn_version = v, cn_gate = g, cn_shadow = sv, cn_at = now \<rparr> \<rparr>)) (\<lambda>_. ret [a])"

definition call_promote :: "answers \<Rightarrow> string \<Rightarrow> json \<Rightarrow> bag op" where
  "call_promote an m v w =
     (let a = an_promote an m v; w' = w\<lparr> wl_promotes := wl_promotes w @ [\<lparr> pc_model = m, pc_version = v, pc_answer = a \<rparr>] \<rparr>
      in case a of None \<Rightarrow> (Inl Failure, w') | Some r \<Rightarrow> (Inr r, w'))"

definition offer_candidate :: "answers \<Rightarrow> string \<Rightarrow> policy \<Rightarrow> status \<Rightarrow> json \<Rightarrow> bag \<Rightarrow> bag option \<Rightarrow> rat \<Rightarrow> action list op" where
  "offer_candidate an m p s v g sv now =
     (if po_mode p = JStr ''auto-on-green'' then
        seq (call_promote an m v) (\<lambda>r.
          if truthy (jget r ''promoted'') then
            seq (create_suggestion now m (text_of an v) g sv ''auto-promoted'' (Some (''policy:'' @ m)))
              (\<lambda>_. seq (clear_watch m s) (\<lambda>_. ret [AutoPromoted m v]))
          else record_not_green m s v (if truthy (jget r ''verdict'') then obj_of (jget r ''verdict'') else g) sv now (PromoteRefused m v))
      else seq (create_suggestion now m (text_of an v) g sv ''open'' None)
        (\<lambda>_. seq (clear_watch m s) (\<lambda>_. ret [Suggested m v])))"

definition evaluate_run :: "answers \<Rightarrow> string \<Rightarrow> policy \<Rightarrow> status \<Rightarrow> bag \<Rightarrow> rat \<Rightarrow> action list op" where
  "evaluate_run an m p s rec now =
     seq (of_option Failure (extract_version (text_of an) rec)) (\<lambda>v.
       if \<not> truthy v then seq (clear_watch m s) (\<lambda>_. ret [NoVersion m])
       else if po_mode p = JStr ''manual'' then seq (clear_watch m s) (\<lambda>_. ret [SucceededManual m v])
       else seq (of_option Failure (an_gate an m v)) (\<lambda>g. seq (of_option Failure (an_shadow an m v (po_modality p))) (\<lambda>sv.
         if green g sv then offer_candidate an m p s v g sv now
         else record_not_green m s v g sv now (NotGreen m v))))"

definition watch_unknown :: "loop_config \<Rightarrow> string \<Rightarrow> status \<Rightarrow> watch \<Rightarrow> rat \<Rightarrow> action list op" where
  "watch_unknown cf m s wt now =
     (case wa_unknown wt of
        None \<Rightarrow> seq (save_status m (s\<lparr> st_watch := Some (wt\<lparr> wa_unknown := Some now \<rparr>) \<rparr>)) (\<lambda>_. ret [WatchUnpollable m])
      | Some t \<Rightarrow> (if now - t > lc_unknown cf then seq (clear_watch m s) (\<lambda>_. ret [WatchExpired m]) else ret []))"

definition still_running :: "json \<Rightarrow> bool" where
  "still_running st = (st = JStr ''queued'' \<or> st = JStr ''running'' \<or> st = JStr ''pending'')"

definition poll_watch :: "loop_config \<Rightarrow> answers \<Rightarrow> string \<Rightarrow> policy \<Rightarrow> rat \<Rightarrow> action list op" where
  "poll_watch cf an m p now =
     seq (get_status m) (\<lambda>s0. let s = or_empty s0 in
       case st_watch s of
         None \<Rightarrow> ret []
       | Some wt \<Rightarrow> seq (of_option Failure (an_watch an (wa_run wt))) (\<lambda>rec. let st = jget rec ''status'' in
           if st = JNull \<or> st = JStr ''unknown'' then watch_unknown cf m s wt now
           else if still_running st then
             (if wa_unknown wt \<noteq> None
              then seq (save_status m (s\<lparr> st_watch := Some (wt\<lparr> wa_unknown := None \<rparr>) \<rparr>)) (\<lambda>_. ret []) else ret [])
           else if st \<noteq> JStr ''completed'' \<and> st \<noteq> JStr ''succeeded'' then seq (clear_watch m s) (\<lambda>_. ret [WatchedFailed m])
           else evaluate_run an m p s rec now))"

section \<open>The tick\<close>

definition policy_pass :: "loop_config \<Rightarrow> answers \<Rightarrow> rat \<Rightarrow> string \<times> bag \<Rightarrow> action list op" where
  "policy_pass cf an now md =
     (let m = fst md; p = read_policy (snd md)
      in if \<not> po_enabled p then ret []
         else try_else (retry_pending cf an m p now) (\<lambda>_. ret [PolicyFault m]) (\<lambda>a.
              try_else (run_due_checks cf an m p now) (\<lambda>_. ret (a @ [PolicyFault m])) (\<lambda>b.
              try_else (poll_watch cf an m p now) (\<lambda>_. ret (a @ b @ [PolicyFault m])) (\<lambda>c. ret (a @ b @ c)))))"

definition tick :: "loop_config \<Rightarrow> (string \<Rightarrow> nat) \<Rightarrow> answers \<Rightarrow> rat \<Rightarrow> action list op" where
  "tick cf coll an now =
     try_else (list_policies coll) (\<lambda>_. ret [StoreError]) (for_each (policy_pass cf an now))"

section \<open>The operator\<close>

datatype operator_answer = NotFound | AlreadyResolved | GateBlocked | Applied | Dismissed

text \<open>\<open>accept_suggestion\<close>: promote through the gate, then mark it; \<open>serving\<close> is what the registry says serves now
  (\<open>None\<close>: nothing, or the registry raised).\<close>

definition accept_suggestion :: "answers \<Rightarrow> string option \<Rightarrow> string \<Rightarrow> rat \<Rightarrow> operator_answer op" where
  "accept_suggestion an serving i now =
     seq (get_suggestion i) (\<lambda>r. case r of
        None \<Rightarrow> ret NotFound
      | Some x \<Rightarrow>
          (if sg_state x \<noteq> ''open'' then ret AlreadyResolved
           else if serving = Some (sg_version x) then seq (resolve_suggestion i ''accepted'' ''operator'' now) (\<lambda>_. ret Applied)
           else seq (call_promote an (sg_model x) (JStr (sg_version x))) (\<lambda>res.
             if \<not> truthy (jget res ''promoted'') then ret GateBlocked
             else try_else (resolve_suggestion i ''accepted'' ''operator'' now)
               (\<lambda>e. case e of Conflict \<Rightarrow> seq (get_suggestion i) (\<lambda>_. ret Applied) | StoreDown \<Rightarrow> ret Applied | _ \<Rightarrow> throw e)
               (\<lambda>_. ret Applied))))"

definition dismiss_suggestion :: "string \<Rightarrow> rat \<Rightarrow> operator_answer op" where
  "dismiss_suggestion i now = seq (resolve_suggestion i ''dismissed'' ''operator'' now)
     (\<lambda>r. ret (case r of None \<Rightarrow> NotFound | Some _ \<Rightarrow> Dismissed))"

section \<open>Runs of the gateway\<close>

text \<open>A tick or an operator's request with the answers, store faults, delays and ids it meets; the reservations of the HTTP
  triggers; a restart of the gateway, which forgets the stamp.\<close>

record weather =
  we_calls :: "store_call list"
  we_delays :: "rat list"
  we_ids :: "string list"

datatype levent = Tick rat answers weather | Put parsers string rat string bag weather | Delete string weather
  | Accept answers "string option" string rat weather | Dismiss string rat weather
  | HttpReserve | HttpRelease rat | Wait rat | Restart

definition under :: "weather \<Rightarrow> 'a op \<Rightarrow> ploop \<Rightarrow> ploop" where
  "under we m w = (snd (m (w\<lparr> wl_calls := we_calls we, wl_delays := we_delays we, wl_ids := we_ids we \<rparr>)))
     \<lparr> wl_calls := [], wl_delays := [], wl_ids := [] \<rparr>"

definition fine :: weather where
  "fine = \<lparr> we_calls = [], we_delays = [], we_ids = [] \<rparr>"

fun loop_step :: "loop_config \<Rightarrow> (string \<Rightarrow> nat) \<Rightarrow> levent \<Rightarrow> ploop \<Rightarrow> ploop" where
  "loop_step cf coll (Tick now an we) w = under we (tick cf coll an now) w"
| "loop_step cf coll (Put p m now who doc we) w = under we (put_policy p m now who doc) w"
| "loop_step cf coll (Delete m we) w = under we (delete_policy m) w"
| "loop_step cf coll (Accept an serving i now we) w = under we (accept_suggestion an serving i now) w"
| "loop_step cf coll (Dismiss i now we) w = under we (dismiss_suggestion i now) w"
| "loop_step cf coll HttpReserve w = under fine (try_reserve_retrain (lc_cooldown cf)) w"
| "loop_step cf coll (HttpRelease t) w = under fine (release_retrain (Some t)) w"
| "loop_step cf coll (Wait d) w = w\<lparr> wl_mono := wl_mono w + max 0 d \<rparr>"
| "loop_step cf coll Restart w = w\<lparr> wl_stamp := 0 \<rparr>"

definition fresh_loop :: "rat \<Rightarrow> ploop" where
  "fresh_loop t = \<lparr> wl_rows = [], wl_sugs = [], wl_stamp = 0, wl_mono = t, wl_calls = [], wl_delays = [], wl_ids = [],
     wl_launches = [], wl_promotes = [] \<rparr>"

definition loop_run :: "loop_config \<Rightarrow> (string \<Rightarrow> nat) \<Rightarrow> levent list \<Rightarrow> ploop \<Rightarrow> ploop" where
  "loop_run cf coll es w = fold (loop_step cf coll) es w"

section \<open>What a pass respects\<close>

context store_kept
begin

lemma keeps_call_launch: "P m \<Longrightarrow> keeps R (call_launch an m n v)"
  by (auto simp: keeps_def call_launch_def Let_def kept_launch split: launch_answer.splits)

lemma keeps_resolve_version: "keeps R (resolve_version an n v)"
  by (simp add: keeps_def resolve_version_def kept_refl)

lemma keeps_launch: "P m \<Longrightarrow> keeps R (launch_retrain an m p)"
  unfolding launch_retrain_def persist_watch_def by (intro store_rules keeps_call_launch keeps_resolve_version)

lemma keeps_retry_failed: "P m \<Longrightarrow> keeps R (retry_failed cf m k now x)"
  by (cases x) (auto simp: retry_failed_def intro!: store_rules)

lemma keeps_retry_pending: "P m \<Longrightarrow> keeps R (retry_pending cf an m p now)"
  unfolding retry_pending_def retry_landed_def by (intro store_rules keeps_launch keeps_retry_failed)

lemma keeps_breach_launch: "P m \<Longrightarrow> keeps R (breach_launch cf an m p b now)"
  unfolding breach_launch_def breach_launch_failed_def by (intro store_rules keeps_launch)

lemma keeps_due_checks: "P m \<Longrightarrow> keeps R (run_due_checks cf an m p now)"
  unfolding run_due_checks_def handle_breach_def by (intro store_rules keeps_breach_launch)

lemma keeps_clear_watch: "P m \<Longrightarrow> keeps R (clear_watch m s)"
  unfolding clear_watch_def by (rule keeps_save_status)

lemma keeps_not_green: "P m \<Longrightarrow> keeps R (record_not_green m s v g sv now a)"
  unfolding record_not_green_def by (intro store_rules keeps_clear_watch)

lemma keeps_watch_unknown: "P m \<Longrightarrow> keeps R (watch_unknown cf m s wt now)"
  unfolding watch_unknown_def by (intro store_rules keeps_clear_watch)

end

context world_kept
begin

lemma keeps_call_promote: "keeps R (call_promote an m v)"
  by (simp add: keeps_def call_promote_def Let_def kept_promotes split: option.splits)

lemma keeps_offer: "P m \<Longrightarrow> keeps R (offer_candidate an m p s v g sv now)"
  unfolding offer_candidate_def by (intro store_rules keeps_call_promote keeps_create keeps_clear_watch keeps_not_green)

lemma keeps_poll_watch: "P m \<Longrightarrow> keeps R (poll_watch cf an m p now)"
  unfolding poll_watch_def evaluate_run_def
  by (intro store_rules keeps_offer keeps_clear_watch keeps_not_green keeps_watch_unknown)

lemma keeps_policy_pass: "P (fst md) \<Longrightarrow> keeps R (policy_pass cf an now md)"
  unfolding policy_pass_def by (intro store_rules keeps_retry_pending keeps_due_checks keeps_poll_watch)

end

section \<open>Invariants of the gateway\<close>

text \<open>A step of the gateway, as a computation under its weather.\<close>

lemma under_wp: "wp c (\<lambda>_. Q) (\<lambda>_. Q) (w\<lparr> wl_calls := we_calls we, wl_delays := we_delays we, wl_ids := we_ids we \<rparr>) \<Longrightarrow>
    (\<And>u. Q u \<Longrightarrow> Q (u\<lparr> wl_calls := [], wl_delays := [], wl_ids := [] \<rparr>)) \<Longrightarrow> Q (under we c w)"
  by (simp add: under_def wp_snd)

fun along :: "(levent \<Rightarrow> ploop \<Rightarrow> bool) \<Rightarrow> loop_config \<Rightarrow> (string \<Rightarrow> nat) \<Rightarrow> levent list \<Rightarrow> ploop \<Rightarrow> bool" where
  "along ok cf coll [] w = True"
| "along ok cf coll (e # es) w = (ok e w \<and> along ok cf coll es (loop_step cf coll e w))"

locale loop_invariant =
  fixes I :: "ploop \<Rightarrow> bool" and cf :: loop_config and coll :: "string \<Rightarrow> nat" and ok :: "levent \<Rightarrow> ploop \<Rightarrow> bool"
  assumes any_weather: "I (w\<lparr> wl_calls := a, wl_delays := b, wl_ids := c \<rparr>) = I w"
    and any_time: "I (w\<lparr> wl_mono := t \<rparr>) = I w" and any_stamp: "I (w\<lparr> wl_stamp := t \<rparr>) = I w"
    and inv_tick: "ok (Tick now an we) w \<Longrightarrow> I w \<Longrightarrow>
      wp (tick cf coll an now) (\<lambda>_. I) (\<lambda>_. I) (w\<lparr> wl_calls := a, wl_delays := b, wl_ids := c \<rparr>)"
    and inv_put: "ok (Put p m now who doc we) w0 \<Longrightarrow> I w \<Longrightarrow> wp (put_policy p m now who doc) (\<lambda>_. I) (\<lambda>_. I) w"
    and inv_delete: "ok (Delete m we) w0 \<Longrightarrow> I w \<Longrightarrow> wp (delete_policy m) (\<lambda>_. I) (\<lambda>_. I) w"
    and inv_accept: "ok (Accept an serving i now we) w0 \<Longrightarrow> I w \<Longrightarrow> wp (accept_suggestion an serving i now) (\<lambda>_. I) (\<lambda>_. I) w"
    and inv_dismiss: "ok (Dismiss i now we) w0 \<Longrightarrow> I w \<Longrightarrow> wp (dismiss_suggestion i now) (\<lambda>_. I) (\<lambda>_. I) w"
begin

lemma inv_under: "I w \<Longrightarrow> (\<And>u. I u \<Longrightarrow> wp c (\<lambda>_. I) (\<lambda>_. I) u) \<Longrightarrow> I (under we c w)"
  by (rule under_wp) (simp_all add: any_weather)

lemma inv_clock: "I w \<Longrightarrow> wp read_clock (\<lambda>_. I) (\<lambda>_. I) w"
proof -
  assume i: "I w"
  have "I (w\<lparr> wl_mono := t, wl_delays := ds \<rparr>)" for t ds
    using any_weather[where w = "w\<lparr> wl_mono := t \<rparr>" and a = "wl_calls w" and b = ds and c = "wl_ids w"] any_time[where t = t and w = w] i by simp
  then show ?thesis by (simp add: wp_def read_clock_def Let_def)
qed

lemma inv_step: "ok e w \<Longrightarrow> I w \<Longrightarrow> I (loop_step cf coll e w)"
proof (cases e)
  case HttpReserve
  assume i: "I w"
  have "wp (try_reserve_retrain c) (\<lambda>_. I) (\<lambda>_. I) u" if "I u" for u c
    unfolding try_reserve_retrain_def wp_seq
    by (rule wp_mono[OF inv_clock[OF that]]) (simp_all add: wp_def any_stamp split: prod.splits)
  then show ?thesis using HttpReserve i by (simp add: inv_under)
next
  case (HttpRelease t)
  assume i: "I w"
  have "wp (release_retrain (Some t)) (\<lambda>_. I) (\<lambda>_. I) u" if "I u" for u
    using that by (simp add: release_retrain_def wp any_stamp)
  then show ?thesis using HttpRelease i by (simp add: inv_under)
next
  case (Tick now an we)
  assume "I w" and "ok e w"
  then have "ok e w" "I w" by simp_all
  then have "wp (tick cf coll an now) (\<lambda>_. I) (\<lambda>_. I) (w\<lparr> wl_calls := a, wl_delays := b, wl_ids := c \<rparr>)" for a b c
    unfolding Tick by (rule inv_tick)
  then show ?thesis unfolding Tick loop_step.simps by (rule under_wp) (simp add: any_weather)
next
  case (Put p m now who doc we)
  assume "I w" "ok e w"
  then show ?thesis unfolding Put loop_step.simps by (intro inv_under inv_put)
next
  case (Delete m we)
  assume "I w" "ok e w"
  then show ?thesis unfolding Delete loop_step.simps by (intro inv_under inv_delete)
next
  case (Accept an serving i now we)
  assume "I w" "ok e w"
  then show ?thesis unfolding Accept loop_step.simps by (intro inv_under inv_accept)
next
  case (Dismiss i now we)
  assume "I w" "ok e w"
  then show ?thesis unfolding Dismiss loop_step.simps by (intro inv_under inv_dismiss)
qed (simp_all add: any_time any_stamp)

lemma inv_run: "(\<And>e w. e \<in> set es \<Longrightarrow> ok e w) \<Longrightarrow> I w \<Longrightarrow> I (loop_run cf coll es w)"
  unfolding loop_run_def by (induction es arbitrary: w) (simp_all add: inv_step)

text \<open>Events admitted at the world they meet.\<close>

lemma inv_run_along: "along ok cf coll es w \<Longrightarrow> I w \<Longrightarrow> I (loop_run cf coll es w)"
  unfolding loop_run_def by (induction es arbitrary: w) (simp_all add: inv_step)

end

end
