(* ===== verification/PolicyParks.thy ===== *)
theory PolicyParks
  imports PolicyLoop
begin

text \<open>
  The parked retrain of the policy loop: it survives every failure until the trainer answers, its next attempt is
  bounded, and the first tick after it that finds trainer and data launches it.
\<close>

section \<open>Parked retrains\<close>

definition pending_of :: "string \<Rightarrow> ploop \<Rightarrow> park option" where
  "pending_of m w = (case map_of (wl_rows w) m of None \<Rightarrow> None | Some r \<Rightarrow> pr_pending r)"

definition status_of :: "string \<Rightarrow> ploop \<Rightarrow> status option" where
  "status_of m w = (case map_of (wl_rows w) m of None \<Rightarrow> None | Some r \<Rightarrow> pr_status r)"

definition has_row :: "string \<Rightarrow> ploop \<Rightarrow> bool" where
  "has_row m w = (map_of (wl_rows w) m \<noteq> None)"

named_theorems views "what the updates of the world do to a row"

lemma map_of_on_row [views]: "map_of (wl_rows (on_row m f w)) j = (if j = m then map_option f (map_of (wl_rows w) j) else map_of (wl_rows w) j)"
  by (simp add: on_row_def map_of_dict_upd)

lemma answered_fields [simp]: "wl_rows (answered w) = wl_rows w" "wl_sugs (answered w) = wl_sugs w" "wl_launches (answered w) = wl_launches w"
  "wl_promotes (answered w) = wl_promotes w" "wl_stamp (answered w) = wl_stamp w" "wl_mono (answered w) = wl_mono w"
  by (simp_all add: answered_def)

lemma on_row_fields [simp]: "wl_sugs (on_row m f w) = wl_sugs w" "wl_launches (on_row m f w) = wl_launches w"
  "wl_promotes (on_row m f w) = wl_promotes w" "wl_stamp (on_row m f w) = wl_stamp w" "wl_mono (on_row m f w) = wl_mono w"
  "wl_calls (on_row m f w) = wl_calls w" "dkeys (wl_rows (on_row m f w)) = dkeys (wl_rows w)"
  by (simp_all add: on_row_def)

lemma pending_rows: "wl_rows w = wl_rows w' \<Longrightarrow> pending_of m w = pending_of m w'"
  by (simp add: pending_of_def)

text \<open>A write to a row leaves the rest of the row as it is.\<close>

lemma pending_on_row [views]:
  "pending_of j (on_row m (\<lambda>r. r\<lparr> pr_status := s \<rparr>) w) = pending_of j w"
  "pending_of j (on_row m (\<lambda>r. r\<lparr> pr_pending := k \<rparr>) w) = (if j = m \<and> has_row m w then k else pending_of j w)"
  by (cases "map_of (wl_rows w) m"; simp add: pending_of_def has_row_def views split: option.splits)+

lemma pending_has_row: "pending_of m w = Some k \<Longrightarrow> has_row m w"
  by (simp add: pending_of_def has_row_def split: option.splits)

lemma pending_answered [views]: "pending_of j (answered w) = pending_of j w" and status_answered [views]: "status_of j (answered w) = status_of j w"
  and has_row_answered [views]: "has_row j (answered w) = has_row j w" and has_row_on_row [views]: "has_row j (on_row m f w) = has_row j w"
  by (simp_all add: pending_of_def status_of_def has_row_def views split: option.splits)

lemma wp_get_pending [wp]: "wp (get_pending m) Q E = (\<lambda>w. if next_call w = CallWorks then Q (pending_of m w) (answered w) else E StoreDown (answered w))"
  by (simp add: get_pending_def wp pending_of_def)

lemma wp_get_status [wp]: "wp (get_status m) Q E = (\<lambda>w. if next_call w = CallWorks then Q (status_of m w) (answered w) else E StoreDown (answered w))"
  by (simp add: get_status_def wp status_of_def)

text \<open>Launches are only appended, and a pass over one policy leaves the rows and launches of the others alone.\<close>

definition later :: "ploop \<Rightarrow> ploop \<Rightarrow> bool" where
  "later w w' = (\<exists>ls. wl_launches w' = wl_launches w @ ls)"

definition apart :: "string \<Rightarrow> ploop \<Rightarrow> ploop \<Rightarrow> bool" where
  "apart m w w' = (map_of (wl_rows w') m = map_of (wl_rows w) m \<and>
     (\<exists>ls. wl_launches w' = wl_launches w @ ls \<and> (\<forall>l \<in> set ls. la_model l \<noteq> m)))"

interpretation later: world_kept later "\<lambda>_. True"
  by unfold_locales (auto simp: later_def)

interpretation apart: world_kept "apart m" "\<lambda>x. x \<noteq> m" for m
  by unfold_locales (auto simp: apart_def views)

text \<open>The parked retrains of every model stay as they are.\<close>

definition same_parks :: "ploop \<Rightarrow> ploop \<Rightarrow> bool" where
  "same_parks w w' = (\<forall>m. pending_of m w' = pending_of m w)"

definition logged :: "launch \<Rightarrow> ploop \<Rightarrow> ploop" where
  "logged l w = w\<lparr> wl_launches := wl_launches w @ [l] \<rparr>"

lemma logged_views [simp]: "wl_launches (logged l w) = wl_launches w @ [l]" "wl_rows (logged l w) = wl_rows w"
  "wl_calls (logged l w) = wl_calls w" "pending_of m (logged l w) = pending_of m w" "status_of m (logged l w) = status_of m w"
  "has_row m (logged l w) = has_row m w" "next_call (logged l w) = next_call w"
  by (simp_all add: logged_def pending_of_def status_of_def has_row_def next_call_def)

lemma wp_resolve_version [wp]:
  "wp (resolve_version an n v) Q E = (\<lambda>w. case resolve_dataset_version (an_datasets an) n v of Inl x \<Rightarrow> E x w | Inr a \<Rightarrow> Q a w)"
  by (simp add: wp_def resolve_version_def fun_eq_iff)

definition launch_of :: "answers \<Rightarrow> string \<Rightarrow> json \<Rightarrow> json \<Rightarrow> ploop \<Rightarrow> launch" where
  "launch_of an m n v w = \<lparr> la_model = m, la_dataset = n, la_version = v, la_answer = an_launch an (length (wl_launches w)) \<rparr>"

lemma launch_of_simps [simp]: "la_model (launch_of an m n v w) = m" "la_answer (launch_of an m n v w) = an_launch an (length (wl_launches w))"
  by (simp_all add: launch_of_def)

lemma wp_call_launch [wp]:
  "wp (call_launch an m n v) Q E = (\<lambda>w. let w' = logged (launch_of an m n v w) w in
     case an_launch an (length (wl_launches w)) of Accepted r \<Rightarrow> Q r w' | BusyNow \<Rightarrow> E Busy w' | _ \<Rightarrow> E Failure w')"
  by (simp add: wp_def call_launch_def Let_def launch_of_def logged_def fun_eq_iff split: launch_answer.splits)

lemma persist_post:
  "wp (persist_watch m run) (\<lambda>_ w'. same_parks w w' \<and> wl_launches w' = wl_launches w) (\<lambda>_ _. False) w"
  by (simp add: persist_watch_def wp save_status_def same_parks_def views split: store_call.splits)

lemma launch_post:
  "wp (launch_retrain an m p)
     (\<lambda>run w'. same_parks w w' \<and> (\<exists>l r. wl_launches w' = wl_launches w @ [l] \<and> la_model l = m \<and> la_answer l = Accepted r))
     (\<lambda>x w'. same_parks w w' \<and>
        (x = StoreDown \<and> wl_launches w' = wl_launches w \<or>
         x = PolicyBad \<and> wl_launches w' = wl_launches w \<and>
           resolve_dataset_version (an_datasets an) (po_dataset_name p) (po_dataset p) = Inl PolicyBad \<or>
         (\<exists>l. wl_launches w' = wl_launches w @ [l] \<and> la_model l = m \<and>
            (x = Busy \<and> la_answer l = BusyNow \<or> x = Failure \<and> la_answer l \<noteq> BusyNow)))) w"
  (is "wp _ ?Q ?E w")
proof (cases "resolve_dataset_version (an_datasets an) (po_dataset_name p) (po_dataset p)")
  case (Inl x)
  then have "x = StoreDown \<or> x = PolicyBad" by (auto simp: resolve_dataset_version_def split: option.splits if_splits)
  then show ?thesis using Inl by (auto simp: launch_retrain_def wp same_parks_def)
next
  case (Inr v)
  let ?l = "launch_of an m (po_dataset_name p) v w"
  have "wp (persist_watch m r) ?Q ?E (logged ?l w)" if "la_answer ?l = Accepted r" for r
    by (rule wp_mono[OF persist_post]) (use that in \<open>auto simp: same_parks_def\<close>)
  then show ?thesis using Inr
    by (auto simp: launch_retrain_def wp same_parks_def Let_def split: launch_answer.splits)
qed

text \<open>The clock and the stamp leave rows, suggestions and logs alone.\<close>

definition ticked :: "ploop \<Rightarrow> ploop" where
  "ticked w = snd (read_clock w)"

definition stamped :: "rat \<Rightarrow> ploop \<Rightarrow> ploop" where
  "stamped t w = w\<lparr> wl_stamp := t \<rparr>"

lemma ticked_fields [simp]: "wl_rows (ticked w) = wl_rows w" "wl_sugs (ticked w) = wl_sugs w" "wl_launches (ticked w) = wl_launches w"
  "wl_promotes (ticked w) = wl_promotes w" "wl_stamp (ticked w) = wl_stamp w" "wl_calls (ticked w) = wl_calls w"
  by (simp_all add: ticked_def read_clock_def Let_def)

lemma stamped_fields [simp]: "wl_rows (stamped t w) = wl_rows w" "wl_sugs (stamped t w) = wl_sugs w" "wl_launches (stamped t w) = wl_launches w"
  "wl_promotes (stamped t w) = wl_promotes w" "wl_stamp (stamped t w) = t" "wl_calls (stamped t w) = wl_calls w" "wl_mono (stamped t w) = wl_mono w"
  by (simp_all add: stamped_def)

lemma row_views_cong: "wl_rows w = wl_rows w' \<Longrightarrow> pending_of m w = pending_of m w' \<and> status_of m w = status_of m w' \<and> has_row m w = has_row m w'"
  by (simp add: pending_of_def status_of_def has_row_def)

lemma clock_views [simp]: "pending_of m (ticked w) = pending_of m w" "status_of m (ticked w) = status_of m w" "has_row m (ticked w) = has_row m w"
  "pending_of m (stamped t w) = pending_of m w" "status_of m (stamped t w) = status_of m w" "has_row m (stamped t w) = has_row m w"
  by (metis row_views_cong ticked_fields(1) stamped_fields(1))+

lemma wp_read_clock [wp]: "wp read_clock Q E = (\<lambda>w. Q (wl_mono (ticked w)) (ticked w))"
  by (simp add: wp_def read_clock_def ticked_def Let_def fun_eq_iff)

lemma wp_note [wp]: "wp note_retrain Q E = (\<lambda>w. Q () (stamped (wl_mono (ticked w)) (ticked w)))"
  by (simp add: note_retrain_def wp stamped_def)

lemma wp_release [wp]: "wp (release_retrain tok) Q E = (\<lambda>w. Q () (stamped (release_at tok (wl_stamp w)) w))"
  by (simp add: release_retrain_def wp stamped_def)

lemma wp_reserve [wp]:
  "wp (try_reserve_retrain cd) Q E = (\<lambda>w. let t = wl_mono (ticked w) in
     if cooling cd t (wl_stamp w) then Q None (ticked w) else Q (Some t) (stamped t (ticked w)))"
proof -
  have [simp]: "(ticked x)\<lparr> wl_stamp := wl_stamp x \<rparr> = ticked x" for x
    using ticked_fields(5)[of x] by (cases "ticked x") simp
  show ?thesis by (simp add: try_reserve_retrain_def wp fun_eq_iff Let_def) (simp add: wp_def reserve_at_def stamped_def)
qed

text \<open>A parked retrain survives until the trainer answers it.\<close>

definition parked :: "string \<Rightarrow> ploop \<Rightarrow> bool" where
  "parked m w = (\<exists>k. pending_of m w = Some k \<and> \<not> pk_landed k)"

definition decided :: "string \<Rightarrow> nat \<Rightarrow> ploop \<Rightarrow> bool" where
  "decided m n w = (\<exists>l \<in> set (drop n (wl_launches w)). la_model l = m \<and> la_answer l \<noteq> BusyNow)"

definition safe :: "string \<Rightarrow> nat \<Rightarrow> ploop \<Rightarrow> bool" where
  "safe m n w = (n \<le> length (wl_launches w) \<and> (parked m w \<or> decided m n w))"

lemma safe_later: "later w w' \<Longrightarrow> n \<le> length (wl_launches w) \<Longrightarrow> decided m n w \<Longrightarrow> safe m n w'"
  by (auto simp: later_def safe_def decided_def)

lemma decided_new: "n \<le> length xs \<Longrightarrow> wl_launches w = xs @ [l] \<Longrightarrow> la_model l = m \<Longrightarrow> la_answer l \<noteq> BusyNow \<Longrightarrow> decided m n w"
  by (simp add: decided_def)

lemma parked_some: "pending_of m w = Some k \<Longrightarrow> parked m w = (\<not> pk_landed k)"
  by (simp add: parked_def)

lemma bumped_live [simp]: "pk_landed (bumped cf now k) = pk_landed k"
  by (simp add: bumped_def)

lemma wp_save_pending [wp]: "wp (save_pending m k) Q E = (\<lambda>w. if m = [] then E Failure w
    else let w' = on_row m (\<lambda>r. r\<lparr> pr_pending := Some k \<rparr>) (answered w)
     in case next_call w of CallWorks \<Rightarrow> Q () w' | CallFails \<Rightarrow> E StoreDown (answered w) | CallLost \<Rightarrow> E StoreDown w')"
  by (simp add: save_pending_def wp Let_def fun_eq_iff)

lemma wp_save_status [wp]: "wp (save_status m s) Q E = (\<lambda>w. let w' = on_row m (\<lambda>r. r\<lparr> pr_status := Some s \<rparr>) (answered w)
     in case next_call w of CallWorks \<Rightarrow> Q () w' | CallFails \<Rightarrow> E StoreDown (answered w) | CallLost \<Rightarrow> E StoreDown w')"
  by (simp add: save_status_def wp Let_def fun_eq_iff)

lemma wp_clear_pending [wp]: "wp (clear_pending m) Q E = (\<lambda>w. let w' = on_row m (\<lambda>r. r\<lparr> pr_pending := None \<rparr>) (answered w)
     in case next_call w of CallWorks \<Rightarrow> Q () w' | CallFails \<Rightarrow> E StoreDown (answered w) | CallLost \<Rightarrow> E StoreDown w')"
  by (simp add: clear_pending_def wp Let_def fun_eq_iff)

lemma save_parked:
  assumes "parked m w" and "\<not> pk_landed k"
  shows "parked m (on_row m (\<lambda>r. r\<lparr> pr_pending := Some k \<rparr>) w)"
  using assms by (auto simp: parked_def views dest: pending_has_row)

lemma parked_simps [simp]: "parked m (answered w) = parked m w" "parked m (ticked w) = parked m w" "parked m (stamped t w) = parked m w"
  "parked m (on_row j (\<lambda>r. r\<lparr> pr_status := s \<rparr>) w) = parked m w"
  by (simp_all add: parked_def views)

lemma decided_simps [simp]: "decided m n (answered w) = decided m n w" "decided m n (ticked w) = decided m n w"
  "decided m n (stamped t w) = decided m n w" "decided m n (on_row j f w) = decided m n w"
  by (simp_all add: decided_def)

lemma safe_simps [simp]: "safe m n (answered w) = safe m n w" "safe m n (ticked w) = safe m n w"
  "safe m n (stamped t w) = safe m n w" "safe m n (on_row j (\<lambda>r. r\<lparr> pr_status := s \<rparr>) w) = safe m n w"
  by (simp_all add: safe_def)

lemma safe_keeps: "keeps later c \<Longrightarrow> safe m n w \<Longrightarrow> decided m n w \<Longrightarrow> wp c (\<lambda>_. safe m n) (\<lambda>_. safe m n) w"
  by (rule keeps_wp[where R = later]) (auto simp: safe_def[of m n w] intro: safe_later)

lemma safe_decided: "decided m n w \<Longrightarrow> n \<le> length (wl_launches w) \<Longrightarrow> safe m n (on_row j f w)"
  by (auto simp: safe_def)

lemma safe_retry:
  assumes s: "safe m n w"
    and d: "resolve_dataset_version (an_datasets an) (po_dataset_name p) (po_dataset p) \<noteq> Inl PolicyBad"
  shows "wp (retry_pending cf an m p now) (\<lambda>_. safe m n) (\<lambda>_. safe m n) w"
proof (cases "decided m n w")
  case True
  then show ?thesis by (intro safe_keeps[OF later.keeps_retry_pending s]) simp_all
next
  case False
  then obtain k where k: "pending_of m w = Some k" "\<not> pk_landed k" and nl: "n \<le> length (wl_launches w)"
    using s by (auto simp: safe_def parked_def)
  let ?S = "safe m n"
  have pk: "parked m u" if "same_parks (answered w) u" for u
    using that k by (simp add: same_parks_def parked_def views)
  have "wp (launch_retrain an m p) (\<lambda>run. wp (retry_landed m k run) (\<lambda>_. ?S) (\<lambda>_. ?S))
      (\<lambda>x. wp (retry_failed cf m k now x) (\<lambda>_. ?S) (\<lambda>_. ?S)) (answered w)"
  proof (rule wp_mono[OF launch_post], goal_cases)
    case (1 run u)
    then have "decided m n u" using nl by (auto intro: decided_new)
    moreover have "n \<le> length (wl_launches u)" using 1 nl by auto
    ultimately show ?case by (intro safe_keeps[where c = "retry_landed m k run" for k run])
        (auto simp: safe_def retry_landed_def intro!: later.store_rules)
  next
    case (2 x u)
    then have p: "parked m u" using pk by simp
    have nu: "n \<le> length (wl_launches u)" using 2 nl by (auto simp: later_def)
    show ?case
    proof (cases "decided m n u")
      case True
      then show ?thesis using nu by (intro safe_keeps[OF later.keeps_retry_failed]) (auto simp: safe_def)
    next
      case False
      then have "x = Busy \<or> x = StoreDown" using 2 d nl by (auto intro: decided_new)
      then show ?thesis using p nu save_parked[of m "answered u" "bumped cf now k"] k(2)
        by (auto simp: retry_failed_def wp safe_def Let_def split: store_call.splits)
    qed
  qed
  then show ?thesis using k s by (simp add: retry_pending_def wp)
qed

lemma safe_due:
  assumes s: "safe m n w"
  shows "wp (run_due_checks cf an m p now) (\<lambda>_. safe m n) (\<lambda>_. safe m n) w"
proof (cases "decided m n w")
  case True
  then show ?thesis by (intro safe_keeps[OF later.keeps_due_checks s]) simp_all
next
  case False
  then obtain k where k: "pending_of m w = Some k" "\<not> pk_landed k" and nl: "n \<le> length (wl_launches w)"
    using s by (auto simp: safe_def parked_def)
  let ?S = "\<lambda>u. pending_of m u = Some k \<and> n \<le> length (wl_launches u)"
  have h: "wp (handle_breach cf an m p b now) (\<lambda>_. safe m n) (\<lambda>_. safe m n) u" if "?S u" for b u
    using that k(2) by (auto simp: handle_breach_def wp views safe_def parked_def Let_def split: store_call.splits dest: pending_has_row)
  then show ?thesis using s k nl
    by (auto simp: run_due_checks_def wp Let_def views safe_def[of m n "answered w"] split: store_call.splits option.splits)
qed

text \<open>Watching a run and the operator's answers touch neither parks nor launches.\<close>

definition quiet :: "ploop \<Rightarrow> ploop \<Rightarrow> bool" where
  "quiet w w' = (same_parks w w' \<and> wl_launches w' = wl_launches w)"

interpretation quiet: world_kept quiet "\<lambda>_. False"
  by unfold_locales (auto simp: quiet_def same_parks_def pending_of_def)

lemma quiet_save_status: "keeps quiet (save_status m s)"
  unfolding save_status_def by (rule quiet.keeps_db_write) (simp add: quiet_def same_parks_def views)

lemmas quiet_rules = quiet.store_rules quiet.keeps_create quiet.keeps_resolve quiet.keeps_call_promote quiet_save_status

lemma quiet_poll: "keeps quiet (poll_watch cf an m p now)"
  unfolding poll_watch_def evaluate_run_def offer_candidate_def record_not_green_def clear_watch_def watch_unknown_def
  by (intro quiet_rules)

lemma quiet_accept: "keeps quiet (accept_suggestion an serving i now)"
  unfolding accept_suggestion_def by (intro quiet_rules) (auto split: fault.splits intro: quiet_rules)

lemma quiet_dismiss: "keeps quiet (dismiss_suggestion i now)"
  unfolding dismiss_suggestion_def by (intro quiet_rules)

lemma safe_quiet: "quiet w w' \<Longrightarrow> safe m n w \<Longrightarrow> safe m n w'"
  by (auto simp: quiet_def same_parks_def safe_def parked_def decided_def)

lemma safe_poll: "safe m n w \<Longrightarrow> wp (poll_watch cf an m p now) (\<lambda>_. safe m n) (\<lambda>_. safe m n) w"
  by (rule keeps_wp[OF quiet_poll safe_quiet])

text \<open>An exception of one policy is contained: a pass never raises.\<close>

lemma wp_policy_pass:
  assumes "\<And>u. I u \<Longrightarrow> wp (retry_pending cf an (fst md) (read_policy (snd md)) now) (\<lambda>_. I) (\<lambda>_. I) u"
    and "\<And>u. I u \<Longrightarrow> wp (run_due_checks cf an (fst md) (read_policy (snd md)) now) (\<lambda>_. I) (\<lambda>_. I) u"
    and "\<And>u. I u \<Longrightarrow> wp (poll_watch cf an (fst md) (read_policy (snd md)) now) (\<lambda>_. I) (\<lambda>_. I) u"
    and "I w"
  shows "wp (policy_pass cf an now md) (\<lambda>_. I) (\<lambda>_. I) w"
  using assms(4)
  by (auto simp: policy_pass_def Let_def wp intro!: wp_mono[OF assms(1)] wp_mono[OF assms(2)] wp_mono[OF assms(3)])

lemma wp_tick:
  assumes "\<And>m r u. (m, r) \<in> set (wl_rows w) \<Longrightarrow> I u \<Longrightarrow> wp (policy_pass cf an now (m, pr_doc r)) (\<lambda>_. I) (\<lambda>_. I) u"
    and "I w" "\<And>u. I u \<Longrightarrow> I (answered u)"
  shows "wp (tick cf coll an now) (\<lambda>_. I) (\<lambda>_. I) w"
  using assms by (auto simp: tick_def list_policies_def wp intro!: wp_for_each)

lemma safe_apart: "apart m w w' \<Longrightarrow> safe m n w \<Longrightarrow> safe m n w'"
  by (auto simp: apart_def safe_def parked_def decided_def pending_of_def)

lemma safe_pass:
  assumes s: "safe m n w"
    and d: "fst md = m \<Longrightarrow> resolve_dataset_version (an_datasets an) (po_dataset_name (read_policy (snd md))) (po_dataset (read_policy (snd md))) \<noteq> Inl PolicyBad"
  shows "wp (policy_pass cf an now md) (\<lambda>_. safe m n) (\<lambda>_. safe m n) w"
proof (cases "fst md = m")
  case True
  show ?thesis unfolding True
    by (rule wp_policy_pass) (use s d[OF True] True in \<open>simp_all add: safe_retry safe_due safe_poll\<close>)
next
  case False
  show ?thesis by (rule keeps_wp[OF apart.keeps_policy_pass[OF False] safe_apart[OF _ s]])
qed

lemma pending_row_put: "map_of rows m = Some r \<Longrightarrow> \<exists>r'. map_of (row_put j d rows) m = Some r' \<and> pr_pending r' = pr_pending r \<and> pr_status r' = pr_status r"
  by (auto simp: row_put_def map_of_dict_upd map_add_def split: option.splits)

lemma parked_put: "parked m w \<Longrightarrow> parked m (w\<lparr> wl_rows := row_put j d (wl_rows w) \<rparr>)"
proof -
  assume "parked m w"
  then obtain r k where "map_of (wl_rows w) m = Some r" "pr_pending r = Some k" "\<not> pk_landed k"
    by (auto simp: parked_def pending_of_def split: option.splits)
  then show ?thesis using pending_row_put[of "wl_rows w" m r j d] by (auto simp: parked_def pending_of_def)
qed

lemma safe_put: "safe m n w \<Longrightarrow> wp (put_policy p j now who doc) (\<lambda>_. safe m n) (\<lambda>_. safe m n) w"
  using parked_put[of m "answered w" j] 
  by (auto simp: put_policy_def wp safe_def decided_def split: sum.splits store_call.splits)

lemma safe_delete: "j \<noteq> m \<Longrightarrow> safe m n w \<Longrightarrow> wp (delete_policy j) (\<lambda>_. safe m n) (\<lambda>_. safe m n) w"
  by (auto simp: delete_policy_def wp safe_def decided_def parked_def pending_of_def map_of_delete_dict split: store_call.splits)

lemma safe_weather: "safe m n (w\<lparr> wl_calls := a, wl_delays := b, wl_ids := c \<rparr>) = safe m n w"
  "safe m n (w\<lparr> wl_mono := t \<rparr>) = safe m n w" "safe m n (w\<lparr> wl_stamp := t \<rparr>) = safe m n w"
  by (simp_all add: safe_def parked_def decided_def pending_of_def)

lemma safe_accept: "safe m n w \<Longrightarrow> wp (accept_suggestion an serving i now) (\<lambda>_. safe m n) (\<lambda>_. safe m n) w"
  by (rule keeps_wp[OF quiet_accept safe_quiet])

lemma safe_dismiss: "safe m n w \<Longrightarrow> wp (dismiss_suggestion i now) (\<lambda>_. safe m n) (\<lambda>_. safe m n) w"
  by (rule keeps_wp[OF quiet_dismiss safe_quiet])

text \<open>One row per model.\<close>

definition one_row :: "ploop \<Rightarrow> bool" where
  "one_row w = distinct (dkeys (wl_rows w))"

definition same_models :: "ploop \<Rightarrow> ploop \<Rightarrow> bool" where
  "same_models w w' = (dkeys (wl_rows w') = dkeys (wl_rows w))"

interpretation models: world_kept same_models "\<lambda>_. True"
  by unfold_locales (simp_all add: same_models_def)

lemma models_keep: "keeps same_models c \<Longrightarrow> one_row w \<Longrightarrow> wp c (\<lambda>_. one_row) (\<lambda>_. one_row) w"
  by (rule keeps_wp[where R = same_models]) (auto simp: same_models_def one_row_def)

lemma models_accept: "keeps same_models (accept_suggestion an serving i now)"
  unfolding accept_suggestion_def
  by (intro models.store_rules models.keeps_resolve models.keeps_call_promote)
     (auto split: fault.splits intro: models.store_rules)

lemma models_dismiss: "keeps same_models (dismiss_suggestion i now)"
  unfolding dismiss_suggestion_def by (intro models.store_rules models.keeps_resolve)

interpretation rows_run: loop_invariant one_row cf coll "\<lambda>_ _. True" for cf coll
proof (unfold_locales, goal_cases)
  case (4 now an we w)
  then show ?case by (intro wp_tick models_keep models.keeps_policy_pass) (simp_all add: one_row_def)
next
  case (5 p m now who doc we w)
  then show ?case
    by (auto simp: put_policy_def wp one_row_def row_put_def split: sum.splits store_call.splits)
next
  case (7 an serving i now we w)
  then show ?case by (intro models_keep models_accept)
next
  case (8 i now we w)
  then show ?case by (intro models_keep models_dismiss)
qed (auto simp: one_row_def delete_policy_def wp split: store_call.splits)

text \<open>The policy \<open>m\<close> is not deleted, and its data set has a registered version whenever a tick looks.\<close>

definition undisturbed :: "string \<Rightarrow> levent \<Rightarrow> ploop \<Rightarrow> bool" where
  "undisturbed m e w = (case e of Delete j we \<Rightarrow> j \<noteq> m
     | Tick now an we \<Rightarrow> (case map_of (wl_rows w) m of None \<Rightarrow> True
         | Some r \<Rightarrow> (let p = read_policy (pr_doc r)
             in resolve_dataset_version (an_datasets an) (po_dataset_name p) (po_dataset p) \<noteq> Inl PolicyBad))
     | _ \<Rightarrow> True)"

lemma safe_tick:
  assumes "safe m n w" "one_row w" "undisturbed m (Tick now an we) w"
  shows "wp (tick cf coll an now) (\<lambda>_. safe m n) (\<lambda>_. safe m n) w"
proof (rule wp_tick)
  fix j r u
  assume r: "(j, r) \<in> set (wl_rows w)" and u: "safe m n u"
  have "resolve_dataset_version (an_datasets an) (po_dataset_name (read_policy (pr_doc r))) (po_dataset (read_policy (pr_doc r))) \<noteq> Inl PolicyBad"
    if "j = m"
    using assms(2,3) r that by (simp add: one_row_def undisturbed_def Let_def)
  then show "wp (policy_pass cf an now (j, pr_doc r)) (\<lambda>_. safe m n) (\<lambda>_. safe m n) u" by (intro safe_pass[OF u]) simp
qed (simp_all add: assms)

definition safe_rows :: "string \<Rightarrow> nat \<Rightarrow> ploop \<Rightarrow> bool" where
  "safe_rows m n w = (safe m n w \<and> one_row w)"

lemma wp_both: "wp c (\<lambda>_. P) (\<lambda>_. P) w \<Longrightarrow> wp c (\<lambda>_. Q) (\<lambda>_. Q) w \<Longrightarrow> wp c (\<lambda>_ w. P w \<and> Q w) (\<lambda>_ w. P w \<and> Q w) w"
  by (simp add: wp_def split: prod.splits sum.splits)

interpretation safe: loop_invariant "safe_rows m n" cf coll "undisturbed m" for m n cf coll
proof (unfold_locales, goal_cases)
  case (4 now an we w c b a)
  then have "undisturbed m (Tick now an we) (w\<lparr> wl_calls := a, wl_delays := b, wl_ids := c \<rparr>)" by (simp add: undisturbed_def)
  moreover have "one_row w" "safe m n w" using 4 by (simp_all add: safe_rows_def)
  ultimately show ?case unfolding safe_rows_def[abs_def]
    by (intro wp_both safe_tick rows_run.inv_tick) (simp_all add: safe_weather, simp_all add: one_row_def)
next
  case (5 p j now who doc we w0 w)
  then show ?case unfolding safe_rows_def[abs_def] by (intro wp_both safe_put rows_run.inv_put) simp_all
next
  case (6 j we w0 w)
  then show ?case unfolding safe_rows_def[abs_def] by (intro wp_both safe_delete rows_run.inv_delete) (simp_all add: undisturbed_def)
next
  case (7 an serving i now we w0 w)
  then show ?case unfolding safe_rows_def[abs_def] by (intro wp_both safe_accept rows_run.inv_accept) simp_all
next
  case (8 i now we w0 w)
  then show ?case unfolding safe_rows_def[abs_def] by (intro wp_both safe_dismiss rows_run.inv_dismiss) simp_all
qed (simp_all add: safe_rows_def safe_weather one_row_def)


text \<open>While every store call works, nothing makes a call fail later.\<close>

definition calm :: "ploop \<Rightarrow> ploop \<Rightarrow> bool" where
  "calm w w' = (wl_calls w = [] \<longrightarrow> wl_calls w' = [])"

interpretation calm: world_kept calm "\<lambda>_. True"
  by unfold_locales (auto simp: calm_def answered_def on_row_def)

definition accepted :: "string \<Rightarrow> nat \<Rightarrow> ploop \<Rightarrow> bool" where
  "accepted m n w = (\<exists>l \<in> set (drop n (wl_launches w)). la_model l = m \<and> (\<exists>r. la_answer l = Accepted r))"

lemma accepted_later: "later w w' \<Longrightarrow> accepted m n w \<Longrightarrow> accepted m n w'"
  by (auto simp: later_def accepted_def)

lemma next_works: "wl_calls w = [] \<Longrightarrow> next_call w = CallWorks"
  by (simp add: next_call_def)

lemma calm_answered [simp]: "wl_calls (answered w) = tl (wl_calls w)"
  by (simp add: answered_def)

text \<open>The trainer and the data set are there for the policy.\<close>

definition ready :: "answers \<Rightarrow> policy \<Rightarrow> bool" where
  "ready an p = ((\<exists>v. resolve_dataset_version (an_datasets an) (po_dataset_name p) (po_dataset p) = Inr v) \<and>
     (\<forall>n. case an_launch an n of Accepted r \<Rightarrow> truthy (run_id_of r) | _ \<Rightarrow> False))"

lemma ready_launch: "ready an p \<Longrightarrow> \<exists>r. an_launch an n = Accepted r \<and> truthy (run_id_of r)"
proof -
  assume "ready an p"
  then have "case an_launch an n of Accepted r \<Rightarrow> truthy (run_id_of r) | _ \<Rightarrow> False" by (simp only: ready_def)
  then show ?thesis by (cases "an_launch an n") simp_all
qed

definition waits :: "string \<Rightarrow> park \<Rightarrow> nat \<Rightarrow> ploop \<Rightarrow> bool" where
  "waits m k n w = (wl_calls w = [] \<and> pending_of m w = Some k \<and> n \<le> length (wl_launches w))"

definition watches :: "string \<Rightarrow> nat \<Rightarrow> ploop \<Rightarrow> bool" where
  "watches m n w = (wl_calls w = [] \<and> pending_of m w = None \<and> st_watch (or_empty (status_of m w)) \<noteq> None \<and> accepted m n w)"

definition served :: "string \<Rightarrow> nat \<Rightarrow> ploop \<Rightarrow> bool" where
  "served m n w = (pending_of m w = None \<and> accepted m n w)"

lemma status_on_row [views]:
  "status_of j (on_row m (\<lambda>r. r\<lparr> pr_status := s \<rparr>) w) = (if j = m \<and> has_row m w then s else status_of j w)"
  "status_of j (on_row m (\<lambda>r. r\<lparr> pr_pending := k \<rparr>) w) = status_of j w"
  by (cases "map_of (wl_rows w) m"; simp add: status_of_def has_row_def views split: option.splits)+

lemma retry_watches:
  assumes w: "waits m k n w" and k: "\<not> pk_landed k" "pk_next k \<le> now" and r: "ready an p"
  shows "wp (retry_pending cf an m p now) (\<lambda>_. watches m n) E w"
proof -
  have h: "has_row m w" using w by (auto simp: waits_def dest: pending_has_row)
  obtain v where v: "resolve_dataset_version (an_datasets an) (po_dataset_name p) (po_dataset p) = Inr v" using r by (auto simp: ready_def)
  obtain r where "an_launch an (length (wl_launches w)) = Accepted r" "truthy (run_id_of r)" using ready_launch[OF r] by blast
  then show ?thesis using w k v h
    by (auto simp: retry_pending_def wp launch_retrain_def Let_def persist_watch_def retry_landed_def waits_def watches_def accepted_def
        next_works views or_empty_def)
qed

lemma due_served:
  assumes w: "watches m n w"
  shows "wp (run_due_checks cf an m p now) (\<lambda>_. served m n) (\<lambda>_. served m n) w"
proof -
  have h: "wp (handle_breach cf an m p b now) (\<lambda>_. served m n) (\<lambda>_. served m n) u"
    if "st_watch (or_empty (status_of m u)) \<noteq> None" "served m n u" for b u
    using that by (auto simp: handle_breach_def wp views served_def accepted_def)
  have n: "next_call w = CallWorks" using w by (simp add: watches_def next_works)
  have r: "has_row m w"
  proof (rule ccontr)
    assume "\<not> has_row m w"
    then show False using w by (simp add: watches_def has_row_def status_of_def or_empty_def)
  qed
  let ?u = "\<lambda>rs. on_row m (\<lambda>r. r\<lparr> pr_status := Some ((or_empty (status_of m w))\<lparr> st_last := Some now, st_results := rs,
     st_due := Some (now + po_interval p) \<rparr>) \<rparr>) (answered (answered w))"
  have u: "st_watch (or_empty (status_of m (?u rs))) \<noteq> None \<and> served m n (?u rs) \<and> next_call (answered w) = CallWorks" for rs
    using w r by (auto simp: views watches_def served_def accepted_def or_empty_def next_works)
  have hb: "wp (handle_breach cf an m p b now) (\<lambda>_. served m n) (\<lambda>_. served m n) (?u rs)" for b rs
    using h[of "?u rs" b] u by simp
  have "served m n (answered w)" using w by (simp add: watches_def served_def accepted_def views)
  then show ?thesis using n u hb by (simp add: run_due_checks_def wp Let_def views split: option.splits)
qed

lemma served_quiet: "quiet w w' \<Longrightarrow> served m n w \<Longrightarrow> served m n w'"
  by (simp add: quiet_def same_parks_def served_def accepted_def)

lemma served_pass:
  assumes w: "waits m k n w" and k: "\<not> pk_landed k" "pk_next k \<le> now" and r: "ready an (read_policy d)" "po_enabled (read_policy d)"
  shows "wp (policy_pass cf an now (m, d)) (\<lambda>_. served m n) E w"
proof -
  let ?p = "read_policy d"
  have "wp (poll_watch cf an m ?p now) (\<lambda>_. served m n) (\<lambda>_. served m n) u" if "served m n u" for u
    by (rule keeps_wp[OF quiet_poll served_quiet[OF _ that]])
  then have "wp (run_due_checks cf an m ?p now) (\<lambda>b. wp (poll_watch cf an m ?p now) (\<lambda>_. served m n) (\<lambda>_. served m n)) (\<lambda>_. served m n) u"
    if "watches m n u" for u by (rule wp_mono[OF due_served[OF that]])
  then have "wp (retry_pending cf an m ?p now) (\<lambda>_. wp (run_due_checks cf an m ?p now)
      (\<lambda>b. wp (poll_watch cf an m ?p now) (\<lambda>_. served m n) (\<lambda>_. served m n)) (\<lambda>_. served m n)) (\<lambda>_. served m n) w"
    by (rule wp_mono[OF retry_watches[OF w k r(1)]])
  then show ?thesis using r(2) by (simp add: policy_pass_def wp Let_def)
qed

lemma waits_apart: "calm w w' \<Longrightarrow> apart m w w' \<Longrightarrow> waits m k n w \<Longrightarrow> waits m k n w'"
  by (auto simp: calm_def apart_def waits_def pending_of_def)

lemma served_apart: "apart m w w' \<Longrightarrow> served m n w \<Longrightarrow> served m n w'"
  by (auto simp: apart_def served_def accepted_def pending_of_def)

lemma waits_pass: "fst md \<noteq> m \<Longrightarrow> waits m k n w \<Longrightarrow> wp (policy_pass cf an now md) (\<lambda>_. waits m k n) (\<lambda>_. waits m k n) w"
  unfolding wp_snd by (rule waits_apart[OF keepsD[OF calm.keeps_policy_pass] keepsD[OF apart.keeps_policy_pass]]) simp_all

lemma served_pass_apart: "fst md \<noteq> m \<Longrightarrow> served m n w \<Longrightarrow> wp (policy_pass cf an now md) (\<lambda>_. served m n) (\<lambda>_. served m n) w"
  by (rule keeps_wp[OF apart.keeps_policy_pass served_apart]) simp_all

lemma wp_True: "wp c (\<lambda>_ _. True) (\<lambda>_ _. True) = (\<lambda>_. True)"
  by (simp add: wp_def fun_eq_iff split: prod.splits sum.splits)

lemma pass_total: "wp (policy_pass cf an now md) (\<lambda>_ _. True) (\<lambda>_ _. False) w"
  by (simp add: policy_pass_def Let_def wp wp_True)

text \<open>Every live park is due by \<open>B\<close>.\<close>

definition due_by :: "rat \<Rightarrow> ploop \<Rightarrow> bool" where
  "due_by B w = (\<forall>m k. pending_of m w = Some k \<longrightarrow> \<not> pk_landed k \<longrightarrow> pk_next k \<le> B)"

definition stays_due :: "rat \<Rightarrow> ploop \<Rightarrow> ploop \<Rightarrow> bool" where
  "stays_due B w w' = (due_by B w \<longrightarrow> due_by B w')"

interpretation due: world_kept "stays_due B" "\<lambda>_. False" for B
  by unfold_locales (auto simp: stays_due_def due_by_def pending_of_def)

definition in_time :: "rat \<Rightarrow> park \<Rightarrow> bool" where
  "in_time B k = (pk_landed k \<or> pk_next k \<le> B)"

lemma due_saved: "in_time B k \<Longrightarrow> due_by B w \<Longrightarrow> due_by B (on_row m (\<lambda>r. r\<lparr> pr_pending := Some k \<rparr>) w)"
  by (auto simp: due_by_def in_time_def views)

lemma due_simps [simp]: "due_by B (answered w) = due_by B w" "due_by B (on_row m (\<lambda>r. r\<lparr> pr_status := s \<rparr>) w) = due_by B w"
  by (simp_all add: due_by_def views)

lemma due_save_pending: "in_time B k \<Longrightarrow> keeps (stays_due B) (save_pending m k)"
  unfolding save_pending_def by (intro keeps_if due.keeps_throw due.keeps_db_write) (simp add: stays_due_def due_saved)

lemma due_save_status: "keeps (stays_due B) (save_status m s)"
  unfolding save_status_def by (rule due.keeps_db_write) (simp add: stays_due_def)

lemma due_clear: "keeps (stays_due B) (clear_pending m)"
  unfolding clear_pending_def by (rule due.keeps_db_write) (simp add: stays_due_def due_by_def views)

lemma due_call_launch: "keeps (stays_due B) (call_launch an m n v)"
  by (auto simp: keeps_def call_launch_def Let_def stays_due_def due_by_def pending_of_def split: launch_answer.splits)

lemmas due_rules = due.store_rules due_clear due_save_status due_save_pending due_call_launch due.keeps_resolve_version
  due.keeps_create due.keeps_call_promote

definition slack :: "loop_config \<Rightarrow> rat" where
  "slack cf = max (lc_base cf) (lc_max cf)"

lemma in_time_bumped: "now + slack cf \<le> B \<Longrightarrow> in_time B (bumped cf now k)"
  by (auto simp: in_time_def bumped_def slack_def min_def max_def split: if_splits)

lemma due_launch: "keeps (stays_due B) (launch_retrain an m p)"
  unfolding launch_retrain_def persist_watch_def by (intro due_rules)

lemma due_retry_failed: "now + slack cf \<le> B \<Longrightarrow> keeps (stays_due B) (retry_failed cf m k now x)"
  by (cases x) (auto simp: retry_failed_def intro!: due_rules in_time_bumped)

lemma due_retry: "now + slack cf \<le> B \<Longrightarrow> keeps (stays_due B) (retry_pending cf an m p now)"
  unfolding retry_pending_def retry_landed_def
  by (intro due_rules due_launch due_retry_failed) (simp_all add: in_time_def landed_def)

lemma due_breach_launch: "now + slack cf \<le> B \<Longrightarrow> keeps (stays_due B) (breach_launch cf an m p b now)"
  unfolding breach_launch_def breach_launch_failed_def
  by (intro due_rules due_launch) (auto simp: in_time_def slack_def max_def split: if_splits)

lemma due_breach:
  assumes "now + slack cf \<le> B" and d: "due_by B w"
  shows "wp (handle_breach cf an m p b now) (\<lambda>_. due_by B) (\<lambda>_. due_by B) w"
proof -
  have l: "wp (breach_launch cf an m p b now) (\<lambda>_. due_by B) (\<lambda>_. due_by B) u" if "due_by B u" for u
    by (rule keeps_wp[OF due_breach_launch[OF assms(1)]]) (simp add: stays_due_def that)
  have "due_by B (on_row m (\<lambda>r. r\<lparr> pr_pending := Some (k\<lparr> pk_breach := b \<rparr>) \<rparr>) u)"
    if "pending_of m w = Some k" "\<not> pk_landed k" "due_by B u" for k u
    using that d by (intro due_saved) (auto simp: due_by_def in_time_def)
  then show ?thesis using d l by (auto simp: handle_breach_def wp Let_def views split: store_call.splits option.splits)
qed

lemma due_checks:
  assumes "now + slack cf \<le> B" and d: "due_by B w"
  shows "wp (run_due_checks cf an m p now) (\<lambda>_. due_by B) (\<lambda>_. due_by B) w"
  using d due_breach[OF assms(1)] by (auto simp: run_due_checks_def wp Let_def split: store_call.splits option.splits)

lemma due_poll: "keeps (stays_due B) (poll_watch cf an m p now)"
  unfolding poll_watch_def evaluate_run_def offer_candidate_def record_not_green_def clear_watch_def watch_unknown_def
  by (intro due_rules)

lemma due_pass:
  assumes "now + slack cf \<le> B" and d: "due_by B w"
  shows "wp (policy_pass cf an now md) (\<lambda>_. due_by B) (\<lambda>_. due_by B) w"
proof (rule wp_policy_pass)
  fix u assume u: "due_by B u"
  show "wp (retry_pending cf an (fst md) (read_policy (snd md)) now) (\<lambda>_. due_by B) (\<lambda>_. due_by B) u"
    by (rule keeps_wp[OF due_retry[OF assms(1)]]) (simp add: stays_due_def u)
  show "wp (poll_watch cf an (fst md) (read_policy (snd md)) now) (\<lambda>_. due_by B) (\<lambda>_. due_by B) u"
    by (rule keeps_wp[OF due_poll[where B = B]]) (simp add: stays_due_def u)
qed (use assms due_checks in simp_all)

lemma pending_put_fresh: "m \<notin> set (dkeys rows) \<Longrightarrow> map_of (row_put m d rows) j =
    (if j = m then Some \<lparr> pr_doc = d, pr_pending = None, pr_status = None \<rparr> else map_of rows j)"
  by (simp add: row_put_def map_add_def map_of_eq_None_iff[THEN iffD2] split: option.splits)

lemma pending_put [views]: "pending_of j (w\<lparr> wl_rows := row_put m d (wl_rows w) \<rparr>) = pending_of j w"
proof (cases "m \<in> set (dkeys (wl_rows w))")
  case True
  then show ?thesis by (auto simp: pending_of_def row_put_def map_of_dict_upd split: option.splits)
next
  case False
  then have "map_of (wl_rows w) m = None" using dkeys_iff_map_of by metis
  then show ?thesis by (simp add: pending_of_def pending_put_fresh[OF False] split: option.splits)
qed

lemma due_put: "due_by B w \<Longrightarrow> wp (put_policy p m now who doc) (\<lambda>_. due_by B) (\<lambda>_. due_by B) w"
  using pending_put[where w = "answered w"] by (auto simp: put_policy_def wp due_by_def views split: sum.splits store_call.splits)

lemma due_delete: "due_by B w \<Longrightarrow> wp (delete_policy m) (\<lambda>_. due_by B) (\<lambda>_. due_by B) w"
  by (auto simp: delete_policy_def wp due_by_def pending_of_def map_of_delete_dict split: store_call.splits if_splits)

lemma due_quiet: "quiet w w' \<Longrightarrow> due_by B w \<Longrightarrow> due_by B w'"
  by (simp add: quiet_def same_parks_def due_by_def)

definition tick_by :: "rat \<Rightarrow> loop_config \<Rightarrow> levent \<Rightarrow> ploop \<Rightarrow> bool" where
  "tick_by B cf e w = (case e of Tick now an we \<Rightarrow> now + slack cf \<le> B | _ \<Rightarrow> True)"

interpretation due_run: loop_invariant "due_by B" cf coll "tick_by B cf" for B cf coll
proof (unfold_locales, goal_cases)
  case (4 now an we w c b a)
  then show ?case by (intro wp_tick due_pass) (simp_all add: tick_by_def due_by_def pending_of_def)
next
  case (7 an serving i now we w0 w)
  then show ?case by (intro keeps_wp[OF quiet_accept]) (rule due_quiet)
next
  case (8 i now we w0 w)
  then show ?case by (intro keeps_wp[OF quiet_dismiss]) (rule due_quiet)
qed (simp_all add: due_put due_delete due_by_def pending_of_def)

lemma wp_for_each_split:
  assumes "\<And>a s. a \<in> set xs \<Longrightarrow> I s \<Longrightarrow> wp (f a) (\<lambda>_. I) E s" and "\<And>s. I s \<Longrightarrow> wp (f a) (\<lambda>_. J) E s"
    and "\<And>b s. b \<in> set ys \<Longrightarrow> J s \<Longrightarrow> wp (f b) (\<lambda>_. J) E s" and "I s"
  shows "wp (for_each f (xs @ a # ys)) (\<lambda>_. J) E s"
  using assms(1,4)
proof (induction xs arbitrary: s)
  case Nil
  have "wp (for_each f ys) (\<lambda>_. J) E t" if "J t" for t by (rule wp_for_each) (use assms(3) that in auto)
  then show ?case using Nil by (auto simp: wp intro: wp_mono[OF assms(2)])
next
  case (Cons x xs)
  have "wp (f x) (\<lambda>_. I) E s" using Cons.prems by simp
  then have "wp (f x) (\<lambda>_. wp (for_each f (xs @ a # ys)) (\<lambda>_. J) E) E s"
    by (rule wp_mono) (use Cons in simp_all)
  then show ?case by (simp add: wp)
qed

lemma served_tick:
  assumes w: "waits m k n w" and o: "one_row w" and r: "map_of (wl_rows w) m = Some r"
    and k: "\<not> pk_landed k" "pk_next k \<le> now"
    and d: "ready an (read_policy (pr_doc r))" "po_enabled (read_policy (pr_doc r))"
  shows "wp (tick cf coll an now) (\<lambda>_. served m n) (\<lambda>_. served m n) w"
proof -
  let ?ds = "map (\<lambda>(m, r). (m, pr_doc r)) (sort_key (\<lambda>(m, r). coll m) (wl_rows w))"
  have "(\<lambda>(m, r). (m, pr_doc r)) (m, r) \<in> set ?ds" unfolding set_map set_sort by (rule imageI[OF map_of_SomeD[OF r]])
  then have "(m, pr_doc r) \<in> set ?ds" by simp
  then obtain xs ys where s: "?ds = xs @ (m, pr_doc r) # ys" by (meson split_list)
  have m: "map fst ?ds = map fst (sort_key (\<lambda>(m, r). coll m) (wl_rows w))" by (simp add: comp_def case_prod_beta)
  have "distinct (map fst ?ds)" unfolding m using o by (simp only: one_row_def distinct_map distinct_sort set_sort)
  then have "m \<notin> fst ` set xs" "m \<notin> fst ` set ys" unfolding s by simp_all
  then have ne: "\<And>x. x \<in> set xs \<Longrightarrow> fst x \<noteq> m" "\<And>x. x \<in> set ys \<Longrightarrow> fst x \<noteq> m" by (metis imageI)+
  have "wp (for_each (policy_pass cf an now) ?ds) (\<lambda>_. served m n) (\<lambda>_. served m n) (answered w)" unfolding s
  proof (rule wp_for_each_split[where I = "waits m k n"])
    fix a u assume "a \<in> set xs" "waits m k n u"
    then show "wp (policy_pass cf an now a) (\<lambda>_. waits m k n) (\<lambda>_. served m n) u"
      using waits_pass[OF ne(1), of a k n u cf an now] pass_total[of cf an now a u]
      by (simp add: wp_def split: prod.splits sum.splits)
  next
    fix u assume "waits m k n u"
    then show "wp (policy_pass cf an now (m, pr_doc r)) (\<lambda>_. served m n) (\<lambda>_. served m n) u"
      by (rule served_pass[OF _ k d])
  next
    fix b u assume "b \<in> set ys" "served m n u"
    then show "wp (policy_pass cf an now b) (\<lambda>_. served m n) (\<lambda>_. served m n) u" by (intro served_pass_apart ne(2))
  qed (use w in \<open>simp add: waits_def views\<close>)
  moreover have "next_call w = CallWorks" using w by (simp add: waits_def next_works)
  ultimately show ?thesis by (simp add: tick_def list_policies_def wp)
qed

text \<open>A parked retrain is retried and then launched: after any run whose ticks are not later than \<open>T\<close> its next attempt
  is due by \<open>T\<close> plus the larger of the base and the largest backoff; and the first tick at or after it under which the store
  works, the data set resolves and the trainer accepts launches it and leaves nothing parked, whatever the other
  policies do in that tick.\<close>

theorem parked_retrain_is_retried:
  assumes "w = loop_run cf coll es (fresh_loop t0)" and "\<And>now an we. Tick now an we \<in> set es \<Longrightarrow> now \<le> T"
    and "map_of (wl_rows w) m = Some r" and "pr_pending r = Some k" and "\<not> pk_landed k"
    and "pk_next k \<le> now" and "ready an (read_policy (pr_doc r))" and "po_enabled (read_policy (pr_doc r))" and "we_calls we = []"
    and "w' = loop_step cf coll (Tick now an we) w"
  shows "pk_next k \<le> T + slack cf \<and> pending_of m w' = None \<and>
    (\<exists>l \<in> set (drop (length (wl_launches w)) (wl_launches w')). la_model l = m \<and> (\<exists>r. la_answer l = Accepted r))"
proof -
  let ?n = "length (wl_launches w)"
  have p: "pending_of m w = Some k" using assms(3,4) by (simp add: pending_of_def)
  have "tick_by (T + slack cf) cf e u" if "e \<in> set es" for e u
    using that assms(2) by (auto simp: tick_by_def split: levent.splits)
  moreover have "due_by (T + slack cf) (fresh_loop t0)" by (simp add: due_by_def pending_of_def fresh_loop_def)
  ultimately have "due_by (T + slack cf) w" unfolding assms(1) by (rule due_run.inv_run)
  then have b: "pk_next k \<le> T + slack cf" using p assms(5) by (simp add: due_by_def)
  have o: "one_row w" unfolding assms(1) by (rule rows_run.inv_run) (simp_all add: one_row_def fresh_loop_def)
  let ?u = "w\<lparr> wl_calls := we_calls we, wl_delays := we_delays we, wl_ids := we_ids we \<rparr>"
  have "wp (tick cf coll an now) (\<lambda>_. served m ?n) (\<lambda>_. served m ?n) ?u"
    by (rule served_tick[OF _ _ _ assms(5,6,7,8)])
       (use assms(3,9) p o in \<open>simp_all add: waits_def pending_of_def one_row_def\<close>)
  then have "served m ?n w'" unfolding assms(10) loop_step.simps
    by (rule under_wp) (simp add: served_def accepted_def pending_of_def)
  then show ?thesis using b by (simp add: served_def accepted_def)
qed

section \<open>A sample run\<close>

definition sample_parsers :: parsers where
  "sample_parsers = \<lparr> pa_int = (\<lambda>_. None), pa_float = (\<lambda>_. None) \<rparr>"

definition sample_policy :: "string \<Rightarrow> bag" where
  "sample_policy mode = [(''modality'', JStr ''llm''), (''monitors'', JList [JObj [(''kind'', JStr ''quality'')]]), (''check_interval_s'', JInt 60),
     (''on_breach'', JObj [(''action'', JStr ''retrain''), (''dataset'', JStr ''latest''), (''params'', JObj [(''dataset_name'', JStr ''d'')])]),
     (''promotion_mode'', JStr mode)]"

definition sample_answers :: "launch_answer \<Rightarrow> bag \<Rightarrow> answers" where
  "sample_answers la rec = \<lparr> an_check = (\<lambda>m mon. Inr [(''breached'', JBool True), (''score'', JInt 1)]),
     an_datasets = \<lparr> ds_list = Some [(''d'', [''v1'', ''v2''])], ds_manifest = (\<lambda>n v. Registered (if v = ''v2'' then 2 else 1)) \<rparr>,
     an_launch = (\<lambda>n. la), an_watch = (\<lambda>r. Some rec), an_gate = (\<lambda>m v. Some [(''verdict'', JStr ''pass'')]),
     an_shadow = (\<lambda>m v t. Some None), an_promote = (\<lambda>m v. Some [(''promoted'', JBool True)]), an_text = (\<lambda>v. ''3'') \<rparr>"

abbreviation sample_put :: "string \<Rightarrow> string \<Rightarrow> levent" where
  "sample_put m mode \<equiv> Put sample_parsers m 1 ''operator'' (sample_policy mode) fine"

abbreviation sample_tick :: "rat \<Rightarrow> launch_answer \<Rightarrow> bag \<Rightarrow> levent" where
  "sample_tick now la rec \<equiv> Tick now (sample_answers la rec) \<lparr> we_calls = [], we_delays = [], we_ids = [''id1''] \<rparr>"

definition sample_parked :: ploop where
  "sample_parked = loop_run default_loop_config (\<lambda>_. 0) [sample_put ''m'' ''suggest'', sample_tick 1000 BusyNow []] (fresh_loop 5)"

lemma sample_parked_row: "map_of (wl_rows sample_parked) ''m'' = Some (the (map_of (wl_rows sample_parked) ''m''))"
  by (rule is_some) code_simp

lemma sample_parked_pending: "pr_pending (the (map_of (wl_rows sample_parked) ''m'')) = Some (the (pr_pending (the (map_of (wl_rows sample_parked) ''m''))))"
  by (rule is_some) code_simp

lemma sample_parked_live: "\<not> pk_landed (the (pr_pending (the (map_of (wl_rows sample_parked) ''m''))))"
  by code_simp


theorem parked_retrain_is_retried_witness:
  "pending_of ''m'' (loop_step default_loop_config (\<lambda>_. 0) (sample_tick 2000 (Accepted [(''id'', JStr ''r1'')]) []) sample_parked) = None"
proof -
  let ?la = "Accepted [(''id'', JStr ''r1'')]"
  have d: "pk_next (the (pr_pending (the (map_of (wl_rows sample_parked) ''m'')))) \<le> 2000"
    and e: "po_enabled (read_policy (pr_doc (the (map_of (wl_rows sample_parked) ''m''))))" by code_simp+
  have "resolve_dataset_version (an_datasets (sample_answers ?la []))
      (po_dataset_name (read_policy (pr_doc (the (map_of (wl_rows sample_parked) ''m'')))))
      (po_dataset (read_policy (pr_doc (the (map_of (wl_rows sample_parked) ''m''))))) = Inr (JStr ''v2'')" by code_simp
  then have r: "ready (sample_answers ?la []) (read_policy (pr_doc (the (map_of (wl_rows sample_parked) ''m''))))"
    by (auto simp: ready_def sample_answers_def run_id_of_def jor_def jget_def)
  have t: "now \<le> 1000" if "Tick now an we \<in> set [sample_put ''m'' ''suggest'', sample_tick 1000 BusyNow []]" for now an we
    using that by simp
  show ?thesis
    using parked_retrain_is_retried[OF sample_parked_def t sample_parked_row sample_parked_pending sample_parked_live d r e _ refl]
    by simp
qed

end
