(* ===== verification/PolicyOffers.thy ===== *)
theory PolicyOffers
  imports PolicyParks
begin

text \<open>
  What the policy loop offers for promotion: only green candidates, one open suggestion per candidate, resolutions that
  are final; and two ways the loop departs from what its comments promise.
\<close>

section \<open>Offers\<close>

definition promoted_call :: "string \<Rightarrow> string \<Rightarrow> ploop \<Rightarrow> bool" where
  "promoted_call m v w = (\<exists>p \<in> set (wl_promotes w). pc_model p = m \<and> (\<forall>s. pc_version p = JStr s \<longrightarrow> s = v) \<and>
     (\<exists>r. pc_answer p = Some r \<and> truthy (jget r ''promoted'')))"

definition offer_ok :: "ploop \<Rightarrow> suggestion \<Rightarrow> bool" where
  "offer_ok w x = (green (sg_gate x) (sg_shadow x) \<and>
     (sg_state x = ''auto-promoted'' \<longrightarrow> promoted_call (sg_model x) (sg_version x) w))"

definition standing :: "suggestion \<Rightarrow> bool" where
  "standing x = (sg_state x = ''open'' \<or> sg_state x = ''auto-promoted'')"

definition offers_inv :: "ploop \<Rightarrow> bool" where
  "offers_inv w = (distinct (dkeys (wl_sugs w)) \<and> (\<forall>i x. map_of (wl_sugs w) i = Some x \<longrightarrow> offer_ok w x) \<and>
     (\<forall>i j x y. map_of (wl_sugs w) i = Some x \<longrightarrow> map_of (wl_sugs w) j = Some y \<longrightarrow> standing x \<longrightarrow>
        matching (sg_model x) (sg_version x) (sg_state x) y \<longrightarrow> i = j))"

definition same_offers :: "ploop \<Rightarrow> ploop \<Rightarrow> bool" where
  "same_offers w w' = (wl_sugs w' = wl_sugs w \<and> wl_promotes w' = wl_promotes w)"

interpretation offers: store_kept same_offers "\<lambda>_. True"
  by unfold_locales (simp_all add: same_offers_def)

lemma offers_same: "same_offers w w' \<Longrightarrow> offers_inv w \<Longrightarrow> offers_inv w'"
  by (simp add: same_offers_def offers_inv_def offer_ok_def promoted_call_def)

lemma offers_keep: "keeps same_offers c \<Longrightarrow> offers_inv w \<Longrightarrow> wp c (\<lambda>_. offers_inv) (\<lambda>_. offers_inv) w"
  by (rule keeps_wp[where R = same_offers]) (simp_all add: offers_same)

text \<open>The calls only grow.\<close>

definition may_promote :: "string \<Rightarrow> string \<Rightarrow> ploop \<Rightarrow> bool" where
  "may_promote m v w = (offers_inv w \<and> promoted_call m v w)"

definition call_logged :: "promote_call \<Rightarrow> ploop \<Rightarrow> ploop" where
  "call_logged p w = w\<lparr> wl_promotes := wl_promotes w @ [p] \<rparr>"

lemma wp_call_promote [wp]: "wp (call_promote an m v) Q E = (\<lambda>w.
    let w' = call_logged \<lparr> pc_model = m, pc_version = v, pc_answer = an_promote an m v \<rparr> w
    in case an_promote an m v of None \<Rightarrow> E Failure w' | Some r \<Rightarrow> Q r w')"
  by (simp add: wp_def call_promote_def call_logged_def Let_def fun_eq_iff split: option.splits)

lemma promoted_call_logged [simp]: "promoted_call m v w \<Longrightarrow> promoted_call m v (call_logged p w)"
  by (auto simp: promoted_call_def call_logged_def)

lemma call_logged_inv: "offers_inv w \<Longrightarrow> offers_inv (call_logged p w)"
  unfolding offers_inv_def offer_ok_def using promoted_call_logged by (simp add: call_logged_def)

text \<open>A new offer.\<close>

definition added :: "string \<Rightarrow> suggestion \<Rightarrow> ploop \<Rightarrow> ploop" where
  "added i x w = w\<lparr> wl_sugs := wl_sugs w @ [(i, x)] \<rparr>"

lemma added_inv:
  assumes w: "offers_inv w" and i: "i \<notin> set (dkeys (wl_sugs w))" and x: "offer_ok w x"
    and f: "standing x \<Longrightarrow> \<forall>(j, y) \<in> set (wl_sugs w). \<not> matching (sg_model x) (sg_version x) (sg_state x) y"
  shows "offers_inv (added i x w)"
proof -
  have m: "map_of (wl_sugs (added i x w)) j = (if j = i then Some x else map_of (wl_sugs w) j)" for j
    using i dkeys_iff_map_of[of i "wl_sugs w"] by (auto simp: added_def map_add_def split: option.splits)
  have ok: "offer_ok (added i x w) y = offer_ok w y" for y by (simp add: offer_ok_def promoted_call_def added_def)
  have n: "\<not> matching (sg_model x) (sg_version x) (sg_state x) y" if "standing x" "map_of (wl_sugs w) j = Some y" for j y
    using f[OF that(1)] map_of_SomeD[OF that(2)] by auto
  have n': "\<not> matching (sg_model y) (sg_version y) (sg_state y) x" if "standing y" "map_of (wl_sugs w) j = Some y" for j y
    using n[of j y] that by (auto simp: matching_def standing_def)
  have "distinct (dkeys (wl_sugs (added i x w)))" using w i by (simp add: offers_inv_def added_def)
  then show ?thesis using w x n n' unfolding offers_inv_def m ok by (auto split: if_splits)
qed

lemma wp_find [wp]: "wp (find_suggestion m v s) Q E = (\<lambda>w. if next_call w = CallWorks
    then Q (map_option snd (find (\<lambda>(i, x). matching m v s x) (wl_sugs w))) (answered w) else E StoreDown (answered w))"
  by (simp add: find_suggestion_def wp)

lemma wp_insert [wp]: "wp (insert_suggestion i x) Q E = (\<lambda>w.
    if i \<in> set (dkeys (wl_sugs w)) then E StoreDown (answered w)
    else case next_call w of CallWorks \<Rightarrow> Q () (added i x (answered w)) | CallFails \<Rightarrow> E StoreDown (answered w)
      | CallLost \<Rightarrow> E StoreDown (added i x (answered w)))"
  by (simp add: wp_def insert_suggestion_def db_def fun_eq_iff added_def split: store_call.splits)

definition next_id :: "ploop \<Rightarrow> string" where
  "next_id w = (case wl_ids w of [] \<Rightarrow> [] | i # is \<Rightarrow> i)"

definition id_used :: "ploop \<Rightarrow> ploop" where
  "id_used w = w\<lparr> wl_ids := tl (wl_ids w) \<rparr>"

lemma wp_new_id [wp]: "wp new_id Q E = (\<lambda>w. Q (next_id w) (id_used w))"
  by (simp add: wp_def new_id_def next_id_def id_used_def fun_eq_iff)

lemma inv_simps [simp]: "offers_inv (answered w) = offers_inv w" "offers_inv (id_used w) = offers_inv w"
  "offer_ok (answered w) = offer_ok w" "offer_ok (id_used w) = offer_ok w"
  "wl_sugs (id_used w) = wl_sugs w" "wl_promotes (id_used w) = wl_promotes w"
  by (simp_all add: offers_inv_def offer_ok_def[abs_def] promoted_call_def id_used_def)

lemma create_inv:
  assumes w: "offers_inv w" and g: "green gate shadow" and p: "s = ''auto-promoted'' \<Longrightarrow> promoted_call m v w"
  shows "wp (create_suggestion now m v gate shadow s actor) (\<lambda>_. offers_inv) (\<lambda>_. offers_inv) w"
proof -
  let ?x = "\<lambda>res. \<lparr> sg_model = m, sg_version = v, sg_gate = gate, sg_shadow = shadow, sg_state = s, sg_created = now,
    sg_resolved = res, sg_actor = actor \<rparr>"
  have ok: "offer_ok w (?x res)" for res using g p by (simp add: offer_ok_def)
  show ?thesis
  proof (cases "find (\<lambda>(i, x). matching m v s x) (wl_sugs w)")
    case None
    then have a: "offers_inv (added i (?x res) (answered (id_used (answered w))))" if "i \<notin> fst ` set (wl_sugs w)" for i res
      using w ok that by (intro added_inv) (auto simp: find_None_iff)
    then show ?thesis using w None by (cases "s = ''auto-promoted''"; simp add: create_suggestion_def wp Let_def split: store_call.splits)
  qed (use w in \<open>simp add: create_suggestion_def wp\<close>)
qed

lemma clear_watch_inv: "offers_inv w \<Longrightarrow> wp (clear_watch m s) (\<lambda>_. offers_inv) (\<lambda>_. offers_inv) w"
  by (rule offers_keep[OF offers.keeps_clear_watch]) simp_all

lemma not_green_inv: "offers_inv w \<Longrightarrow> wp (record_not_green m s v g sv now a) (\<lambda>_. offers_inv) (\<lambda>_. offers_inv) w"
  by (rule offers_keep[OF offers.keeps_not_green]) simp_all

lemma offer_inv:
  assumes w: "offers_inv w" and g: "green g sv"
  shows "wp (offer_candidate an m p s v g sv now) (\<lambda>_. offers_inv) (\<lambda>_. offers_inv) w"
proof (cases "po_mode p = JStr ''auto-on-green''")
  case True
  have c: "wp (create_suggestion now m (text_of an v) g sv ''auto-promoted'' (Some (''policy:'' @ m)))
      (\<lambda>_. wp (seq (clear_watch m s) (\<lambda>_. ret [AutoPromoted m v])) (\<lambda>_. offers_inv) (\<lambda>_. offers_inv)) (\<lambda>_. offers_inv) u"
    if "offers_inv u" "promoted_call m (text_of an v) u" for u
    by (rule wp_mono[OF create_inv[OF that(1) g that(2)]]) (simp_all add: wp clear_watch_inv)
  have pc: "promoted_call m (text_of an v) (call_logged \<lparr> pc_model = m, pc_version = v, pc_answer = Some r \<rparr> w)"
    if "truthy (jget r ''promoted'')" for r
    using that by (auto simp: promoted_call_def call_logged_def text_of_def)
  show ?thesis using w True c pc call_logged_inv not_green_inv
    by (simp add: offer_candidate_def wp Let_def split: option.splits)
next
  case False
  have "wp (create_suggestion now m (text_of an v) g sv ''open'' None)
      (\<lambda>_. wp (seq (clear_watch m s) (\<lambda>_. ret [Suggested m v])) (\<lambda>_. offers_inv) (\<lambda>_. offers_inv)) (\<lambda>_. offers_inv) w"
    by (rule wp_mono[OF create_inv[OF w g]]) (simp_all add: wp clear_watch_inv)
  then show ?thesis using False by (simp add: offer_candidate_def wp)
qed

lemma wp_of_optionI: "E x w \<Longrightarrow> (\<And>a. v = Some a \<Longrightarrow> wp (f a) Q E w) \<Longrightarrow> wp (seq (of_option x v) f) Q E w"
  by (simp add: wp split: option.splits)

lemma cleared_inv: "offers_inv w \<Longrightarrow> wp (seq (clear_watch m s) (\<lambda>_. ret a)) (\<lambda>_. offers_inv) (\<lambda>_. offers_inv) w"
  using clear_watch_inv by (simp add: wp)

lemma evaluate_inv: "offers_inv w \<Longrightarrow> wp (evaluate_run an m p s rec now) (\<lambda>_. offers_inv) (\<lambda>_. offers_inv) w"
  unfolding evaluate_run_def by (intro wp_of_optionI wp_ifI cleared_inv offer_inv not_green_inv)

lemma poll_inv:
  assumes w: "offers_inv w"
  shows "wp (poll_watch cf an m p now) (\<lambda>_. offers_inv) (\<lambda>_. offers_inv) w"
proof (cases "st_watch (or_empty (status_of m w))")
  case None
  then show ?thesis using w by (simp add: poll_watch_def wp Let_def)
next
  case (Some wt)
  have e: "offers_inv (answered w)" using w by simp
  have q: "wp (seq (save_status m s) (\<lambda>_. ret a)) (\<lambda>_. offers_inv) (\<lambda>_. offers_inv) u" if "offers_inv u" for s a u
    by (rule offers_keep[OF _ that]) (intro offers.store_rules, simp_all)
  have "wp (seq (of_option Failure (an_watch an (wa_run wt))) (\<lambda>rec. let st = jget rec ''status'' in
           if st = JNull \<or> st = JStr ''unknown'' then watch_unknown cf m (or_empty (status_of m w)) wt now
           else if still_running st then
             (if wa_unknown wt \<noteq> None
              then seq (save_status m ((or_empty (status_of m w))\<lparr> st_watch := Some (wt\<lparr> wa_unknown := None \<rparr>) \<rparr>)) (\<lambda>_. ret []) else ret [])
           else if st \<noteq> JStr ''completed'' \<and> st \<noteq> JStr ''succeeded'' then seq (clear_watch m (or_empty (status_of m w))) (\<lambda>_. ret [WatchedFailed m])
           else evaluate_run an m p (or_empty (status_of m w)) rec now)) (\<lambda>_. offers_inv) (\<lambda>_. offers_inv) (answered w)"
    unfolding Let_def
    by (intro wp_of_optionI wp_ifI cleared_inv evaluate_inv q e offers_keep[OF offers.keeps_watch_unknown]) (simp_all add: wp w)
  then show ?thesis using w Some by (simp add: poll_watch_def wp_seq wp_get_status Let_def)
qed

lemma offers_pass: "offers_inv w \<Longrightarrow> wp (policy_pass cf an now md) (\<lambda>_. offers_inv) (\<lambda>_. offers_inv) w"
  by (rule wp_policy_pass) (simp_all add: poll_inv offers_keep offers.keeps_retry_pending offers.keeps_due_checks)

subsection \<open>Resolutions\<close>

text \<open>A suggestion keeps its candidate and verdicts; only an open one changes its state, and no other.\<close>

definition resolved_from :: "suggestion \<Rightarrow> suggestion \<Rightarrow> bool" where
  "resolved_from x y = (y = x \<or> sg_state x = ''open'' \<and> sg_state y \<in> {''accepted'', ''dismissed''} \<and>
     sg_model y = sg_model x \<and> sg_version y = sg_version x \<and> sg_gate y = sg_gate x \<and> sg_shadow y = sg_shadow x)"

definition resolutions :: "ploop \<Rightarrow> ploop \<Rightarrow> bool" where
  "resolutions w w' = (\<forall>i x. map_of (wl_sugs w) i = Some x \<longrightarrow> (\<exists>y. map_of (wl_sugs w') i = Some y \<and> resolved_from x y))"

lemma resolved_from_refl [simp]: "resolved_from x x"
  by (simp add: resolved_from_def)

lemma resolved_from_trans: "resolved_from x y \<Longrightarrow> resolved_from y z \<Longrightarrow> resolved_from x z"
  by (auto simp: resolved_from_def)

interpretation resolutions: store_kept resolutions "\<lambda>_. True"
proof
  fix w u v
  assume "resolutions w u" "resolutions u v"
  then show "resolutions w v" unfolding resolutions_def using resolved_from_trans by metis
qed (simp_all add: resolutions_def)

lemma resolutions_insert: "keeps resolutions (insert_suggestion i x)"
proof -
  have "resolutions w (added i x (answered w))" for w by (simp add: resolutions_def added_def map_add_Some_iff)
  then show ?thesis unfolding keeps_def insert_suggestion_def db_def added_def[symmetric]
    by (simp add: resolutions.kept_answered split: store_call.splits)
qed

lemma resolutions_resolve:
  assumes "s \<in> {''accepted'', ''dismissed''}"
  shows "keeps resolutions (resolve_suggestion i s a now)"
proof -
  have "resolutions w (snd (resolve_row i s a now w))" for w
    using assms by (auto simp: resolve_row_def Let_def resolutions_def map_of_dict_upd resolved_from_def split: option.splits)
  then have "keeps resolutions (db (\<lambda>w. Some (resolve_row i s a now w)))"
    unfolding keeps_def db_def by (auto split: store_call.splits prod.splits)
      (metis resolutions.kept_answered resolutions.kept_trans snd_conv)+
  then show ?thesis unfolding resolve_suggestion_def by (intro resolutions.store_rules)
qed

lemma resolutions_promote: "keeps resolutions (call_promote an m v)"
  by (simp add: keeps_def call_promote_def Let_def resolutions_def split: option.splits)

lemma resolutions_create: "keeps resolutions (create_suggestion now m v g sv s a)"
  unfolding create_suggestion_def by (intro resolutions.store_rules resolutions_insert)

lemma resolutions_offer: "keeps resolutions (offer_candidate an m p s v g sv now)"
  unfolding offer_candidate_def
  by (intro resolutions.store_rules resolutions_promote resolutions_create resolutions.keeps_clear_watch resolutions.keeps_not_green) simp_all

lemma resolutions_pass: "keeps resolutions (policy_pass cf an now md)"
  unfolding policy_pass_def poll_watch_def evaluate_run_def
  by (intro resolutions.store_rules resolutions.keeps_retry_pending resolutions.keeps_due_checks resolutions_offer
      resolutions.keeps_clear_watch resolutions.keeps_not_green resolutions.keeps_watch_unknown) simp_all

lemma keeps_fault: "keeps R a \<Longrightarrow> keeps R b \<Longrightarrow> keeps R c \<Longrightarrow> keeps R d \<Longrightarrow> keeps R f \<Longrightarrow>
    keeps R (case x of StoreDown \<Rightarrow> a | PolicyBad \<Rightarrow> b | Conflict \<Rightarrow> c | Busy \<Rightarrow> d | Failure \<Rightarrow> f)"
  by (cases x) simp_all

lemma resolutions_accept: "keeps resolutions (accept_suggestion an serving i now)"
  unfolding accept_suggestion_def
  by (intro resolutions.store_rules keeps_fault resolutions_promote resolutions_resolve) simp_all

lemma resolutions_dismiss: "keeps resolutions (dismiss_suggestion i now)"
  unfolding dismiss_suggestion_def by (intro resolutions.store_rules resolutions_resolve) simp

text \<open>A resolution that was won leaves the invariant of the offers alone.\<close>

lemma resolved_inv:
  assumes w: "offers_inv w" and s: "s \<in> {''accepted'', ''dismissed''}"
  shows "offers_inv (snd (resolve_row i s a now w))"
proof -
  let ?w = "snd (resolve_row i s a now w)"
  have d: "dkeys (wl_sugs ?w) = dkeys (wl_sugs w)" by (simp add: resolve_row_def Let_def split: option.splits)
  have o: "\<exists>x. map_of (wl_sugs w) j = Some x \<and> resolved_from x y" if "map_of (wl_sugs ?w) j = Some y" for j y
    using that s by (auto simp: resolve_row_def Let_def map_of_dict_upd resolved_from_def split: option.splits if_splits)
  have p: "wl_promotes ?w = wl_promotes w" by (simp add: resolve_row_def Let_def split: option.splits)
  have same: "x = y" if "resolved_from x y" "standing y" for x y
    using that by (auto simp: resolved_from_def standing_def)
  have ok: "offer_ok ?w y" if y: "map_of (wl_sugs ?w) j = Some y" for j y
  proof -
    obtain x where x: "map_of (wl_sugs w) j = Some x" "resolved_from x y" using o[OF y] by blast
    then have "offer_ok w x" using w by (auto simp: offers_inv_def)
    then show ?thesis using x(2) p by (auto simp: offer_ok_def resolved_from_def promoted_call_def)
  qed
  have u: "j = k" if "map_of (wl_sugs ?w) j = Some x" "map_of (wl_sugs ?w) k = Some y" "standing x"
    "matching (sg_model x) (sg_version x) (sg_state x) y" for j k x y
  proof -
    have "standing y" using that(3,4) by (simp add: standing_def matching_def)
    then show ?thesis using o[OF that(1)] o[OF that(2)] same that(3,4) w unfolding offers_inv_def by metis
  qed
  show ?thesis unfolding offers_inv_def d using w ok u by (auto simp: offers_inv_def)
qed

lemma resolve_inv:
  assumes w: "offers_inv w" and s: "s \<in> {''accepted'', ''dismissed''}"
  shows "wp (resolve_suggestion i s a now) (\<lambda>_. offers_inv) (\<lambda>_. offers_inv) w"
proof -
  have r: "offers_inv (snd (resolve_row i s a now (answered w)))" using resolved_inv[of "answered w"] w s by simp
  have d: "wp (db (\<lambda>w. Some (resolve_row i s a now w))) (\<lambda>_. offers_inv) (\<lambda>_. offers_inv) w"
    using r w by (auto simp: wp_def db_def split: prod.splits store_call.splits)
  have k: "wp (case u of Some x \<Rightarrow> ret (Some x) | None \<Rightarrow> seq (get_suggestion i) (\<lambda>c. case c of None \<Rightarrow> ret None | Some x \<Rightarrow> throw Conflict))
      (\<lambda>_. offers_inv) (\<lambda>_. offers_inv) t" if "offers_inv t" for u t
    using that by (auto simp: wp get_suggestion_def split: option.splits)
  show ?thesis unfolding resolve_suggestion_def wp_seq by (rule wp_mono[OF d]) (simp_all add: k)
qed

lemma wp_get_suggestion [wp]: "wp (get_suggestion i) Q E = (\<lambda>w. if next_call w = CallWorks
    then Q (map_of (wl_sugs w) i) (answered w) else E StoreDown (answered w))"
  by (simp add: get_suggestion_def wp)

lemma accept_inv:
  assumes w: "offers_inv w"
  shows "wp (accept_suggestion an serving i now) (\<lambda>_. offers_inv) (\<lambda>_. offers_inv) w"
proof -
  have r: "wp (resolve_suggestion i ''accepted'' a now) (\<lambda>_. offers_inv) (\<lambda>_. offers_inv) u" if "offers_inv u" for u a
    by (rule resolve_inv[OF that]) simp
  have h: "wp (case e of Conflict \<Rightarrow> seq (get_suggestion i) (\<lambda>_. ret Applied) | StoreDown \<Rightarrow> ret Applied | _ \<Rightarrow> throw e)
      (\<lambda>_. offers_inv) (\<lambda>_. offers_inv) u" if "offers_inv u" for e u
    using that by (cases e) (simp_all add: wp)
  have t: "wp (try_else (resolve_suggestion i ''accepted'' a now) (\<lambda>e. case e of Conflict \<Rightarrow> seq (get_suggestion i) (\<lambda>_. ret Applied)
      | StoreDown \<Rightarrow> ret Applied | _ \<Rightarrow> throw e) (\<lambda>_. ret Applied)) (\<lambda>_. offers_inv) (\<lambda>_. offers_inv) u" if "offers_inv u" for u a
    unfolding wp_try_else by (rule wp_mono[OF r[OF that]]) (simp_all add: h wp_ret)
  have d: "wp (seq (resolve_suggestion i ''accepted'' a now) (\<lambda>_. ret Applied)) (\<lambda>_. offers_inv) (\<lambda>_. offers_inv) u" if "offers_inv u" for u a
    unfolding wp_seq by (rule wp_mono[OF r[OF that]]) (simp_all add: wp_ret)
  have p: "wp (seq (call_promote an m v) (\<lambda>res. if \<not> truthy (jget res ''promoted'') then ret GateBlocked
      else try_else (resolve_suggestion i ''accepted'' ''operator'' now) (\<lambda>e. case e of Conflict \<Rightarrow> seq (get_suggestion i) (\<lambda>_. ret Applied)
      | StoreDown \<Rightarrow> ret Applied | _ \<Rightarrow> throw e) (\<lambda>_. ret Applied))) (\<lambda>_. offers_inv) (\<lambda>_. offers_inv) u" if "offers_inv u" for u m v
    using that t by (simp add: wp_seq wp_call_promote Let_def call_logged_inv wp_ret split: option.splits)
  show ?thesis using w d[of "answered w"] p[of "answered w"]
    by (simp add: accept_suggestion_def wp_seq wp_get_suggestion wp_ret split: option.splits)
qed

lemma dismiss_inv: "offers_inv w \<Longrightarrow> wp (dismiss_suggestion i now) (\<lambda>_. offers_inv) (\<lambda>_. offers_inv) w"
  unfolding dismiss_suggestion_def wp_seq by (rule wp_mono[OF resolve_inv]) (simp_all add: wp_ret)

lemma put_delete_inv:
  "offers_inv w \<Longrightarrow> wp (put_policy p j now who doc) (\<lambda>_. offers_inv) (\<lambda>_. offers_inv) w"
  "offers_inv w \<Longrightarrow> wp (delete_policy j) (\<lambda>_. offers_inv) (\<lambda>_. offers_inv) w"
  by (auto simp: put_policy_def delete_policy_def wp offers_inv_def offer_ok_def promoted_call_def split: sum.splits store_call.splits)

interpretation offers_run: loop_invariant offers_inv cf coll "\<lambda>_ _. True" for cf coll
proof (unfold_locales, goal_cases)
  case (4 now an we w c b a)
  then show ?case by (intro wp_tick offers_pass) (simp_all add: offers_inv_def offer_ok_def promoted_call_def)
qed (simp_all add: accept_inv dismiss_inv put_delete_inv, simp_all add: offers_inv_def offer_ok_def promoted_call_def)

interpretation resolutions_run: loop_invariant "resolutions w0" cf coll "\<lambda>_ _. True" for w0 cf coll
proof (unfold_locales, goal_cases)
  case (4 now an we w c b a)
  have "wp (policy_pass cf an now md) (\<lambda>_. resolutions w0) (\<lambda>_. resolutions w0) u" if "resolutions w0 u" for md u
    by (rule keeps_wp[OF resolutions_pass]) (rule resolutions.kept_trans[OF that])
  then show ?case using 4 by (intro wp_tick) (simp_all add: resolutions_def)
next
  case (5 p m now who doc we w' w)
  then show ?case by (auto simp: put_policy_def wp resolutions_def split: sum.splits store_call.splits)
next
  case (6 m we w' w)
  then show ?case by (auto simp: delete_policy_def wp resolutions_def split: store_call.splits)
next
  case (7 an serving i now we w' w)
  show ?case by (rule keeps_wp[OF resolutions_accept]) (rule resolutions.kept_trans[OF 7(2)])
next
  case (8 i now we w' w)
  show ?case by (rule keeps_wp[OF resolutions_dismiss]) (rule resolutions.kept_trans[OF 8(2)])
qed (simp_all add: resolutions_def)

text \<open>Claim C20. Whatever runs of ticks, failing store calls, operator actions and restarts came before: every suggestion is of a
  candidate whose gate verdict is pass and whose shadow verdict, if there is one, is a win or a tie; an auto-promoted
  one stands for a promotion of that model and version that the registry granted; and no two suggestions offer the
  same candidate at once.\<close>

theorem only_green_candidates_offered_once:
  assumes "w = loop_run cf coll es (fresh_loop t0)" and "map_of (wl_sugs w) i = Some x"
  shows "jget (sg_gate x) ''verdict'' = JStr ''pass'' \<and>
    (\<forall>v. sg_shadow x = Some v \<longrightarrow> jget v ''winner'' \<in> {JStr ''challenger'', JStr ''tie''}) \<and>
    (sg_state x = ''auto-promoted'' \<longrightarrow> (\<exists>p \<in> set (wl_promotes w). pc_model p = sg_model x \<and>
       (\<forall>s. pc_version p = JStr s \<longrightarrow> s = sg_version x) \<and> (\<exists>r. pc_answer p = Some r \<and> truthy (jget r ''promoted'')))) \<and>
    (\<forall>j y. map_of (wl_sugs w) j = Some y \<and> sg_state x = ''open'' \<and> sg_state y = ''open'' \<and>
      sg_model y = sg_model x \<and> sg_version y = sg_version x \<longrightarrow> j = i)"
proof -
  have "offers_inv w" unfolding assms(1) by (rule offers_run.inv_run) (simp_all add: offers_inv_def fresh_loop_def)
  then have o: "offer_ok w x" and u: "\<And>j y. map_of (wl_sugs w) j = Some y \<Longrightarrow> standing x \<Longrightarrow>
      matching (sg_model x) (sg_version x) (sg_state x) y \<Longrightarrow> i = j"
    using assms(2) unfolding offers_inv_def by blast+
  have "\<forall>j y. map_of (wl_sugs w) j = Some y \<and> sg_state x = ''open'' \<and> sg_state y = ''open'' \<and>
      sg_model y = sg_model x \<and> sg_version y = sg_version x \<longrightarrow> j = i"
    using u by (auto simp: standing_def matching_def)
  moreover have "\<forall>v. sg_shadow x = Some v \<longrightarrow> jget v ''winner'' \<in> {JStr ''challenger'', JStr ''tie''}"
    using o by (auto simp: offer_ok_def green_def)
  ultimately show ?thesis using o unfolding offer_ok_def green_def promoted_call_def by blast
qed

definition sample_pass :: bag where
  "sample_pass = [(''status'', JStr ''succeeded''), (''model'', JObj [(''version'', JInt 3)])]"

definition sample_watch :: "string \<Rightarrow> ploop" where
  "sample_watch mode = loop_run default_loop_config (\<lambda>_. 0)
     [sample_put ''m'' mode, sample_tick 1000 (Accepted [(''id'', JStr ''r1'')]) [(''status'', JStr ''running'')]] (fresh_loop 5)"

definition sample_offered :: ploop where
  "sample_offered = loop_step default_loop_config (\<lambda>_. 0)
     (sample_tick 1030 BusyNow sample_pass)
     (sample_watch ''suggest'')"

theorem only_green_candidates_offered_once_witness:
  "map_of (wl_sugs sample_offered) ''id1'' \<noteq> None \<and>
   jget (sg_gate (the (map_of (wl_sugs sample_offered) ''id1''))) ''verdict'' = JStr ''pass''"
proof -
  have n: "\<not> Option.is_none (map_of (wl_sugs sample_offered) ''id1'')" by code_simp
  have r: "sample_offered = loop_run default_loop_config (\<lambda>_. 0)
      [sample_put ''m'' ''suggest'', sample_tick 1000 (Accepted [(''id'', JStr ''r1'')]) [(''status'', JStr ''running'')],
       sample_tick 1030 BusyNow sample_pass] (fresh_loop 5)"
    by (simp add: sample_offered_def sample_watch_def loop_run_def)
  have "map_of (wl_sugs sample_offered) ''id1'' \<noteq> None" using n by (simp add: Option.is_none_def)
  then show ?thesis using only_green_candidates_offered_once[OF r is_some[OF n]] by blast
qed

text \<open>A resolution is final: whatever follows, a suggestion stays where it is with its candidate and verdicts, an open one may
  become accepted or dismissed, and one that was resolved is never resolved again.\<close>

theorem resolutions_are_final:
  assumes "map_of (wl_sugs w) i = Some x"
  shows "\<exists>y. map_of (wl_sugs (loop_run cf coll es w)) i = Some y \<and>
    (y = x \<or> sg_state x = ''open'' \<and> sg_state y \<in> {''accepted'', ''dismissed''} \<and> sg_model y = sg_model x \<and>
      sg_version y = sg_version x \<and> sg_gate y = sg_gate x \<and> sg_shadow y = sg_shadow x)"
proof -
  have "resolutions w (loop_run cf coll es w)" by (rule resolutions_run.inv_run) (simp_all add: resolutions_def)
  then show ?thesis using assms unfolding resolutions_def resolved_from_def by blast
qed

theorem resolutions_are_final_witness:
  "\<exists>y. map_of (wl_sugs (loop_run default_loop_config (\<lambda>_. 0) [Dismiss ''id1'' 1031 fine] sample_offered)) ''id1'' = Some y"
proof -
  have n: "\<not> Option.is_none (map_of (wl_sugs sample_offered) ''id1'')" by code_simp
  show ?thesis using resolutions_are_final[OF is_some[OF n], of default_loop_config "\<lambda>_. 0" "[Dismiss ''id1'' 1031 fine]"] by blast
qed

section \<open>Accepting moves the alias first\<close>

lemma resolve_post:
  "wp (resolve_suggestion i s a now)
     (\<lambda>_ w'. wl_promotes w' = wl_promotes w \<and> (wl_sugs w' = wl_sugs w \<or> wl_sugs w' = wl_sugs (snd (resolve_row i s a now w))))
     (\<lambda>_ w'. wl_promotes w' = wl_promotes w \<and> (wl_sugs w' = wl_sugs w \<or> wl_sugs w' = wl_sugs (snd (resolve_row i s a now w)))) w"
  (is "wp _ (\<lambda>_. ?T) _ w")
proof -
  have r: "?T (snd (resolve_row i s a now (answered w)))"
    by (simp add: resolve_row_def Let_def split: option.splits)
  have k: "wp (case u of Some x \<Rightarrow> ret (Some x) | None \<Rightarrow> seq (get_suggestion i) (\<lambda>c. case c of None \<Rightarrow> ret None | Some x \<Rightarrow> throw Conflict))
      (\<lambda>_. ?T) (\<lambda>_. ?T) t" if "?T t" for u t
    using that by (auto simp: wp split: option.splits)
  have "wp (db (\<lambda>w. Some (resolve_row i s a now w))) (\<lambda>_. ?T) (\<lambda>_. ?T) w"
    using r by (auto simp: wp_def db_def split: prod.splits store_call.splits)
  then show ?thesis unfolding resolve_suggestion_def wp_seq by (rule wp_mono) (simp_all add: k)
qed

text \<open>What an accept of \<open>i\<close>, which \<open>w\<close> holds as \<open>x\<close>, may leave behind.\<close>

definition accept_left :: "answers \<Rightarrow> string option \<Rightarrow> string \<Rightarrow> rat \<Rightarrow> suggestion \<Rightarrow> ploop \<Rightarrow> ploop \<Rightarrow> bool" where
  "accept_left an serving i now x w u = (wl_sugs u = wl_sugs w \<or>
     wl_sugs u = wl_sugs (snd (resolve_row i ''accepted'' ''operator'' now w)) \<and>
       (serving = Some (sg_version x) \<or>
        (\<exists>r. an_promote an (sg_model x) (JStr (sg_version x)) = Some r \<and> truthy (jget r ''promoted'') \<and>
          wl_promotes u = wl_promotes w @ [\<lparr> pc_model = sg_model x, pc_version = JStr (sg_version x), pc_answer = Some r \<rparr>])))"

lemma accept_left_same: "wl_sugs u = wl_sugs w \<Longrightarrow> accept_left an serving i now x w u"
  by (simp add: accept_left_def)

lemma accept_left_simps [simp]: "accept_left an serving i now x w (answered u) = accept_left an serving i now x w u"
  by (simp add: accept_left_def)

lemma resolve_row_sugs: "wl_sugs u = wl_sugs w \<Longrightarrow> wl_sugs (snd (resolve_row i s a now u)) = wl_sugs (snd (resolve_row i s a now w))"
  by (simp add: resolve_row_def Let_def split: option.splits)

lemma accept_resolve:
  assumes "wl_sugs u = wl_sugs w" and "serving = Some (sg_version x) \<or>
     (\<exists>r. an_promote an (sg_model x) (JStr (sg_version x)) = Some r \<and> truthy (jget r ''promoted'') \<and>
       wl_promotes u = wl_promotes w @ [\<lparr> pc_model = sg_model x, pc_version = JStr (sg_version x), pc_answer = Some r \<rparr>])"
  shows "wp (resolve_suggestion i ''accepted'' ''operator'' now) (\<lambda>_. accept_left an serving i now x w) (\<lambda>_. accept_left an serving i now x w) u"
  by (rule wp_mono[OF resolve_post]) (use assms resolve_row_sugs[OF assms(1)] in \<open>auto simp: accept_left_def\<close>)

lemma accept_handler: "accept_left an serving i now x w u \<Longrightarrow>
    wp (case e of Conflict \<Rightarrow> seq (get_suggestion i) (\<lambda>_. ret Applied) | StoreDown \<Rightarrow> ret Applied | _ \<Rightarrow> throw e)
      (\<lambda>_. accept_left an serving i now x w) (\<lambda>_. accept_left an serving i now x w) u"
  by (cases e) (simp_all add: wp)

lemma accept_direct:
  assumes "wl_sugs u = wl_sugs w" and "serving = Some (sg_version x)"
  shows "wp (seq (resolve_suggestion i ''accepted'' ''operator'' now) (\<lambda>_. ret Applied)) (\<lambda>_. accept_left an serving i now x w)
    (\<lambda>_. accept_left an serving i now x w) u"
  unfolding wp_seq by (rule wp_mono[OF accept_resolve]) (simp_all add: assms wp_ret)

lemma accept_promote:
  assumes u: "wl_sugs u = wl_sugs w" "wl_promotes u = wl_promotes w"
  shows "wp (seq (call_promote an (sg_model x) (JStr (sg_version x))) (\<lambda>res. if \<not> truthy (jget res ''promoted'') then ret GateBlocked
      else try_else (resolve_suggestion i ''accepted'' ''operator'' now) (\<lambda>e. case e of Conflict \<Rightarrow> seq (get_suggestion i) (\<lambda>_. ret Applied)
      | StoreDown \<Rightarrow> ret Applied | _ \<Rightarrow> throw e) (\<lambda>_. ret Applied))) (\<lambda>_. accept_left an serving i now x w) (\<lambda>_. accept_left an serving i now x w) u"
proof (cases "an_promote an (sg_model x) (JStr (sg_version x))")
  case None
  then show ?thesis using u by (simp add: wp_seq wp_call_promote Let_def call_logged_def accept_left_same)
next
  case (Some res)
  let ?u = "call_logged \<lparr> pc_model = sg_model x, pc_version = JStr (sg_version x), pc_answer = Some res \<rparr> u"
  show ?thesis
  proof (cases "truthy (jget res ''promoted'')")
    case True
    have "wp (try_else (resolve_suggestion i ''accepted'' ''operator'' now) (\<lambda>e. case e of Conflict \<Rightarrow> seq (get_suggestion i) (\<lambda>_. ret Applied)
        | StoreDown \<Rightarrow> ret Applied | _ \<Rightarrow> throw e) (\<lambda>_. ret Applied)) (\<lambda>_. accept_left an serving i now x w) (\<lambda>_. accept_left an serving i now x w) ?u"
      unfolding wp_try_else
      by (rule wp_mono[OF accept_resolve]) (use u Some True accept_handler in \<open>simp_all add: wp_ret call_logged_def\<close>)
    then show ?thesis using Some True by (simp only: wp_seq wp_call_promote Let_def option.case if_False not_True_eq_False)
  qed (use u in \<open>simp add: Some wp_seq wp_call_promote Let_def call_logged_def wp_ret accept_left_same\<close>)
qed

text \<open>An operator's accept changes a suggestion only from open to accepted, and only when the registry already serves that
  candidate or has just answered that it promoted it; a blocked gate leaves the suggestion open.\<close>

theorem accepting_moves_the_alias_first:
  assumes "w' = loop_step cf coll (Accept an serving i now we) w"
    and "map_of (wl_sugs w) i = Some x" and "map_of (wl_sugs w') j = Some y" and "map_of (wl_sugs w) j \<noteq> Some y"
  shows "j = i \<and> sg_state x = ''open'' \<and> sg_state y = ''accepted'' \<and>
    (serving = Some (sg_version x) \<or>
     (\<exists>r. an_promote an (sg_model x) (JStr (sg_version x)) = Some r \<and> truthy (jget r ''promoted'') \<and>
        wl_promotes w' = wl_promotes w @ [\<lparr> pc_model = sg_model x, pc_version = JStr (sg_version x), pc_answer = Some r \<rparr>]))"
proof -
  let ?u = "w\<lparr> wl_calls := we_calls we, wl_delays := we_delays we, wl_ids := we_ids we \<rparr>"
  let ?G = "accept_left an serving i now x w"
  have su: "map_of (wl_sugs ?u) i = Some x" using assms(2) by simp
  have b: "wp (if sg_state x \<noteq> ''open'' then ret AlreadyResolved
      else if serving = Some (sg_version x) then seq (resolve_suggestion i ''accepted'' ''operator'' now) (\<lambda>_. ret Applied)
      else seq (call_promote an (sg_model x) (JStr (sg_version x))) (\<lambda>res. if \<not> truthy (jget res ''promoted'') then ret GateBlocked
        else try_else (resolve_suggestion i ''accepted'' ''operator'' now) (\<lambda>e. case e of Conflict \<Rightarrow> seq (get_suggestion i) (\<lambda>_. ret Applied)
        | StoreDown \<Rightarrow> ret Applied | _ \<Rightarrow> throw e) (\<lambda>_. ret Applied))) (\<lambda>_. ?G) (\<lambda>_. ?G) (answered ?u)"
    by (intro wp_ifI accept_direct accept_promote) (simp_all add: wp_ret accept_left_same)
  have "wp (accept_suggestion an serving i now) (\<lambda>_. ?G) (\<lambda>_. ?G) ?u"
    unfolding accept_suggestion_def wp_seq[of "get_suggestion i"] wp_get_suggestion su option.case using b by (simp add: accept_left_same)
  then have "?G w'" unfolding assms(1) loop_step.simps by (rule under_wp) (simp add: accept_left_def)
  then show ?thesis using assms(2,3,4) by (auto simp: accept_left_def resolve_row_def Let_def map_of_dict_upd split: if_splits)
qed

theorem accepting_moves_the_alias_first_witness:
  "\<exists>w' y. w' = loop_step default_loop_config (\<lambda>_. 0) (Accept (sample_answers BusyNow []) None ''id1'' 1031 fine) sample_offered \<and>
     map_of (wl_sugs w') ''id1'' = Some y \<and> sg_state y = ''accepted'' \<and> length (wl_promotes w') = 1"
proof -
  let ?w' = "loop_step default_loop_config (\<lambda>_. 0) (Accept (sample_answers BusyNow []) None ''id1'' 1031 fine) sample_offered"
  have n: "\<not> Option.is_none (map_of (wl_sugs sample_offered) ''id1'')" "\<not> Option.is_none (map_of (wl_sugs ?w') ''id1'')" by code_simp+
  have d: "map_of (wl_sugs sample_offered) ''id1'' \<noteq> Some (the (map_of (wl_sugs ?w') ''id1''))" by code_simp
  have z: "wl_promotes sample_offered = []" by code_simp
  show ?thesis
    using accepting_moves_the_alias_first[OF refl is_some[OF n(1)] is_some[OF n(2)] d] is_some[OF n(2)] z
    by (intro exI[of _ ?w'] exI[of _ "the (map_of (wl_sugs ?w') ''id1'')"]) auto
qed

section \<open>A dismissed candidate comes back\<close>

text \<open>The idempotency of \<open>create_suggestion\<close> looks for a row in the same state only: when the store fails between the insert
  and the clearing of the watch and the operator dismisses the suggestion before the retry, the retry opens the same
  candidate again.\<close>

theorem dismissed_candidate_returns:
  "\<exists>es. let w = loop_run default_loop_config (\<lambda>_. 0) es (sample_watch ''suggest'') in
     map (\<lambda>(i, x). (i, sg_model x, sg_version x, sg_state x)) (wl_sugs w) =
       [(''id1'', ''m'', ''3'', ''dismissed''), (''id2'', ''m'', ''3'', ''open'')]"
proof
  show "let w = loop_run default_loop_config (\<lambda>_. 0)
      [Tick 1030 (sample_answers BusyNow sample_pass)
         \<lparr> we_calls = replicate 6 CallWorks @ [CallFails], we_delays = [], we_ids = [''id1''] \<rparr>,
       Dismiss ''id1'' 1040 fine,
       Tick 1045 (sample_answers BusyNow sample_pass) \<lparr> we_calls = [], we_delays = [], we_ids = [''id2''] \<rparr>] (sample_watch ''suggest'') in
     map (\<lambda>(i, x). (i, sg_model x, sg_version x, sg_state x)) (wl_sugs w) =
       [(''id1'', ''m'', ''3'', ''dismissed''), (''id2'', ''m'', ''3'', ''open'')]"
    by code_simp
qed

section \<open>A restart takes the reservation from the park\<close>

text \<open>The answers to three launches in turn.\<close>

definition in_turn :: "launch_answer list \<Rightarrow> answers" where
  "in_turn as = (sample_answers BusyNow [(''status'', JStr ''running'')])\<lparr> an_launch := (\<lambda>n. if n < length as then as ! n else BusyNow) \<rparr>"

text \<open>The unconditional release of a failed retry can clear another policy's live window: after a restart, which forgets the
  stamp but not the park, another model's breach reserves and launches; the park's retry then fails, clears that
  stamp, and a second retrain is launched while the cooldown of the first should still run.\<close>

theorem failed_retry_clears_a_foreign_window:
  "\<exists>es. (\<forall>d. Wait d \<notin> set es) \<and> (\<forall>t. HttpRelease t \<notin> set es) \<and>
     (let w = loop_run default_loop_config (\<lambda>_. 0) es (fresh_loop 5)
      in map (\<lambda>l. (la_model l, la_answer l)) (wl_launches w) =
           [(''a'', BusyNow), (''b'', Accepted [(''id'', JStr ''r1'')]), (''a'', LaunchFails), (''a'', Accepted [(''id'', JStr ''r2'')])] \<and>
         wl_mono w - 5 < lc_cooldown default_loop_config)"
proof -
  let ?as = "in_turn [BusyNow, Accepted [(''id'', JStr ''r1'')], LaunchFails, Accepted [(''id'', JStr ''r2'')]]"
  let ?es = "[sample_put ''a'' ''manual'', Tick 1000 ?as fine, Restart, sample_put ''b'' ''manual'', Tick 1030 ?as fine, Tick 1060 ?as fine]"
  have "let w = loop_run default_loop_config (\<lambda>_. 0) ?es (fresh_loop 5)
      in map (\<lambda>l. (la_model l, la_answer l)) (wl_launches w) =
           [(''a'', BusyNow), (''b'', Accepted [(''id'', JStr ''r1'')]), (''a'', LaunchFails), (''a'', Accepted [(''id'', JStr ''r2'')])] \<and>
         wl_mono w - 5 < lc_cooldown default_loop_config" by code_simp
  moreover have "\<forall>d. Wait d \<notin> set ?es" "\<forall>t. HttpRelease t \<notin> set ?es" by simp_all
  ultimately show ?thesis by blast
qed

section \<open>A run that stays queued\<close>

definition pinned :: "string \<Rightarrow> json \<Rightarrow> nat \<Rightarrow> ploop \<Rightarrow> bool" where
  "pinned m run n w = (pending_of m w = None \<and> (\<exists>wt. st_watch (or_empty (status_of m w)) = Some wt \<and> wa_run wt = run) \<and>
     n \<le> length (wl_launches w) \<and> (\<forall>l \<in> set (drop n (wl_launches w)). la_model l \<noteq> m))"

lemma pinned_has_row: "pinned m run n w \<Longrightarrow> has_row m w"
  by (auto simp: pinned_def has_row_def status_of_def or_empty_def split: option.splits)

lemma pinned_simps [simp]: "pinned m run n (answered w) = pinned m run n w"
  "pinned m run n (w\<lparr> wl_calls := a, wl_delays := b, wl_ids := c \<rparr>) = pinned m run n w"
  "pinned m run n (w\<lparr> wl_mono := t \<rparr>) = pinned m run n w" "pinned m run n (w\<lparr> wl_stamp := t \<rparr>) = pinned m run n w"
  by (simp_all add: pinned_def pending_of_def status_of_def)

lemma pinned_status:
  assumes "pinned m run n w" and "st_watch s = Some wt" and "wa_run wt = run"
  shows "pinned m run n (on_row m (\<lambda>r. r\<lparr> pr_status := Some s \<rparr>) w)"
  using assms pinned_has_row[OF assms(1)] by (auto simp: pinned_def views or_empty_def)

lemma pinned_retry: "pinned m run n w \<Longrightarrow> wp (retry_pending cf an m p now) (\<lambda>_. pinned m run n) (\<lambda>_. pinned m run n) w"
proof -
  assume w: "pinned m run n w"
  then have "pending_of m w = None" by (simp add: pinned_def)
  then show ?thesis using w by (simp add: retry_pending_def wp)
qed

lemma pinned_due:
  assumes w: "pinned m run n w"
  shows "wp (run_due_checks cf an m p now) (\<lambda>_. pinned m run n) (\<lambda>_. pinned m run n) w"
proof -
  obtain wt where wt: "st_watch (or_empty (status_of m w)) = Some wt" "wa_run wt = run" using w by (auto simp: pinned_def)
  have h: "wp (handle_breach cf an m p b now) (\<lambda>_. pinned m run n) (\<lambda>_. pinned m run n) u" if u: "pinned m run n u" for b u
  proof -
    have "st_watch (or_empty (status_of m u)) \<noteq> None" using u by (auto simp: pinned_def)
    then show ?thesis using u by (simp add: handle_breach_def wp)
  qed
  have s: "pinned m run n (on_row m (\<lambda>r. r\<lparr> pr_status := Some ((or_empty (status_of m w))\<lparr> st_last := a, st_results := b, st_due := c \<rparr>) \<rparr>) u)"
    if "pinned m run n u" for a b c u
    by (rule pinned_status[OF that, of _ wt]) (simp_all add: wt)
  show ?thesis using w h s by (simp add: run_due_checks_def wp Let_def views split: store_call.splits option.splits)
qed

lemma pinned_poll:
  assumes w: "pinned m run n w" and a: "an_watch an run = Some rec" "still_running (jget rec ''status'')"
  shows "wp (poll_watch cf an m p now) (\<lambda>_. pinned m run n) (\<lambda>_. pinned m run n) w"
proof -
  obtain wt where wt: "st_watch (or_empty (status_of m w)) = Some wt" "wa_run wt = run" using w by (auto simp: pinned_def)
  have s: "pinned m run n (on_row m (\<lambda>r. r\<lparr> pr_status := Some ((or_empty (status_of m w))\<lparr> st_watch := Some (wt\<lparr> wa_unknown := None \<rparr>) \<rparr>) \<rparr>) u)"
    if "pinned m run n u" for u
    by (rule pinned_status[OF that, of _ "wt\<lparr> wa_unknown := None \<rparr>"]) (simp_all add: wt)
  have k: "jget rec ''status'' \<noteq> JNull" "jget rec ''status'' \<noteq> JStr ''unknown''" using a(2) by (auto simp: still_running_def)
  show ?thesis using w wt a k s by (simp add: poll_watch_def wp Let_def split: store_call.splits)
qed

lemma pinned_apart: "apart m w w' \<Longrightarrow> pinned m run n w \<Longrightarrow> pinned m run n w'"
  by (auto simp: apart_def pinned_def pending_of_def status_of_def)

lemma pinned_quiet_sugs: "map_of (wl_rows w') m = map_of (wl_rows w) m \<Longrightarrow> wl_launches w' = wl_launches w \<Longrightarrow> pinned m run n w \<Longrightarrow> pinned m run n w'"
  by (simp add: pinned_def pending_of_def status_of_def)

lemma status_put: "status_of j (w\<lparr> wl_rows := row_put m d (wl_rows w) \<rparr>) = status_of j w"
proof (cases "m \<in> set (dkeys (wl_rows w))")
  case True
  then show ?thesis by (auto simp: status_of_def row_put_def map_of_dict_upd split: option.splits)
next
  case False
  then have "map_of (wl_rows w) m = None" using dkeys_iff_map_of by metis
  then show ?thesis by (simp add: status_of_def pending_put_fresh[OF False] split: option.splits)
qed

definition still_queued :: "string \<Rightarrow> json \<Rightarrow> levent \<Rightarrow> bool" where
  "still_queued m run e = (case e of Delete j we \<Rightarrow> j \<noteq> m
     | Tick now an we \<Rightarrow> (case an_watch an run of None \<Rightarrow> False | Some rec \<Rightarrow> still_running (jget rec ''status''))
     | _ \<Rightarrow> True)"

lemma pinned_pass:
  assumes w: "pinned m run n w" and a: "an_watch an run = Some rec" "still_running (jget rec ''status'')"
  shows "wp (policy_pass cf an now md) (\<lambda>_. pinned m run n) (\<lambda>_. pinned m run n) w"
proof (cases "fst md = m")
  case True
  show ?thesis unfolding True by (rule wp_policy_pass) (use assms True in \<open>simp_all add: pinned_retry pinned_due pinned_poll\<close>)
next
  case False
  show ?thesis by (rule keeps_wp[OF apart.keeps_policy_pass[OF False] pinned_apart[OF _ w]])
qed

text \<open>The operator's answers leave every row alone.\<close>

definition same_rows :: "ploop \<Rightarrow> ploop \<Rightarrow> bool" where
  "same_rows w w' = (wl_rows w' = wl_rows w \<and> wl_launches w' = wl_launches w)"

interpretation rows: world_kept same_rows "\<lambda>_. False"
  by unfold_locales (simp_all add: same_rows_def)

lemma rows_accept: "keeps same_rows (accept_suggestion an serving i now)"
  unfolding accept_suggestion_def by (intro rows.store_rules rows.keeps_resolve rows.keeps_call_promote keeps_fault)

lemma rows_dismiss: "keeps same_rows (dismiss_suggestion i now)"
  unfolding dismiss_suggestion_def by (intro rows.store_rules rows.keeps_resolve)

interpretation pinned: loop_invariant "pinned m run n" cf coll "\<lambda>e w. still_queued m run e" for m run n cf coll
proof (unfold_locales, goal_cases)
  case (4 now an we w c b a)
  then obtain rec where "an_watch an run = Some rec" "still_running (jget rec ''status'')"
    by (auto simp: still_queued_def split: option.splits)
  then show ?case using 4 by (intro wp_tick pinned_pass) simp_all
next
  case (5 p j now who doc we w0 w)
  have "pinned m run n (w\<lparr> wl_rows := row_put j d (wl_rows w) \<rparr>)" if "pinned m run n w" for d w
    using that by (simp add: pinned_def status_put pending_put)
  from this[of "answered w"] show ?case using 5 by (auto simp: put_policy_def wp split: sum.splits store_call.splits)
next
  case (6 j we w0 w)
  then show ?case
    by (auto simp: delete_policy_def wp pinned_def pending_of_def status_of_def map_of_delete_dict still_queued_def split: store_call.splits)
next
  case (7 an serving i now we w0 w)
  show ?case by (rule keeps_wp[OF rows_accept]) (use 7 in \<open>auto simp: same_rows_def intro: pinned_quiet_sugs\<close>)
next
  case (8 i now we w0 w)
  show ?case by (rule keeps_wp[OF rows_dismiss]) (use 8 in \<open>auto simp: same_rows_def intro: pinned_quiet_sugs\<close>)
qed simp_all

text \<open>A watched run that the trainer keeps reporting as queued holds its policy for ever: no tick of any run launches a
  retrain of that model again, whatever its monitors report; only a run the trainer does not know expires.\<close>

theorem queued_run_blocks_its_policy:
  assumes "st_watch (or_empty (status_of m w)) = Some wt" and "pending_of m w = None"
    and "\<And>e. e \<in> set es \<Longrightarrow> still_queued m (wa_run wt) e"
  shows "\<forall>l \<in> set (drop (length (wl_launches w)) (wl_launches (loop_run cf coll es w))). la_model l \<noteq> m"
proof -
  have "pinned m (wa_run wt) (length (wl_launches w)) w" using assms(1,2) by (simp add: pinned_def)
  then have "pinned m (wa_run wt) (length (wl_launches w)) (loop_run cf coll es w)" by (intro pinned.inv_run assms(3))
  then show ?thesis by (simp add: pinned_def)
qed

theorem queued_run_blocks_its_policy_witness:
  "filter (\<lambda>l. la_model l = ''m'') (drop 1 (wl_launches (loop_run default_loop_config (\<lambda>_. 0)
     (map (\<lambda>k. sample_tick (2000 + 1000 * of_nat k) (Accepted [(''id'', JStr ''r2'')]) [(''status'', JStr ''queued'')]) [0..<5])
     (sample_watch ''suggest'')))) = []"
proof -
  let ?es = "map (\<lambda>k. sample_tick (2000 + 1000 * of_nat k) (Accepted [(''id'', JStr ''r2'')]) [(''status'', JStr ''queued'')]) [0..<5]"
  let ?w = "sample_watch ''suggest''"
  have s: "\<not> Option.is_none (st_watch (or_empty (status_of ''m'' ?w)))" and p: "pending_of ''m'' ?w = None"
    and l: "length (wl_launches ?w) = 1" by code_simp+
  have q: "still_queued ''m'' (wa_run (the (st_watch (or_empty (status_of ''m'' ?w))))) e" if "e \<in> set ?es" for e
    using that by (auto simp: still_queued_def sample_answers_def still_running_def jget_def)
  show ?thesis using queued_run_blocks_its_policy[OF is_some[OF s] p q, of ?es default_loop_config "\<lambda>_. 0"] l
    by (simp add: filter_empty_conv)
qed

end
