(* ===== verification/LlmResolve.thy ===== *)
theory LlmResolve
  imports Effects
begin

text \<open>
  \<open>platformlib/llmresolve.py\<close> and \<open>hostagent/serving_llm.py\<close>: what the language-model engine serves on its
  next cold load.  The registry (MLflow) and the object store are other programs: the record \<open>client\<close> holds
  what the registry answers and \<open>dl\<close> what a download ends with.  The files of the host are a dictionary
  from paths to sizes.
\<close>

section \<open>The registry walk\<close>

record exn =
  ex_code :: "string option"
  ex_text :: string

record model_version =
  mv_name :: string
  mv_version :: nat
  mv_source :: string
  mv_tags :: "(string, string) dict"

record client =
  cl_by_alias :: "string \<Rightarrow> string \<Rightarrow> exn + model_version"
  cl_search :: "string \<Rightarrow> exn + model_version list"
  cl_models :: "exn + (string \<times> (string, string) dict) list"
  cl_get :: "string \<Rightarrow> string \<Rightarrow> exn + model_version"

datatype kind = FullModel | LoraAdapter

text \<open>Why a target does not resolve, and how a walk fails: with a refusal or with the client's exception.\<close>

datatype llm_error = NotPromoted string | NoLineage string nat | OnlyAdapters string | NoFullModel string

datatype walk_error = Bad llm_error | Raised exn

text \<open>A quote inside a filter string is doubled.\<close>

definition quote_char :: char where
  "quote_char = CHR 0x27"

definition escape :: "string \<Rightarrow> string" where
  "escape s = concat (map (\<lambda>c. if c = quote_char then [quote_char, quote_char] else [c]) s)"

definition filter_on :: "string \<Rightarrow> string \<Rightarrow> string" where
  "filter_on field v = field @ ''='' @ [quote_char] @ escape v @ [quote_char]"

definition is_not_found :: "exn \<Rightarrow> bool" where
  "is_not_found e = (ex_code e = Some ''RESOURCE_DOES_NOT_EXIST'' \<or> occurs_in ''RESOURCE_DOES_NOT_EXIST'' (ex_text e))"

definition by_alias :: "client \<Rightarrow> string \<Rightarrow> exn + model_version option" where
  "by_alias c name = (case cl_by_alias c name ''serving'' of
      Inl e \<Rightarrow> if is_not_found e then Inr None else Inl e
    | Inr mv \<Rightarrow> Inr (Some mv))"

text \<open>A tag that is present and not empty.\<close>

definition tag_set :: "(string, string) dict \<Rightarrow> string \<Rightarrow> bool" where
  "tag_set t k = (case map_of t k of None \<Rightarrow> False | Some v \<Rightarrow> v \<noteq> [])"

definition effective_kind :: "(string, string) dict \<Rightarrow> kind" where
  "effective_kind t =
     (if map_of t ''kind'' = Some ''full-model'' then FullModel
      else if map_of t ''kind'' = Some ''lora-adapter'' then LoraAdapter
      else if tag_set t ''base_model'' \<and> map_of t ''format'' = Some ''gguf'' then LoraAdapter
      else FullModel)"

definition task_from_kind :: "(string, string) dict \<Rightarrow> string option" where
  "task_from_kind t =
     (if map_of t ''kind'' = Some ''lora-adapter'' \<or> map_of t ''format'' = Some ''gguf''
      then Some ''text-generation'' else None)"

definition is_llm :: "(string, string) dict \<Rightarrow> bool" where
  "is_llm t = ((if tag_set t ''task'' then map_of t ''task'' else task_from_kind t) = Some ''text-generation'')"

definition promoted_llm_names :: "client \<Rightarrow> string list" where
  "promoted_llm_names c = (case cl_models c of
      Inl _ \<Rightarrow> []
    | Inr ms \<Rightarrow> concat (map (\<lambda>(name, aliases).
        if \<not> tag_set aliases ''serving'' then []
        else case cl_get c name (the (map_of aliases ''serving'')) of
               Inl _ \<Rightarrow> []
             | Inr mv \<Rightarrow> if is_llm (mv_tags mv) then [name] else []) ms))"

definition adopt_active_llm :: "client \<Rightarrow> string option" where
  "adopt_active_llm c = (case promoted_llm_names c of [n] \<Rightarrow> Some n | _ \<Rightarrow> None)"

text \<open>\<open>sorted(key=version, reverse=True)\<close>, which keeps the order of equal versions.\<close>

definition newest_first :: "model_version list \<Rightarrow> model_version list" where
  "newest_first = sort_key (\<lambda>m. - int (mv_version m))"

definition could_be_name :: "string \<Rightarrow> bool" where
  "could_be_name s = (CHR ''/'' \<notin> set s \<and> CHR '':'' \<notin> set s)"

definition by_name :: "client \<Rightarrow> string \<Rightarrow> exn + model_version list" where
  "by_name c base =
     (if \<not> could_be_name base then Inr []
      else case by_alias c base of
             Inl e \<Rightarrow> Inl e
           | Inr aliased \<Rightarrow> (case cl_search c (filter_on ''name'' base) of
               Inl e \<Rightarrow> Inl e
             | Inr named \<Rightarrow> Inr ((case aliased of None \<Rightarrow> [] | Some m \<Rightarrow> [m]) @ newest_first named)))"

definition candidates :: "client \<Rightarrow> string \<Rightarrow> exn + model_version list" where
  "candidates c base = (case by_name c base of
      Inl e \<Rightarrow> Inl e
    | Inr cs \<Rightarrow> if cs \<noteq> [] then Inr cs
        else (case cl_search c (filter_on ''tags.base_id'' base) of
            Inl e \<Rightarrow> Inl e | Inr tagged \<Rightarrow> Inr (newest_first tagged)))"

definition resolve_base_version :: "client \<Rightarrow> string \<Rightarrow> walk_error + model_version" where
  "resolve_base_version c base = (case candidates c base of
      Inl e \<Rightarrow> Inl (Raised e)
    | Inr cs \<Rightarrow> (case find (\<lambda>m. effective_kind (mv_tags m) = FullModel) cs of
        Some m \<Rightarrow> Inr m
      | None \<Rightarrow> Inl (Bad (if cs \<noteq> [] then OnlyAdapters base else NoFullModel base))))"

record serving_record =
  sr_name :: string
  sr_version :: string
  sr_kind :: kind
  sr_source :: string
  sr_base :: "(string \<times> string \<times> string) option"

definition resolve_serving_record :: "client \<Rightarrow> string \<Rightarrow> walk_error + serving_record" where
  "resolve_serving_record c name = (case by_alias c name of
      Inl e \<Rightarrow> Inl (Raised e)
    | Inr None \<Rightarrow> Inl (Bad (NotPromoted name))
    | Inr (Some mv) \<Rightarrow>
        (let r = \<lparr> sr_name = mv_name mv, sr_version = str_nat (mv_version mv), sr_kind = effective_kind (mv_tags mv),
                   sr_source = mv_source mv, sr_base = None \<rparr>
         in if sr_kind r = FullModel then Inr r
            else if \<not> tag_set (mv_tags mv) ''base_model'' then Inl (Bad (NoLineage (mv_name mv) (mv_version mv)))
            else (case resolve_base_version c (the (map_of (mv_tags mv) ''base_model'')) of
                Inl e \<Rightarrow> Inl e
              | Inr b \<Rightarrow> Inr (r\<lparr> sr_base := Some (mv_name b, str_nat (mv_version b), mv_source b) \<rparr>))))"

section \<open>Artifacts on the host\<close>

text \<open>\<open>expanduser\<close>: \<open>user_home\<close> is the password database.\<close>

record host_env =
  he_home :: string
  he_user_home :: "string \<Rightarrow> string option"
  he_digest :: "string \<Rightarrow> string"
  he_cache_dir :: string

definition rstrip_slash :: "string \<Rightarrow> string" where
  "rstrip_slash s = rev (dropWhile (\<lambda>c. c = CHR ''/'') (rev s))"

definition expanduser :: "host_env \<Rightarrow> string \<Rightarrow> string" where
  "expanduser env p = (case p of
      [] \<Rightarrow> p
    | c # cs \<Rightarrow>
        if c \<noteq> CHR ''~'' then p
        else (let user = takeWhile (\<lambda>c. c \<noteq> CHR ''/'') cs; rest = dropWhile (\<lambda>c. c \<noteq> CHR ''/'') cs
              in case (if user = [] then Some (he_home env) else he_user_home env user) of
                   None \<Rightarrow> p
                 | Some h \<Rightarrow> (let q = rstrip_slash h @ rest in if q = [] then ''/'' else q)))"

type_synonym disk = "(string, nat) dict"

definition isfile :: "disk \<Rightarrow> string \<Rightarrow> bool" where
  "isfile d p = (map_of d p \<noteq> None)"

text \<open>How resolution fails: the target is invalid, or the infrastructure is unreachable.\<close>

datatype resolve_error = ResolutionError | ResolutionUnavailable

text \<open>What a download ends with: the size of the object, or the exception and what it leaves in the
  partial file.\<close>

type_synonym download = "exn \<times> nat option + nat"

definition object_missing :: "exn \<Rightarrow> bool" where
  "object_missing e = (ex_code e = Some ''404'' \<or> ex_code e = Some ''NoSuchKey'' \<or>
     occurs_in ''Not Found'' (ex_text e) \<or> occurs_in ''NoSuchKey'' (ex_text e))"

definition s3_prefix :: string where "s3_prefix = ''s3://''"

definition bucket_key :: "string \<Rightarrow> string \<times> string" where
  "bucket_key source =
     (let rest = drop (length s3_prefix) source
      in (takeWhile (\<lambda>c. c \<noteq> CHR ''/'') rest, drop 1 (dropWhile (\<lambda>c. c \<noteq> CHR ''/'') rest)))"

definition cache_path :: "host_env \<Rightarrow> string \<Rightarrow> string" where
  "cache_path env source =
     expanduser env (he_cache_dir env) @ ''/'' @ take 16 (he_digest env source) @ ''.gguf''"

definition fetch_s3 :: "host_env \<Rightarrow> (string \<Rightarrow> download) \<Rightarrow> string \<Rightarrow> (disk, resolve_error, string) comp" where
  "fetch_s3 env dl source =
     (if fst (bucket_key source) = [] \<or> snd (bucket_key source) = [] then throw ResolutionError
      else let cache = cache_path env source; tmp = cache @ ''.part''
           in seq (gets (\<lambda>d. case map_of d cache of None \<Rightarrow> False | Some n \<Rightarrow> 0 < n)) (\<lambda>cached.
              if cached then ret cache
              else case dl source of
                Inl (e, partial) \<Rightarrow>
                  seq (modify (\<lambda>d. case partial of None \<Rightarrow> d | Some n \<Rightarrow> AList.update tmp n d)) (\<lambda>_.
                    throw (if object_missing e then ResolutionError else ResolutionUnavailable))
              | Inr n \<Rightarrow> seq (modify (\<lambda>d. AList.update cache n (AList.delete tmp d))) (\<lambda>_. ret cache)))"

definition materialize :: "host_env \<Rightarrow> (string \<Rightarrow> download) \<Rightarrow> string \<Rightarrow> (disk, resolve_error, string) comp" where
  "materialize env dl source =
     (if starts_with s3_prefix source then fetch_s3 env dl source
      else seq (gets (\<lambda>d. isfile d (expanduser env source))) (\<lambda>ok.
        if ok then ret (expanduser env source) else throw ResolutionError))"

section \<open>The cold-load resolution\<close>

record target =
  tg_name :: string
  tg_version :: string
  tg_kind :: kind
  tg_base_gguf :: string
  tg_adapter_gguf :: "string option"

text \<open>\<open>active_model_name\<close>: the pointer row, or the store's failure.\<close>

definition active_model_name :: "string option option \<Rightarrow> resolve_error + string option" where
  "active_model_name pointer = (case pointer of None \<Rightarrow> Inl ResolutionUnavailable | Some p \<Rightarrow> Inr p)"

definition artifacts :: "host_env \<Rightarrow> (string \<Rightarrow> download) \<Rightarrow> serving_record \<Rightarrow> (disk, resolve_error, target) comp" where
  "artifacts env dl r =
     (case sr_base r of
        Some (_, _, base) \<Rightarrow> seq (materialize env dl base) (\<lambda>b. seq (materialize env dl (sr_source r)) (\<lambda>a.
          ret \<lparr> tg_name = sr_name r, tg_version = sr_version r, tg_kind = sr_kind r, tg_base_gguf = b, tg_adapter_gguf = Some a \<rparr>))
      | None \<Rightarrow> seq (materialize env dl (sr_source r)) (\<lambda>b.
          ret \<lparr> tg_name = sr_name r, tg_version = sr_version r, tg_kind = sr_kind r, tg_base_gguf = b, tg_adapter_gguf = None \<rparr>))"

definition walk_then_fetch ::
  "host_env \<Rightarrow> (string \<Rightarrow> download) \<Rightarrow> client \<Rightarrow> string \<Rightarrow> (disk, resolve_error, target) comp" where
  "walk_then_fetch env dl c name = (case resolve_serving_record c name of
      Inl (Bad _) \<Rightarrow> throw ResolutionError
    | Inl (Raised _) \<Rightarrow> throw ResolutionUnavailable
    | Inr r \<Rightarrow> artifacts env dl r)"

text \<open>\<open>resolve\<close>: \<open>client\<close> is \<open>None\<close> when no registry client can be made.\<close>

definition resolve ::
  "host_env \<Rightarrow> (string \<Rightarrow> download) \<Rightarrow> string option option \<Rightarrow> client option \<Rightarrow> (disk, resolve_error, target option) comp" where
  "resolve env dl pointer client = (case active_model_name pointer of
      Inl e \<Rightarrow> throw e
    | Inr (Some name) \<Rightarrow> (case client of
          None \<Rightarrow> throw ResolutionUnavailable
        | Some c \<Rightarrow> seq (walk_then_fetch env dl c name) (\<lambda>t. ret (Some t)))
    | Inr None \<Rightarrow> (case client of
          None \<Rightarrow> ret None
        | Some c \<Rightarrow> (case adopt_active_llm c of
              None \<Rightarrow> ret None
            | Some name \<Rightarrow> catch (seq (walk_then_fetch env dl c name) (\<lambda>t. ret (Some t)))
                (\<lambda>e. if e = ResolutionError then ret None else throw e))))"

section \<open>The walk finds full models\<close>

lemma newest_first_set [simp]: "set (newest_first ms) = set ms"
  by (simp add: newest_first_def)

lemma newest_first_Nil [simp]: "newest_first ms = [] \<longleftrightarrow> ms = []"
  by (metis newest_first_set set_empty)

lemma newest_first_sorted: "sorted_wrt (\<lambda>m m'. mv_version m' \<le> mv_version m) (newest_first ms)"
proof -
  have "sorted (map (\<lambda>m. - int (mv_version m)) (newest_first ms))"
    unfolding newest_first_def by (rule sorted_sort_key)
  then show ?thesis by (simp add: sorted_map)
qed

lemma find_sorted_first:
  "sorted_wrt R xs \<Longrightarrow> (\<And>x. R x x) \<Longrightarrow> find P xs = Some x \<Longrightarrow> x \<in> set xs \<and> P x \<and> (\<forall>y \<in> set xs. P y \<longrightarrow> R x y)"
  by (induction xs) (auto split: if_splits)

lemma find_newest:
  assumes "find P (newest_first ms) = Some m"
  shows "m \<in> set ms \<and> P m \<and> (\<forall>m' \<in> set ms. P m' \<longrightarrow> mv_version m' \<le> mv_version m)"
  using find_sorted_first[OF newest_first_sorted _ assms] by simp

text \<open>The versions a base reference is looked up in: by the alias and the name, or by the base id.\<close>

definition best_full :: "model_version list \<Rightarrow> model_version \<Rightarrow> bool" where
  "best_full ms m = (m \<in> set ms \<and> effective_kind (mv_tags m) = FullModel \<and>
     (\<forall>m' \<in> set ms. effective_kind (mv_tags m') = FullModel \<longrightarrow> mv_version m' \<le> mv_version m))"

lemma find_best_full:
  "find (\<lambda>m. effective_kind (mv_tags m) = FullModel) (newest_first ms) = Some m \<Longrightarrow> best_full ms m"
  using find_newest[of "\<lambda>m. effective_kind (mv_tags m) = FullModel" ms m] unfolding best_full_def by blast

lemma by_name_Nil:
  assumes "by_name c base = Inr []" "could_be_name base"
  shows "by_alias c base = Inr None \<and> cl_search c (filter_on ''name'' base) = Inr []"
proof (cases "by_alias c base")
  case (Inr al)
  then show ?thesis using assms
    by (cases al; cases "cl_search c (filter_on ''name'' base)") (simp_all add: by_name_def)
qed (use assms in \<open>simp add: by_name_def\<close>)

text \<open>An adapter is served on a full model only: the base is the promoted version of the named
  model when that is a full model, else the newest full version registered under the name, else the newest
  full version that carries the reference as its base id.\<close>

theorem base_is_the_newest_full_model:
  assumes "resolve_base_version c base = Inr m"
  shows "effective_kind (mv_tags m) = FullModel \<and>
    (by_alias c base = Inr (Some m) \<or>
     (\<exists>ms. cl_search c (filter_on ''name'' base) = Inr ms \<and> best_full ms m \<and>
        (\<forall>a. by_alias c base = Inr (Some a) \<longrightarrow> effective_kind (mv_tags a) = LoraAdapter)) \<or>
     (\<exists>ms. cl_search c (filter_on ''tags.base_id'' base) = Inr ms \<and> best_full ms m \<and>
        (could_be_name base \<longrightarrow> by_alias c base = Inr None \<and> cl_search c (filter_on ''name'' base) = Inr [])))"
proof -
  obtain cs where cs: "candidates c base = Inr cs" "find (\<lambda>m. effective_kind (mv_tags m) = FullModel) cs = Some m"
    using assms by (auto simp: resolve_base_version_def split: sum.splits option.splits)
  have full: "effective_kind (mv_tags m) = FullModel" using find_SomeD[OF cs(2)] by simp
  obtain ns where ns: "by_name c base = Inr ns" using cs(1) by (auto simp: candidates_def split: sum.splits)
  show ?thesis
  proof (cases "ns = []")
    case True
    then obtain ms where ms: "cl_search c (filter_on ''tags.base_id'' base) = Inr ms" "cs = newest_first ms"
      using ns cs(1) by (auto simp: candidates_def split: sum.splits)
    have "by_alias c base = Inr None \<and> cl_search c (filter_on ''name'' base) = Inr []" if "could_be_name base"
      using ns that unfolding True by (rule by_name_Nil)
    then show ?thesis using full ms find_best_full cs(2) by blast
  next
    case False
    then obtain al ms where ms: "by_alias c base = Inr al" "cl_search c (filter_on ''name'' base) = Inr ms"
      "cs = (case al of None \<Rightarrow> [] | Some a \<Rightarrow> [a]) @ newest_first ms"
      using ns cs(1) by (auto simp: candidates_def by_name_def split: sum.splits if_splits)
    show ?thesis
    proof (cases "al = Some m")
      case False
      have "best_full ms m \<and> (\<forall>a. al = Some a \<longrightarrow> effective_kind (mv_tags a) = LoraAdapter)"
        using cs(2) ms(3) False find_best_full[of ms m] kind.exhaust
        by (cases al) (auto split: if_splits)
      then show ?thesis using full ms by auto
    qed (use full ms in simp)
  qed
qed

lemma resolved_kind:
  assumes "resolve_serving_record c name = Inr r"
  shows "sr_base r = None \<longleftrightarrow> sr_kind r = FullModel"
  using assms by (auto simp: resolve_serving_record_def Let_def split: sum.splits option.splits if_splits)

section \<open>A quoted value stays one value\<close>

text \<open>How a filter literal is read: a doubled quote is a quote, a single one ends the literal.\<close>

fun read_literal :: "string \<Rightarrow> string \<times> string" where
  "read_literal [] = ([], [])"
| "read_literal [c] = (if c = quote_char then ([], []) else ([c], []))"
| "read_literal (c # d # cs) =
     (if c = quote_char
      then (if d = quote_char then (case read_literal cs of (v, rest) \<Rightarrow> (quote_char # v, rest)) else ([], d # cs))
      else (case read_literal (d # cs) of (v, rest) \<Rightarrow> (c # v, rest)))"

lemma escape_simps [simp]:
  "escape [] = []" "escape (c # cs) = (if c = quote_char then [quote_char, quote_char] else [c]) @ escape cs"
  by (simp_all add: escape_def)

lemma read_literal_plain: "c \<noteq> quote_char \<Longrightarrow> read_literal (c # s) = (case read_literal s of (v, rest) \<Rightarrow> (c # v, rest))"
  by (cases s) auto

lemma escaped_literal_reads_back:
  "(\<And>cs. rest \<noteq> quote_char # cs) \<Longrightarrow> read_literal (escape v @ quote_char # rest) = (v, rest)"
proof (induction v)
  case Nil
  then show ?case by (cases rest) auto
next
  case (Cons c v)
  then show ?case by (cases "c = quote_char") (simp_all add: read_literal_plain)
qed

section \<open>What a resolution promises\<close>

lemma materialized_is_on_disk:
  "wp (materialize env dl source) (\<lambda>p d'. isfile d' p) (\<lambda>_ _. True) d"
  by (auto simp: materialize_def fetch_s3_def isfile_def Let_def wp dict_simps split: option.splits sum.splits)

text \<open>A download only ever removes its own partial file.\<close>

definition spares :: "host_env \<Rightarrow> string \<Rightarrow> disk \<Rightarrow> disk \<Rightarrow> bool" where
  "spares env source d d' = (\<forall>p. isfile d p \<longrightarrow> p \<noteq> cache_path env source @ ''.part'' \<longrightarrow> isfile d' p)"

lemma materialize_spares: "wp (materialize env dl source) (\<lambda>_. spares env source d) (\<lambda>_. spares env source d) d"
  by (auto simp: spares_def materialize_def fetch_s3_def isfile_def Let_def wp dict_simps split: option.splits sum.splits)

definition not_part :: "string \<Rightarrow> bool" where
  "not_part p = (\<not> ends_with ''.part'' p)"

lemma cache_path_not_part: "not_part (cache_path env source)"
  by (auto simp: not_part_def ends_with_def starts_with_def cache_path_def)

lemma materialized_not_part:
  "(\<not> starts_with s3_prefix source \<Longrightarrow> not_part (expanduser env source)) \<Longrightarrow>
   wp (materialize env dl source) (\<lambda>p d'. not_part p) (\<lambda>_ _. True) d"
  using cache_path_not_part by (auto simp: materialize_def fetch_s3_def Let_def wp split: option.splits sum.splits)

lemma part_not_kept: "not_part p \<Longrightarrow> spares env source d d' \<Longrightarrow> isfile d p \<Longrightarrow> isfile d' p"
  unfolding spares_def not_part_def ends_with_iff by blast

lemma failed_download_spares_the_cache:
  "wp (fetch_s3 env dl source) (\<lambda>_ _. True) (\<lambda>_ d'. map_of d' (cache_path env source) = map_of d (cache_path env source)) d"
  by (auto simp: fetch_s3_def Let_def wp dict_simps split: option.splits sum.splits)

lemma fetched_once:
  assumes "fetch_s3 env dl source d = (Inr p, d')" "\<And>n. dl source = Inr n \<Longrightarrow> 0 < n"
  shows "fetch_s3 env dl' source d' = (Inr p, d')"
proof -
  have "wp (fetch_s3 env dl source) (\<lambda>p d'. p = cache_path env source \<and> bucket_key source \<noteq> ([], []) \<and>
      fst (bucket_key source) \<noteq> [] \<and> snd (bucket_key source) \<noteq> [] \<and>
      (\<exists>n. map_of d' p = Some n \<and> 0 < n)) (\<lambda>_ _. True) d"
    using assms(2) by (auto simp: fetch_s3_def Let_def wp dict_simps split: option.splits sum.splits)
  then have "p = cache_path env source" "fst (bucket_key source) \<noteq> []" "snd (bucket_key source) \<noteq> []"
    "\<exists>n. map_of d' p = Some n \<and> 0 < n"
    using assms(1) by (auto simp: wp_def)
  then show ?thesis by (auto simp: fetch_s3_def Let_def seq_def gets_def ret_def)
qed

definition on_disk :: "disk \<Rightarrow> target \<Rightarrow> bool" where
  "on_disk d t = (isfile d (tg_base_gguf t) \<and> (\<forall>a. tg_adapter_gguf t = Some a \<longrightarrow> isfile d a))"

definition local_not_part :: "host_env \<Rightarrow> string \<Rightarrow> bool" where
  "local_not_part env source = (starts_with s3_prefix source \<or> not_part (expanduser env source))"

lemma artifacts_on_disk:
  assumes "\<And>n v b. sr_base r = Some (n, v, b) \<Longrightarrow> local_not_part env b"
  shows "wp (artifacts env dl r) (\<lambda>t d'. on_disk d' t \<and> tg_name t = sr_name r \<and> tg_version t = sr_version r) (\<lambda>_ _. True) d"
proof (cases "sr_base r")
  case None
  show ?thesis unfolding artifacts_def None option.case wp_seq
    by (rule wp_mono[OF materialized_is_on_disk]) (simp_all add: wp on_disk_def)
next
  case (Some b)
  obtain n v base where b: "b = (n, v, base)" by (cases b)
  have base: "wp (materialize env dl base) (\<lambda>p d'. isfile d' p \<and> not_part p) (\<lambda>_ _. True \<and> True) d"
    by (rule wp_conj[OF materialized_is_on_disk materialized_not_part])
      (use assms Some b in \<open>auto simp: local_not_part_def\<close>)
  have second: "wp (materialize env dl (sr_source r)) (\<lambda>p d'. isfile d' p \<and> spares env (sr_source r) d1 d')
      (\<lambda>_ d'. True \<and> spares env (sr_source r) d1 d') d1" for d1
    by (rule wp_conj[OF materialized_is_on_disk materialize_spares])
  show ?thesis unfolding artifacts_def Some b option.case prod.case wp_seq
  proof (rule wp_mono[OF base])
    fix p d1 assume p: "isfile d1 p \<and> not_part p"
    show "wp (materialize env dl (sr_source r)) (\<lambda>a. wp (ret \<lparr>tg_name = sr_name r, tg_version = sr_version r,
            tg_kind = sr_kind r, tg_base_gguf = p, tg_adapter_gguf = Some a\<rparr>)
          (\<lambda>t d'. on_disk d' t \<and> tg_name t = sr_name r \<and> tg_version t = sr_version r) (\<lambda>_ _. True)) (\<lambda>_ _. True) d1"
      by (rule wp_mono[OF second]) (use p part_not_kept in \<open>auto simp: wp on_disk_def\<close>)
  qed simp
qed

definition sound_target :: "client \<Rightarrow> string \<Rightarrow> disk \<Rightarrow> target \<Rightarrow> bool" where
  "sound_target c name d t = (\<exists>r. resolve_serving_record c name = Inr r \<and> tg_name t = sr_name r \<and>
     tg_version t = sr_version r \<and> on_disk d t)"

lemma walk_sound:
  assumes "\<And>r n v b. resolve_serving_record c name = Inr r \<Longrightarrow> sr_base r = Some (n, v, b) \<Longrightarrow> local_not_part env b"
  shows "wp (walk_then_fetch env dl c name) (\<lambda>t d'. sound_target c name d' t) (\<lambda>_ _. True) d"
proof (cases "resolve_serving_record c name")
  case (Inl e)
  then show ?thesis by (cases e) (simp_all add: walk_then_fetch_def wp)
next
  case (Inr r)
  have "wp (artifacts env dl r) (\<lambda>t d'. on_disk d' t \<and> tg_name t = sr_name r \<and> tg_version t = sr_version r) (\<lambda>_ _. True) d"
    by (rule artifacts_on_disk) (rule assms[OF Inr])
  then show ?thesis unfolding walk_then_fetch_def Inr sum.case
    by (rule wp_mono) (use Inr in \<open>auto simp: sound_target_def\<close>)
qed

text \<open>Which model a resolution is for.\<close>

definition selected :: "string option \<Rightarrow> client \<Rightarrow> string \<Rightarrow> bool" where
  "selected pointer c name = (case pointer of Some n \<Rightarrow> name = n | None \<Rightarrow> promoted_llm_names c = [name])"

lemma adopt_selected: "adopt_active_llm c = Some name \<longleftrightarrow> selected None c name"
  by (auto simp: adopt_active_llm_def selected_def split: list.splits)


section \<open>A concrete registry\<close>

definition base_mv :: model_version where
  "base_mv = \<lparr> mv_name = ''qwen-base'', mv_version = 1, mv_source = ''/zoo/qwen.gguf'',
     mv_tags = [(''kind'', ''full-model''), (''base_id'', ''Qwen/Qwen2.5'')] \<rparr>"

definition tuned_mv :: model_version where
  "tuned_mv = \<lparr> mv_name = ''support'', mv_version = 3, mv_source = ''s3://models/support/3.gguf'',
     mv_tags = [(''kind'', ''lora-adapter''), (''base_model'', ''Qwen/Qwen2.5''), (''task'', ''text-generation'')] \<rparr>"

definition demo_registry :: client where
  "demo_registry = \<lparr> cl_by_alias = (\<lambda>name al. if name = ''support'' \<and> al = ''serving'' then Inr tuned_mv
       else Inl \<lparr> ex_code = Some ''RESOURCE_DOES_NOT_EXIST'', ex_text = ''gone'' \<rparr>),
     cl_search = (\<lambda>f. if f = filter_on ''tags.base_id'' ''Qwen/Qwen2.5'' then Inr [base_mv] else Inr []),
     cl_models = Inr [(''support'', [(''serving'', ''3'')])],
     cl_get = (\<lambda>name v. Inr tuned_mv) \<rparr>"

definition demo_host :: host_env where
  "demo_host = \<lparr> he_home = ''/home/op'', he_user_home = (\<lambda>_. None), he_digest = (\<lambda>s. ''0123456789abcdef0123''),
     he_cache_dir = ''~/state/llm-artifacts'' \<rparr>"

lemma demo_search: "cl_search demo_registry f = Inr ms \<Longrightarrow> set ms \<subseteq> {base_mv}"
  by (auto simp: demo_registry_def split: if_splits)

lemma demo_alias: "by_alias demo_registry n = Inr (Some m) \<Longrightarrow> m = tuned_mv"
  by (simp add: demo_registry_def by_alias_def split: if_splits sum.splits)

lemma demo_candidates:
  assumes "candidates demo_registry ref = Inr cs"
  shows "set cs \<subseteq> {base_mv, tuned_mv}"
  using assms by (auto simp: candidates_def by_name_def dest!: demo_search demo_alias split: sum.splits if_splits option.splits)

lemma demo_base: "resolve_base_version demo_registry ref = Inr m \<Longrightarrow> m = base_mv"
proof -
  assume "resolve_base_version demo_registry ref = Inr m"
  then obtain cs where cs: "candidates demo_registry ref = Inr cs"
    "find (\<lambda>m. effective_kind (mv_tags m) = FullModel) cs = Some m"
    by (auto simp: resolve_base_version_def split: sum.splits option.splits)
  have "effective_kind (mv_tags tuned_mv) = LoraAdapter" by code_simp
  then show "m = base_mv" using find_SomeD[OF cs(2)] demo_candidates[OF cs(1)] by auto
qed


theorem base_is_the_newest_full_model_witness:
  "resolve_base_version demo_registry ''Qwen/Qwen2.5'' = Inr base_mv \<and> effective_kind (mv_tags base_mv) = FullModel"
proof -
  have "resolve_base_version demo_registry ''Qwen/Qwen2.5'' = Inr base_mv"
    by (simp add: resolve_base_version_def candidates_def by_name_def could_be_name_def demo_registry_def newest_first_def
        effective_kind_def base_mv_def)
  then show ?thesis using base_is_the_newest_full_model by blast
qed

end
