(* ===== verification/ServingBinding.thy ===== *)
theory ServingBinding
  imports LlmResolve
begin

text \<open>
  \<open>hostagent/adapters/llama.py\<close>: which model the language-model engine is bound to and which one its child was
  spawned with.  \<open>rebind\<close> asks the resolver, at most once per TTL unless forced; \<open>available\<close> rebinds before it looks at
  the files; \<open>spawn\<close> records what the child serves.  The files, the clock and the resolver's answer are arguments.
\<close>

record loaded =
  ld_name :: string
  ld_version :: "string option"
  ld_base :: string
  ld_adapter :: "string option"
  ld_base_path :: string
  ld_adapter_path :: "string option"

record adapter =
  ad_bin :: string
  ad_env_model :: string
  ad_env_lora :: "string option"
  ad_env_alias :: string
  ad_model :: string
  ad_lora :: "string option"
  ad_alias :: string
  ad_version :: "string option"
  ad_budget :: rat
  ad_bind_error :: "string option"
  ad_bind_note :: "string option"
  ad_bound_at :: "rat option"
  ad_loaded :: "loaded option"
  ad_port :: "int option"

text \<open>\<open>__init__\<close>: the environment's values after their defaults.\<close>

definition new_adapter :: "string \<Rightarrow> string \<Rightarrow> string option \<Rightarrow> string \<Rightarrow> rat \<Rightarrow> adapter" where
  "new_adapter bin model lora alias budget =
     \<lparr> ad_bin = bin, ad_env_model = model, ad_env_lora = lora, ad_env_alias = alias, ad_model = model, ad_lora = lora,
       ad_alias = alias, ad_version = None, ad_budget = budget, ad_bind_error = None, ad_bind_note = None,
       ad_bound_at = None, ad_loaded = None, ad_port = None \<rparr>"

section \<open>Binding\<close>

text \<open>What the resolver does when asked: a target, the default, or one of its exceptions.\<close>

datatype resolved = RTarget target | RDefault | RInvalid string | RUnavailable string | RCrash string

definition bind_to_env :: "string option \<Rightarrow> adapter \<Rightarrow> adapter" where
  "bind_to_env note a = a\<lparr> ad_model := ad_env_model a, ad_lora := ad_env_lora a, ad_alias := ad_env_alias a,
     ad_version := None, ad_bind_error := None, ad_bind_note := note \<rparr>"

definition bind_to_target :: "host_env \<Rightarrow> target \<Rightarrow> adapter \<Rightarrow> adapter" where
  "bind_to_target env t a = a\<lparr> ad_model := expanduser env (tg_base_gguf t),
     ad_lora := (case tg_adapter_gguf t of None \<Rightarrow> None | Some p \<Rightarrow> if p = [] then None else Some (expanduser env p)),
     ad_alias := tg_name t, ad_version := Some (tg_version t), ad_bind_error := None, ad_bind_note := None \<rparr>"

definition bind_answer :: "host_env \<Rightarrow> resolved \<Rightarrow> adapter \<Rightarrow> adapter" where
  "bind_answer env r a = (case r of
      RTarget t \<Rightarrow> bind_to_target env t a
    | RDefault \<Rightarrow> bind_to_env None a
    | RInvalid e \<Rightarrow> a\<lparr> ad_bind_error := Some e, ad_bind_note := None \<rparr>
    | RUnavailable e \<Rightarrow> bind_to_env (Some e) a
    | RCrash e \<Rightarrow> bind_to_env (Some (''unexpected resolution failure: '' @ e)) a)"

definition fresh_binding :: "rat \<Rightarrow> rat \<Rightarrow> adapter \<Rightarrow> bool" where
  "fresh_binding ttl now a = (case ad_bound_at a of None \<Rightarrow> False | Some t \<Rightarrow> now - t < ttl)"

definition rebind :: "host_env \<Rightarrow> rat \<Rightarrow> bool \<Rightarrow> rat \<Rightarrow> resolved \<Rightarrow> adapter \<Rightarrow> adapter" where
  "rebind env ttl force now r a =
     (if \<not> force \<and> fresh_binding ttl now a then a else (bind_answer env r a)\<lparr> ad_bound_at := Some now \<rparr>)"

type_synonym identity = "string \<times> string option"

definition bound_identity :: "adapter \<Rightarrow> identity" where
  "bound_identity a = (ad_alias a, ad_version a)"

definition loaded_identity :: "adapter \<Rightarrow> identity option" where
  "loaded_identity a = map_option (\<lambda>l. (ld_name l, ld_version l)) (ad_loaded a)"

text \<open>A snapshot is the adapter at that moment; restoring it freezes the binding for a TTL.\<close>

definition restore_binding :: "rat \<Rightarrow> adapter \<Rightarrow> adapter \<Rightarrow> adapter" where
  "restore_binding now snap a = a\<lparr> ad_model := ad_model snap, ad_lora := ad_lora snap, ad_alias := ad_alias snap,
     ad_version := ad_version snap, ad_bind_error := ad_bind_error snap, ad_bind_note := ad_bind_note snap,
     ad_bound_at := Some now, ad_loaded := ad_loaded snap \<rparr>"

section \<open>Availability, admission estimate, spawn\<close>

datatype unavailable = Unresolvable string | NoBinary | NoModel | NoLora

text \<open>The host as a probe sees it: the files, which of them can be executed, the clock and the resolver.\<close>

record probe =
  pr_files :: disk
  pr_exec :: "string \<Rightarrow> bool"
  pr_now :: rat
  pr_resolved :: resolved

definition nonempty :: "string option \<Rightarrow> string option" where
  "nonempty p = (if p = Some [] then None else p)"

definition check_files :: "probe \<Rightarrow> adapter \<Rightarrow> unavailable option" where
  "check_files pr a =
     (case nonempty (ad_bind_error a) of
        Some e \<Rightarrow> Some (Unresolvable e)
      | None \<Rightarrow>
          if \<not> (isfile (pr_files pr) (ad_bin a) \<and> pr_exec pr (ad_bin a)) then Some NoBinary
          else if \<not> isfile (pr_files pr) (ad_model a) then Some NoModel
          else (case nonempty (ad_lora a) of
              None \<Rightarrow> None
            | Some l \<Rightarrow> if isfile (pr_files pr) l then None else Some NoLora))"

definition available :: "host_env \<Rightarrow> rat \<Rightarrow> probe \<Rightarrow> adapter \<Rightarrow> unavailable option \<times> adapter" where
  "available env ttl pr a =
     (let a' = rebind env ttl False (pr_now pr) (pr_resolved pr) a in (check_files pr a', a'))"

definition GIB_bytes :: rat where "GIB_bytes = 1024 ^ 3"

text \<open>\<open>estimate_vram\<close> of a base and an adapter file; an unreadable file counts as nearly the whole budget.\<close>

definition estimate_paths :: "disk \<Rightarrow> rat \<Rightarrow> string \<Rightarrow> string option \<Rightarrow> rat" where
  "estimate_paths d budget base lora =
     (case map_of d base of
        None \<Rightarrow> budget * (95 / 100)
      | Some n \<Rightarrow> (case nonempty lora of
            None \<Rightarrow> of_nat n / GIB_bytes * (12 / 10) + 1
          | Some l \<Rightarrow> (case map_of d l of
                None \<Rightarrow> budget * (95 / 100)
              | Some k \<Rightarrow> (of_nat n / GIB_bytes + of_nat k / GIB_bytes) * (12 / 10) + 1)))"

definition estimate_vram :: "disk \<Rightarrow> adapter \<Rightarrow> rat" where
  "estimate_vram d a = estimate_paths d (ad_budget a) (ad_model a) (ad_lora a)"

definition basename :: "string \<Rightarrow> string" where
  "basename p = rev (takeWhile (\<lambda>c. c \<noteq> CHR ''/'') (rev p))"

definition loaded_of :: "adapter \<Rightarrow> loaded" where
  "loaded_of a = \<lparr> ld_name = ad_alias a, ld_version = ad_version a, ld_base = basename (ad_model a),
     ld_adapter = map_option basename (nonempty (ad_lora a)), ld_base_path = ad_model a, ld_adapter_path = ad_lora a \<rparr>"

definition spawned :: "int \<Rightarrow> adapter \<Rightarrow> adapter" where
  "spawned port a = a\<lparr> ad_port := Some port, ad_loaded := Some (loaded_of a) \<rparr>"

definition spawn_command :: "string \<Rightarrow> string \<Rightarrow> string \<Rightarrow> adapter \<Rightarrow> string list" where
  "spawn_command ngl ctx port a =
     [ad_bin a, ''-m'', ad_model a, ''--host'', ''127.0.0.1'', ''--port'', port, ''-ngl'', ngl, ''--ctx-size'', ctx,
      ''--alias'', ad_alias a] @ (case nonempty (ad_lora a) of None \<Rightarrow> [] | Some l \<Rightarrow> [''--lora'', l])"

section \<open>Health\<close>

record health =
  hl_ok :: bool
  hl_resident :: bool
  hl_model :: string
  hl_version :: "string option"
  hl_base :: string
  hl_adapter :: "string option"
  hl_est :: "rat option"
  hl_fits :: "bool option"
  hl_unavailable :: "unavailable option"
  hl_binding :: "string option"

text \<open>\<open>health\<close>: a resident child is reported by what it was spawned with; otherwise the next target is resolved
  and probed.\<close>

definition health_report ::
  "bool \<Rightarrow> unavailable option \<Rightarrow> rat option \<Rightarrow> identity \<Rightarrow> string \<Rightarrow> string option \<Rightarrow> adapter \<Rightarrow> health" where
  "health_report resident reason est ident base lora a =
     \<lparr> hl_ok = (reason = None), hl_resident = resident, hl_model = fst ident, hl_version = snd ident, hl_base = base,
       hl_adapter = lora, hl_est = map_option (py_round 1) est,
       hl_fits = map_option (\<lambda>e. e \<le> ad_budget a * (95 / 100)) est, hl_unavailable = reason,
       hl_binding = nonempty (ad_bind_note a) \<rparr>"

definition adapter_health :: "host_env \<Rightarrow> rat \<Rightarrow> bool \<Rightarrow> probe \<Rightarrow> adapter \<Rightarrow> health \<times> adapter" where
  "adapter_health env ttl resident pr a =
     (case (if resident then ad_loaded a else None) of
        Some l \<Rightarrow>
          (let bp = (if ld_base_path l = [] then ad_model a else ld_base_path l);
               est = (if isfile (pr_files pr) bp then Some (estimate_paths (pr_files pr) (ad_budget a) bp (ld_adapter_path l)) else None)
           in (health_report resident None est (ld_name l, ld_version l) (ld_base l) (ld_adapter l) a, a))
      | None \<Rightarrow>
          (let (reason, a') = available env ttl pr a;
               est = (if isfile (pr_files pr) (ad_model a') then Some (estimate_vram (pr_files pr) a') else None)
           in (health_report resident reason est (bound_identity a') (basename (ad_model a'))
                 (map_option basename (nonempty (ad_lora a'))) a', a')))"

section \<open>The forward surface\<close>

definition served_name :: "adapter \<Rightarrow> string" where
  "served_name a = (case ad_loaded a of Some l \<Rightarrow> ld_name l | None \<Rightarrow> ad_alias a)"

text \<open>The events of a streamed answer: \<open>delta\<close> is what the standard library's parser finds in a chunk.\<close>

datatype sse = SseStart string | SseToken string | SseDone nat string

fun str_trim_left :: "string \<Rightarrow> string" where
  "str_trim_left s = dropWhile (\<lambda>c. c \<in> set '' '' \<or> of_char c \<in> {9::nat, 10, 11, 12, 13}) s"

definition sse_strip :: "string \<Rightarrow> string" where
  "sse_strip s = rev (str_trim_left (rev (str_trim_left s)))"

fun sse_tokens :: "(string \<Rightarrow> string option) \<Rightarrow> string list \<Rightarrow> string list" where
  "sse_tokens delta [] = []"
| "sse_tokens delta (raw # lines) =
     (let line = sse_strip raw
      in if \<not> starts_with ''data:'' line then sse_tokens delta lines
         else let chunk = sse_strip (drop 5 line)
              in if chunk = ''[DONE]'' then []
                 else (case delta chunk of
                     None \<Rightarrow> sse_tokens delta lines
                   | Some d \<Rightarrow> if d = [] then sse_tokens delta lines else d # sse_tokens delta lines))"

definition stream :: "(string \<Rightarrow> string option) \<Rightarrow> string list \<Rightarrow> adapter \<Rightarrow> sse list" where
  "stream delta lines a =
     (let ts = sse_tokens delta lines
      in SseStart (served_name a) # map SseToken ts @ [SseDone (length ts) (served_name a)])"

section \<open>What binding and health show\<close>

lemma rebind_loaded [simp]: "ad_loaded (rebind env ttl force now r a) = ad_loaded a"
  by (auto simp: rebind_def bind_answer_def bind_to_env_def bind_to_target_def split: resolved.splits)

lemma available_loaded [simp]: "ad_loaded (snd (available env ttl pr a)) = ad_loaded a"
  by (simp add: available_def Let_def)

lemma loaded_identity_available [simp]: "loaded_identity (snd (available env ttl pr a)) = loaded_identity a"
  by (simp add: loaded_identity_def)

lemma loaded_identity_rebind [simp]: "loaded_identity (rebind env ttl force now r a) = loaded_identity a"
  by (simp add: loaded_identity_def)

lemma spawned_identity [simp]: "loaded_identity (spawned port a) = Some (bound_identity (spawned port a))"
  by (simp add: loaded_identity_def spawned_def loaded_of_def bound_identity_def)

lemma bound_identity_spawned [simp]: "bound_identity (spawned port a) = bound_identity a"
  by (simp add: spawned_def bound_identity_def)

text \<open>A live child is reported as healthy and as itself, whatever target is pending and whatever is on the disk.\<close>

lemma resident_health:
  assumes "ad_loaded a = Some l"
  shows "fst (adapter_health env ttl True pr a) = fst (adapter_health env ttl True pr a)\<lparr> hl_ok := True, hl_model := ld_name l,
      hl_version := ld_version l \<rparr> \<and> snd (adapter_health env ttl True pr a) = a"
  using assms by (simp add: adapter_health_def health_report_def Let_def)

lemma unresolvable_target_is_refused:
  assumes "e \<noteq> []" "pr_now pr - now < ttl"
  shows "fst (available env ttl pr (rebind env ttl True now (RInvalid e) a)) = Some (Unresolvable e)"
  using assms by (simp add: available_def rebind_def bind_answer_def fresh_binding_def check_files_def nonempty_def)

text \<open>Within the TTL an unforced rebind leaves the adapter alone.\<close>

lemma available_fresh: "fresh_binding ttl (pr_now pr) a \<Longrightarrow> available env ttl pr a = (check_files pr a, a)"
  by (simp add: available_def rebind_def)

lemma restored_identity:
  "bound_identity (restore_binding now snap a) = bound_identity snap"
  "loaded_identity (restore_binding now snap a) = loaded_identity snap"
  by (simp_all add: restore_binding_def bound_identity_def loaded_identity_def)

lemma sse_tokens_nonempty: "t \<in> set (sse_tokens delta lines) \<Longrightarrow> t \<noteq> []"
  by (induction delta lines rule: sse_tokens.induct) (auto simp: Let_def split: if_splits option.splits)

lemma sse_done_stops:
  assumes "starts_with ''data:'' (sse_strip raw)" "sse_strip (drop 5 (sse_strip raw)) = ''[DONE]''"
  shows "sse_tokens delta (raw # lines) = []"
  using assms by (simp add: Let_def)

end
