(* ===== verification/Swap.thy ===== *)
theory Swap
  imports EngineLifecycle ServingBinding
begin

text \<open>
  \<open>hostagent/swap.py\<close>: making room for an engine and loading it as one transaction, and the reload of the serving
  language model over it.  The state is the engine table, the GPU slot, the binding of the language-model
  adapter and the store of reload operations.  What the adapters, the children and the GPU answer is carried by
  the records of answers; what other threads do to the slot while the transaction runs is a list of slot events
  (\<open>SlotAdmission\<close>), and health polls, which rebind the adapter, are a list of probes.
\<close>

record reload_result =
  rr_status :: string
  rr_ms :: rat
  rr_ident :: identity
  rr_evicted :: "string option"
  rr_replayed :: bool

type_synonym op_target = "string option \<times> string option"

record reload_op =
  ro_target :: op_target
  ro_result :: "reload_result option"

record manager =
  mg_engines :: "(string, engine) dict"
  mg_slot :: slot
  mg_llm :: adapter
  mg_ops :: "(string, reload_op) dict"

datatype swap_refusal =
    UnknownEngine | AlreadySwapping string | JobHolder string | BatchHolder string | NotSwappable string
  | TargetDisabled | TargetWedged | TargetUnavailable | ConfirmRequired

text \<open>The exceptions: \<open>PreemptRefused\<close>, its subclasses, \<open>SwapError\<close>, \<open>EngineError\<close> and the admission errors.\<close>

datatype swap_exn =
    PreemptRefused swap_refusal | TargetUnresolvable | OperationTargetMismatch | SwapError string
  | EngineError | AdmissionError adm_error

section \<open>Loading and unloading one engine\<close>

record load_answers =
  la_ready :: bool
  la_avail :: bool
  la_gone :: "bool \<times> bool"
  la_est :: rat
  la_free :: "rat option"
  la_now :: rat
  la_probe :: probe
  la_port :: int
  la_spawn :: "int option"
  la_wait :: "nat \<Rightarrow> bool \<times> bool"
  la_gone2 :: "bool \<times> bool"
  la_done :: rat

definition llm :: string where "llm = ''llm''"

definition put :: "string \<Rightarrow> engine \<Rightarrow> slot \<Rightarrow> manager \<Rightarrow> manager" where
  "put i e s m = m\<lparr> mg_engines := AList.update i e (mg_engines m), mg_slot := s \<rparr>"

definition on_slot :: "(slot \<Rightarrow> slot) \<Rightarrow> manager \<Rightarrow> manager" where
  "on_slot f m = m\<lparr> mg_slot := f (mg_slot m) \<rparr>"

definition on_llm :: "(adapter \<Rightarrow> adapter) \<Rightarrow> manager \<Rightarrow> manager" where
  "on_llm f m = m\<lparr> mg_llm := f (mg_llm m) \<rparr>"

text \<open>\<open>adapter.available()\<close>: the language model's adapter rebinds first, the others look at their files.\<close>

definition adapter_ok :: "host_env \<Rightarrow> rat \<Rightarrow> string \<Rightarrow> bool \<Rightarrow> probe \<Rightarrow> manager \<Rightarrow> bool" where
  "adapter_ok env ttl i avail pr m =
     (if i = llm then fst (available env ttl pr (mg_llm m)) = None else avail)"

definition probed :: "host_env \<Rightarrow> rat \<Rightarrow> string \<Rightarrow> probe \<Rightarrow> manager \<Rightarrow> manager" where
  "probed env ttl i pr m = (if i = llm then on_llm (\<lambda>a. snd (available env ttl pr a)) m else m)"

definition est_of :: "string \<Rightarrow> load_answers \<Rightarrow> manager \<Rightarrow> rat" where
  "est_of i an m = (if i = llm then estimate_vram (pr_files (la_probe an)) (mg_llm m) else la_est an)"

text \<open>\<open>EngineRuntime.ensure_loaded\<close> of one caller; the result is the load time in milliseconds.\<close>

definition load_begin :: "host_env \<Rightarrow> rat \<Rightarrow> string \<Rightarrow> load_answers \<Rightarrow> engine \<Rightarrow> manager
    \<Rightarrow> begin_result \<times> engine \<times> slot \<times> manager" where
  "load_begin env ttl i an e m =
     (let asked = (en_enabled e \<and> \<not> en_wedged e \<and> \<not> (engine_resident e \<and> la_ready an));
          ok = adapter_ok env ttl i (la_avail an) (la_probe an) m;
          m1 = (if asked then probed env ttl i (la_probe an) m else m);
          (r, e1, s1) = ensure_begin (la_ready an) ok (fst (la_gone an)) (snd (la_gone an)) ''serving'' (est_of i an m1)
            (la_free an) (la_now an) i e (mg_slot m1)
      in (r, e1, s1, m1))"

definition ensure_loaded :: "host_env \<Rightarrow> rat \<Rightarrow> string \<Rightarrow> load_answers \<Rightarrow> (manager, swap_exn, rat) comp" where
  "ensure_loaded env ttl i an m = (case map_of (mg_engines m) i of
      None \<Rightarrow> throw EngineError m
    | Some e \<Rightarrow>
        (let (r, e1, s1, m1) = load_begin env ttl i an (e\<lparr> en_loading := True \<rparr>) m
         in case r of
              BError \<Rightarrow> throw EngineError (put i (e1\<lparr> en_loading := False \<rparr>) s1 m1)
            | BHeld x \<Rightarrow> throw (AdmissionError x) (put i (e1\<lparr> en_loading := False \<rparr>) s1 m1)
            | BReady \<Rightarrow> ret 0 (put i (e1\<lparr> en_loading := False \<rparr>) s1 m1)
            | BProceed \<Rightarrow>
                (let m2 = (if i = llm then on_llm (spawned (la_port an)) m1 else m1);
                     (ok, e2, s2) = ensure_finish (la_spawn an) (la_wait an) (fst (la_gone2 an)) (snd (la_gone2 an))
                       (la_done an) i e1 s1;
                     m3 = put i (e2\<lparr> en_loading := False \<rparr>) s2 m2
                 in if ok then ret (py_round 1 ((la_done an - la_now an) * 1000)) m3 else throw EngineError m3)))"

text \<open>\<open>unload\<close>: whether the lock was taken and whether the child was gone after \<open>terminate\<close> and \<open>kill\<close>.\<close>

definition unload_engine :: "string \<Rightarrow> bool \<times> bool \<times> bool \<Rightarrow> (manager, swap_exn, unload_status) comp" where
  "unload_engine i u m = (case map_of (mg_engines m) i of
      None \<Rightarrow> throw EngineError m
    | Some e \<Rightarrow> (case unload (fst u) (fst (snd u)) (snd (snd u)) i e (mg_slot m) of
        (st, e', s') \<Rightarrow> ret st (put i e' s' m)))"

section \<open>The preempting swap\<close>

record swap_answers =
  sa_batch :: bool
  sa_avail :: bool
  sa_probe :: probe
  sa_unload :: "bool \<times> bool \<times> bool"
  sa_between :: "slot_event list"
  sa_load :: load_answers
  sa_gap :: "slot_event list"
  sa_reload :: load_answers

definition others :: "slot_event list \<Rightarrow> (manager, swap_exn, unit) comp" where
  "others es = modify (on_slot (fold slot_run es))"

record swap_result =
  sw_swapped :: bool
  sw_evicted :: "string option"
  sw_ms :: rat

definition probe_target :: "host_env \<Rightarrow> rat \<Rightarrow> string \<Rightarrow> engine \<Rightarrow> swap_answers \<Rightarrow> (manager, swap_exn, unit) comp" where
  "probe_target env ttl i e an =
     (if \<not> en_enabled e then throw (PreemptRefused TargetDisabled)
      else if en_wedged e then throw (PreemptRefused TargetWedged)
      else seq (gets (adapter_ok env ttl i (sa_avail an) (sa_probe an))) (\<lambda>ok.
           seq (modify (probed env ttl i (sa_probe an))) (\<lambda>_.
           if ok then ret () else throw (PreemptRefused TargetUnavailable))))"

definition rollback :: "host_env \<Rightarrow> rat \<Rightarrow> string \<Rightarrow> string \<Rightarrow> swap_answers \<Rightarrow> swap_exn \<Rightarrow> (manager, swap_exn, rat) comp" where
  "rollback env ttl target old an x =
     seq (modify (on_slot (retarget_swap target old))) (\<lambda>_.
     seq (others (sa_gap an)) (\<lambda>_.
     seq (ensuring (catch (ensure_loaded env ttl old (sa_reload an)) (\<lambda>_. ret 0)) (on_slot (end_swap old))) (\<lambda>_.
     throw x)))"

definition claim_freed :: "host_env \<Rightarrow> rat \<Rightarrow> string \<Rightarrow> string \<Rightarrow> swap_answers \<Rightarrow> (manager, swap_exn, swap_result) comp" where
  "claim_freed env ttl target old an =
     seq (others (sa_between an)) (\<lambda>_.
     seq (catch (ensure_loaded env ttl target (sa_load an)) (rollback env ttl target old an)) (\<lambda>ms.
     ret \<lparr> sw_swapped = True, sw_evicted = Some old, sw_ms = ms \<rparr>))"

definition evict_and_load :: "host_env \<Rightarrow> rat \<Rightarrow> string \<Rightarrow> string \<Rightarrow> swap_answers \<Rightarrow> (manager, swap_exn, swap_result) comp" where
  "evict_and_load env ttl target old an =
     seq (unload_engine old (sa_unload an)) (\<lambda>st.
     if st = UBusy then throw (SwapError old) else claim_freed env ttl target old an)"

definition swap_holder :: "host_env \<Rightarrow> rat \<Rightarrow> string \<Rightarrow> engine \<Rightarrow> holder \<Rightarrow> swap_answers \<Rightarrow> (manager, swap_exn, swap_result) comp" where
  "swap_holder env ttl target e h an =
     (let old = h_tenant h
      in if h_kind h \<in> {''job''} then throw (PreemptRefused (JobHolder old))
         else if sa_batch an then throw (PreemptRefused (BatchHolder old))
         else seq (gets (\<lambda>m. map_of (mg_engines m) old)) (\<lambda>rt. case rt of
             None \<Rightarrow> throw (PreemptRefused (NotSwappable old))
           | Some _ \<Rightarrow>
               seq (probe_target env ttl target e an) (\<lambda>_. evict_and_load env ttl target old an)))"

definition swap_body :: "host_env \<Rightarrow> rat \<Rightarrow> string \<Rightarrow> engine \<Rightarrow> swap_answers \<Rightarrow> (manager, swap_exn, swap_result) comp" where
  "swap_body env ttl target e an =
     seq (gets (\<lambda>m. sl_holder (mg_slot m))) (\<lambda>holder.
     case (case holder of None \<Rightarrow> None | Some h \<Rightarrow> if h_tenant h = target then None else Some h) of
       None \<Rightarrow>
         seq (others (sa_between an)) (\<lambda>_.
         seq (ensure_loaded env ttl target (sa_load an)) (\<lambda>ms.
         ret \<lparr> sw_swapped = False, sw_evicted = None, sw_ms = ms \<rparr>))
     | Some h \<Rightarrow> swap_holder env ttl target e h an)"

definition begin_transaction :: "string \<Rightarrow> (manager, swap_exn, unit) comp" where
  "begin_transaction target m = (case begin_swap target (mg_slot m) of
      Inl (Held t _) \<Rightarrow> throw (PreemptRefused (AlreadySwapping t)) m
    | Inl VramExceeded \<Rightarrow> throw (AdmissionError VramExceeded) m
    | Inr s \<Rightarrow> ret () (m\<lparr> mg_slot := s \<rparr>))"

definition preempt_for :: "host_env \<Rightarrow> rat \<Rightarrow> string \<Rightarrow> swap_answers \<Rightarrow> (manager, swap_exn, swap_result) comp" where
  "preempt_for env ttl target an =
     seq (gets (\<lambda>m. map_of (mg_engines m) target)) (\<lambda>rt. case rt of
         None \<Rightarrow> throw (PreemptRefused UnknownEngine)
       | Some e \<Rightarrow> seq (begin_transaction target) (\<lambda>_.
           ensuring (swap_body env ttl target e an) (on_slot (end_swap target))))"

section \<open>Reloading the serving language model\<close>

record reload_answers =
  rl_now :: rat
  rl_resolved :: resolved
  rl_probe :: probe
  rl_batch :: bool
  rl_swap :: swap_answers
  rl_unload :: "bool \<times> bool \<times> bool"
  rl_load :: load_answers
  rl_polls :: "probe list"
  rl_restore :: rat
  rl_reload :: load_answers

text \<open>Health polls call \<open>available()\<close> of the adapter, which rebinds it once its TTL has passed.\<close>

definition polls :: "host_env \<Rightarrow> rat \<Rightarrow> probe list \<Rightarrow> (manager, swap_exn, unit) comp" where
  "polls env ttl ps = modify (on_llm (fold (\<lambda>pr a. snd (available env ttl pr a)) ps))"

definition answer :: "string \<Rightarrow> rat \<Rightarrow> string option \<Rightarrow> (manager, swap_exn, reload_result) comp" where
  "answer status ms evicted =
     seq (gets (\<lambda>m. bound_identity (mg_llm m))) (\<lambda>i.
     ret \<lparr> rr_status = status, rr_ms = ms, rr_ident = i, rr_evicted = evicted, rr_replayed = False \<rparr>)"

definition reload_resident :: "host_env \<Rightarrow> rat \<Rightarrow> adapter \<Rightarrow> reload_answers \<Rightarrow> (manager, swap_exn, reload_result) comp" where
  "reload_resident env ttl prior an =
     seq (unload_engine llm (rl_unload an)) (\<lambda>st.
     if st = UBusy then throw (SwapError llm)
     else seq (catch (ensure_loaded env ttl llm (rl_load an)) (\<lambda>x.
            seq (modify (on_llm (restore_binding (rl_restore an) prior))) (\<lambda>_.
            seq (catch (ensure_loaded env ttl llm (rl_reload an)) (\<lambda>_. ret 0)) (\<lambda>_. throw x)))) (\<lambda>ms.
          seq (polls env ttl (rl_polls an)) (\<lambda>_. answer ''reloaded'' ms None)))"

definition reload_held :: "host_env \<Rightarrow> rat \<Rightarrow> bool \<Rightarrow> adapter \<Rightarrow> holder \<Rightarrow> reload_answers \<Rightarrow> (manager, swap_exn, reload_result) comp" where
  "reload_held env ttl preempt prior h an =
     (if h_tenant h \<noteq> llm then
        (if h_kind h \<in> {''job''} then throw (PreemptRefused (JobHolder (h_tenant h)))
         else if \<not> preempt then throw (PreemptRefused ConfirmRequired)
         else seq (preempt_for env ttl llm (rl_swap an)) (\<lambda>r.
              seq (polls env ttl (rl_polls an)) (\<lambda>_. answer ''swapped'' (sw_ms r) (sw_evicted r))))
      else seq (gets (\<lambda>m. loaded_identity (mg_llm m) = Some (bound_identity (mg_llm m)))) (\<lambda>same.
        if same then answer ''noop'' 0 None
        else if h_kind h \<in> {''job''} then throw (PreemptRefused (JobHolder llm))
        else if rl_batch an then throw (PreemptRefused (BatchHolder llm))
        else if \<not> preempt then throw (PreemptRefused ConfirmRequired)
        else reload_resident env ttl prior an))"

definition reload_serving_llm :: "host_env \<Rightarrow> rat \<Rightarrow> bool \<Rightarrow> reload_answers \<Rightarrow> (manager, swap_exn, reload_result) comp" where
  "reload_serving_llm env ttl preempt an =
     seq (gets (\<lambda>m. map_of (mg_engines m) llm)) (\<lambda>rt. case rt of
         None \<Rightarrow> throw (PreemptRefused UnknownEngine)
       | Some _ \<Rightarrow>
           seq (gets mg_llm) (\<lambda>prior.
           seq (modify (on_llm (rebind env ttl True (rl_now an) (rl_resolved an)))) (\<lambda>_.
           seq (gets (adapter_ok env ttl llm True (rl_probe an))) (\<lambda>ok.
           seq (modify (probed env ttl llm (rl_probe an))) (\<lambda>_.
           if \<not> ok then throw TargetUnresolvable
           else seq (gets (\<lambda>m. sl_holder (mg_slot m))) (\<lambda>holder. case holder of
               None \<Rightarrow> seq (ensure_loaded env ttl llm (rl_load an)) (\<lambda>ms.
                       seq (polls env ttl (rl_polls an)) (\<lambda>_. answer ''loaded'' ms None))
             | Some h \<Rightarrow> reload_held env ttl preempt prior h an))))))"

section \<open>The reload keyed by an operation\<close>

definition target_text :: "(string option \<times> string option) option \<Rightarrow> op_target" where
  "target_text t = (case t of None \<Rightarrow> (None, None) | Some (n, v) \<Rightarrow> (nonempty n, v))"

definition put_op :: "string \<Rightarrow> op_target \<Rightarrow> reload_result option \<Rightarrow> manager \<Rightarrow> manager" where
  "put_op oid want r m = m\<lparr> mg_ops := AList.update oid \<lparr> ro_target = want, ro_result = r \<rparr> (mg_ops m) \<rparr>"

definition finish_op :: "string \<Rightarrow> op_target \<Rightarrow> reload_result \<Rightarrow> (manager, swap_exn, reload_result) comp" where
  "finish_op oid want r =
     (if fst want \<noteq> None \<and> (Some (fst (rr_ident r)), snd (rr_ident r)) \<noteq> want
      then ret (r\<lparr> rr_status := ''verify_failed'' \<rparr>)
      else seq (modify (\<lambda>m. m\<lparr> mg_ops := dict_upd oid (\<lambda>rec. rec\<lparr> ro_result := Some r \<rparr>) (mg_ops m) \<rparr>)) (\<lambda>_. ret r))"

definition reload_serving_llm_op ::
  "host_env \<Rightarrow> rat \<Rightarrow> bool \<Rightarrow> string option \<Rightarrow> (string option \<times> string option) option \<Rightarrow> reload_answers
     \<Rightarrow> (manager, swap_exn, reload_result) comp" where
  "reload_serving_llm_op env ttl preempt oid target an =
     (case nonempty oid of
        None \<Rightarrow> reload_serving_llm env ttl preempt an
      | Some k \<Rightarrow>
          (let want = target_text target
           in seq (gets (\<lambda>m. map_of (mg_ops m) k)) (\<lambda>rec.
              case rec of
                Some r \<Rightarrow>
                  (if ro_target r \<noteq> want then throw OperationTargetMismatch
                   else case ro_result r of
                      Some res \<Rightarrow> ret (res\<lparr> rr_replayed := True \<rparr>)
                    | None \<Rightarrow> seq (modify (put_op k want None)) (\<lambda>_.
                        seq (reload_serving_llm env ttl preempt an) (finish_op k want)))
              | None \<Rightarrow> seq (modify (put_op k want None)) (\<lambda>_.
                  seq (reload_serving_llm env ttl preempt an) (finish_op k want)))))"

end
