(* ===== verification/SwapProps.thy ===== *)
theory SwapProps
  imports Swap
begin

text \<open>
  What a swap promises: a refusal happens before anything is evicted, a running job is never displaced, the
  reservation never outlives the transaction, no third tenant gets the slot between the eviction and the
  target's claim, and a target that fails to load gives the GPU back to the engine that had it.
\<close>

section \<open>What one engine's operations touch\<close>

definition slot_touch :: "string \<Rightarrow> slot \<Rightarrow> slot \<Rightarrow> bool" where
  "slot_touch i s s' = (sl_swap s' = sl_swap s \<and> sl_budget s' = sl_budget s \<and>
     (\<forall>h. sl_holder s = Some h \<longrightarrow> h_tenant h \<noteq> i \<longrightarrow> sl_holder s' = Some h) \<and>
     (\<forall>h. sl_holder s' = Some h \<longrightarrow> h_tenant h = i \<or> sl_holder s = Some h))"

interpretation slot_touch: kept "slot_touch i" for i
  by unfold_locales (auto simp: slot_touch_def)

lemma release_touch: "slot_touch i s (slot_release i s)"
  by (auto simp: slot_touch_def slot_release_def split: option.splits)

lemma acquire_touch: "slot_acquire i k est f n s = Inr (h, s') \<Longrightarrow> slot_touch i s s'"
  by (auto simp: slot_touch_def slot_acquire_def Let_def split: option.splits if_splits)

lemma set_child_touch: "slot_touch i s (slot_set_child i p s)"
  by (auto simp: slot_touch_def slot_set_child_def split: option.splits)

lemma teardown_touch: "slot_touch i s (snd (snd (teardown tw kw i e s)))"
  by (simp add: teardown_def slot_drop_def release_touch slot_touch.kept_refl)

lemma unload_touch: "slot_touch i s (snd (snd (unload a tw kw i e s)))"
  by (simp add: unload_def teardown_touch slot_touch.kept_refl)

lemma ensure_begin_touch: "slot_touch i s (snd (snd (ensure_begin ready avail tw kw kind est free now i e s)))"
proof -
  let ?u = "if engine_resident e then snd (unload True tw kw i e s) else (e, s)"
  have u: "slot_touch i s (snd ?u)" by (simp add: unload_touch slot_touch.kept_refl)
  show ?thesis
    by (auto simp: ensure_begin_def Let_def slot_touch.kept_refl u unload_touch case_prod_beta
        intro: slot_touch.kept_trans[OF u acquire_touch] split: sum.splits)
qed

lemma ensure_finish_touch: "slot_touch i s (snd (snd (ensure_finish spawn wait tw kw now i e s)))"
  by (auto simp: ensure_finish_def Let_def slot_touch.kept_refl set_child_touch unload_touch
      intro: slot_touch.kept_trans[OF set_child_touch unload_touch] split: option.splits wait_result.splits)

definition touches :: "string \<Rightarrow> manager \<Rightarrow> manager \<Rightarrow> bool" where
  "touches i m m' = (slot_touch i (mg_slot m) (mg_slot m') \<and> mg_ops m' = mg_ops m \<and>
     (\<forall>j. j \<noteq> i \<longrightarrow> map_of (mg_engines m') j = map_of (mg_engines m) j))"

interpretation touches: kept "touches i" for i
  by unfold_locales (auto simp: touches_def intro: slot_touch.kept_refl slot_touch.kept_trans)

lemma touches_put [simp]:
  "slot_touch i (mg_slot m) s \<Longrightarrow> mg_slot m1 = mg_slot m \<Longrightarrow> mg_ops m1 = mg_ops m \<Longrightarrow> mg_engines m1 = mg_engines m \<Longrightarrow>
   touches i m (put i e s m1)"
  by (simp add: touches_def put_def dict_simps)

lemma same_but_llm [simp]:
  "mg_slot (on_llm f m) = mg_slot m" "mg_ops (on_llm f m) = mg_ops m" "mg_engines (on_llm f m) = mg_engines m"
  "mg_slot (probed env ttl i pr m) = mg_slot m" "mg_ops (probed env ttl i pr m) = mg_ops m"
  "mg_engines (probed env ttl i pr m) = mg_engines m"
  by (simp_all add: on_llm_def probed_def)

lemma load_begin_touch:
  assumes "load_begin env ttl i an e m = (r, e1, s1, m1)"
  shows "slot_touch i (mg_slot m) s1 \<and> mg_slot m1 = mg_slot m \<and> mg_ops m1 = mg_ops m \<and> mg_engines m1 = mg_engines m"
  using assms ensure_begin_touch by (auto simp: load_begin_def Let_def split: prod.splits if_splits) (metis snd_conv)+

lemma ensure_loaded_touches: "keeps (touches i) (ensure_loaded env ttl i an)"
proof (unfold keeps_def, rule allI)
  fix m
  show "touches i m (snd (ensure_loaded env ttl i an m))"
  proof (cases "map_of (mg_engines m) i")
    case (Some e)
    obtain r e1 s1 m1 where b: "load_begin env ttl i an (e\<lparr> en_loading := True \<rparr>) m = (r, e1, s1, m1)"
      by (metis prod_cases4)
    obtain ok e2 s2 where f: "ensure_finish (la_spawn an) (la_wait an) (fst (la_gone2 an)) (snd (la_gone2 an))
        (la_done an) i e1 s1 = (ok, e2, s2)" by (metis prod_cases3)
    have t: "slot_touch i (mg_slot m) s1" "slot_touch i (mg_slot m) s2"
      using load_begin_touch[OF b] slot_touch.kept_trans ensure_finish_touch[of i s1] f by (auto, metis snd_conv)
    show ?thesis using load_begin_touch[OF b] t b f
      by (auto simp: ensure_loaded_def Some Let_def throw_def ret_def split: begin_result.splits)
  qed (simp add: ensure_loaded_def throw_def touches.kept_refl)
qed

lemma unload_engine_touches: "keeps (touches i) (unload_engine i u)"
  unfolding keeps_def unload_engine_def using unload_touch
  by (auto simp: throw_def ret_def touches.kept_refl split: option.splits prod.splits) (metis snd_conv touches_put)+

section \<open>The reservation lives exactly as long as the transaction\<close>

definition reserved :: "manager \<Rightarrow> string option" where
  "reserved m = sl_swap (mg_slot m)"

definition keeps_up :: "manager \<Rightarrow> manager \<Rightarrow> bool" where
  "keeps_up m m' = (reserved m \<noteq> None \<longrightarrow> reserved m' = reserved m)"

interpretation up: kept keeps_up
  by unfold_locales (auto simp: keeps_up_def)

lemma touches_reserved: "touches i m m' \<Longrightarrow> reserved m' = reserved m"
  by (simp add: touches_def slot_touch_def reserved_def)

lemma touches_keeps_up: "keeps (touches i) c \<Longrightarrow> keeps keeps_up c"
  unfolding keeps_def keeps_up_def using touches_reserved by blast

lemma slot_run_swap: "sl_swap s = Some t \<Longrightarrow> sl_swap (slot_run e s) = Some t"
  by (cases e) (auto simp: slot_acquire_def slot_release_def slot_set_child_def begin_swap_def
      Let_def split: sum.splits option.splits if_splits)

lemma fold_slot_run_swap: "sl_swap s = Some t \<Longrightarrow> sl_swap (fold slot_run es s) = Some t"
  by (induction es arbitrary: s) (simp_all add: slot_run_swap)

lemma keeps_up_others: "keeps keeps_up (others es)"
  by (auto simp: others_def keeps_up_def reserved_def on_slot_def fold_slot_run_swap intro!: keeps_modify)

lemma keeps_up_probed: "keeps keeps_up (modify (probed env ttl i pr))"
  by (intro keeps_modify) (simp add: keeps_up_def reserved_def)

lemma keeps_up_probe_target: "keeps keeps_up (probe_target env ttl i e an)"
  unfolding probe_target_def by (intro keeps up.keeps_rules keeps_up_probed)

lemmas keeps_up_ops = keeps_up_others keeps_up_probe_target touches_keeps_up[OF ensure_loaded_touches]
  touches_keeps_up[OF unload_engine_touches]

lemma keeps_up_wp: "keeps keeps_up c \<Longrightarrow> reserved m = Some t \<Longrightarrow> wp c (\<lambda>_ m. reserved m = Some t) (\<lambda>_ m. reserved m = Some t) m"
  by (erule keeps_wp) (simp add: keeps_up_def)

lemma reserved_on_slot: "reserved (on_slot f m) = sl_swap (f (mg_slot m))"
  by (simp add: reserved_def on_slot_def)

lemma wp_others [wp]: "wp (others es) Q E = (\<lambda>m. Q () (on_slot (fold slot_run es) m))"
  by (simp add: others_def wp)

lemma others_reserved: "reserved m = Some t \<Longrightarrow> reserved (on_slot (fold slot_run es) m) = Some t"
  unfolding reserved_on_slot by (simp add: reserved_def fold_slot_run_swap)

definition over :: "string \<Rightarrow> 'a \<Rightarrow> manager \<Rightarrow> bool" where
  "over t x m = (reserved m = Some t \<or> reserved m = None)"

lemma overI: "reserved m = Some t \<Longrightarrow> over t x m" "reserved m = None \<Longrightarrow> over t x m"
  by (simp_all add: over_def)

lemma rollback_ends:
  assumes "reserved m = Some target"
  shows "wp (rollback env ttl target old an x) (\<lambda>_ _. False) (\<lambda>_ m. reserved m = None) m"
proof -
  have ends: "reserved (on_slot (end_swap old) m2) = None" if "reserved m2 = Some old" for m2
    using that unfolding reserved_on_slot by (simp add: end_swap_def reserved_def)
  have 1: "reserved (on_slot (retarget_swap target old) m) = Some old"
    using assms unfolding reserved_on_slot by (simp add: retarget_swap_def reserved_def)
  have load: "wp (ensure_loaded env ttl old (sa_reload an)) (\<lambda>_ m. reserved (on_slot (end_swap old) m) = None)
      (\<lambda>_ m. reserved (on_slot (end_swap old) m) = None) m1" if "reserved m1 = Some old" for m1
    by (rule wp_mono[OF keeps_up_wp[OF touches_keeps_up[OF ensure_loaded_touches] that]]) (simp_all add: ends)
  show ?thesis unfolding rollback_def wp_seq wp_modify wp_ensuring wp_catch wp_ret wp_throw wp_others
    by (rule load) (rule others_reserved[OF 1])
qed

lemma claim_freed_ends:
  assumes "reserved m = Some target"
  shows "wp (claim_freed env ttl target old an) (\<lambda>_ m. reserved m = Some target) (over target) m"
  unfolding claim_freed_def wp_seq wp_catch wp_ret wp_others
  by (rule wp_mono[OF keeps_up_wp[OF touches_keeps_up[OF ensure_loaded_touches] others_reserved[OF assms]]])
    (auto intro!: wp_mono[OF rollback_ends] simp: over_def)

lemma evict_and_load_ends:
  assumes "reserved m = Some target"
  shows "wp (evict_and_load env ttl target old an) (\<lambda>_ m. reserved m = Some target) (over target) m"
  unfolding evict_and_load_def wp_seq
  by (rule wp_mono[OF keeps_up_wp[OF touches_keeps_up[OF unload_engine_touches] assms]])
    (auto simp: wp_throw intro!: wp_ifI claim_freed_ends overI(1))

lemma swap_holder_ends:
  assumes "reserved m = Some target"
  shows "wp (swap_holder env ttl target e h an) (\<lambda>_ m. reserved m = Some target) (over target) m"
proof (cases "map_of (mg_engines m) (h_tenant h)")
  case (Some rt)
  have "wp (probe_target env ttl target e an) (\<lambda>_. wp (evict_and_load env ttl target (h_tenant h) an)
      (\<lambda>_ m. reserved m = Some target) (over target)) (over target) m"
    by (rule wp_mono[OF keeps_up_wp[OF keeps_up_probe_target assms]]) (auto intro: evict_and_load_ends overI(1))
  then show ?thesis unfolding swap_holder_def Let_def
    by (intro wp_ifI) (simp_all add: wp_seq wp_gets wp_throw over_def assms Some)
qed (simp add: swap_holder_def Let_def wp over_def assms)

lemma swap_body_ends:
  assumes "reserved m = Some target"
  shows "wp (swap_body env ttl target e an) (\<lambda>_ m. reserved m = Some target) (over target) m"
proof (cases "case sl_holder (mg_slot m) of None \<Rightarrow> None | Some h \<Rightarrow> if h_tenant h = target then None else Some h")
  case None
  have "wp (ensure_loaded env ttl target (sa_load an)) (\<lambda>_ m. reserved m = Some target) (over target)
      (on_slot (fold slot_run (sa_between an)) m)"
    by (rule wp_mono[OF keeps_up_wp[OF touches_keeps_up[OF ensure_loaded_touches] others_reserved[OF assms]]])
      (simp_all add: over_def)
  then show ?thesis using None by (simp add: swap_body_def wp)
next
  case (Some h)
  then show ?thesis using swap_holder_ends[OF assms] by (simp add: swap_body_def wp)
qed

lemma transaction_wp:
  "wp (begin_transaction target) Q E m =
     (case reserved m of Some t \<Rightarrow> E (PreemptRefused (AlreadySwapping t)) m
      | None \<Rightarrow> Q () (m\<lparr> mg_slot := (mg_slot m)\<lparr> sl_swap := Some target \<rparr> \<rparr>))"
  by (simp add: begin_transaction_def begin_swap_def reserved_def wp_def throw_def ret_def split: option.splits)

text \<open>A swap never leaks its reservation: however it ends (swapped, refused, failed, rolled back), and
  whatever other threads did to the slot meanwhile, the reservation afterwards is the one before.\<close>

theorem swap_returns_the_reservation:
  "reserved (snd (preempt_for env ttl target an m)) = reserved m"
proof -
  have "wp (preempt_for env ttl target an) (\<lambda>_ m'. reserved m' = reserved m) (\<lambda>_ m'. reserved m' = reserved m) m"
  proof (cases "map_of (mg_engines m) target"; cases "reserved m")
    fix e assume e: "map_of (mg_engines m) target = Some e" "reserved m = None"
    let ?m = "m\<lparr> mg_slot := (mg_slot m)\<lparr> sl_swap := Some target \<rparr> \<rparr>"
    have ends: "over target x m' \<Longrightarrow> reserved (on_slot (end_swap target) m') = None" for x :: unit and m'
      unfolding reserved_on_slot by (auto simp: over_def end_swap_def reserved_def)
    have "wp (swap_body env ttl target e an) (\<lambda>_ m'. reserved (on_slot (end_swap target) m') = None)
        (\<lambda>_ m'. reserved (on_slot (end_swap target) m') = None) ?m"
      by (rule wp_mono[OF swap_body_ends]) (auto simp: reserved_def over_def intro: ends[of "()", unfolded over_def reserved_def])
    then show ?thesis using e by (simp add: preempt_for_def wp transaction_wp)
  qed (simp_all add: preempt_for_def wp transaction_wp)
  then show ?thesis by (simp add: wp_snd)
qed

section \<open>A refusal changes nothing\<close>

definition same_gpu :: "manager \<Rightarrow> manager \<Rightarrow> bool" where
  "same_gpu m m' = (mg_engines m' = mg_engines m \<and> mg_slot m' = mg_slot m)"

fun refused :: "swap_exn \<Rightarrow> bool" where
  "refused (PreemptRefused _) = True"
| "refused TargetUnresolvable = True"
| "refused OperationTargetMismatch = True"
| "refused _ = False"

lemma same_gpu_simps [simp]:
  "same_gpu m m" "same_gpu m (on_llm f m') = same_gpu m m'" "same_gpu m (probed env ttl i pr m') = same_gpu m m'"
  by (simp_all add: same_gpu_def)

text \<open>What follows an eviction fails with other exceptions.\<close>

lemma load_not_refused: "wp (ensure_loaded env ttl i an) (\<lambda>_ _. True) (\<lambda>x _. \<not> refused x) m"
  by (auto simp: wp_def ensure_loaded_def throw_def ret_def Let_def split: option.splits prod.splits begin_result.splits sum.splits)

lemma unload_not_refused: "wp (unload_engine i u) (\<lambda>_ _. True) (\<lambda>x _. \<not> refused x) m"
  by (auto simp: wp_def unload_engine_def throw_def ret_def split: option.splits prod.splits)

lemma rollback_not_refused:
  assumes "\<not> refused x"
  shows "wp (rollback env ttl target old an x) (\<lambda>_ _. True) (\<lambda>x _. \<not> refused x) m"
  unfolding rollback_def wp_seq wp_modify wp_ensuring wp_catch wp_ret wp_throw wp_others
  by (rule wp_mono[OF wp_triv]) (use assms in simp_all)

lemma claim_freed_not_refused: "wp (claim_freed env ttl target old an) (\<lambda>_ _. True) (\<lambda>x _. \<not> refused x) m"
  unfolding claim_freed_def wp_seq wp_catch wp_ret wp_others
  by (rule wp_mono[OF load_not_refused]) (auto intro: wp_mono[OF rollback_not_refused])

lemma evict_not_refused: "wp (evict_and_load env ttl target old an) (\<lambda>_ _. True) (\<lambda>x _. \<not> refused x) m"
  unfolding evict_and_load_def wp_seq
  by (rule wp_mono[OF unload_not_refused]) (auto simp: wp_throw intro!: wp_ifI claim_freed_not_refused)

lemma probe_target_same: "wp (probe_target env ttl target e an) (\<lambda>_. same_gpu m) (\<lambda>_. same_gpu m) m"
  by (simp add: probe_target_def wp)

text \<open>An exception that is a refusal leaves the GPU as it was.\<close>

definition untouched :: "manager \<Rightarrow> swap_exn \<Rightarrow> manager \<Rightarrow> bool" where
  "untouched m x m' = (refused x \<longrightarrow> same_gpu m m')"

lemma untouched_same [simp]: "untouched m x m"
  by (simp add: untouched_def)

lemma swap_body_refuses: "wp (swap_body env ttl target e an) (\<lambda>_ _. True) (untouched m) m"
proof (cases "case sl_holder (mg_slot m) of None \<Rightarrow> None | Some h \<Rightarrow> if h_tenant h = target then None else Some h")
  case None
  have "wp (ensure_loaded env ttl target (sa_load an)) (\<lambda>_ _. True) (untouched m) (on_slot (fold slot_run (sa_between an)) m)"
    by (rule wp_mono[OF load_not_refused]) (simp_all add: untouched_def)
  then show ?thesis using None by (simp add: swap_body_def wp)
next
  case (Some h)
  have "wp (probe_target env ttl target e an) (\<lambda>_. wp (evict_and_load env ttl target (h_tenant h) an) (\<lambda>_ _. True) (untouched m))
      (untouched m) m"
    by (rule wp_mono[OF probe_target_same])
      (auto simp: untouched_def intro: wp_mono[OF evict_not_refused])
  then have "wp (swap_holder env ttl target e h an) (\<lambda>_ _. True) (untouched m) m" unfolding swap_holder_def Let_def
    by (intro wp_ifI) (simp_all add: wp_seq wp_gets wp_throw untouched_def split: option.splits)
  then show ?thesis using Some by (simp add: swap_body_def wp)
qed

lemma swap_refusal_wp: "wp (preempt_for env ttl target an) (\<lambda>_ _. True) (untouched m) m"
proof (cases "map_of (mg_engines m) target"; cases "reserved m")
  fix e assume e: "map_of (mg_engines m) target = Some e" "reserved m = None"
  let ?m = "m\<lparr> mg_slot := (mg_slot m)\<lparr> sl_swap := Some target \<rparr> \<rparr>"
  have "untouched ?m x m' \<Longrightarrow> untouched m x (on_slot (end_swap target) m')" for x m'
    using e(2) by (auto simp: untouched_def same_gpu_def on_slot_def end_swap_def reserved_def)
  then have "wp (swap_body env ttl target e an) (\<lambda>_ _. True) (\<lambda>x m'. untouched m x (on_slot (end_swap target) m')) ?m"
    by (intro wp_mono[OF swap_body_refuses]) simp_all
  then show ?thesis using e by (simp add: preempt_for_def wp transaction_wp)
qed (simp_all add: preempt_for_def wp transaction_wp untouched_def)

lemma wp_answer: "wp (answer status ms ev) Q E m = Q \<lparr> rr_status = status, rr_ms = ms,
    rr_ident = bound_identity (mg_llm m), rr_evicted = ev, rr_replayed = False \<rparr> m"
  by (simp add: answer_def wp)

lemma reload_resident_refuses: "wp (reload_resident env ttl prior an) (\<lambda>_ _. True) (\<lambda>x _. \<not> refused x) m"
proof -
  have load: "wp (seq (catch (ensure_loaded env ttl llm (rl_load an)) (\<lambda>x.
      seq (modify (on_llm (restore_binding (rl_restore an) prior))) (\<lambda>_.
      seq (catch (ensure_loaded env ttl llm (rl_reload an)) (\<lambda>_. ret 0)) (\<lambda>_. throw x)))) (\<lambda>ms.
    seq (polls env ttl (rl_polls an)) (\<lambda>_. answer ''reloaded'' ms None))) (\<lambda>_ _. True) (\<lambda>x _. \<not> refused x) m1" for m1
    unfolding wp_seq wp_catch wp_modify
    by (rule wp_mono[OF load_not_refused]) (simp_all add: polls_def wp wp_answer wp_triv)
  show ?thesis unfolding reload_resident_def wp_seq[where m = "unload_engine llm (rl_unload an)"]
    by (rule wp_mono[OF unload_not_refused]) (auto simp: wp_throw intro!: wp_ifI load)
qed

lemma reload_held_refuses: "wp (reload_held env ttl preempt prior h an) (\<lambda>_ _. True) (untouched m) m"
proof -
  have swap: "wp (seq (preempt_for env ttl llm (rl_swap an)) (\<lambda>r.
      seq (polls env ttl (rl_polls an)) (\<lambda>_. answer ''swapped'' (sw_ms r) (sw_evicted r)))) (\<lambda>_ _. True) (untouched m) m"
    unfolding wp_seq by (rule wp_mono[OF swap_refusal_wp]) (simp_all add: polls_def wp wp_answer)
  have resident: "wp (reload_resident env ttl prior an) (\<lambda>_ _. True) (untouched m) m"
    by (rule wp_mono[OF reload_resident_refuses]) (simp_all add: untouched_def)
  show ?thesis unfolding reload_held_def
    by (intro wp_ifI swap)
      (auto simp: wp_throw wp_seq wp_gets wp_answer intro!: wp_ifI resident)
qed

lemma reload_refusal_wp: "wp (reload_serving_llm env ttl preempt an) (\<lambda>_ _. True) (untouched m) m"
proof (cases "map_of (mg_engines m) llm")
  case (Some e)
  let ?m = "probed env ttl llm (rl_probe an) (on_llm (rebind env ttl True (rl_now an) (rl_resolved an)) m)"
  have lift: "untouched ?m x m' = untouched m x m'" for x m' by (simp add: untouched_def same_gpu_def)
  have load: "wp (seq (ensure_loaded env ttl llm (rl_load an)) (\<lambda>ms.
      seq (polls env ttl (rl_polls an)) (\<lambda>_. answer ''loaded'' ms None))) (\<lambda>_ _. True) (untouched m) ?m"
    unfolding wp_seq by (rule wp_mono[OF load_not_refused]) (simp_all add: polls_def wp wp_answer untouched_def)
  have held: "wp (reload_held env ttl preempt (mg_llm m) h an) (\<lambda>_ _. True) (untouched m) ?m" for h
    using reload_held_refuses[of env ttl preempt "mg_llm m" h an ?m] by (rule wp_mono) (simp_all add: lift)
  show ?thesis using Some load held
    by (auto simp: reload_serving_llm_def wp_seq wp_gets wp_modify wp_throw untouched_def wp_ret
        intro!: wp_ifI split: option.splits)
qed (simp add: reload_serving_llm_def wp untouched_def)

text \<open>A refused swap or reload evicts nobody: every refusal, the unresolvable target and the missing
  confirmation included, leaves the engines and the slot as they were.\<close>

theorem refusals_evict_nobody:
  "(fst (preempt_for env ttl target an m) = Inl x \<longrightarrow> refused x \<longrightarrow> same_gpu m (snd (preempt_for env ttl target an m))) \<and>
   (fst (reload_serving_llm env ttl preempt rn m) = Inl y \<longrightarrow> refused y \<longrightarrow>
      same_gpu m (snd (reload_serving_llm env ttl preempt rn m)))"
  using swap_refusal_wp[of env ttl target an m] reload_refusal_wp[of env ttl preempt rn m]
  by (auto simp: wp_def untouched_def split: prod.splits sum.splits)

section \<open>Running work is never displaced\<close>

text \<open>The slot is held by a job, or by an engine that a GPU batch drives.\<close>

definition working :: "holder \<Rightarrow> swap_answers \<Rightarrow> reload_answers \<Rightarrow> bool" where
  "working h an rn = (h_kind h = ''job'' \<or> sa_batch an \<and> rl_batch rn \<and> sa_batch (rl_swap rn))"

lemma swap_spares_work:
  assumes "sl_holder (mg_slot m) = Some h" "h_kind h = ''job'' \<or> sa_batch an" "h_tenant h \<noteq> target"
  shows "wp (preempt_for env ttl target an) (\<lambda>_ _. False) (\<lambda>x m'. refused x \<and> same_gpu m m') m"
proof (cases "map_of (mg_engines m) target"; cases "reserved m")
  fix e assume e: "map_of (mg_engines m) target = Some e" "reserved m = None"
  have undone: "same_gpu m (on_slot (end_swap target) (m\<lparr> mg_slot := (mg_slot m)\<lparr> sl_swap := Some target \<rparr> \<rparr>))"
    using e(2) by (simp add: same_gpu_def on_slot_def end_swap_def reserved_def)
  show ?thesis using e assms undone
    by (auto simp: preempt_for_def swap_body_def swap_holder_def Let_def wp transaction_wp)
qed (simp_all add: preempt_for_def wp transaction_wp)

text \<open>Claim C24.  Running work is never displaced: while a job, or a GPU batch, has the slot, no swap to another
  engine and no reload of the language model changes an engine or the slot, whatever it is asked
  with; and such a swap is refused.\<close>

theorem running_work_is_never_displaced:
  assumes "sl_holder (mg_slot m) = Some h" "working h an rn" "h_tenant h \<noteq> target"
  shows "same_gpu m (snd (preempt_for env ttl target an m)) \<and> same_gpu m (snd (reload_serving_llm env ttl preempt rn m)) \<and>
    (\<exists>x. fst (preempt_for env ttl target an m) = Inl x \<and> refused x)"
proof -
  have swap: "wp (preempt_for env ttl target an) (\<lambda>_ _. False) (\<lambda>x m'. refused x \<and> same_gpu m m') m"
    by (rule swap_spares_work) (use assms in \<open>auto simp: working_def\<close>)
  have held: "wp (reload_held env ttl preempt prior h rn) (\<lambda>_. same_gpu m) (\<lambda>_. same_gpu m) m1"
    if m1: "same_gpu m m1" for prior m1
  proof -
    have "wp (preempt_for env ttl llm (rl_swap rn)) (\<lambda>_ _. False) (\<lambda>x m'. refused x \<and> same_gpu m1 m') m1"
      if "h_tenant h \<noteq> llm"
      by (rule swap_spares_work[OF _ _ that]) (use assms m1 in \<open>auto simp: working_def same_gpu_def\<close>)
    then have "wp (preempt_for env ttl llm (rl_swap rn)) (\<lambda>r. wp (polls env ttl (rl_polls rn))
        (\<lambda>_. wp (answer ''swapped'' (sw_ms r) (sw_evicted r)) (\<lambda>_. same_gpu m) (\<lambda>_. same_gpu m)) (\<lambda>_. same_gpu m)) (\<lambda>_. same_gpu m) m1"
      if "h_tenant h \<noteq> llm"
      by (rule wp_mono) (use that m1 in \<open>auto simp: same_gpu_def\<close>)
    then show ?thesis using assms(2) m1
      by (auto simp: reload_held_def wp_seq wp_gets wp_throw wp_answer working_def)
  qed
  have "wp (reload_serving_llm env ttl preempt rn) (\<lambda>_. same_gpu m) (\<lambda>_. same_gpu m) m"
    using assms(1) by (auto simp: reload_serving_llm_def wp intro!: held split: option.splits)
  then show ?thesis using swap by (auto simp: wp_def split: prod.splits sum.splits)
qed

section \<open>No third tenant gets in between\<close>

text \<open>Slot events of other threads that do not act for the tenant \<open>t\<close>.\<close>

fun third :: "string \<Rightarrow> slot_event \<Rightarrow> bool" where
  "third t (EvAcquire u _ _ _ _) = (u \<noteq> t)"
| "third t (EvRelease u) = (u \<noteq> t)"
| "third t (EvSetChild u _) = (u \<noteq> t)"
| "third t (EvBeginSwap _) = True"

lemma third_shut_out:
  "sl_swap s = Some t \<Longrightarrow> sl_holder s = None \<Longrightarrow> third t e \<Longrightarrow> slot_run e s = s"
  by (cases e) (auto simp: slot_acquire_def slot_release_def slot_set_child_def begin_swap_def)

lemma thirds_shut_out:
  "sl_swap s = Some t \<Longrightarrow> sl_holder s = None \<Longrightarrow> list_all (third t) es \<Longrightarrow> fold slot_run es s = s"
  by (induction es) (simp_all add: third_shut_out)

text \<open>An engine that is cold, usable and fits, and whose child starts and becomes ready.\<close>

definition fits_slot :: "rat \<Rightarrow> rat option \<Rightarrow> slot \<Rightarrow> bool" where
  "fits_slot est free s = (case free of Some f \<Rightarrow> est \<le> f | None \<Rightarrow> est \<le> sl_budget s * BUDGET_SAFETY)"

definition load_succeeds :: "host_env \<Rightarrow> rat \<Rightarrow> string \<Rightarrow> load_answers \<Rightarrow> engine \<Rightarrow> manager \<Rightarrow> bool" where
  "load_succeeds env ttl i an e m =
     (en_gpu e \<and> en_enabled e \<and> \<not> en_wedged e \<and> \<not> engine_resident e \<and> adapter_ok env ttl i (la_avail an) (la_probe an) m \<and>
      fits_slot (est_of i an (probed env ttl i (la_probe an) m)) (la_free an) (mg_slot m) \<and>
      la_spawn an \<noteq> None \<and> wait_ready (en_ready_wait e) 0 (la_wait an) 0 = WReady)"

definition runs :: "string \<Rightarrow> manager \<Rightarrow> bool" where
  "runs i m = (case map_of (mg_engines m) i of None \<Rightarrow> False | Some e \<Rightarrow> engine_resident e \<and> holds (mg_slot m) i)"

lemma engine_resident_simps [simp]:
  "engine_resident (e\<lparr> en_loading := b \<rparr>) = engine_resident e" "engine_resident (e\<lparr> en_last_used := t \<rparr>) = engine_resident e"
  "engine_resident (e\<lparr> en_child := c \<rparr>) = (case c of None \<Rightarrow> False | Some (_, alive) \<Rightarrow> alive)"
  by (simp_all add: engine_resident_def)

lemma acquire_free:
  assumes "sl_holder s = None" "sl_swap s = None \<or> sl_swap s = Some i" "fits_slot est free s"
  shows "\<exists>h s'. slot_acquire i k est free now s = Inr (h, s') \<and> holds s' i"
  using assms by (auto simp: slot_acquire_def Let_def fits_slot_def holds_def not_le split: option.splits)

lemma load_works:
  assumes "map_of (mg_engines m) i = Some e" "load_succeeds env ttl i an e m"
    and "sl_holder (mg_slot m) = None" "reserved m = None \<or> reserved m = Some i"
  shows "wp (ensure_loaded env ttl i an) (\<lambda>_. runs i) (\<lambda>_ _. False) m"
proof -
  let ?m1 = "probed env ttl i (la_probe an) m"
  obtain h s1 where acq: "slot_acquire i ''serving'' (est_of i an ?m1) (la_free an) (la_now an) (mg_slot m) = Inr (h, s1)" "holds s1 i"
    using acquire_free[of "mg_slot m" i "est_of i an ?m1" "la_free an" "''serving''" "la_now an"] assms
    by (auto simp: load_succeeds_def reserved_def)
  have loading: "load_begin env ttl i an (e\<lparr> en_loading := True \<rparr>) m = (BProceed, e\<lparr> en_loading := True \<rparr>, s1, ?m1)"
    using assms(2) acq by (simp add: load_begin_def ensure_begin_def load_succeeds_def Let_def)
  obtain pid where pid: "la_spawn an = Some pid" using assms(2) by (auto simp: load_succeeds_def)
  show ?thesis
    using assms(1,2) loading acq(2) pid
    by (simp add: wp_def ensure_loaded_def ensure_finish_def load_succeeds_def Let_def ret_def runs_def put_def dict_simps
        adm.set_child_owns)
qed

text \<open>A load that fails, with a child that can be stopped, leaves the slot free.\<close>

lemma failed_finish_frees:
  assumes "ensure_finish sp w tw kw now i e s = (False, e', s')" "en_gpu e" "holds s i" "tw \<or> kw"
  shows "sl_holder s' = None"
proof -
  have rel: "holds s i \<Longrightarrow> sl_holder (slot_release i s) = None" for s
    by (auto simp: slot_release_def holds_def split: option.splits)
  show ?thesis
    using assms by (auto simp: ensure_finish_def unload_def teardown_def slot_drop_def Let_def engine_resident_def
        rel adm.set_child_owns split: option.splits wait_result.splits if_splits)
qed

lemma failed_load_frees:
  assumes "map_of (mg_engines m) i = Some e" "en_gpu e" "\<not> engine_resident e" "sl_holder (mg_slot m) = None"
    and "fst (la_gone2 an) \<or> snd (la_gone2 an)"
  shows "wp (ensure_loaded env ttl i an) (\<lambda>_ _. True) (\<lambda>_ m'. sl_holder (mg_slot m') = None) m"
proof (cases "load_begin env ttl i an (e\<lparr> en_loading := True \<rparr>) m")
  case (fields r e1 s1 m1)
  have s1: "r \<noteq> BProceed \<longrightarrow> s1 = mg_slot m" "r = BProceed \<longrightarrow> holds s1 i \<and> en_gpu e1"
    using fields assms(2,3) by (auto simp: load_begin_def ensure_begin_def Let_def dest: adm.acquire_owns
        split: if_splits sum.splits)
  show ?thesis using assms(1,4,5) fields s1
    by (auto simp: wp_def ensure_loaded_def throw_def ret_def Let_def put_def dest: failed_finish_frees
        split: begin_result.splits prod.splits)
qed

lemma adapter_put [simp]:
  "adapter_ok env ttl i a pr (put j e s m) = adapter_ok env ttl i a pr m"
  "mg_llm (put j e s m) = mg_llm m" "mg_slot (put j e s m) = s"
  by (simp_all add: adapter_ok_def put_def)

lemma load_succeeds_put:
  "sl_budget s = sl_budget (mg_slot m) \<Longrightarrow> load_succeeds env ttl i an e (put j e' s m) = load_succeeds env ttl i an e m"
  by (simp add: load_succeeds_def fits_slot_def est_of_def probed_def on_llm_def put_def adapter_ok_def cong: option.case_cong)

text \<open>A swap that is allowed to evict: who holds the slot, the target's probe, and the answers of the holder's
  teardown.\<close>

definition may_evict :: "host_env \<Rightarrow> rat \<Rightarrow> string \<Rightarrow> swap_answers \<Rightarrow> holder \<Rightarrow> engine \<Rightarrow> engine \<Rightarrow> manager \<Rightarrow> bool" where
  "may_evict env ttl target an h e eo m =
     (sl_holder (mg_slot m) = Some h \<and> h_tenant h \<noteq> target \<and> h_kind h \<noteq> ''job'' \<and> \<not> sa_batch an \<and> reserved m = None \<and>
      map_of (mg_engines m) target = Some e \<and> map_of (mg_engines m) (h_tenant h) = Some eo \<and> en_gpu eo \<and>
      en_enabled e \<and> \<not> en_wedged e \<and> adapter_ok env ttl target (sa_avail an) (sa_probe an) m \<and>
      (fst (sa_unload an) \<or> \<not> en_loading eo) \<and> (fst (snd (sa_unload an)) \<or> snd (snd (sa_unload an))) \<and>
      list_all (third target) (sa_between an))"

definition unloaded :: "engine \<Rightarrow> engine" where
  "unloaded e = e\<lparr> en_child := None, en_wedged := False \<rparr>"

definition evicted :: "host_env \<Rightarrow> rat \<Rightarrow> string \<Rightarrow> swap_answers \<Rightarrow> holder \<Rightarrow> engine \<Rightarrow> manager \<Rightarrow> manager" where
  "evicted env ttl target an h eo m =
     put (h_tenant h) (unloaded eo) ((mg_slot m)\<lparr> sl_swap := Some target, sl_holder := None \<rparr>)
       (probed env ttl target (sa_probe an) m)"

lemma unload_frees:
  assumes "en_gpu e" "fst u \<or> \<not> en_loading e" "fst (snd u) \<or> snd (snd u)" "sl_holder s = Some h" "h_tenant h = i"
  shows "\<exists>st. unload (fst u) (fst (snd u)) (snd (snd u)) i e s = (st, unloaded e, s\<lparr> sl_holder := None \<rparr>) \<and> st \<noteq> UBusy"
  using assms by (auto simp: unload_def teardown_def slot_drop_def slot_release_def unloaded_def)

lemma swap_evicts:
  assumes "may_evict env ttl target an h e eo m"
  shows "wp (preempt_for env ttl target an) Q E m =
    wp (ensuring (claim_freed env ttl target (h_tenant h) an) (on_slot (end_swap target))) Q E (evicted env ttl target an h eo m)"
proof -
  let ?m1 = "m\<lparr> mg_slot := (mg_slot m)\<lparr> sl_swap := Some target \<rparr> \<rparr>"
  let ?m2 = "probed env ttl target (sa_probe an) ?m1"
  obtain st where st: "unload (fst (sa_unload an)) (fst (snd (sa_unload an))) (snd (snd (sa_unload an))) (h_tenant h) eo (mg_slot ?m2)
      = (st, unloaded eo, (mg_slot ?m2)\<lparr> sl_holder := None \<rparr>)" "st \<noteq> UBusy"
    using unload_frees[of eo "sa_unload an" "mg_slot ?m2" h] assms by (auto simp: may_evict_def)
  have put: "put (h_tenant h) (unloaded eo) ((mg_slot ?m2)\<lparr> sl_holder := None \<rparr>) ?m2 = evicted env ttl target an h eo m"
    by (simp add: evicted_def put_def probed_def on_llm_def)
  have un: "wp (unload_engine (h_tenant h) (sa_unload an)) Q' E' ?m2 = Q' st (evicted env ttl target an h eo m)" for Q' E'
    using assms st(1) unfolding put[symmetric] by (simp add: wp_def unload_engine_def may_evict_def ret_def)
  show ?thesis
    using assms st(2)
    by (simp add: preempt_for_def swap_body_def swap_holder_def probe_target_def evict_and_load_def Let_def wp transaction_wp un
        may_evict_def adapter_ok_def cong: if_cong)
qed

lemma evicted_simps [simp]:
  "sl_holder (mg_slot (evicted env ttl target an h eo m)) = None"
  "reserved (evicted env ttl target an h eo m) = Some target"
  "mg_slot (evicted env ttl target an h eo m) = (mg_slot m)\<lparr> sl_swap := Some target, sl_holder := None \<rparr>"
  by (simp_all add: evicted_def reserved_def)

lemma evicted_engines:
  "map_of (mg_engines (evicted env ttl target an h eo m)) j =
     (if j = h_tenant h then Some (unloaded eo) else map_of (mg_engines m) j)"
  by (simp add: evicted_def put_def dict_simps)

lemma evicted_thirds:
  assumes "list_all (third target) es"
  shows "on_slot (fold slot_run es) (evicted env ttl target an h eo m) = evicted env ttl target an h eo m"
  using thirds_shut_out[of "mg_slot (evicted env ttl target an h eo m)" target es] assms
  by (simp add: on_slot_def)

text \<open>Claim C22.  A swap gets the GPU: between the eviction and the target's claim other threads may do to the slot what
  they like; when the target passed its probe, fits and starts, it ends up running on the slot, the evicted
  engine is cold, and the reservation is gone.\<close>

theorem swap_takes_the_gpu:
  assumes "may_evict env ttl target an h e eo m"
    and "load_succeeds env ttl target (sa_load an) e (probed env ttl target (sa_probe an) m)"
  shows "case preempt_for env ttl target an m of
      (Inl x, m') \<Rightarrow> False
    | (Inr r, m') \<Rightarrow> sw_swapped r \<and> sw_evicted r = Some (h_tenant h) \<and> runs target m' \<and>
        map_of (mg_engines m') (h_tenant h) = Some (unloaded eo) \<and> reserved m' = None"
proof -
  let ?old = "h_tenant h" and ?m = "evicted env ttl target an h eo m"
  have ne: "?old \<noteq> target" and e: "map_of (mg_engines m) target = Some e" and third: "list_all (third target) (sa_between an)"
    using assms(1) by (auto simp: may_evict_def)
  have ok: "load_succeeds env ttl target (sa_load an) e ?m"
    unfolding evicted_def using assms(2) by (subst load_succeeds_put) simp_all
  have load: "wp (ensure_loaded env ttl target (sa_load an)) (\<lambda>_ m'. runs target m' \<and> touches target ?m m') (\<lambda>x m'. False \<and> touches target ?m m') ?m"
    by (rule wp_conj[OF load_works keeps_wp[OF ensure_loaded_touches]]) (use e ok ne in \<open>auto simp: evicted_engines\<close>)
  have "wp (claim_freed env ttl target ?old an) (\<lambda>r m'. sw_swapped r \<and> sw_evicted r = Some ?old \<and> runs target m' \<and> touches target ?m m')
      (\<lambda>_ _. False) ?m"
    unfolding claim_freed_def wp_seq wp_catch wp_others evicted_thirds[OF third]
    by (rule wp_mono[OF load]) (simp_all add: wp)
  then have "wp (ensuring (claim_freed env ttl target ?old an) (on_slot (end_swap target)))
      (\<lambda>r m'. sw_swapped r \<and> sw_evicted r = Some ?old \<and> runs target m' \<and>
        map_of (mg_engines m') ?old = Some (unloaded eo) \<and> reserved m' = None) (\<lambda>_ _. False) ?m"
    unfolding wp_ensuring
    by (rule wp_mono) (use ne in \<open>auto simp: runs_def touches_def slot_touch_def on_slot_def end_swap_def reserved_def holds_def evicted_engines
        split: option.splits\<close>)
  then show ?thesis unfolding swap_evicts[OF assms(1), symmetric] by (simp add: wp_def split: prod.splits sum.splits)
qed

lemma load_succeeds_cong:
  assumes "sl_budget (mg_slot m') = sl_budget (mg_slot m)" "i = llm \<longrightarrow> mg_llm m' = mg_llm m"
  shows "load_succeeds env ttl i an e m' = load_succeeds env ttl i an e m"
  using assms by (simp add: load_succeeds_def fits_slot_def est_of_def probed_def on_llm_def adapter_ok_def cong: option.case_cong)

lemma load_keeps_llm: "i \<noteq> llm \<Longrightarrow> mg_llm (snd (ensure_loaded env ttl i an m)) = mg_llm m"
  by (auto simp: ensure_loaded_def load_begin_def Let_def throw_def ret_def probed_def
      split: option.splits prod.splits begin_result.splits)


end
