(* ===== verification/ReloadOps.thy ===== *)
theory ReloadOps
  imports SwapProps
begin

text \<open>
  The reload of the serving language model keyed by an operation: what a stored result means, when the reported model is
  the one that runs, and two interleavings with a health poll in which it is not.
\<close>

section \<open>The operation store\<close>

definition same_ops :: "manager \<Rightarrow> manager \<Rightarrow> bool" where
  "same_ops m m' = (mg_ops m' = mg_ops m)"

interpretation ops: kept same_ops
  by unfold_locales (auto simp: same_ops_def)

lemma touches_ops: "keeps (touches i) c \<Longrightarrow> keeps same_ops c"
  by (simp add: keeps_def touches_def same_ops_def)

lemma modify_ops: "(\<And>m. mg_ops (f m) = mg_ops m) \<Longrightarrow> keeps same_ops (modify f)"
  by (rule keeps_modify) (simp add: same_ops_def)

lemma on_slot_ops [simp]: "mg_ops (on_slot f m) = mg_ops m"
  by (simp add: on_slot_def)

lemma ensuring_ops: "keeps same_ops c \<Longrightarrow> (\<And>m. mg_ops (f m) = mg_ops m) \<Longrightarrow> keeps same_ops (ensuring c f)"
  unfolding keeps_def ensuring_def same_ops_def by (simp split: prod.splits) (metis snd_conv)

lemma begin_ops: "keeps same_ops (begin_transaction target)"
  by (auto simp: keeps_def begin_transaction_def same_ops_def throw_def ret_def split: sum.splits adm_error.splits)

lemmas load_ops = touches_ops[OF ensure_loaded_touches] touches_ops[OF unload_engine_touches]

lemmas ops_rules = keeps ops.keeps_rules ensuring_ops begin_ops modify_ops load_ops

lemma preempt_ops: "keeps same_ops (preempt_for env ttl target an)"
  unfolding preempt_for_def swap_body_def swap_holder_def probe_target_def evict_and_load_def claim_freed_def rollback_def others_def Let_def
  by (intro ops_rules) simp_all

lemma reload_ops: "keeps same_ops (reload_serving_llm env ttl preempt an)"
  unfolding reload_serving_llm_def reload_held_def reload_resident_def answer_def polls_def
  by (intro ops_rules preempt_ops) simp_all

lemma fresh_op_run:
  assumes "reload_serving_llm env ttl preempt an (put_op k want None m) = (Inr r, m1)"
    and "finish_op k want r m1 = (Inr r', m')" "rr_status r' \<noteq> ''verify_failed''"
  shows "map_of (mg_ops m') k = Some \<lparr> ro_target = want, ro_result = Some r' \<rparr>"
proof -
  have "mg_ops m1 = mg_ops (put_op k want None m)"
    using keepsD[OF reload_ops[of env ttl preempt an], of "put_op k want None m"] assms(1) by (simp add: same_ops_def)
  then show ?thesis using assms(2,3)
    by (auto simp: finish_op_def ret_def seq_def modify_def put_op_def dict_simps split: if_splits)
qed

lemma stored_after:
  assumes "reload_serving_llm_op env ttl preempt (Some k) target an m = (Inr r, m')" "k \<noteq> []" "rr_status r \<noteq> ''verify_failed''"
  shows "\<exists>res. map_of (mg_ops m') k = Some \<lparr> ro_target = target_text target, ro_result = Some res \<rparr> \<and>
    r\<lparr> rr_replayed := True \<rparr> = res\<lparr> rr_replayed := True \<rparr>"
proof (cases "map_of (mg_ops m) k")
  case None
  then obtain r1 m1 where "reload_serving_llm env ttl preempt an (put_op k (target_text target) None m) = (Inr r1, m1)"
    "finish_op k (target_text target) r1 m1 = (Inr r, m')"
    using assms by (auto simp: reload_serving_llm_op_def nonempty_def Let_def seq_def gets_def modify_def split: prod.splits sum.splits)
  then show ?thesis using fresh_op_run assms(3) by blast
next
  case (Some rec)
  show ?thesis
  proof (cases "ro_result rec")
    case None
    then obtain r1 m1 where "reload_serving_llm env ttl preempt an (put_op k (target_text target) None m) = (Inr r1, m1)"
      "finish_op k (target_text target) r1 m1 = (Inr r, m')"
      using assms Some by (auto simp: reload_serving_llm_op_def nonempty_def Let_def seq_def gets_def modify_def throw_def
          split: prod.splits sum.splits if_splits)
    then show ?thesis using fresh_op_run assms(3) by blast
  next
    case (Some res)
    then show ?thesis using assms \<open>map_of (mg_ops m) k = Some rec\<close>
      by (cases rec) (auto simp: reload_serving_llm_op_def nonempty_def Let_def seq_def gets_def ret_def throw_def split: if_splits)
  qed
qed

lemma replay_after:
  assumes "reload_serving_llm_op env ttl preempt (Some k) target an m = (Inr r, m')" "k \<noteq> []" "rr_status r \<noteq> ''verify_failed''"
  shows "reload_serving_llm_op env ttl preempt' (Some k) target' an' m' =
    (if target_text target' = target_text target then (Inr (r\<lparr> rr_replayed := True \<rparr>), m')
     else (Inl OperationTargetMismatch, m'))"
  using stored_after[OF assms] assms(2)
  by (auto simp: reload_serving_llm_op_def nonempty_def Let_def seq_def gets_def ret_def throw_def)

text \<open>A finished reload is executed once: after an accepted result every later call of the same operation
  answers with it and changes nothing, whatever the engines would answer now, and a call of the operation with
  another target is rejected and changes nothing.\<close>

theorem finished_reloads_replay:
  assumes "reload_serving_llm_op env ttl preempt (Some k) target an m = (Inr r, m')" "k \<noteq> []" "rr_status r \<noteq> ''verify_failed''"
  shows "reload_serving_llm_op env ttl preempt' (Some k) target' an' m' =
    (if target_text target' = target_text target then (Inr (r\<lparr> rr_replayed := True \<rparr>), m')
     else (Inl OperationTargetMismatch, m'))"
  by (rule replay_after[OF assms])

section \<open>The reported model is the one that runs\<close>

definition serves_binding :: "manager \<Rightarrow> bool" where
  "serves_binding m = (loaded_identity (mg_llm m) = Some (bound_identity (mg_llm m)))"

definition cold :: "manager \<Rightarrow> bool" where
  "cold m = (\<forall>e. map_of (mg_engines m) llm = Some e \<longrightarrow> \<not> engine_resident e)"

lemma same_llm [simp]: "mg_llm (put i e s m) = mg_llm m" "mg_llm (on_slot f m) = mg_llm m"
  by (simp_all add: put_def on_slot_def)

lemma load_serves:
  assumes "cold m"
  shows "wp (ensure_loaded env ttl llm an) (\<lambda>_. serves_binding) (\<lambda>_ _. True) m"
proof (cases "map_of (mg_engines m) llm")
  case (Some e)
  have ne: "fst (load_begin env ttl llm an (e\<lparr> en_loading := True \<rparr>) m) \<noteq> BReady"
    using assms Some by (auto simp: load_begin_def ensure_begin_def cold_def Let_def case_prod_beta split: sum.splits)
  show ?thesis using Some ne
    by (auto simp: wp_def ensure_loaded_def throw_def ret_def Let_def serves_binding_def on_llm_def
        split: prod.splits begin_result.splits sum.splits if_splits)
qed (simp add: wp_def ensure_loaded_def throw_def)

lemma cold_same: "mg_engines m' = mg_engines m \<Longrightarrow> cold m' = cold m"
  by (simp add: cold_def)

lemma cold_touches: "touches i m m' \<Longrightarrow> i \<noteq> llm \<Longrightarrow> cold m \<Longrightarrow> cold m'"
  by (simp add: cold_def touches_def)

lemma unload_cools:
  "wp (unload_engine llm u) (\<lambda>st m'. st \<noteq> UBusy \<longrightarrow> cold m') (\<lambda>_ _. True) m"
  by (auto simp: wp_def unload_engine_def unload_def teardown_def cold_def put_def dict_simps ret_def throw_def engine_resident_def
      split: option.splits if_splits)

lemma probe_keeps_cold: "cold m \<Longrightarrow> wp (probe_target env ttl i e an) (\<lambda>_. cold) (\<lambda>_ _. True) m"
  by (auto simp: probe_target_def wp cold_def)

lemma claim_serves: "cold m \<Longrightarrow> wp (claim_freed env ttl llm old an) (\<lambda>_. serves_binding) (\<lambda>_ _. True) m"
  unfolding claim_freed_def wp_seq wp_catch wp_others wp_ret
  by (rule wp_mono[OF load_serves]) (auto simp: cold_def on_slot_def rollback_def wp intro!: wp_mono[OF wp_triv])

lemma swap_serves:
  assumes "cold m"
  shows "wp (preempt_for env ttl llm an) (\<lambda>_. serves_binding) (\<lambda>_ _. True) m"
proof -
  have holder: "wp (swap_holder env ttl llm e h an) (\<lambda>_. serves_binding) (\<lambda>_ _. True) m1" if "cold m1" "h_tenant h \<noteq> llm" for e h m1
  proof -
    have "wp (unload_engine (h_tenant h) (sa_unload an)) (\<lambda>_. cold) (\<lambda>_ _. True) m2" if "cold m2" for m2
      by (rule wp_mono[OF keeps_wp[OF unload_engine_touches, of "h_tenant h" m2 "\<lambda>m'. cold m'"]])
        (use cold_touches \<open>h_tenant h \<noteq> llm\<close> that in blast)+
    then have "wp (evict_and_load env ttl llm (h_tenant h) an) (\<lambda>_. serves_binding) (\<lambda>_ _. True) m2" if "cold m2" for m2
      unfolding evict_and_load_def wp_seq by (rule wp_mono) (auto intro!: wp_ifI claim_serves simp: wp_throw that)
    then have "wp (probe_target env ttl llm e an) (\<lambda>_. wp (evict_and_load env ttl llm (h_tenant h) an) (\<lambda>_. serves_binding) (\<lambda>_ _. True)) (\<lambda>_ _. True) m1"
      by (rule wp_mono[OF probe_keeps_cold[OF that(1)]]) simp_all
    then show ?thesis by (auto simp: swap_holder_def Let_def wp split: option.splits intro!: wp_ifI)
  qed
  have body: "wp (swap_body env ttl llm e an) (\<lambda>_. serves_binding) (\<lambda>_ _. True) m1" if "cold m1" for e m1
    using that holder[OF that]
    by (auto simp: swap_body_def wp on_slot_def cold_def intro!: load_serves split: option.splits if_splits)
  show ?thesis
  proof (cases "map_of (mg_engines m) llm")
    case (Some e)
    show ?thesis unfolding preempt_for_def wp_seq wp_gets Some option.case transaction_wp wp_ensuring
      using wp_mono[OF body[of "m\<lparr> mg_slot := (mg_slot m)\<lparr> sl_swap := Some llm \<rparr> \<rparr>" e]] assms
      by (auto simp: serves_binding_def cold_def split: option.splits)
  qed (simp add: preempt_for_def wp)
qed

text \<open>A running language model holds the slot (the lifecycle's invariant).\<close>

definition covered_llm :: "manager \<Rightarrow> bool" where
  "covered_llm m = (\<forall>e. map_of (mg_engines m) llm = Some e \<longrightarrow> engine_resident e \<longrightarrow> holds (mg_slot m) llm)"

definition reports :: "reload_result \<Rightarrow> manager \<Rightarrow> bool" where
  "reports r m = (loaded_identity (mg_llm m) = Some (rr_ident r))"

lemma reports_answer: "reports \<lparr> rr_status = st, rr_ms = ms, rr_ident = i, rr_evicted = ev, rr_replayed = b \<rparr> m =
    (loaded_identity (mg_llm m) = Some i)"
  by (simp add: reports_def)

lemma answer_reports:
  "serves_binding m \<Longrightarrow> ps = [] \<Longrightarrow> wp (seq (polls env ttl ps) (\<lambda>_. answer st ms ev)) reports (\<lambda>_ _. True) m"
  by (simp add: polls_def wp wp_answer reports_def serves_binding_def on_llm_def)

lemma resident_reports:
  assumes "rl_polls an = []"
  shows "wp (reload_resident env ttl prior an) reports (\<lambda>_ _. True) m"
proof -
  have load: "wp (seq (catch (ensure_loaded env ttl llm (rl_load an)) (\<lambda>x.
      seq (modify (on_llm (restore_binding (rl_restore an) prior))) (\<lambda>_.
      seq (catch (ensure_loaded env ttl llm (rl_reload an)) (\<lambda>_. ret 0)) (\<lambda>_. throw x)))) (\<lambda>ms.
    seq (polls env ttl (rl_polls an)) (\<lambda>_. answer ''reloaded'' ms None))) reports (\<lambda>_ _. True) m1" if "cold m1" for m1
    unfolding wp_seq[where m = "catch _ _"] wp_catch
    by (rule wp_mono[OF load_serves[OF that]]) (simp_all add: answer_reports assms, simp add: wp wp_triv)
  show ?thesis unfolding reload_resident_def wp_seq[where m = "unload_engine llm (rl_unload an)"]
    by (rule wp_mono[OF unload_cools]) (auto simp: wp_throw intro!: wp_ifI load)
qed

lemma held_reports:
  assumes "rl_polls an = []" "h_tenant h \<noteq> llm \<longrightarrow> cold m"
  shows "wp (reload_held env ttl preempt prior h an) reports (\<lambda>_ _. True) m"
proof -
  have swap: "wp (seq (preempt_for env ttl llm (rl_swap an)) (\<lambda>r.
      seq (polls env ttl (rl_polls an)) (\<lambda>_. answer ''swapped'' (sw_ms r) (sw_evicted r)))) reports (\<lambda>_ _. True) m"
    if "cold m" unfolding wp_seq[where m = "preempt_for env ttl llm (rl_swap an)"]
    by (rule wp_mono[OF swap_serves[OF that]]) (simp_all add: answer_reports assms)
  show ?thesis unfolding reload_held_def
    using assms swap[unfolded assms(1)] resident_reports[OF assms(1)]
    by (auto simp: wp_throw wp_seq[where m = "gets _"] wp_gets wp_answer reports_answer intro!: wp_ifI)
qed

lemma reload_reports:
  assumes "covered_llm m" "rl_polls an = []"
  shows "wp (reload_serving_llm env ttl preempt an) reports (\<lambda>_ _. True) m"
proof (cases "map_of (mg_engines m) llm")
  case (Some e)
  let ?m = "probed env ttl llm (rl_probe an) (on_llm (rebind env ttl True (rl_now an) (rl_resolved an)) m)"
  have cold: "cold ?m" if "\<not> holds (mg_slot m) llm" using assms(1) that by (auto simp: covered_llm_def cold_def)
  have load: "wp (seq (ensure_loaded env ttl llm (rl_load an)) (\<lambda>ms.
      seq (polls env ttl (rl_polls an)) (\<lambda>_. answer ''loaded'' ms None))) reports (\<lambda>_ _. True) ?m" if "cold ?m"
    unfolding wp_seq[where m = "ensure_loaded env ttl llm (rl_load an)"]
    by (rule wp_mono[OF load_serves[OF that]]) (simp_all add: answer_reports assms)
  have held: "wp (reload_held env ttl preempt (mg_llm m) h an) reports (\<lambda>_ _. True) ?m" if "sl_holder (mg_slot m) = Some h" for h
    by (rule held_reports[OF assms(2)]) (use that cold in \<open>auto simp: holds_def\<close>)
  show ?thesis
  proof (cases "sl_holder (mg_slot m)")
    case None
    then have "cold ?m" by (intro cold) (simp add: holds_def)
    from load[OF this] show ?thesis using Some None
      by (simp add: reload_serving_llm_def wp_seq[where m = "gets _"] wp_seq[where m = "modify _"] wp_gets wp_modify wp_throw)
  next
    case (Some h)
    from held[OF this] show ?thesis using Some \<open>map_of (mg_engines m) llm = Some e\<close>
      by (simp add: reload_serving_llm_def wp_seq[where m = "gets _"] wp_seq[where m = "modify _"] wp_gets wp_modify wp_throw)
  qed
qed (simp add: reload_serving_llm_def wp)

text \<open>Claim C25.  Without a health poll in between, a reload that an operation accepts as a success leaves the
  engine's child spawned with exactly the operation's model and version, whichever path (cold, swap, model
  switch, already resident) it took.\<close>

theorem accepted_reload_serves_the_target:
  assumes "reload_serving_llm_op env ttl preempt (Some k) target an m = (Inr r, m')" "k \<noteq> []"
    and "\<not> rr_replayed r" "rr_status r \<noteq> ''verify_failed''" "target_text target = (Some n, v)"
    and "covered_llm m" "rl_polls an = []"
  shows "loaded_identity (mg_llm m') = Some (n, v)"
proof -
  obtain r1 m1 where run: "reload_serving_llm env ttl preempt an (put_op k (Some n, v) None m) = (Inr r1, m1)"
    "finish_op k (Some n, v) r1 m1 = (Inr r, m')"
    using assms(1-5) by (auto simp: reload_serving_llm_op_def nonempty_def Let_def seq_def gets_def modify_def throw_def ret_def
        split: prod.splits sum.splits option.splits if_splits)
  have "covered_llm (put_op k (Some n, v) None m)" using assms(6) by (simp add: covered_llm_def put_op_def)
  then have "reports r1 m1" using reload_reports[OF _ assms(7), of _ env ttl preempt] run(1) by (force simp: wp_def)
  moreover have "rr_ident r1 = (n, v)" "mg_llm m' = mg_llm m1"
    using run(2) assms(4) by (auto simp: finish_op_def ret_def seq_def modify_def prod_eq_iff split: if_splits)
  ultimately show ?thesis by (simp add: reports_def)
qed

section \<open>A model switch that fails\<close>

lemma unloaded_simps [simp]: "\<not> engine_resident (unloaded e)" "en_gpu (unloaded e) = en_gpu e"
  by (simp_all add: unloaded_def engine_resident_def)

text \<open>The state after the resident model was unloaded for a switch, and the one the recovery load starts from.\<close>

definition switch_point :: "host_env \<Rightarrow> rat \<Rightarrow> reload_answers \<Rightarrow> engine \<Rightarrow> manager \<Rightarrow> manager" where
  "switch_point env ttl an e m =
     put llm (unloaded e) ((mg_slot m)\<lparr> sl_holder := None \<rparr>)
       (probed env ttl llm (rl_probe an) (on_llm (rebind env ttl True (rl_now an) (rl_resolved an)) m))"

definition recovery_point :: "host_env \<Rightarrow> rat \<Rightarrow> reload_answers \<Rightarrow> engine \<Rightarrow> manager \<Rightarrow> manager" where
  "recovery_point env ttl an e m =
     on_llm (restore_binding (rl_restore an) (mg_llm m)) (snd (ensure_loaded env ttl llm (rl_load an) (switch_point env ttl an e m)))"

definition may_switch :: "host_env \<Rightarrow> rat \<Rightarrow> reload_answers \<Rightarrow> holder \<Rightarrow> engine \<Rightarrow> manager \<Rightarrow> bool" where
  "may_switch env ttl an h e m =
     (let m1 = on_llm (rebind env ttl True (rl_now an) (rl_resolved an)) m
      in map_of (mg_engines m) llm = Some e \<and> en_gpu e \<and> sl_holder (mg_slot m) = Some h \<and> h_tenant h = llm \<and> h_kind h \<noteq> ''job'' \<and>
         \<not> rl_batch an \<and> adapter_ok env ttl llm True (rl_probe an) m1 \<and> \<not> serves_binding (probed env ttl llm (rl_probe an) m1) \<and>
         (fst (rl_unload an) \<or> \<not> en_loading e) \<and> (fst (snd (rl_unload an)) \<or> snd (snd (rl_unload an))))"

lemma switch_reaches_load:
  assumes "may_switch env ttl an h e m"
  shows "wp (reload_serving_llm env ttl True an) Q E m =
    wp (seq (catch (ensure_loaded env ttl llm (rl_load an)) (\<lambda>x.
          seq (modify (on_llm (restore_binding (rl_restore an) (mg_llm m)))) (\<lambda>_.
          seq (catch (ensure_loaded env ttl llm (rl_reload an)) (\<lambda>_. ret 0)) (\<lambda>_. throw x)))) (\<lambda>ms.
        seq (polls env ttl (rl_polls an)) (\<lambda>_. answer ''reloaded'' ms None))) Q E (switch_point env ttl an e m)"
proof -
  let ?m2 = "probed env ttl llm (rl_probe an) (on_llm (rebind env ttl True (rl_now an) (rl_resolved an)) m)"
  obtain st where st: "unload (fst (rl_unload an)) (fst (snd (rl_unload an))) (snd (snd (rl_unload an))) llm e (mg_slot m)
      = (st, unloaded e, (mg_slot m)\<lparr> sl_holder := None \<rparr>)" "st \<noteq> UBusy"
    using unload_frees[of e "rl_unload an" "mg_slot m" h llm] assms by (auto simp: may_switch_def Let_def)
  have un: "wp (unload_engine llm (rl_unload an)) Q' E' ?m2 = Q' st (switch_point env ttl an e m)" for Q' E'
    using assms st(1) by (simp add: wp_def unload_engine_def may_switch_def ret_def switch_point_def Let_def)
  show ?thesis
    using assms st(2)
    by (simp add: reload_serving_llm_def reload_held_def reload_resident_def may_switch_def Let_def serves_binding_def un
        wp_seq[where m = "gets _"] wp_seq[where m = "modify _"] wp_seq[where m = "unload_engine _ _"] wp_gets wp_modify)
qed

text \<open>A recovery within the TTL spawns the restored binding.\<close>

lemma load_spawns_binding:
  assumes "cold m" "fresh_binding ttl (pr_now (la_probe an)) (mg_llm m)"
  shows "wp (ensure_loaded env ttl llm an) (\<lambda>_ m'. loaded_identity (mg_llm m') = Some (bound_identity (mg_llm m))) (\<lambda>_ _. True) m"
proof (cases "map_of (mg_engines m) llm")
  case (Some e)
  have ne: "fst (load_begin env ttl llm an (e\<lparr> en_loading := True \<rparr>) m) \<noteq> BReady"
    using assms(1) Some by (auto simp: load_begin_def ensure_begin_def cold_def Let_def case_prod_beta split: sum.splits)
  have same: "mg_llm (snd (snd (snd (load_begin env ttl llm an (e\<lparr> en_loading := True \<rparr>) m)))) = mg_llm m"
    using available_fresh[OF assms(2)] by (simp add: load_begin_def Let_def case_prod_beta probed_def on_llm_def)
  show ?thesis using Some ne same
    by (auto simp: wp_def ensure_loaded_def throw_def ret_def Let_def on_llm_def
        split: prod.splits begin_result.splits sum.splits if_splits)
qed (simp add: wp_def ensure_loaded_def throw_def)

text \<open>A model switch whose target does not start reports the failure and brings a model back: the one the
  adapter was bound to when the reload was called (which is the one that ran, as long as no health poll
  has rebound the adapter since).\<close>

theorem failed_switch_restores_the_binding:
  assumes "may_switch env ttl an h e m" "fst (ensure_loaded env ttl llm (rl_load an) (switch_point env ttl an e m)) = Inl x"
    and "fst (la_gone2 (rl_load an)) \<or> snd (la_gone2 (rl_load an))" "reserved m = None"
    and "pr_now (la_probe (rl_reload an)) - rl_restore an < ttl"
    and "\<And>e'. map_of (mg_engines (recovery_point env ttl an e m)) llm = Some e' \<Longrightarrow>
      load_succeeds env ttl llm (rl_reload an) e' (recovery_point env ttl an e m)"
  shows "case reload_serving_llm env ttl True an m of (Inr _, _) \<Rightarrow> False
    | (Inl y, m') \<Rightarrow> y = x \<and> runs llm m' \<and> loaded_identity (mg_llm m') = Some (bound_identity (mg_llm m))"
proof -
  let ?m2 = "switch_point env ttl an e m" and ?m3 = "recovery_point env ttl an e m"
  obtain m1 where m1: "ensure_loaded env ttl llm (rl_load an) ?m2 = (Inl x, m1)" using assms(2) by (metis fst_conv surj_pair)
  have m3: "?m3 = on_llm (restore_binding (rl_restore an) (mg_llm m)) m1" by (simp add: recovery_point_def m1)
  have e2: "map_of (mg_engines ?m2) llm = Some (unloaded e)" by (simp add: switch_point_def put_def dict_simps)
  have t: "touches llm ?m2 m1" using keepsD[OF ensure_loaded_touches[of llm env ttl "rl_load an"], of ?m2] m1 by simp
  have free: "sl_holder (mg_slot m1) = None"
    using failed_load_frees[OF e2, of "rl_load an" env ttl] assms(1,3) m1
    by (auto simp: wp_def may_switch_def Let_def switch_point_def)
  obtain e3 where e3: "map_of (mg_engines ?m3) llm = Some e3"
    using m1 e2 m3 by (auto simp: ensure_loaded_def throw_def ret_def Let_def put_def dict_simps
        split: option.splits prod.splits begin_result.splits if_splits)
  have ok: "load_succeeds env ttl llm (rl_reload an) e3 ?m3" by (rule assms(6)[OF e3])
  have bound: "bound_identity (mg_llm ?m3) = bound_identity (mg_llm m)" "fresh_binding ttl (pr_now (la_probe (rl_reload an))) (mg_llm ?m3)"
    using assms(5) by (simp_all add: m3 on_llm_def restore_binding_def bound_identity_def fresh_binding_def)
  have "cold ?m3" using ok e3 by (simp add: cold_def load_succeeds_def)
  have "wp (ensure_loaded env ttl llm (rl_reload an)) (\<lambda>_ m'. runs llm m' \<and> loaded_identity (mg_llm m') = Some (bound_identity (mg_llm m)))
      (\<lambda>_ _. False \<and> True) ?m3"
    unfolding bound(1)[symmetric]
    by (rule wp_conj[OF load_works[OF e3 ok] load_spawns_binding[OF \<open>cold ?m3\<close> bound(2)]])
      (use free t assms(4) in \<open>auto simp: m3 reserved_def touches_def slot_touch_def switch_point_def\<close>)
  then have "wp (reload_serving_llm env ttl True an) (\<lambda>_ _. False)
      (\<lambda>y m'. y = x \<and> runs llm m' \<and> loaded_identity (mg_llm m') = Some (bound_identity (mg_llm m))) m"
    unfolding switch_reaches_load[OF assms(1)] wp_seq wp_catch wp_modify wp_ret wp_throw
    by (simp add: wp_def[of "ensure_loaded env ttl llm (rl_load an)"] m1 m3[symmetric]) (auto elim: wp_mono)
  then show ?thesis by (simp add: wp_def split: prod.splits sum.splits)
qed

end
