(* ===== verification/SwapRuns.thy ===== *)
theory SwapRuns
  imports ReloadOps
begin

text \<open>
  Concrete swaps and reloads: witnesses of the properties, and the two interleavings with a health poll that make a
  reload report a model that does not run and make a rollback load the wrong model.
\<close>

definition demo_files :: disk where
  "demo_files = [(''/bin/llama'', 1), (''/zoo/base.gguf'', 1), (''/zoo/support.gguf'', 1)]"

definition sees :: "rat \<Rightarrow> resolved \<Rightarrow> probe" where
  "sees now r = \<lparr> pr_files = demo_files, pr_exec = (\<lambda>_. True), pr_now = now, pr_resolved = r \<rparr>"

definition support :: "string \<Rightarrow> resolved" where
  "support v = RTarget \<lparr> tg_name = ''support'', tg_version = v, tg_kind = FullModel, tg_base_gguf = ''/zoo/support.gguf'',
     tg_adapter_gguf = None \<rparr>"

text \<open>A load whose child starts, and one whose child exits at once.\<close>

definition loads :: "bool \<Rightarrow> rat \<Rightarrow> resolved \<Rightarrow> load_answers" where
  "loads ok now r = \<lparr> la_ready = True, la_avail = True, la_gone = (True, True), la_est = 4, la_free = Some 9, la_now = now,
     la_probe = sees now r, la_port = 9001, la_spawn = Some 8, la_wait = (\<lambda>_. (ok, ok)), la_gone2 = (True, True),
     la_done = now + 1 \<rparr>"

definition llama :: adapter where
  "llama = (spawned 9000 (new_adapter ''/bin/llama'' ''/zoo/base.gguf'' None ''base'' 12))\<lparr> ad_bound_at := Some 0 \<rparr>"

definition demo_manager :: manager where
  "demo_manager = \<lparr> mg_engines = [(''llm'', cold_engine\<lparr> en_child := Some (7, True) \<rparr>), (''asr'', cold_engine)],
     mg_slot = llm_slot, mg_llm = llama, mg_ops = [] \<rparr>"

definition demo_swap :: "bool \<Rightarrow> swap_answers" where
  "demo_swap ok = \<lparr> sa_batch = False, sa_avail = True, sa_probe = sees 20 RDefault, sa_unload = (True, True, True),
     sa_between = [EvAcquire ''tts'' ''serving'' 4 (Some 9) 0, EvBeginSwap ''tts''], sa_load = loads ok 20 RDefault,
     sa_gap = [EvAcquire ''tts'' ''serving'' 4 (Some 9) 0], sa_reload = loads True 22 RDefault \<rparr>"

definition llm_holder :: holder where
  "llm_holder = the (sl_holder llm_slot)"

theorem swap_takes_the_gpu_witness:
  "case preempt_for demo_host 5 ''asr'' (demo_swap True) demo_manager of (Inl x, m') \<Rightarrow> False
    | (Inr r, m') \<Rightarrow> sw_swapped r \<and> runs ''asr'' m' \<and> reserved m' = None"
proof -
  let ?e = "cold_engine" and ?eo = "cold_engine\<lparr> en_child := Some (7, True) \<rparr>"
  have 1: "may_evict demo_host 5 ''asr'' (demo_swap True) llm_holder ?e ?eo demo_manager" by code_simp
  have 2: "load_succeeds demo_host 5 ''asr'' (sa_load (demo_swap True)) ?e
      (probed demo_host 5 ''asr'' (sa_probe (demo_swap True)) demo_manager)" by code_simp
  show ?thesis using swap_takes_the_gpu[OF 1 2] by (auto split: prod.splits sum.splits)
qed


definition demo_reload :: "rat \<Rightarrow> resolved \<Rightarrow> bool \<Rightarrow> probe list \<Rightarrow> bool \<Rightarrow> reload_answers" where
  "demo_reload now r ok ps ok2 = \<lparr> rl_now = now, rl_resolved = r, rl_probe = sees now r, rl_batch = False, rl_swap = demo_swap True,
     rl_unload = (True, True, True), rl_load = loads ok now r, rl_polls = ps, rl_restore = now + 2,
     rl_reload = loads ok2 (now + 2) r \<rparr>"

theorem running_work_is_never_displaced_witness:
  "same_gpu (demo_manager\<lparr> mg_slot := llm_slot\<lparr> sl_holder := Some (llm_holder\<lparr> h_tenant := ''training'', h_kind := ''job'' \<rparr>) \<rparr> \<rparr>)
     (snd (preempt_for demo_host 5 ''asr'' (demo_swap True)
       (demo_manager\<lparr> mg_slot := llm_slot\<lparr> sl_holder := Some (llm_holder\<lparr> h_tenant := ''training'', h_kind := ''job'' \<rparr>) \<rparr> \<rparr>)))"
proof -
  let ?h = "llm_holder\<lparr> h_tenant := ''training'', h_kind := ''job'' \<rparr>"
  let ?m = "demo_manager\<lparr> mg_slot := llm_slot\<lparr> sl_holder := Some ?h \<rparr> \<rparr>"
  have "sl_holder (mg_slot ?m) = Some ?h" "working ?h (demo_swap True) (demo_reload 10 RDefault True [] True)" "h_tenant ?h \<noteq> ''asr''"
    by (simp_all add: working_def)
  from running_work_is_never_displaced[OF this, of demo_host 5] show ?thesis by blast
qed

definition ask_support :: "string \<Rightarrow> (string option \<times> string option) option" where
  "ask_support v = Some (Some ''support'', Some v)"

definition reload_run :: "probe list \<Rightarrow> string \<Rightarrow> (swap_exn + reload_result) \<times> manager" where
  "reload_run ps v = reload_serving_llm_op demo_host 5 True (Some ''op1'') (ask_support v) (demo_reload 20 (support ''1'') True ps True) demo_manager"

lemma reload_run_ok: "reload_run [] ''1'' = (Inr (projr (fst (reload_run [] ''1''))), snd (reload_run [] ''1''))"
  "rr_status (projr (fst (reload_run [] ''1''))) = ''reloaded''" "\<not> rr_replayed (projr (fst (reload_run [] ''1'')))"
proof -
  have "case fst (reload_run [] ''1'') of Inl _ \<Rightarrow> False | Inr r \<Rightarrow> rr_status r = ''reloaded'' \<and> \<not> rr_replayed r" by code_simp
  then show "reload_run [] ''1'' = (Inr (projr (fst (reload_run [] ''1''))), snd (reload_run [] ''1''))"
    "rr_status (projr (fst (reload_run [] ''1''))) = ''reloaded''" "\<not> rr_replayed (projr (fst (reload_run [] ''1'')))"
    by (auto split: sum.splits simp: prod_eq_iff)
qed

theorem finished_reloads_replay_witness:
  "reload_serving_llm_op demo_host 5 True (Some ''op1'') (ask_support ''2'') (demo_reload 30 RDefault True [] True) (snd (reload_run [] ''1''))
     = (Inl OperationTargetMismatch, snd (reload_run [] ''1''))"
  using finished_reloads_replay[OF reload_run_ok(1)[unfolded reload_run_def], folded reload_run_def] reload_run_ok(2)
  by (simp add: ask_support_def target_text_def nonempty_def)

theorem accepted_reload_serves_the_target_witness:
  "loaded_identity (mg_llm (snd (reload_run [] ''1''))) = Some (''support'', Some ''1'')"
proof -
  have c: "covered_llm demo_manager" by (simp add: covered_llm_def demo_manager_def llm_def cold_engine_def holds_def llm_slot_def)
  show ?thesis
    unfolding reload_run_def
    by (rule accepted_reload_serves_the_target[OF reload_run_ok(1)[unfolded reload_run_def]])
      (use c reload_run_ok(2,3) in \<open>simp_all add: reload_run_def ask_support_def target_text_def nonempty_def demo_reload_def\<close>)
qed

text \<open>A health poll during the load makes a reload claim the wrong model.  The resolver still answers version 1
  when the reload binds, version 1 is spawned, the alias moves, and a poll rebinds the adapter to version 2 while the
  child becomes ready; the reload then reports the binding, not the child: the operation for version 2 is
  accepted and stored as a success, and every retry replays it, while version 1 runs.\<close>

theorem a_poll_makes_a_reload_claim_the_wrong_model:
  "\<exists>m r m'. covered_llm m \<and>
     reload_serving_llm_op demo_host 5 True (Some ''op1'') (ask_support ''2'')
       (demo_reload 20 (support ''1'') True [sees 30 (support ''2'')] True) m = (Inr r, m') \<and>
     rr_status r = ''reloaded'' \<and> rr_ident r = (''support'', Some ''2'') \<and> runs ''llm'' m' \<and>
     loaded_identity (mg_llm m') = Some (''support'', Some ''1'') \<and>
     (\<forall>an. reload_serving_llm_op demo_host 5 True (Some ''op1'') (ask_support ''2'') an m' = (Inr (r\<lparr> rr_replayed := True \<rparr>), m'))"
proof -
  let ?run = "reload_run [sees 30 (support ''2'')] ''2''"
  have c: "covered_llm demo_manager" by (simp add: covered_llm_def demo_manager_def llm_def cold_engine_def holds_def llm_slot_def)
  have "case ?run of (Inl _, m') \<Rightarrow> False | (Inr r, m') \<Rightarrow> rr_status r = ''reloaded'' \<and> rr_ident r = (''support'', Some ''2'') \<and>
      runs ''llm'' m' \<and> loaded_identity (mg_llm m') = Some (''support'', Some ''1'')" by code_simp
  then obtain r m' where r: "?run = (Inr r, m')" "rr_status r = ''reloaded''" "rr_ident r = (''support'', Some ''2'')"
    "runs ''llm'' m'" "loaded_identity (mg_llm m') = Some (''support'', Some ''1'')"
    by (auto split: prod.splits sum.splits)
  have "reload_serving_llm_op demo_host 5 True (Some ''op1'') (ask_support ''2'') an m' = (Inr (r\<lparr> rr_replayed := True \<rparr>), m')" for an
    using replay_after[OF r(1)[unfolded reload_run_def]] r(2) by simp
  then show ?thesis using c r unfolding reload_run_def by blast
qed

text \<open>A health poll before the reload makes the rollback load the model that just failed.  The engine runs
  the default model; the pointer moves and a poll rebinds the idle adapter to the new target; the reload's snapshot is
  taken after that, so when the target does not start, the rollback spawns the target again: whatever
  the child answers then, the model that ran is not restored.  Without the poll it is.\<close>

theorem a_poll_makes_the_rollback_load_the_wrong_model:
  "\<exists>m an. serves_binding m \<and> runs ''llm'' m \<and>
     (let m' = snd (reload_serving_llm demo_host 5 True an m)
      in runs ''llm'' m' \<and> loaded_identity (mg_llm m') = loaded_identity (mg_llm m)) \<and>
     (let polled = snd (polls demo_host 5 [sees 19 (support ''2'')] m :: (swap_exn + unit) \<times> manager);
          m' = snd (reload_serving_llm demo_host 5 True an polled)
      in runs ''llm'' m' \<and> loaded_identity (mg_llm m') = Some (''support'', Some ''2'') \<and>
         loaded_identity (mg_llm m') \<noteq> loaded_identity (mg_llm m))"
proof -
  let ?an = "demo_reload 20 (support ''2'') False [] True"
  have "serves_binding demo_manager \<and> runs ''llm'' demo_manager" by code_simp
  moreover have "let m' = snd (reload_serving_llm demo_host 5 True ?an demo_manager)
      in runs ''llm'' m' \<and> loaded_identity (mg_llm m') = loaded_identity (mg_llm demo_manager)" by code_simp
  moreover have "let polled = snd (polls demo_host 5 [sees 19 (support ''2'')] demo_manager :: (swap_exn + unit) \<times> manager);
      m' = snd (reload_serving_llm demo_host 5 True ?an polled)
      in runs ''llm'' m' \<and> loaded_identity (mg_llm m') = Some (''support'', Some ''2'') \<and>
        loaded_identity (mg_llm m') \<noteq> loaded_identity (mg_llm demo_manager)" by code_simp
  ultimately show ?thesis by blast
qed

theorem failed_switch_restores_the_binding_witness:
  "case reload_serving_llm demo_host 5 True (demo_reload 20 (support ''2'') False [] True) demo_manager of (Inr _, _) \<Rightarrow> False
    | (Inl x, m') \<Rightarrow> x = EngineError \<and> runs llm m' \<and> loaded_identity (mg_llm m') = Some (''base'', None)"
proof -
  let ?an = "demo_reload 20 (support ''2'') False [] True" and ?e = "cold_engine\<lparr> en_child := Some (7, True) \<rparr>"
  have 1: "may_switch demo_host 5 ?an llm_holder ?e demo_manager" by code_simp
  have "case fst (ensure_loaded demo_host 5 llm (rl_load ?an) (switch_point demo_host 5 ?an ?e demo_manager)) of
      Inl x \<Rightarrow> x = EngineError | Inr _ \<Rightarrow> False" by code_simp
  then have 2: "fst (ensure_loaded demo_host 5 llm (rl_load ?an) (switch_point demo_host 5 ?an ?e demo_manager)) = Inl EngineError"
    by (auto split: sum.splits)
  have 3: "fst (la_gone2 (rl_load ?an)) \<or> snd (la_gone2 (rl_load ?an))" "reserved demo_manager = None"
    "pr_now (la_probe (rl_reload ?an)) - rl_restore ?an < 5" "bound_identity (mg_llm demo_manager) = (''base'', None)"
    by (code_simp, code_simp, code_simp, code_simp)
  let ?rp = "recovery_point demo_host 5 ?an ?e demo_manager" and ?la = "rl_reload ?an"
  have e: "map_of (mg_engines ?rp) llm = Some cold_engine" by code_simp
  have "adapter_ok demo_host 5 llm (la_avail ?la) (la_probe ?la) ?rp" by code_simp
  moreover have "fits_slot (est_of llm ?la (probed demo_host 5 llm (la_probe ?la) ?rp)) (la_free ?la) (mg_slot ?rp)" by code_simp
  moreover have "en_gpu cold_engine \<and> en_enabled cold_engine \<and> \<not> en_wedged cold_engine \<and> \<not> engine_resident cold_engine \<and>
      wait_ready (en_ready_wait cold_engine) 0 (la_wait ?la) 0 = WReady" by code_simp
  moreover have "la_spawn ?la \<noteq> None" by (simp add: demo_reload_def loads_def)
  ultimately have 4: "load_succeeds demo_host 5 llm ?la e' ?rp" if "map_of (mg_engines ?rp) llm = Some e'" for e'
    using that e by (simp add: load_succeeds_def)
  show ?thesis by (rule failed_switch_restores_the_binding[OF 1 2 3(1-3) 4, unfolded 3(4)])
qed

end
