(* ===== verification/Migrations.thy ===== *)
theory Migrations
  imports Prelude
begin

text \<open>
  \<open>platformlib/migrations.py\<close>: the one runner that evolves the gateway database.  A directory is its sorted listing with the
  bytes of each file; the database is its ledger (absent before the first run) and its schema.  PostgreSQL and SHA-256
  are arguments: \<open>exec\<close> is what a file's SQL does to a schema, \<open>None\<close> when it fails.  Runners serialize on the advisory
  lock, and a crash loses the transaction in progress, so the durable states are those after each file's commit.
\<close>

section \<open>Discovery\<close>

record migration =
  mi_version :: nat
  mi_name :: string
  mi_raw :: string
  mi_checksum :: string

datatype migration_error =
    BadName string | VersionZero | Duplicate nat | Newer nat nat | Missing nat | ChecksumMismatch nat
  | LedgerGap "nat list" | ShapeMismatch "string list" | ApplyFailed nat | NoLedger | TooOld nat | TooNew nat nat

definition is_word :: "char \<Rightarrow> bool" where
  "is_word c = (97 \<le> (of_char c :: nat) \<and> of_char c \<le> (122 :: nat) \<or> is_digit c \<or> c = CHR ''_'')"

text \<open>\<open>NNN_name.sql\<close>: the number and the name.\<close>

definition parse_name :: "string \<Rightarrow> (nat \<times> string) option" where
  "parse_name f =
     (let stem = take (length f - 4) f; name = drop 4 stem
      in if ends_with ''.sql'' f \<and> 4 < length stem \<and> list_all is_digit (take 3 stem) \<and> stem ! 3 = CHR ''_'' \<and> list_all is_word name
         then Some (digits (take 3 stem), name) else None)"

text \<open>Line endings are normalized before the digest is taken.\<close>

fun normalize :: "string \<Rightarrow> string" where
  "normalize (c # d # cs) = (if c = CHR 0x0D \<and> d = CHR 0x0A then d # normalize cs else c # normalize (d # cs))"
| "normalize cs = cs"

definition load_migration :: "(string \<Rightarrow> string) \<Rightarrow> nat \<Rightarrow> string \<Rightarrow> string \<Rightarrow> migration" where
  "load_migration digest v name raw = \<lparr> mi_version = v, mi_name = name, mi_raw = raw, mi_checksum = digest (normalize raw) \<rparr>"

type_synonym directory = "(string \<times> string) list"

fun discover_in :: "(string \<Rightarrow> string) \<Rightarrow> directory \<Rightarrow> migration list \<Rightarrow> migration_error + migration list" where
  "discover_in digest [] found = Inr found"
| "discover_in digest ((f, raw) # fs) found =
     (if \<not> ends_with ''.sql'' f then discover_in digest fs found
      else case parse_name f of
          None \<Rightarrow> Inl (BadName f)
        | Some (v, name) \<Rightarrow>
            if v = 0 then Inl VersionZero
            else if v \<in> set (map mi_version found) then Inl (Duplicate v)
            else discover_in digest fs (found @ [load_migration digest v name raw]))"

definition discover :: "(string \<Rightarrow> string) \<Rightarrow> directory \<Rightarrow> migration_error + migration list" where
  "discover digest dir = (case discover_in digest dir [] of
      Inl e \<Rightarrow> Inl e | Inr found \<Rightarrow> Inr (sort_key mi_version found))"

definition newest_local :: "migration list \<Rightarrow> nat" where
  "newest_local ms = (if ms = [] then 0 else mi_version (last ms))"

section \<open>The database\<close>

text \<open>The columns of the public tables and the index names.\<close>

record schema =
  sc_columns :: "(string \<times> string) list"
  sc_indexes :: "string list"

type_synonym ledger_row = "nat \<times> string \<times> string"

record database =
  db_ledger :: "ledger_row list option"
  db_schema :: schema

definition db_version :: "database \<Rightarrow> nat" where
  "db_version db = (case db_ledger db of None \<Rightarrow> 0 | Some rows \<Rightarrow> fold max (map fst rows) 0)"

definition MINIMUM_COMPATIBLE :: nat where
  "MINIMUM_COMPATIBLE = 1"

definition check_compatible :: "migration list \<Rightarrow> database \<Rightarrow> migration_error option" where
  "check_compatible ms db =
     (let have = db_version db; current = newest_local ms
      in if have = 0 then Some NoLedger else if have < MINIMUM_COMPATIBLE then Some (TooOld have)
         else if have > current then Some (TooNew have current) else None)"

definition BASELINE_SHAPE :: "(string \<times> string list) list" where
  "BASELINE_SHAPE =
     [(''meta'', [''schema_version'']),
      (''predictions'', [''prediction_id'', ''model_name'', ''version'', ''modality'', ''served_at'', ''streamed'', ''payload_ref'']),
      (''labels'', [''prediction_id'', ''label'', ''submitted_at'']),
      (''capture_index'', [''prediction_id'', ''modality'', ''input_ref'', ''captured_at'']),
      (''jobs'', [''job_id'', ''kind'', ''modality'', ''request'', ''state'', ''submitted_at'', ''started_at'', ''ended_at'', ''result'']),
      (''policies'', [''model_name'', ''document'', ''updated_at'', ''updated_by'', ''pending'', ''status'']),
      (''suggestions'', [''id'', ''model_name'', ''candidate_version'', ''gate_verdict'', ''shadow_verdict'', ''state'',
         ''created_at'', ''resolved_at'', ''actor'']),
      (''serving_llm'', [''singleton'', ''model_name'', ''selected_at'', ''selected_by''])]"

definition BASELINE_INDEXES :: "string list" where
  "BASELINE_INDEXES = [''ix_pred_window'', ''ix_jobs_kind'']"

definition columns_of :: "schema \<Rightarrow> string \<Rightarrow> string list" where
  "columns_of sc t = map snd (filter (\<lambda>(t', c). t' = t) (sc_columns sc))"

text \<open>\<open>verify_baseline_shape\<close>: what is missing.\<close>

definition verify_baseline_shape :: "schema \<Rightarrow> string list" where
  "verify_baseline_shape sc =
     concat (map (\<lambda>(t, cols). if columns_of sc t = [] then [''missing table '' @ t]
         else if \<not> list_all (\<lambda>c. c \<in> set (columns_of sc t)) cols then [''table '' @ t @ '' lacks columns''] else []) BASELINE_SHAPE)
     @ concat (map (\<lambda>i. if i \<in> set (sc_indexes sc) then [] else [''missing index '' @ i]) BASELINE_INDEXES)"

section \<open>Applying\<close>

text \<open>One file in its own transaction with its ledger row.\<close>

definition apply_file :: "(string \<Rightarrow> schema \<Rightarrow> schema option) \<Rightarrow> migration \<Rightarrow> database \<Rightarrow> migration_error + database" where
  "apply_file exec m db = (case exec (mi_raw m) (db_schema db) of
      None \<Rightarrow> Inl (ApplyFailed (mi_version m))
    | Some sc \<Rightarrow>
        if mi_version m = 1 \<and> verify_baseline_shape sc \<noteq> [] then Inl (ShapeMismatch (verify_baseline_shape sc))
        else (case db_ledger db of
            None \<Rightarrow> Inl (ApplyFailed (mi_version m))
          | Some rows \<Rightarrow>
              if mi_version m \<in> set (map fst rows) then Inl (ApplyFailed (mi_version m))
              else Inr \<lparr> db_ledger = Some (rows @ [(mi_version m, mi_name m, mi_checksum m)]), db_schema = sc \<rparr>))"

text \<open>The pending files in order, and the durable states on the way: the first element is the state the loop starts
  from, each later one follows a commit.\<close>

fun apply_pending :: "(string \<Rightarrow> schema \<Rightarrow> schema option) \<Rightarrow> migration list \<Rightarrow> database
    \<Rightarrow> (migration_error + nat list) \<times> database list" where
  "apply_pending exec [] db = (Inr [], [db])"
| "apply_pending exec (m # ms) db = (case apply_file exec m db of
      Inl e \<Rightarrow> (Inl e, [db])
    | Inr db' \<Rightarrow> (case apply_pending exec ms db' of
        (Inl e, ds) \<Rightarrow> (Inl e, db # ds)
      | (Inr vs, ds) \<Rightarrow> (Inr (mi_version m # vs), db # ds)))"

definition create_ledger :: "database \<Rightarrow> database" where
  "create_ledger db = db\<lparr> db_ledger := Some (case db_ledger db of None \<Rightarrow> [] | Some rows \<Rightarrow> rows) \<rparr>"

definition recorded_rows :: "database \<Rightarrow> ledger_row list" where
  "recorded_rows db = (case db_ledger db of None \<Rightarrow> [] | Some rows \<Rightarrow> sort_key fst rows)"

definition local_file :: "migration list \<Rightarrow> nat \<Rightarrow> migration option" where
  "local_file ms v = find (\<lambda>m. mi_version m = v) ms"

fun verify_history :: "migration list \<Rightarrow> ledger_row list \<Rightarrow> migration_error option" where
  "verify_history ms [] = None"
| "verify_history ms ((v, name, checksum) # rows) = (case local_file ms v of
      None \<Rightarrow> Some (if v > newest_local ms then Newer v (newest_local ms) else Missing v)
    | Some m \<Rightarrow> if mi_checksum m \<noteq> checksum then Some (ChecksumMismatch v) else verify_history ms rows)"

definition ledger_gap :: "migration list \<Rightarrow> ledger_row list \<Rightarrow> nat list" where
  "ledger_gap ms rows =
     (let have = fold max (map fst rows) 0
      in sort (filter (\<lambda>v. v \<le> have \<and> v \<notin> set (map fst rows)) (map mi_version ms)))"

definition pending_files :: "migration list \<Rightarrow> ledger_row list \<Rightarrow> migration list" where
  "pending_files ms rows = filter (\<lambda>m. fold max (map fst rows) 0 < mi_version m) ms"

text \<open>\<open>apply\<close>: the outcome and the durable states, the oldest first.\<close>

definition apply_migrations :: "(string \<Rightarrow> schema \<Rightarrow> schema option) \<Rightarrow> migration list \<Rightarrow> database
    \<Rightarrow> (migration_error + nat list) \<times> database list" where
  "apply_migrations exec ms db =
     (let db0 = create_ledger db; rows = recorded_rows db0
      in case verify_history ms rows of
           Some e \<Rightarrow> (Inl e, [db, db0])
         | None \<Rightarrow>
             if ledger_gap ms rows \<noteq> [] then (Inl (LedgerGap (ledger_gap ms rows)), [db, db0])
             else (case apply_pending exec (pending_files ms rows) db0 of (r, ds) \<Rightarrow> (r, db # ds)))"

text \<open>\<open>status\<close>: the version, the files above it and the recorded versions.\<close>

definition ledger_status :: "migration list \<Rightarrow> database \<Rightarrow> nat \<times> nat \<times> nat list \<times> nat list" where
  "ledger_status ms db = (db_version db, newest_local ms, map mi_version (filter (\<lambda>m. db_version db < mi_version m) ms),
     map fst (recorded_rows db))"

text \<open>A run that crashes keeps one of its durable states; a run that is not interrupted ends in the last.\<close>

definition final_db :: "(migration_error + nat list) \<times> database list \<Rightarrow> database" where
  "final_db r = last (snd r)"


section \<open>Discovered files\<close>

definition shipped :: "migration list \<Rightarrow> bool" where
  "shipped ms = (sorted_wrt (<) (map mi_version ms) \<and> (\<forall>m \<in> set ms. 0 < mi_version m))"

lemma shippedD:
  assumes "shipped ms"
  shows "distinct (map mi_version ms)" "sorted (map mi_version ms)"
  using assms by (auto simp: shipped_def strict_sorted_iff)

lemma discover_in_versions:
  assumes "discover_in digest dir found = Inr ms" "distinct (map mi_version found)" "\<forall>m \<in> set found. 0 < mi_version m"
  shows "distinct (map mi_version ms) \<and> (\<forall>m \<in> set ms. 0 < mi_version m)"
  using assms
proof (induction digest dir found rule: discover_in.induct)
  case (2 digest f raw fs found)
  show ?case
  proof (cases "ends_with ''.sql'' f")
    case True
    then obtain v name where v: "parse_name f = Some (v, name)" "0 < v" "v \<notin> set (map mi_version found)"
      and rest: "discover_in digest fs (found @ [load_migration digest v name raw]) = Inr ms"
      using "2.prems"(1) by (auto split: option.splits prod.splits if_splits)
    have "mi_version (load_migration digest v name raw) = v" by (simp add: load_migration_def)
    then show ?thesis using "2.IH"(2)[OF _ v(1) refl] True v rest "2.prems" by simp
  qed (use 2 in simp)
qed simp

lemma discover_shipped:
  assumes "discover digest dir = Inr ms"
  shows "shipped ms"
proof -
  obtain found where found: "discover_in digest dir [] = Inr found" "ms = sort_key mi_version found"
    using assms by (auto simp: discover_def split: sum.splits)
  have facts: "distinct (map mi_version found)" "\<forall>m \<in> set found. 0 < mi_version m"
    using discover_in_versions[OF found(1)] by auto
  have "distinct (map mi_version ms)"
    using facts(1) found(2) by (simp add: distinct_map)
  moreover have "sorted (map mi_version ms)" using found(2) by simp
  ultimately show ?thesis using facts(2) found(2) by (simp add: shipped_def strict_sorted_iff)
qed

lemma local_file_mem:
  assumes "shipped ms" "m \<in> set ms"
  shows "local_file ms (mi_version m) = Some m"
proof -
  have "\<exists>x \<in> set ms. mi_version x = mi_version m" using assms(2) by auto
  then obtain x where x: "local_file ms (mi_version m) = Some x"
    unfolding local_file_def by (cases "find (\<lambda>x. mi_version x = mi_version m) ms") (auto simp: find_None_iff)
  then have "x \<in> set ms" "mi_version x = mi_version m"
    unfolding local_file_def by (auto simp: find_Some_iff)
  then have "x = m" using shippedD(1)[OF assms(1)] assms(2) by (auto simp: distinct_map inj_on_def)
  then show ?thesis using x by simp
qed

section \<open>History\<close>

definition highest :: "ledger_row list \<Rightarrow> nat" where
  "highest rows = fold max (map fst rows) 0"

lemma le_fold_max: "v \<le> fold max (xs :: nat list) a \<longleftrightarrow> v \<le> a \<or> (\<exists>x \<in> set xs. v \<le> x)"
  by (induction xs arbitrary: a) auto

lemma highest_upper: "r \<in> set rows \<Longrightarrow> fst r \<le> highest rows"
  by (auto simp: highest_def le_fold_max)

lemma highest_append [simp]: "highest (rows @ [r]) = max (highest rows) (fst r)"
  by (simp add: highest_def max.commute)

lemma highest_mem: "highest rows = 0 \<or> highest rows \<in> set (map fst rows)"
  using le_fold_max[of "highest rows" "map fst rows" 0] highest_upper[of _ rows]
  unfolding highest_def[symmetric] by (metis (no_types, lifting) imageE image_eqI le_antisym le_zero_eq list.set_map order_refl)

lemma highest_set: "set rows = set rows' \<Longrightarrow> highest rows = highest rows'"
  using le_fold_max[of _ "map fst rows" 0] le_fold_max[of _ "map fst rows'" 0]
  unfolding highest_def by (intro antisym) auto

lemma highest_sort_key [simp]: "highest (sort_key fst rows) = highest rows"
  by (rule highest_set) simp

lemma db_version_highest: "db_version db = (case db_ledger db of None \<Rightarrow> 0 | Some rows \<Rightarrow> highest rows)"
  by (simp add: db_version_def highest_def split: option.splits)

definition row_of :: "migration \<Rightarrow> ledger_row" where
  "row_of m = (mi_version m, mi_name m, mi_checksum m)"

text \<open>A history is accepted when every row is a shipped file with the file's digest and no shipped file under the newest
  row is without one.\<close>

definition history_ok :: "migration list \<Rightarrow> ledger_row list \<Rightarrow> bool" where
  "history_ok ms rows \<longleftrightarrow> verify_history ms rows = None \<and> ledger_gap ms rows = []"

lemma verify_history_None:
  "verify_history ms rows = None \<longleftrightarrow> (\<forall>(v, n, c) \<in> set rows. \<exists>m. local_file ms v = Some m \<and> mi_checksum m = c)"
  by (induction ms rows rule: verify_history.induct) (auto split: option.splits)

lemma sort_key_Nil_iff: "sort_key f xs = [] \<longleftrightarrow> xs = []"
  by (metis length_0_conv length_sort)

lemma history_ok_iff:
  assumes "shipped ms"
  shows "history_ok ms rows \<longleftrightarrow>
    (\<forall>(v, n, c) \<in> set rows. \<exists>m \<in> set ms. mi_version m = v \<and> mi_checksum m = c) \<and>
    (\<forall>m \<in> set ms. mi_version m \<le> highest rows \<longrightarrow> mi_version m \<in> set (map fst rows))"
proof -
  have local: "(\<exists>m. local_file ms v = Some m \<and> mi_checksum m = c) \<longleftrightarrow> (\<exists>m \<in> set ms. mi_version m = v \<and> mi_checksum m = c)" for v c
    using local_file_mem[OF assms] by (auto simp: local_file_def find_Some_iff) (metis nth_mem)
  show ?thesis
    unfolding history_ok_def verify_history_None local
    by (auto simp: ledger_gap_def sort_key_Nil_iff filter_empty_conv highest_def Let_def)
qed

lemma history_ok_set:
  assumes "shipped ms" "set rows = set rows'"
  shows "history_ok ms rows = history_ok ms rows'"
  using assms by (simp add: history_ok_iff highest_set[OF assms(2)])

section \<open>The run over the pending files\<close>

lemma highest_pending: "pending_files ms rows = filter (\<lambda>m. highest rows < mi_version m) ms"
  by (simp add: pending_files_def highest_def)

lemma pending_step:
  assumes "shipped ms" "pending_files ms rows = m # rest"
  shows "m \<in> set ms" "highest rows < mi_version m" "\<forall>x \<in> set rest. mi_version m < mi_version x"
    "pending_files ms (rows @ [row_of m]) = rest"
proof -
  have "m \<in> set (pending_files ms rows)" using assms(2) by simp
  then show "m \<in> set ms" "highest rows < mi_version m" by (auto simp: highest_pending)
  have "sorted_wrt (\<lambda>x y. mi_version x < mi_version y) (m # rest)"
    using assms(1) unfolding shipped_def sorted_wrt_map assms(2)[symmetric] highest_pending
    by (auto intro: sorted_wrt_filter)
  then show later: "\<forall>x \<in> set rest. mi_version m < mi_version x" by simp
  have "pending_files ms (rows @ [row_of m]) = filter (\<lambda>x. mi_version m < mi_version x) (m # rest)"
    unfolding assms(2)[symmetric] highest_pending by (simp add: row_of_def conj_commute)
  then show "pending_files ms (rows @ [row_of m]) = rest" using later by (simp add: filter_id_conv)
qed

lemma history_step:
  assumes "shipped ms" "history_ok ms rows" "pending_files ms rows = m # rest"
  shows "history_ok ms (rows @ [row_of m])"
proof -
  note step = pending_step[OF assms(1,3)]
  have "mi_version x \<in> set (map fst (rows @ [row_of m]))"
    if x: "x \<in> set ms" "mi_version x \<le> highest (rows @ [row_of m])" for x
  proof (cases "mi_version x \<le> highest rows")
    case False
    then have "x \<in> set (m # rest)" using x(1) unfolding assms(3)[symmetric] highest_pending by simp
    moreover have "mi_version x \<le> mi_version m" using x(2) False by (simp add: row_of_def)
    ultimately show ?thesis using step(3) by (auto simp: row_of_def)
  qed (use x assms in \<open>auto simp: history_ok_iff\<close>)
  moreover have "\<forall>(v, n, c) \<in> set (rows @ [row_of m]). \<exists>x \<in> set ms. mi_version x = v \<and> mi_checksum x = c"
    using assms(2) step(1) by (auto simp: history_ok_iff[OF assms(1)] row_of_def)
  ultimately show ?thesis by (simp add: history_ok_iff[OF assms(1)])
qed

text \<open>The SQL of some files, in order.\<close>

fun run_sql :: "(string \<Rightarrow> schema \<Rightarrow> schema option) \<Rightarrow> migration list \<Rightarrow> schema \<Rightarrow> schema option" where
  "run_sql exec [] sc = Some sc"
| "run_sql exec (m # ms) sc = (case exec (mi_raw m) sc of None \<Rightarrow> None | Some sc' \<Rightarrow> run_sql exec ms sc')"

definition rest_of :: "migration_error + nat list \<Rightarrow> nat \<Rightarrow> migration_error + nat list" where
  "rest_of r k = (case r of Inl e \<Rightarrow> Inl e | Inr vs \<Rightarrow> Inr (drop k vs))"

lemma apply_file_success:
  assumes "apply_file exec m db = Inr db'"
  obtains rows sc where "db_ledger db = Some rows" "exec (mi_raw m) (db_schema db) = Some sc"
    "db' = \<lparr> db_ledger = Some (rows @ [row_of m]), db_schema = sc \<rparr>"
  using assms by (auto simp: apply_file_def row_of_def split: option.splits if_splits)

lemma apply_pending_last: "snd (apply_pending exec ps db) \<noteq> []"
  by (cases ps) (auto split: sum.splits prod.splits)

text \<open>A durable state: the ledger has grown by a prefix of the pending files, the schema is what exactly these files'
  SQL makes, the history is accepted, and the run from there is the rest of the run.\<close>

definition durable_point :: "(string \<Rightarrow> schema \<Rightarrow> schema option) \<Rightarrow> migration list \<Rightarrow> database \<Rightarrow> database \<Rightarrow> nat \<Rightarrow> bool" where
  "durable_point exec ps db d k \<longleftrightarrow>
     k \<le> length ps \<and> db_ledger d = map_option (\<lambda>rows. rows @ map row_of (take k ps)) (db_ledger db) \<and>
     run_sql exec (take k ps) (db_schema db) = Some (db_schema d) \<and>
     fst (apply_pending exec (drop k ps) d) = rest_of (fst (apply_pending exec ps db)) k \<and>
     final_db (apply_pending exec (drop k ps) d) = final_db (apply_pending exec ps db)"

lemma durable_point_0: "durable_point exec ps db db 0"
  by (auto simp: durable_point_def rest_of_def option.map_ident split: sum.splits)

lemma apply_pending_Inr:
  assumes "apply_file exec m db = Inr db'"
  shows "fst (apply_pending exec (m # ps) db) = map_sum id ((#) (mi_version m)) (fst (apply_pending exec ps db'))"
    "snd (apply_pending exec (m # ps) db) = db # snd (apply_pending exec ps db')"
  using assms by (auto split: sum.splits prod.splits)

lemma durable_point_Suc:
  assumes "apply_file exec m db = Inr db'" "durable_point exec ps db' d k"
  shows "durable_point exec (m # ps) db d (Suc k)"
proof -
  obtain rows sc where step: "db_ledger db = Some rows" "exec (mi_raw m) (db_schema db) = Some sc"
    "db' = \<lparr> db_ledger = Some (rows @ [row_of m]), db_schema = sc \<rparr>"
    by (rule apply_file_success[OF assms(1)])
  note point = assms(2)[unfolded durable_point_def] and run = apply_pending_Inr[OF assms(1), of ps]
  have "rest_of (map_sum id ((#) (mi_version m)) r) (Suc k) = rest_of r k" for r
    by (cases r) (simp_all add: rest_of_def)
  then show ?thesis
    using point step run apply_pending_last[of exec ps db']
    by (simp add: durable_point_def final_db_def del: apply_pending.simps)
qed

lemma durable_points:
  assumes "d \<in> set (snd (apply_pending exec ps db))"
  shows "\<exists>k. durable_point exec ps db d k"
  using assms
proof (induction ps arbitrary: db)
  case Nil
  then show ?case using durable_point_0[of exec "[]" db] by auto
next
  case (Cons m ps)
  show ?case
  proof (cases "d = db")
    case False
    then obtain db' where "apply_file exec m db = Inr db'" "d \<in> set (snd (apply_pending exec ps db'))"
      using Cons.prems by (auto split: sum.splits prod.splits)
    then show ?thesis using Cons.IH durable_point_Suc by blast
  qed (use durable_point_0 in auto)
qed

lemma history_prefix:
  assumes "shipped ms" "history_ok ms rows" "k \<le> length (pending_files ms rows)"
  shows "history_ok ms (rows @ map row_of (take k (pending_files ms rows))) \<and>
    pending_files ms (rows @ map row_of (take k (pending_files ms rows))) = drop k (pending_files ms rows)"
  using assms(3)
proof (induction k)
  case (Suc k)
  let ?ps = "pending_files ms rows" and ?rows = "rows @ map row_of (take k (pending_files ms rows))"
  have "drop k ?ps = ?ps ! k # drop (Suc k) ?ps" using Suc.prems by (simp add: Cons_nth_drop_Suc)
  then have next': "history_ok ms ?rows" "pending_files ms ?rows = ?ps ! k # drop (Suc k) ?ps"
    using Suc by simp_all
  have "?rows @ [row_of (?ps ! k)] = rows @ map row_of (take (Suc k) ?ps)"
    using Suc.prems by (simp add: take_Suc_conv_app_nth)
  then show ?case
    using history_step[OF assms(1) next'] pending_step(4)[OF assms(1) next'(2)] by simp
qed (use assms in simp)


section \<open>The runner\<close>

lemma recorded_created: "recorded_rows (create_ledger db) = recorded_rows db"
  by (simp add: recorded_rows_def create_ledger_def split: option.splits)

lemma create_ledger_Some: "db_ledger d = Some rows \<Longrightarrow> create_ledger d = d"
  by (cases d) (simp add: create_ledger_def)

definition known_rows :: "database \<Rightarrow> ledger_row list" where
  "known_rows db = (case db_ledger db of None \<Rightarrow> [] | Some rows \<Rightarrow> rows)"

lemma known_rows_created: "db_ledger (create_ledger db) = Some (known_rows db)" "known_rows (create_ledger db) = known_rows db"
  "db_schema (create_ledger db) = db_schema db"
  by (simp_all add: create_ledger_def known_rows_def)

lemma recorded_known: "set (recorded_rows db) = set (known_rows db)" "highest (recorded_rows db) = highest (known_rows db)"
  by (auto simp: recorded_rows_def known_rows_def split: option.splits)

text \<open>The rows the checks read are the ledger's in order, which leaves the decision and the pending files as they are.\<close>

lemma apply_migrations_ok:
  assumes "shipped ms" "history_ok ms (known_rows db)"
  shows "apply_migrations exec ms db =
    (fst (apply_pending exec (pending_files ms (known_rows db)) (create_ledger db)),
     db # snd (apply_pending exec (pending_files ms (known_rows db)) (create_ledger db)))"
proof -
  have "history_ok ms (recorded_rows db)" using assms history_ok_set[OF assms(1) recorded_known(1)] by blast
  moreover have "pending_files ms (recorded_rows db) = pending_files ms (known_rows db)"
    by (simp add: highest_pending recorded_known)
  ultimately show ?thesis
    by (auto simp: apply_migrations_def recorded_created history_ok_def Let_def split: prod.splits)
qed

lemma apply_migrations_refused:
  assumes "shipped ms" "\<not> history_ok ms (known_rows db)"
  shows "\<exists>e. apply_migrations exec ms db = (Inl e, [db, create_ledger db]) \<and> (\<forall>v. e \<noteq> ApplyFailed v)"
proof -
  have "\<not> history_ok ms (recorded_rows db)" using assms history_ok_set[OF assms(1) recorded_known(1)] by blast
  moreover have "verify_history ms rows = Some e \<Longrightarrow> e \<noteq> ApplyFailed v" for rows e v
    by (induction ms rows rule: verify_history.induct) (auto split: option.splits if_splits)
  ultimately show ?thesis
    by (auto simp: apply_migrations_def recorded_created history_ok_def Let_def split: option.splits)
qed

text \<open>Every durable state of a run, wherever it is interrupted and whether or not it succeeds, has a ledger that says
  what its schema is: the rows are those of before and one for each file of a prefix of the pending files, in order, and the
  schema is what the SQL of exactly these files made of the schema of before.\<close>

theorem ledger_tells_the_schema:
  assumes "discover digest dir = Inr ms" "d \<in> set (snd (apply_migrations exec ms db))"
  shows "\<exists>k. known_rows d = known_rows db @ map row_of (take k (pending_files ms (known_rows db))) \<and>
    run_sql exec (take k (pending_files ms (known_rows db))) (db_schema db) = Some (db_schema d)"
proof -
  note ships = discover_shipped[OF assms(1)]
  let ?ps = "pending_files ms (known_rows db)"
  have same: ?thesis if "d = db \<or> d = create_ledger db"
    using that by (intro exI[of _ 0]) (auto simp: known_rows_created)
  show ?thesis
  proof (cases "history_ok ms (known_rows db) \<and> d \<noteq> db")
    case True
    then have "d \<in> set (snd (apply_pending exec ?ps (create_ledger db)))"
      using assms(2) apply_migrations_ok[OF ships] by simp
    then obtain k where "durable_point exec ?ps (create_ledger db) d k" using durable_points by blast
    then have "db_ledger d = Some (known_rows db @ map row_of (take k ?ps))"
      "run_sql exec (take k ?ps) (db_schema db) = Some (db_schema d)"
      by (simp_all add: durable_point_def known_rows_created)
    then show ?thesis by (intro exI[of _ k]) (simp add: known_rows_def)
  next
    case False
    then show ?thesis using same assms(2) apply_migrations_refused[OF ships, of db exec] by auto
  qed
qed

text \<open>Claim C27. A run that is interrupted in any durable state and started again ends as the uninterrupted run: with the
  same database and, if it fails, with the same error.\<close>

theorem interrupted_run_resumes:
  assumes "discover digest dir = Inr ms" "d \<in> set (snd (apply_migrations exec ms db))"
  shows "final_db (apply_migrations exec ms d) = final_db (apply_migrations exec ms db) \<and>
    (\<exists>k. fst (apply_migrations exec ms d) = rest_of (fst (apply_migrations exec ms db)) k)"
proof -
  note ships = discover_shipped[OF assms(1)]
  let ?ps = "pending_files ms (known_rows db)"
  have start: ?thesis if "d = db" using that by (intro conjI exI[of _ 0]) (auto simp: rest_of_def split: sum.splits)
  show ?thesis
  proof (cases "history_ok ms (known_rows db)")
    case ok: True
    note run = apply_migrations_ok[OF ships ok, of exec]
    show ?thesis
    proof (cases "d = db")
      case False
      then obtain k where k: "durable_point exec ?ps (create_ledger db) d k"
        using assms(2) run durable_points[of d exec ?ps] by auto
      then have d: "db_ledger d = Some (known_rows db @ map row_of (take k ?ps))" "k \<le> length ?ps"
        by (simp_all add: durable_point_def known_rows_created)
      then have "known_rows d = known_rows db @ map row_of (take k ?ps)" by (simp add: known_rows_def)
      then have "history_ok ms (known_rows d)" "pending_files ms (known_rows d) = drop k ?ps"
        using history_prefix[OF ships ok d(2)] by simp_all
      then show ?thesis
        using k run apply_migrations_ok[OF ships, of d exec] create_ledger_Some[OF d(1)] apply_pending_last
        by (auto simp: durable_point_def final_db_def)
    qed (rule start)
  next
    case False
    then obtain e where e: "apply_migrations exec ms db = (Inl e, [db, create_ledger db])"
      using apply_migrations_refused[OF ships] by blast
    then have "d = db \<or> d = create_ledger db" using assms(2) by simp
    moreover have "apply_migrations exec ms (create_ledger db) = (Inl e, [create_ledger db, create_ledger db])"
      using e create_ledger_Some[OF known_rows_created(1)]
      by (auto simp: apply_migrations_def Let_def recorded_created split: option.splits if_splits prod.splits)
    ultimately show ?thesis using start e by (auto simp: final_db_def rest_of_def)
  qed
qed


lemma apply_pending_success:
  assumes "fst (apply_pending exec ps db) = Inr vs"
  shows "vs = map mi_version ps" "durable_point exec ps db (final_db (apply_pending exec ps db)) (length ps)"
proof -
  have "fst (apply_pending exec ps db) = Inr vs \<Longrightarrow> vs = map mi_version ps \<and>
      durable_point exec ps db (final_db (apply_pending exec ps db)) (length ps)" for vs
  proof (induction ps arbitrary: db vs)
    case Nil
    then show ?case using durable_point_0[of exec "[]" db] by (simp add: final_db_def)
  next
    case (Cons m ps)
    then obtain db' where step: "apply_file exec m db = Inr db'" by (cases "apply_file exec m db") auto
    note run = apply_pending_Inr[OF step, of ps]
    obtain vs' where vs': "fst (apply_pending exec ps db') = Inr vs'" "vs = mi_version m # vs'"
      using Cons.prems unfolding run by (cases "fst (apply_pending exec ps db')") auto
    have "final_db (apply_pending exec (m # ps) db) = final_db (apply_pending exec ps db')"
      using run(2) apply_pending_last[of exec ps db'] by (simp add: final_db_def del: apply_pending.simps)
    then show ?case using Cons.IH[OF vs'(1)] vs'(2) durable_point_Suc[OF step] by (simp del: apply_pending.simps)
  qed
  from this[OF assms] show "vs = map mi_version ps"
    "durable_point exec ps db (final_db (apply_pending exec ps db)) (length ps)" by auto
qed

lemma newest_local_upper:
  assumes "shipped ms" "m \<in> set ms"
  shows "mi_version m \<le> newest_local ms"
proof -
  have ne: "ms \<noteq> []" using assms(2) by auto
  have "sorted (map mi_version (butlast ms) @ [mi_version (last ms)])"
    using shippedD(2)[OF assms(1)] ne by (metis append_butlast_last_id list.simps(8,9) map_append)
  moreover have "m \<in> set (butlast ms) \<or> m = last ms"
    using assms(2) ne by (metis append_butlast_last_id in_set_butlast_appendI set_ConsD snoc_eq_iff_butlast split_list_last rotate1.simps(2) set_rotate1)
  ultimately show ?thesis using ne by (auto simp: newest_local_def sorted_append)
qed

lemma newest_local_mem: "ms \<noteq> [] \<Longrightarrow> newest_local ms \<in> mi_version ` set ms"
  by (simp add: newest_local_def)

lemma current_rows:
  assumes "shipped ms" "history_ok ms rows" "pending_files ms rows = []"
  shows "(\<lambda>(v, n, c). (v, c)) ` set rows = (\<lambda>m. (mi_version m, mi_checksum m)) ` set ms"
proof (intro equalityI subsetI)
  fix x
  assume "x \<in> (\<lambda>(v, n, c). (v, c)) ` set rows"
  then obtain v n c where x: "x = (v, c)" "(v, n, c) \<in> set rows" by auto
  then have "\<exists>m \<in> set ms. mi_version m = v \<and> mi_checksum m = c" using assms(2) history_ok_iff[OF assms(1)] by fast
  then show "x \<in> (\<lambda>m. (mi_version m, mi_checksum m)) ` set ms" using x(1) by auto
next
  fix x
  assume "x \<in> (\<lambda>m. (mi_version m, mi_checksum m)) ` set ms"
  then obtain m where x: "x = (mi_version m, mi_checksum m)" "m \<in> set ms" by auto
  then have "mi_version m \<le> highest rows" using assms(3) by (auto simp: highest_pending filter_empty_conv not_less)
  then have "mi_version m \<in> set (map fst rows)" using x(2) assms(2) history_ok_iff[OF assms(1)] by blast
  then obtain n c where row: "(mi_version m, n, c) \<in> set rows" by auto
  then obtain m' where m': "m' \<in> set ms" "mi_version m' = mi_version m" "mi_checksum m' = c"
    using assms(2) history_ok_iff[OF assms(1)] by fast
  then have "m' = m" using shippedD(1)[OF assms(1)] x(2) by (auto simp: distinct_map inj_on_def)
  then show "x \<in> (\<lambda>(v, n, c). (v, c)) ` set rows" using row m'(3) x(1) by force
qed

lemma current_version_newest:
  assumes "shipped ms" "history_ok ms rows" "pending_files ms rows = []" "ms \<noteq> []"
  shows "highest rows = newest_local ms"
proof (rule antisym)
  have "fst ` ((\<lambda>(v, n, c). (v, c)) ` set rows) = fst ` ((\<lambda>m. (mi_version m, mi_checksum m)) ` set ms)"
    by (simp only: current_rows[OF assms(1-3)])
  then have versions: "fst ` set rows = mi_version ` set ms"
    by (simp add: image_image case_prod_unfold)
  show "newest_local ms \<le> highest rows"
    using newest_local_mem[OF assms(4)] highest_upper[of _ rows] unfolding versions[symmetric] by (metis imageE)
  show "highest rows \<le> newest_local ms"
    using highest_mem[of rows] versions newest_local_upper[OF assms(1)] by (auto simp: set_map)
qed

text \<open>A run that succeeds brings the database to exactly the shipped files: its version is the newest file's, every
  ledger row is a shipped file with that file's digest and every shipped file has its row, the files it reports are the
  pending ones in order, writers find the schema compatible, and another run does nothing, whatever the SQL would do.\<close>

theorem successful_run_is_current:
  assumes "discover digest dir = Inr ms" "ms \<noteq> []" "fst (apply_migrations exec ms db) = Inr vs"
  shows "let d = final_db (apply_migrations exec ms db) in
    vs = map mi_version (pending_files ms (known_rows db)) \<and>
    (\<lambda>(v, n, c). (v, c)) ` set (known_rows d) = (\<lambda>m. (mi_version m, mi_checksum m)) ` set ms \<and>
    db_version d = newest_local ms \<and> check_compatible ms d = None \<and>
    apply_migrations exec' ms d = (Inr [], [d, d])"
proof -
  note ships = discover_shipped[OF assms(1)]
  let ?ps = "pending_files ms (known_rows db)" and ?d = "final_db (apply_migrations exec ms db)"
  have ok: "history_ok ms (known_rows db)"
  proof (rule ccontr)
    assume "\<not> history_ok ms (known_rows db)"
    then show False using apply_migrations_refused[OF ships, of db exec] assms(3) by auto
  qed
  note run = apply_migrations_ok[OF ships ok, of exec]
  have done': "vs = map mi_version ?ps"
    "durable_point exec ?ps (create_ledger db) (final_db (apply_pending exec ?ps (create_ledger db))) (length ?ps)"
    using apply_pending_success[of exec ?ps "create_ledger db" vs] assms(3) run by simp_all
  moreover have "final_db (apply_pending exec ?ps (create_ledger db)) = ?d"
    using run apply_pending_last by (simp add: final_db_def)
  ultimately have ledger: "db_ledger ?d = Some (known_rows db @ map row_of ?ps)"
    by (simp add: durable_point_def known_rows_created)
  then have known: "known_rows ?d = known_rows db @ map row_of ?ps" by (simp add: known_rows_def)
  have hist: "history_ok ms (known_rows ?d)" and none: "pending_files ms (known_rows ?d) = []"
    using history_prefix[OF ships ok, of "length ?ps"] known by simp_all
  note rows = current_rows[OF ships hist none]
  have "db_version ?d = newest_local ms"
    using current_version_newest[OF ships hist none assms(2)] ledger known by (simp add: db_version_highest)
  moreover have "0 < newest_local ms" using ships newest_local_mem[OF assms(2)] by (auto simp: shipped_def)
  moreover have "apply_migrations exec' ms ?d = (Inr [], [?d, ?d])"
    using apply_migrations_ok[OF ships hist, of exec'] none create_ledger_Some[OF ledger] by simp
  ultimately show ?thesis
    using done'(1) rows by (simp add: Let_def check_compatible_def MINIMUM_COMPATIBLE_def)
qed

text \<open>A database that a newer release migrated is refused by both guards: writers find it too new, and the runner
  changes nothing but an absent ledger.\<close>

theorem newer_database_is_refused:
  assumes "discover digest dir = Inr ms" "newest_local ms < db_version db"
  shows "check_compatible ms db = Some (TooNew (db_version db) (newest_local ms)) \<and>
    (\<exists>e. apply_migrations exec ms db = (Inl e, [db, db]))"
proof -
  note ships = discover_shipped[OF assms(1)]
  obtain rows where rows: "db_ledger db = Some rows" "newest_local ms < highest rows"
    using assms(2) by (auto simp: db_version_highest split: option.splits)
  have "\<not> history_ok ms (known_rows db)"
  proof
    assume "history_ok ms (known_rows db)"
    moreover have "highest rows \<in> set (map fst rows)" using highest_mem[of rows] rows(2) by auto
    ultimately obtain m where "m \<in> set ms" "mi_version m = highest rows"
      using rows(1) by (auto simp: history_ok_iff[OF ships] known_rows_def)
    then show False using newest_local_upper[OF ships] rows(2) by fastforce
  qed
  then show ?thesis
    using apply_migrations_refused[OF ships, of db exec] create_ledger_Some[OF rows(1)] assms(2)
    by (auto simp: check_compatible_def MINIMUM_COMPATIBLE_def)
qed

text \<open>The shape check asks for the baseline's tables, columns and indexes only: what a database has besides passes.\<close>

lemma larger_shape_passes:
  assumes "verify_baseline_shape sc = []" "set (sc_columns sc) \<subseteq> set (sc_columns sc')" "set (sc_indexes sc) \<subseteq> set (sc_indexes sc')"
  shows "verify_baseline_shape sc' = []"
proof -
  have sub: "set (columns_of sc t) \<subseteq> set (columns_of sc' t)" for t using assms(2) by (auto simp: columns_of_def)
  then have live: "columns_of sc t \<noteq> [] \<Longrightarrow> columns_of sc' t \<noteq> []" for t by (metis set_empty subset_empty)
  have passes: "verify_baseline_shape x = [] \<longleftrightarrow>
      (\<forall>(t, cols) \<in> set BASELINE_SHAPE. columns_of x t \<noteq> [] \<and> set cols \<subseteq> set (columns_of x t)) \<and>
      set BASELINE_INDEXES \<subseteq> set (sc_indexes x)" for x
    unfolding verify_baseline_shape_def append_is_Nil_conv concat_eq_Nil_conv set_map ball_simps
    by (auto simp: list_all_iff split: if_splits prod.splits)
  show ?thesis
    using assms(1,3) sub live unfolding passes by blast
qed


section \<open>Runs\<close>

definition two_files :: directory where
  "two_files = [(''002_a.sql'', ''a''), (''003_b.sql'', ''b''), (''notes.txt'', ''-'')]"

definition two_migrations :: "migration list" where
  "two_migrations = [load_migration id 2 ''a'' ''a'', load_migration id 3 ''b'' ''b'']"

lemma two_files_discovered: "discover id two_files = Inr two_migrations"
  by code_simp

definition add_column :: "string \<Rightarrow> schema \<Rightarrow> schema option" where
  "add_column raw sc = (if raw = ''fails'' then None else Some (sc\<lparr> sc_columns := (''t'', raw) # sc_columns sc \<rparr>))"

definition empty_db :: database where
  "empty_db = \<lparr> db_ledger = None, db_schema = \<lparr> sc_columns = [], sc_indexes = [] \<rparr> \<rparr>"

definition half_db :: database where
  "half_db = \<lparr> db_ledger = Some [(2, ''a'', ''a'')], db_schema = \<lparr> sc_columns = [(''t'', ''a'')], sc_indexes = [] \<rparr> \<rparr>"

definition full_db :: database where
  "full_db = \<lparr> db_ledger = Some [(2, ''a'', ''a''), (3, ''b'', ''b'')],
     db_schema = \<lparr> sc_columns = [(''t'', ''b''), (''t'', ''a'')], sc_indexes = [] \<rparr> \<rparr>"

lemma two_files_run:
  "apply_migrations add_column two_migrations empty_db = (Inr [2, 3], [empty_db, create_ledger empty_db, half_db, full_db])"
  by code_simp

lemma ledger_tells_the_schema_witness:
  "\<exists>k. known_rows half_db = known_rows empty_db @ map row_of (take k (pending_files two_migrations (known_rows empty_db))) \<and>
    run_sql add_column (take k (pending_files two_migrations (known_rows empty_db))) (db_schema empty_db) = Some (db_schema half_db)"
  by (rule ledger_tells_the_schema[OF two_files_discovered]) (simp add: two_files_run)

lemma interrupted_run_resumes_witness:
  "final_db (apply_migrations add_column two_migrations half_db) = full_db \<and> half_db \<noteq> empty_db \<and> half_db \<noteq> full_db"
proof -
  have "final_db (apply_migrations add_column two_migrations half_db) = final_db (apply_migrations add_column two_migrations empty_db)"
    using interrupted_run_resumes[OF two_files_discovered, of half_db add_column empty_db] by (simp add: two_files_run)
  then show ?thesis unfolding final_db_def two_files_run by (simp add: half_db_def empty_db_def full_db_def)
qed

lemma successful_run_is_current_witness:
  "check_compatible two_migrations full_db = None \<and> apply_migrations add_column two_migrations full_db = (Inr [], [full_db, full_db])"
  using successful_run_is_current[OF two_files_discovered, of add_column empty_db "[2, 3]" add_column]
  unfolding final_db_def two_files_run Let_def by (simp add: two_migrations_def)

lemma newer_database_is_refused_witness:
  "\<exists>e. apply_migrations add_column (take 1 two_migrations) full_db = (Inl e, [full_db, full_db])"
proof -
  have one: "discover id (take 1 two_files) = Inr (take 1 two_migrations)" by code_simp
  have newer: "newest_local (take 1 two_migrations) < db_version full_db" by code_simp
  show ?thesis using newer_database_is_refused[OF one newer] by blast
qed

end
