(* ===== verification/Metrics.thy ===== *)
theory Metrics
  imports Prelude "HOL-Library.Sublist" "HOL-Library.Multiset"
begin

text \<open>
  The primary metrics of \<open>gateway/app/evaluation.py\<close>: task accuracy, top-1 accuracy, word error rate, recall at k, the
  area under the ROC curve and perplexity.  Scores are rationals (perplexity, an exponential, a real); text is ASCII.  The
  edit distance is proved to be the least number of single-token edits, the rank sum to be the share of correctly ordered
  pairs.
\<close>

section \<open>Accuracy\<close>

datatype metric_error = EvalError string | IndexError

definition edge_punctuation :: "char list" where
  "edge_punctuation = ''.,!?;:'' @ [CHR 0x22, CHR 0x27, CHR 0x60]"

definition strip_of :: "char list \<Rightarrow> string \<Rightarrow> string" where
  "strip_of cs s = rev (dropWhile (\<lambda>c. c \<in> set cs) (rev (dropWhile (\<lambda>c. c \<in> set cs) s)))"

definition join_words :: "string list \<Rightarrow> string" where
  "join_words ws = concat (case ws of [] \<Rightarrow> [] | w # ws \<Rightarrow> w # map (\<lambda>v. '' '' @ v) ws)"

definition norm_text :: "string \<Rightarrow> string" where
  "norm_text s = strip_of edge_punctuation (join_words (split_words (map lower_char (strip s)) []))"

definition contains_subsequence :: "'a list \<Rightarrow> 'a list \<Rightarrow> bool" where
  "contains_subsequence haystack needle = (let n = length needle in
     0 < n \<and> list_ex (\<lambda>i. take n (drop i haystack) = needle) [0..<length haystack + 1 - n])"

definition answer_hit :: "string \<Rightarrow> string \<Rightarrow> bool" where
  "answer_hit p r = (let np = norm_text p; nr = norm_text r
     in nr \<noteq> [] \<and> (np = nr \<or> contains_subsequence (split_words np []) (split_words nr [])))"

text \<open>The share of the references that are hit; predictions are paired by \<open>zip\<close>.\<close>

definition hit_share :: "('a \<Rightarrow> 'b \<Rightarrow> bool) \<Rightarrow> 'a list \<Rightarrow> 'b list \<Rightarrow> metric_error + rat" where
  "hit_share hit preds refs = (if refs = [] then Inl (EvalError ''empty benchmark'')
     else Inr (of_nat (length (filter (\<lambda>(p, r). hit p r) (zip preds refs))) / of_nat (length refs)))"

definition task_accuracy :: "string list \<Rightarrow> string list \<Rightarrow> metric_error + rat" where
  "task_accuracy = hit_share answer_hit"

definition accuracy :: "string list \<Rightarrow> string list \<Rightarrow> metric_error + rat" where
  "accuracy = hit_share (=)"

definition recall_at_k :: "nat \<Rightarrow> 'a list list \<Rightarrow> 'a list \<Rightarrow> metric_error + rat" where
  "recall_at_k k = hit_share (\<lambda>got rel. rel \<in> set (take k got))"

section \<open>Edit distance\<close>

text \<open>One cell and one row of the table; \<open>cur\<close> starts with the row's index.\<close>

definition cell :: "'a \<Rightarrow> nat list \<Rightarrow> nat list \<Rightarrow> nat \<times> 'a \<Rightarrow> nat list" where
  "cell ca prev cur jb = (case jb of (j, cb) \<Rightarrow>
     cur @ [min (min (prev ! j + 1) (cur ! (j - 1) + 1)) (prev ! (j - 1) + (if ca \<noteq> cb then 1 else 0))])"

definition dp_row :: "'a list \<Rightarrow> nat list \<Rightarrow> nat \<times> 'a \<Rightarrow> nat list" where
  "dp_row b prev ia = (case ia of (i, ca) \<Rightarrow> foldl (cell ca prev) [i] (enumerate 1 b))"

definition edit_distance :: "'a list \<Rightarrow> 'a list \<Rightarrow> nat" where
  "edit_distance a b = last (foldl (dp_row b) [0..<length b + 1] (enumerate 1 a))"

definition wer :: "string list \<Rightarrow> string list \<Rightarrow> metric_error + rat" where
  "wer hyps refs = (let pairs = map (\<lambda>(h, r). (split_words h [], split_words r [])) (zip hyps refs);
       edits = sum_list (map (\<lambda>(h, r). edit_distance h r) pairs); total = sum_list (map (\<lambda>(h, r). length r) pairs)
     in if total = 0 then Inl (EvalError ''empty reference'') else Inr (of_nat edits / of_nat total))"

section \<open>Area under the curve\<close>

text \<open>The end of the run of equal scores that starts at \<open>i\<close>, from \<open>j\<close> on, and the loop over the runs.\<close>

function tie_end :: "rat list \<Rightarrow> nat list \<Rightarrow> nat \<Rightarrow> nat \<Rightarrow> nat" where
  "tie_end scores order i j = (if j + 1 < length order \<and> scores ! (order ! (j + 1)) = scores ! (order ! i)
     then tie_end scores order i (j + 1) else j)"
  by pat_completeness auto
termination by (relation "measure (\<lambda>(scores, order, i, j). length order - j)") auto

declare tie_end.simps [simp del]

lemma tie_end_ge: "j \<le> tie_end scores order i j"
  by (induction scores order i j rule: tie_end.induct) (subst tie_end.simps, auto)

function rank_loop :: "rat list \<Rightarrow> nat list \<Rightarrow> nat \<Rightarrow> rat list \<Rightarrow> rat list" where
  "rank_loop scores order i ranks = (if i < length order
     then let j = tie_end scores order i i; avg = (of_nat (i + j)) / 2 + 1
       in rank_loop scores order (j + 1) (fold (\<lambda>t rs. rs[order ! t := avg]) [i..<j + 1] ranks)
     else ranks)"
  by pat_completeness auto
termination
  using tie_end_ge by (relation "measure (\<lambda>(scores, order, i, ranks). length order - i)") (auto simp: less_Suc_eq_le intro!: diff_less_mono2)

declare rank_loop.simps [simp del]

definition score_ranks :: "rat list \<Rightarrow> rat list" where
  "score_ranks scores = rank_loop scores (sort_key (\<lambda>i. scores ! i) [0..<length scores]) 0 (replicate (length scores) 0)"

definition auc :: "rat list \<Rightarrow> int list \<Rightarrow> metric_error + rat" where
  "auc scores labels = (let pos = map fst (filter (\<lambda>(s, y). y = 1) (zip scores labels));
       neg = map fst (filter (\<lambda>(s, y). y = 0) (zip scores labels))
     in if pos = [] \<or> neg = [] then Inl (EvalError ''AUC needs both positive and negative labels'')
        else if length labels < length scores then Inl IndexError
        else let ranks = score_ranks scores;
            rank_pos = sum_list (map (\<lambda>i. ranks ! i) (filter (\<lambda>i. labels ! i = 1) [0..<length scores]));
            n_pos = of_nat (length pos); n_neg = of_nat (length neg)
          in Inr ((rank_pos - n_pos * (n_pos + 1) / 2) / (n_pos * n_neg)))"

section \<open>Perplexity\<close>

datatype nll = Logprobs "real list" | Logprob real

definition flat_nlls :: "nll list \<Rightarrow> real list" where
  "flat_nlls xs = concat (map (\<lambda>x. case x of Logprobs ys \<Rightarrow> ys | Logprob y \<Rightarrow> [y]) xs)"

definition perplexity :: "nll list \<Rightarrow> metric_error + real" where
  "perplexity xs = (let flat = flat_nlls xs in if flat = [] then Inl (EvalError ''no token log-likelihoods'')
     else Inr (exp (sum_list flat / real (length flat))))"

section \<open>Accuracy is a share\<close>

lemma hit_share_bounds:
  assumes "hit_share hit preds refs = Inr x"
  shows "0 \<le> x \<and> x \<le> 1"
proof -
  let ?hits = "length (filter (\<lambda>(p, r). hit p r) (zip preds refs))"
  have "?hits \<le> length (zip preds refs)" by (rule length_filter_le)
  also have "\<dots> \<le> length refs" by simp
  finally have "(of_nat ?hits :: rat) \<le> of_nat (length refs)" by simp
  then show ?thesis using assms by (auto simp: hit_share_def divide_le_eq split: if_splits)
qed

lemma hit_share_full:
  assumes "hit_share hit preds refs = Inr 1"
  shows "length refs \<le> length preds \<and> (\<forall>i < length refs. hit (preds ! i) (refs ! i))"
proof -
  let ?zs = "zip preds refs"
  have "length (filter (\<lambda>(p, r). hit p r) ?zs) = length refs"
    using assms by (auto simp: hit_share_def field_simps of_nat_eq_iff split: if_splits)
  moreover have "length (filter (\<lambda>(p, r). hit p r) ?zs) \<le> length ?zs" by (rule length_filter_le)
  moreover have "length ?zs \<le> length refs" by simp
  ultimately have full: "length ?zs = length refs" "length (filter (\<lambda>(p, r). hit p r) ?zs) = length ?zs" by simp_all
  have "\<forall>z \<in> set ?zs. case z of (p, r) \<Rightarrow> hit p r"
    using full(2) length_filter_less[of _ ?zs "\<lambda>(p, r). hit p r"] by (metis less_irrefl)
  moreover have "length refs \<le> length preds" using full(1) by simp
  ultimately show ?thesis by (fastforce simp: set_zip)
qed

lemma contains_subsequence_sublist: "contains_subsequence h n \<longleftrightarrow> n \<noteq> [] \<and> sublist n h"
proof
  assume "contains_subsequence h n"
  then obtain i where "n \<noteq> []" "take (length n) (drop i h) = n"
    by (auto simp: contains_subsequence_def list_ex_iff Let_def)
  then show "n \<noteq> [] \<and> sublist n h" by (metis sublist_drop sublist_order.order_trans sublist_take)
next
  assume n: "n \<noteq> [] \<and> sublist n h"
  then obtain ps ss where "h = ps @ n @ ss" by (auto simp: sublist_def)
  then have "take (length n) (drop (length ps) h) = n" "length ps < length h + 1 - length n" by simp_all
  then show "contains_subsequence h n" using n by (auto simp: contains_subsequence_def list_ex_iff Let_def)
qed

section \<open>The edit distance is the least number of edits\<close>

text \<open>One edit inserts, deletes or replaces one token.\<close>

inductive edit1 :: "'a list \<Rightarrow> 'a list \<Rightarrow> bool" where
  ins: "edit1 (u @ v) (u @ [x] @ v)"
| del: "edit1 (u @ [x] @ v) (u @ v)"
| sub: "edit1 (u @ [x] @ v) (u @ [y] @ v)"

fun lev :: "'a list \<Rightarrow> 'a list \<Rightarrow> nat" where
  "lev [] ys = length ys"
| "lev (x # xs) [] = Suc (length xs)"
| "lev (x # xs) (y # ys) = min (min (lev xs (y # ys) + 1) (lev (x # xs) ys + 1)) (lev xs ys + (if x \<noteq> y then 1 else 0))"

lemma lev_Nil2 [simp]: "lev xs [] = length xs"
  by (cases xs) simp_all

lemma lev_refl [simp]: "lev xs xs = 0"
  by (induction xs) simp_all

lemma lev_cons_le: "lev (x # xs) ys \<le> Suc (lev xs ys)"
  by (cases ys) simp_all

lemma lev_cons_right: "lev xs (y # ys) \<le> Suc (lev xs ys)"
  by (cases xs) simp_all

lemma lev_le_cons: "lev xs ys \<le> Suc (lev (x # xs) ys)"
proof (induction ys)
  case (Cons y ys)
  then show ?case using lev_cons_right[of xs y ys] by simp
qed simp

lemma lev_cong:
  assumes "\<And>zs. lev xs zs \<le> Suc (lev ys zs)"
  shows "lev (x # xs) zs \<le> Suc (lev (x # ys) zs)"
proof (induction zs)
  case Nil
  then show ?case using assms[of "[]"] by simp
next
  case (Cons z zs)
  show ?case using assms[of "z # zs"] assms[of zs] Cons by simp
qed

lemma lev_edit1: "edit1 xs ys \<Longrightarrow> lev xs zs \<le> Suc (lev ys zs)"
proof (induction xs ys arbitrary: zs rule: edit1.induct)
  case (ins u v x)
  then show ?case by (induction u arbitrary: zs) (auto simp: lev_le_cons intro: lev_cong simp del: lev.simps)
next
  case (del u x v)
  then show ?case by (induction u arbitrary: zs) (auto simp: lev_cons_le intro: lev_cong simp del: lev.simps)
next
  case (sub u x v y)
  have "lev (x # v) zs \<le> Suc (lev (y # v) zs)" for zs
    by (induction zs) (use lev_cons_le lev_le_cons in auto)
  then show ?case by (induction u arbitrary: zs) (auto intro: lev_cong simp del: lev.simps)
qed

lemma lev_steps_le: "(edit1 ^^ n) xs ys \<Longrightarrow> lev xs ys \<le> n"
proof (induction n arbitrary: xs)
  case (Suc n)
  then obtain zs where "edit1 xs zs" "(edit1 ^^ n) zs ys" by (metis relpowp_Suc_E2)
  then show ?case using Suc.IH lev_edit1[of xs zs ys] by fastforce
qed simp

lemma edit1_Cons: "edit1 xs ys \<Longrightarrow> edit1 (x # xs) (x # ys)"
proof (induction rule: edit1.induct)
  case (ins u v y)
  show ?case using edit1.ins[of "x # u" v y] by simp
next
  case (del u y v)
  show ?case using edit1.del[of "x # u" y v] by simp
next
  case (sub u y v z)
  show ?case using edit1.sub[of "x # u" y v z] by simp
qed

lemma edits_Cons: "(edit1 ^^ n) xs ys \<Longrightarrow> (edit1 ^^ n) (x # xs) (x # ys)"
  by (induction n arbitrary: ys) (auto intro: edit1_Cons)

lemma edit1_first: "edit1 (x # xs) xs" "edit1 xs (x # xs)" "edit1 (x # xs) (y # xs)"
  using edit1.del[of "[]" x xs] edit1.ins[of "[]" xs x] edit1.sub[of "[]" x xs y] by simp_all

lemma lev_reached: "(edit1 ^^ lev xs ys) xs ys"
proof (induction xs ys rule: lev.induct)
  case (1 ys)
  show ?case by (induction ys) (auto intro: edit1_first)
next
  case (2 x xs)
  have "(edit1 ^^ length xs) xs []" for xs :: "'a list"
  proof (induction xs)
    case (Cons x xs)
    then show ?case using relpowp_Suc_I2[of edit1 "x # xs" xs "length xs" "[]"] edit1_first(1)[of x xs] by simp
  qed simp
  then show ?case using relpowp_Suc_I2[of edit1 "x # xs" xs "length xs" "[]"] edit1_first(1)[of x xs] by simp
next
  case (3 x xs y ys)
  let ?a = "lev xs (y # ys)" and ?b = "lev (x # xs) ys" and ?c = "lev xs ys"
  have a: "(edit1 ^^ Suc ?a) (x # xs) (y # ys)"
    using relpowp_Suc_I2[OF edit1_first(1) "3.IH"(1)] .
  have b: "(edit1 ^^ Suc ?b) (x # xs) (y # ys)"
    using relpowp_Suc_I[OF "3.IH"(2) edit1_first(2)] .
  have c: "(edit1 ^^ (?c + (if x \<noteq> y then 1 else 0))) (x # xs) (y # ys)"
  proof (cases "x = y")
    case True
    then show ?thesis using edits_Cons[OF "3.IH"(3), of x] by simp
  next
    case False
    then show ?thesis using relpowp_Suc_I2[OF edit1_first(3) edits_Cons[OF "3.IH"(3), of y], of x] by simp
  qed
  consider "lev (x # xs) (y # ys) = Suc ?a" | "lev (x # xs) (y # ys) = Suc ?b"
    | "lev (x # xs) (y # ys) = ?c + (if x \<noteq> y then 1 else 0)"
    by (simp add: min_def) presburger
  then show ?case by cases (use a b c in \<open>simp_all only:\<close>)
qed

lemma edit1_rev: "edit1 xs ys \<Longrightarrow> edit1 (rev xs) (rev ys)"
proof (induction rule: edit1.induct)
  case (ins u v x)
  show ?case using edit1.ins[of "rev v" "rev u" x] by simp
next
  case (del u x v)
  show ?case using edit1.del[of "rev v" x "rev u"] by simp
next
  case (sub u x v y)
  show ?case using edit1.sub[of "rev v" x "rev u" y] by simp
qed

lemma edits_rev: "(edit1 ^^ n) xs ys \<Longrightarrow> (edit1 ^^ n) (rev xs) (rev ys)"
  by (induction n arbitrary: ys) (auto intro: edit1_rev)

lemma lev_rev: "lev (rev xs) (rev ys) = lev xs ys"
  using lev_steps_le[OF edits_rev[OF lev_reached[of xs ys]]] lev_steps_le[OF edits_rev[OF lev_reached[of "rev xs" "rev ys"]]]
  by simp

text \<open>The recurrence on prefixes, which the table follows.\<close>

lemma lev_snoc:
  "lev (xs @ [x]) (ys @ [y]) = min (min (lev xs (ys @ [y]) + 1) (lev (xs @ [x]) ys + 1)) (lev xs ys + (if x \<noteq> y then 1 else 0))"
  using lev_rev[of "xs @ [x]" "ys @ [y]"] lev_rev[of xs "ys @ [y]"] lev_rev[of "xs @ [x]" ys] lev_rev[of xs ys] by simp

text \<open>Row \<open>i\<close> of the table holds the distances of the first \<open>i\<close> tokens to every prefix.\<close>

definition dist_row :: "'a list \<Rightarrow> 'a list \<Rightarrow> nat list" where
  "dist_row xs b = map (\<lambda>j. lev xs (take j b)) [0..<length b + 1]"

lemma dist_row_snoc: "dist_row xs (b @ [y]) = dist_row xs b @ [lev xs (b @ [y])]"
  by (simp add: dist_row_def)

lemma dp_row_step:
  assumes "\<forall>j \<le> length b. prev ! j = lev xs (take j b)"
  shows "dp_row b prev (Suc (length xs), x) = dist_row (xs @ [x]) b"
  using assms
proof (induction b rule: rev_induct)
  case Nil
  then show ?case by (simp add: dp_row_def dist_row_def)
next
  case (snoc y b)
  have prev: "prev ! j = lev xs (take j b)" if "j \<le> length b" for j using snoc.prems that by simp
  have here: "prev ! Suc (length b) = lev xs (b @ [y])" using snoc.prems by simp
  have row: "dp_row b prev (Suc (length xs), x) = dist_row (xs @ [x]) b" using snoc.IH prev by simp
  then have "dp_row (b @ [y]) prev (Suc (length xs), x) = cell x prev (dist_row (xs @ [x]) b) (Suc (length b), y)"
    by (simp add: dp_row_def enumerate_append_eq)
  moreover have "dist_row (xs @ [x]) b ! length b = lev (xs @ [x]) b"
    by (simp add: dist_row_def nth_append)
  ultimately show ?case
    using here prev[of "length b"] by (simp add: cell_def dist_row_snoc lev_snoc)
qed

lemma dp_rows: "foldl (dp_row b) [0..<length b + 1] (enumerate 1 a) = dist_row a b"
proof (induction a rule: rev_induct)
  case Nil
  show ?case by (rule nth_equalityI) (simp_all add: dist_row_def less_Suc_eq_le del: upt_Suc)
next
  case (snoc x a)
  have "\<forall>j \<le> length b. dist_row a b ! j = lev a (take j b)"
    by (auto simp: dist_row_def nth_append less_Suc_eq_le simp del: upt_Suc)
  then show ?case using snoc dp_row_step by (simp add: enumerate_append_eq)
qed

lemma edit_distance_lev: "edit_distance a b = lev a b"
  by (simp add: edit_distance_def dp_rows[simplified] dist_row_def)

text \<open>Claim C31. The edit distance is reached by that many insertions, deletions and replacements of one token and by no
  fewer, so the word error rate of one pair is the least number of word edits over the words of the reference.\<close>

theorem edit_distance_is_least:
  "(edit1 ^^ edit_distance a b) a b \<and> (\<forall>n < edit_distance a b. \<not> (edit1 ^^ n) a b)"
  using lev_reached[of a b] lev_steps_le[of _ a b] unfolding edit_distance_lev by (meson leD)

theorem edit_distance_is_least_witness:
  "edit_distance [''a'', ''b'', ''c''] [''a'', ''d''] = 2 \<and> (edit1 ^^ 2) [''a'', ''b'', ''c''] [''a'', ''d''] \<and>
    \<not> (edit1 ^^ 1) [''a'', ''b'', ''c''] [''a'', ''d'']"
proof -
  have "edit_distance [''a'', ''b'', ''c''] [''a'', ''d''] = 2" by code_simp
  moreover have "(1::nat) < 2" by simp
  ultimately show ?thesis using edit_distance_is_least[of "[''a'', ''b'', ''c'']" "[''a'', ''d'']"] by metis
qed


section \<open>The rank sum counts ordered pairs\<close>

text \<open>A positive score against a negative one: won, tied or lost.\<close>

definition pair_score :: "rat \<Rightarrow> rat \<Rightarrow> rat" where
  "pair_score p q = (if q < p then 1 else if q = p then 1 / 2 else 0)"

definition wins :: "rat list \<Rightarrow> rat \<Rightarrow> rat" where
  "wins qs p = sum_list (map (pair_score p) qs)"

lemma wins_append [simp]: "wins (xs @ ys) p = wins xs p + wins ys p"
  by (simp add: wins_def)

lemma wins_perm: "mset xs = mset ys \<Longrightarrow> wins xs p = wins ys p"
  unfolding wins_def by (metis mset_map sum_mset_sum_list)

lemma wins_const:
  "\<forall>q \<in> set qs. q < p \<Longrightarrow> wins qs p = of_nat (length qs)"
  "\<forall>q \<in> set qs. q = p \<Longrightarrow> wins qs p = of_nat (length qs) / 2"
  "\<forall>q \<in> set qs. p < q \<Longrightarrow> wins qs p = 0"
  by (induction qs) (auto simp: wins_def pair_score_def field_simps)

text \<open>Against themselves some scores win half of all pairs.\<close>

lemma wins_self: "sum_list (map (wins xs) xs) = of_nat (length xs) ^ 2 / 2"
proof (induction xs)
  case (Cons x xs)
  have "sum_list (map (\<lambda>p. pair_score p x) xs) + wins xs x = of_nat (length xs)"
    by (induction xs) (auto simp: wins_def pair_score_def)
  moreover have "sum_list (map (wins (x # xs)) xs) = sum_list (map (\<lambda>p. pair_score p x) xs) + sum_list (map (wins xs) xs)"
  proof -
    have "map (wins (x # xs)) xs = map (\<lambda>p. pair_score p x + wins xs p) xs" by (simp add: wins_def)
    then show ?thesis by (simp only: sum_list_addf)
  qed
  moreover have "sum_list (map (wins (x # xs)) (x # xs)) = 1 / 2 + wins xs x + sum_list (map (wins (x # xs)) xs)"
    by (simp add: wins_def pair_score_def)
  ultimately have "sum_list (map (wins (x # xs)) (x # xs)) = 1 / 2 + of_nat (length xs) + of_nat (length xs) ^ 2 / 2"
    using Cons by simp
  then show ?case by (simp add: power2_eq_square field_simps)
qed (simp add: wins_def)

definition tied_upto :: "rat list \<Rightarrow> nat list \<Rightarrow> nat \<Rightarrow> nat \<Rightarrow> bool" where
  "tied_upto scores order i k \<longleftrightarrow> i \<le> k \<and> k < length order \<and> (\<forall>t \<in> {i..k}. scores ! (order ! i) = scores ! (order ! t))"

lemma tied_upto_Suc:
  "tied_upto scores order i k \<Longrightarrow> k + 1 < length order \<Longrightarrow> scores ! (order ! (k + 1)) = scores ! (order ! i)
    \<Longrightarrow> tied_upto scores order i (k + 1)"
  unfolding tied_upto_def by (metis Suc_eq_plus1 atLeastAtMost_iff le_SucE le_SucI)

lemma tie_end_run:
  assumes "tied_upto scores order i k"
  shows "tied_upto scores order i (tie_end scores order i k)" "tie_end scores order i k + 1 < length order \<Longrightarrow>
    scores ! (order ! (tie_end scores order i k + 1)) \<noteq> scores ! (order ! i)"
proof -
  have "tied_upto scores order i k \<Longrightarrow> tied_upto scores order i (tie_end scores order i k) \<and> (tie_end scores order i k + 1 < length order \<longrightarrow>
    scores ! (order ! (tie_end scores order i k + 1)) \<noteq> scores ! (order ! i))"
  proof (induction scores order i k rule: tie_end.induct)
    case (1 scores order i k)
    show ?case
    proof (cases "k + 1 < length order \<and> scores ! (order ! (k + 1)) = scores ! (order ! i)")
      case True
      then have "tie_end scores order i k = tie_end scores order i (k + 1)" using tie_end.simps[of scores order i k] by simp
      then show ?thesis using 1 True tied_upto_Suc by simp
    next
      case False
      then have "tie_end scores order i k = k" using tie_end.simps[of scores order i k] by (simp only: if_False)
      then show ?thesis using 1 False by simp
    qed
  qed
  from this[OF assms] show "tied_upto scores order i (tie_end scores order i k)" "tie_end scores order i k + 1 < length order \<Longrightarrow>
    scores ! (order ! (tie_end scores order i k + 1)) \<noteq> scores ! (order ! i)" by auto
qed

lemma fold_assign:
  assumes "distinct order" "k < length order" "set ts \<subseteq> {..<length order}" "\<forall>t < length order. order ! t < length ranks"
  shows "fold (\<lambda>t rs. rs[order ! t := v]) ts ranks ! (order ! k) = (if k \<in> set ts then v else ranks ! (order ! k))"
  using assms(3,4)
proof (induction ts arbitrary: ranks)
  case (Cons t ts)
  have "order ! t = order ! k \<longleftrightarrow> t = k" using assms(1,2) Cons.prems(1) by (auto simp: nth_eq_iff_index_eq)
  then show ?case using Cons.IH[of "ranks[order ! t := v]"] Cons.prems assms(2) by (auto simp: nth_list_update)
qed simp

lemma length_fold_assign [simp]: "length (fold (\<lambda>t rs. rs[order ! t := v]) ts ranks) = length ranks"
  by (induction ts arbitrary: ranks) simp_all

definition ranked :: "rat list \<Rightarrow> nat list \<Rightarrow> nat \<Rightarrow> rat list \<Rightarrow> bool" where
  "ranked scores order i ranks \<longleftrightarrow> i \<le> length order \<and> length ranks = length scores \<and>
     (\<forall>t < i. ranks ! (order ! t) = wins scores (scores ! (order ! t)) + 1 / 2) \<and>
     (\<forall>t < i. i < length order \<longrightarrow> scores ! (order ! t) < scores ! (order ! i))"

definition score_order :: "rat list \<Rightarrow> nat list \<Rightarrow> bool" where
  "score_order scores order \<longleftrightarrow> distinct order \<and> set order = {..<length scores} \<and> sorted (map (\<lambda>i. scores ! i) order)"

lemma ordered_mset:
  assumes "score_order scores order"
  shows "mset (map (\<lambda>i. scores ! i) order) = mset scores"
proof -
  have "mset order = mset [0..<length scores]"
    using assms set_eq_iff_mset_eq_distinct[of order "[0..<length scores]"] by (simp add: score_order_def lessThan_atLeast0)
  then have "mset (map (\<lambda>i. scores ! i) order) = mset (map (\<lambda>i. scores ! i) [0..<length scores])" by simp
  then show ?thesis by (simp add: map_nth)
qed


lemma ordered_nth: "score_order scores order \<Longrightarrow> s < t \<Longrightarrow> t < length order \<Longrightarrow> scores ! (order ! s) \<le> scores ! (order ! t)"
  using sorted_nth_mono[of "map (\<lambda>i. scores ! i) order" s t] by (simp add: score_order_def)

text \<open>The common rank of a run of equal scores.\<close>

lemma wins_of_run:
  assumes "score_order scores order" "ranked scores order i ranks" "tied_upto scores order i j"
    "j + 1 < length order \<Longrightarrow> scores ! (order ! (j + 1)) \<noteq> scores ! (order ! i)"
  shows "wins scores (scores ! (order ! i)) + 1 / 2 = of_nat (i + j) / 2 + 1"
proof -
  let ?ss = "map (\<lambda>i. scores ! i) order" and ?v = "scores ! (order ! i)"
  have ij: "i \<le> j" "j < length order" using assms(3) by (simp_all add: tied_upto_def)
  have "?ss = take i ?ss @ take (j + 1 - i) (drop i ?ss) @ drop (j + 1 - i) (drop i ?ss)" by (simp only: append_take_drop_id)
  then have split: "?ss = take i ?ss @ take (j + 1 - i) (drop i ?ss) @ drop (j + 1) ?ss" using ij by (simp only: drop_drop) simp
  have low: "\<forall>q \<in> set (take i ?ss). q < ?v"
  proof
    fix q
    assume "q \<in> set (take i ?ss)"
    then obtain t where "t < i" "q = scores ! (order ! t)" using ij by (auto simp: in_set_conv_nth)
    then show "q < ?v" using assms(2) ij by (simp add: ranked_def)
  qed
  have mid: "\<forall>q \<in> set (take (j + 1 - i) (drop i ?ss)). q = ?v"
  proof
    fix q
    assume "q \<in> set (take (j + 1 - i) (drop i ?ss))"
    then obtain t where "t < j + 1 - i" "q = scores ! (order ! (i + t))" using ij by (auto simp: in_set_conv_nth)
    moreover have "i + t \<in> {i..j}" using \<open>t < j + 1 - i\<close> by simp
    ultimately show "q = ?v" using assms(3) unfolding tied_upto_def by metis
  qed
  have above: "?v < scores ! (order ! t)" if "j < t" "t < length order" for t
  proof -
    have "j + 1 < length order" using that by simp
    then have "?v < scores ! (order ! (j + 1))"
      using assms(4) ordered_nth[OF assms(1), of i "j + 1"] ij by (simp add: less_le)
    also have "\<dots> \<le> scores ! (order ! t)"
      using ordered_nth[OF assms(1), of "j + 1" t] that by (cases "t = j + 1") auto
    finally show ?thesis .
  qed
  have high: "\<forall>q \<in> set (drop (j + 1) ?ss). ?v < q"
  proof
    fix q
    assume "q \<in> set (drop (j + 1) ?ss)"
    then obtain t where "t < length (drop (j + 1) ?ss)" "q = drop (j + 1) ?ss ! t" by (auto simp only: in_set_conv_nth)
    then have "j + 1 + t < length order" "q = scores ! (order ! (j + 1 + t))" by simp_all
    then show "?v < q" using above[of "j + 1 + t"] by simp
  qed
  have "wins scores ?v = wins ?ss ?v" by (rule wins_perm) (simp only: ordered_mset[OF assms(1)])
  also have "\<dots> = of_nat i + of_nat (j + 1 - i) / 2"
    using wins_const(1)[OF low] wins_const(2)[OF mid] wins_const(3)[OF high] ij by (subst split) simp
  finally show ?thesis using ij by (simp add: of_nat_diff field_simps)
qed

lemma ranked_step:
  assumes "score_order scores order" "ranked scores order i ranks" "i < length order" "j = tie_end scores order i i"
  shows "ranked scores order (j + 1) (fold (\<lambda>t rs. rs[order ! t := of_nat (i + j) / 2 + 1]) [i..<j + 1] ranks)"
proof -
  let ?new = "fold (\<lambda>t rs. rs[order ! t := of_nat (i + j) / 2 + 1 :: rat]) [i..<j + 1] ranks"
  have "tied_upto scores order i i" using assms(3) by (simp add: tied_upto_def)
  note run = tie_end_run[OF this, folded assms(4)]
  have ij: "i \<le> j" "j < length order" "\<forall>t \<in> {i..j}. scores ! (order ! i) = scores ! (order ! t)"
    using run(1) unfolding tied_upto_def by blast+
  note rank = wins_of_run[OF assms(1,2) run]
  have in_range: "\<forall>t < length order. order ! t < length ranks"
    using assms(1,2) nth_mem[of _ order] by (auto simp: score_order_def ranked_def)
  have new: "?new ! (order ! t) = (if i \<le> t \<and> t \<le> j then of_nat (i + j) / 2 + 1 else ranks ! (order ! t))" if "t < length order" for t
  proof -
    have "distinct order" using assms(1) by (simp add: score_order_def)
    moreover have "set [i..<j + 1] \<subseteq> {..<length order}" using ij(2) by auto
    ultimately show ?thesis
      using fold_assign[OF _ that _ in_range, of "[i..<j + 1]" "of_nat (i + j) / 2 + 1"] by (simp only: set_upt) auto
  qed
  have "?new ! (order ! t) = wins scores (scores ! (order ! t)) + 1 / 2" if t: "t < j + 1" for t
  proof (cases "i \<le> t")
    case True
    then have "t \<in> {i..j}" using t by simp
    then have "scores ! (order ! t) = scores ! (order ! i)" using ij(3) by metis
    then show ?thesis using new[of t] t True ij(2) rank by simp
  next
    case False
    then show ?thesis using new[of t] t ij(2) assms(2) by (simp add: ranked_def)
  qed
  moreover have "scores ! (order ! t) < scores ! (order ! (j + 1))" if t: "t < j + 1" "j + 1 < length order" for t
  proof -
    have "scores ! (order ! t) \<le> scores ! (order ! i)"
    proof (cases "t < i")
      case True
      then show ?thesis using ordered_nth[OF assms(1) _ assms(3)] by simp
    next
      case False
      then have "t \<in> {i..j}" using t by simp
      then show ?thesis using ij(3) by (metis order_refl)
    qed
    also have "\<dots> < scores ! (order ! (j + 1))"
      using ordered_nth[OF assms(1), of i "j + 1"] run(2) ij(1,2) t(2) by (simp add: less_le)
    finally show ?thesis .
  qed
  ultimately show ?thesis using assms(2) ij by (simp add: ranked_def del: upt_Suc)
qed

lemma rank_loop_ranked:
  assumes "score_order scores order" "ranked scores order i ranks"
  shows "ranked scores order (length order) (rank_loop scores order i ranks)"
  using assms
proof (induction scores order i ranks rule: rank_loop.induct)
  case (1 scores order i ranks)
  show ?case
  proof (cases "i < length order")
    case True
    note next' = ranked_step[OF "1.prems" True refl]
    show ?thesis using 1(1)[OF True refl refl "1.prems"(1) next'] True by (subst rank_loop.simps) (simp only: if_True Let_def)
  next
    case False
    then show ?thesis using "1.prems" by (subst rank_loop.simps) (auto simp: ranked_def)
  qed
qed


lemma score_ranks_wins:
  assumes "k < length scores"
  shows "score_ranks scores ! k = wins scores (scores ! k) + 1 / 2"
proof -
  let ?order = "sort_key (\<lambda>i. scores ! i) [0..<length scores]"
  have order: "score_order scores ?order" by (auto simp: score_order_def)
  have "ranked scores ?order 0 (replicate (length scores) 0)" by (simp add: ranked_def)
  then have "ranked scores ?order (length ?order) (score_ranks scores)"
    unfolding score_ranks_def by (rule rank_loop_ranked[OF order])
  moreover obtain t where "t < length ?order" "?order ! t = k"
    using assms by (metis atLeast_upt in_set_conv_nth lessThan_iff set_sort)
  ultimately show ?thesis unfolding ranked_def by auto
qed

definition with_label :: "int \<Rightarrow> rat list \<Rightarrow> int list \<Rightarrow> rat list" where
  "with_label y scores labels = map fst (filter (\<lambda>(s, l). l = y) (zip scores labels))"

lemma with_label_nth:
  "length labels = length scores \<Longrightarrow>
    with_label y scores labels = map (\<lambda>i. scores ! i) (filter (\<lambda>i. labels ! i = y) [0..<length scores])"
proof -
  assume "length labels = length scores"
  then have "zip scores labels = map (\<lambda>i. (scores ! i, labels ! i)) [0..<length scores]"
    by (intro nth_equalityI) simp_all
  then show ?thesis by (simp add: with_label_def filter_map o_def)
qed

lemma with_label_split:
  assumes "length labels = length scores" "set labels \<subseteq> {0, 1}"
  shows "mset scores = mset (with_label 1 scores labels @ with_label 0 scores labels)"
  using assms
proof (induction labels scores rule: list_induct2)
  case (Cons l labels s scores)
  then show ?case by (auto simp: with_label_def)
qed (simp add: with_label_def)

text \<open>Claim C30. On labels 0 and 1 the rank sum with averaged ties is the share of pairs of a positive and a negative example
  that the scores order correctly, a tie counting one half.\<close>

theorem auc_counts_ordered_pairs:
  assumes "length labels = length scores" "set labels \<subseteq> {0, 1}"
  shows "auc scores labels = (let pos = with_label 1 scores labels; neg = with_label 0 scores labels
    in if pos = [] \<or> neg = [] then Inl (EvalError ''AUC needs both positive and negative labels'')
       else Inr (sum_list (map (\<lambda>p. sum_list (map (pair_score p) neg)) pos) / (of_nat (length pos) * of_nat (length neg))))"
proof -
  let ?pos = "with_label 1 scores labels" and ?neg = "with_label 0 scores labels"
  let ?is = "filter (\<lambda>i. labels ! i = 1) [0..<length scores]"
  have "sum_list (map (\<lambda>i. score_ranks scores ! i) ?is) = sum_list (map (\<lambda>p. wins scores p + 1 / 2) (map (\<lambda>i. scores ! i) ?is))"
    by (auto simp: score_ranks_wins intro!: arg_cong[where f = sum_list])
  also have "\<dots> = sum_list (map (\<lambda>p. wins scores p + 1 / 2) ?pos)" by (simp only: with_label_nth[OF assms(1)])
  also have "\<dots> = sum_list (map (\<lambda>p. wins ?pos p + (wins ?neg p + 1 / 2)) ?pos)"
    using wins_perm[OF with_label_split[OF assms]] by (simp add: add.assoc)
  also have "\<dots> = of_nat (length ?pos) ^ 2 / 2 + (sum_list (map (wins ?neg) ?pos) + of_nat (length ?pos) / 2)"
    by (simp only: sum_list_addf wins_self sum_list_triv map_replicate_const) (simp add: sum_list_replicate)
  finally have ranks: "sum_list (map (\<lambda>i. score_ranks scores ! i) ?is) - of_nat (length ?pos) * (of_nat (length ?pos) + 1) / 2
      = sum_list (map (wins ?neg) ?pos)" by (simp add: power2_eq_square field_simps)
  have wins: "(\<lambda>p. sum_list (map (pair_score p) ?neg)) = wins ?neg" by (simp add: wins_def fun_eq_iff)
  show ?thesis
    using ranks assms(1) unfolding auc_def Let_def wins with_label_def[symmetric] by simp
qed

text \<open>A label that is neither counts in the ranks but in neither class: the value leaves [0, 1].\<close>

lemma stray_labels_inflate: "auc [1, 2, 3] [0, 2, 1] = Inr 2"
  by code_simp


lemma auc_counts_ordered_pairs_witness: "auc [1, 2, 2, 3] [0, 1, 0, 1] = Inr (7 / 8)"
proof -
  have "auc [1, 2, 2, 3] [0, 1, 0, 1] = (let pos = with_label 1 [1, 2, 2, 3] [0, 1, 0, 1]; neg = with_label 0 [1, 2, 2, 3] [0, 1, 0, 1]
    in if pos = [] \<or> neg = [] then Inl (EvalError ''AUC needs both positive and negative labels'')
       else Inr (sum_list (map (\<lambda>p. sum_list (map (pair_score p) neg)) pos) / (of_nat (length pos) * of_nat (length neg))))"
    by (rule auc_counts_ordered_pairs) simp_all
  then show ?thesis by (simp add: with_label_def pair_score_def)
qed

lemma auc_bounds:
  assumes "length labels = length scores" "set labels \<subseteq> {0, 1}" "auc scores labels = Inr x"
  shows "0 \<le> x \<and> x \<le> 1"
proof -
  let ?pos = "with_label 1 scores labels" and ?neg = "with_label 0 scores labels"
  have "0 \<le> wins qs p \<and> wins qs p \<le> of_nat (length qs)" for qs p
    by (induction qs) (auto simp: wins_def pair_score_def)
  then have "0 \<le> sum_list (map (wins ?neg) ps) \<and> sum_list (map (wins ?neg) ps) \<le> of_nat (length ps) * of_nat (length ?neg)" for ps
    by (induction ps) (auto simp: distrib_right intro: add_nonneg_nonneg add_mono)
  moreover have "wins ?neg = (\<lambda>p. sum_list (map (pair_score p) ?neg))" by (simp add: wins_def fun_eq_iff)
  ultimately show ?thesis
    using assms(3) unfolding auc_counts_ordered_pairs[OF assms(1,2)]
    by (auto simp: Let_def divide_le_eq zero_less_mult_iff split: if_splits)
qed

lemma zip_take_eq: "zip xs (take (length xs) ys) = zip xs ys"
  by (induction xs ys rule: list_induct2') simp_all

lemma wer_zero:
  assumes "wer hyps refs = Inr 0"
  shows "\<forall>(h, r) \<in> set (zip hyps refs). split_words h [] = split_words r []"
proof -
  have zero: "edit_distance a b = 0 \<Longrightarrow> a = b" for a b :: "string list"
    using lev_reached[of a b] by (simp add: edit_distance_lev)
  then show ?thesis
    using assms by (fastforce simp: wer_def Let_def case_prod_unfold split: if_splits)
qed

text \<open>References without a hypothesis are left out of the word error rate, whereas the shares count them as misses.\<close>

lemma wer_ignores_missing_hypotheses: "wer hyps refs = wer hyps (take (length hyps) refs)"
  by (simp add: wer_def zip_take_eq)

lemma perplexity_at_least_one:
  assumes "perplexity xs = Inr p" "\<forall>x \<in> set (flat_nlls xs). 0 \<le> x"
  shows "1 \<le> p"
proof -
  have "0 \<le> sum_list (flat_nlls xs)" using assms(2) by (intro sum_list_nonneg) auto
  then show ?thesis using assms(1) by (auto simp: perplexity_def Let_def split: if_splits)
qed

end
