(* ===== verification/EvalGate.thy ===== *)
theory EvalGate
  imports LlmResolve Metrics
begin

text \<open>
  The gate decisions of \<open>gateway/app/evaluation.py\<close>: which metric a modality has, the evaluation that is logged on a version
  and read back, the promotion gate, the champion-challenger comparison and the guarded evaluation.  The registry (MLflow) is
  another program: reads go through the record \<open>client\<close> of \<open>LlmResolve\<close>, writes are arguments.  A logged value is a float,
  so it may be infinite or not a number; reading and printing floats are arguments as well.
\<close>

section \<open>Floats\<close>

datatype number = Fin rat | Infinite bool | NaN

fun num_less :: "number \<Rightarrow> number \<Rightarrow> bool" where
  "num_less (Fin a) (Fin b) = (a < b)"
| "num_less (Fin a) (Infinite up) = up"
| "num_less (Infinite up) (Fin b) = (\<not> up)"
| "num_less (Infinite up) (Infinite up') = (\<not> up \<and> up')"
| "num_less _ _ = False"

fun num_eq :: "number \<Rightarrow> number \<Rightarrow> bool" where
  "num_eq (Fin a) (Fin b) = (a = b)"
| "num_eq (Infinite up) (Infinite up') = (up = up')"
| "num_eq _ _ = False"

fun num_neg :: "number \<Rightarrow> number" where
  "num_neg (Fin a) = Fin (- a)"
| "num_neg (Infinite up) = Infinite (\<not> up)"
| "num_neg NaN = NaN"

fun num_add :: "number \<Rightarrow> number \<Rightarrow> number" where
  "num_add (Fin a) (Fin b) = Fin (a + b)"
| "num_add (Fin a) (Infinite up) = Infinite up"
| "num_add (Infinite up) (Fin b) = Infinite up"
| "num_add (Infinite up) (Infinite up') = (if up = up' then Infinite up else NaN)"
| "num_add _ _ = NaN"

definition num_sub :: "number \<Rightarrow> number \<Rightarrow> number" where
  "num_sub a b = num_add a (num_neg b)"

fun num_abs :: "number \<Rightarrow> number" where
  "num_abs (Fin a) = Fin \<bar>a\<bar>"
| "num_abs (Infinite up) = Infinite True"
| "num_abs NaN = NaN"

text \<open>A finite factor, as the tolerances are.\<close>

fun num_scale :: "rat \<Rightarrow> number \<Rightarrow> number" where
  "num_scale t (Fin a) = Fin (t * a)"
| "num_scale t (Infinite up) = (if t = 0 then NaN else Infinite (up = (0 < t)))"
| "num_scale t NaN = NaN"

text \<open>\<open>round(x, 6)\<close>: to the nearest, halves to even.\<close>

definition round_even :: "rat \<Rightarrow> int" where
  "round_even x = (let f = \<lfloor>x\<rfloor>; d = x - of_int f
     in if d < 1 / 2 then f else if 1 / 2 < d then f + 1 else if even f then f else f + 1)"

fun round6 :: "number \<Rightarrow> number" where
  "round6 (Fin a) = Fin (of_int (round_even (a * 1000000)) / 1000000)"
| "round6 x = x"

section \<open>Metrics by modality\<close>

datatype scorer = TaskAccuracy | TopAccuracy | WordErrors | RecallAtK | RocAuc | Perplexity

record metric =
  mt_name :: string
  mt_direction :: string
  mt_score :: scorer

definition HIGHER :: string where "HIGHER = ''higher''"

definition LOWER :: string where "LOWER = ''lower''"

definition METRICS :: "(string \<times> metric) list" where
  "METRICS =
     [(''text-generation'', \<lparr> mt_name = ''task_accuracy'', mt_direction = HIGHER, mt_score = TaskAccuracy \<rparr>),
      (''image-classification'', \<lparr> mt_name = ''accuracy'', mt_direction = HIGHER, mt_score = TopAccuracy \<rparr>),
      (''asr'', \<lparr> mt_name = ''wer'', mt_direction = LOWER, mt_score = WordErrors \<rparr>),
      (''embedding'', \<lparr> mt_name = ''recall_at_k'', mt_direction = HIGHER, mt_score = RecallAtK \<rparr>),
      (''tabular'', \<lparr> mt_name = ''auc'', mt_direction = HIGHER, mt_score = RocAuc \<rparr>)]"

definition PERPLEXITY :: metric where
  "PERPLEXITY = \<lparr> mt_name = ''perplexity'', mt_direction = LOWER, mt_score = Perplexity \<rparr>"

definition direction_for :: "string option \<Rightarrow> string option" where
  "direction_for name = (if name = Some (mt_name PERPLEXITY) then Some (mt_direction PERPLEXITY)
     else map_option mt_direction (find (\<lambda>m. Some (mt_name m) = name) (map snd METRICS)))"

datatype eval_error = UnknownMetric | NoMetric | NoVersion | NoTask | NoBenchmark | ScoreError metric_error | LogFailed
  | NoChampion | Unscored string | Mismatch | Guarded

definition metric_for :: "string \<Rightarrow> string option \<Rightarrow> eval_error + metric" where
  "metric_for modality name = (case name of
      Some n \<Rightarrow>
        if n \<noteq> [] then
          (if n = mt_name PERPLEXITY then Inr PERPLEXITY
           else case map_of METRICS modality of
               Some m \<Rightarrow> if mt_name m = n then Inr m else Inl UnknownMetric
             | None \<Rightarrow> Inl UnknownMetric)
        else (case map_of METRICS modality of None \<Rightarrow> Inl NoMetric | Some m \<Rightarrow> Inr m)
    | None \<Rightarrow> (case map_of METRICS modality of None \<Rightarrow> Inl NoMetric | Some m \<Rightarrow> Inr m))"

section \<open>The logged evaluation\<close>

text \<open>An evaluation as the dictionary that is handed around; a field may be absent.\<close>

record eval =
  ev_version :: "string option"
  ev_metric :: "string option"
  ev_value :: "number option"
  ev_direction :: "string option"
  ev_modality :: "string option"
  ev_benchmark :: "string option"
  ev_hash :: "string option"

text \<open>\<open>_serving_version\<close>: any error of the registry reads as nothing serving.\<close>

definition serving_version :: "client \<Rightarrow> string \<Rightarrow> string option" where
  "serving_version c name = (case cl_by_alias c name ''serving'' of Inl e \<Rightarrow> None | Inr mv \<Rightarrow> Some (str_nat (mv_version mv)))"

definition filled :: "string option \<Rightarrow> string option" where
  "filled x = (if x = Some [] then None else x)"

definition or_else :: "'a option \<Rightarrow> 'a option \<Rightarrow> 'a option" where
  "or_else x y = (case x of None \<Rightarrow> y | Some v \<Rightarrow> Some v)"

definition read_eval :: "(string \<Rightarrow> number option) \<Rightarrow> client \<Rightarrow> string \<Rightarrow> string option \<Rightarrow> eval option" where
  "read_eval parse c name version = (case version of
      None \<Rightarrow> None
    | Some v \<Rightarrow> (case cl_get c name v of
        Inl e \<Rightarrow> None
      | Inr mv \<Rightarrow>
          (let tags = map_of (mv_tags mv)
           in case (tags ''eval_metric'', tags ''eval_value'') of
                (Some metric, Some text) \<Rightarrow>
                  (case parse text of
                     None \<Rightarrow> None
                   | Some value \<Rightarrow> Some \<lparr> ev_version = Some v, ev_metric = Some metric, ev_value = Some value,
                       ev_direction = or_else (or_else (filled (tags ''eval_direction'')) (direction_for (Some metric))) (Some HIGHER),
                       ev_modality = tags ''eval_modality'', ev_benchmark = tags ''eval_benchmark'',
                       ev_hash = tags ''eval_benchmark_hash'' \<rparr>)
              | _ \<Rightarrow> None)))"

section \<open>The promotion gate\<close>

datatype judgement = GPass | GWarn | GBlocked

datatype judgement_reason = FirstPromotion | CandidateUnscored | IncumbentUnscored | LikeForLike | WithinTolerance | Regression

record verdict =
  vd_decision :: judgement
  vd_reason :: judgement_reason
  vd_flagged :: bool
  vd_mode :: string
  vd_tolerance :: rat
  vd_override :: bool
  vd_candidate :: "eval option"
  vd_incumbent :: "eval option"
  vd_delta :: "number option"

text \<open>\<open>_brief\<close> drops the benchmark.\<close>

definition brief :: "eval option \<Rightarrow> eval option" where
  "brief ev = map_option (\<lambda>e. e\<lparr> ev_benchmark := None, ev_hash := None \<rparr>) ev"

record gate_policy =
  gp_mode :: string
  gp_tolerance :: rat
  gp_missing :: string

definition verdict_of :: "gate_policy \<Rightarrow> bool \<Rightarrow> eval option \<Rightarrow> eval option \<Rightarrow> judgement \<Rightarrow> judgement_reason \<Rightarrow> bool \<Rightarrow> number option \<Rightarrow> verdict" where
  "verdict_of p override cand inc d r flagged delta = \<lparr> vd_decision = d, vd_reason = r, vd_flagged = flagged, vd_mode = gp_mode p,
     vd_tolerance = gp_tolerance p, vd_override = override, vd_candidate = brief cand, vd_incumbent = brief inc, vd_delta = delta \<rparr>"

definition missing_decision :: "gate_policy \<Rightarrow> bool \<Rightarrow> judgement" where
  "missing_decision p override = (if gp_missing p = ''block'' \<and> \<not> override then GBlocked else GWarn)"

definition regressed :: "string \<Rightarrow> rat \<Rightarrow> number \<Rightarrow> number \<Rightarrow> bool" where
  "regressed direction tolerance cand inc = (let margin = num_scale tolerance (num_abs inc)
     in if direction = HIGHER then num_less cand (num_sub inc margin) else num_less (num_add inc margin) cand)"

definition gate_direction :: "eval \<Rightarrow> string" where
  "gate_direction c = the (or_else (or_else (filled (ev_direction c)) (direction_for (ev_metric c))) (Some HIGHER))"

definition compute_verdict :: "gate_policy \<Rightarrow> bool \<Rightarrow> bool option \<Rightarrow> eval option \<Rightarrow> eval option \<Rightarrow> verdict" where
  "compute_verdict p override present cand inc =
     (let v = verdict_of p override cand inc
      in if \<not> (case present of None \<Rightarrow> inc \<noteq> None | Some b \<Rightarrow> b) then v GPass FirstPromotion False None
         else case (cand, Option.bind cand ev_value) of
             (Some ce, Some c) \<Rightarrow>
               (case (inc, Option.bind inc ev_value) of
                  (Some ie, Some i) \<Rightarrow>
                    if ev_metric ce \<noteq> ev_metric ie \<or> ev_modality ce \<noteq> ev_modality ie
                    then v (if override then GWarn else GBlocked) LikeForLike True None
                    else (let delta = Some (round6 (num_sub c i))
                      in if \<not> regressed (gate_direction ce) (gp_tolerance p) c i then v GPass WithinTolerance False delta
                         else if override then v GWarn Regression True delta
                         else if gp_mode p = ''warn'' then v GWarn Regression True delta
                         else v GBlocked Regression True delta)
                | _ \<Rightarrow> v (missing_decision p override) IncumbentUnscored True None)
           | _ \<Rightarrow> v (missing_decision p override) CandidateUnscored True None)"

definition only_version :: "string \<Rightarrow> eval" where
  "only_version v = \<lparr> ev_version = Some v, ev_metric = None, ev_value = None, ev_direction = None, ev_modality = None,
     ev_benchmark = None, ev_hash = None \<rparr>"

definition promotion_gate :: "(string \<Rightarrow> number option) \<Rightarrow> gate_policy \<Rightarrow> client \<Rightarrow> string \<Rightarrow> string \<Rightarrow> bool \<Rightarrow> verdict" where
  "promotion_gate parse p c name version override =
     (let serving = serving_version c name;
          incumbent = (if serving = Some version then None else serving);
          v = compute_verdict p override (Some (incumbent \<noteq> None)) (read_eval parse c name (Some version)) (read_eval parse c name incumbent)
      in if vd_candidate v = None then v\<lparr> vd_candidate := Some (only_version version) \<rparr> else v)"

section \<open>Champion and challenger\<close>

datatype winner = Tie | Challenger | Champion

record comparison =
  cm_metric :: "string option"
  cm_direction :: "string option"
  cm_champion :: "string \<times> number"
  cm_challenger :: "string \<times> number"
  cm_winner :: winner
  cm_delta :: number
  cm_mismatch :: bool

definition winner_of :: "string \<Rightarrow> number \<Rightarrow> number \<Rightarrow> winner" where
  "winner_of direction champ chall = (if num_eq champ chall then Tie
     else if num_less champ chall = (direction = HIGHER) then Challenger else Champion)"

definition compare :: "(string \<Rightarrow> number option) \<Rightarrow> client \<Rightarrow> string \<Rightarrow> string \<Rightarrow> eval_error + comparison" where
  "compare parse c name challenger = (case serving_version c name of
      None \<Rightarrow> Inl NoChampion
    | Some champion \<Rightarrow>
        (let ch = read_eval parse c name (Some champion); cl = read_eval parse c name (Some challenger)
         in case (ch, Option.bind ch ev_value) of
              (Some he, Some h) \<Rightarrow>
                (case (cl, Option.bind cl ev_value) of
                   (Some le, Some l) \<Rightarrow>
                     if ev_metric he \<noteq> ev_metric le \<or> ev_modality he \<noteq> ev_modality le then Inl Mismatch
                     else Inr \<lparr> cm_metric = ev_metric he, cm_direction = ev_direction he, cm_champion = (champion, h),
                       cm_challenger = (challenger, l), cm_winner = winner_of (the (ev_direction he)) h l,
                       cm_delta = round6 (num_sub l h), cm_mismatch = (ev_hash he \<noteq> ev_hash le) \<rparr>
                 | _ \<Rightarrow> Inl (Unscored challenger))
            | _ \<Rightarrow> Inl (Unscored champion)))"

section \<open>What the gate decides\<close>

lemma or_else_simps [simp]: "or_else None y = y" "or_else (Some v) y = Some v"
  by (simp_all add: or_else_def)

lemma or_else_Some: "or_else x (Some y) = Some (case x of None \<Rightarrow> y | Some v \<Rightarrow> v)"
  by (simp add: or_else_def split: option.splits)

lemma read_eval_Some:
  assumes "read_eval parse c name version = Some e"
  shows "ev_value e \<noteq> None \<and> ev_metric e \<noteq> None \<and> ev_version e = version \<and>
    ev_direction e = Some (gate_direction e)"
  using assms by (auto simp: read_eval_def gate_direction_def Let_def or_else_def filled_def split: option.splits sum.splits if_splits)

text \<open>Everything the gate can say, by what it is given: \<open>comparable\<close> are two scored evaluations of one metric and modality.\<close>

definition comparable :: "eval option \<Rightarrow> eval option \<Rightarrow> (string \<times> number \<times> number) option" where
  "comparable cand inc = (case (cand, inc) of
      (Some ce, Some ie) \<Rightarrow> (case (ev_value ce, ev_value ie) of
          (Some c, Some i) \<Rightarrow> if ev_metric ce = ev_metric ie \<and> ev_modality ce = ev_modality ie
            then Some (gate_direction ce, c, i) else None
        | _ \<Rightarrow> None)
    | _ \<Rightarrow> None)"

lemma compute_verdict_pass:
  "vd_decision (compute_verdict p override (Some present) cand inc) = GPass \<longleftrightarrow>
    \<not> present \<or> (\<exists>d c i. comparable cand inc = Some (d, c, i) \<and> \<not> regressed d (gp_tolerance p) c i)"
  by (auto simp: compute_verdict_def comparable_def verdict_of_def missing_decision_def Let_def split: option.splits if_splits)

lemma compute_verdict_blocked:
  "vd_decision (compute_verdict p override (Some present) cand inc) = GBlocked \<longleftrightarrow>
    present \<and> \<not> override \<and>
    (case comparable cand inc of
       Some (d, c, i) \<Rightarrow> regressed d (gp_tolerance p) c i \<and> gp_mode p \<noteq> ''warn''
     | None \<Rightarrow> Option.bind cand ev_value \<noteq> None \<and> Option.bind inc ev_value \<noteq> None \<or> gp_missing p = ''block'')"
  by (auto simp: compute_verdict_def comparable_def verdict_of_def missing_decision_def Let_def split: option.splits if_splits)

lemma compute_verdict_flagged:
  "vd_flagged (compute_verdict p override present cand inc) \<longleftrightarrow> vd_decision (compute_verdict p override present cand inc) \<noteq> GPass"
  by (auto simp: compute_verdict_def verdict_of_def missing_decision_def Let_def split: option.splits if_splits)

lemma gate_decision:
  "vd_decision (promotion_gate parse p c name version override) = vd_decision (compute_verdict p override
     (Some (serving_version c name \<noteq> None \<and> serving_version c name \<noteq> Some version))
     (read_eval parse c name (Some version)) (read_eval parse c name (serving_version c name)))"
  "vd_flagged (promotion_gate parse p c name version override) = vd_flagged (compute_verdict p override
     (Some (serving_version c name \<noteq> None \<and> serving_version c name \<noteq> Some version))
     (read_eval parse c name (Some version)) (read_eval parse c name (serving_version c name)))"
  by (auto simp: promotion_gate_def compute_verdict_def verdict_of_def Let_def)


text \<open>Claim C29. The gate takes any failing alias read for an empty registry: while the read of the alias fails, every
  candidate passes unflagged as a first promotion, whatever the evaluations and the mode.\<close>

theorem failing_alias_read_opens_the_gate:
  assumes "cl_by_alias c name ''serving'' = Inl e"
  shows "vd_decision (promotion_gate parse p c name version override) = GPass \<and> vd_reason (promotion_gate parse p c name version override) = FirstPromotion \<and>
    \<not> vd_flagged (promotion_gate parse p c name version override)"
  using assms by (auto simp: promotion_gate_def serving_version_def compute_verdict_def verdict_of_def Let_def)

text \<open>A candidate whose value is not a number passes against every incumbent.\<close>

lemma not_a_number_passes:
  assumes "comparable cand inc = Some (d, NaN, i)"
  shows "vd_decision (compute_verdict p override (Some True) cand inc) = GPass"
proof -
  have "\<not> num_less NaN x" "\<not> num_less x NaN" for x by (cases x; simp)+
  then show ?thesis using assms by (auto simp: compute_verdict_pass regressed_def Let_def)
qed

text \<open>The comparison and the gate agree on finite values when the two versions are logged with one direction: a
  candidate the comparison does not call worse than the champion passes, and one the gate blocks has lost the comparison.\<close>

theorem comparison_agrees_with_the_gate:
  assumes "compare parse c name version = Inr r" "fst (cm_champion r) \<noteq> version" "0 \<le> gp_tolerance p"
    "snd (cm_champion r) = Fin h" "snd (cm_challenger r) = Fin l"
    "map_option ev_direction (read_eval parse c name (Some version)) = Some (cm_direction r)"
  shows "(cm_winner r \<noteq> Champion \<longrightarrow> vd_decision (promotion_gate parse p c name version override) = GPass) \<and>
    (vd_decision (promotion_gate parse p c name version override) = GBlocked \<longrightarrow> cm_winner r = Champion)"
proof -
  obtain champion where serving: "serving_version c name = Some champion"
    using assms(1) by (auto simp: compare_def split: option.splits)
  obtain he le where evals: "read_eval parse c name (Some champion) = Some he" "read_eval parse c name (Some version) = Some le"
    and same: "ev_metric he = ev_metric le" "ev_modality he = ev_modality le"
    and scored: "ev_value he = Some (Fin h)" "ev_value le = Some (Fin l)"
    and r: "cm_winner r = winner_of (the (ev_direction he)) (Fin h) (Fin l)" "cm_champion r = (champion, Fin h)" "cm_direction r = ev_direction he"
    using assms(1,4,5) by (auto simp: compare_def serving Let_def split: option.splits if_splits)
  have direction: "gate_direction le = the (ev_direction he)"
    using read_eval_Some[OF evals(2)] assms(6) evals(2) r(3) by (metis option.sel option.simps(9))
  have comp: "comparable (Some le) (Some he) = Some (the (ev_direction he), Fin l, Fin h)"
    using scored same direction by (simp add: comparable_def)
  have "0 \<le> gp_tolerance p * \<bar>h\<bar>" using assms(3) by simp
  then have "cm_winner r \<noteq> Champion \<Longrightarrow> \<not> regressed (the (ev_direction he)) (gp_tolerance p) (Fin l) (Fin h)"
    using r(1) by (auto simp: winner_of_def regressed_def num_sub_def Let_def split: if_splits)
  then show ?thesis
    using assms(2) serving evals r(2) comp
    by (auto simp: gate_decision compute_verdict_pass compute_verdict_blocked)
qed


section \<open>A registry with two versions\<close>

text \<open>A registry that answers from a list of versions and names the serving one.\<close>

definition listed :: "model_version list \<Rightarrow> nat option \<Rightarrow> client" where
  "listed vs serving =
     \<lparr> cl_by_alias = (\<lambda>n a. case serving of None \<Rightarrow> Inl \<lparr> ex_code = Some ''RESOURCE_DOES_NOT_EXIST'', ex_text = [] \<rparr>
         | Some v \<Rightarrow> (case find (\<lambda>m. mv_version m = v) vs of None \<Rightarrow> Inl \<lparr> ex_code = None, ex_text = [] \<rparr> | Some m \<Rightarrow> Inr m)),
       cl_search = (\<lambda>f. Inr vs), cl_models = Inr [],
       cl_get = (\<lambda>n v. case find (\<lambda>m. str_nat (mv_version m) = v) vs of None \<Rightarrow> Inl \<lparr> ex_code = None, ex_text = [] \<rparr> | Some m \<Rightarrow> Inr m) \<rparr>"

definition scored :: "nat \<Rightarrow> string \<Rightarrow> string \<Rightarrow> string \<Rightarrow> model_version" where
  "scored v metric value direction = \<lparr> mv_name = ''m'', mv_version = v, mv_source = [], mv_tags =
     [(''eval_metric'', metric), (''eval_value'', value), (''eval_direction'', direction), (''eval_modality'', ''asr'')] \<rparr>"

definition parse_demo :: "string \<Rightarrow> number option" where
  "parse_demo t = map_of [(''0.5'', Fin (1 / 2)), (''0.2'', Fin (1 / 5)), (''nan'', NaN)] t"

definition strict :: gate_policy where
  "strict = \<lparr> gp_mode = ''block'', gp_tolerance = 1 / 100, gp_missing = ''warn'' \<rparr>"

definition wer_pair :: client where
  "wer_pair = listed [scored 1 ''wer'' ''0.2'' ''lower'', scored 2 ''wer'' ''0.5'' ''lower''] (Some 1)"

lemma wer_pair_evals:
  "serving_version wer_pair ''m'' = Some ''1''"
  "comparable (read_eval parse_demo wer_pair ''m'' (Some ''2'')) (read_eval parse_demo wer_pair ''m'' (Some ''1''))
    = Some (''lower'', Fin (1 / 2), Fin (1 / 5))"
  by code_simp+


lemma failing_alias_read_opens_the_gate_witness:
  "let c = wer_pair\<lparr> cl_by_alias := \<lambda>n a. Inl \<lparr> ex_code = None, ex_text = ''connection refused'' \<rparr> \<rparr> in
    vd_decision (promotion_gate parse_demo strict c ''m'' ''2'' False) = GPass"
  unfolding Let_def by (rule conjunct1[OF failing_alias_read_opens_the_gate[where e = "\<lparr> ex_code = None, ex_text = ''connection refused'' \<rparr>"]]) simp

definition wer_comparison :: comparison where
  "wer_comparison = \<lparr> cm_metric = Some ''wer'', cm_direction = Some ''lower'', cm_champion = (''1'', Fin (1 / 5)),
     cm_challenger = (''2'', Fin (1 / 2)), cm_winner = Champion, cm_delta = Fin (3 / 10), cm_mismatch = False \<rparr>"

lemma comparison_agrees_with_the_gate_witness:
  "vd_decision (promotion_gate parse_demo strict wer_pair ''m'' ''2'' False) = GBlocked \<longrightarrow> cm_winner wer_comparison = Champion"
proof -
  have compared: "compare parse_demo wer_pair ''m'' ''2'' = Inr wer_comparison" by code_simp
  have "map_option ev_direction (read_eval parse_demo wer_pair ''m'' (Some ''2'')) = Some (Some ''lower'')" by code_simp
  then show ?thesis
    using comparison_agrees_with_the_gate[OF compared, where p = strict and h = "1 / 5" and l = "1 / 2" and override = False]
    by (simp add: wer_comparison_def strict_def)
qed

text \<open>With directions that differ the two contradict each other: the comparison takes the champion's, the gate the
  candidate's.\<close>

lemma directions_may_contradict:
  "let c = listed [scored 1 ''bleu'' ''0.5'' ''higher'', scored 2 ''bleu'' ''0.2'' ''lower''] (Some 1) in
    map_sum id cm_winner (compare parse_demo c ''m'' ''2'') = Inr Champion \<and>
    vd_decision (promotion_gate parse_demo strict c ''m'' ''2'' False) = GPass"
  by code_simp

end
