(* ===== verification/Evaluate.thy ===== *)
theory Evaluate
  imports EvalGate
begin

text \<open>
  The evaluation of a version in \<open>gateway/app/evaluation.py\<close>: the modality of a version, the benchmark, the scoring, the log on
  the version's tags and the guarded evaluation.  What the registry does to a write is the record \<open>registry\<close> of arguments;
  predictors, scorers, the digest and the files are arguments too.
\<close>

section \<open>Writes to the registry\<close>

record 's registry =
  rg_client :: "'s \<Rightarrow> client"
  rg_set_tag :: "string \<Rightarrow> string \<Rightarrow> string \<Rightarrow> string \<Rightarrow> ('s, exn, unit) comp"
  rg_set_alias :: "string \<Rightarrow> string \<Rightarrow> string \<Rightarrow> ('s, exn, unit) comp"
  rg_log_run :: "string \<Rightarrow> string \<Rightarrow> string \<Rightarrow> number \<Rightarrow> ('s, exn, unit) comp"
  rg_create_model :: "string \<Rightarrow> ('s, exn, unit) comp"
  rg_create_version :: "string \<Rightarrow> string \<Rightarrow> string option \<Rightarrow> (string, string) dict \<Rightarrow> ('s, exn, model_version) comp"

text \<open>\<open>except MlflowException as e: raise f(e)\<close>.\<close>

definition raising :: "('x \<Rightarrow> 'y) \<Rightarrow> ('s, 'x, 'a) comp \<Rightarrow> ('s, 'y, 'a) comp" where
  "raising f m s = (case m s of (Inl x, t) \<Rightarrow> (Inl (f x), t) | (Inr a, t) \<Rightarrow> (Inr a, t))"

section \<open>Benchmarks\<close>

type_synonym 'v row = "(string \<times> 'v) list"

record 'v benchmark =
  bm_name :: string
  bm_digest :: string
  bm_rows :: "'v row list"

definition DEFAULT_BENCHMARKS :: "(string \<times> string) list" where
  "DEFAULT_BENCHMARKS =
     [(''text-generation'', ''llm/qa_smoke.jsonl''), (''image-classification'', ''vision/shapes_smoke.jsonl''),
      (''embedding'', ''embedding/recall_smoke.jsonl''), (''asr'', ''asr/wer_smoke.jsonl''), (''tabular'', ''tabular/auc_smoke.jsonl'')]"

text \<open>\<open>read\<close> gives the digest of a file and its parsed lines.\<close>

definition load_benchmark :: "(string \<Rightarrow> (string \<times> 'v row list) option) \<Rightarrow> string \<Rightarrow> string option \<Rightarrow> eval_error + 'v benchmark" where
  "load_benchmark read modality ref = (case or_else (filled ref) (map_of DEFAULT_BENCHMARKS modality) of
      None \<Rightarrow> Inl NoBenchmark
    | Some rel \<Rightarrow> (case read rel of
        None \<Rightarrow> Inl NoBenchmark
      | Some (digest, rows) \<Rightarrow> if rows = [] then Inl NoBenchmark
          else Inr \<lparr> bm_name = rel, bm_digest = take 16 digest, bm_rows = rows \<rparr>))"

definition reference_of :: "'v row \<Rightarrow> 'v option" where
  "reference_of r = or_else (map_of r ''answer'') (or_else (map_of r ''label'') (map_of r ''text''))"

section \<open>Evaluating\<close>

definition version_modality :: "string \<Rightarrow> client \<Rightarrow> string \<Rightarrow> string \<Rightarrow> eval_error + string" where
  "version_modality SERVING_MODEL c name version = (case cl_get c name version of
      Inl e \<Rightarrow> Inl NoVersion
    | Inr mv \<Rightarrow> if tag_set (mv_tags mv) ''task'' then Inr (the (map_of (mv_tags mv) ''task''))
        else if name = SERVING_MODEL then Inr ''text-generation'' else Inl NoTask)"

text \<open>What an evaluation reports and \<open>_log_eval\<close> writes, tag by tag.\<close>

record result =
  rs_modality :: string
  rs_metric :: string
  rs_value :: number
  rs_direction :: string
  rs_benchmark :: string
  rs_hash :: string
  rs_n :: nat

definition eval_tags :: "(number \<Rightarrow> string) \<Rightarrow> result \<Rightarrow> (string \<times> string) list" where
  "eval_tags show r = [(''eval_metric'', rs_metric r), (''eval_value'', show (rs_value r)), (''eval_direction'', rs_direction r),
     (''eval_modality'', rs_modality r), (''eval_benchmark'', rs_benchmark r), (''eval_benchmark_hash'', rs_hash r)]"

definition set_tags :: "'s registry \<Rightarrow> string \<Rightarrow> string \<Rightarrow> (string \<times> string) list \<Rightarrow> ('s, exn, unit list) comp" where
  "set_tags reg name version kvs = for_each (\<lambda>(k, v). seq (rg_set_tag reg name version k v) (\<lambda>_. ret [])) kvs"

definition log_eval :: "'s registry \<Rightarrow> (number \<Rightarrow> string) \<Rightarrow> string \<Rightarrow> string \<Rightarrow> result \<Rightarrow> ('s, eval_error, unit) comp" where
  "log_eval reg show name version r = raising (\<lambda>_. LogFailed)
     (seq (set_tags reg name version (eval_tags show r)) (\<lambda>_. rg_log_run reg name version (''eval_'' @ rs_metric r) (rs_value r)))"

text \<open>What an evaluation needs besides the registry.\<close>

record 'v scoring =
  sg_serving_model :: string
  sg_read :: "string \<Rightarrow> (string \<times> 'v row list) option"
  sg_predict :: "'v row list \<Rightarrow> string \<Rightarrow> string \<Rightarrow> 'v list"
  sg_score :: "scorer \<Rightarrow> 'v list \<Rightarrow> 'v option list \<Rightarrow> metric_error + number"
  sg_show :: "number \<Rightarrow> string"
  sg_parse :: "string \<Rightarrow> number option"

definition score_version :: "'v scoring \<Rightarrow> client \<Rightarrow> string \<Rightarrow> string \<Rightarrow> string option \<Rightarrow> string option \<Rightarrow> eval_error + result" where
  "score_version sg c name version bench metric = (case version_modality (sg_serving_model sg) c name version of
      Inl e \<Rightarrow> Inl e
    | Inr modality \<Rightarrow> (case metric_for modality metric of
        Inl e \<Rightarrow> Inl e
      | Inr m \<Rightarrow> (case load_benchmark (sg_read sg) modality bench of
          Inl e \<Rightarrow> Inl e
        | Inr b \<Rightarrow>
            (let preds = sg_predict sg (bm_rows b) modality version; refs = map reference_of (bm_rows b)
             in case sg_score sg (mt_score m) preds refs of
                  Inl e \<Rightarrow> Inl (ScoreError e)
                | Inr x \<Rightarrow> Inr \<lparr> rs_modality = modality, rs_metric = mt_name m, rs_value = round6 x, rs_direction = mt_direction m,
                    rs_benchmark = bm_name b, rs_hash = bm_digest b, rs_n = length (bm_rows b) \<rparr>))))"

definition evaluate :: "'s registry \<Rightarrow> 'v scoring \<Rightarrow> bool \<Rightarrow> string \<Rightarrow> string \<Rightarrow> string option \<Rightarrow> string option \<Rightarrow> ('s, eval_error, result) comp" where
  "evaluate reg sg logging name version bench metric = seq (gets (\<lambda>s. score_version sg (rg_client reg s) name version bench metric)) (\<lambda>r. case r of
      Inl e \<Rightarrow> throw e
    | Inr res \<Rightarrow> if logging then seq (log_eval reg (sg_show sg) name version res) (\<lambda>_. ret res) else ret res)"

text \<open>The guarded evaluation answers with a fresh result for the serving version and with the logged one for others.\<close>

datatype guarded_answer = Fresh result | Logged eval

definition evaluate_guarded :: "'s registry \<Rightarrow> 'v scoring \<Rightarrow> string \<Rightarrow> string \<Rightarrow> string option \<Rightarrow> string option
    \<Rightarrow> ('s, eval_error, guarded_answer) comp" where
  "evaluate_guarded reg sg name version bench metric = seq (gets (rg_client reg)) (\<lambda>c.
     if serving_version c name = Some version
     then seq (evaluate reg sg True name version bench metric) (\<lambda>r. ret (Fresh r))
     else case read_eval (sg_parse sg) c name (Some version) of
            Some e \<Rightarrow> (if ev_value e \<noteq> None then ret (Logged e) else throw Guarded)
          | None \<Rightarrow> throw Guarded)"

section \<open>Correctness\<close>

text \<open>A tag write that answers has written; the run's metric is no tag.\<close>

definition tags_stick :: "'s registry \<Rightarrow> string \<Rightarrow> string \<Rightarrow> bool" where
  "tags_stick reg name version \<longleftrightarrow>
     (\<forall>s k v t u. rg_set_tag reg name version k v s = (Inr u, t) \<longrightarrow> (\<exists>mv. cl_get (rg_client reg s) name version = Inr mv \<and>
        cl_get (rg_client reg t) name version = Inr (mv\<lparr> mv_tags := AList.update k v (mv_tags mv) \<rparr>))) \<and>
     (\<forall>s k x t u. rg_log_run reg name version k x s = (Inr u, t) \<longrightarrow>
        cl_get (rg_client reg t) name version = cl_get (rg_client reg s) name version)"

lemma set_tags_written:
  assumes "tags_stick reg name version" "set_tags reg name version kvs s = (Inr us, t)" "kvs \<noteq> []"
  shows "\<exists>mv. cl_get (rg_client reg s) name version = Inr mv \<and>
    cl_get (rg_client reg t) name version = Inr (mv\<lparr> mv_tags := fold (\<lambda>(k, v). AList.update k v) kvs (mv_tags mv) \<rparr>)"
  using assms(2,3)
proof (induction kvs arbitrary: s us)
  case (Cons kv kvs)
  obtain k v where kv: "kv = (k, v)" by (cases kv)
  obtain s' where s': "rg_set_tag reg name version k v s = (Inr (), s')" and rest: "\<exists>ws. set_tags reg name version kvs s' = (Inr ws, t)"
    using Cons.prems(1) kv by (auto simp: set_tags_def seq_def ret_def split: prod.splits sum.splits)
  obtain mv where mv: "cl_get (rg_client reg s) name version = Inr mv"
    "cl_get (rg_client reg s') name version = Inr (mv\<lparr> mv_tags := AList.update k v (mv_tags mv) \<rparr>)"
    using assms(1) s' unfolding tags_stick_def by blast
  show ?case
  proof (cases "kvs = []")
    case True
    then have "t = s'" using rest by (auto simp: set_tags_def ret_def)
    then show ?thesis using mv kv True by auto
  next
    case False
    then obtain mv' where "cl_get (rg_client reg s') name version = Inr mv'"
      "cl_get (rg_client reg t) name version = Inr (mv'\<lparr> mv_tags := fold (\<lambda>(k, v). AList.update k v) kvs (mv_tags mv') \<rparr>)"
      using Cons.IH rest by blast
    then show ?thesis using mv kv by auto
  qed
qed simp

lemma metric_for_direction: "metric_for modality name = Inr m \<Longrightarrow> mt_direction m \<noteq> []"
  by (auto simp: metric_for_def METRICS_def PERPLEXITY_def HIGHER_def LOWER_def split: option.splits if_splits)

lemma score_version_direction: "score_version sg c name version bench metric = Inr r \<Longrightarrow> rs_direction r \<noteq> []"
  using metric_for_direction by (fastforce simp: score_version_def Let_def split: sum.splits)

lemma evaluate_logs:
  assumes "evaluate reg sg True name version bench metric s = (Inr r, t)"
  shows "\<exists>us t'. score_version sg (rg_client reg s) name version bench metric = Inr r \<and>
    set_tags reg name version (eval_tags (sg_show sg) r) s = (Inr us, t') \<and>
    rg_log_run reg name version (''eval_'' @ rs_metric r) (rs_value r) t' = (Inr (), t)"
  using assms
  by (auto simp: evaluate_def log_eval_def raising_def seq_def gets_def ret_def throw_def split: sum.splits prod.splits)

text \<open>Claim C32. What an evaluation logs is what the gate reads back: after a logged evaluation the version's evaluation is the
  reported metric, value, direction, modality and benchmark, whatever tags the version carried before.\<close>

theorem logged_evaluation_reads_back:
  assumes "tags_stick reg name version" "sg_parse sg (sg_show sg (rs_value r)) = Some (rs_value r)"
    "evaluate reg sg True name version bench metric s = (Inr r, t)"
  shows "read_eval (sg_parse sg) (rg_client reg t) name (Some version) = Some \<lparr> ev_version = Some version, ev_metric = Some (rs_metric r),
    ev_value = Some (rs_value r), ev_direction = Some (rs_direction r), ev_modality = Some (rs_modality r),
    ev_benchmark = Some (rs_benchmark r), ev_hash = Some (rs_hash r) \<rparr>"
proof -
  obtain us t' where r: "score_version sg (rg_client reg s) name version bench metric = Inr r"
    and tags: "set_tags reg name version (eval_tags (sg_show sg) r) s = (Inr us, t')"
    and run: "rg_log_run reg name version (''eval_'' @ rs_metric r) (rs_value r) t' = (Inr (), t)"
    using evaluate_logs[OF assms(3)] by blast
  obtain mv where "cl_get (rg_client reg t') name version = Inr (mv\<lparr> mv_tags := fold (\<lambda>(k, v). AList.update k v) (eval_tags (sg_show sg) r) (mv_tags mv) \<rparr>)"
    using set_tags_written[OF assms(1) tags] by (auto simp: eval_tags_def)
  moreover have "cl_get (rg_client reg t) name version = cl_get (rg_client reg t') name version"
    using assms(1) run unfolding tags_stick_def by blast
  ultimately show ?thesis
    using assms(2) score_version_direction[OF r]
    by (simp add: read_eval_def eval_tags_def AList.update_conv' filled_def Let_def)
qed

text \<open>The guarded evaluation never answers for another model with a score of the resident one: for a version that is
  not serving the answer is the logged evaluation of that version or a refusal, the same whatever the predictor would say, and
  nothing is written.\<close>

theorem guarded_evaluation_never_mislabels:
  assumes "serving_version (rg_client reg s) name \<noteq> Some version"
  shows "evaluate_guarded reg sg name version bench metric s = evaluate_guarded reg (sg\<lparr> sg_predict := other \<rparr>) name version bench metric s \<and>
    snd (evaluate_guarded reg sg name version bench metric s) = s \<and>
    (\<forall>e. fst (evaluate_guarded reg sg name version bench metric s) = Inr (Logged e) \<longrightarrow>
       read_eval (sg_parse sg) (rg_client reg s) name (Some version) = Some e) \<and>
    (\<forall>r. fst (evaluate_guarded reg sg name version bench metric s) \<noteq> Inr (Fresh r))"
  using assms by (auto simp: evaluate_guarded_def seq_def gets_def ret_def throw_def split: option.splits)

section \<open>Runs\<close>

text \<open>A registry over a list of versions whose tag writes work a number of times.\<close>

definition demo_set_tag :: "string \<Rightarrow> string \<Rightarrow> string \<Rightarrow> string \<Rightarrow> (model_version list \<times> nat, exn, unit) comp" where
  "demo_set_tag name version k v s = (case s of (vs, budget) \<Rightarrow>
     if budget = 0 \<or> find (\<lambda>m. str_nat (mv_version m) = version) vs = None then (Inl \<lparr> ex_code = None, ex_text = [] \<rparr>, s)
     else (Inr (), (map (\<lambda>m. if str_nat (mv_version m) = version then m\<lparr> mv_tags := AList.update k v (mv_tags m) \<rparr> else m) vs, budget - 1)))"

definition tag_registry :: "nat \<Rightarrow> (model_version list \<times> nat) registry" where
  "tag_registry serving = \<lparr> rg_client = (\<lambda>(vs, budget). listed vs (Some serving)), rg_set_tag = demo_set_tag,
     rg_set_alias = (\<lambda>n a v. ret ()), rg_log_run = (\<lambda>n v k x. ret ()), rg_create_model = (\<lambda>n. ret ()),
     rg_create_version = (\<lambda>n src run tags. throw \<lparr> ex_code = None, ex_text = [] \<rparr>) \<rparr>"

lemma demo_find_map:
  "find (\<lambda>m. str_nat (mv_version m) = version) (map (\<lambda>m. if str_nat (mv_version m) = version then m\<lparr> mv_tags := f (mv_tags m) \<rparr> else m) vs)
    = map_option (\<lambda>m. m\<lparr> mv_tags := f (mv_tags m) \<rparr>) (find (\<lambda>m. str_nat (mv_version m) = version) vs)"
  by (induction vs) auto

lemma demo_tags_stick: "tags_stick (tag_registry serving) name version"
  by (auto simp: tags_stick_def tag_registry_def demo_set_tag_def listed_def ret_def demo_find_map split: if_splits option.splits)

definition demo_scoring :: "string scoring" where
  "demo_scoring = \<lparr> sg_serving_model = ''m'', sg_read = (\<lambda>f. Some (''d1'', [[(''answer'', ''a'')], [(''answer'', ''b'')]])),
     sg_predict = (\<lambda>rows modality version. [''a'', ''x'']),
     sg_score = (\<lambda>m preds refs. map_sum id Fin (hit_share (\<lambda>p r. Some p = r) preds refs)),
     sg_show = (\<lambda>x. ''0.5''), sg_parse = parse_demo \<rparr>"

definition demo_result :: result where
  "demo_result = \<lparr> rs_modality = ''text-generation'', rs_metric = ''task_accuracy'', rs_value = Fin (1 / 2), rs_direction = ''higher'',
     rs_benchmark = ''llm/qa_smoke.jsonl'', rs_hash = ''d1'', rs_n = 2 \<rparr>"

definition old_versions :: "model_version list" where
  "old_versions = [\<lparr> mv_name = ''m'', mv_version = 1, mv_source = [], mv_tags = [(''eval_metric'', ''perplexity''), (''eval_value'', ''0.2'')] \<rparr>]"

lemma demo_evaluation: "fst (evaluate (tag_registry 1) demo_scoring True ''m'' ''1'' None None (old_versions, 6)) = Inr demo_result"
  by code_simp

lemma logged_evaluation_reads_back_witness:
  "map_option ev_value (read_eval parse_demo (rg_client (tag_registry 1)
     (snd (evaluate (tag_registry 1) demo_scoring True ''m'' ''1'' None None (old_versions, 6)))) ''m'' (Some ''1'')) = Some (Some (Fin (1 / 2)))"
proof -
  have run: "evaluate (tag_registry 1) demo_scoring True ''m'' ''1'' None None (old_versions, 6) =
      (Inr demo_result, snd (evaluate (tag_registry 1) demo_scoring True ''m'' ''1'' None None (old_versions, 6)))"
    using demo_evaluation by (simp add: prod_eq_iff)
  have reads: "sg_parse demo_scoring (sg_show demo_scoring (rs_value demo_result)) = Some (rs_value demo_result)" by code_simp
  show ?thesis
    using logged_evaluation_reads_back[OF demo_tags_stick reads run] by (simp add: demo_scoring_def demo_result_def)
qed

lemma guarded_evaluation_never_mislabels_witness:
  "snd (evaluate_guarded (tag_registry 1) demo_scoring ''m'' ''2'' None None (old_versions, 6)) = (old_versions, 6)"
proof -
  have "serving_version (rg_client (tag_registry 1) (old_versions, 6)) ''m'' \<noteq> Some ''2''" by code_simp
  from guarded_evaluation_never_mislabels[OF this] show ?thesis by blast
qed

text \<open>A log that fails after its first tag leaves the new metric beside the old value: a perplexity of 0.2 reads as a task
  accuracy of 0.2, like for like with a real one.\<close>

lemma interrupted_log_mixes_evaluations:
  "let s = (old_versions, 1); t = snd (evaluate (tag_registry 1) demo_scoring True ''m'' ''1'' None None s) in
    fst (evaluate (tag_registry 1) demo_scoring True ''m'' ''1'' None None s) = Inl LogFailed \<and>
    map_option (\<lambda>e. (ev_metric e, ev_value e)) (read_eval parse_demo (rg_client (tag_registry 1) t) ''m'' (Some ''1''))
      = Some (Some ''task_accuracy'', Some (Fin (1 / 5)))"
  by code_simp

end
