(* ===== verification/Registry.thy ===== *)
theory Registry
  imports Evaluate
begin

text \<open>
  \<open>gateway/app/registry.py\<close>: registration, the gated promotion, the check of a promotion target and the routing of serving
  tasks.  Reads and writes of MLflow are the arguments of \<open>Evaluate\<close> and \<open>LlmResolve\<close>; every handler turns an exception of
  the client into \<open>RegistryError\<close>.
\<close>

section \<open>Versions\<close>

datatype registry_error = RegistryError exn

definition register_model :: "'s registry \<Rightarrow> string \<Rightarrow> string \<Rightarrow> string option \<Rightarrow> (string, string) dict \<Rightarrow> ('s, registry_error, model_version) comp" where
  "register_model reg name source run_id tags = seq (catch (raising RegistryError (rg_create_model reg name)) (\<lambda>_. ret ()))
     (\<lambda>_. raising RegistryError (rg_create_version reg name source run_id tags))"

record version_row =
  vr_version :: model_version
  vr_serving :: bool

text \<open>The filter of \<open>list_versions\<close> quotes the name as it is.\<close>

definition list_versions :: "client \<Rightarrow> string \<Rightarrow> registry_error + version_row list" where
  "list_versions c name = (case cl_search c (''name='' @ [quote_char] @ name @ [quote_char]) of
      Inl e \<Rightarrow> Inl (RegistryError e)
    | Inr vs \<Rightarrow> (let serving = serving_version c name
        in Inr (map (\<lambda>m. \<lparr> vr_version = m, vr_serving = (Some (str_nat (mv_version m)) = serving) \<rparr>) (newest_first vs))))"

definition list_models :: "client \<Rightarrow> registry_error + (string \<times> string option) list" where
  "list_models c = (case cl_models c of
      Inl e \<Rightarrow> Inl (RegistryError e) | Inr ms \<Rightarrow> Inr (map (\<lambda>(n, aliases). (n, map_of aliases ''serving'')) ms))"

definition get_serving :: "client \<Rightarrow> string \<Rightarrow> string option" where
  "get_serving c name = filled (serving_version c name)"

definition set_version_tags :: "'s registry \<Rightarrow> string \<Rightarrow> string \<Rightarrow> (string, string) dict \<Rightarrow> ('s, registry_error, unit list) comp" where
  "set_version_tags reg name version tags = raising RegistryError (set_tags reg name version tags)"

section \<open>Promotion\<close>

record promotion =
  pm_promoted :: bool
  pm_serving :: "string option"
  pm_verdict :: verdict

definition promote :: "'s registry \<Rightarrow> (string \<Rightarrow> number option) \<Rightarrow> gate_policy \<Rightarrow> string \<Rightarrow> string \<Rightarrow> bool \<Rightarrow> ('s, registry_error, promotion) comp" where
  "promote reg parse p name version override = seq (gets (rg_client reg)) (\<lambda>c.
     let v = promotion_gate parse p c name version override
     in if vd_decision v = GBlocked then ret \<lparr> pm_promoted = False, pm_serving = serving_version c name, pm_verdict = v \<rparr>
        else seq (raising RegistryError (rg_set_alias reg name ''serving'' version))
          (\<lambda>_. ret \<lparr> pm_promoted = True, pm_serving = Some version, pm_verdict = v \<rparr>))"

text \<open>\<open>llm_target_info\<close>: nothing for a version that generates no text, otherwise its kind and base, or why it does not resolve.\<close>

datatype target_fault = NoBaseLineage | NoBase llm_error

record llm_target =
  tg_kind :: kind
  tg_base :: "(string \<times> string \<times> string) option"
  tg_fault :: "target_fault option"

definition task_of :: "(string, string) dict \<Rightarrow> string option" where
  "task_of tags = or_else (filled (map_of tags ''task'')) (task_from_kind tags)"

definition llm_target_info :: "client \<Rightarrow> string \<Rightarrow> string \<Rightarrow> registry_error + llm_target option" where
  "llm_target_info c name version = (case cl_get c name version of
      Inl e \<Rightarrow> Inl (RegistryError e)
    | Inr mv \<Rightarrow> (let tags = mv_tags mv
        in if task_of tags \<noteq> Some ''text-generation'' then Inr None
           else if effective_kind tags \<noteq> LoraAdapter then Inr (Some \<lparr> tg_kind = FullModel, tg_base = None, tg_fault = None \<rparr>)
           else if \<not> tag_set tags ''base_model'' then Inr (Some \<lparr> tg_kind = LoraAdapter, tg_base = None, tg_fault = Some NoBaseLineage \<rparr>)
           else (case resolve_base_version c (the (map_of tags ''base_model'')) of
               Inr b \<Rightarrow> Inr (Some \<lparr> tg_kind = LoraAdapter, tg_base = Some (mv_name b, str_nat (mv_version b), mv_source b), tg_fault = None \<rparr>)
             | Inl (Bad e) \<Rightarrow> Inr (Some \<lparr> tg_kind = LoraAdapter, tg_base = None, tg_fault = Some (NoBase e) \<rparr>)
             | Inl (Raised e) \<Rightarrow> Inl (RegistryError e))))"

section \<open>Serving tasks\<close>

text \<open>\<open>active_serving_llm_name\<close>: the store answers with an outage, no pointer or the pointer.\<close>

definition active_serving_llm_name :: "string \<Rightarrow> unit + string option \<Rightarrow> client \<Rightarrow> string" where
  "active_serving_llm_name DEFAULT_LLM pointer c = (case pointer of
      Inl _ \<Rightarrow> DEFAULT_LLM
    | Inr (Some name) \<Rightarrow> name
    | Inr None \<Rightarrow> (case adopt_active_llm c of Some n \<Rightarrow> if n = [] then DEFAULT_LLM else n | None \<Rightarrow> DEFAULT_LLM))"

text \<open>The engine of the first of some versions that names one.\<close>

definition engine_tag :: "model_version \<Rightarrow> string option" where
  "engine_tag m = filled (map_of (mv_tags m) ''serving_engine'')"

fun first_engine :: "model_version list \<Rightarrow> string option" where
  "first_engine [] = None"
| "first_engine (m # ms) = or_else (engine_tag m) (first_engine ms)"

definition resolve_engine :: "client \<Rightarrow> model_version \<Rightarrow> string option" where
  "resolve_engine c mv = (case engine_tag mv of
      Some e \<Rightarrow> Some e
    | None \<Rightarrow>
        if \<not> tag_set (mv_tags mv) ''base_model'' then None
        else (let base = the (map_of (mv_tags mv) ''base_model'');
            aliased = (case cl_by_alias c base ''serving'' of Inl e \<Rightarrow> None | Inr b \<Rightarrow> engine_tag b);
            named = (case cl_search c (filter_on ''name'' base) of Inl e \<Rightarrow> None | Inr vs \<Rightarrow> first_engine (newest_first vs))
          in or_else (or_else aliased named) (Some ''llama.cpp'')))"

record route =
  rt_name :: string
  rt_version :: string
  rt_task :: string
  rt_engine :: "string option"
  rt_source :: string

text \<open>The preferred model's entry when it is among the candidates, otherwise the first.\<close>

definition pick_route :: "string option \<Rightarrow> route list \<Rightarrow> route option" where
  "pick_route prefer rs = (case find (\<lambda>r. Some (rt_name r) = prefer) rs of
      Some r \<Rightarrow> Some r | None \<Rightarrow> (case rs of [] \<Rightarrow> None | r # _ \<Rightarrow> Some r))"

definition tagged_routes :: "client \<Rightarrow> string \<Rightarrow> model_version list \<Rightarrow> route list" where
  "tagged_routes c task vs = map (\<lambda>m. \<lparr> rt_name = mv_name m, rt_version = str_nat (mv_version m), rt_task = task,
       rt_engine = resolve_engine c m, rt_source = mv_source m \<rparr>)
     (filter (\<lambda>m. serving_version c (mv_name m) = Some (str_nat (mv_version m))) vs)"

definition inferred_route :: "client \<Rightarrow> string \<Rightarrow> string \<Rightarrow> (string, string) dict \<Rightarrow> route list" where
  "inferred_route c task name aliases = (case filled (map_of aliases ''serving'') of
       None \<Rightarrow> []
     | Some sv \<Rightarrow> (case cl_get c name sv of
         Inl e \<Rightarrow> []
       | Inr m \<Rightarrow> if tag_set (mv_tags m) ''task'' \<or> task_from_kind (mv_tags m) \<noteq> Some task then []
           else [\<lparr> rt_name = name, rt_version = sv, rt_task = task, rt_engine = resolve_engine c m, rt_source = mv_source m \<rparr>]))"

definition inferred_routes :: "client \<Rightarrow> string \<Rightarrow> (string \<times> (string, string) dict) list \<Rightarrow> route list" where
  "inferred_routes c task models = concat (map (\<lambda>(name, aliases). inferred_route c task name aliases) models)"

definition resolve_serving_target :: "client \<Rightarrow> string \<Rightarrow> string option \<Rightarrow> registry_error + route option" where
  "resolve_serving_target c task prefer = (case cl_search c (filter_on ''tags.task'' task) of
      Inl e \<Rightarrow> Inl (RegistryError e)
    | Inr vs \<Rightarrow> (case pick_route prefer (tagged_routes c task vs) of
        Some r \<Rightarrow> Inr (Some r)
      | None \<Rightarrow> if task \<noteq> ''text-generation'' then Inr None
          else (case cl_models c of
              Inl e \<Rightarrow> Inl (RegistryError e)
            | Inr models \<Rightarrow> Inr (pick_route prefer (inferred_routes c task models)))))"

record panel =
  pn_model :: string
  pn_version :: string
  pn_task :: "string option"
  pn_engine :: "string option"
  pn_kind :: "kind option"
  pn_lineage :: "(string \<times> string) list"

definition LINEAGE_KEYS :: "string list" where
  "LINEAGE_KEYS = [''base_model'', ''dataset_name'', ''dataset_version'', ''parent_version'', ''lineage'']"

definition is_text :: "panel \<Rightarrow> bool" where
  "is_text e = (pn_task e = Some ''text-generation'')"

definition panel_of :: "client \<Rightarrow> string \<Rightarrow> string \<Rightarrow> model_version \<Rightarrow> panel" where
  "panel_of c name sv m = (let tags = mv_tags m; text = (task_of tags = Some ''text-generation'')
     in \<lparr> pn_model = name, pn_version = sv, pn_task = task_of tags, pn_engine = resolve_engine c m,
          pn_kind = (if text then Some (effective_kind tags) else None),
          pn_lineage = (if text then concat (map (\<lambda>k. case filled (map_of tags k) of None \<Rightarrow> [] | Some v \<Rightarrow> [(k, v)]) LINEAGE_KEYS) else []) \<rparr>)"

definition panels :: "client \<Rightarrow> (string \<times> (string, string) dict) list \<Rightarrow> panel list" where
  "panels c models = concat (map (\<lambda>(name, aliases). case filled (map_of aliases ''serving'') of
       None \<Rightarrow> [] | Some sv \<Rightarrow> (case cl_get c name sv of Inl e \<Rightarrow> [] | Inr m \<Rightarrow> [panel_of c name sv m])) models)"

text \<open>Of several text-generation panels only the active model's stays; panels are compared by their place in the list.\<close>

definition keep_live :: "string \<Rightarrow> panel list \<Rightarrow> panel list" where
  "keep_live active out =
     (let text = filter (\<lambda>(i, e). is_text e) (enumerate 0 out);
          keep = (case text of [] \<Rightarrow> None | [(i, e)] \<Rightarrow> Some i | _ \<Rightarrow> map_option fst (find (\<lambda>(i, e). pn_model e = active) text))
      in map snd (filter (\<lambda>(i, e). \<not> is_text e \<or> Some i = keep) (enumerate 0 out)))"

definition list_tasks :: "string \<Rightarrow> unit + string option \<Rightarrow> client \<Rightarrow> registry_error + panel list" where
  "list_tasks DEFAULT_LLM pointer c = (case cl_models c of
      Inl e \<Rightarrow> Inl (RegistryError e)
    | Inr models \<Rightarrow> Inr (keep_live (active_serving_llm_name DEFAULT_LLM pointer c) (panels c models)))"

section \<open>Promotion follows the gate\<close>

lemma promote_cases:
  "promote reg parse p name version override s = (r, t) \<Longrightarrow>
    let v = promotion_gate parse p (rg_client reg s) name version override in
    if vd_decision v = GBlocked
    then t = s \<and> r = Inr \<lparr> pm_promoted = False, pm_serving = serving_version (rg_client reg s) name, pm_verdict = v \<rparr>
    else (case rg_set_alias reg name ''serving'' version s of
        (Inl e, t') \<Rightarrow> t = t' \<and> r = Inl (RegistryError e)
      | (Inr u, t') \<Rightarrow> t = t' \<and> r = Inr \<lparr> pm_promoted = True, pm_serving = Some version, pm_verdict = v \<rparr>)"
  by (auto simp: promote_def seq_def gets_def ret_def raising_def Let_def split: if_splits prod.splits sum.splits)

section \<open>Routing\<close>

lemma pick_route_mem: "pick_route prefer rs = Some r \<Longrightarrow> r \<in> set rs"
  by (auto simp: pick_route_def find_Some_iff split: option.splits list.splits)

lemma pick_route_prefers:
  assumes "r \<in> set rs" "Some (rt_name r) = prefer" "pick_route prefer rs = Some x"
  shows "Some (rt_name x) = prefer"
  using assms by (auto simp: pick_route_def find_Some_iff find_None_iff split: option.splits)

lemma filled_Some [simp]: "filled x = Some v \<longleftrightarrow> x = Some v \<and> v \<noteq> []"
  by (auto simp: filled_def)

lemma task_of_inferred: "\<not> tag_set tags ''task'' \<Longrightarrow> task_of tags = task_from_kind tags"
  by (auto simp: task_of_def tag_set_def filled_def or_else_def split: option.splits)

lemma inferred_routes_mem:
  assumes "r \<in> set (inferred_routes c task models)"
  shows "\<exists>aliases m. (rt_name r, aliases) \<in> set models \<and> map_of aliases ''serving'' = Some (rt_version r) \<and>
    cl_get c (rt_name r) (rt_version r) = Inr m \<and> task_of (mv_tags m) = Some task"
proof -
  obtain name aliases where mem: "(name, aliases) \<in> set models" and r: "r \<in> set (inferred_route c task name aliases)"
    using assms by (auto simp: inferred_routes_def)
  obtain sv where sv: "filled (map_of aliases ''serving'') = Some sv"
    using r by (cases "filled (map_of aliases ''serving'')") (simp_all add: inferred_route_def)
  obtain m where m: "cl_get c name sv = Inr m" using r sv by (cases "cl_get c name sv") (simp_all add: inferred_route_def)
  then have "\<not> tag_set (mv_tags m) ''task''" "task_from_kind (mv_tags m) = Some task" "rt_name r = name" "rt_version r = sv"
    using r sv by (simp_all add: inferred_route_def split: if_splits)
  then show ?thesis using mem sv m task_of_inferred by auto
qed

text \<open>A route is served: the alias of its model names its version, by the tag or by the artifact's kind for untagged ones, and
  the preferred model wins when it serves the task.\<close>

lemma routes_serve:
  assumes "resolve_serving_target c task prefer = Inr (Some r)"
  shows "(\<exists>vs m. cl_search c (filter_on ''tags.task'' task) = Inr vs \<and> m \<in> set vs \<and> rt_name r = mv_name m \<and>
      rt_version r = str_nat (mv_version m) \<and> serving_version c (rt_name r) = Some (rt_version r)) \<or>
    (task = ''text-generation'' \<and> (\<exists>models aliases m. cl_models c = Inr models \<and> (rt_name r, aliases) \<in> set models \<and>
      map_of aliases ''serving'' = Some (rt_version r) \<and> cl_get c (rt_name r) (rt_version r) = Inr m \<and>
      task_of (mv_tags m) = Some task))"
proof -
  obtain vs where vs: "cl_search c (filter_on ''tags.task'' task) = Inr vs"
    using assms by (auto simp: resolve_serving_target_def split: sum.splits)
  show ?thesis
  proof (cases "pick_route prefer (tagged_routes c task vs)")
    case (Some x)
    then have "x = r" using assms vs by (simp add: resolve_serving_target_def)
    then have "r \<in> set (tagged_routes c task vs)" using pick_route_mem Some by blast
    then show ?thesis using vs by (auto simp: tagged_routes_def)
  next
    case None
    then obtain models where models: "cl_models c = Inr models" "task = ''text-generation''"
      "pick_route prefer (inferred_routes c task models) = Some r"
      using assms vs by (auto simp: resolve_serving_target_def split: sum.splits if_splits)
    then have "r \<in> set (inferred_routes c task models)" using pick_route_mem by blast
    then show ?thesis using models(1,2) inferred_routes_mem by blast
  qed
qed


section \<open>One live language model\<close>

text \<open>Selecting places of a list.\<close>

definition places :: "(nat \<Rightarrow> 'a \<Rightarrow> bool) \<Rightarrow> 'a list \<Rightarrow> 'a list" where
  "places P xs = map snd (filter (\<lambda>(i, e). P i e) (enumerate 0 xs))"

lemma places_from: "map snd (filter (\<lambda>(i, e). P i e) (enumerate n xs)) = places (\<lambda>i. P (i + n)) xs"
proof (induction xs arbitrary: n P)
  case (Cons x xs)
  have "places (\<lambda>i. P (i + n)) (x # xs) = (if P n x then [x] else []) @ map snd (filter (\<lambda>(i, e). P (i + n) e) (enumerate 1 xs))"
    by (simp add: places_def)
  also have "map snd (filter (\<lambda>(i, e). P (i + n) e) (enumerate 1 xs)) = places (\<lambda>i. P (i + Suc n)) xs"
    using Cons[of "\<lambda>i. P (i + n)" 1] by simp
  finally show ?case using Cons[of P "Suc n"] by simp
qed (simp add: places_def)

lemma places_Cons: "places P (x # xs) = (if P 0 x then [x] else []) @ places (\<lambda>i. P (Suc i)) xs"
  using places_from[of P 1 xs] by (simp add: places_def)

lemma places_const: "places (\<lambda>i. Q) xs = filter Q xs"
  by (induction xs) (simp_all add: places_Cons, simp add: places_def)

lemma filter_places: "filter Q (places P xs) = places (\<lambda>i e. P i e \<and> Q e) xs"
  by (simp add: places_def filter_map o_def case_prod_unfold conj_commute)

lemma places_one: "length (places (\<lambda>i e. Some i = k \<and> Q e) xs) \<le> 1"
proof (induction xs arbitrary: k)
  case (Cons x xs)
  show ?case
  proof (cases "k = Some 0")
    case True
    have "places (\<lambda>i e. Some (Suc i) = Some 0 \<and> Q e) xs = []" by (simp add: places_def)
    then show ?thesis using True by (simp add: places_Cons)
  next
    case False
    have "(\<lambda>i e. Some (Suc i) = k \<and> Q e) = (\<lambda>i e. Some i = map_option (\<lambda>j. j - 1) k \<and> Q e)"
      using False by (cases k) (auto simp: fun_eq_iff)
    moreover have "places (\<lambda>i e. Some i = k \<and> Q e) (x # xs) = places (\<lambda>i e. Some (Suc i) = k \<and> Q e) xs"
      using False by (auto simp: places_Cons)
    ultimately show ?thesis using Cons.IH[of "map_option (\<lambda>j. j - 1) k"] by simp
  qed
qed (simp add: places_def)

lemma keep_live_places:
  "\<exists>k. keep_live active out = places (\<lambda>i e. \<not> is_text e \<or> Some i = k) out"
  unfolding keep_live_def Let_def places_def by (rule exI) (rule refl)

lemma keep_live_active:
  assumes "e \<in> set (keep_live active out)" "is_text e" "length (filter is_text out) \<noteq> 1"
  shows "pn_model e = active"
proof -
  let ?text = "filter (\<lambda>(i, e). is_text e) (enumerate 0 out)"
  have "map snd ?text = filter is_text out" using places_const[of is_text out] by (simp add: places_def)
  then have "length ?text \<noteq> 1" using assms(3) by (metis length_map)
  moreover obtain i where i: "(i, e) \<in> set (enumerate 0 out)"
    "(case ?text of [] \<Rightarrow> None | [(i, e)] \<Rightarrow> Some i | _ \<Rightarrow> map_option fst (find (\<lambda>(i, e). pn_model e = active) ?text)) = Some i"
    using assms(1,2) by (auto simp: keep_live_def Let_def)
  ultimately have "map_option fst (find (\<lambda>(i, e). pn_model e = active) ?text) = Some i"
    by (auto split: list.splits)
  then obtain e' where e': "find (\<lambda>(i, e). pn_model e = active) ?text = Some (i, e')" by (auto simp: map_option_case split: option.splits)
  then have "(i, e') \<in> set ?text" "pn_model e' = active" by (auto simp: find_Some_iff dest: nth_mem)
  then show ?thesis using i(1) by (auto simp: in_set_enumerate_eq)
qed

text \<open>However many text-generation models hold a serving alias, the task list shows at most one of them, the active
  one unless it is the only one, and it shows every other task as it is.\<close>

theorem at_most_one_live_text_model:
  assumes "list_tasks DEFAULT_LLM pointer c = Inr out" "cl_models c = Inr models"
  shows "length (filter is_text out) \<le> 1 \<and> filter (\<lambda>e. \<not> is_text e) out = filter (\<lambda>e. \<not> is_text e) (panels c models) \<and>
    (\<forall>e \<in> set out. is_text e \<and> length (filter is_text (panels c models)) \<noteq> 1 \<longrightarrow>
      pn_model e = active_serving_llm_name DEFAULT_LLM pointer c)"
proof -
  have out: "out = keep_live (active_serving_llm_name DEFAULT_LLM pointer c) (panels c models)"
    using assms by (simp add: list_tasks_def)
  obtain k where k: "out = places (\<lambda>i e. \<not> is_text e \<or> Some i = k) (panels c models)"
    using keep_live_places unfolding out by blast
  have "filter is_text out = places (\<lambda>i e. Some i = k \<and> is_text e) (panels c models)"
    unfolding k filter_places by (rule arg_cong2[where f = places]) (auto simp: fun_eq_iff)
  moreover have "filter (\<lambda>e. \<not> is_text e) out = places (\<lambda>i e. \<not> is_text e) (panels c models)"
    unfolding k filter_places by (rule arg_cong2[where f = places]) (auto simp: fun_eq_iff)
  ultimately show ?thesis using places_one places_const keep_live_active out by auto
qed

definition text_version :: "nat \<Rightarrow> model_version" where
  "text_version v = \<lparr> mv_name = ''a'', mv_version = v, mv_source = [], mv_tags = [(''task'', ''text-generation'')] \<rparr>"

definition two_llms :: client where
  "two_llms = (listed [text_version 1] (Some 1))\<lparr> cl_models := Inr [(''a'', [(''serving'', ''1'')]), (''b'', [(''serving'', ''1'')])] \<rparr>"

lemma at_most_one_live_text_model_witness:
  "map_sum id (map pn_model) (list_tasks ''base'' (Inr (Some ''b'')) two_llms) = Inr [''b''] \<and>
    length (filter is_text (projr (list_tasks ''base'' (Inr (Some ''b'')) two_llms))) \<le> 1"
proof -
  have ran: "list_tasks ''base'' (Inr (Some ''b'')) two_llms = Inr (projr (list_tasks ''base'' (Inr (Some ''b'')) two_llms))" by code_simp
  have models: "cl_models two_llms = Inr [(''a'', [(''serving'', ''1'')]), (''b'', [(''serving'', ''1'')])]" by (simp add: two_llms_def)
  have shown: "map_sum id (map pn_model) (list_tasks ''base'' (Inr (Some ''b'')) two_llms) = Inr [''b'']" by code_simp
  show ?thesis using at_most_one_live_text_model[OF ran models] shown by blast
qed

end
