(* ===== verification/GoLive.thy ===== *)
theory GoLive
  imports Registry
begin

text \<open>
  \<open>gateway/app/promotion.py\<close> and the promote handler of \<open>gateway/app/routers/models.py\<close>: the one operator path on which a
  version goes live.  The registry is that of \<open>Registry\<close>; the activation service is injected, so its conflict check and its
  activation are arguments, as the pointer read is.
\<close>

section \<open>The use case\<close>

datatype go_outcome = NotFound | Refused | Conflict | GateBlocked | Promoted | GoError

definition http_status :: "go_outcome \<Rightarrow> nat" where
  "http_status g = (case g of NotFound \<Rightarrow> 404 | Refused \<Rightarrow> 409 | Conflict \<Rightarrow> 409 | GateBlocked \<Rightarrow> 200 | Promoted \<Rightarrow> 200 | GoError \<Rightarrow> 502)"

datatype label = LOk | LRefused | LConflict | LBlocked | LError | LUnresolvable

text \<open>What an activation answers: whether it rolled back.  The pointer is what the store reads, an outage reads as unset.\<close>

record ('s, 'p) activation_seam =
  av_conflict :: "'s \<Rightarrow> string \<Rightarrow> string \<Rightarrow> bool"
  av_pointer :: "'s \<Rightarrow> 'p option"
  av_activate :: "string \<Rightarrow> string \<Rightarrow> 'p option \<Rightarrow> bool \<Rightarrow> llm_target \<Rightarrow> ('s, unit, bool) comp"

record go_result =
  gr_outcome :: go_outcome
  gr_labels :: "label list"
  gr_promotion :: "promotion option"

definition gr :: "go_outcome \<Rightarrow> label list \<Rightarrow> go_result" where
  "gr g ls = \<lparr> gr_outcome = g, gr_labels = ls, gr_promotion = None \<rparr>"

text \<open>The existence, the target and the conflict check, in this order: the target, or why nothing may move.\<close>

definition pre_checks :: "('s, 'p) activation_seam \<Rightarrow> 's registry \<Rightarrow> string \<Rightarrow> string \<Rightarrow> 's \<Rightarrow> go_result + llm_target option" where
  "pre_checks av reg name version s = (case list_versions (rg_client reg s) name of
      Inl e \<Rightarrow> Inl (gr GoError [])
    | Inr vs \<Rightarrow> if \<not> list_ex (\<lambda>v. str_nat (mv_version (vr_version v)) = version) vs then Inl (gr NotFound [])
        else (case llm_target_info (rg_client reg s) name version of
            Inl e \<Rightarrow> Inl (gr GoError [])
          | Inr None \<Rightarrow> Inr None
          | Inr (Some t) \<Rightarrow> if tg_fault t \<noteq> None then Inl (gr Refused [LRefused])
              else if av_conflict av s name version then Inl (gr Conflict [LConflict]) else Inr (Some t)))"

text \<open>The durable activation of a text-generation target, with the pointer read before it is overwritten.\<close>

definition activate_target :: "('s, 'p) activation_seam \<Rightarrow> string \<Rightarrow> string \<Rightarrow> bool \<Rightarrow> llm_target option \<Rightarrow> promotion \<Rightarrow> ('s, registry_error, go_result) comp" where
  "activate_target av name version preempt target res = (case target of
      None \<Rightarrow> ret \<lparr> gr_outcome = Promoted, gr_labels = [LOk], gr_promotion = Some res \<rparr>
    | Some t \<Rightarrow> seq (gets (av_pointer av)) (\<lambda>prior s.
        case av_activate av name version prior preempt t s of
          (Inl _, s') \<Rightarrow> (Inr (gr Conflict [LOk, LConflict]), s')
        | (Inr rolled_back, s') \<Rightarrow> (Inr \<lparr> gr_outcome = Promoted, gr_labels = [LOk] @ (if rolled_back then [LUnresolvable] else []),
            gr_promotion = Some res \<rparr>, s')))"

definition go_live :: "('s, 'p) activation_seam \<Rightarrow> 's registry \<Rightarrow> (string \<Rightarrow> number option) \<Rightarrow> gate_policy \<Rightarrow> string \<Rightarrow> string \<Rightarrow> bool \<Rightarrow> bool
    \<Rightarrow> ('s, registry_error, go_result) comp" where
  "go_live av reg parse p name version override preempt = seq (gets (pre_checks av reg name version)) (\<lambda>pre. case pre of
      Inl r \<Rightarrow> ret r
    | Inr target \<Rightarrow> try_else (promote reg parse p name version override)
        (\<lambda>_. ret (gr GoError [LError]))
        (\<lambda>res. if \<not> pm_promoted res then ret \<lparr> gr_outcome = GateBlocked, gr_labels = [LBlocked], gr_promotion = Some res \<rparr>
          else activate_target av name version preempt target res))"

text \<open>The handler: the labels it counts and the status it answers with.\<close>

definition promote_handler :: "('s, 'p) activation_seam \<Rightarrow> 's registry \<Rightarrow> (string \<Rightarrow> number option) \<Rightarrow> gate_policy \<Rightarrow> string \<Rightarrow> string \<Rightarrow> bool \<Rightarrow> bool
    \<Rightarrow> ('s, registry_error, nat \<times> label list) comp" where
  "promote_handler av reg parse p name version override preempt = seq (go_live av reg parse p name version override preempt)
     (\<lambda>r. ret (http_status (gr_outcome r), gr_labels r))"

section \<open>What moves when\<close>

lemma activate_target_cases:
  assumes "activate_target av name version preempt target res s = (r, t)"
  shows "(target = None \<and> t = s \<and> r = Inr \<lparr> gr_outcome = Promoted, gr_labels = [LOk], gr_promotion = Some res \<rparr>) \<or>
    (\<exists>tg a. target = Some tg \<and> av_activate av name version (av_pointer av s) preempt tg s = (a, t) \<and>
      r = Inr (case a of Inl _ \<Rightarrow> gr Conflict [LOk, LConflict]
        | Inr rb \<Rightarrow> \<lparr> gr_outcome = Promoted, gr_labels = [LOk] @ (if rb then [LUnresolvable] else []), gr_promotion = Some res \<rparr>))"
  using assms by (auto simp: activate_target_def seq_def gets_def ret_def split: option.splits prod.splits sum.splits if_splits)

text \<open>A run stops at a check, at the gate, at the alias, or reaches the activation.\<close>

lemma activate_target_labels:
  assumes "activate_target av name version preempt target res s = (Inr r, t)"
  shows "(gr_outcome r, gr_labels r) \<in> {(Promoted, [LOk]), (Promoted, [LOk, LUnresolvable]), (Conflict, [LOk, LConflict])}"
  using assms by (auto simp: activate_target_def seq_def gets_def ret_def gr_def split: option.splits prod.splits sum.splits if_splits)

lemma go_live_cases:
  assumes "go_live av reg parse p name version override preempt s = (Inr r, t)"
  shows "(\<exists>x. pre_checks av reg name version s = Inl x \<and> r = x \<and> t = s) \<or>
    (\<exists>target. pre_checks av reg name version s = Inr target \<and>
      (vd_decision (promotion_gate parse p (rg_client reg s) name version override) = GBlocked \<and> t = s \<and> gr_outcome r = GateBlocked \<and> gr_labels r = [LBlocked] \<or>
       vd_decision (promotion_gate parse p (rg_client reg s) name version override) \<noteq> GBlocked \<and>
       ((\<exists>e. rg_set_alias reg name ''serving'' version s = (Inl e, t) \<and> r = gr GoError [LError]) \<or>
        (\<exists>u s' res. rg_set_alias reg name ''serving'' version s = (Inr u, s') \<and> activate_target av name version preempt target res s' = (Inr r, t)))))"
proof (cases "pre_checks av reg name version s")
  case (Inl x)
  then show ?thesis using assms by (auto simp: go_live_def seq_def gets_def ret_def)
next
  case (Inr target)
  obtain pr t' where pr: "promote reg parse p name version override s = (pr, t')" by (cases "promote reg parse p name version override s")
  have rest: "(case pr of Inl e \<Rightarrow> (Inr (gr GoError [LError]), t')
      | Inr res \<Rightarrow> if \<not> pm_promoted res then (Inr \<lparr> gr_outcome = GateBlocked, gr_labels = [LBlocked], gr_promotion = Some res \<rparr>, t')
          else activate_target av name version preempt target res t') = (Inr r, t)"
    using assms Inr pr by (auto simp: go_live_def try_else_def seq_def gets_def ret_def split: sum.splits if_splits)
  show ?thesis
    using Inr rest promote_cases[OF pr] by (auto simp: Let_def split: if_splits prod.splits sum.splits)
qed

text \<open>Nothing moves unless the version is listed, resolves, meets no conflict and passes the gate.\<close>

definition admitted :: "('s, 'p) activation_seam \<Rightarrow> 's registry \<Rightarrow> (string \<Rightarrow> number option) \<Rightarrow> gate_policy \<Rightarrow> string \<Rightarrow> string \<Rightarrow> bool \<Rightarrow> 's \<Rightarrow> bool" where
  "admitted av reg parse p name version override s \<longleftrightarrow>
     (\<exists>vs. list_versions (rg_client reg s) name = Inr vs \<and> version \<in> (\<lambda>v. str_nat (mv_version (vr_version v))) ` set vs) \<and>
     (case llm_target_info (rg_client reg s) name version of
        Inl _ \<Rightarrow> False | Inr None \<Rightarrow> True | Inr (Some t) \<Rightarrow> tg_fault t = None \<and> \<not> av_conflict av s name version) \<and>
     vd_decision (promotion_gate parse p (rg_client reg s) name version override) \<noteq> GBlocked"

lemma pre_checks_Inr:
  "(\<exists>t. pre_checks av reg name version s = Inr t) \<longleftrightarrow>
     (\<exists>vs. list_versions (rg_client reg s) name = Inr vs \<and> version \<in> (\<lambda>v. str_nat (mv_version (vr_version v))) ` set vs) \<and>
     (case llm_target_info (rg_client reg s) name version of
        Inl _ \<Rightarrow> False | Inr None \<Rightarrow> True | Inr (Some t) \<Rightarrow> tg_fault t = None \<and> \<not> av_conflict av s name version)"
  by (cases "list_versions (rg_client reg s) name"; cases "llm_target_info (rg_client reg s) name version")
    (auto simp: pre_checks_def list_ex_iff image_iff split: option.splits)

lemma pre_checks_target: "pre_checks av reg name version s = Inr target \<Longrightarrow> llm_target_info (rg_client reg s) name version = Inr target"
  by (auto simp: pre_checks_def split: sum.splits option.splits if_splits)

lemma pre_checks_outcome:
  "pre_checks av reg name version s = Inl x \<Longrightarrow>
    (gr_outcome x, gr_labels x) \<in> {(GoError, []), (NotFound, []), (Refused, [LRefused]), (Conflict, [LConflict])}"
  by (auto simp: pre_checks_def gr_def split: sum.splits option.splits if_splits)

lemma go_live_after_checks:
  assumes "go_live av reg parse p name version override preempt s = (Inr r, t)" "pre_checks av reg name version s = Inr target"
  obtains (blocked) "\<not> admitted av reg parse p name version override s" "t = s" "gr_outcome r = GateBlocked" "gr_labels r = [LBlocked]"
  | (fails) e where "admitted av reg parse p name version override s" "rg_set_alias reg name ''serving'' version s = (Inl e, t)"
      "r = gr GoError [LError]"
  | (moves) u s' res where "admitted av reg parse p name version override s"
      "rg_set_alias reg name ''serving'' version s = (Inr u, s')" "activate_target av name version preempt target res s' = (Inr r, t)"
proof -
  note cases = that
  have "admitted av reg parse p name version override s \<longleftrightarrow>
      vd_decision (promotion_gate parse p (rg_client reg s) name version override) \<noteq> GBlocked"
    using assms(2) pre_checks_Inr[of av reg name version s] unfolding admitted_def by auto
  then show thesis using go_live_cases[OF assms(1)] assms(2) cases by fastforce
qed

lemma go_live_refused:
  assumes "go_live av reg parse p name version override preempt s = (Inr r, t)" "pre_checks av reg name version s = Inl x"
  shows "\<not> admitted av reg parse p name version override s" "r = x" "t = s"
  using go_live_cases[OF assms(1)] assms(2) pre_checks_Inr[of av reg name version s] unfolding admitted_def by auto

text \<open>Claim C33. The alias moves last: unless the version is listed, its target resolves, no other activation is in flight and the
  gate does not block, a go-live leaves the registry, the pointer and the agent exactly as they were and says why; once admitted
  it puts the alias, and only after the alias is put does it activate, handing over the pointer it read before.\<close>

theorem alias_moves_only_when_admitted:
  assumes "go_live av reg parse p name version override preempt s = (Inr r, t)"
  shows "(\<not> admitted av reg parse p name version override s \<longrightarrow> t = s \<and> gr_outcome r \<noteq> Promoted) \<and>
    (admitted av reg parse p name version override s \<longrightarrow>
      (\<exists>e. rg_set_alias reg name ''serving'' version s = (Inl e, t) \<and> gr_outcome r = GoError) \<or>
      (\<exists>u s'. rg_set_alias reg name ''serving'' version s = (Inr u, s') \<and>
        (t = s' \<and> gr_outcome r = Promoted \<and> llm_target_info (rg_client reg s) name version = Inr None \<or>
         (\<exists>tg a. llm_target_info (rg_client reg s) name version = Inr (Some tg) \<and>
           av_activate av name version (av_pointer av s') preempt tg s' = (a, t) \<and>
           gr_outcome r = (case a of Inl _ \<Rightarrow> Conflict | Inr _ \<Rightarrow> Promoted)))))"
proof (cases "pre_checks av reg name version s")
  case (Inl x)
  then show ?thesis using go_live_refused[OF assms Inl] pre_checks_outcome[OF Inl] by auto
next
  case (Inr target)
  from assms Inr show ?thesis
  proof (cases rule: go_live_after_checks)
    case (moves u s' res)
    then show ?thesis
      using pre_checks_target[OF Inr] activate_target_cases[OF moves(3)] by (fastforce simp: gr_def split: sum.splits)
  qed (auto simp: gr_def)
qed

text \<open>The status and the counted labels of every go-live are one of nine: a refusal counts one label, a failing
  pre-check none, and a label ok is counted exactly when the alias was put.\<close>

theorem handler_statuses:
  assumes "promote_handler av reg parse p name version override preempt s = (Inr (status, ls), t)"
  shows "(status, ls) \<in> {(404, []), (502, []), (409, [LRefused]), (409, [LConflict]), (200, [LBlocked]), (502, [LError]),
      (200, [LOk]), (200, [LOk, LUnresolvable]), (409, [LOk, LConflict])} \<and>
    (LOk \<in> set ls \<longleftrightarrow> admitted av reg parse p name version override s \<and>
      (\<exists>u s'. rg_set_alias reg name ''serving'' version s = (Inr u, s')))"
proof -
  obtain r where live: "go_live av reg parse p name version override preempt s = (Inr r, t)"
    and r: "status = http_status (gr_outcome r)" "ls = gr_labels r"
    using assms by (auto simp: promote_handler_def seq_def ret_def split: prod.splits sum.splits)
  show ?thesis
  proof (cases "pre_checks av reg name version s")
    case (Inl x)
    then have "(gr_outcome r, gr_labels r) \<in> {(GoError, []), (NotFound, []), (Refused, [LRefused]), (Conflict, [LConflict])}"
      using go_live_refused(2)[OF live Inl] pre_checks_outcome[OF Inl] by simp
    then show ?thesis using go_live_refused(1)[OF live Inl] unfolding r by (elim insertE) (simp_all add: http_status_def)
  next
    case (Inr target)
    from live Inr show ?thesis
    proof (cases rule: go_live_after_checks)
      case (moves u s' res)
      then show ?thesis
        using activate_target_labels[OF moves(3)] unfolding r by (elim insertE) (simp_all add: http_status_def)
    qed (simp_all add: r gr_def http_status_def)
  qed
qed

section \<open>A go-live\<close>

text \<open>The state is the serving version and the pointer; the versions are text-generation models.\<close>

definition live_registry :: "(nat option \<times> string option) registry" where
  "live_registry = \<lparr> rg_client = (\<lambda>(serving, pointer). listed [text_version 1, text_version 2] serving),
     rg_set_tag = (\<lambda>n v k x. ret ()),
     rg_set_alias = (\<lambda>n a v s. (Inr (), (if v = ''2'' then Some 2 else Some 1, snd s))),
     rg_log_run = (\<lambda>n v k x. ret ()), rg_create_model = (\<lambda>n. ret ()),
     rg_create_version = (\<lambda>n src run tags. throw \<lparr> ex_code = None, ex_text = [] \<rparr>) \<rparr>"

definition live_activation :: "bool \<Rightarrow> (nat option \<times> string option, string) activation_seam" where
  "live_activation busy = \<lparr> av_conflict = (\<lambda>s n v. busy), av_pointer = snd,
     av_activate = (\<lambda>n v prior preempt tg s. (Inr False, (fst s, Some n))) \<rparr>"

definition live_start :: "nat option \<times> string option" where
  "live_start = (Some 1, Some ''old'')"

lemma live_run:
  "promote_handler (live_activation False) live_registry parse_demo strict ''a'' ''2'' False False live_start =
    (Inr (200, [LOk]), (Some 2, Some ''a''))"
  by code_simp

lemma busy_run:
  "go_live (live_activation True) live_registry parse_demo strict ''a'' ''2'' False False live_start = (Inr (gr Conflict [LConflict]), live_start)"
  by code_simp

lemma alias_moves_only_when_admitted_witness:
  "\<not> admitted (live_activation True) live_registry parse_demo strict ''a'' ''2'' False live_start"
  using alias_moves_only_when_admitted[OF busy_run] by (auto simp: gr_def live_registry_def live_activation_def live_start_def)

lemma handler_statuses_witness:
  "admitted (live_activation False) live_registry parse_demo strict ''a'' ''2'' False live_start"
  using handler_statuses[OF live_run] by simp

end
