(* ===== verification/QualityWindow.thy ===== *)
theory QualityWindow
  imports EvalGate "HOL-Library.List_Lexorder" "HOL-Library.Char_ord"
begin

text \<open>
  \<open>gateway/app/quality.py\<close> over \<open>storeimpl/predictions.py\<close>, \<open>labels.py\<close> and \<open>capture.py\<close>: the log of served predictions, their
  write-once labels, the captured inputs with their bounded retention, and the quality of a version over its newest labelled
  predictions.  The store keeps index rows, the object store the bodies; what a read of an object answers is an argument.
  Times are rationals in seconds, rows of equal time come in table order.
\<close>

section \<open>Rows and bodies\<close>

record prediction_row =
  pr_id :: string
  pr_model :: string
  pr_version :: string
  pr_modality :: string
  pr_served :: rat
  pr_streamed :: bool
  pr_payload :: "string option"

record capture_row =
  cr_id :: string
  cr_modality :: string
  cr_input :: string
  cr_captured :: rat

record 'v qstore =
  qs_predictions :: "prediction_row list"
  qs_labels :: "(string, 'v) dict"
  qs_captures :: "capture_row list"

record 'v prediction_body =
  pb_model :: string
  pb_version :: string
  pb_modality :: string
  pb_prediction :: "'v option"
  pb_ts :: rat

record 'i input_body =
  ib_id :: string
  ib_input :: 'i
  ib_ts :: rat

datatype 'b object_read = Body 'b | Missing | ReadFails

section \<open>Logging\<close>

text \<open>\<open>log_prediction\<close>: an insert that leaves an existing id alone.\<close>

definition insert_prediction :: "prediction_row \<Rightarrow> 'v qstore \<Rightarrow> 'v qstore" where
  "insert_prediction r q = (if pr_id r \<in> pr_id ` set (qs_predictions q) then q else q\<lparr> qs_predictions := qs_predictions q @ [r] \<rparr>)"

record capture_config =
  cc_logging :: bool
  cc_capture_io :: bool
  cc_sample :: rat
  cc_cap :: int
  cc_ttl :: rat

text \<open>What the logging thread does: the object put and the row insert fail independently, and both are dropped when they
  do; a full pool of log threads or a disabled log drops the record.  The answer is the row and the object that land.\<close>

definition log_prediction :: "capture_config \<Rightarrow> string \<Rightarrow> string \<Rightarrow> string \<Rightarrow> string \<Rightarrow> rat \<Rightarrow> 'v option \<Rightarrow> bool \<Rightarrow> bool \<Rightarrow> bool
    \<Rightarrow> 'v qstore \<Rightarrow> 'v qstore \<times> (string \<times> 'v prediction_body) option" where
  "log_prediction cc pid model version modality ts prediction slot put_ok row_ok q =
     (if \<not> cc_logging cc \<or> \<not> slot then (q, None)
      else (let captured = (if cc_capture_io cc then prediction else None); ref = ''predictions/'' @ pid @ ''.json'';
          row = \<lparr> pr_id = pid, pr_model = model, pr_version = version, pr_modality = modality, pr_served = ts,
            pr_streamed = Option.is_none captured, pr_payload = Some ref \<rparr>;
          body = \<lparr> pb_model = model, pb_version = version, pb_modality = modality, pb_prediction = captured, pb_ts = ts \<rparr>
        in (if row_ok then insert_prediction row q else q, if put_ok then Some (ref, body) else None)))"

datatype label_status = Attached | Unknown | DuplicateLabel

datatype quality_error = StoreDown | BadWindow int | NoQualityMetric | WindowError metric_error

text \<open>\<open>attach_label\<close> under the primary key and the reference to the prediction; the two flags say whether its two statements
  work.\<close>

definition attach_label :: "string \<Rightarrow> 'v \<Rightarrow> bool \<Rightarrow> bool \<Rightarrow> 'v qstore \<Rightarrow> (quality_error + label_status) \<times> 'v qstore" where
  "attach_label pid label check_ok write_ok q =
     (if \<not> check_ok then (Inl StoreDown, q)
      else if pid \<notin> pr_id ` set (qs_predictions q) then (Inr Unknown, q)
      else if \<not> write_ok then (Inl StoreDown, q)
      else if map_of (qs_labels q) pid \<noteq> None then (Inr DuplicateLabel, q)
      else (Inr Attached, q\<lparr> qs_labels := qs_labels q @ [(pid, label)] \<rparr>))"

section \<open>Captured inputs\<close>

definition SHADOW_MODALITIES :: "string list" where
  "SHADOW_MODALITIES = [''text-generation'', ''image-classification'', ''asr'']"

definition normalize_modality :: "string \<Rightarrow> string" where
  "normalize_modality m = (if m = ''llm'' then ''text-generation'' else if m = ''vision'' then ''image-classification'' else m)"

definition should_capture :: "rat \<Rightarrow> rat \<Rightarrow> bool" where
  "should_capture sample roll = (if 1 \<le> sample then True else if sample \<le> 0 then False else roll < sample)"

text \<open>The storage key with its zero-padded milliseconds, and the parts read back from it.\<close>

definition zero_pad :: "nat \<Rightarrow> string \<Rightarrow> string" where
  "zero_pad n s = replicate (n - length s) (CHR ''0'') @ s"

definition input_key :: "string \<Rightarrow> string \<Rightarrow> rat \<Rightarrow> string" where
  "input_key modality pid ts = ''inputs/'' @ normalize_modality modality @ ''/'' @ zero_pad 15 (str_nat (nat \<lfloor>ts * 1000\<rfloor>)) @ ''-'' @ pid @ ''.json''"

text \<open>\<open>str.partition\<close> on a character.\<close>

definition partition_at :: "char \<Rightarrow> string \<Rightarrow> string \<times> string" where
  "partition_at c s = (takeWhile (\<lambda>x. x \<noteq> c) s, drop 1 (dropWhile (\<lambda>x. x \<noteq> c) s))"

definition parse_input_key :: "string \<Rightarrow> string \<times> rat \<times> string" where
  "parse_input_key key = (let rest = drop (length ''inputs/'') key; (modality, fname) = partition_at (CHR ''/'') rest;
       (stamp, pid) = partition_at (CHR ''-'') (take (length fname - length ''.json'') fname)
     in (modality, of_nat (digits stamp) / 1000, pid))"

text \<open>\<open>inputs_to_prune\<close>: the expired keys and those beyond the newest \<open>cap\<close>, sorted.\<close>

definition is_expired :: "rat \<Rightarrow> rat \<Rightarrow> rat \<Rightarrow> bool" where
  "is_expired ttl now ts = (0 < ttl \<and> ttl < now - ts)"

definition fresh_keys :: "(string \<times> rat) list \<Rightarrow> rat \<Rightarrow> rat \<Rightarrow> (string \<times> rat) list" where
  "fresh_keys records now ttl = (let expired = map fst (filter (\<lambda>(k, ts). is_expired ttl now ts) records)
     in sort_key (\<lambda>(k, ts). - ts) (filter (\<lambda>(k, ts). k \<notin> set expired) records))"

definition inputs_to_prune :: "(string \<times> rat) list \<Rightarrow> rat \<Rightarrow> int \<Rightarrow> rat \<Rightarrow> string list" where
  "inputs_to_prune records now cap ttl =
     (let expired = map fst (filter (\<lambda>(k, ts). is_expired ttl now ts) records);
          over = (if 0 < cap then map fst (drop (nat cap) (fresh_keys records now ttl)) else [])
      in sort (remdups (expired @ over)))"

text \<open>\<open>capture_input\<close>: the insert of the index row and the prune over the modality's rows, each of which may fail.\<close>

definition insert_capture :: "capture_row \<Rightarrow> 'v qstore \<Rightarrow> 'v qstore" where
  "insert_capture r q = (if cr_id r \<in> cr_id ` set (qs_captures q) then q else q\<lparr> qs_captures := qs_captures q @ [r] \<rparr>)"

definition capture_records :: "string \<Rightarrow> 'v qstore \<Rightarrow> (string \<times> rat) list" where
  "capture_records modality q = map (\<lambda>r. (cr_input r, cr_captured r)) (filter (\<lambda>r. cr_modality r = modality) (qs_captures q))"

definition prune_inputs :: "capture_config \<Rightarrow> string \<Rightarrow> rat \<Rightarrow> 'v qstore \<Rightarrow> 'v qstore \<times> string list" where
  "prune_inputs cc modality now q =
     (let dead = inputs_to_prune (capture_records modality q) now (cc_cap cc) (cc_ttl cc)
      in (q\<lparr> qs_captures := filter (\<lambda>r. cr_modality r \<noteq> modality \<or> cr_input r \<notin> set dead) (qs_captures q) \<rparr>, dead))"

definition capture_input :: "capture_config \<Rightarrow> string \<Rightarrow> string \<Rightarrow> 'i option \<Rightarrow> rat \<Rightarrow> rat \<Rightarrow> rat \<Rightarrow> bool \<Rightarrow> bool \<Rightarrow> bool
    \<Rightarrow> 'v qstore \<Rightarrow> 'v qstore \<times> (string \<times> 'i input_body) option \<times> string list" where
  "capture_input cc pid modality inp roll ts now slot put_ok store_ok q =
     (case inp of
        None \<Rightarrow> (q, None, [])
      | Some i \<Rightarrow>
          if \<not> cc_logging cc \<or> \<not> cc_capture_io cc \<or> normalize_modality modality \<notin> set SHADOW_MODALITIES
             \<or> \<not> should_capture (cc_sample cc) roll \<or> \<not> slot then (q, None, [])
          else (let m = normalize_modality modality; key = input_key modality pid ts;
              body = (if put_ok then Some (key, \<lparr> ib_id = pid, ib_input = i, ib_ts = ts \<rparr>) else None)
            in if \<not> store_ok then (q, body, [])
               else (case prune_inputs cc m now (insert_capture \<lparr> cr_id = pid, cr_modality = m, cr_input = key, cr_captured = ts \<rparr> q) of
                   (q', dead) \<Rightarrow> (q', body, dead))))"

section \<open>Windows\<close>

text \<open>\<open>ORDER BY t DESC LIMIT n\<close>.\<close>

definition newest_rows :: "('a \<Rightarrow> rat) \<Rightarrow> int \<Rightarrow> 'a list \<Rightarrow> 'a list" where
  "newest_rows t n rows = take (nat n) (sort_key (\<lambda>r. - t r) rows)"

definition window_rows :: "'v qstore \<Rightarrow> string \<Rightarrow> string \<Rightarrow> string \<Rightarrow> int \<Rightarrow> (prediction_row \<times> 'v) list" where
  "window_rows q modality model version n = newest_rows (\<lambda>(r, l). pr_served r) n
     (concat (map (\<lambda>r. if pr_modality r = modality \<and> pr_model r = model \<and> pr_version r = version
        then (case map_of (qs_labels q) (pr_id r) of None \<Rightarrow> [] | Some l \<Rightarrow> [(r, l)]) else []) (qs_predictions q)))"

record 'v pair =
  pa_prediction :: 'v
  pa_label :: 'v
  pa_ts :: rat

definition row_pair :: "(string \<Rightarrow> 'v prediction_body object_read) \<Rightarrow> prediction_row \<Rightarrow> 'v \<Rightarrow> 'v pair list" where
  "row_pair get r l = (case pr_payload r of
      None \<Rightarrow> []
    | Some ref \<Rightarrow> if ref = [] then [] else (case get ref of
        Body b \<Rightarrow> (case pb_prediction b of None \<Rightarrow> [] | Some p \<Rightarrow> [\<lparr> pa_prediction = p, pa_label = l, pa_ts = pr_served r \<rparr>])
      | _ \<Rightarrow> []))"

definition load_pairs :: "'v qstore \<Rightarrow> (string \<Rightarrow> 'v prediction_body object_read) \<Rightarrow> string \<Rightarrow> string \<Rightarrow> string \<Rightarrow> int
    \<Rightarrow> quality_error + 'v pair list" where
  "load_pairs q get version modality model n = (if n < 0 then Inl StoreDown
     else Inr (rev (concat (map (\<lambda>(r, l). row_pair get r l) (window_rows q modality model version n)))))"

definition modality_metric :: "string \<Rightarrow> quality_error + metric" where
  "modality_metric modality =
     (let key = (if map_of METRICS modality \<noteq> None then modality else normalize_modality modality)
      in case map_of METRICS key of None \<Rightarrow> Inl NoQualityMetric | Some m \<Rightarrow> Inr m)"

definition last_n :: "int \<Rightarrow> 'a list \<Rightarrow> 'a list" where
  "last_n n xs = drop (length xs - nat n) xs"

type_synonym 'v score_fn = "scorer \<Rightarrow> 'v list \<Rightarrow> 'v list \<Rightarrow> metric_error + number"

definition score_window :: "'v score_fn \<Rightarrow> 'v pair list \<Rightarrow> string \<Rightarrow> int \<Rightarrow> int \<Rightarrow> quality_error + (metric \<times> number option \<times> nat)" where
  "score_window score pairs modality window_n min_pairs =
     (if window_n \<le> 0 then Inl (BadWindow window_n)
      else case modality_metric modality of
          Inl e \<Rightarrow> Inl e
        | Inr m \<Rightarrow> (let w = last_n window_n pairs
            in if int (length w) < min_pairs then Inr (m, None, length w)
               else case score (mt_score m) (map pa_prediction w) (map pa_label w) of
                   Inl e \<Rightarrow> Inl (WindowError e)
                 | Inr x \<Rightarrow> Inr (m, Some (round6 x), length w)))"

definition is_breach :: "number option \<Rightarrow> number option \<Rightarrow> string \<Rightarrow> rat \<Rightarrow> bool" where
  "is_breach value baseline direction drop_pct = (case (value, baseline) of
      (Some v, Some b) \<Rightarrow> (let margin = num_scale drop_pct (num_abs b)
        in if direction = LOWER then num_less (num_add b margin) v else num_less v (num_sub b margin))
    | _ \<Rightarrow> False)"

record quality_report =
  qr_metric :: string
  qr_value :: "number option"
  qr_direction :: string
  qr_n_labeled :: nat
  qr_n_window :: nat
  qr_baseline :: "number option"
  qr_insufficient :: bool
  qr_breach :: bool

definition evaluate_quality :: "'v score_fn \<Rightarrow> 'v pair list \<Rightarrow> string \<Rightarrow> number option \<Rightarrow> int \<Rightarrow> int \<Rightarrow> rat \<Rightarrow> quality_error + quality_report" where
  "evaluate_quality score pairs modality baseline window_n min_pairs drop_pct = (case score_window score pairs modality window_n min_pairs of
      Inl e \<Rightarrow> Inl e
    | Inr (m, value, used) \<Rightarrow> Inr \<lparr> qr_metric = mt_name m, qr_value = value, qr_direction = mt_direction m,
        qr_n_labeled = length pairs, qr_n_window = used, qr_baseline = baseline, qr_insufficient = (value = None),
        qr_breach = (value \<noteq> None \<and> is_breach value baseline (mt_direction m) drop_pct) \<rparr>)"

definition baseline_for :: "eval option \<Rightarrow> string \<Rightarrow> number option" where
  "baseline_for ev metric = (case ev of None \<Rightarrow> None | Some e \<Rightarrow> if ev_metric e \<noteq> Some metric then None else ev_value e)"

definition resolve_baseline :: "(string \<Rightarrow> number option) \<Rightarrow> client \<Rightarrow> string \<Rightarrow> string \<Rightarrow> string \<Rightarrow> number option" where
  "resolve_baseline parse c model version modality = (if model = [] then None
     else (case modality_metric modality of Inl e \<Rightarrow> None | Inr m \<Rightarrow> baseline_for (read_eval parse c model (Some version)) (mt_name m)))"

text \<open>\<open>compute_quality\<close> up to its export: the gauges and the stored report are the report.\<close>

definition compute_quality :: "'v score_fn \<Rightarrow> (string \<Rightarrow> number option) \<Rightarrow> client \<Rightarrow> 'v qstore \<Rightarrow> (string \<Rightarrow> 'v prediction_body object_read)
    \<Rightarrow> string \<Rightarrow> string \<Rightarrow> string \<Rightarrow> number option \<Rightarrow> int \<Rightarrow> int \<Rightarrow> rat \<Rightarrow> quality_error + quality_report" where
  "compute_quality score parse c q get model version modality baseline window_n min_pairs drop_pct =
     (case load_pairs q get version modality model window_n of
        Inl e \<Rightarrow> Inl e
      | Inr pairs \<Rightarrow> evaluate_quality score pairs modality (or_else baseline (resolve_baseline parse c model version modality))
          window_n min_pairs drop_pct)"

section \<open>Retention\<close>

lemma mem_inputs_to_prune:
  "k \<in> set (inputs_to_prune records now cap ttl) \<longleftrightarrow> (\<exists>ts. (k, ts) \<in> set records \<and> is_expired ttl now ts) \<or>
     (0 < cap \<and> k \<in> fst ` set (drop (nat cap) (fresh_keys records now ttl)))"
  by (auto simp: inputs_to_prune_def Let_def image_iff)

lemma key_unique: "distinct (map fst xs) \<Longrightarrow> (k, a) \<in> set xs \<Longrightarrow> (k, b) \<in> set xs \<Longrightarrow> a = b"
  by (metis map_of_is_SomeI option.inject)

lemma fresh_set:
  assumes "distinct (map fst records)"
  shows "set (fresh_keys records now ttl) = {(k, ts) \<in> set records. \<not> is_expired ttl now ts}" "distinct (map fst (fresh_keys records now ttl))"
    "sorted (map (\<lambda>(k, ts). - ts) (fresh_keys records now ttl))"
proof -
  show "set (fresh_keys records now ttl) = {(k, ts) \<in> set records. \<not> is_expired ttl now ts}"
  proof -
    have "k \<notin> set (map fst (filter (\<lambda>(k, ts). is_expired ttl now ts) records)) \<longleftrightarrow> \<not> is_expired ttl now ts" if "(k, ts) \<in> set records" for k ts
    proof -
      have "k \<in> set (map fst (filter (\<lambda>(k, ts). is_expired ttl now ts) records)) \<longleftrightarrow> (\<exists>t. (k, t) \<in> set records \<and> is_expired ttl now t)"
        by (simp add: image_iff)
      also have "\<dots> \<longleftrightarrow> is_expired ttl now ts" using key_unique[OF assms that] that by blast
      finally show ?thesis by blast
    qed
    then have "z \<in> set (fresh_keys records now ttl) \<longleftrightarrow> z \<in> {(k, ts) \<in> set records. \<not> is_expired ttl now ts}" for z
      unfolding fresh_keys_def Let_def by (cases z) (simp only: set_sort set_filter mem_Collect_eq prod.case, blast)
    then show ?thesis by blast
  qed
  have "distinct (map fst (filter P records))" for P using assms by (simp add: distinct_map_filter)
  moreover have "mset (map fst (sort_key f xs)) = mset (map fst xs)" for f :: "string \<times> rat \<Rightarrow> rat" and xs by simp
  ultimately show "distinct (map fst (fresh_keys records now ttl))"
    unfolding fresh_keys_def Let_def by (metis mset_eq_imp_distinct_iff)
  show "sorted (map (\<lambda>(k, ts). - ts) (fresh_keys records now ttl))" by (simp add: fresh_keys_def Let_def)
qed

text \<open>After a prune the captures that stay are unexpired and at most as many as the cap, and none that was dropped to
  meet the cap is newer than one that stays.\<close>

theorem prune_keeps_the_newest:
  assumes "distinct (map fst records)" "0 < cap" "left = filter (\<lambda>(k, ts). k \<notin> set (inputs_to_prune records now cap ttl)) records"
  shows "int (length left) \<le> cap \<and> (\<forall>(k, ts) \<in> set left. \<not> is_expired ttl now ts) \<and>
    (\<forall>(k, ts) \<in> set records. \<forall>(k', ts') \<in> set left. k \<in> set (inputs_to_prune records now cap ttl) \<longrightarrow> ts \<le> ts')"
proof -
  let ?fresh = "fresh_keys records now ttl"
  note fresh = fresh_set[OF assms(1), of now ttl]
  have parts: "set ?fresh = set (take (nat cap) ?fresh) \<union> set (drop (nat cap) ?fresh)" by (metis append_take_drop_id set_append)
  have apart: "fst ` set (take (nat cap) ?fresh) \<inter> fst ` set (drop (nat cap) ?fresh) = {}"
    using fresh(2) by (metis append_take_drop_id distinct_append map_append set_map)
  have left: "set left = set (take (nat cap) ?fresh)"
  proof (intro equalityI subsetI; clarify)
    fix k ts
    assume "(k, ts) \<in> set left"
    then have "(k, ts) \<in> set ?fresh" "k \<notin> fst ` set (drop (nat cap) ?fresh)"
    proof -
      have kept: "(k, ts) \<in> set records" "k \<notin> set (inputs_to_prune records now cap ttl)"
        using \<open>(k, ts) \<in> set left\<close> assms(3) by auto
      show "k \<notin> fst ` set (drop (nat cap) ?fresh)" using kept assms(2) unfolding mem_inputs_to_prune by blast
      show "(k, ts) \<in> set ?fresh" using kept unfolding fresh(1) mem_inputs_to_prune by blast
    qed
    then show "(k, ts) \<in> set (take (nat cap) ?fresh)" using parts by force
  next
    fix k ts
    assume mem: "(k, ts) \<in> set (take (nat cap) ?fresh)"
    then have rec: "(k, ts) \<in> set records" "\<not> is_expired ttl now ts" using parts fresh(1) by auto
    have "k \<notin> fst ` set (drop (nat cap) ?fresh)" using apart mem by force
    moreover have "\<not> (\<exists>ts. (k, ts) \<in> set records \<and> is_expired ttl now ts)" using rec key_unique[OF assms(1)] by metis
    ultimately have "k \<notin> set (inputs_to_prune records now cap ttl)" unfolding mem_inputs_to_prune by blast
    then show "(k, ts) \<in> set left" using rec(1) assms(3) by simp
  qed
  have "distinct left" using assms(1,3) by (simp add: distinct_map)
  then have "length left = card (set left)" by (simp add: distinct_card)
  also have "\<dots> \<le> length (take (nat cap) ?fresh)" unfolding left by (rule card_length)
  finally have "length left \<le> nat cap" by simp
  then have "int (length left) \<le> cap" using assms(2) by linarith
  moreover have "ts \<le> ts'" if "(k, ts) \<in> set records" "(k', ts') \<in> set left" "k \<in> set (inputs_to_prune records now cap ttl)" for k ts k' ts'
  proof (cases "is_expired ttl now ts")
    case True
    have "\<not> is_expired ttl now ts'" using that(2) left parts fresh(1) by auto
    then show ?thesis using True by (auto simp: is_expired_def)
  next
    case False
    note dead = that(3)
    have "\<not> (\<exists>ts. (k, ts) \<in> set records \<and> is_expired ttl now ts)" using False that(1) key_unique[OF assms(1)] by metis
    then obtain ts2 where ts2: "(k, ts2) \<in> set (drop (nat cap) ?fresh)" using dead unfolding mem_inputs_to_prune by auto
    then have "(k, ts2) \<in> set records" using parts fresh(1) by auto
    then have "(k, ts) \<in> set (drop (nat cap) ?fresh)" using ts2 that(1) key_unique[OF assms(1)] by metis
    moreover have "sorted (map (\<lambda>(k, ts). - ts) (take (nat cap) ?fresh) @ map (\<lambda>(k, ts). - ts) (drop (nat cap) ?fresh))"
      using fresh(3) by (metis append_take_drop_id map_append)
    ultimately show ?thesis using that(2) left by (force simp: sorted_append)
  qed
  moreover have "\<forall>(k, ts) \<in> set left. \<not> is_expired ttl now ts"
  proof -
    have "set left \<subseteq> {(k, ts) \<in> set records. \<not> is_expired ttl now ts}" using left parts unfolding fresh(1) by blast
    then show ?thesis by auto
  qed
  ultimately show ?thesis by auto
qed

section \<open>Keys\<close>

lemma partition_at_append: "c \<notin> set s \<Longrightarrow> partition_at c (s @ c # t) = (s, t)"
proof -
  assume c: "c \<notin> set s"
  then have "\<And>x. x \<in> set s \<Longrightarrow> x \<noteq> c" by auto
  then show ?thesis by (simp add: partition_at_def takeWhile_append2 dropWhile_append2)
qed

lemma zero_pad_digits: "digits (zero_pad n (str_nat m)) = m" "c \<in> set (zero_pad n (str_nat m)) \<Longrightarrow> is_digit c"
  using str_nat_digits[of c m] by (auto simp: zero_pad_def is_digit_def)

text \<open>A captured input's key gives back its modality, its time to the millisecond and its prediction.\<close>

theorem input_key_reads_back:
  assumes "CHR ''/'' \<notin> set (normalize_modality modality)"
  shows "parse_input_key (input_key modality pid ts) = (normalize_modality modality, of_nat (nat \<lfloor>ts * 1000\<rfloor>) / 1000, pid)"
proof -
  let ?stamp = "zero_pad 15 (str_nat (nat \<lfloor>ts * 1000\<rfloor>))"
  have "drop (length ''inputs/'') (input_key modality pid ts) = normalize_modality modality @ CHR ''/'' # (?stamp @ CHR ''-'' # (pid @ ''.json''))"
    by (simp add: input_key_def)
  moreover have "CHR ''-'' \<notin> set ?stamp" using zero_pad_digits(2)[of "CHR ''-''"] by (auto simp: is_digit_def)
  then have "partition_at (CHR ''-'') (?stamp @ CHR ''-'' # pid) = (?stamp, pid)" by (rule partition_at_append)
  ultimately show ?thesis
    using partition_at_append[OF assms] zero_pad_digits(1) by (simp add: parse_input_key_def Let_def)
qed

section \<open>What a quality report says\<close>

lemma set_newest: "set (newest_rows t n rows) \<subseteq> set rows" "length (newest_rows t n rows) \<le> nat n"
  by (auto simp: newest_rows_def dest: in_set_takeD)

lemma last_n_length: "length (last_n n xs) \<le> nat n" "set (last_n n xs) \<subseteq> set xs"
  by (auto simp: last_n_def dest: in_set_dropD)

text \<open>Where a pair comes from: one served prediction of the version with a captured output, and its label.\<close>

definition pair_of :: "'v qstore \<Rightarrow> (string \<Rightarrow> 'v prediction_body object_read) \<Rightarrow> string \<Rightarrow> string \<Rightarrow> string \<Rightarrow> 'v pair \<Rightarrow> bool" where
  "pair_of q get modality model version p \<longleftrightarrow> (\<exists>r \<in> set (qs_predictions q). \<exists>ref b.
     pr_modality r = modality \<and> pr_model r = model \<and> pr_version r = version \<and> pr_served r = pa_ts p \<and>
     map_of (qs_labels q) (pr_id r) = Some (pa_label p) \<and>
     pr_payload r = Some ref \<and> get ref = Body b \<and> pb_prediction b = Some (pa_prediction p))"

lemma window_rows_mem:
  "(r, l) \<in> set (window_rows q modality model version n) \<Longrightarrow>
    r \<in> set (qs_predictions q) \<and> pr_modality r = modality \<and> pr_model r = model \<and> pr_version r = version \<and> map_of (qs_labels q) (pr_id r) = Some l"
  using set_newest(1) unfolding window_rows_def by (fastforce split: if_splits option.splits)

lemma load_pairs_mem:
  assumes "load_pairs q get version modality model n = Inr pairs" "p \<in> set pairs"
  shows "pair_of q get modality model version p"
proof -
  obtain r l where rl: "(r, l) \<in> set (window_rows q modality model version n)" and p: "p \<in> set (row_pair get r l)"
    using assms by (auto simp: load_pairs_def split: if_splits)
  obtain ref where ref: "pr_payload r = Some ref" using p by (cases "pr_payload r") (simp_all add: row_pair_def)
  obtain b where b: "get ref = Body b" using p ref by (cases "get ref") (simp_all add: row_pair_def split: if_splits)
  obtain x where x: "pb_prediction b = Some x" using p ref b by (cases "pb_prediction b") (simp_all add: row_pair_def split: if_splits)
  have "p = \<lparr> pa_prediction = x, pa_label = l, pa_ts = pr_served r \<rparr>"
    using p ref b x by (simp add: row_pair_def split: if_splits)
  then show ?thesis using window_rows_mem[OF rl] ref b x by (auto simp: pair_of_def)
qed

lemma score_window_Inr:
  assumes "score_window score pairs modality n k = Inr (m, value, used)"
  shows "used = length (last_n n pairs) \<and> used \<le> nat n \<and> modality_metric modality = Inr m \<and>
    (value \<noteq> None \<longrightarrow> k \<le> int used \<and> (\<exists>x. value = Some (round6 x) \<and>
      score (mt_score m) (map pa_prediction (last_n n pairs)) (map pa_label (last_n n pairs)) = Inr x))"
  using assms last_n_length(1)[of n pairs] by (auto simp: score_window_def Let_def split: if_splits sum.splits)

lemma metric_directions: "modality_metric modality = Inr m \<Longrightarrow> mt_direction m = HIGHER \<or> mt_direction m = LOWER"
  by (auto simp: modality_metric_def METRICS_def Let_def split: option.splits if_splits)

text \<open>The breach test is the gate's regression test.\<close>

lemma breach_is_regression:
  assumes "d = HIGHER \<or> d = LOWER"
  shows "is_breach (Some v) (Some b) d t = regressed d t v b"
  using assms by (auto simp: is_breach_def regressed_def HIGHER_def LOWER_def Let_def)


section \<open>Labels are written once\<close>

datatype ('v, 'i) qevent =
    Served string string string string rat "'v option" bool bool bool
  | Labelled string 'v bool bool
  | Captured string string "'i option" rat rat rat bool bool bool

fun qstep :: "capture_config \<Rightarrow> ('v, 'i) qevent \<Rightarrow> 'v qstore \<Rightarrow> 'v qstore option" where
  "qstep cc (Served pid model version modality ts pred slot put_ok row_ok) q =
     Some (fst (log_prediction cc pid model version modality ts pred slot put_ok row_ok q))"
| "qstep cc (Labelled pid label check_ok write_ok) q = Some (snd (attach_label pid label check_ok write_ok q))"
| "qstep cc (Captured pid modality inp roll ts now slot put_ok store_ok) q =
     Some (fst (capture_input cc pid modality inp roll ts now slot put_ok store_ok q))"

definition qstore_ok :: "'v qstore \<Rightarrow> bool" where
  "qstore_ok q \<longleftrightarrow> distinct (map pr_id (qs_predictions q)) \<and> distinct (map fst (qs_labels q)) \<and>
     fst ` set (qs_labels q) \<subseteq> pr_id ` set (qs_predictions q) \<and> distinct (map cr_id (qs_captures q))"

text \<open>What any step leaves of the labels and the predictions.\<close>

definition grows :: "'v qstore \<Rightarrow> 'v qstore \<Rightarrow> bool" where
  "grows q q' \<longleftrightarrow> (\<exists>ps ls. qs_predictions q' = qs_predictions q @ ps \<and> qs_labels q' = qs_labels q @ ls)"

lemma grows_refl: "grows q q"
  by (simp add: grows_def)

lemma grows_trans: "grows a b \<Longrightarrow> grows b c \<Longrightarrow> grows a c"
  by (auto simp: grows_def)

lemma grows_label: "grows q q' \<Longrightarrow> map_of (qs_labels q) pid = Some l \<Longrightarrow> map_of (qs_labels q') pid = Some l"
  by (auto simp: grows_def map_add_def)

lemma capture_input_keeps:
  "qs_predictions (fst (capture_input cc pid modality inp roll ts now slot put_ok store_ok q)) = qs_predictions q \<and>
   qs_labels (fst (capture_input cc pid modality inp roll ts now slot put_ok store_ok q)) = qs_labels q \<and>
   (distinct (map cr_id (qs_captures q)) \<longrightarrow>
     distinct (map cr_id (qs_captures (fst (capture_input cc pid modality inp roll ts now slot put_ok store_ok q)))))"
  by (auto simp: capture_input_def prune_inputs_def insert_capture_def Let_def distinct_map_filter split: option.splits)

lemma qstep_grows: "qstep cc e q = Some q' \<Longrightarrow> grows q q'"
  by (cases e) (auto simp: log_prediction_def insert_prediction_def attach_label_def grows_def Let_def capture_input_keeps)

lemma log_prediction_cases:
  "fst (log_prediction cc pid model version modality ts pred slot put_ok row_ok q) = q \<or>
   (\<exists>r. fst (log_prediction cc pid model version modality ts pred slot put_ok row_ok q) = insert_prediction r q)"
  by (auto simp: log_prediction_def Let_def)

lemma insert_prediction_ok: "qstore_ok q \<Longrightarrow> qstore_ok (insert_prediction r q)"
  unfolding qstore_ok_def insert_prediction_def by (simp split: if_splits) blast

lemma attach_label_ok:
  assumes "qstore_ok q"
  shows "qstore_ok (snd (attach_label pid label check_ok write_ok q))"
proof -
  have "map_of (qs_labels q) pid = None \<longleftrightarrow> pid \<notin> fst ` set (qs_labels q)" by (rule map_of_eq_None_iff)
  then show ?thesis using assms unfolding qstore_ok_def attach_label_def by (simp del: map_of_eq_None_iff not_None_eq)
qed

lemma qstep_ok:
  assumes "qstore_ok q" "qstep cc e q = Some q'"
  shows "qstore_ok q'"
proof (cases e)
  case (Served pid model version modality ts pred slot put_ok row_ok)
  then show ?thesis
    using assms insert_prediction_ok log_prediction_cases[of cc pid model version modality ts pred slot put_ok row_ok q] by auto
next
  case (Labelled pid label check_ok write_ok)
  then show ?thesis using assms attach_label_ok by auto
next
  case (Captured pid modality inp roll ts now slot put_ok store_ok)
  then show ?thesis
    using assms capture_input_keeps[of cc pid modality inp roll ts now slot put_ok store_ok q] by (auto simp: qstore_ok_def)
qed

interpretation quality: machine "qstep cc" "\<lambda>e q. True" qstore_ok for cc :: capture_config
  by unfold_locales (rule qstep_ok)

lemma run_grows: "run_events (qstep cc) es q = Some q' \<Longrightarrow> grows q q'"
  by (induction es arbitrary: q) (auto split: option.splits intro: grows_refl grows_trans[OF qstep_grows])

text \<open>Under any sequence of served, labelled and captured predictions, whatever fails, the tables keep their keys and
  references, a label once stored is never changed, and a second label for its prediction is answered as a duplicate.\<close>

theorem labels_are_written_once:
  assumes "qstore_ok q" "run_events (qstep cc) es q = Some q'" "map_of (qs_labels q) pid = Some l"
  shows "qstore_ok q' \<and> map_of (qs_labels q') pid = Some l \<and> attach_label pid l' True True q' = (Inr DuplicateLabel, q')"
proof -
  have ok: "qstore_ok q'" using quality.run_inv[OF assms(2,1)] by simp
  have kept: "map_of (qs_labels q') pid = Some l" using grows_label[OF run_grows[OF assms(2)] assms(3)] .
  then have "pid \<in> pr_id ` set (qs_predictions q')" using ok by (auto simp: qstore_ok_def dest: map_of_SomeD)
  then show ?thesis using ok kept by (simp add: attach_label_def)
qed

section \<open>Runs\<close>

lemma prune_keeps_the_newest_witness:
  "int (length (filter (\<lambda>(k, ts). k \<notin> set (inputs_to_prune [(''a'', 1), (''b'', 9), (''c'', 8)] 10 1 5))
     [(''a'', 1), (''b'', 9), (''c'', 8 :: rat)])) \<le> 1"
  by (rule conjunct1[OF prune_keeps_the_newest[OF _ _ refl]]) simp_all

lemma input_key_reads_back_witness: "snd (snd (parse_input_key (input_key ''llm'' ''p1-x'' (3 / 2)))) = ''p1-x''"
proof -
  have "CHR ''/'' \<notin> set (normalize_modality ''llm'')" by code_simp
  from input_key_reads_back[OF this] show ?thesis by simp
qed

definition demo_capture :: capture_config where
  "demo_capture = \<lparr> cc_logging = True, cc_capture_io = True, cc_sample = 1, cc_cap = 500, cc_ttl = 604800 \<rparr>"

definition one_label :: "string qstore" where
  "one_label = \<lparr> qs_predictions = [\<lparr> pr_id = ''p'', pr_model = ''m'', pr_version = ''1'', pr_modality = ''asr'', pr_served = 1,
      pr_streamed = False, pr_payload = Some ''o'' \<rparr>], qs_labels = [(''p'', ''hello'')], qs_captures = [] \<rparr>"

lemma labels_are_written_once_witness:
  "map_of (qs_labels (the (run_events (qstep demo_capture) [Labelled ''p'' ''bye'' True True, Captured ''p'' ''asr'' (Some ()) 0 2 2 True True True]
     one_label))) ''p'' = Some ''hello''"
proof -
  let ?es = "[Labelled ''p'' ''bye'' True True, Captured ''p'' ''asr'' (Some ()) 0 2 2 True True True]"
  have run: "run_events (qstep demo_capture) ?es one_label = Some (the (run_events (qstep demo_capture) ?es one_label))" by simp
  have ok: "qstore_ok one_label" by (simp add: qstore_ok_def one_label_def)
  have had: "map_of (qs_labels one_label) ''p'' = Some ''hello''" by (simp add: one_label_def)
  show ?thesis using labels_are_written_once[OF ok run had] by blast
qed

definition wrong_outputs :: "string \<Rightarrow> string prediction_body object_read" where
  "wrong_outputs ref = Body \<lparr> pb_model = ''m'', pb_version = ''1'', pb_modality = ''asr'', pb_prediction = Some ''bye'', pb_ts = 1 \<rparr>"

definition count_wrong :: "string score_fn" where
  "count_wrong m preds labels = Inr (Fin (of_nat (length (filter (\<lambda>(p, l). p \<noteq> l) (zip preds labels)))))"

lemma demo_breach:
  "compute_quality count_wrong parse_demo wer_pair one_label wrong_outputs ''m'' ''1'' ''asr'' None 1 1 (1 / 10) =
    Inr \<lparr> qr_metric = ''wer'', qr_value = Some (Fin 1), qr_direction = ''lower'', qr_n_labeled = 1, qr_n_window = 1,
      qr_baseline = Some (Fin (1 / 5)), qr_insufficient = False, qr_breach = True \<rparr>"
  by code_simp


end
