(* ===== verification/Shadow.thy ===== *)
theory Shadow
  imports QualityWindow Registry Contracts
begin

text \<open>
  \<open>gateway/app/shadow.py\<close>: the replay of a challenger over the traffic its champion served, with the window, the guards and
  the advisory verdict, and \<open>_default_shadow\<close> of \<open>gateway/app/scheduler.py\<close>, which picks the stored verdict a promotion looks
  at.  The replay of the challenger is an argument, as the scorer of a metric is.
\<close>

section \<open>The replay window\<close>

record ('v, 'i) replay_pair =
  rp_id :: string
  rp_input :: 'i
  rp_label :: 'v
  rp_champion :: 'v
  rp_ts :: rat

text \<open>The pair of one captured input, when its champion's prediction can be scored.\<close>

definition replay_pair_of :: "(string, 'v prediction_body) dict \<Rightarrow> (string, 'v) dict \<Rightarrow> string \<Rightarrow> string \<Rightarrow> string \<Rightarrow> 'i input_body
    \<Rightarrow> ('v, 'i) replay_pair list" where
  "replay_pair_of predictions labels name version modality r = (case map_of predictions (ib_id r) of
      None \<Rightarrow> []
    | Some b \<Rightarrow> (case pb_prediction b of
        None \<Rightarrow> []
      | Some p \<Rightarrow>
          if pb_version b \<noteq> version then []
          else if name \<noteq> [] \<and> pb_model b \<noteq> name then []
          else if normalize_modality (pb_modality b) \<noteq> normalize_modality modality then []
          else (case map_of labels (ib_id r) of
              None \<Rightarrow> []
            | Some l \<Rightarrow> [\<lparr> rp_id = ib_id r, rp_input = ib_input r, rp_label = l, rp_champion = p, rp_ts = ib_ts r \<rparr>])))"

definition join_window :: "'i input_body list \<Rightarrow> (string, 'v prediction_body) dict \<Rightarrow> (string, 'v) dict \<Rightarrow> string \<Rightarrow> string \<Rightarrow> string \<Rightarrow> int
    \<Rightarrow> ('v, 'i) replay_pair list" where
  "join_window inputs predictions labels name version modality n =
     (let pairs = sort_key rp_ts (concat (map (replay_pair_of predictions labels name version modality) inputs))
      in if 0 < n then last_n n pairs else pairs)"

text \<open>The rows of the newest captured, served and labelled predictions, none older than the cutoff.\<close>

definition replay_rows :: "'v qstore \<Rightarrow> string \<Rightarrow> string \<Rightarrow> string \<Rightarrow> int \<Rightarrow> rat option \<Rightarrow> (capture_row \<times> prediction_row \<times> 'v) list" where
  "replay_rows q modality name version n cutoff = newest_rows (\<lambda>(c, r, l). cr_captured c) n
     (concat (map (\<lambda>c. concat (map (\<lambda>r.
         if cr_modality c = modality \<and> pr_id r = cr_id c \<and> pr_model r = name \<and> pr_version r = version
            \<and> (case cutoff of None \<Rightarrow> True | Some t \<Rightarrow> t \<le> cr_captured c)
         then (case map_of (qs_labels q) (pr_id r) of None \<Rightarrow> [] | Some l \<Rightarrow> [(c, r, l)]) else []) (qs_predictions q))) (qs_captures q)))"

datatype shadow_error = StoreUnreachable | QueryFailed | BodyFailed string | NotReplayable string | WrongCount nat nat
  | ShadowScore quality_error

text \<open>The bodies of the rows, row after row: a missing body is skipped, any other failure of a read ends the replay.\<close>

fun gather :: "(string \<Rightarrow> 'i input_body object_read) \<Rightarrow> (string \<Rightarrow> 'v prediction_body object_read) \<Rightarrow> (capture_row \<times> prediction_row \<times> 'v) list
    \<Rightarrow> shadow_error + 'i input_body list \<times> (string, 'v prediction_body) dict \<times> (string, 'v) dict" where
  "gather inp out [] = Inr ([], [], [])"
| "gather inp out ((c, r, l) # rows) = (case inp (cr_input c) of
      ReadFails \<Rightarrow> Inl (BodyFailed (pr_id r))
    | Missing \<Rightarrow> gather inp out rows
    | Body b \<Rightarrow>
        (case (case filled (pr_payload r) of None \<Rightarrow> Missing | Some ref \<Rightarrow> out ref) of
           ReadFails \<Rightarrow> Inl (BodyFailed (pr_id r))
         | Missing \<Rightarrow> map_sum id (\<lambda>(bs, ps, ls). (b # bs, ps, (pr_id r, l) # ls)) (gather inp out rows)
         | Body p \<Rightarrow> map_sum id (\<lambda>(bs, ps, ls). (b # bs, (pr_id r, p) # ps, (pr_id r, l) # ls)) (gather inp out rows)))"

definition resolve_window :: "'v qstore option \<Rightarrow> (string \<Rightarrow> 'i input_body object_read) \<Rightarrow> (string \<Rightarrow> 'v prediction_body object_read)
    \<Rightarrow> string \<Rightarrow> string \<Rightarrow> string \<Rightarrow> int \<Rightarrow> rat \<Rightarrow> rat \<Rightarrow> shadow_error + ('v, 'i) replay_pair list" where
  "resolve_window store inp out name version modality n now ttl = (case store of
      None \<Rightarrow> Inl StoreUnreachable
    | Some q \<Rightarrow>
        if n < 0 then Inl QueryFailed
        else (let m = normalize_modality modality
          in case gather inp out (replay_rows q m name version n (if 0 < ttl then Some (now - ttl) else None)) of
               Inl e \<Rightarrow> Inl e
             | Inr (inputs, predictions, labels) \<Rightarrow> Inr (join_window inputs predictions labels name version m n)))"

section \<open>Guards, verdict and replay\<close>

datatype ('v, 'i) readiness = NoCorpus | NotCaptured | Insufficient nat int | Ready "('v, 'i) replay_pair list"

definition has_captures :: "'v qstore \<Rightarrow> string \<Rightarrow> bool" where
  "has_captures q modality = list_ex (\<lambda>c. cr_modality c = modality) (qs_captures q)"

definition prepare :: "bool \<Rightarrow> 'v qstore option \<Rightarrow> (string \<Rightarrow> 'i input_body object_read) \<Rightarrow> (string \<Rightarrow> 'v prediction_body object_read)
    \<Rightarrow> string \<Rightarrow> string \<Rightarrow> string \<Rightarrow> int \<Rightarrow> int \<Rightarrow> rat \<Rightarrow> rat \<Rightarrow> shadow_error + ('v, 'i) readiness" where
  "prepare capture_io store inp out name version modality n min_pairs now ttl =
     (let m = normalize_modality modality
      in if m \<notin> set SHADOW_MODALITIES then Inl (NotReplayable m)
         else if \<not> capture_io then Inr NoCorpus
         else case store of
             None \<Rightarrow> Inl StoreUnreachable
           | Some q \<Rightarrow>
               if \<not> has_captures q m then Inr NotCaptured
               else (case resolve_window store inp out name version m n now ttl of
                   Inl e \<Rightarrow> Inl e
                 | Inr pairs \<Rightarrow> if int (length pairs) < min_pairs then Inr (Insufficient (length pairs) min_pairs) else Inr (Ready pairs)))"

record shadow_verdict =
  sv_name :: string
  sv_modality :: string
  sv_metric :: string
  sv_direction :: string
  sv_pairs :: nat
  sv_champion :: "string \<times> number"
  sv_challenger :: "string \<times> number"
  sv_winner :: winner

definition score_side :: "'v score_fn \<Rightarrow> 'v list \<Rightarrow> 'v list \<Rightarrow> string \<Rightarrow> shadow_error + (number \<times> metric)" where
  "score_side score preds refs modality = (case modality_metric modality of
      Inl e \<Rightarrow> Inl (ShadowScore e)
    | Inr m \<Rightarrow> (case score (mt_score m) preds refs of Inl e \<Rightarrow> Inl (ShadowScore (WindowError e)) | Inr x \<Rightarrow> Inr (round6 x, m)))"

definition build_verdict :: "'v score_fn \<Rightarrow> string \<Rightarrow> string \<Rightarrow> string \<Rightarrow> string \<Rightarrow> ('v, 'i) replay_pair list \<Rightarrow> 'v list
    \<Rightarrow> shadow_error + shadow_verdict" where
  "build_verdict score name champion challenger modality pairs preds =
     (if length preds \<noteq> length pairs then Inl (WrongCount (length preds) (length pairs))
      else (let refs = map rp_label pairs
        in case score_side score (map rp_champion pairs) refs modality of
             Inl e \<Rightarrow> Inl e
           | Inr (champ, m) \<Rightarrow> (case score_side score preds refs modality of
               Inl e \<Rightarrow> Inl e
             | Inr (chall, _) \<Rightarrow> Inr \<lparr> sv_name = name, sv_modality = normalize_modality modality, sv_metric = mt_name m,
                 sv_direction = mt_direction m, sv_pairs = length pairs, sv_champion = (champion, champ),
                 sv_challenger = (challenger, chall), sv_winner = winner_of (mt_direction m) champ chall \<rparr>)))"

text \<open>\<open>run_replay\<close>: the verdict, or the status that ends it without one; the challenger is only run on a ready window.\<close>

definition run_replay :: "'v score_fn \<Rightarrow> (('v, 'i) replay_pair list \<Rightarrow> 'v list) \<Rightarrow> bool \<Rightarrow> 'v qstore option \<Rightarrow> (string \<Rightarrow> 'i input_body object_read)
    \<Rightarrow> (string \<Rightarrow> 'v prediction_body object_read) \<Rightarrow> string \<Rightarrow> string \<Rightarrow> string \<Rightarrow> string \<Rightarrow> int \<Rightarrow> int \<Rightarrow> rat \<Rightarrow> rat
    \<Rightarrow> shadow_error + (('v, 'i) readiness + shadow_verdict)" where
  "run_replay score scorer capture_io store inp out name champion challenger modality n min_pairs now ttl =
     (case prepare capture_io store inp out name champion modality n min_pairs now ttl of
        Inl e \<Rightarrow> Inl e
      | Inr (Ready pairs) \<Rightarrow> map_sum id Inr (build_verdict score name champion challenger modality pairs (scorer pairs))
      | Inr status \<Rightarrow> Inr (Inl status))"

section \<open>The stored verdict a promotion looks at\<close>

text \<open>A stored object: \<open>None\<close> where it cannot be read; a field that is absent or empty is \<open>None\<close>.\<close>

record stored_verdict =
  st_winner :: "string option"
  st_name :: "string option"
  st_challenger :: "string option"
  st_champion :: "string option"
  st_modality :: "string option"

definition verdict_matches :: "string \<Rightarrow> string \<Rightarrow> string option \<Rightarrow> string option \<Rightarrow> stored_verdict \<Rightarrow> bool" where
  "verdict_matches model version modality incumbent v \<longleftrightarrow>
     st_winner v \<noteq> None \<and> st_name v = Some model \<and> st_challenger v = Some version \<and>
     (incumbent = None \<or> st_champion v = None \<or> st_champion v = incumbent) \<and>
     (case modality of None \<Rightarrow> True | Some m \<Rightarrow> st_modality v = None \<or>
        st_modality v = Some (case map_of MODALITY_TASK m of None \<Rightarrow> m | Some t \<Rightarrow> t))"

type_synonym listing = "(string \<times> rat option) list"

text \<open>The sort key: a timestamp beats none, then the time, then the object's key.\<close>

definition recency :: "string \<times> rat option \<Rightarrow> bool \<times> rat \<times> string" where
  "recency e = (case e of (key, t) \<Rightarrow> (t \<noteq> None, (case t of None \<Rightarrow> 0 | Some x \<Rightarrow> x), key))"

definition matching_entries :: "(string \<Rightarrow> stored_verdict option) \<Rightarrow> string \<Rightarrow> string \<Rightarrow> string option \<Rightarrow> string option \<Rightarrow> listing \<Rightarrow> listing" where
  "matching_entries read model version modality incumbent entries = filter (\<lambda>(key, t). case read key of
       None \<Rightarrow> False | Some v \<Rightarrow> verdict_matches model version modality incumbent v) entries"

text \<open>A failing listing raises, so the caller retries; the incumbent is the registry's serving version.\<close>

definition default_shadow :: "client \<Rightarrow> unit + listing \<Rightarrow> (string \<Rightarrow> stored_verdict option) \<Rightarrow> string \<Rightarrow> string \<Rightarrow> string option
    \<Rightarrow> unit + stored_verdict option" where
  "default_shadow c listed_objects read model version modality = (case listed_objects of
      Inl _ \<Rightarrow> Inl ()
    | Inr entries \<Rightarrow> (let ms = matching_entries read model version modality (get_serving c model) entries
        in Inr (if ms = [] then None else read (fst (last (sort_key recency ms))))))"

section \<open>What a verdict rests on\<close>

text \<open>A pair of the window: one served prediction of the champion with its captured input, its label and its logged output.\<close>

definition served_pair :: "'v qstore \<Rightarrow> (string \<Rightarrow> 'v prediction_body object_read) \<Rightarrow> string \<Rightarrow> string \<Rightarrow> string \<Rightarrow> rat option
    \<Rightarrow> ('v, 'i) replay_pair \<Rightarrow> bool" where
  "served_pair q out name version modality cutoff p \<longleftrightarrow>
     (\<exists>r \<in> set (qs_predictions q). pr_id r = rp_id p \<and> pr_model r = name \<and> pr_version r = version \<and>
        (\<exists>ref b. pr_payload r = Some ref \<and> out ref = Body b \<and> pb_prediction b = Some (rp_champion p) \<and> pb_version b = version \<and>
           normalize_modality (pb_modality b) = modality)) \<and>
     (\<exists>c \<in> set (qs_captures q). cr_id c = rp_id p \<and> cr_modality c = modality \<and> (\<forall>t. cutoff = Some t \<longrightarrow> t \<le> cr_captured c)) \<and>
     map_of (qs_labels q) (rp_id p) = Some (rp_label p)"

lemma replay_rows_mem:
  "(c, r, l) \<in> set (replay_rows q modality name version n cutoff) \<Longrightarrow>
    c \<in> set (qs_captures q) \<and> r \<in> set (qs_predictions q) \<and> cr_modality c = modality \<and> pr_id r = cr_id c \<and> pr_model r = name \<and>
    pr_version r = version \<and> map_of (qs_labels q) (pr_id r) = Some l \<and> (\<forall>t. cutoff = Some t \<longrightarrow> t \<le> cr_captured c)"
  using set_newest(1) unfolding replay_rows_def by (fastforce split: if_splits option.splits)

lemma gather_Cons:
  assumes "gather inp out ((c, r, l) # rows) = Inr (inputs, predictions, labels)"
  obtains (skip) "gather inp out rows = Inr (inputs, predictions, labels)"
  | (unscored) b bs ls where "gather inp out rows = Inr (bs, predictions, ls)" "inputs = b # bs" "labels = (pr_id r, l) # ls"
  | (scored) b bs p ps ls ref where "gather inp out rows = Inr (bs, ps, ls)" "inputs = b # bs" "labels = (pr_id r, l) # ls"
      "predictions = (pr_id r, p) # ps" "pr_payload r = Some ref" "out ref = Body p"
proof (cases "inp (cr_input c)")
  case (Body b)
  note body = Body
  show ?thesis
  proof (cases "case filled (pr_payload r) of None \<Rightarrow> Missing | Some ref \<Rightarrow> out ref")
    case (Body p)
    then obtain ref where "pr_payload r = Some ref" "out ref = Body p" by (auto split: option.splits)
    then show ?thesis using assms body Body scored by (cases "gather inp out rows") auto
  next
    case Missing
    then show ?thesis using assms body unscored by (cases "gather inp out rows") auto
  next
    case ReadFails
    then show ?thesis using assms body by auto
  qed
next
  case Missing
  then show ?thesis using assms skip by auto
next
  case ReadFails
  then show ?thesis using assms by auto
qed

lemma gather_mem:
  assumes "gather inp out rows = Inr (inputs, predictions, labels)"
  shows "(\<forall>(pid, b) \<in> set predictions. \<exists>(c, r, l) \<in> set rows. pid = pr_id r \<and> (\<exists>ref. pr_payload r = Some ref \<and> out ref = Body b)) \<and>
    (\<forall>(pid, l) \<in> set labels. \<exists>(c, r, l') \<in> set rows. pid = pr_id r \<and> l' = l)"
  using assms
proof (induction rows arbitrary: inputs predictions labels)
  case (Cons row rows)
  obtain c r l where row: "row = (c, r, l)" by (cases row) auto
  from Cons.prems[unfolded row] show ?case
  proof (cases rule: gather_Cons)
    case skip
    then show ?thesis using Cons.IH[OF skip] by fastforce
  next
    case (unscored b bs ls)
    then show ?thesis using Cons.IH[OF unscored(1)] unfolding row by fastforce
  next
    case (scored b bs p ps ls ref)
    then show ?thesis using Cons.IH[OF scored(1)] unfolding row by fastforce
  qed
qed simp

lemma replay_pair_of_mem:
  assumes "p \<in> set (replay_pair_of predictions labels name version modality i)"
  shows "rp_id p = ib_id i \<and> (\<exists>b. map_of predictions (rp_id p) = Some b \<and> pb_prediction b = Some (rp_champion p) \<and> pb_version b = version \<and>
    normalize_modality (pb_modality b) = normalize_modality modality) \<and> map_of labels (rp_id p) = Some (rp_label p)"
  using assms by (cases "map_of predictions (ib_id i)"; cases "map_of labels (ib_id i)")
    (auto simp: replay_pair_of_def split: option.splits if_splits)

lemma normalize_idem [simp]: "normalize_modality (normalize_modality m) = normalize_modality m"
  by (simp add: normalize_modality_def)

lemma resolve_window_mem:
  assumes "resolve_window (Some q) inp out name version modality n now ttl = Inr pairs" "p \<in> set pairs"
  shows "served_pair q out name version (normalize_modality modality) (if 0 < ttl then Some (now - ttl) else None) p"
proof -
  let ?m = "normalize_modality modality" and ?cut = "if 0 < ttl then Some (now - ttl) else None"
  obtain inputs predictions labels where g: "gather inp out (replay_rows q ?m name version n ?cut) = Inr (inputs, predictions, labels)"
    and pairs: "pairs = join_window inputs predictions labels name version ?m n"
    using assms(1) by (auto simp: resolve_window_def Let_def split: if_splits sum.splits)
  obtain i where i: "p \<in> set (replay_pair_of predictions labels name version ?m i)"
    using assms(2) last_n_length(2) unfolding pairs by (fastforce simp: join_window_def Let_def split: if_splits)
  obtain b where b: "map_of predictions (rp_id p) = Some b" "pb_prediction b = Some (rp_champion p)" "pb_version b = version"
    "normalize_modality (pb_modality b) = ?m" and l: "map_of labels (rp_id p) = Some (rp_label p)"
    using replay_pair_of_mem[OF i] by auto
  obtain c r l' where r: "(c, r, l') \<in> set (replay_rows q ?m name version n ?cut)" "rp_id p = pr_id r" "\<exists>ref. pr_payload r = Some ref \<and> out ref = Body b"
    using gather_mem[OF g] map_of_SomeD[OF b(1)] by fastforce
  obtain c2 r2 where r2: "(c2, r2, rp_label p) \<in> set (replay_rows q ?m name version n ?cut)" "rp_id p = pr_id r2"
    using gather_mem[OF g] map_of_SomeD[OF l] by fastforce
  show ?thesis
    using replay_rows_mem[OF r(1)] replay_rows_mem[OF r2(1)] r(2,3) r2(2) b(2-4) unfolding served_pair_def by metis
qed

lemma prepare_ready:
  assumes "prepare capture_io store inp out name version modality n k now ttl = Inr (Ready pairs)"
  shows "\<exists>q. store = Some q \<and> capture_io \<and> normalize_modality modality \<in> set SHADOW_MODALITIES \<and> k \<le> int (length pairs) \<and>
    resolve_window store inp out name version (normalize_modality modality) n now ttl = Inr pairs"
  using assms by (auto simp: prepare_def Let_def split: if_splits option.splits sum.splits)

lemma resolve_window_length:
  assumes "resolve_window store inp out name version modality n now ttl = Inr pairs" "0 < n"
  shows "int (length pairs) \<le> n"
proof -
  obtain all where "pairs = last_n n all"
    using assms by (auto simp: resolve_window_def join_window_def Let_def split: option.splits if_splits sum.splits)
  then have "length pairs \<le> nat n" using last_n_length(1) by blast
  then show ?thesis using assms(2) by linarith
qed

lemma run_replay_verdict:
  assumes "run_replay score scorer capture_io store inp out name champion challenger modality n k now ttl = Inr (Inr v)"
  shows "\<exists>pairs. prepare capture_io store inp out name champion modality n k now ttl = Inr (Ready pairs) \<and>
    build_verdict score name champion challenger modality pairs (scorer pairs) = Inr v"
proof (cases "prepare capture_io store inp out name champion modality n k now ttl")
  case (Inr status)
  show ?thesis
  proof (cases status)
    case (Ready pairs)
    then show ?thesis using assms Inr
      by (cases "build_verdict score name champion challenger modality pairs (scorer pairs)") (auto simp: run_replay_def)
  qed (use assms Inr in \<open>auto simp: run_replay_def\<close>)
qed (use assms in \<open>simp add: run_replay_def\<close>)

text \<open>A replay gives a verdict only over at least the required number of pairs, at most the window, each of them
  captured, unexpired, labelled and served by that champion with a logged output, and the challenger answered every one; the
  winner is the side with the better value of the modality's metric on the very same labels.\<close>

theorem verdict_is_like_for_like:
  assumes "run_replay score scorer capture_io store inp out name champion challenger modality n k now ttl = Inr (Inr v)" "0 < n"
  shows "\<exists>q pairs m champ chall. store = Some q \<and> k \<le> int (length pairs) \<and> int (length pairs) \<le> n \<and>
    (\<forall>p \<in> set pairs. served_pair q out name champion (normalize_modality modality) (if 0 < ttl then Some (now - ttl) else None) p) \<and>
    length (scorer pairs) = length pairs \<and> modality_metric modality = Inr m \<and>
    (\<exists>x. champ = round6 x \<and> score (mt_score m) (map rp_champion pairs) (map rp_label pairs) = Inr x) \<and>
    (\<exists>x. chall = round6 x \<and> score (mt_score m) (scorer pairs) (map rp_label pairs) = Inr x) \<and>
    sv_champion v = (champion, champ) \<and> sv_challenger v = (challenger, chall) \<and> sv_winner v = winner_of (mt_direction m) champ chall"
proof -
  obtain pairs where ready: "prepare capture_io store inp out name champion modality n k now ttl = Inr (Ready pairs)"
    and verdict: "build_verdict score name champion challenger modality pairs (scorer pairs) = Inr v"
    using run_replay_verdict[OF assms(1)] by blast
  obtain q where q: "store = Some q" "k \<le> int (length pairs)"
    "resolve_window (Some q) inp out name champion (normalize_modality modality) n now ttl = Inr pairs"
    using prepare_ready[OF ready] by auto
  have each: "\<forall>p \<in> set pairs. served_pair q out name champion (normalize_modality modality) (if 0 < ttl then Some (now - ttl) else None) p"
    using resolve_window_mem[OF q(3)] by simp
  obtain m champ chall where sides: "score_side score (map rp_champion pairs) (map rp_label pairs) modality = Inr (champ, m)"
    "score_side score (scorer pairs) (map rp_label pairs) modality = Inr (chall, m)"
    and v: "sv_champion v = (champion, champ)" "sv_challenger v = (challenger, chall)" "sv_winner v = winner_of (mt_direction m) champ chall"
    and count: "length (scorer pairs) = length pairs"
    using verdict by (auto simp: build_verdict_def score_side_def Let_def split: if_splits sum.splits)
  show ?thesis
    using q each v count resolve_window_length[OF q(3) assms(2)] sides
    by (intro exI[of _ q] exI[of _ pairs] exI[of _ m] exI[of _ champ] exI[of _ chall]) (auto simp: score_side_def split: sum.splits)
qed

section \<open>The newest verdict counts\<close>

lemma last_sorted_max:
  assumes "xs \<noteq> []"
  shows "f (last (sort_key f xs)) = Max (f ` set xs)" "last (sort_key f xs) \<in> set xs"
proof -
  have ys: "sort_key f xs \<noteq> []" using assms by (metis length_0_conv length_sort)
  then obtain zs where zs: "sort_key f xs = zs @ [last (sort_key f xs)]" by (metis append_butlast_last_id)
  have "sorted (map f (zs @ [last (sort_key f xs)]))" unfolding zs[symmetric] by simp
  then have "\<forall>y \<in> set (sort_key f xs). f y \<le> f (last (sort_key f xs))" by (subst zs) (auto simp: sorted_append)
  moreover show mem: "last (sort_key f xs) \<in> set xs" using last_in_set[OF ys] by simp
  ultimately show "f (last (sort_key f xs)) = Max (f ` set xs)" using mem by (auto intro!: Max_eqI[symmetric])
qed

lemma newest_matching_verdict:
  assumes "mset entries = mset entries'"
  shows "default_shadow c (Inr entries) read model version modality = default_shadow c (Inr entries') read model version modality \<and>
    (\<forall>v. default_shadow c (Inr entries) read model version modality = Inr (Some v) \<longrightarrow>
      verdict_matches model version modality (get_serving c model) v \<and>
      (\<exists>e \<in> set entries. read (fst e) = Some v \<and> (\<forall>e' \<in> set entries. \<forall>v'. read (fst e') = Some v' \<and>
         verdict_matches model version modality (get_serving c model) v' \<longrightarrow> recency e' \<le> recency e)))"
proof -
  let ?m = "matching_entries read model version modality (get_serving c model)"
  have same: "set (?m entries) = set (?m entries')" using assms mset_eq_setD[OF assms] by (auto simp: matching_entries_def)
  have key: "recency x = recency y \<Longrightarrow> fst x = fst y" for x y by (cases x; cases y) (auto simp: recency_def)
  have chosen: "default_shadow c (Inr es) read model version modality =
      Inr (if ?m es = [] then None else read (fst (last (sort_key recency (?m es)))))" for es
    by (simp add: default_shadow_def Let_def)
  have "fst (last (sort_key recency (?m entries))) = fst (last (sort_key recency (?m entries')))" if "?m entries \<noteq> []"
  proof -
    have "?m entries' \<noteq> []" using that same by auto
    then show ?thesis using last_sorted_max(1)[OF that, of recency] last_sorted_max(1)[of "?m entries'" recency] same key by metis
  qed
  moreover have "?m entries = [] \<longleftrightarrow> ?m entries' = []" using same by (metis set_empty)
  moreover have "verdict_matches model version modality (get_serving c model) v \<and>
      (\<exists>e \<in> set entries. read (fst e) = Some v \<and> (\<forall>e' \<in> set entries. \<forall>v'. read (fst e') = Some v' \<and>
         verdict_matches model version modality (get_serving c model) v' \<longrightarrow> recency e' \<le> recency e))"
    if v: "default_shadow c (Inr entries) read model version modality = Inr (Some v)" for v
  proof -
    have ne: "?m entries \<noteq> []" and read: "read (fst (last (sort_key recency (?m entries)))) = Some v"
      using v by (auto simp: chosen split: if_splits)
    let ?e = "last (sort_key recency (?m entries))"
    have e: "?e \<in> set (?m entries)" by (rule last_sorted_max(2)[OF ne])
    have "recency e' \<le> recency ?e" if "e' \<in> set (?m entries)" for e'
      unfolding last_sorted_max(1)[OF ne, of recency] using that by simp
    then have "\<forall>e' \<in> set entries. \<forall>v'. read (fst e') = Some v' \<and> verdict_matches model version modality (get_serving c model) v'
        \<longrightarrow> recency e' \<le> recency ?e" by (auto simp: matching_entries_def)
    then show ?thesis using e read by (auto simp: matching_entries_def)
  qed
  ultimately show ?thesis unfolding chosen by auto
qed


text \<open>While the read of the alias fails, a verdict against any former champion counts: nothing is raised.\<close>

lemma failing_alias_read_counts_stale_verdicts:
  assumes "cl_by_alias c model ''serving'' = Inl e" "read key = Some v" "st_winner v \<noteq> None" "st_name v = Some model"
    "st_challenger v = Some version" "st_modality v = None"
  shows "default_shadow c (Inr [(key, t)]) read model version modality = Inr (Some v)"
  using assms by (simp add: default_shadow_def matching_entries_def verdict_matches_def get_serving_def serving_version_def filled_def
      split: option.splits)

section \<open>Runs\<close>

definition demo_store :: "string qstore" where
  "demo_store = one_label\<lparr> qs_captures := [\<lparr> cr_id = ''p'', cr_modality = ''asr'', cr_input = ''i'', cr_captured = 1 \<rparr>] \<rparr>"

definition demo_input :: "string \<Rightarrow> nat input_body object_read" where
  "demo_input ref = Body \<lparr> ib_id = ''p'', ib_input = 7, ib_ts = 1 \<rparr>"

lemma demo_replay:
  "run_replay count_wrong (map (\<lambda>p. ''hello'')) True (Some demo_store) demo_input wrong_outputs ''m'' ''1'' ''2'' ''asr'' 10 1 2 0 =
    Inr (Inr \<lparr> sv_name = ''m'', sv_modality = ''asr'', sv_metric = ''wer'', sv_direction = ''lower'', sv_pairs = 1,
      sv_champion = (''1'', Fin 1), sv_challenger = (''2'', Fin 0), sv_winner = Challenger \<rparr>)"
  by code_simp

lemma verdict_is_like_for_like_witness:
  "\<exists>pairs :: (string, nat) replay_pair list. length pairs \<ge> 1 \<and> (\<forall>p \<in> set pairs. served_pair demo_store wrong_outputs ''m'' ''1'' ''asr'' None p)"
proof -
  have asr: "normalize_modality ''asr'' = ''asr''" by code_simp
  have "\<exists>pairs :: (string, nat) replay_pair list. 1 \<le> int (length pairs) \<and> (\<forall>p \<in> set pairs. served_pair demo_store wrong_outputs ''m'' ''1'' ''asr'' None p)"
    using verdict_is_like_for_like[OF demo_replay] asr by auto
  then show ?thesis by simp
qed

definition demo_verdict :: "string \<Rightarrow> stored_verdict" where
  "demo_verdict champion = \<lparr> st_winner = Some ''challenger'', st_name = Some ''m'', st_challenger = Some ''2'', st_champion = Some champion,
     st_modality = Some ''asr'' \<rparr>"

definition demo_objects :: "string \<Rightarrow> stored_verdict option" where
  "demo_objects key = map_of [(''a'', demo_verdict ''1''), (''b'', demo_verdict ''1''), (''c'', demo_verdict ''9'')] key"


end
