(* ===== verification/Drift.thy ===== *)
theory Drift
  imports EvalGate "HOL-Library.List_Lexorder" "HOL-Library.Char_ord"
begin

text \<open>
  \<open>gateway/app/monitoring.py\<close>: the drift between a reference and a current data set, feature by feature, as the population
  stability index over reference deciles.  Cells are parsed by an argument into finite numbers; the index itself is a real because of its logarithms.
\<close>

section \<open>Features\<close>

text \<open>A data set as its rows, each a list of column and cell; numeric cells are collected per column.\<close>

definition add_cell :: "(string \<Rightarrow> rat option) \<Rightarrow> string \<times> string \<Rightarrow> (string, rat list) dict \<Rightarrow> (string, rat list) dict" where
  "add_cell parse kc cols = (case kc of (k, raw) \<Rightarrow>
     (let cols = (if map_of cols k = None then AList.update k [] cols else cols)
      in case parse raw of None \<Rightarrow> cols | Some x \<Rightarrow> AList.update k (the (map_of cols k) @ [x]) cols))"

definition load_numeric :: "(string \<Rightarrow> rat option) \<Rightarrow> (string \<times> string) list list \<Rightarrow> (string, rat list) dict option" where
  "load_numeric parse rows = (let cols = filter (\<lambda>(k, xs). xs \<noteq> []) (fold (\<lambda>row. fold (add_cell parse) row) rows [])
     in if cols = [] then None else Some cols)"

section \<open>The stability index\<close>

definition edges :: "nat \<Rightarrow> rat list \<Rightarrow> rat list" where
  "edges bins ref = (let xs = sort ref; n = length xs
     in sorted_list_of_set (set (map (\<lambda>q. xs ! min (n - 1) (nat (round_even (of_nat q / of_nat bins * of_nat n)))) [1..<bins])))"

fun bucket_from :: "nat \<Rightarrow> rat list \<Rightarrow> rat \<Rightarrow> nat" where
  "bucket_from i [] x = i"
| "bucket_from i (e # es) x = (if x \<le> e then i else bucket_from (Suc i) es x)"

definition bucket :: "rat list \<Rightarrow> rat \<Rightarrow> nat" where
  "bucket es x = bucket_from 0 es x"

definition shares :: "rat list \<Rightarrow> rat list \<Rightarrow> rat list" where
  "shares es data = map (\<lambda>b. of_nat (length (filter (\<lambda>x. bucket es x = b) data)) / of_nat (max 1 (length data))) [0..<length es + 1]"

definition psi_eps :: real where
  "psi_eps = 1 / 1000000"

definition psi_term :: "rat \<Rightarrow> rat \<Rightarrow> real" where
  "psi_term r c = (of_rat c - of_rat r) * ln ((of_rat c + psi_eps) / (of_rat r + psi_eps))"

definition psi :: "nat \<Rightarrow> rat list \<Rightarrow> rat list \<Rightarrow> real" where
  "psi bins ref cur = (if length ref < 2 then 0
     else (let es = edges bins ref in sum_list (map (\<lambda>(r, c). psi_term r c) (zip (shares es (sort ref)) (shares es cur)))))"

text \<open>\<open>round(x, 4)\<close>: to the nearest ten-thousandth, an exact half to the even one.\<close>

definition round4 :: "real \<Rightarrow> real" where
  "round4 x = (let y = x * 10000; f = \<lfloor>y\<rfloor>; d = y - of_int f
     in of_int (if d < 1 / 2 \<or> d = 1 / 2 \<and> even f then f else f + 1) / 10000)"

record drift_report =
  dr_features :: "(string \<times> real) list"
  dr_drifted :: "string list"
  dr_max :: real
  dr_drift :: bool

datatype drift_error = CannotLoad | NoSharedColumns

definition report_of :: "real \<Rightarrow> (string \<times> real) list \<Rightarrow> drift_report" where
  "report_of threshold features = \<lparr> dr_features = features, dr_drifted = map fst (filter (\<lambda>(k, p). threshold \<le> p) features),
     dr_max = Max (snd ` set features), dr_drift = list_ex (\<lambda>(k, p). threshold \<le> p) features \<rparr>"

definition compute_drift :: "(string, rat list) dict option \<Rightarrow> (string, rat list) dict option \<Rightarrow> real \<Rightarrow> drift_error + drift_report" where
  "compute_drift ref cur threshold = (case (ref, cur) of
      (Some r, Some c) \<Rightarrow>
        (let shared = sorted_list_of_set (fst ` set r \<inter> fst ` set c)
         in if shared = [] then Inl NoSharedColumns
            else Inr (report_of threshold (map (\<lambda>k. (k, round4 (psi 10 (the (map_of r k)) (the (map_of c k))))) shared)))
    | _ \<Rightarrow> Inl CannotLoad)"

section \<open>The index measures a shift\<close>

lemma psi_term_nonneg:
  assumes "0 \<le> r" "0 \<le> c"
  shows "0 \<le> psi_term r c" "psi_term r c = 0 \<longleftrightarrow> r = c"
proof -
  let ?r = "of_rat r + psi_eps" and ?c = "of_rat c + psi_eps"
  have "0 \<le> (of_rat r :: real)" "0 \<le> (of_rat c :: real)" using assms by (simp_all add: zero_le_of_rat_iff)
  moreover have "0 < psi_eps" by (simp add: psi_eps_def)
  ultimately have pos: "0 < ?r" "0 < ?c" by linarith+
  have ln: "ln (?c / ?r) = ln ?c - ln ?r" using pos by (simp add: ln_div)
  consider "?c = ?r" | "?r < ?c" | "?c < ?r" by linarith
  then have "0 \<le> psi_term r c \<and> (psi_term r c = 0 \<longleftrightarrow> r = c)"
  proof cases
    case 2
    then have "ln ?r < ln ?c" using pos by simp
    then have "0 < psi_term r c" using 2 unfolding psi_term_def ln by (intro mult_pos_pos) simp_all
    then show ?thesis using 2 by auto
  next
    case 3
    then have "ln ?c < ln ?r" using pos by simp
    then have "0 < psi_term r c" using 3 unfolding psi_term_def ln by (intro mult_neg_neg) simp_all
    then show ?thesis using 3 by auto
  qed (simp add: psi_term_def)
  then show "0 \<le> psi_term r c" "psi_term r c = 0 \<longleftrightarrow> r = c" by auto
qed

lemma shares_nonneg: "x \<in> set (shares es data) \<Longrightarrow> 0 \<le> x"
  by (auto simp: shares_def)

lemma length_shares [simp]: "length (shares es data) = length es + 1"
  by (simp add: shares_def)

lemma psi_terms_zero:
  assumes "\<forall>(r, c) \<in> set rcs. 0 \<le> r \<and> 0 \<le> c"
  shows "0 \<le> sum_list (map (\<lambda>(r, c). psi_term r c) rcs)" "sum_list (map (\<lambda>(r, c). psi_term r c) rcs) = 0 \<longleftrightarrow> (\<forall>(r, c) \<in> set rcs. r = c)"
proof -
  have nonneg: "\<forall>x \<in> set (map (\<lambda>(r, c). psi_term r c) rcs). 0 \<le> x" using assms psi_term_nonneg(1) by auto
  then show "0 \<le> sum_list (map (\<lambda>(r, c). psi_term r c) rcs)" by (intro sum_list_nonneg) auto
  show "sum_list (map (\<lambda>(r, c). psi_term r c) rcs) = 0 \<longleftrightarrow> (\<forall>(r, c) \<in> set rcs. r = c)"
    using sum_list_nonneg_eq_0_iff[of "map (\<lambda>(r, c). psi_term r c) rcs"] nonneg assms psi_term_nonneg(2) by fastforce
qed

text \<open>The index is never negative, and it is zero exactly when the current data fills the reference's deciles in the
  reference's shares.\<close>

theorem psi_measures_a_shift:
  assumes "2 \<le> length ref"
  shows "0 \<le> psi bins ref cur \<and> (psi bins ref cur = 0 \<longleftrightarrow> shares (edges bins ref) cur = shares (edges bins ref) (sort ref))"
proof -
  let ?r = "shares (edges bins ref) (sort ref)" and ?c = "shares (edges bins ref) cur"
  have "\<forall>(r, c) \<in> set (zip ?r ?c). 0 \<le> r \<and> 0 \<le> c" using shares_nonneg by (auto dest: set_zip_leftD set_zip_rightD)
  note zero = psi_terms_zero[OF this]
  have "(\<forall>(r, c) \<in> set (zip ?r ?c). r = c) \<longleftrightarrow> ?c = ?r"
    using list_eq_iff_zip_eq[of ?r ?c] by auto
  moreover have "psi bins ref cur = sum_list (map (\<lambda>(r, c). psi_term r c) (zip ?r ?c))" using assms by (simp add: psi_def Let_def)
  ultimately show ?thesis using zero by simp
qed

lemma shares_perm: "mset data = mset data' \<Longrightarrow> shares es data = shares es data'"
proof -
  assume same: "mset data = mset data'"
  have "length (filter P data) = length (filter P data')" for P
    by (metis same mset_filter size_mset)
  moreover have "length data = length data'" using same by (metis size_mset)
  ultimately show ?thesis by (simp add: shares_def)
qed

text \<open>The same data in any order does not drift.\<close>

lemma same_data_does_not_drift: "mset cur = mset ref \<Longrightarrow> psi bins ref cur = 0"
  using psi_measures_a_shift[of ref bins cur] shares_perm[of cur "sort ref"] by (cases "2 \<le> length ref") (auto simp: psi_def)

lemma report_says:
  "dr_drift (report_of t fs) \<longleftrightarrow> dr_drifted (report_of t fs) \<noteq> []"
  "fs \<noteq> [] \<Longrightarrow> dr_drift (report_of t fs) \<longleftrightarrow> t \<le> dr_max (report_of t fs)"
proof -
  show "dr_drift (report_of t fs) \<longleftrightarrow> dr_drifted (report_of t fs) \<noteq> []"
    by (auto simp: report_of_def list_ex_iff filter_empty_conv)
  assume "fs \<noteq> []"
  then have "t \<le> Max (snd ` set fs) \<longleftrightarrow> (\<exists>p \<in> snd ` set fs. t \<le> p)" by (intro Max_ge_iff) auto
  then show "dr_drift (report_of t fs) \<longleftrightarrow> t \<le> dr_max (report_of t fs)" by (fastforce simp: report_of_def list_ex_iff)
qed

text \<open>A report flags drift exactly when it names a drifted column, which is exactly when its largest index reaches the threshold.\<close>

lemma drift_report_says:
  assumes "compute_drift ref cur threshold = Inr r"
  shows "dr_drift r \<longleftrightarrow> threshold \<le> dr_max r" "dr_drift r \<longleftrightarrow> dr_drifted r \<noteq> []"
proof -
  have "\<exists>fs. fs \<noteq> [] \<and> r = report_of threshold fs"
    using assms unfolding compute_drift_def Let_def
    by (auto split: option.splits if_split_asm simp del: sorted_list_of_set_eq_Nil_iff intro!: exI[of _ "map _ (sorted_list_of_set _)"])
  then show "dr_drift r \<longleftrightarrow> threshold \<le> dr_max r" "dr_drift r \<longleftrightarrow> dr_drifted r \<noteq> []"
    using report_says by auto
qed

lemma psi_measures_a_shift_witness: "0 \<le> psi 10 [1, 2, 3] [1, 5]"
  using psi_measures_a_shift[of "[1, 2, 3]" 10 "[1, 5]"] by simp

end
