(* ===== verification/Bridge.thy ===== *)
theory Bridge
  imports CoordDecisions EngineLifecycle
begin

text \<open>
  \<open>hostagent/coordadmission.py\<close>: the coordinator behind the surface the engine runtimes know from the single slot, and the
  runtimes behind the coordinator's lifecycle.  The runtimes and the map of marks stand beside the coordinator's threads of
  \<open>CoordMachine\<close>; every event of the bridge runs coordinator events and changes runtimes and marks as the source does.  Whether
  a runtime lock was obtained, what a process did and what the device read are carried by the events.
\<close>

section \<open>State\<close>

text \<open>A mark of \<open>_claims\<close>: a resident engine, or a job with the whole GPU.  A call in progress is the tenant it is for.\<close>

datatype mark = ResidentMark | JobMark

record bridge =
  bg_sys :: sys
  bg_marks :: "(string, mark) dict"
  bg_calls :: "(op_id, string) dict"
  bg_engines :: "(string, engine) dict"

definition on_engine :: "string \<Rightarrow> (engine \<Rightarrow> engine) \<Rightarrow> bridge \<Rightarrow> bridge" where
  "on_engine i f b = b\<lparr> bg_engines := dict_upd i f (bg_engines b) \<rparr>"

definition coord_event :: "coord_config \<Rightarrow> rat \<Rightarrow> event \<Rightarrow> bridge \<Rightarrow> bridge option" where
  "coord_event cfg dev e b = map_option (\<lambda>s. b\<lparr> bg_sys := s \<rparr>) (tstep cfg dev e (bg_sys b))"

section \<open>The holder\<close>

text \<open>\<open>holder\<close>: the exclusive job, otherwise the most recently touched resident.\<close>

record bridge_holder =
  bh_tenant :: string
  bh_kind :: string
  bh_est :: "rat option"
  bh_at :: rat

definition coord_holder :: "coord \<Rightarrow> bridge_holder option" where
  "coord_holder c = (case c_exclusive c of
      Some (j, t) \<Rightarrow> Some \<lparr> bh_tenant = j, bh_kind = ''job'', bh_est = None, bh_at = t \<rparr>
    | None \<Rightarrow> (case sort_key (\<lambda>r. - int (rm_seq r)) (dvals (c_residents c)) of
        [] \<Rightarrow> None
      | r # _ \<Rightarrow> Some \<lparr> bh_tenant = rm_key r, bh_kind = ''serving'', bh_est = Some (rm_accounted r / GIB), bh_at = rm_last_used r \<rparr>))"

definition holder_name :: "coord \<Rightarrow> string" where
  "holder_name c = (case coord_holder c of
      None \<Rightarrow> ''another tenant'' | Some h \<Rightarrow> if bh_tenant h = [] then ''another tenant'' else bh_tenant h)"

section \<open>Acquire and release\<close>

text \<open>\<open>acquire\<close> up to the coordinator's answer: nothing for a tenant that is marked, otherwise a call begins.\<close>

definition acquire_begin :: "coord_config \<Rightarrow> rat \<Rightarrow> op_id \<Rightarrow> string \<Rightarrow> string \<Rightarrow> rat \<Rightarrow> bridge \<Rightarrow> bridge option" where
  "acquire_begin cfg dev op tenant kind est b =
     (if map_of (bg_marks b) tenant \<noteq> None then Some b
      else map_option (\<lambda>b. b\<lparr> bg_calls := AList.update op tenant (bg_calls b) \<rparr>)
        (coord_event cfg dev (if kind = ''job'' then StartJob op tenant else Start op tenant (est * GIB)) b))"

text \<open>The rest of \<open>acquire\<close>, once the coordinator answered: a claim is released at once and the tenant marked.\<close>

definition set_mark :: "string \<Rightarrow> mark \<Rightarrow> bridge \<Rightarrow> bridge" where
  "set_mark tenant m b = b\<lparr> bg_marks := AList.update tenant m (bg_marks b) \<rparr>"

definition acquire_end :: "coord_config \<Rightarrow> rat \<Rightarrow> op_id \<Rightarrow> bridge \<Rightarrow> ((adm_error + unit) \<times> bridge) option" where
  "acquire_end cfg dev op b = (case map_of (bg_calls b) op of
      None \<Rightarrow> None
    | Some tenant \<Rightarrow>
        (let b1 = b\<lparr> bg_calls := AList.delete op (bg_calls b) \<rparr>; held = Inl (Held (holder_name (s_coord (bg_sys b))) False)
         in case s_pc (bg_sys b) op of
              JobDone granted \<Rightarrow> Some (if granted then (Inr (), set_mark tenant JobMark b1) else (held, b1))
            | Done (Refuse code _) \<Rightarrow> Some (if code = MODEL_TOO_LARGE then Inl VramExceeded else held, b1)
            | Done _ \<Rightarrow> map_option (\<lambda>b. (Inr (), set_mark tenant ResidentMark b)) (coord_event cfg dev (Release op) b1)
            | _ \<Rightarrow> None))"

text \<open>\<open>release\<close>: a job is ended, and a resident is forgotten when the runtime registered for it has no child.\<close>

definition bridge_release :: "coord_config \<Rightarrow> rat \<Rightarrow> string \<Rightarrow> bridge \<Rightarrow> bridge" where
  "bridge_release cfg dev tenant b = (case map_of (bg_marks b) tenant of
      None \<Rightarrow> b
    | Some m \<Rightarrow>
        (let b1 = b\<lparr> bg_marks := AList.delete tenant (bg_marks b) \<rparr>
         in case m of
              JobMark \<Rightarrow> the (coord_event cfg dev (EndJob (Some tenant)) b1)
            | ResidentMark \<Rightarrow>
                (case map_of (bg_engines b) tenant of
                   None \<Rightarrow> b1
                 | Some e \<Rightarrow> if en_child e = None then the (coord_event cfg dev (Forget tenant) b1) else b1)))"

section \<open>Runtimes behind the coordinator\<close>

text \<open>\<open>EngineRuntime._teardown\<close> and \<open>unload\<close> over this surface, as \<open>EngineLifecycle\<close> has them over the slot, and
  \<open>RuntimeLifecycle.unload\<close>, whose answer \<open>evict\<close> does not read.\<close>

definition bridge_drop :: "coord_config \<Rightarrow> rat \<Rightarrow> string \<Rightarrow> bridge \<Rightarrow> bridge" where
  "bridge_drop cfg dev i b = (let b1 = on_engine i (\<lambda>e. e\<lparr> en_child := None, en_wedged := False \<rparr>) b
     in if (case map_of (bg_engines b) i of None \<Rightarrow> False | Some e \<Rightarrow> en_gpu e) then bridge_release cfg dev i b1 else b1)"

definition bridge_unload :: "coord_config \<Rightarrow> rat \<Rightarrow> bool \<Rightarrow> bool \<Rightarrow> bool \<Rightarrow> string \<Rightarrow> bridge \<Rightarrow> unload_status \<times> bridge" where
  "bridge_unload cfg dev acquired tw kw i b = (case map_of (bg_engines b) i of
      None \<Rightarrow> (UIdle, b)
    | Some e \<Rightarrow>
        if \<not> acquired \<and> en_loading e then (UBusy, b)
        else if \<not> engine_resident e then (UIdle, bridge_drop cfg dev i b)
        else if \<not> tw \<and> \<not> kw then (UBusy, on_engine i (\<lambda>e. e\<lparr> en_wedged := True \<rparr>) b)
        else (UUnloaded, bridge_drop cfg dev i b))"

text \<open>The model a coordinator thread is about to unload, and the event of that thread once it has.\<close>

definition unload_target :: "sys \<Rightarrow> op_id \<Rightarrow> (model_key \<times> event) option" where
  "unload_target s op = (case s_pc s op of
      RollUnload ws d \<Rightarrow> Some (fst (s_ctx s op), UnloadDone op)
    | FailUnload ws \<Rightarrow> Some (fst (s_ctx s op), UnloadDone op)
    | Evicting n (k # ks) EvUnloading \<Rightarrow> Some (k, EvictTick op False)
    | JobEvict (k # ks) EvUnloading \<Rightarrow> Some (k, JobTick op False 0)
    | _ \<Rightarrow> None)"

section \<open>Events\<close>

text \<open>A thread's own events; the others reach the coordinator through the surface only.\<close>

fun thread_of :: "event \<Rightarrow> op_id option" where
  "thread_of (Serve op late f1 f2 f3) = Some op"
| "thread_of (GateAcquire op) = Some op"
| "thread_of (LoadReturns op r) = Some op"
| "thread_of (Reconcile op) = Some op"
| "thread_of (Commit op f3) = Some op"
| "thread_of (FailSection op) = Some op"
| "thread_of (Finalize op) = Some op"
| "thread_of (Dispose op) = Some op"
| "thread_of (Wake op) = Some op"
| "thread_of (TransientTick op late) = Some op"
| "thread_of (EvictTick op late) = Some op"
| "thread_of (BackoffDone op) = Some op"
| "thread_of (JobTick op late now) = Some op"
| "thread_of e = None"

text \<open>The lifecycle's \<open>load\<close> answers with a deferred child.\<close>

fun deferred_load :: "event \<Rightarrow> bool" where
  "deferred_load (LoadReturns op r) = (r = Loaded (Child None) 0)"
| "deferred_load e = True"

datatype bridge_event =
    Thread event
  | AcquireBegin op_id string string rat
  | AcquireEnd op_id
  | UnloadVictim op_id bool bool bool
  | UnloadEngine string bool bool bool
  | ReleaseTenant string
  | Register string engine
  | SetLoading string bool
  | Spawned string int "rat option"
  | Exited string

fun bridge_step :: "coord_config \<Rightarrow> rat \<Rightarrow> bridge_event \<Rightarrow> bridge \<Rightarrow> bridge option" where
  "bridge_step cfg dev (Thread e) b = (case thread_of e of
      None \<Rightarrow> None
    | Some op \<Rightarrow> if unload_target (bg_sys b) op \<noteq> None \<or> \<not> deferred_load e then None else coord_event cfg dev e b)"
| "bridge_step cfg dev (AcquireBegin op tenant kind est) b = acquire_begin cfg dev op tenant kind est b"
| "bridge_step cfg dev (AcquireEnd op) b = map_option snd (acquire_end cfg dev op b)"
| "bridge_step cfg dev (UnloadVictim op acquired tw kw) b = (case unload_target (bg_sys b) op of
      None \<Rightarrow> None | Some (k, e) \<Rightarrow> coord_event cfg dev e (snd (bridge_unload cfg dev acquired tw kw k b)))"
| "bridge_step cfg dev (UnloadEngine i acquired tw kw) b = Some (snd (bridge_unload cfg dev acquired tw kw i b))"
| "bridge_step cfg dev (ReleaseTenant tenant) b = Some (bridge_release cfg dev tenant b)"
| "bridge_step cfg dev (Register i e) b = Some (b\<lparr> bg_engines := AList.update i e (bg_engines b) \<rparr>)"
| "bridge_step cfg dev (SetLoading i flag) b = Some (on_engine i (\<lambda>e. e\<lparr> en_loading := flag \<rparr>) b)"
| "bridge_step cfg dev (Spawned i pid m) b =
     coord_event cfg dev (SetChild i pid m) (on_engine i (\<lambda>e. e\<lparr> en_child := Some (pid, True) \<rparr>) b)"
| "bridge_step cfg dev (Exited i) b = Some (on_engine i (\<lambda>e. e\<lparr> en_child := map_option (\<lambda>(p, _). (p, False)) (en_child e) \<rparr>) b)"

definition init_bridge :: "(nat \<Rightarrow> rat) \<Rightarrow> bridge" where
  "init_bridge w = \<lparr> bg_sys = init_sys w, bg_marks = [], bg_calls = [], bg_engines = [] \<rparr>"

text \<open>What a run may assume: estimates and readings are not negative and, in a strict run, no engine measures above the bytes its
  model was admitted for.\<close>

fun bridge_ok :: "bool \<Rightarrow> bridge_event \<Rightarrow> bridge \<Rightarrow> bool" where
  "bridge_ok strict (AcquireBegin op tenant kind est) b = (0 \<le> est)"
| "bridge_ok strict (Spawned i pid m) b = event_ok strict (SetChild i pid m) (bg_sys b)"
| "bridge_ok strict e b = True"

section \<open>A bridge run is a coordinator run\<close>

lemma coord_event_sys: "coord_event cfg dev e b = Some b' \<Longrightarrow> tstep cfg dev e (bg_sys b) = Some (bg_sys b')"
  by (auto simp: coord_event_def)

lemma on_engine_sys [simp]: "bg_sys (on_engine i f b) = bg_sys b" "bg_marks (on_engine i f b) = bg_marks b" "bg_calls (on_engine i f b) = bg_calls b"
  by (simp_all add: on_engine_def)

lemma set_mark_sys [simp]: "bg_sys (set_mark t m b) = bg_sys b" "bg_calls (set_mark t m b) = bg_calls b"
  by (simp_all add: set_mark_def)

lemma unload_target_event: "unload_target s op = Some (k, e) \<Longrightarrow> e \<in> {UnloadDone op, EvictTick op False, JobTick op False 0}"
  by (auto simp: unload_target_def split: pc.splits list.splits evphase.splits)

lemma acquire_end_cases:
  assumes "acquire_end cfg dev op b = Some (r, b')"
  obtains (answered) "bg_sys b' = bg_sys b"
    | (released) b0 b1 where "bg_sys b0 = bg_sys b" "coord_event cfg dev (Release op) b0 = Some b1" "bg_sys b' = bg_sys b1"
proof -
  obtain tenant where t: "map_of (bg_calls b) op = Some tenant" using assms by (auto simp: acquire_end_def split: option.splits)
  let ?b0 = "b\<lparr> bg_calls := AList.delete op (bg_calls b) \<rparr>"
  have "bg_sys b' = bg_sys b \<or> (\<exists>b1. coord_event cfg dev (Release op) ?b0 = Some b1 \<and> bg_sys b' = bg_sys b1)"
  proof (cases "s_pc (bg_sys b) op")
    case (Done oc)
    then show ?thesis using assms t by (cases oc) (auto simp: acquire_end_def Let_def split: if_splits)
  qed (use assms t in \<open>auto simp: acquire_end_def Let_def split: if_splits\<close>)
  then show thesis using that(1) that(2)[of ?b0] by auto
qed

text \<open>What the events of the bridge do to the coordinator: nothing, or one event of a thread, or one or two through the surface.\<close>

locale bridge_kept =
  fixes cfg :: coord_config and dev :: rat and strict :: bool and allowed :: "bridge_event \<Rightarrow> bool" and P :: "sys \<Rightarrow> bool"
  assumes step: "P s \<Longrightarrow> tstep cfg dev e s = Some s' \<Longrightarrow> deferred_load e \<Longrightarrow>
    (\<forall>k pid m. e = SetChild k pid m \<longrightarrow> allowed (Spawned k pid m) \<and> event_ok strict e s) \<Longrightarrow> (\<forall>op k est. e = Start op k est \<longrightarrow> 0 \<le> est) \<Longrightarrow> P s'"
begin

lemma coord_event_keeps:
  assumes "P (bg_sys b)" "coord_event cfg dev e b = Some b'" "deferred_load e" "\<forall>k pid m. e \<noteq> SetChild k pid m" "\<forall>op k est. e \<noteq> Start op k est"
  shows "P (bg_sys b')"
  by (rule step[OF assms(1) coord_event_sys[OF assms(2)] assms(3)]) (use assms in auto)

lemma surface_keeps:
  assumes "P (bg_sys b)"
  shows "P (bg_sys (the (coord_event cfg dev (EndJob (Some t)) b)))" "P (bg_sys (the (coord_event cfg dev (Forget t) b)))"
proof -
  have "\<exists>b'. coord_event cfg dev (EndJob (Some t)) b = Some b'" "\<exists>b'. coord_event cfg dev (Forget t) b = Some b'"
    by (simp_all add: coord_event_def)
  then obtain b1 b2 where b12: "coord_event cfg dev (EndJob (Some t)) b = Some b1" "coord_event cfg dev (Forget t) b = Some b2" by blast
  show "P (bg_sys (the (coord_event cfg dev (EndJob (Some t)) b)))" "P (bg_sys (the (coord_event cfg dev (Forget t) b)))"
    using coord_event_keeps[OF assms b12(1)] coord_event_keeps[OF assms b12(2)] b12 by simp_all
qed

lemma release_keeps: "P (bg_sys b) \<Longrightarrow> P (bg_sys (bridge_release cfg dev t b))"
  unfolding bridge_release_def Let_def
  using surface_keeps[of "b\<lparr> bg_marks := AList.delete t (bg_marks b) \<rparr>" t]
  by (simp split: option.split mark.split)

lemma unload_keeps: "P (bg_sys b) \<Longrightarrow> P (bg_sys (snd (bridge_unload cfg dev acquired tw kw i b)))"
  by (auto simp: bridge_unload_def bridge_drop_def Let_def split: option.splits intro!: release_keeps)

lemma bridge_keeps:
  assumes "bridge_step cfg dev be b = Some b'" "bridge_ok strict be b" "P (bg_sys b)" "allowed be"
  shows "P (bg_sys b')"
proof (cases be)
  case (Thread e)
  then obtain op where e: "thread_of e = Some op" "deferred_load e" "coord_event cfg dev e b = Some b'"
    using assms(1) by (auto split: option.splits if_splits)
  have "\<forall>k pid m. e \<noteq> SetChild k pid m" "\<forall>op k est. e \<noteq> Start op k est" using e(1) by auto
  then show ?thesis by (rule coord_event_keeps[OF assms(3) e(3,2)])
next
  case (AcquireBegin op tenant kind est)
  have pos: "0 \<le> est * GIB" using assms(2) AcquireBegin by (simp add: GIB_def)
  show ?thesis
  proof (cases "map_of (bg_marks b) tenant = None")
    case True
    then obtain b1 where b1: "coord_event cfg dev (if kind = ''job'' then StartJob op tenant else Start op tenant (est * GIB)) b = Some b1" "bg_sys b' = bg_sys b1"
      using assms(1) AcquireBegin by (auto simp: acquire_begin_def)
    show ?thesis unfolding b1(2) by (rule step[OF assms(3) coord_event_sys[OF b1(1)]]) (use pos in \<open>auto split: if_splits\<close>)
  qed (use assms AcquireBegin in \<open>auto simp: acquire_begin_def\<close>)
next
  case (AcquireEnd op)
  then obtain r where "acquire_end cfg dev op b = Some (r, b')" using assms(1) by auto
  then show ?thesis
  proof (cases rule: acquire_end_cases)
    case (released b0 b1)
    then show ?thesis using coord_event_keeps[of b0 "Release op" b1] assms(3) by simp
  qed (use assms(3) in simp)
next
  case (UnloadVictim op acquired tw kw)
  then obtain k e where e: "unload_target (bg_sys b) op = Some (k, e)" "coord_event cfg dev e (snd (bridge_unload cfg dev acquired tw kw k b)) = Some b'"
    using assms(1) by (auto split: option.splits)
  show ?thesis using coord_event_keeps[OF unload_keeps[OF assms(3)] e(2)] unload_target_event[OF e(1)] by auto
next
  case (Spawned i pid m)
  then have "coord_event cfg dev (SetChild i pid m) (on_engine i (\<lambda>e. e\<lparr> en_child := Some (pid, True) \<rparr>) b) = Some b'" using assms(1) by simp
  note st = coord_event_sys[OF this, simplified]
  show ?thesis by (rule step[OF assms(3), of "SetChild i pid m"]) (use st assms(2,4) Spawned in auto)
qed (use assms in \<open>auto intro: release_keeps unload_keeps\<close>)

end

interpretation coordinator_runs: bridge_kept cfg dev strict "\<lambda>_. True" "reach cfg dev strict" for cfg dev strict
proof
  fix s e s'
  assume s: "reach cfg dev strict s" "tstep cfg dev e s = Some s'" "deferred_load e"
    "\<forall>k pid m. e = SetChild k pid m \<longrightarrow> True \<and> event_ok strict e s" "\<forall>op k est. e = Start op k est \<longrightarrow> 0 \<le> est"
  have "event_ok strict e s" using s(3-5) by (cases e) auto
  then show "reach cfg dev strict s'" using s by (auto intro: reach_step)
qed

interpretation bridge_runs: machine "bridge_step cfg dev" "bridge_ok strict" "\<lambda>b. reach cfg dev strict (bg_sys b)" for cfg dev strict
  using coordinator_runs.bridge_keeps by unfold_locales blast

section \<open>What acquire and release leave behind\<close>

text \<open>A release forgets the resident, and with it exactly its bytes, when its runtime has no child; a warm engine stays accounted.\<close>

lemma release_follows_the_child:
  assumes "map_of (bg_marks b) t = Some ResidentMark" "map_of (bg_engines b) t = Some e" "distinct (dkeys (c_residents (s_coord (bg_sys b))))"
  shows "accounted (s_coord (bg_sys (bridge_release cfg dev t b))) = accounted (s_coord (bg_sys b)) -
      (if en_child e = None then (case map_of (c_residents (s_coord (bg_sys b))) t of None \<Rightarrow> 0 | Some r \<Rightarrow> rm_accounted r) else 0)"
    "map_of (bg_marks (bridge_release cfg dev t b)) t = None" "en_child e \<noteq> None \<Longrightarrow> bg_sys (bridge_release cfg dev t b) = bg_sys b"
  using assms by (auto simp: bridge_release_def Let_def coord_event_def forget_def drop_resident_def bump_generation_def accounted_def
      dict_simps split: option.splits)

text \<open>The answer to an acquire carries no claim: one that was alone on its engine is released before the caller goes on, so an
  eviction of the engine would unload it without waiting.\<close>

lemma acquired_engine_is_evictable:
  assumes "acquire_end cfg dev op b = Some (Inr (), b')" "s_pc (bg_sys b) op = Done (Grant cl)" "cl_id cl \<notin> c_released (s_coord (bg_sys b))"
    "map_of (c_residents (s_coord (bg_sys b))) (cl_key cl) = Some r" "rm_active r = 1"
  shows "fst (evict_check (cl_key cl) late (s_coord (bg_sys b'))) = EvUnload (rm_child r)" "cl_id cl \<in> c_released (s_coord (bg_sys b'))"
proof -
  obtain tenant where t: "map_of (bg_calls b) op = Some tenant" using assms(1) by (auto simp: acquire_end_def split: option.splits)
  have "s_coord (bg_sys b') = release_claim cl (s_coord (bg_sys b))"
    using assms(1,2) t by (auto simp: acquire_end_def Let_def coord_event_def)
  then show "fst (evict_check (cl_key cl) late (s_coord (bg_sys b'))) = EvUnload (rm_child r)" "cl_id cl \<in> c_released (s_coord (bg_sys b'))"
    using assms(3-5) by (auto simp: release_claim_def Let_def touch_def set_resident_def evict_check_def map_of_dict_upd split: option.splits)
qed

section \<open>Engines that are never measured\<close>

text \<open>\<open>set_child\<close> measures a process on the line after it was spawned.  When the device does not list it yet the reading is zero,
  the estimate stands, and nothing measures it again.  A deferred entry that is or was resident then stays unmaterialized.\<close>

fun unread :: "bridge_event \<Rightarrow> bool" where
  "unread (Spawned i pid m) = (m = None \<or> m = Some 0)"
| "unread e = True"

definition unread_entry :: "resident \<Rightarrow> bool" where
  "unread_entry e = (rm_state e = RESIDENT \<or> rm_state e = DRAINING \<or> 0 < rm_active e \<longrightarrow> \<not> rm_mat e)"

definition raw_ok :: "coord \<Rightarrow> bool" where
  "raw_ok c = (\<forall>k e. map_of (c_residents c) k = Some e \<longrightarrow> unread_entry e)"

lemma raw_okD: "raw_ok c \<Longrightarrow> map_of (c_residents c) k = Some e \<Longrightarrow> unread_entry e"
  by (simp add: raw_ok_def)

lemma raw_same: "raw_ok c \<Longrightarrow> c_residents c' = c_residents c \<Longrightarrow> raw_ok c'"
  by (simp add: raw_ok_def)

lemma raw_set_resident:
  "raw_ok c \<Longrightarrow> (\<And>e. map_of (c_residents c) k = Some e \<Longrightarrow> unread_entry e \<Longrightarrow> unread_entry (f e)) \<Longrightarrow> raw_ok (set_resident k f c)"
  by (auto simp: raw_ok_def set_resident_def map_of_dict_upd split: if_splits)

lemma raw_map:
  "raw_ok c \<Longrightarrow> (\<And>k e. unread_entry e \<Longrightarrow> unread_entry (g k e)) \<Longrightarrow> c_residents c' = map (\<lambda>(k, e). (k, g k e)) (c_residents c) \<Longrightarrow> raw_ok c'"
proof -
  assume raw: "raw_ok c" and g: "\<And>k e. unread_entry e \<Longrightarrow> unread_entry (g k e)" and c': "c_residents c' = map (\<lambda>(k, e). (k, g k e)) (c_residents c)"
  have "map_of (map (\<lambda>(k, e). (k, g k e)) d) k = map_option (g k) (map_of d k)" for d k by (induction d) auto
  then show "raw_ok c'" using raw g c' by (auto simp: raw_ok_def)
qed

lemma raw_delete: "raw_ok c \<Longrightarrow> c_residents c' = AList.delete k (c_residents c) \<Longrightarrow> raw_ok c'"
  by (auto simp: raw_ok_def map_of_delete_dict split: if_splits)

lemma raw_touch: "raw_ok c \<Longrightarrow> raw_ok (touch k c)"
  unfolding touch_def by (rule raw_same[OF raw_set_resident]) (auto simp: unread_entry_def)

lemma raw_grant:
  assumes "grant_claim k op c = Some (cl, c')" "raw_ok c" "\<And>e. map_of (c_residents c) k = Some e \<Longrightarrow> \<not> rm_mat e"
  shows "raw_ok c' \<and> (\<forall>e. map_of (c_residents c') k = Some e \<longrightarrow> \<not> rm_mat e)"
proof -
  let ?c1 = "touch k (set_resident k (\<lambda>r. r\<lparr> rm_active := rm_active r + 1 \<rparr>) c)"
  have same: "c_residents c' = c_residents ?c1" using assms(1) by (auto simp: grant_claim_def Let_def split: option.splits)
  have "raw_ok ?c1" using assms(2,3) by (intro raw_touch raw_set_resident) (auto simp: unread_entry_def)
  moreover have "\<not> rm_mat e" if "map_of (c_residents ?c1) k = Some e" for e
    using that assms(3) by (auto simp: touch_def set_resident_def map_of_dict_upd)
  ultimately show ?thesis using raw_same same by auto
qed

lemma raw_grant_waiters:
  "grant_waiters k ws c = Some c' \<Longrightarrow> raw_ok c \<Longrightarrow> (\<And>e. map_of (c_residents c) k = Some e \<Longrightarrow> \<not> rm_mat e) \<Longrightarrow> raw_ok c'"
proof (induction k ws c rule: grant_waiters.induct)
  case (2 k w ws c)
  then obtain cl c1 where g: "grant_claim k (waiter_op c w) c = Some (cl, c1)"
    and rest: "grant_waiters k ws (assign_disposition (DOutcome (Share cl)) w c1) = Some c'" by (auto split: option.splits)
  have same: "c_residents (assign_disposition (DOutcome (Share cl)) w c1) = c_residents c1" by simp
  show ?case by (rule 2(1)[OF g]) (use raw_grant[OF g 2(3,4)] rest raw_same same in auto)
qed simp

lemma raw_commit:
  assumes "commit cfg dev k op ch m True f3 c = (r, c')" "raw_ok c"
  shows "raw_ok c'"
  using assms(1)
proof (cases rule: commit_cases)
  case (roll r d why)
  have "raw_ok (set_resident k (\<lambda>r. r\<lparr> rm_state := ROLLING_BACK \<rparr>) c)" using assms(2) by (rule raw_set_resident) (auto simp: unread_entry_def)
  then show ?thesis unfolding roll(3) rollback_section_def by (rule raw_same) (simp add: observe_def)
next
  case (commit r e cl b c1 c2 c4)
  have e1: "\<not> rm_mat e" if "map_of (c_residents c1) k = Some e" for e
    using that by (auto simp: commit(7) touch_def set_resident_def map_of_dict_upd)
  have "unread_entry e'" if "map_of (c_residents c1) k' = Some e'" for k' e'
  proof (cases "k' = k")
    case True
    then show ?thesis using e1 that by (auto simp: unread_entry_def)
  next
    case False
    then show ?thesis using that assms(2) by (auto simp: commit(7) touch_def set_resident_def map_of_dict_upd raw_ok_def)
  qed
  then have "raw_ok c1" by (simp add: raw_ok_def)
  note g = raw_grant[OF commit(8) this e1]
  have "raw_ok c4" by (rule raw_grant_waiters[OF commit(9)]) (use g in auto)
  then show ?thesis unfolding commit(10) by (rule raw_same) (simp add: observe_def)
qed (use assms(2) in auto)

lemma raw_evict_step:
  assumes "evict_step k ph late c = (r, c')" "raw_ok c"
  shows "raw_ok c'"
proof (cases ph)
  case EvBegin
  show ?thesis
  proof (cases "map_of (c_residents c) k")
    case (Some e)
    show ?thesis
    proof (cases "rm_state e = RESIDENT")
      case True
      have "raw_ok (set_resident k (\<lambda>e. e\<lparr> rm_state := DRAINING \<rparr>) c)"
        using assms(2) Some True by (intro raw_set_resident) (auto simp: unread_entry_def)
      then show ?thesis using assms EvBegin Some True by (simp add: evict_step_def evict_begin_def)
    qed (use assms EvBegin Some in \<open>simp add: evict_step_def evict_begin_def\<close>)
  qed (use assms EvBegin in \<open>simp add: evict_step_def evict_begin_def\<close>)
next
  case EvWait
  show ?thesis
  proof (cases "map_of (c_residents c) k")
    case (Some e)
    have "raw_ok (set_resident k (\<lambda>e. e\<lparr> rm_state := EVICTING \<rparr>) c)" using assms(2) by (rule raw_set_resident) (auto simp: unread_entry_def)
    moreover have "raw_ok (set_resident k (\<lambda>e. e\<lparr> rm_state := RESIDENT \<rparr>) c)" if "rm_active e \<noteq> 0"
      using assms(2) by (rule raw_set_resident) (use that Some in \<open>auto simp: unread_entry_def\<close>)
    ultimately show ?thesis using assms EvWait Some
      by (cases "rm_active e = 0"; cases late) (auto simp: evict_step_def evict_check_def split: if_splits)
  qed (use assms EvWait in \<open>simp add: evict_step_def evict_check_def\<close>)
next
  case EvFinal
  have "raw_ok (drop_resident k c)" using assms(2) by (rule raw_delete) (simp add: drop_resident_def bump_generation_def)
  then show ?thesis using assms EvFinal by (simp add: evict_step_def)
qed (use assms in \<open>simp add: evict_step_def\<close>)

lemma raw_reserve: "raw_ok c \<Longrightarrow> raw_ok (reserve k est op c)"
  by (auto simp: raw_ok_def reserve_def Let_def map_of_update_dict new_resident_def unread_entry_def split: if_splits)

lemma raw_load_failed: "load_failed k op c = (ws, c') \<Longrightarrow> raw_ok c \<Longrightarrow> raw_ok c'"
proof -
  assume l: "load_failed k op c = (ws, c')" and raw: "raw_ok c"
  have "c_residents c' = c_residents c \<or> c_residents c' = AList.delete k (c_residents c)"
    using l by (auto simp: load_failed_def Let_def bump_generation_def split: option.splits if_splits)
  then show ?thesis using raw_same[OF raw] raw_delete[OF raw] by blast
qed

lemma raw_release: "raw_ok c \<Longrightarrow> raw_ok (release_claim cl c)"
proof -
  assume raw: "raw_ok c"
  let ?c0 = "c\<lparr> c_released := insert (cl_id cl) (c_released c) \<rparr>"
  have "raw_ok ?c0" using raw by (rule raw_same) simp
  then have "raw_ok (touch (cl_key cl) (set_resident (cl_key cl) (\<lambda>r. r\<lparr> rm_active := rm_active r - 1 \<rparr>) ?c0))"
    by (intro raw_touch raw_set_resident) (auto simp: unread_entry_def)
  then show ?thesis using raw \<open>raw_ok ?c0\<close>
    by (auto simp: release_claim_def Let_def elim: raw_same split: option.splits)
qed

lemma raw_job_mark: "job_mark c = Some c' \<Longrightarrow> raw_ok c \<Longrightarrow> raw_ok c'"
  by (auto simp: job_mark_def raw_ok_def map_of_map_vals unread_entry_def split: if_splits)

lemma raw_job_finish: "job_finish j now drained c = (r, c') \<Longrightarrow> raw_ok c \<Longrightarrow> raw_ok c'"
  by (auto simp: job_finish_def raw_ok_def map_of_map_vals unread_entry_def split: if_splits)

text \<open>Nothing is eligible, so no attempt ends in an eviction.\<close>

lemma nothing_eligible:
  assumes "raw_ok c" "distinct (dkeys (c_residents c))"
  shows "eligible_victims k c = []"
proof -
  have "\<not> (rm_state r = RESIDENT \<and> rm_mat r)" if "(k', r) \<in> set (c_residents c)" for k' r
  proof -
    have "map_of (c_residents c) k' = Some r" using that map_of_set_iff[OF assms(2), of k' r] by blast
    then show ?thesis using raw_okD[OF assms(1)] by (auto simp: unread_entry_def)
  qed
  then have none: "filter (\<lambda>(k', r). k' \<noteq> k \<and> rm_state r = RESIDENT \<and> rm_mat r) (c_residents c) = []"
    by (auto simp: filter_empty_conv)
  show ?thesis unfolding eligible_victims_def none by simp
qed

lemma raw_serve:
  assumes "serve_attempt cfg dev op k est n late f1 f2 f3 c = (p, c')" "raw_ok c" "distinct (dkeys (c_residents c))"
  shows "raw_ok c' \<and> (\<forall>n ks ph. p \<noteq> Evicting n ks ph) \<and> (\<forall>ch m d. p \<noteq> Measured ch m d \<and> p \<noteq> Committing ch m d)"
  using assms(1)
proof (cases rule: serve_attempt_cases)
  case (share cl c1 d)
  have res: "c_residents (observe OShare c) = c_residents c" by (simp add: observe_def)
  have "\<not> rm_mat e" if "map_of (c_residents c) k = Some e" for e
    using share(1) that assms(2)
    by (cases rule: stage1_cases) (auto simp: raw_ok_def unread_entry_def)
  then have "raw_ok c1" using raw_grant[OF share(2) raw_same[OF assms(2) res]] res by simp
  then have "raw_ok c'" unfolding share(3) by (rule raw_same) (simp add: log_decision_def)
  then show ?thesis using share by simp
next
  case (evict vs ps d c1)
  have "vs = []" using nothing_eligible[OF assms(2,3)] evict(2) by (simp add: select_victims_def)
  moreover have "vs \<noteq> []" using evict(1,2) by (cases rule: stage1_cases) auto
  ultimately show ?thesis by simp
next
  case (join r w)
  have "c_residents c' = c_residents c" using join(2) by (auto simp: join_load_def Let_def)
  then show ?thesis using join raw_same[OF assms(2)] by auto
next
  case load
  then show ?thesis using raw_reserve[OF assms(2)] by simp
next
  case (stay obs ds)
  have "raw_ok c'" unfolding stay(1) by (rule raw_same[OF assms(2)]) simp
  then show ?thesis using stay(2) by auto
qed

text \<open>The invariant of a run in which no reading at a spawn says anything.\<close>

definition unmeasured :: "sys \<Rightarrow> bool" where
  "unmeasured s = (raw_ok (s_coord s) \<and> (\<forall>op n ks ph. s_pc s op \<noteq> Evicting n ks ph) \<and>
     (\<forall>op ch m. s_pc s op \<noteq> Measured ch m False \<and> s_pc s op \<noteq> Committing ch m False))"


lemma unmeasured_goto:
  assumes "unmeasured s" "raw_ok c'" "\<forall>n ks ph. p \<noteq> Evicting n ks ph" "\<forall>ch m. p \<noteq> Measured ch m False \<and> p \<noteq> Committing ch m False"
  shows "unmeasured (goto op p c' s)"
  using assms by (auto simp: unmeasured_def)

lemma unmeasured_frame [simp]: "unmeasured (s\<lparr> s_gate := g \<rparr>) = unmeasured s" "unmeasured (s\<lparr> s_ctx := x \<rparr>) = unmeasured s"
  by (simp_all add: unmeasured_def)

lemma unmeasured_coord: "unmeasured s \<Longrightarrow> raw_ok c' \<Longrightarrow> unmeasured (s\<lparr> s_coord := c' \<rparr>)"
  by (simp add: unmeasured_def)

lemma unmeasured_step:
  assumes inv: "unmeasured s" and d: "distinct (dkeys (c_residents (s_coord s)))" and st: "tstep cfg dev e s = Some s'"
    and load: "deferred_load e" and child: "\<And>k pid m. e = SetChild k pid m \<Longrightarrow> m = None \<or> m = Some 0"
  shows "unmeasured s'"
proof -
  have raw: "raw_ok (s_coord s)" using inv by (simp add: unmeasured_def)
  have same: "raw_ok c'" if "c_residents c' = c_residents (s_coord s)" for c' using raw_same[OF raw that] .
  have drop: "raw_ok (drop_resident k (s_coord s))" for k
    using raw by (rule raw_delete) (simp add: drop_resident_def bump_generation_def)
  note pcs = inv[unfolded unmeasured_def]
  show ?thesis
  proof (cases e)
    case (Serve op late f1 f2 f3)
    then show ?thesis using st raw_serve[OF _ raw d]
      by (fastforce split: pc.splits prod.splits simp: Let_def intro!: unmeasured_goto[OF inv])
  next
    case (Commit op f3)
    then obtain ch m dfr where pc: "s_pc s op = Committing ch m dfr" using st by (auto split: pc.splits)
    then have "dfr" using pcs by (cases dfr) auto
    then show ?thesis using st Commit pc raw_commit[OF _ raw]
      by (auto split: prod.splits commit_result.splits simp: Let_def intro!: unmeasured_goto[OF inv])
  next
    case (EvictTick op late)
    then show ?thesis using st pcs by (auto split: pc.splits)
  next
    case (JobTick op late now)
    then show ?thesis using st raw raw_evict_step[OF _ raw] raw_job_finish[OF _ raw]
      by (auto split: pc.splits list.splits prod.splits option.splits simp: Let_def drain_scan_def split: if_splits intro!: unmeasured_goto[OF inv])
  next
    case (FailSection op)
    then show ?thesis using st raw_load_failed[OF _ raw]
      by (auto split: pc.splits prod.splits if_splits simp: Let_def intro!: unmeasured_goto[OF inv])
  next
    case (StartJob op j)
    then show ?thesis using st raw raw_job_mark[OF _ raw]
      by (auto split: pc.splits option.splits intro!: unmeasured_goto[OF inv])
  next
    case (LoadReturns op r)
    then show ?thesis using st load raw by (auto split: pc.splits simp: Let_def intro!: unmeasured_goto[OF inv])
  next
    case (SetChild k pid m)
    have "raw_ok (set_child k pid m (s_coord s))"
      unfolding set_child_def by (rule raw_set_resident[OF raw]) (use child[OF SetChild] in \<open>auto simp: Let_def unread_entry_def\<close>)
    then show ?thesis using st SetChild by (auto intro: unmeasured_coord[OF inv])
  next
    case (Forget k)
    then show ?thesis using st raw drop by (auto simp: forget_def intro!: unmeasured_coord[OF inv])
  next
    case (Release op)
    then show ?thesis using st raw_release[OF raw] by (auto split: pc.splits outcome.splits intro!: unmeasured_coord[OF inv])
  next
    case (EndJob j)
    then show ?thesis using st same by (auto simp: end_job_def split: option.splits intro!: unmeasured_coord[OF inv])
  next
    case (Finalize op)
    then show ?thesis using st drop by (auto split: pc.splits intro!: unmeasured_goto[OF inv])
  next
    case (Reconcile op)
    then show ?thesis using st same pcs
      by (auto split: pc.splits simp: reconcile_def intro!: unmeasured_goto[OF inv])
  next
    case (Dispose op)
    have "c_residents (dispose ws d op c) = c_residents c" for ws d c by simp
    then show ?thesis using st Dispose
      by (auto split: pc.splits simp: log_decision_def observe_def intro!: unmeasured_goto[OF inv] same)
  next
    case (Wake op)
    have "c_residents c' = c_residents (s_coord s)" if "await_load cfg w (s_coord s) = (r, c')" for w r c'
      using that by (auto simp: await_load_def Let_def drop_waiter_def split: option.splits if_splits)
    then show ?thesis using st Wake
      by (auto split: pc.splits option.splits prod.splits intro!: unmeasured_goto[OF inv] same)
  qed (use st raw in \<open>auto split: pc.splits option.splits prod.splits if_splits simp: Let_def clear_intent_def intro!: unmeasured_goto[OF inv]\<close>)
qed

lemma init_unmeasured: "unmeasured (init_sys w)"
  by (simp add: unmeasured_def init_sys_def init_coord_def raw_ok_def)

lemma reach_residents_distinct: "reach cfg dev strict s \<Longrightarrow> distinct (dkeys (c_residents (s_coord s)))"
  using wf_acct_distinct[of "ledger_of (s_coord s)"] reach_coord_inv[of cfg dev strict s] by (simp add: coord_inv_def)

interpretation unmeasured_runs: bridge_kept cfg dev False unread "\<lambda>s. reach cfg dev False s \<and> unmeasured s" for cfg dev
proof
  fix s e s'
  assume inv: "reach cfg dev False s \<and> unmeasured s" and st: "tstep cfg dev e s = Some s'" "deferred_load e"
    and child: "\<forall>k pid m. e = SetChild k pid m \<longrightarrow> unread (Spawned k pid m) \<and> event_ok False e s" and start: "\<forall>op k est. e = Start op k est \<longrightarrow> 0 \<le> est"
  have "event_ok False e s" using st(2) child start by (cases e) auto
  then have "reach cfg dev False s'" using inv st(1) by (auto intro: reach_step)
  moreover have "unmeasured s'"
    by (rule unmeasured_step[OF _ reach_residents_distinct st]) (use inv child in auto)
  ultimately show "reach cfg dev False s' \<and> unmeasured s'" by simp
qed

interpretation unmeasured_machine: machine "bridge_step cfg dev" "\<lambda>e b. bridge_ok False e b \<and> unread e"
    "\<lambda>b. reach cfg dev False (bg_sys b) \<and> unmeasured (bg_sys b)" for cfg dev
  using unmeasured_runs.bridge_keeps by unfold_locales blast

text \<open>Claim C36. While no reading at a spawn says anything, which is what a device answers for a process that has just been
  started, no resident engine is ever evicted for another: none is eligible, however idle, no admission ends in an eviction, and
  the estimate of every resident engine is deducted from the free memory for as long as it is resident.\<close>

theorem unmeasured_engines_are_never_evicted:
  assumes "run_events (bridge_step cfg dev) es (init_bridge w) = Some b"
    "guarded (\<lambda>e b. bridge_ok False e b \<and> unread e) (bridge_step cfg dev) es (init_bridge w)"
  shows "eligible_victims k (s_coord (bg_sys b)) = [] \<and> s_pc (bg_sys b) op \<noteq> Evicting n ks ph \<and>
    (\<forall>k e. map_of (c_residents (s_coord (bg_sys b))) k = Some e \<and> rm_state e = RESIDENT \<longrightarrow> unmat_resident e = rm_accounted e)"
proof -
  have "reach cfg dev False (bg_sys b) \<and> unmeasured (bg_sys b)"
    by (rule unmeasured_machine.guarded_inv[OF assms]) (simp add: init_bridge_def reach_init init_unmeasured)
  then show ?thesis using nothing_eligible reach_residents_distinct
    by (auto simp: unmeasured_def unmat_resident_def unread_entry_def dest: raw_okD)
qed

text \<open>Every run of the bridge is a run of the coordinator: its books never promise more than the usable capacity, and while
  a job has the GPU they are empty.\<close>

theorem bridge_keeps_the_books:
  assumes "run_events (bridge_step cfg dev) es (init_bridge w) = Some b" "guarded (bridge_ok True) (bridge_step cfg dev) es (init_bridge w)"
  shows "reach cfg dev True (bg_sys b) \<and> committed (s_coord (bg_sys b)) \<le> usable_capacity cfg dev \<and>
    (c_exclusive (s_coord (bg_sys b)) \<noteq> None \<longrightarrow> c_residents (s_coord (bg_sys b)) = [] \<and> c_reservations (s_coord (bg_sys b)) = [])"
proof -
  have r: "reach cfg dev True (bg_sys b)"
    by (rule bridge_runs.guarded_inv[OF assms]) (simp add: init_bridge_def reach_init)
  then show ?thesis using reach_capacity[OF r] reach_coord_inv[OF r] by (auto simp: coord_inv_def exclusive_ok_def)
qed

section \<open>Runs\<close>

text \<open>A ten-gigabyte device, two engines and the events of one acquire up to its answer.\<close>

definition demo_engine :: engine where
  "demo_engine = \<lparr> en_gpu = True, en_enabled = True, en_idle_timeout = 120, en_ready_wait = 60, en_child = None, en_last_used = None,
     en_wedged = False, en_loading = False \<rparr>"

definition acquire_events :: "op_id \<Rightarrow> string \<Rightarrow> rat \<Rightarrow> rat \<Rightarrow> bridge_event list" where
  "acquire_events op i est free = [SetLoading i True, AcquireBegin op i ''serving'' est, Thread (Serve op False (free * GIB) (free * GIB) (free * GIB)),
     Thread (GateAcquire op), Thread (LoadReturns op (Loaded (Child None) 0)), Thread (Reconcile op), Thread (Commit op (free * GIB)),
     Thread (Dispose op), AcquireEnd op]"

definition both :: "bridge_event list" where
  "both = [Register ''a'' demo_engine, Register ''b'' demo_engine]"

definition bridge_demo :: "bridge_event list \<Rightarrow> (bridge \<Rightarrow> bool) \<Rightarrow> bool" where
  "bridge_demo es P = (case run_events (bridge_step demo_cfg (10 * GIB)) es (init_bridge (\<lambda>_. 0)) of None \<Rightarrow> False | Some b \<Rightarrow> P b)"

definition live :: "string \<Rightarrow> bridge \<Rightarrow> bool" where
  "live i b = (case map_of (bg_engines b) i of None \<Rightarrow> False | Some e \<Rightarrow> engine_resident e)"

text \<open>Claim C37. A reading at a spawn that is small but not zero replaces the estimate: with a device of ten gigabytes two engines
  admitted for six each are resident and running at once, the books account seven in all, and the code's own check finds
  nothing wrong.\<close>

theorem spawn_reading_overcommits:
  "\<exists>es b. run_events (bridge_step demo_cfg (10 * GIB)) es (init_bridge (\<lambda>_. 0)) = Some b \<and>
    guarded (bridge_ok True) (bridge_step demo_cfg (10 * GIB)) es (init_bridge (\<lambda>_. 0)) \<and>
    AcquireBegin ''x'' ''a'' ''serving'' 6 \<in> set es \<and> AcquireBegin ''y'' ''b'' ''serving'' 6 \<in> set es \<and>
    live ''a'' b \<and> live ''b'' b \<and> map_of (bg_marks b) ''a'' = Some ResidentMark \<and> map_of (bg_marks b) ''b'' = Some ResidentMark \<and>
    usable_capacity demo_cfg (10 * GIB) = 10 * GIB \<and> accounted (s_coord (bg_sys b)) = 7 * GIB \<and>
    violations demo_cfg (10 * GIB) (s_coord (bg_sys b)) = []"
proof -
  let ?es = "both @ acquire_events ''x'' ''a'' 6 10 @ [Spawned ''a'' 7 (Some (1 * GIB)), SetLoading ''a'' False] @
    acquire_events ''y'' ''b'' 6 9 @ [Spawned ''b'' 8 (Some 0), SetLoading ''b'' False]"
  have "bridge_demo ?es (\<lambda>b. live ''a'' b \<and> live ''b'' b \<and> map_of (bg_marks b) ''a'' = Some ResidentMark \<and>
      map_of (bg_marks b) ''b'' = Some ResidentMark \<and> accounted (s_coord (bg_sys b)) = 7 * GIB \<and>
      violations demo_cfg (10 * GIB) (s_coord (bg_sys b)) = [])" by code_simp
  then obtain b where b: "run_events (bridge_step demo_cfg (10 * GIB)) ?es (init_bridge (\<lambda>_. 0)) = Some b" "live ''a'' b" "live ''b'' b"
    "map_of (bg_marks b) ''a'' = Some ResidentMark" "map_of (bg_marks b) ''b'' = Some ResidentMark" "accounted (s_coord (bg_sys b)) = 7 * GIB"
    "violations demo_cfg (10 * GIB) (s_coord (bg_sys b)) = []" by (auto simp: bridge_demo_def split: option.splits)
  have "guarded (bridge_ok True) (bridge_step demo_cfg (10 * GIB)) ?es (init_bridge (\<lambda>_. 0))" by code_simp
  moreover have "usable_capacity demo_cfg (10 * GIB) = 10 * GIB" by code_simp
  moreover have "AcquireBegin ''x'' ''a'' ''serving'' 6 \<in> set ?es" "AcquireBegin ''y'' ''b'' ''serving'' 6 \<in> set ?es" by (simp_all add: acquire_events_def)
  ultimately show ?thesis using b by blast
qed

text \<open>An eviction does not read the runtime's answer.  A runtime that is still loading, its lock taken by the loader, refuses to
  unload; the coordinator drops the entry all the same.  The engine runs on, unaccounted, and because its mark stays its next
  acquire is answered without the coordinator.\<close>

theorem busy_engine_is_evicted_from_the_books:
  "\<exists>es b. run_events (bridge_step demo_cfg (10 * GIB)) es (init_bridge (\<lambda>_. 0)) = Some b \<and>
    guarded (bridge_ok True) (bridge_step demo_cfg (10 * GIB)) es (init_bridge (\<lambda>_. 0)) \<and>
    live ''a'' b \<and> map_of (c_residents (s_coord (bg_sys b))) ''a'' = None \<and> accounted (s_coord (bg_sys b)) = 0 \<and>
    acquire_begin demo_cfg (10 * GIB) op ''a'' ''serving'' est b = Some b"
proof -
  let ?es = "both @ acquire_events ''x'' ''a'' 6 10 @ [Spawned ''a'' 7 (Some (6 * GIB)),
    AcquireBegin ''y'' ''b'' ''serving'' 6, Thread (Serve ''y'' False (4 * GIB) (4 * GIB) (4 * GIB)), Thread (EvictTick ''y'' False),
    Thread (EvictTick ''y'' False), UnloadVictim ''y'' False False False, Thread (EvictTick ''y'' False)]"
  have "bridge_demo ?es (\<lambda>b. live ''a'' b \<and> map_of (c_residents (s_coord (bg_sys b))) ''a'' = None \<and>
      accounted (s_coord (bg_sys b)) = 0 \<and> map_of (bg_marks b) ''a'' = Some ResidentMark)" by code_simp
  then obtain b where b: "run_events (bridge_step demo_cfg (10 * GIB)) ?es (init_bridge (\<lambda>_. 0)) = Some b" "live ''a'' b"
    "map_of (c_residents (s_coord (bg_sys b))) ''a'' = None" "accounted (s_coord (bg_sys b)) = 0" "map_of (bg_marks b) ''a'' = Some ResidentMark"
    by (auto simp: bridge_demo_def split: option.splits)
  have "guarded (bridge_ok True) (bridge_step demo_cfg (10 * GIB)) ?es (init_bridge (\<lambda>_. 0))" by code_simp
  then show ?thesis using b by (intro exI[of _ ?es] exI[of _ b]) (simp add: acquire_begin_def)
qed

text \<open>With readings of zero the request for a second engine is refused as busy although the first is idle.\<close>

definition idle_engine_run :: "bridge_event list" where
  "idle_engine_run = both @ acquire_events ''x'' ''a'' 6 10 @ [Spawned ''a'' 7 (Some 0), SetLoading ''a'' False,
     AcquireBegin ''y'' ''b'' ''serving'' 6, Thread (Serve ''y'' False (4 * GIB) (4 * GIB) (4 * GIB))]"

lemma unmeasured_engines_are_never_evicted_witness:
  "\<exists>b e r. run_events (bridge_step demo_cfg (10 * GIB)) idle_engine_run (init_bridge (\<lambda>_. 0)) = Some b \<and>
    map_of (c_residents (s_coord (bg_sys b))) ''a'' = Some e \<and> rm_active e = 0 \<and> rm_state e = RESIDENT \<and>
    s_pc (bg_sys b) ''y'' = Done (Refuse GPU_BUSY r) \<and> eligible_victims ''b'' (s_coord (bg_sys b)) = [] \<and> unmat_resident e = 6 * GIB"
proof -
  have "bridge_demo idle_engine_run (\<lambda>b. (case s_pc (bg_sys b) ''y'' of Done (Refuse GPU_BUSY r) \<Rightarrow> True | _ \<Rightarrow> False) \<and>
      (case map_of (c_residents (s_coord (bg_sys b))) ''a'' of None \<Rightarrow> False
       | Some e \<Rightarrow> rm_active e = 0 \<and> rm_state e = RESIDENT \<and> rm_accounted e = 6 * GIB))" by code_simp
  then obtain b e r where b: "run_events (bridge_step demo_cfg (10 * GIB)) idle_engine_run (init_bridge (\<lambda>_. 0)) = Some b"
    "s_pc (bg_sys b) ''y'' = Done (Refuse GPU_BUSY r)" "map_of (c_residents (s_coord (bg_sys b))) ''a'' = Some e"
    "rm_active e = 0" "rm_state e = RESIDENT" "rm_accounted e = 6 * GIB"
    by (auto simp: bridge_demo_def split: option.splits pc.splits outcome.splits refuse_code.splits)
  have "guarded (\<lambda>e b. bridge_ok False e b \<and> unread e) (bridge_step demo_cfg (10 * GIB)) idle_engine_run (init_bridge (\<lambda>_. 0))" by code_simp
  note never = unmeasured_engines_are_never_evicted[OF b(1) this, of "''b''"]
  show ?thesis using never b by metis
qed

lemma bridge_keeps_the_books_witness:
  "\<exists>b. run_events (bridge_step demo_cfg (10 * GIB)) idle_engine_run (init_bridge (\<lambda>_. 0)) = Some b \<and>
    committed (s_coord (bg_sys b)) \<le> usable_capacity demo_cfg (10 * GIB)"
proof -
  have "bridge_demo idle_engine_run (\<lambda>b. True)" by code_simp
  then obtain b where b: "run_events (bridge_step demo_cfg (10 * GIB)) idle_engine_run (init_bridge (\<lambda>_. 0)) = Some b"
    by (auto simp: bridge_demo_def split: option.splits)
  have "guarded (bridge_ok True) (bridge_step demo_cfg (10 * GIB)) idle_engine_run (init_bridge (\<lambda>_. 0))" by code_simp
  from bridge_keeps_the_books[OF b this] b show ?thesis by blast
qed

end
