(* ===== verification/BrokerRequests.thy ===== *)
theory BrokerRequests
  imports MeteringOutbox EvalGate Json
begin

text \<open>
  \<open>gateway/app/routers/broker_openai.py\<close>: the tenants' inference routes over the gateway's metering.  \<open>_Meter\<close> is a context
  manager: entering reserves, leaving settles, and a request in between abandons its reservation or finishes it.  The serving
  children, the clock and the outcome of every store call are arguments; an exception that no route raises itself, a
  cancellation among them, is \<open>Raised\<close>.
\<close>

section \<open>The meter\<close>

record req_meter =
  mt_op :: string
  mt_tenant :: string
  mt_name :: string
  mt_modality :: string
  mt_est :: "rat option"
  mt_started :: "rat option"
  mt_gpu :: rat
  mt_settled :: "(settle_result \<times> rat) option"
  mt_transferred :: bool

text \<open>Beside the gate: the counter of settled seconds by modality and the counted requests by modality and status.\<close>

record broker =
  bk_gate :: gate
  bk_meter :: req_meter
  bk_seconds :: "(string, rat) dict"
  bk_requests :: "(string \<times> string) list"

datatype breq_exn = Refused refusal | Raised

text \<open>A store call has no connection, or runs at a time of the database's clock.\<close>

datatype reserve_attempt = NoConn | Call outcome rat

record breq_env =
  be_trunc :: "string \<Rightarrow> rat \<Rightarrow> rat"
  be_default :: rat
  be_first :: reserve_attempt
  be_retry :: reserve_attempt
  be_close :: outcome
  be_enter :: rat
  be_done :: rat
  be_exit :: rat
  be_quota :: "rat option"
  be_clock :: int

definition new_meter :: "string \<Rightarrow> string \<Rightarrow> string \<Rightarrow> string \<Rightarrow> rat option \<Rightarrow> req_meter" where
  "new_meter op tenant name modality est = \<lparr> mt_op = op, mt_tenant = tenant, mt_name = name, mt_modality = modality, mt_est = est,
     mt_started = None, mt_gpu = 0, mt_settled = None, mt_transferred = False \<rparr>"

text \<open>One call of the store's \<open>reserve\<close>, and what the caller sees of it.\<close>

definition call_reserve :: "(string \<Rightarrow> rat \<Rightarrow> rat) \<Rightarrow> request \<Rightarrow> reserve_attempt \<Rightarrow> gate \<Rightarrow> attempt \<times> gate" where
  "call_reserve trunc q call g = (case call of
      NoConn \<Rightarrow> (NoConnection, g)
    | Call out now \<Rightarrow> (case reserve trunc q now (ga_store g) of (r, m) \<Rightarrow>
        (case out of Works \<Rightarrow> (Answers r, g\<lparr> ga_store := m \<rparr>) | FailsBefore \<Rightarrow> (Breaks, g) | FailsAfter \<Rightarrow> (Breaks, g\<lparr> ga_store := m \<rparr>))))"

definition meter_request :: "breq_env \<Rightarrow> req_meter \<Rightarrow> request" where
  "meter_request env m = \<lparr> rq_op = mt_op m, rq_tenant = mt_tenant m, rq_est = (case mt_est m of None \<Rightarrow> be_default env | Some x \<Rightarrow> x),
     rq_kind = ''inference'', rq_modality = mt_modality m, rq_default = None \<rparr>"

text \<open>\<open>__enter__\<close>: the reservation, retried once when the first call broke.\<close>

definition meter_enter :: "breq_env \<Rightarrow> (broker, breq_exn, unit) comp" where
  "meter_enter env b =
     (let q = meter_request env (bk_meter b);
          (first, g1) = call_reserve (be_trunc env) q (be_first env) (bk_gate b);
          (retry, g2) = (if first \<in> {Breaks, Answers (Inl Unrecorded)} then call_reserve (be_trunc env) q (be_retry env) g1 else (NoConnection, g1))
      in case reserve_or_refuse first retry of
           Inl r \<Rightarrow> (Inl (Refused r), b\<lparr> bk_gate := g2 \<rparr>)
         | Inr _ \<Rightarrow> (Inr (), b\<lparr> bk_gate := g2, bk_meter := (bk_meter b)\<lparr> mt_started := Some (be_enter env) \<rparr> \<rparr>))"

text \<open>\<open>elapsed\<close>: \<open>self.started or time.monotonic()\<close>, so that a start at zero counts as none.\<close>

definition elapsed :: "rat \<Rightarrow> req_meter \<Rightarrow> rat" where
  "elapsed now m = max 0 (now - (case mt_started m of None \<Rightarrow> now | Some s \<Rightarrow> if s = 0 then now else s))"

definition transfer :: "(broker, breq_exn, unit) comp" where
  "transfer = modify (\<lambda>b. b\<lparr> bk_meter := (bk_meter b)\<lparr> mt_transferred := True \<rparr> \<rparr>)"

text \<open>\<open>finish\<close> settles once; a charge the store declined is not counted.\<close>

definition meter_finish :: "outcome \<Rightarrow> rat \<Rightarrow> (broker, breq_exn, unit) comp" where
  "meter_finish out secs b = (let m = bk_meter b
     in if mt_settled m \<noteq> None then (Inr (), b)
        else (case gw_settle (mt_op m) secs out (bk_gate b) of (r, g) \<Rightarrow>
          (Inr (), b\<lparr> bk_gate := g, bk_meter := m\<lparr> mt_gpu := secs, mt_settled := Some (r, secs) \<rparr>,
             bk_seconds := (if r = Dropped then bk_seconds b
               else AList.update (mt_modality m) ((case map_of (bk_seconds b) (mt_modality m) of None \<Rightarrow> 0 | Some x \<Rightarrow> x) + secs) (bk_seconds b)) \<rparr>)))"

definition abandon :: "outcome \<Rightarrow> (broker, breq_exn, unit) comp" where
  "abandon out b = (let m = bk_meter b
     in if mt_settled m \<noteq> None then (Inr (), b)
        else (Inr (), b\<lparr> bk_gate := gw_release (mt_op m) out (bk_gate b), bk_meter := m\<lparr> mt_settled := Some (Charged, 0) \<rparr> \<rparr>))"

definition meter_exit :: "breq_env \<Rightarrow> bool \<Rightarrow> (broker, breq_exn, unit) comp" where
  "meter_exit env failed = seq (gets bk_meter) (\<lambda>m.
     if failed \<and> mt_started m = None then ret ()
     else if failed then meter_finish (be_close env) (elapsed (be_exit env) m)
     else if mt_transferred m then ret ()
     else if mt_settled m = None then meter_finish (be_close env) (elapsed (be_exit env) m)
     else ret ())"

text \<open>\<open>with meter: body\<close>: an exception of entering is not seen by leaving, every other one is passed on.\<close>

definition with_meter :: "breq_env \<Rightarrow> (broker, breq_exn, 'a) comp \<Rightarrow> (broker, breq_exn, 'a) comp" where
  "with_meter env body = seq (meter_enter env) (\<lambda>_ b. (case body b of
      (Inl x, b') \<Rightarrow> (Inl x, snd (meter_exit env True b')) | (Inr a, b') \<Rightarrow> (Inr a, snd (meter_exit env False b'))))"

text \<open>\<open>headers\<close>, before the numbers are formatted; the quota read degrades to nothing.\<close>

record meter_headers =
  mh_remaining :: "rat option"
  mh_seconds :: "rat option"
  mh_tenant :: string

definition quota_remaining :: "breq_env \<Rightarrow> broker \<Rightarrow> rat option" where
  "quota_remaining env b = Option.bind (be_quota env)
     (\<lambda>now. po_remaining (consumption (be_trunc env) (mt_tenant (bk_meter b)) None now (ga_store (bk_gate b))))"

definition headers :: "breq_env \<Rightarrow> bool \<Rightarrow> broker \<Rightarrow> meter_headers" where
  "headers env streaming b = \<lparr> mh_remaining = quota_remaining env b,
     mh_seconds = (if streaming then None else Some (mt_gpu (bk_meter b))), mh_tenant = mt_name (bk_meter b) \<rparr>"

section \<open>Answers of the serving children\<close>

text \<open>\<open>_map_agent_refusal\<close>.\<close>

definition map_agent_refusal :: "nat \<Rightarrow> refusal" where
  "map_agent_refusal status = (if status = 409 \<or> status = 503 then GpuBusy else if status = 507 then GpuBusy
     else if status = 413 then ModelTooLarge else StoreUnavailable)"

text \<open>\<open>_post\<close>: the client's exception, another one, or an answer with its parsed body, if it parses.\<close>

datatype child_reply = Unreachable | Interrupted | Reply nat "json option"

fun post :: "child_reply \<Rightarrow> (broker, breq_exn, nat \<times> json option) comp" where
  "post Unreachable = throw (Refused StoreUnavailable)"
| "post Interrupted = throw Raised"
| "post (Reply status body) = ret (status, body)"

definition count_request :: "string \<Rightarrow> string \<Rightarrow> (broker, breq_exn, unit) comp" where
  "count_request label status = modify (\<lambda>b. b\<lparr> bk_requests := bk_requests b @ [(label, status)] \<rparr>)"

text \<open>What the four routes that do not stream do inside \<open>with meter\<close>: \<open>ready\<close> is what a route computes from the parsed body
  before it settles, \<open>build\<close> the answer it builds afterwards, each nothing when it raises.\<close>

definition request_body :: "breq_env \<Rightarrow> string \<Rightarrow> child_reply \<Rightarrow> (json \<Rightarrow> 'v option) \<Rightarrow> ('v \<Rightarrow> req_meter \<Rightarrow> json option) \<Rightarrow> (broker, breq_exn, json \<times> meter_headers) comp" where
  "request_body env label reply ready build = seq (post reply) (\<lambda>(status, body).
        if status \<noteq> 200 then seq (abandon (be_close env)) (\<lambda>_. seq (count_request label ''refused'')
          (\<lambda>_. throw (Refused (map_agent_refusal status))))
        else seq (of_option Raised (Option.bind body ready)) (\<lambda>v.
          seq (gets (\<lambda>b. elapsed (be_done env) (bk_meter b))) (\<lambda>secs. seq (meter_finish (be_close env) secs) (\<lambda>_.
          seq (count_request label ''ok'') (\<lambda>_. seq (gets bk_meter) (\<lambda>m. seq (of_option Raised (build v m)) (\<lambda>answer.
          seq (gets (headers env False)) (\<lambda>h. ret (answer, h)))))))))"

definition serve_request :: "breq_env \<Rightarrow> string \<Rightarrow> child_reply \<Rightarrow> (json \<Rightarrow> 'v option) \<Rightarrow> ('v \<Rightarrow> req_meter \<Rightarrow> json option)
    \<Rightarrow> (broker, breq_exn, json \<times> meter_headers) comp" where
  "serve_request env label reply ready build = with_meter env (request_body env label reply ready build)"

section \<open>Routes\<close>

definition jget_default :: "json \<Rightarrow> bag \<Rightarrow> string \<Rightarrow> json" where
  "jget_default d p k = (case map_of p k of None \<Rightarrow> d | Some v \<Rightarrow> v)"

fun chat_answer :: "string \<Rightarrow> int \<Rightarrow> json \<Rightarrow> req_meter \<Rightarrow> json option" where
  "chat_answer model clock (JObj p) m = Some (JObj
     [(''id'', JStr (mt_op m)), (''object'', JStr ''chat.completion''), (''created'', JInt clock),
      (''model'', jor (jget p ''serving_model'') (JStr model)),
      (''choices'', JList [JObj [(''index'', JInt 0), (''finish_reason'', JStr ''stop''),
         (''message'', JObj [(''role'', JStr ''assistant''),
            (''content'', jor (jor (jget p ''completion'') (jget p ''text'')) (JStr []))])]]),
      (''usage'', JObj [(''prompt_tokens'', jget_default (JInt 0) p ''prompt_tokens''), (''completion_tokens'', jget_default (JInt 0) p ''completion_tokens''),
         (''total_tokens'', jget_default (JInt 0) p ''total_tokens''), (''gpu_seconds'', JFloat (mt_gpu m))])])"
| "chat_answer model clock _ m = None"

text \<open>\<open>_flatten\<close>: role-tagged turns, the system's untagged, and the open turn of the assistant.\<close>

fun join_lines :: "string list \<Rightarrow> string" where
  "join_lines [] = []"
| "join_lines [p] = p"
| "join_lines (p # ps) = p @ [CHR 0x0A] @ join_lines ps"

definition turn :: "string \<times> string \<Rightarrow> string" where
  "turn m = (case m of (role, content) \<Rightarrow>
     (let r = strip (if role = [] then ''user'' else role) in if r = ''system'' then content else r @ '': '' @ content))"

definition flatten :: "(string \<times> string) list \<Rightarrow> string" where
  "flatten ms = join_lines (filter (\<lambda>p. p \<noteq> []) (map turn ms @ [''assistant:'']))"

definition chat_completions :: "breq_env \<Rightarrow> string \<Rightarrow> string \<Rightarrow> string \<Rightarrow> (string \<times> string) list \<Rightarrow> string \<Rightarrow> (string \<Rightarrow> child_reply)
    \<Rightarrow> (broker, breq_exn, json \<times> meter_headers) comp" where
  "chat_completions env op tenant name messages model infer =
     (if messages = [] then throw (Refused Forbidden)
      else seq (modify (\<lambda>b. b\<lparr> bk_meter := new_meter op tenant name ''chat'' None \<rparr>)) (\<lambda>_.
        serve_request env ''chat'' (infer (flatten messages)) Some (chat_answer model (be_clock env))))"

text \<open>\<open>embeddings\<close>: a body that is an object carries its vectors; what is then not a sequence cannot be enumerated.\<close>

fun vectors_of :: "json \<Rightarrow> json option" where
  "vectors_of (JObj p) = Some (jor (jget p ''vectors'') (JList []))"
| "vectors_of v = Some v"

fun items_of :: "json \<Rightarrow> json list option" where
  "items_of (JList vs) = Some vs"
| "items_of (JStr s) = Some (map (\<lambda>c. JStr [c]) s)"
| "items_of (JObj p) = Some (map (\<lambda>(k, _). JStr k) p)"
| "items_of _ = None"

definition embeddings_answer :: "string \<Rightarrow> json \<Rightarrow> req_meter \<Rightarrow> json option" where
  "embeddings_answer model vs m = map_option (\<lambda>is. JObj [(''object'', JStr ''list''), (''model'', JStr (if model = [] then ''embed'' else model)),
     (''data'', JList (map (\<lambda>(i, v). JObj [(''object'', JStr ''embedding''), (''index'', JInt (int i)), (''embedding'', v)]) (enumerate 0 is))),
     (''usage'', JObj [(''prompt_tokens'', JInt 0), (''total_tokens'', JInt 0), (''gpu_seconds'', JFloat (mt_gpu m))])]) (items_of vs)"

definition embeddings :: "breq_env \<Rightarrow> string \<Rightarrow> string \<Rightarrow> string \<Rightarrow> string list \<Rightarrow> string \<Rightarrow> (string list \<Rightarrow> child_reply)
    \<Rightarrow> (broker, breq_exn, json \<times> meter_headers) comp" where
  "embeddings env op tenant name texts model child =
     (if texts = [] then throw (Refused Forbidden)
      else seq (modify (\<lambda>b. b\<lparr> bk_meter := new_meter op tenant name ''embeddings'' (Some 1) \<rparr>)) (\<lambda>_.
        serve_request env ''embeddings'' (child texts) vectors_of (embeddings_answer model)))"

text \<open>\<open>transcriptions\<close>: a multipart form with its file in base64, or a JSON body.\<close>

datatype audio = Form "string option" | Body json

fun audio_of :: "audio \<Rightarrow> breq_exn + json" where
  "audio_of (Form None) = Inl (Refused Forbidden)"
| "audio_of (Form (Some file)) = Inr (JStr file)"
| "audio_of (Body (JObj p)) = (let a = jor (jor (jget p ''audio_b64'') (jget p ''file'')) (JStr []) in if truthy a then Inr a else Inl (Refused Forbidden))"
| "audio_of (Body _) = Inl Raised"

fun text_answer :: "json \<Rightarrow> req_meter \<Rightarrow> json option" where
  "text_answer (JObj p) m = Some (JObj [(''text'', jget_default (JStr []) p ''text'')])"
| "text_answer _ m = None"

definition transcriptions :: "breq_env \<Rightarrow> string \<Rightarrow> string \<Rightarrow> string \<Rightarrow> audio \<Rightarrow> (json \<Rightarrow> child_reply)
    \<Rightarrow> (broker, breq_exn, json \<times> meter_headers) comp" where
  "transcriptions env op tenant name audio transcribe = (case audio_of audio of
      Inl x \<Rightarrow> throw x
    | Inr a \<Rightarrow> seq (modify (\<lambda>b. b\<lparr> bk_meter := new_meter op tenant name ''asr'' None \<rparr>)) (\<lambda>_.
        serve_request env ''asr'' (transcribe a) Some text_answer))"

fun vision_answer :: "string \<Rightarrow> json \<Rightarrow> req_meter \<Rightarrow> json option" where
  "vision_answer task (JObj p) m = Some (JObj [if task = ''classify'' then (''labels'', jor (jor (jget p ''labels'') (jget p ''predictions'')) (JList []))
     else (''objects'', jor (jor (jget p ''objects'') (jget p ''detections'')) (JList []))])"
| "vision_answer task _ m = None"

definition vision :: "breq_env \<Rightarrow> string \<Rightarrow> string \<Rightarrow> string \<Rightarrow> string \<Rightarrow> string \<Rightarrow> (string \<Rightarrow> string \<Rightarrow> child_reply)
    \<Rightarrow> (broker, breq_exn, json \<times> meter_headers) comp" where
  "vision env op tenant name task picture bento =
     (if task \<notin> {''classify'', ''detect''} then throw (Refused NotFound)
      else if picture = [] then throw (Refused Forbidden)
      else seq (modify (\<lambda>b. b\<lparr> bk_meter := new_meter op tenant name (''vision.'' @ task) None \<rparr>)) (\<lambda>_.
        serve_request env ''vision'' (bento task picture) Some (vision_answer task)))"

section \<open>Streams\<close>

text \<open>\<open>_delta\<close>: the text of one upstream line, raw or JSON; \<open>parse\<close> is the parser, nothing where an access raises.\<close>

fun first_delta :: "json \<Rightarrow> json option" where
  "first_delta (JList (JObj c # _)) = (case jget_default (JObj []) c ''delta'' of JObj d \<Rightarrow> Some (jget d ''content'') | _ \<Rightarrow> None)"
| "first_delta _ = None"

definition delta :: "(string \<Rightarrow> json option) \<Rightarrow> string \<Rightarrow> json option" where
  "delta parse chunk = (let line = strip (if take 5 chunk = ''data:'' then drop 5 chunk else chunk)
     in if line = [] \<or> line = ''[DONE]'' then Some (JStr [])
        else if hd line \<noteq> CHR 0x7B then Some (JStr line)
        else (case parse line of
            Some (JObj p) \<Rightarrow> (let v = jor (jor (jget p ''token'') (jget p ''text'')) (jget p ''content'')
               in if truthy v then Some v
                  else map_option (\<lambda>d. jor d (JStr [])) (first_delta (jor (jget p ''choices'') (JList [JObj []]))))
          | _ \<Rightarrow> Some (JStr line)))"

datatype item = ErrorItem bool | ChunkItem json | UsageItem rat "rat option" | DoneItem

text \<open>The upstream stream: it cannot be opened, or turns the request away (and its text can be read, or not), or is open with
  its lines and ends by itself or breaks.\<close>

datatype upstream = ConnectFails | TurnedAway nat bool | Streams "string list" bool

fun chunk_items :: "(string \<Rightarrow> json option) \<Rightarrow> string list \<Rightarrow> item list \<times> bool" where
  "chunk_items parse [] = ([], False)"
| "chunk_items parse (l # ls) = (if l = [] then chunk_items parse ls
     else case delta parse l of None \<Rightarrow> ([], True)
       | Some d \<Rightarrow> (case chunk_items parse ls of (is, raised) \<Rightarrow> (ChunkItem d # is, raised)))"

text \<open>What the generator yields before its \<open>finally\<close>, whether it was refused before execution, the status it counts, and
  whether it raises.\<close>

fun stream_plan :: "(string \<Rightarrow> json option) \<Rightarrow> upstream \<Rightarrow> item list \<times> bool \<times> string \<times> bool" where
  "stream_plan parse ConnectFails = ([], False, ''refused'', True)"
| "stream_plan parse (TurnedAway status readable) =
     (if readable then ([ErrorItem (status \<in> {409, 503, 507})], True, ''refused'', False) else ([], False, ''refused'', True))"
| "stream_plan parse (Streams ls ends) = (case chunk_items parse ls of (is, raised) \<Rightarrow> (is, False, ''ok'', raised \<or> \<not> ends))"

definition round3 :: "rat \<Rightarrow> rat" where
  "round3 x = of_int (round_even (x * 1000)) / 1000"

text \<open>\<open>_chat_stream\<close> up to the response: the settlement is handed to the generator.\<close>

definition chat_stream :: "breq_env \<Rightarrow> string \<Rightarrow> string \<Rightarrow> string \<Rightarrow> (string \<times> string) list \<Rightarrow> (broker, breq_exn, meter_headers) comp" where
  "chat_stream env op tenant name messages =
     (if messages = [] then throw (Refused Forbidden)
      else seq (modify (\<lambda>b. b\<lparr> bk_meter := new_meter op tenant name ''chat'' None \<rparr>)) (\<lambda>_.
        with_meter env (seq transfer (\<lambda>_. gets (headers env True)))))"

text \<open>The generator, closed by its consumer at a yield or never: the items it hands out and whether it came to its end.  Its
  \<open>finally\<close> settles or abandons whatever happened, and counts the request only when its own two items were taken.\<close>

definition stream_run :: "breq_env \<Rightarrow> (string \<Rightarrow> json option) \<Rightarrow> upstream \<Rightarrow> nat option \<Rightarrow> broker \<Rightarrow> (item list \<times> bool) \<times> broker" where
  "stream_run env parse up stop b =
     (case stream_plan parse up of (is, refused, status, raises) \<Rightarrow>
       (let b1 = snd (if refused then abandon (be_close env) b
              else meter_finish (be_close env) (elapsed (be_exit env) (bk_meter b)) b);
            all = is @ [UsageItem (round3 (mt_gpu (bk_meter b1))) (quota_remaining env b1), DoneItem]
        in case stop of
             Some n \<Rightarrow> if n < length all then ((take (n + 1) all, False), b1) else ((all, True), snd (count_request ''chat'' status b1))
           | None \<Rightarrow> ((all, True), snd (count_request ''chat'' status b1))))"

section \<open>Every reservation is closed once\<close>

lemma reserve_result:
  assumes "reserve trunc q now m = (r, m')"
  obtains (refused) e where "r = Inl e" "m' = m"
    | (granted) v where "r = Inr v" "m' = m\<lparr> ms_resv := ms_resv m @ [(rq_op q, v)] \<rparr>" "map_of (ms_resv m) (rq_op q) = None"
      "rv_state v = Reserved" "rv_tenant v = rq_tenant q" "rv_kind v = rq_kind q" "rv_modality v = rq_modality q" "rv_est v = rq_est q"
  using assms by (auto simp: reserve_def reserve_insert_def reserve_answer_def map_add_def split: option.splits sum.splits if_splits prod.splits)

text \<open>A granted entry has put one open reservation of the request into the store, and nothing else.\<close>

lemma call_reserve_store: "call_reserve trunc q call g = (a, g') \<Longrightarrow> g' = g\<lparr> ga_store := ga_store g' \<rparr>"
  by (auto simp: call_reserve_def split: reserve_attempt.splits prod.splits outcome.splits)

lemma call_reserve_answer:
  assumes "call_reserve trunc q call g = (Answers (Inr v), g')"
  shows "ga_store g' = (ga_store g)\<lparr> ms_resv := ms_resv (ga_store g) @ [(rq_op q, v)] \<rparr> \<and> map_of (ms_resv (ga_store g)) (rq_op q) = None \<and>
    rv_state v = Reserved \<and> rv_tenant v = rq_tenant q \<and> rv_kind v = rq_kind q \<and> rv_modality v = rq_modality q \<and> rv_est v = rq_est q"
  using assms by (auto simp: call_reserve_def split: reserve_attempt.splits prod.splits outcome.splits elim: reserve_result)

lemma call_reserve_other:
  assumes "call_reserve trunc q call g = (a, g')" "a \<in> {Breaks, Answers (Inl Unrecorded)}"
  shows "g' = g \<or> map_of (ms_resv (ga_store g')) (rq_op q) \<noteq> None"
proof -
  have "ga_store g' = ga_store g \<or> map_of (ms_resv (ga_store g')) (rq_op q) \<noteq> None"
    using assms by (auto simp: call_reserve_def map_add_def split: reserve_attempt.splits prod.splits outcome.splits elim!: reserve_result)
  then show ?thesis using call_reserve_store[OF assms(1)] by (metis gate.surjective gate.update_convs(1))
qed

definition opened :: "broker \<Rightarrow> resv \<Rightarrow> broker \<Rightarrow> bool" where
  "opened b v b' = (map_of (ms_resv (ga_store (bk_gate b))) (mt_op (bk_meter b)) = None \<and> rv_state v = Reserved \<and>
     rv_tenant v = mt_tenant (bk_meter b) \<and> rv_kind v = ''inference'' \<and> rv_modality v = mt_modality (bk_meter b) \<and>
     bk_gate b' = (bk_gate b)\<lparr> ga_store := (ga_store (bk_gate b))\<lparr> ms_resv := ms_resv (ga_store (bk_gate b)) @ [(mt_op (bk_meter b), v)] \<rparr> \<rparr>)"

lemma reserve_or_refuse_granted:
  assumes "reserve_or_refuse a1 a2 = Inr v"
  obtains (first) "a1 = Answers (Inr v)" | (retry) "a1 \<in> {Breaks, Answers (Inl Unrecorded)}" "a2 = Answers (Inr v)"
  using assms by (cases "(a1, a2)" rule: reserve_or_refuse.cases; auto; cases a2 rule: second_answer.cases; auto)

lemma meter_enter_granted:
  assumes "meter_enter env b = (Inr (), b')"
  obtains v where "opened b v b'" "b' = b\<lparr> bk_gate := bk_gate b', bk_meter := (bk_meter b)\<lparr> mt_started := Some (be_enter env) \<rparr> \<rparr>"
proof -
  let ?q = "meter_request env (bk_meter b)"
  obtain a1 g1 where c1: "call_reserve (be_trunc env) ?q (be_first env) (bk_gate b) = (a1, g1)" by force
  obtain a2 g2 where c2: "(if a1 \<in> {Breaks, Answers (Inl Unrecorded)} then call_reserve (be_trunc env) ?q (be_retry env) g1 else (NoConnection, g1)) = (a2, g2)" by force
  obtain v where v: "reserve_or_refuse a1 a2 = Inr v" and b': "b' = b\<lparr> bk_gate := g2, bk_meter := (bk_meter b)\<lparr> mt_started := Some (be_enter env) \<rparr> \<rparr>"
    using assms c1 c2 by (auto simp: meter_enter_def Let_def split: sum.splits)
  have "opened b v b'"
    using v
  proof (cases rule: reserve_or_refuse_granted)
    case first
    then show ?thesis using call_reserve_answer[of "be_trunc env" ?q "be_first env" "bk_gate b" v g1] call_reserve_store[OF c1] c1 c2 b'
      by (auto simp: opened_def meter_request_def)
  next
    case retry
    then have c2: "call_reserve (be_trunc env) ?q (be_retry env) g1 = (Answers (Inr v), g2)" using c2 by auto
    have "g1 = bk_gate b" using call_reserve_other[OF c1 retry(1)] call_reserve_answer[OF c2] by auto
    then show ?thesis using call_reserve_answer[OF c2] call_reserve_store[OF c2] b' by (auto simp: opened_def meter_request_def)
  qed
  then show thesis by (rule that) (use b' in simp)
qed

lemma elapsed_nonneg [simp]: "0 \<le> elapsed now m"
  by (simp add: elapsed_def)

text \<open>Closing an open reservation: the log keeps what the store may not have, and a store that works has the row and its
  charge.\<close>

lemma gw_settle_closes:
  assumes "map_of (ms_resv (ga_store g)) op = Some v" "rv_state v = Reserved" "0 \<le> secs"
  shows "closed_op op (ga_store (snd (gw_settle op secs out g))) \<or> op \<in> wal_ops (ga_wal (snd (gw_settle op secs out g)))"
    "out = Works \<Longrightarrow> ga_store (snd (gw_settle op secs out g)) = settle_write op secs v (ga_store g)"
    "out = Works \<Longrightarrow> closed_op op (ga_store (snd (gw_settle op secs out g)))"
  using assms
  by (auto simp: gw_settle_def settle_def settle_read_def settle_write_resv Let_def closed_op_def close_resv_def wal_ops_append
      split: outcome.splits)

lemma gw_release_closes:
  assumes "map_of (ms_resv (ga_store g)) op = Some v" "rv_state v = Reserved"
  shows "closed_op op (ga_store (gw_release op out g)) \<or> op \<in> wal_ops (ga_wal (gw_release op out g))"
    "out = Works \<Longrightarrow> ga_store (gw_release op out g) = release op (ga_store g)"
    "out = Works \<Longrightarrow> closed_op op (ga_store (gw_release op out g))"
  using assms
  by (auto simp: gw_release_def release_resv Let_def closed_op_def close_resv_def wal_ops_append split: outcome.splits)

text \<open>The operation of \<open>b\<close> with its reservation \<open>v\<close> is closed in \<open>b'\<close> with a charge or without one.\<close>

definition closed_with :: "broker \<Rightarrow> resv \<Rightarrow> outcome \<Rightarrow> rat option \<Rightarrow> broker \<Rightarrow> bool" where
  "closed_with b v out price b' = (let op = mt_op (bk_meter b); m = ga_store (bk_gate b); g' = bk_gate b'
     in (closed_op op (ga_store g') \<or> op \<in> wal_ops (ga_wal g')) \<and>
        (out = Works \<longrightarrow> closed_op op (ga_store g') \<and> ms_ledger (ga_store g') = ms_ledger m @ (case price of None \<Rightarrow> []
           | Some secs \<Rightarrow> [(op, \<lparr> us_tenant = rv_tenant v, us_kind = rv_kind v, us_modality = rv_modality v, us_seconds = secs, us_window = rv_window v \<rparr>)])))"

lemma openedD:
  assumes "opened b v b1" "books (ga_store (bk_gate b))"
  shows "map_of (ms_resv (ga_store (bk_gate b1))) (mt_op (bk_meter b)) = Some v" "rv_state v = Reserved"
    "ms_ledger (ga_store (bk_gate b1)) = ms_ledger (ga_store (bk_gate b))" "map_of (ms_ledger (ga_store (bk_gate b))) (mt_op (bk_meter b)) = None"
  using assms booksD(3)[OF assms(2), of "mt_op (bk_meter b)"] by (auto simp: opened_def map_add_def)

lemma finish_closes:
  assumes "opened b v b1" "books (ga_store (bk_gate b))" "bk_gate b2 = bk_gate b1" "mt_op (bk_meter b2) = mt_op (bk_meter b)"
    "mt_settled (bk_meter b2) = None" "0 \<le> secs"
  shows "closed_with b v out (Some secs) (snd (meter_finish out secs b2))" "mt_settled (bk_meter (snd (meter_finish out secs b2))) \<noteq> None"
    "mt_gpu (bk_meter (snd (meter_finish out secs b2))) = secs"
proof -
  note d = openedD[OF assms(1,2)] and g = gw_settle_closes[OF openedD(1,2)[OF assms(1,2)] assms(6)]
  obtain r g' where gw: "gw_settle (mt_op (bk_meter b)) secs out (bk_gate b1) = (r, g')" by force
  show "closed_with b v out (Some secs) (snd (meter_finish out secs b2))"
    using g(1)[of out] g(2,3)[of out] gw d(3,4) assms(3-5) by (auto simp: closed_with_def Let_def meter_finish_def settle_write_def)
qed (use assms in \<open>auto simp: meter_finish_def Let_def split: prod.splits\<close>)

lemma abandon_closes:
  assumes "opened b v b1" "books (ga_store (bk_gate b))" "bk_gate b2 = bk_gate b1" "mt_op (bk_meter b2) = mt_op (bk_meter b)"
    "mt_settled (bk_meter b2) = None"
  shows "closed_with b v out None (snd (abandon out b2))" "mt_settled (bk_meter (snd (abandon out b2))) \<noteq> None"
  using gw_release_closes[OF openedD(1,2)[OF assms(1,2)], of out] openedD(3)[OF assms(1,2)] assms(3-5)
  by (auto simp: closed_with_def Let_def abandon_def release_def)

lemma closed_with_gate: "bk_gate b1 = bk_gate b2 \<Longrightarrow> closed_with b v out x b1 = closed_with b v out x b2"
  by (simp add: closed_with_def)

lemma finish_settled [simp]: "mt_settled (bk_meter b) \<noteq> None \<Longrightarrow> meter_finish out secs b = (Inr (), b)"
  by (auto simp: meter_finish_def Let_def)

lemma exit_settled: "mt_settled (bk_meter b) \<noteq> None \<Longrightarrow> snd (meter_exit env failed b) = b"
  by (auto simp: meter_exit_def seq_def gets_def ret_def meter_finish_def Let_def)

lemma finish_never_raises: "meter_finish out secs b = (Inr (), snd (meter_finish out secs b))"
  by (auto simp: meter_finish_def Let_def split: prod.splits)

lemma abandon_never_raises: "abandon out b = (Inr (), snd (abandon out b))"
  by (auto simp: abandon_def Let_def)

section \<open>Properties\<close>

fun turned_stream :: "upstream \<Rightarrow> bool" where
  "turned_stream (TurnedAway status readable) = readable"
| "turned_stream _ = False"

fun turned_away :: "child_reply \<Rightarrow> bool" where
  "turned_away (Reply status body) = (status \<noteq> 200)"
| "turned_away _ = False"

lemma request_body_cases:
  assumes "request_body env label reply ready build b1 = (r, b2)"
  obtains (failed) x where "r = Inl x" "b2 = b1" "\<not> turned_away reply"
    | (refused) status body b3 where "reply = Reply status body" "status \<noteq> 200" "r = Inl (Refused (map_agent_refusal status))"
        "b3 = snd (abandon (be_close env) b1)" "bk_gate b2 = bk_gate b3" "bk_meter b2 = bk_meter b3"
    | (served) b3 where "\<not> turned_away reply" "b3 = snd (meter_finish (be_close env) (elapsed (be_done env) (bk_meter b1)) b1)"
        "bk_gate b2 = bk_gate b3" "bk_meter b2 = bk_meter b3" "\<And>a. r = Inr a \<Longrightarrow> mh_seconds (snd a) = Some (mt_gpu (bk_meter b3))"
proof (cases reply)
  case (Reply status body)
  show thesis
  proof (cases "status = 200")
    case False
    obtain b3 where b3: "abandon (be_close env) b1 = (Inr (), b3)" using abandon_never_raises by blast
    have "r = Inl (Refused (map_agent_refusal status))" "b2 = b3\<lparr> bk_requests := bk_requests b3 @ [(label, ''refused'')] \<rparr>"
      using assms Reply False b3 by (simp_all add: request_body_def seq_def throw_def ret_def count_request_def modify_def)
    then show thesis using refused[OF Reply False, of b3] b3 by simp
  next
    case True
    show thesis
    proof (cases "Option.bind body ready")
      case None
      then show thesis using assms Reply True by (intro failed[of Raised]) (simp_all add: request_body_def seq_def throw_def ret_def of_option_def)
    next
      case (Some v)
      obtain b3 where b3: "meter_finish (be_close env) (elapsed (be_done env) (bk_meter b1)) b1 = (Inr (), b3)" using finish_never_raises by blast
      let ?b4 = "b3\<lparr> bk_requests := bk_requests b3 @ [(label, ''ok'')] \<rparr>"
      have "(r, b2) = (case build v (bk_meter b3) of None \<Rightarrow> (Inl Raised, ?b4) | Some a \<Rightarrow> (Inr (a, headers env False ?b4), ?b4))"
        unfolding assms[symmetric] using Reply True Some b3
        by (simp add: request_body_def seq_def throw_def ret_def of_option_def gets_def count_request_def modify_def split: option.split)
      then have "b2 = ?b4" "\<And>a. r = Inr a \<Longrightarrow> snd a = headers env False ?b4" by (auto split: option.splits)
      then show thesis using served[of b3] b3 Reply True by (simp add: headers_def)
    qed
  qed
next
  case Unreachable
  then show thesis using assms by (intro failed[of "Refused StoreUnavailable"]) (simp_all add: request_body_def seq_def throw_def)
next
  case Interrupted
  then show thesis using assms by (intro failed[of Raised]) (simp_all add: request_body_def seq_def throw_def)
qed

text \<open>Claim C38. A tenant pays for what ran.  Once a request of any route that does not stream has its reservation, that
  reservation is closed exactly once and whatever happens: without a charge when the serving child turned the request away, whose
  status the tenant is told as a refusal, and otherwise with the time between its start and its end as the only new line of the
  ledger; a store call that fails leaves the closing in the log.\<close>

theorem tenants_pay_for_what_ran:
  assumes "books (ga_store (bk_gate b))" "meter_enter env b = (Inr (), b1)" "mt_settled (bk_meter b) = None" "\<not> mt_transferred (bk_meter b)"
    and "serve_request env label reply ready build b = (r, b')"
  shows "\<exists>v secs. opened b v b1 \<and> secs \<in> {elapsed (be_done env) (bk_meter b1), elapsed (be_exit env) (bk_meter b1)} \<and>
    closed_with b v (be_close env) (if turned_away reply then None else Some secs) b' \<and>
    (\<forall>status body. reply = Reply status body \<and> status \<noteq> 200 \<longrightarrow> r = Inl (Refused (map_agent_refusal status))) \<and>
    (\<forall>a. r = Inr a \<longrightarrow> mh_seconds (snd a) = Some secs)"
proof -
  obtain v where v: "opened b v b1" "b1 = b\<lparr> bk_gate := bk_gate b1, bk_meter := (bk_meter b)\<lparr> mt_started := Some (be_enter env) \<rparr> \<rparr>"
    by (rule meter_enter_granted[OF assms(2)])
  have m1: "mt_op (bk_meter b1) = mt_op (bk_meter b)" "mt_settled (bk_meter b1) = None" "mt_started (bk_meter b1) \<noteq> None"
    by (subst v(2); use assms(3) in simp)+
  obtain b2 where b2: "request_body env label reply ready build b1 = (r, b2)" "b' = snd (meter_exit env (\<exists>x. r = Inl x) b2)"
    using assms(5,2) by (auto simp: serve_request_def with_meter_def seq_def split: prod.splits sum.splits)
  note fin = finish_closes[OF v(1) assms(1) refl m1(1,2) elapsed_nonneg]
  show ?thesis
    using b2(1)
  proof (cases rule: request_body_cases)
    case (failed x)
    have "b' = snd (meter_finish (be_close env) (elapsed (be_exit env) (bk_meter b1)) b1)"
      using b2(2) failed m1(3) by (simp add: meter_exit_def seq_def gets_def)
    then show ?thesis using v(1) fin failed by (intro exI[of _ v] exI[of _ "elapsed (be_exit env) (bk_meter b1)"]) auto
  next
    case (refused status body b3)
    note ab = abandon_closes[OF v(1) assms(1) refl m1(1,2), of "be_close env"]
    have "b' = b2" using b2(2) ab(2) exit_settled refused by simp
    then have "closed_with b v (be_close env) None b'" using ab(1) closed_with_gate refused(4,5) by blast
    then show ?thesis using v(1) refused by (intro exI[of _ v]) auto
  next
    case (served b3)
    have "b' = b2" using b2(2) fin(2) exit_settled served by simp
    then have "closed_with b v (be_close env) (Some (elapsed (be_done env) (bk_meter b1))) b'" using fin(1) closed_with_gate served(2,3) by blast
    then show ?thesis using v(1) served fin(3)
      by (intro exI[of _ v] exI[of _ "elapsed (be_done env) (bk_meter b1)"]) auto
  qed
qed

lemma swept_store: "ga_store (snd (sweep_orphaned ttl now Works g)) = snd (sweep ''inference'' ttl now (ga_store g))"
  by (simp add: sweep_orphaned_def split: prod.split)

lemma plan_refused: "stream_plan parse up = (is, refused, status, raises) \<Longrightarrow> refused = turned_stream up"
  by (cases up) (auto split: if_splits prod.splits)

lemma stream_run_state:
  "bk_gate (snd (stream_run env parse up stop b)) = bk_gate (snd (if turned_stream up then abandon (be_close env) b
     else meter_finish (be_close env) (elapsed (be_exit env) (bk_meter b)) b))"
  using plan_refused
  by (auto simp: stream_run_def Let_def count_request_def modify_def split: prod.splits option.splits)

text \<open>Claim C39. A stream is settled once and wherever it is cut.  The response of a streamed chat leaves its reservation open.
  Whatever the upstream does and at whichever item the consumer stops, the generator then closes it: without a charge when the
  upstream turned the request away, otherwise with the time the stream took.  A response whose body is never asked for closes
  nothing: the reservation stays open until a sweep finds it older than the time to live.\<close>

theorem stream_is_settled_wherever_it_is_cut:
  assumes "books (ga_store (bk_gate b))" "chat_stream env op tenant name messages b = (Inr h, b1)"
  shows "\<exists>v. opened (b\<lparr> bk_meter := new_meter op tenant name ''chat'' None \<rparr>) v b1 \<and>
    (\<forall>parse up stop. closed_with (b\<lparr> bk_meter := new_meter op tenant name ''chat'' None \<rparr>) v (be_close env)
       (if turned_stream up then None else Some (elapsed (be_exit env) (bk_meter b1))) (snd (stream_run env parse up stop b1))) \<and>
    (closed_op op (ga_store (snd (sweep_orphaned ttl now Works (bk_gate b1)))) \<longleftrightarrow> rv_created v < now - ttl)"
proof -
  let ?b = "b\<lparr> bk_meter := new_meter op tenant name ''chat'' None \<rparr>"
  obtain b0 where b0: "meter_enter env ?b = (Inr (), b0)" "b1 = b0\<lparr> bk_meter := (bk_meter b0)\<lparr> mt_transferred := True \<rparr> \<rparr>"
    using assms(2) by (auto simp: chat_stream_def seq_def with_meter_def modify_def gets_def throw_def transfer_def meter_exit_def ret_def
        split: if_splits prod.splits sum.splits)
  obtain v where v: "opened ?b v b0" "b0 = ?b\<lparr> bk_gate := bk_gate b0, bk_meter := (bk_meter ?b)\<lparr> mt_started := Some (be_enter env) \<rparr> \<rparr>"
    by (rule meter_enter_granted[OF b0(1)])
  have m1: "mt_op (bk_meter b0) = op" "mt_settled (bk_meter b0) = None"
    by (subst v(2); simp add: new_meter_def)+
  then have m: "bk_gate b1 = bk_gate b0" "mt_op (bk_meter b1) = mt_op (bk_meter ?b)" "mt_settled (bk_meter b1) = None"
    unfolding b0(2) by (simp_all add: new_meter_def)
  have bk: "books (ga_store (bk_gate ?b))" using assms(1) by simp
  have o: "opened ?b v b1" using v(1) m(1) by (simp add: opened_def)
  have "closed_with ?b v (be_close env) (if turned_stream up then None else Some (elapsed (be_exit env) (bk_meter b1))) (snd (stream_run env parse up stop b1))"
    for parse up stop
    using finish_closes(1)[OF v(1) bk m elapsed_nonneg] abandon_closes(1)[OF v(1) bk m] closed_with_gate[OF stream_run_state] by simp
  moreover have "closed_op op (ga_store (snd (sweep_orphaned ttl now Works (bk_gate b1)))) \<longleftrightarrow> rv_created v < now - ttl"
    using openedD(1,2)[OF o bk] o
    by (simp add: swept_store closed_op_def sweep_resv stale_def close_resv_def new_meter_def opened_def)
  ultimately show ?thesis using o by blast
qed

section \<open>Runs\<close>

definition demo_env :: breq_env where
  "demo_env = \<lparr> be_trunc = (\<lambda>u now. 0), be_default = 30, be_first = Call Works 5, be_retry = NoConn, be_close = Works,
     be_enter = 10, be_done = 200, be_exit = 310, be_quota = Some 6, be_clock = 0 \<rparr>"

definition demo_broker :: broker where
  "demo_broker = \<lparr> bk_gate = \<lparr> ga_store = demo_meter, ga_wal = [] \<rparr>, bk_meter = new_meter ''a'' ''t1'' ''lab'' ''chat'' None,
     bk_seconds = [], bk_requests = [] \<rparr>"

definition billed :: "broker \<Rightarrow> rat" where
  "billed b = ledger_total (Some ''t1'') (ga_store (bk_gate b))"


lemma demo_books: "books (ga_store (bk_gate demo_broker))"
  by (simp add: books_def demo_broker_def demo_meter_def)

definition demo_serve :: "breq_env \<Rightarrow> broker \<Rightarrow> (breq_exn + json \<times> meter_headers) \<times> broker" where
  "demo_serve env = serve_request env ''chat'' (Reply 200 (Some (JObj [(''text'', JStr ''hello'')]))) Some (chat_answer ''m'' 0)"

theorem tenants_pay_for_what_ran_witness:
  "\<exists>b1 a b'. meter_enter demo_env demo_broker = (Inr (), b1) \<and> demo_serve demo_env demo_broker = (Inr a, b') \<and>
     mh_seconds (snd a) = Some 190 \<and> closed_op ''a'' (ga_store (bk_gate b')) \<and> map us_seconds (dvals (ms_ledger (ga_store (bk_gate b')))) = [190]"
proof -
  have "(case meter_enter demo_env demo_broker of (Inl x, b1) \<Rightarrow> False | (Inr u, b1) \<Rightarrow> elapsed 200 (bk_meter b1) = 190)" by code_simp
  then obtain b1 where b1: "meter_enter demo_env demo_broker = (Inr (), b1)" "elapsed 200 (bk_meter b1) = 190"
    by (auto split: prod.splits sum.splits)
  have "(case demo_serve demo_env demo_broker of (Inl x, b') \<Rightarrow> False | (Inr a, b') \<Rightarrow> mh_seconds (snd a) = Some 190)" by code_simp
  then obtain a b' where b': "demo_serve demo_env demo_broker = (Inr a, b')" "mh_seconds (snd a) = Some 190"
    by (auto split: prod.splits sum.splits)
  have m: "mt_settled (bk_meter demo_broker) = None" "\<not> mt_transferred (bk_meter demo_broker)" "mt_op (bk_meter demo_broker) = ''a''"
    "be_close demo_env = Works" "ms_ledger (ga_store (bk_gate demo_broker)) = []"
    by (simp_all add: demo_broker_def new_meter_def demo_env_def demo_meter_def)
  from tenants_pay_for_what_ran[OF demo_books b1(1) m(1,2) b'(1)[unfolded demo_serve_def]] b1 b' m(3-5)
  show ?thesis by (auto simp: closed_with_def Let_def)
qed

theorem stream_is_settled_wherever_it_is_cut_witness:
  "\<exists>h b1. chat_stream demo_env ''a'' ''t1'' ''lab'' [(''user'', ''hi'')] demo_broker = (Inr h, b1) \<and>
     billed (snd (stream_run demo_env (\<lambda>_. None) (Streams [''x'', ''y''] True) (Some 0) b1)) = 300 \<and>
     \<not> closed_op ''a'' (ga_store (snd (sweep_orphaned 3600 100 Works (bk_gate b1))))"
proof -
  have "(case chat_stream demo_env ''a'' ''t1'' ''lab'' [(''user'', ''hi'')] demo_broker of (Inl x, b1) \<Rightarrow> False
      | (Inr h, b1) \<Rightarrow> elapsed 310 (bk_meter b1) = 300 \<and> (case map_of (ms_resv (ga_store (bk_gate b1))) ''a'' of None \<Rightarrow> False | Some v \<Rightarrow> rv_created v = 5))"
    by code_simp
  then obtain h b1 where b1: "chat_stream demo_env ''a'' ''t1'' ''lab'' [(''user'', ''hi'')] demo_broker = (Inr h, b1)" "elapsed 310 (bk_meter b1) = 300"
    "(case map_of (ms_resv (ga_store (bk_gate b1))) ''a'' of None \<Rightarrow> False | Some v \<Rightarrow> rv_created v = 5)"
    by (auto split: prod.splits sum.splits)
  from stream_is_settled_wherever_it_is_cut[OF demo_books b1(1), of 3600 100] obtain v where
    v: "opened (demo_broker\<lparr> bk_meter := new_meter ''a'' ''t1'' ''lab'' ''chat'' None \<rparr>) v b1"
    "\<forall>parse up stop. closed_with (demo_broker\<lparr> bk_meter := new_meter ''a'' ''t1'' ''lab'' ''chat'' None \<rparr>) v (be_close demo_env)
       (if turned_stream up then None else Some (elapsed (be_exit demo_env) (bk_meter b1))) (snd (stream_run demo_env parse up stop b1))"
    "closed_op ''a'' (ga_store (snd (sweep_orphaned 3600 100 Works (bk_gate b1)))) \<longleftrightarrow> rv_created v < 100 - 3600" by blast
  have c: "closed_with (demo_broker\<lparr> bk_meter := new_meter ''a'' ''t1'' ''lab'' ''chat'' None \<rparr>) v (be_close demo_env)
       (Some (elapsed (be_exit demo_env) (bk_meter b1))) (snd (stream_run demo_env (\<lambda>_. None) (Streams [''x'', ''y''] True) (Some 0) b1))"
    using v(2)[rule_format, where parse = "\<lambda>_. None" and up = "Streams [''x'', ''y''] True"] by simp
  have d: "be_close demo_env = Works" "be_exit demo_env = 310" "ms_ledger (ga_store (bk_gate demo_broker)) = []"
    by (simp_all add: demo_broker_def demo_env_def demo_meter_def)
  have "rv_created v = 5" "rv_tenant v = ''t1''" using v(1) b1(3) by (auto simp: opened_def new_meter_def split: option.splits)
  then show ?thesis using b1 c v(3) d
    by (intro exI[of _ h] exI[of _ b1]) (simp add: closed_with_def Let_def billed_def ledger_total_def)
qed

end
