(* ===== verification/GpuRoutes.thy ===== *)
theory GpuRoutes
  imports BrokerLane
begin

text \<open>
  \<open>job_override\<close> of \<open>hostagent/gpuroutes.py\<close>: the owner's pin, reorder, cancel, pause and resume over the queued lane of
  \<open>BrokerLane\<close>.  A status comes with the lane as the payload lists it; an exception that is not the store's own, which only a
  violated constraint is, leaves the handler.
\<close>

section \<open>The handler\<close>

definition override_call :: "rat \<Rightarrow> string \<Rightarrow> string \<Rightarrow> int option \<Rightarrow> lane_table \<Rightarrow> (lane_error + lane_table) option" where
  "override_call now i action position t =
     (if action = ''pin'' then Some (pin_job i t)
      else if action = ''reorder'' then Some (reorder_job i (case position of None \<Rightarrow> 1 | Some p \<Rightarrow> if p = 0 then 1 else p) t)
      else if action = ''cancel'' then Some (cancel_job now i t)
      else if action = ''pause'' \<or> action = ''resume'' then Some (reorder_job i (if action = ''pause'' then int (length (lane t)) else 1) t)
      else None)"

definition lane_rows :: "lane_table \<Rightarrow> (string \<times> int option) list" where
  "lane_rows t = map (\<lambda>i. (i, Option.bind (map_of t i) bj_pos)) (lane t)"

definition job_override :: "rat \<Rightarrow> string \<Rightarrow> string \<Rightarrow> int option \<Rightarrow> lane_table \<Rightarrow> (nat \<times> (string \<times> int option) list) option \<times> lane_table" where
  "job_override now i action position t =
     (case map_of t i of
        None \<Rightarrow> (Some (404, []), t)
      | Some j \<Rightarrow>
          if bj_state j = JRunning then (Some (409, []), t)
          else (case override_call now i action position t of
              None \<Rightarrow> (Some (400, []), t)
            | Some (Inl Violation) \<Rightarrow> (None, t)
            | Some (Inl e) \<Rightarrow> (Some (409, []), t)
            | Some (Inr t') \<Rightarrow> (Some (200, lane_rows t'), t')))"

section \<open>What an override does to the lane\<close>

text \<open>The lane after an override that is answered with 200.\<close>

definition overridden :: "string \<Rightarrow> string \<Rightarrow> int option \<Rightarrow> string list \<Rightarrow> string list" where
  "overridden i action position q =
     (if action = ''cancel'' then remove1 i q
      else if action = ''pause'' then remove1 i q @ [i]
      else if action = ''reorder'' then insert_at (case position of None \<Rightarrow> 1 | Some p \<Rightarrow> if p = 0 then 1 else p) i (remove1 i q)
      else i # remove1 i q)"

lemma insert_at_end:
  assumes "i \<in> set q"
  shows "insert_at (int (length q)) i (remove1 i q) = remove1 i q @ [i]"
proof -
  have "0 < length q" using assms by (rule length_pos_if_in_set)
  then have l: "int (length q) - 1 = int (length (remove1 i q))" using assms by (simp add: length_remove1 of_nat_diff Suc_le_eq)
  show ?thesis unfolding insert_at_def Let_def l by simp
qed

lemma cancel_keeps_others:
  assumes inv: "lane_inv t" and s: "cancel_job now i t = Inr t'" and k: "map_of t k = Some r" "\<not> is_queued r" "k \<noteq> i"
  shows "map_of t' k = Some r"
proof (cases "\<exists>j. map_of t i = Some j \<and> terminal (bj_state j)")
  case True
  then show ?thesis using s k by (auto simp: cancel_job_def)
next
  case False
  then obtain j where j: "map_of t i = Some j" "\<not> terminal (bj_state j)" using s by (auto simp: cancel_job_def split: option.splits)
  have run: "length (filter (\<lambda>(i, j). bj_state j = JRunning) (mark_cancelled now i t)) \<le> 1"
    unfolding mark_cancelled_def by (rule order_trans[OF running_le lane_ok_running[OF inv]]) simp
  have m: "lane_inv (mark_cancelled now i t)"
    using lane_leave(1)[OF inv j(1) _ _ run[unfolded mark_cancelled_def]] by (simp add: mark_cancelled_def is_queued_def)
  have mk: "map_of (mark_cancelled now i t) k = Some r" using k by (simp add: mark_cancelled_def map_of_dict_upd)
  obtain w where w: "compact (mark_cancelled now i t) = Inr w"
    "\<And>i'. i' \<notin> set (queued_ids (mark_cancelled now i t)) \<Longrightarrow> map_of w i' = map_of (mark_cancelled now i t) i'"
    using compact_keeps[OF m] by blast
  have "k \<notin> set (queued_ids (mark_cancelled now i t))" using not_in_lane[OF m mk k(2)] by simp
  then have "map_of w k = Some r" using w(2) mk by simp
  moreover have "t' = w" using s j w(1) by (simp add: cancel_job_def)
  ultimately show ?thesis by simp
qed

definition override_pos :: "string \<Rightarrow> int option \<Rightarrow> string list \<Rightarrow> int" where
  "override_pos action position q = (if action = ''reorder'' then (case position of None \<Rightarrow> 1 | Some p \<Rightarrow> if p = 0 then 1 else p)
     else if action = ''pause'' then int (length q) else 1)"

lemma override_call_reorders:
  "action \<noteq> ''cancel'' \<Longrightarrow> override_call now i action position t = Some r \<Longrightarrow> r = reorder_job i (override_pos action position (lane t)) t"
  by (simp add: override_call_def override_pos_def pin_job_def split: if_split_asm)

lemma override_pos_lane:
  "action \<noteq> ''cancel'' \<Longrightarrow> i \<in> set q \<Longrightarrow> insert_at (override_pos action position q) i (remove1 i q) = overridden i action position q"
  by (simp add: override_pos_def overridden_def insert_at_1 insert_at_end)

lemma override_call_lane:
  assumes "lane_inv t" "override_call now i action position t = Some (Inr t')"
  shows "lane_inv t' \<and> lane t' = overridden i action position (lane t) \<and>
    (\<forall>k r. map_of t k = Some r \<and> bj_state r \<noteq> JQueued \<and> k \<noteq> i \<longrightarrow> map_of t' k = Some r)"
proof (cases "action = ''cancel''")
  case True
  then have c: "cancel_job now i t = Inr t'" using assms(2) by (simp add: override_call_def)
  have "map_of t' k = Some r" if "map_of t k = Some r" "bj_state r \<noteq> JQueued" "k \<noteq> i" for k r
    by (rule cancel_keeps_others[OF assms(1) c that(1) _ that(3)]) (simp add: is_queued_def that(2))
  then show ?thesis using cancel_lane(1,2)[OF assms(1) c] True by (simp add: overridden_def)
next
  case False
  note c = override_call_reorders[OF False assms(2), symmetric]
  note r = reorder_lane[OF assms(1) c]
  have "map_of t' k = Some r" if "map_of t k = Some r" "bj_state r \<noteq> JQueued" for k r
    using r(3)[of k] not_in_lane[OF assms(1) that(1)] that by (simp add: is_queued_def)
  then show ?thesis using r(1,2) override_pos_lane[OF False r(4)] by simp
qed

lemma remove1_insert_at: "i \<notin> set q \<Longrightarrow> remove1 i (insert_at p i q) = q"
  unfolding insert_at_def Let_def by (subst remove1_append) (auto dest: in_set_takeD)

lemma remove1_overridden:
  assumes "distinct q"
  shows "remove1 i (overridden i action position q) = remove1 i q"
proof -
  have i: "i \<notin> set (remove1 i q)" using assms by simp
  have "remove1 i (remove1 i q @ [i]) = remove1 i q" using i by (simp add: remove1_append)
  then show ?thesis using remove1_insert_at[OF i] remove1_idem[OF i] by (simp add: overridden_def)
qed

lemma running_job_row:
  assumes "lane_inv t" "running_job t = Some i"
  obtains j where "map_of t i = Some j" "bj_state j = JRunning"
proof -
  obtain j xs where "filter (\<lambda>(i, j). bj_state j = JRunning) t = (i, j) # xs"
    using assms(2) by (auto simp: running_job_def split: list.splits)
  then have "(i, j) \<in> set (filter (\<lambda>(i, j). bj_state j = JRunning) t)" by simp
  then have j: "(i, j) \<in> set t" "bj_state j = JRunning" by simp_all
  have "distinct (dkeys t)" using assms(1) lane_ok_distinct by (simp add: lane_inv_def)
  then have "map_of t i = Some j" using j(1) map_of_set_iff by fast
  then show thesis using j(2) by (rule that)
qed

lemma job_override_cases:
  assumes "job_override now i action position t = (answer, t')"
  obtains (kept) "t' = t" "\<And>rows. answer \<noteq> Some (200, rows)"
    | (moved) "override_call now i action position t = Some (Inr t')" "answer = Some (200, lane_rows t')"
proof (cases "map_of t i")
  case None
  then show thesis using assms by (intro kept) (auto simp: job_override_def)
next
  case (Some j)
  show thesis
  proof (cases "bj_state j = JRunning")
    case True
    then show thesis using assms Some by (intro kept) (auto simp: job_override_def)
  next
    case False
    note un = assms[unfolded job_override_def Some option.case if_not_P[OF False]]
    show thesis
    proof (cases "override_call now i action position t")
      case None
      then show thesis using un by (intro kept) auto
    next
      case (Some r)
      show thesis
      proof (cases r)
        case (Inl e)
        then show thesis using un Some by (intro kept) (cases e; auto)+
      next
        case (Inr u)
        then show thesis using un Some by (intro moved) auto
      qed
    qed
  qed
qed

section \<open>Properties\<close>

text \<open>An override that is not answered with 200 changes nothing; one that is moves its job and no other, keeps the lane in order
  and every row outside it, the running job's among them, as it was.\<close>

theorem override_moves_one_job:
  assumes "lane_inv t" "job_override now i action position t = (answer, t')"
  shows "(\<forall>rows. answer = Some (200, rows) \<longrightarrow> lane_inv t' \<and> lane t' = overridden i action position (lane t) \<and> map fst rows = lane t' \<and>
        remove1 i (lane t') = remove1 i (lane t) \<and> (\<forall>k r. map_of t k = Some r \<and> bj_state r \<noteq> JQueued \<and> k \<noteq> i \<longrightarrow> map_of t' k = Some r)) \<and>
      ((\<forall>rows. answer \<noteq> Some (200, rows)) \<longrightarrow> t' = t) \<and> (running_job t = Some i \<longrightarrow> answer = Some (409, []) \<and> t' = t)"
proof -
  have "lane_inv t' \<and> lane t' = overridden i action position (lane t) \<and> map fst rows = lane t' \<and> remove1 i (lane t') = remove1 i (lane t) \<and>
      (\<forall>k r. map_of t k = Some r \<and> bj_state r \<noteq> JQueued \<and> k \<noteq> i \<longrightarrow> map_of t' k = Some r)" if "answer = Some (200, rows)" for rows
  proof -
    have j: "override_call now i action position t = Some (Inr t')" "rows = lane_rows t'"
      using job_override_cases[OF assms(2)] that by blast+
    have "distinct (lane t)" using assms(1) distinct_lane by (simp add: lane_inv_def)
    then show ?thesis using override_call_lane[OF assms(1) j(1)] j(2) remove1_overridden by (simp add: lane_rows_def comp_def)
  qed
  moreover have "t' = t" if "\<forall>rows. answer \<noteq> Some (200, rows)"
    using job_override_cases[OF assms(2)] that by blast
  moreover have "answer = Some (409, []) \<and> t' = t" if run: "running_job t = Some i"
  proof -
    obtain j where "map_of t i = Some j" "bj_state j = JRunning" by (rule running_job_row[OF assms(1) run])
    then have "job_override now i action position t = (Some (409, []), t)" by (simp add: job_override_def)
    then show ?thesis using assms(2) by simp
  qed
  ultimately show ?thesis by blast
qed

text \<open>A pause is a move to the tail and a resume a move to the head: a paused job that is alone in the lane is the next to start,
  and pausing and resuming a job puts it before every job that was ahead of it.\<close>

theorem resume_overtakes_the_lane:
  assumes "lane_inv t" "job_override now i ''pause'' None t = (Some (200, rows), t1)" "job_override now' i ''resume'' None t1 = (Some (200, rows'), t2)"
  shows "lane t1 = remove1 i (lane t) @ [i] \<and> lane t2 = i # remove1 i (lane t) \<and> (remove1 i (lane t) = [] \<longrightarrow> lane t1 = [i])"
proof -
  have c1: "override_call now i ''pause'' None t = Some (Inr t1)" by (rule job_override_cases[OF assms(2)]) blast+
  have c2: "override_call now' i ''resume'' None t1 = Some (Inr t2)" by (rule job_override_cases[OF assms(3)]) blast+
  have "distinct (lane t)" using assms(1) distinct_lane by (simp add: lane_inv_def)
  note p = override_call_lane[OF assms(1) c1] and m = remove1_overridden[OF this, of i "''pause''" None]
  have t1: "lane t1 = remove1 i (lane t) @ [i]" using p by (simp add: overridden_def)
  have "lane t2 = overridden i ''resume'' None (lane t1)" using override_call_lane[OF conjunct1[OF p] c2] by blast
  then have "lane t2 = i # remove1 i (lane t1)" by (simp add: overridden_def)
  then show ?thesis using t1 m p by simp
qed

theorem resume_overtakes_the_lane_witness:
  "lane demo_lane = [''a'', ''b'', ''c''] \<and> (\<exists>t1 t2. snd (job_override 1 ''c'' ''pause'' None demo_lane) = t1 \<and>
     snd (job_override 2 ''c'' ''resume'' None t1) = t2 \<and> lane t2 = [''c'', ''a'', ''b''])"
proof -
  let ?t1 = "snd (job_override 1 ''c'' ''pause'' None demo_lane)"
  have l: "lane demo_lane = [''a'', ''b'', ''c'']" by code_simp
  have "map_option fst (fst (job_override 1 ''c'' ''pause'' None demo_lane)) = Some 200" by code_simp
  then obtain r1 where r1: "job_override 1 ''c'' ''pause'' None demo_lane = (Some (200, r1), ?t1)"
    by (cases "job_override 1 ''c'' ''pause'' None demo_lane") auto
  have "map_option fst (fst (job_override 2 ''c'' ''resume'' None ?t1)) = Some 200" by code_simp
  then obtain r2 where r2: "job_override 2 ''c'' ''resume'' None ?t1 = (Some (200, r2), snd (job_override 2 ''c'' ''resume'' None ?t1))"
    by (cases "job_override 2 ''c'' ''resume'' None ?t1") auto
  from resume_overtakes_the_lane[OF demo_lane_inv r1 r2] l show ?thesis by simp
qed

end
