(* ===== verification/Spec2Isabelle.thy ===== *)
theory Spec2Isabelle
  imports CoordDecisions EngineLifecycle BrokerLane Tenancy MeteringOutbox Activation JobManager ShapeLanes Contracts PolicyOffers SwapRuns Migrations GoLive Shadow Drift Bridge BrokerRequests GpuRoutes
begin

text \<open>
  Verification development of the mlops-lite control plane: a single-operator machine-learning platform with one GPU.  A
  gateway (\<open>gateway/app\<close>) serves HTTP and keeps the durable state in one PostgreSQL database through
  \<open>platformlib/storeimpl\<close>; a host agent (\<open>hostagent\<close>) owns the GPU, runs the serving engines and the training jobs and
  journals them to the same database; the two exchange the payloads of \<open>platformlib/contracts.py\<close>.

  What is modelled, theory by theory.

  GPU residency.  \<open>GpuConfig\<close>: the tunables of \<open>hostagent/gpuconfig.py\<close>.  \<open>Coordinator\<close>: every critical section of
  \<open>hostagent/coordinator.py\<close> on the record \<open>coord\<close> (residents, reservations, waiters, claims, the exclusive job), one
  definition per section in the order of the file.  \<open>CoordMachine\<close> and \<open>CoordThreads\<close>: the threads around the sections, an
  event per section, so that everything the lock allows is a run.  \<open>Ledger\<close> is the abstract accounting of admitted bytes and
  \<open>CoordLedger\<close>, \<open>CoordInvariants\<close>, \<open>CoordReach\<close>, \<open>CoordProps\<close>, \<open>CoordDecisions\<close> hold the invariants, their preservation by
  every event, the refinement of the ledger, and the properties of the decisions and of reachable states.

  The single slot.  \<open>SlotAdmission\<close>: \<open>hostagent/admission.py\<close>, the slot with its holder and its swap reservation.
  \<open>EngineLifecycle\<close>: \<open>hostagent/lifecycle.py\<close> over it, load, drain, teardown, wedge and idle reap of the engines.
  \<open>Bridge\<close>: \<open>hostagent/coordadmission.py\<close>, which stands the coordinator in for the slot: acquire, release, the child update and
  the unloading of victims over the coordinator's threads and the engine runtimes.

  The served language model.  \<open>LlmResolve\<close>: \<open>platformlib/llmresolve.py\<close> and the resolution of \<open>hostagent/serving_llm.py\<close>, from a
  registry version to a base file and an adapter.  \<open>ServingBinding\<close>: the binding of \<open>adapters/llama.py\<close> with its time to live.
  \<open>Swap\<close>: \<open>hostagent/swap.py\<close>, preemption, rollback and reload over the slot, the lifecycle and the binding; \<open>SwapProps\<close>,
  \<open>ReloadOps\<close> and \<open>SwapRuns\<close> show what a swap promises, when a reload replays, and runs in which it goes wrong.

  Jobs.  \<open>Json\<close>: the JSON values that payloads and columns carry.  \<open>JobStore\<close>: the jobs table and \<open>hostagent/journal.py\<close>
  that writes it before its memory; \<open>JobManager\<close>: \<open>hostagent/jobs.py\<close> over the journal and the slot; \<open>ShapeLanes\<close>:
  \<open>hostagent/scheduler.py\<close>, the fairness between inference and waiting jobs; \<open>BrokerLane\<close>: the persisted job queue of
  \<open>storeimpl/brokerjobs.py\<close> under the constraints of \<open>migrations/003_broker.sql\<close>; \<open>GpuRoutes\<close>: the owner's
  overrides of \<open>hostagent/gpuroutes.py\<close> over it.

  Tenants and usage.  \<open>Tenancy\<close>: tenants, keys and quotas and the gateway's guards.  \<open>Metering\<close>: reservations, settlements
  and the ledger of \<open>storeimpl/metering.py\<close>, split where other transactions commit.  \<open>MeteringOutbox\<close>: the gateway's
  write-ahead log over it (\<open>gateway/app/metering.py\<close>).  \<open>BrokerRequests\<close>: the tenants' routes of \<open>routers/broker_openai.py\<close>, plain
  and streamed, each around one reservation.

  Activation.  \<open>Activation\<close>: \<open>gateway/app/activation.py\<close> over \<open>storeimpl/activations.py\<close>; a pass is the list of the worlds that are
  durable one after another, so that a crash is a prefix of it.  \<open>Migrations\<close>: \<open>platformlib/migrations.py\<close>, the ordered run over the
  table of applied files, likewise with its prefixes.

  Judging models.  \<open>Metrics\<close>: the metrics of \<open>gateway/app/evaluation.py\<close> against reference functions (pairs ordered by a score, the
  least edit script).  \<open>EvalGate\<close>: the metric registry and the promotion gate; \<open>Evaluate\<close>: logging and reading evaluations.
  \<open>Registry\<close>: \<open>gateway/app/registry.py\<close> over the model registry's client; \<open>GoLive\<close>: \<open>promotion.py\<close>, the order of gate, alias and
  activation.  \<open>QualityWindow\<close>: predictions, captured inputs and labels and the windowed breach of \<open>quality.py\<close>; \<open>Shadow\<close>:
  \<open>shadow.py\<close> and the choice of the verdict a promotion looks at; \<open>Drift\<close>: the stability index of \<open>monitoring.py\<close>.

  The closed loop.  \<open>Contracts\<close>: \<open>platformlib/contracts.py\<close> and the validation of policies.  \<open>Effects\<close>: computations that
  keep state and may raise, their weakest preconditions and the relations they keep.  \<open>PolicyStore\<close>: \<open>gateway/app/policies.py\<close>
  with its tables and the retrain cooldown of \<open>quality.py\<close>; \<open>PolicyLoop\<close>: the tick of \<open>gateway/app/scheduler.py\<close> and the
  operator's accept and dismiss; \<open>PolicyParks\<close> and \<open>PolicyOffers\<close>: what happens to parked retrains and to suggestions.

  Conventions.  A Python class with state is a record and each method a definition on it; a critical section or one database
  statement is one step; dictionaries are association lists (\<open>Prelude\<close>); floats that carry bytes, seconds or probabilities are
  rationals, metrics are numbers that may be infinite or undefined, cells of text enter parsed; an exception is a value of a sum, an option or an error datatype.  Clocks, random ids, digests, the network,
  NVML and whatever another program answers are arguments; a store call works, fails before it commits, or commits and loses its
  answer.  Concurrency is interleaving: a component's machine has one event per atomic step, and invariants are proved for all runs.

  Interfaces.  \<open>machine\<close> (\<open>Prelude\<close>) packages a step function with an invariant and is interpreted on each machine of the
  model; \<open>kept\<close>, \<open>store_kept\<close> and \<open>world_kept\<close> (\<open>Effects\<close>, \<open>PolicyStore\<close>) are the contract of a relation that store calls
  respect and are interpreted for the relations the policy loop keeps; \<open>loop_invariant\<close> (\<open>PolicyLoop\<close>) is what the gateway's
  events owe an invariant; \<open>idempotent_log\<close> (\<open>MeteringOutbox\<close>) is a log that may be replayed; \<open>bridge_kept\<close> (\<open>Bridge\<close>) is an
  invariant of the coordinator's threads, carried to all runs of the bridge.

  Bounds and fuel.  Admission attempts end at \<open>cfg_max_attempts\<close>; \<open>wait_ready\<close> ends by the distance to its deadline; a pass over an
  activation is a fixed sequence of branches and \<open>MAX_ATTEMPTS\<close> is five; lane positions stay under the offset 1000000 that
  renumbering adds; a burst admits at most burst plus the requests already at the coordinator; a parked retrain is due
  within the larger of its base and its largest backoff.

  Not modelled.  The HTTP layer (the agent's \<open>main.py\<close>, the gateway's routers) beyond the guards and the handlers named above,
  and the operator console: they parse requests and render what the modelled parts decide.  Engine adapters, serving
  children, live predictors and training flows, which call other programs; object and artifact stores, the database driver and
  the pooled connection; the batch sequence of \<open>batch_session.py\<close>, whose seams nothing implements; counters, gauges, logs and the
  TypeScript console.
\<close>

end
